(* ===== verification/Rs_Prelude.thy ===== *)
theory Rs_Prelude
  imports Main "HOL-Library.Word" "HOL-Library.Monad_Syntax"
begin

unbundle bit_operations_syntax

text \<open>
  What every component of the development shares: the machine integers of the LP64 data
  model, the byte memories the code reads and writes through raw pointers, and the lemmas
  about them that the component proofs use.

  \<^item> \<open>uint8_t\<close>, \<open>uint16_t\<close>, \<open>uint32_t\<close>, \<open>uint64_t\<close> and \<open>size_t\<close> are
    \<open>u8\<close>, \<open>u16\<close>, \<open>u32\<close>, \<open>u64\<close> and \<open>u64\<close>; their arithmetic wraps around.
  \<^item> A block of memory is a list of bytes; a byte that was never written (fresh from
    \<open>malloc\<close>) is \<open>None\<close>.
  \<^item> Operations whose C++ code can run into undefined behaviour (an access outside the
    block, a read of an indeterminate byte, a shift that is too wide, a null dereference)
    return an \<open>option\<close>; \<open>None\<close> is the undefined outcome.
\<close>

type_synonym u8 = "8 word"
type_synonym u16 = "16 word"
type_synonym u32 = "32 word"
type_synonym u64 = "64 word"
type_synonym mem = "8 word option list"

named_theorems rs_defs
named_theorems rs_mem

section \<open>Options\<close>

lemma bind_Some_iff [rs_mem]:
  "Option.bind x f = Some y \<longleftrightarrow> (\<exists>a. x = Some a \<and> f a = Some y)"
  by (cases x) auto

lemma those_Some_iff: "those xs = Some ys \<longleftrightarrow> xs = map Some ys"
proof (induction xs arbitrary: ys)
  case Nil
  then show ?case by auto
next
  case (Cons x xs)
  then show ?case
    by (cases x; cases ys) (auto split: option.splits)
qed

lemma those_map_Some [simp]: "those (map Some ys) = Some ys"
  by (simp add: those_Some_iff)

section \<open>Byte memories\<close>

text \<open>\<open>memcpy\<close> out of a block (indeterminate bytes are copied as they are), \<open>memcpy\<close>
  into a block, and a read that needs the value of every byte.\<close>

definition mem_get :: "mem \<Rightarrow> nat \<Rightarrow> nat \<Rightarrow> mem option" where
  "mem_get m p n = (if p + n \<le> length m then Some (take n (drop p m)) else None)"

definition mem_put :: "mem \<Rightarrow> nat \<Rightarrow> mem \<Rightarrow> mem option" where
  "mem_put m p bs =
     (if p + length bs \<le> length m
      then Some (take p m @ bs @ drop (p + length bs) m) else None)"

definition mem_read :: "mem \<Rightarrow> nat \<Rightarrow> nat \<Rightarrow> u8 list option" where
  "mem_read m p n = Option.bind (mem_get m p n) those"

definition mem_write :: "mem \<Rightarrow> nat \<Rightarrow> u8 list \<Rightarrow> mem option" where
  "mem_write m p bs = mem_put m p (map Some bs)"

lemma mem_get_length: "mem_get m p n = Some bs \<Longrightarrow> length bs = n"
  by (auto simp: mem_get_def split: if_splits)

lemma mem_put_length: "mem_put m p bs = Some m' \<Longrightarrow> length m' = length m"
  by (auto simp: mem_put_def split: if_splits)

lemma mem_put_fits: "mem_put m p bs = Some m' \<Longrightarrow> p + length bs \<le> length m"
  by (auto simp: mem_put_def split: if_splits)

lemma mem_put_Some: "p + length bs \<le> length m \<Longrightarrow> \<exists>m'. mem_put m p bs = Some m'"
  by (simp add: mem_put_def)

lemma mem_put_nth:
  assumes "mem_put m p bs = Some m'" and "i < length m"
  shows "m' ! i = (if p \<le> i \<and> i < p + length bs then bs ! (i - p) else m ! i)"
proof -
  from assms(1) have m': "m' = take p m @ bs @ drop (p + length bs) m"
    and fits: "p + length bs \<le> length m"
    by (auto simp: mem_put_def split: if_splits)
  consider "i < p" | "p \<le> i" "i < p + length bs" | "p + length bs \<le> i" by linarith
  then show ?thesis
  proof cases
    case 1
    then show ?thesis using fits by (simp add: m' nth_append)
  next
    case 2
    then have "i - p < length bs" by linarith
    with 2 show ?thesis using fits by (simp add: m' nth_append)
  next
    case 3
    then have "\<not> i < p" "\<not> i - p < length bs" and idx: "p + length bs + (i - p - length bs) = i"
      by linarith+
    then have "m' ! i = drop (p + length bs) m ! (i - p - length bs)"
      using fits by (simp add: m' nth_append)
    also have "\<dots> = m ! i"
      using fits idx by simp
    finally show ?thesis using 3 by simp
  qed
qed

lemma mem_get_cong:
  assumes "\<And>i. p \<le> i \<Longrightarrow> i < p + n \<Longrightarrow> m ! i = m' ! i"
    and "p + n \<le> length m" and "p + n \<le> length m'"
  shows "mem_get m p n = mem_get m' p n"
proof -
  have "take n (drop p m) = take n (drop p m')"
    by (rule nth_equalityI) (use assms in auto)
  with assms show ?thesis by (simp add: mem_get_def)
qed

lemma mem_get_put_same:
  "mem_put m p bs = Some m' \<Longrightarrow> mem_get m' p (length bs) = Some bs"
  by (auto simp: mem_put_def mem_get_def split: if_splits)

lemma mem_get_put_disjoint:
  assumes "mem_put m p bs = Some m'" and "q + n \<le> p \<or> p + length bs \<le> q"
  shows "mem_get m' q n = mem_get m q n"
proof (cases "q + n \<le> length m")
  case True
  show ?thesis
  proof (rule mem_get_cong)
    fix i assume "q \<le> i" "i < q + n"
    with assms True show "m' ! i = m ! i"
      by (auto simp: mem_put_nth)
  qed (use assms True mem_put_length in auto)
next
  case False
  with assms show ?thesis by (simp add: mem_get_def mem_put_length)
qed

lemma mem_read_write_same:
  "mem_write m p bs = Some m' \<Longrightarrow> mem_read m' p (length bs) = Some bs"
  using mem_get_put_same[of m p "map Some bs" m'] by (simp add: mem_write_def mem_read_def)

lemma mem_write_length: "mem_write m p bs = Some m' \<Longrightarrow> length m' = length m"
  by (simp add: mem_write_def mem_put_length)

lemma mem_write_Some: "p + length bs \<le> length m \<Longrightarrow> \<exists>m'. mem_write m p bs = Some m'"
  by (simp add: mem_write_def mem_put_Some)

lemma mem_write_fits: "mem_write m p bs = Some m' \<Longrightarrow> p + length bs \<le> length m"
  using mem_put_fits[of m p "map Some bs"] by (simp add: mem_write_def)

lemma mem_write_nth:
  assumes "mem_write m p bs = Some m'" and "i < length m"
  shows "m' ! i = (if p \<le> i \<and> i < p + length bs then Some (bs ! (i - p)) else m ! i)"
  using mem_put_nth[of m p "map Some bs" m' i] assms by (auto simp: mem_write_def)

lemma mem_read_cong:
  assumes "\<And>i. p \<le> i \<Longrightarrow> i < p + n \<Longrightarrow> m ! i = m' ! i"
    and "p + n \<le> length m" and "p + n \<le> length m'"
  shows "mem_read m p n = mem_read m' p n"
  using mem_get_cong[OF assms] by (simp add: mem_read_def)

lemma mem_read_length: "mem_read m p n = Some bs \<Longrightarrow> length bs = n"
  by (auto simp: mem_read_def bind_Some_iff those_Some_iff dest: mem_get_length)

lemma mem_read_nth:
  assumes "mem_read m p n = Some bs" and "i < n"
  shows "m ! (p + i) = Some (bs ! i)"
proof -
  from assms(1) have *: "take n (drop p m) = map Some bs" and "p + n \<le> length m"
    by (auto simp: mem_read_def mem_get_def bind_Some_iff those_Some_iff split: if_splits)
  from assms(2) \<open>p + n \<le> length m\<close> have "m ! (p + i) = take n (drop p m) ! i" by simp
  also have "\<dots> = Some (bs ! i)"
    using assms(2) mem_read_length[OF assms(1)] by (simp add: *)
  finally show ?thesis .
qed

section \<open>Machine words\<close>

text \<open>\<open>(p + 3) & ~3\<close> and its kin: round up to a multiple of a power of two.\<close>

lemma unat_word_le_less: "(x :: 'a :: len word) \<le> y \<Longrightarrow> unat y < n \<Longrightarrow> unat x < n"
  by (simp add: word_le_nat_alt)

lemma unat_plus_if_fits:
  "unat (x :: 'a :: len word) + unat y < 2 ^ LENGTH('a) \<Longrightarrow> unat (x + y) = unat x + unat y"
  by (simp add: unat_word_ariths)

lemma unat_mult_if_fits:
  "unat (x :: 'a :: len word) * unat y < 2 ^ LENGTH('a) \<Longrightarrow> unat (x * y) = unat x * unat y"
  by (simp add: unat_word_ariths)

lemma unat_drop_bit_div: "unat (drop_bit n (w :: 'a :: len word)) = unat w div 2 ^ n"
  by (simp only: unat_drop_bit_eq drop_bit_eq_div[of n "unat w"])

lemma unat_take_bit_mod: "unat (take_bit n (w :: 'a :: len word)) = unat w mod 2 ^ n"
  by (simp only: unsigned_take_bit_eq take_bit_eq_mod[of n "unat w"])

lemma take_bit_small: "unat (w :: 'a :: len word) < 2 ^ n \<Longrightarrow> take_bit n w = w"
  by (simp only: word_unat_eq_iff unat_take_bit_mod mod_less)

lemma ucast_u32_u64: "unat (v :: u64) < 2 ^ 32 \<Longrightarrow> ucast (ucast v :: u32) = v"
proof -
  assume v: "unat v < 2 ^ 32"
  have "(ucast (ucast v :: u32) :: u64) = take_bit 32 v"
    by (rule bit_word_eqI) (simp add: bit_simps)
  also have "\<dots> = v" by (rule take_bit_small[OF v])
  finally show ?thesis .
qed

lemma Suc_4_8: "Suc (Suc (Suc (Suc 0))) = 4" "Suc (Suc (Suc (Suc 4))) = 8"
  by simp_all

lemma unat_exp_word: "k < LENGTH('a) \<Longrightarrow> unat (push_bit k 1 :: 'a :: len word) = 2 ^ k"
proof -
  assume k: "k < LENGTH('a)"
  have "(push_bit k 1 :: 'a word) = of_nat (2 ^ k)"
    by (simp add: push_bit_eq_mult)
  moreover have "(2 :: nat) ^ k < 2 ^ LENGTH('a)"
    using k by (intro power_strict_increasing) auto
  ultimately show ?thesis by (simp only: unat_of_nat mod_less)
qed

lemma unat_less_exp: "unat (w :: 'a :: len word) < 2 ^ LENGTH('a)"
  by (rule unsigned_less)

lemma unat_and_not_mask:
  "unat ((x :: 'a :: len word) AND NOT (mask k)) = unat x - unat x mod 2 ^ k"
proof -
  let ?y = "x AND NOT (mask k)"
  have "?y = push_bit k (drop_bit k x)"
    by (rule bit_word_eqI) (auto simp: bit_simps)
  then have split: "x = ?y + take_bit k x"
    by (metis bits_ident)
  have le: "?y \<le> x"
    by (rule word_and_le2)
  have "unat (x - ?y) = unat x - unat ?y"
    using le by (simp add: unat_sub)
  moreover have "x - ?y = take_bit k x"
    using split by (metis add_diff_cancel_left')
  moreover have "unat (take_bit k x) = unat x mod 2 ^ k"
    by (rule unat_take_bit_mod)
  moreover have "unat ?y \<le> unat x"
    using le by (simp add: word_le_nat_alt)
  ultimately show ?thesis by simp
qed

end
