(* ===== verification/Rs_Memory.thy ===== *)
theory Rs_Memory
  imports Rs_Prelude
begin

text \<open>
  The memory that allocations live in: blocks obtained from the C library, pointers into them,
  and the library functions the driver calls on them (\<open>memcpy\<close>, \<open>memset\<close>, \<open>memalign\<close>, \<open>realloc\<close>,
  \<open>free\<close>). An access outside a live block is undefined (\<open>None\<close>). The laws say what a read sees
  after a write, and when an operation is defined.
\<close>

section \<open>Pointers and blocks\<close>

text \<open>A pointer is a block with an offset, or a bare number; the null pointer is the number 0.
  Blocks that have been freed are \<open>None\<close>.\<close>

type_synonym hptr = "nat option \<times> u64"
type_synonym heap = "mem option list"

definition nullp :: hptr where
  "nullp = (None, 0)"

definition ptr_add :: "hptr \<Rightarrow> u64 \<Rightarrow> hptr" where
  "ptr_add p n = (fst p, snd p + n)"

text \<open>\<open>(size_t)p\<close> is known for a pointer that is a bare number.\<close>

definition ptr_int :: "hptr \<Rightarrow> u64 option" where
  "ptr_int p = (case fst p of None \<Rightarrow> Some (snd p) | Some b \<Rightarrow> None)"

definition h_block :: "heap \<Rightarrow> hptr \<Rightarrow> mem option" where
  "h_block h p = (case fst p of None \<Rightarrow> None | Some b \<Rightarrow> if b < length h then h ! b else None)"

definition h_get :: "heap \<Rightarrow> hptr \<Rightarrow> nat \<Rightarrow> mem option" where
  "h_get h p n = do { m \<leftarrow> h_block h p; mem_get m (unat (snd p)) n }"

definition h_put :: "heap \<Rightarrow> hptr \<Rightarrow> mem \<Rightarrow> heap option" where
  "h_put h p bs =
     do { b \<leftarrow> fst p;
          m \<leftarrow> h_block h p;
          m' \<leftarrow> mem_put m (unat (snd p)) bs;
          Some (h[b := Some m']) }"

section \<open>The C library\<close>

text \<open>\<open>memcpy\<close> of overlapping ranges is undefined.\<close>

definition h_overlap :: "hptr \<Rightarrow> hptr \<Rightarrow> nat \<Rightarrow> bool" where
  "h_overlap p q n \<longleftrightarrow>
     fst p = fst q \<and> unat (snd p) < unat (snd q) + n \<and> unat (snd q) < unat (snd p) + n"

definition h_memcpy :: "heap \<Rightarrow> hptr \<Rightarrow> hptr \<Rightarrow> nat \<Rightarrow> heap option" where
  "h_memcpy h dst src n =
     (if h_overlap dst src n then None else do { bs \<leftarrow> h_get h src n; h_put h dst bs })"

definition h_memset :: "heap \<Rightarrow> hptr \<Rightarrow> u8 \<Rightarrow> nat \<Rightarrow> heap option" where
  "h_memset h p v n = h_put h p (replicate n (Some v))"

definition h_malloc :: "heap \<Rightarrow> nat \<Rightarrow> hptr \<times> heap" where
  "h_malloc h n = ((Some (length h), 0), h @ [Some (replicate n None)])"

definition h_free :: "heap \<Rightarrow> hptr \<Rightarrow> heap option" where
  "h_free h p =
     (case p of
        (None, n) \<Rightarrow> if n = 0 then Some h else None
      | (Some b, n) \<Rightarrow> if n = 0 \<and> b < length h \<and> h ! b \<noteq> None then Some (h[b := None]) else None)"

text \<open>\<open>realloc\<close> moves the block: the start of the old contents, then indeterminate bytes.\<close>

definition h_realloc :: "heap \<Rightarrow> hptr \<Rightarrow> nat \<Rightarrow> (hptr \<times> heap) option" where
  "h_realloc h p n =
     (if p = nullp then Some (h_malloc h n)
      else if snd p \<noteq> 0 then None
      else do { m \<leftarrow> h_block h p;
                h1 \<leftarrow> h_free h p;
                Some ((Some (length h1), 0), h1 @ [Some (take n m @ replicate (n - length m) None)]) })"

section \<open>Laws\<close>

definition blk_len :: "heap \<Rightarrow> nat \<Rightarrow> nat option" where
  "blk_len h b = (if b < length h then map_option length (h ! b) else None)"

lemma ptr_add_0 [simp]: "ptr_add p 0 = p"
  by (simp add: ptr_add_def)

lemma ptr_add_add: "ptr_add (ptr_add p m) n = ptr_add p (m + n)"
  by (simp add: ptr_add_def add.assoc)

lemma ptr_add_pair [simp]: "ptr_add (b, x) n = (b, x + n)"
  by (simp add: ptr_add_def)

lemma h_put_Some_iff:
  "h_put h p bs = Some h' \<longleftrightarrow>
     (\<exists>b m m'. fst p = Some b \<and> b < length h \<and> h ! b = Some m \<and>
        mem_put m (unat (snd p)) bs = Some m' \<and> h' = h[b := Some m'])"
  by (cases "fst p") (auto simp: h_put_def h_block_def bind_Some_iff split: if_splits)

lemma h_get_Some_iff:
  "h_get h p n = Some bs \<longleftrightarrow>
     (\<exists>b m. fst p = Some b \<and> b < length h \<and> h ! b = Some m \<and> mem_get m (unat (snd p)) n = Some bs)"
  by (cases "fst p") (auto simp: h_get_def h_block_def bind_Some_iff split: if_splits)

lemma h_put_length [rs_mem]: "h_put h p bs = Some h' \<Longrightarrow> length h' = length h"
  by (auto simp: h_put_Some_iff)

lemma h_put_blk_len: "h_put h p bs = Some h' \<Longrightarrow> blk_len h' b = blk_len h b"
  by (auto simp: h_put_Some_iff blk_len_def nth_list_update mem_put_length)

lemma h_get_length: "h_get h p n = Some bs \<Longrightarrow> length bs = n"
  by (auto simp: h_get_Some_iff mem_get_length)

lemma h_get_fits:
  assumes "blk_len h b = Some len" and "unat off + n \<le> len"
  shows "\<exists>bs. h_get h (Some b, off) n = Some bs \<and> length bs = n"
  using assms by (auto simp: blk_len_def h_get_def h_block_def mem_get_def split: if_splits)

lemma h_put_fits:
  assumes "blk_len h b = Some len" and "unat off + length bs \<le> len"
  shows "\<exists>h'. h_put h (Some b, off) bs = Some h'"
  using assms by (auto simp: blk_len_def h_put_def h_block_def mem_put_def split: if_splits)

lemma h_get_put_same: "h_put h p bs = Some h' \<Longrightarrow> h_get h' p (length bs) = Some bs"
  by (auto simp: h_put_Some_iff h_get_Some_iff mem_get_put_same)

text \<open>Two ranges have no byte in common.\<close>

definition h_disjoint :: "hptr \<Rightarrow> nat \<Rightarrow> hptr \<Rightarrow> nat \<Rightarrow> bool" where
  "h_disjoint p m q n \<longleftrightarrow>
     fst p \<noteq> fst q \<or> unat (snd p) + m \<le> unat (snd q) \<or> unat (snd q) + n \<le> unat (snd p)"

lemma h_disjoint_sym: "h_disjoint p m q n \<longleftrightarrow> h_disjoint q n p m"
  by (auto simp: h_disjoint_def)

lemma h_disjoint_overlap: "h_disjoint p n q n \<Longrightarrow> \<not> h_overlap p q n"
  by (auto simp: h_disjoint_def h_overlap_def)

lemma h_get_put_disjoint:
  assumes "h_put h p bs = Some h'" and "h_disjoint p (length bs) q n"
  shows "h_get h' q n = h_get h q n"
proof -
  from assms(1) obtain b m m' where p: "fst p = Some b" "b < length h" "h ! b = Some m"
    and put: "mem_put m (unat (snd p)) bs = Some m'" and h': "h' = h[b := Some m']"
    by (auto simp: h_put_Some_iff)
  show ?thesis
  proof (cases "fst q = Some b")
    case True
    then have "mem_get m' (unat (snd q)) n = mem_get m (unat (snd q)) n"
      using assms(2) p by (intro mem_get_put_disjoint[OF put]) (auto simp: h_disjoint_def)
    then show ?thesis using True p by (simp add: h_get_def h_block_def h')
  next
    case False
    then show ?thesis
      by (auto simp: h_get_def h_block_def h' split: option.splits)
  qed
qed

lemma h_memcpy_Some_iff:
  "h_memcpy h dst src n = Some h' \<longleftrightarrow>
     \<not> h_overlap dst src n \<and> (\<exists>bs. h_get h src n = Some bs \<and> h_put h dst bs = Some h')"
  by (auto simp: h_memcpy_def bind_Some_iff)

lemma h_memcpy_get:
  assumes "h_memcpy h dst src n = Some h'"
  shows "h_get h' dst n = h_get h src n"
proof -
  from assms obtain bs where bs: "h_get h src n = Some bs" "h_put h dst bs = Some h'"
    by (auto simp: h_memcpy_Some_iff)
  then show ?thesis using h_get_put_same[OF bs(2)] h_get_length[OF bs(1)] by simp
qed

lemma h_memcpy_frame:
  assumes "h_memcpy h dst src n = Some h'" and "h_disjoint dst n q k"
  shows "h_get h' q k = h_get h q k"
  using assms by (auto simp: h_memcpy_Some_iff dest: h_get_length intro: h_get_put_disjoint)

lemma h_memcpy_blk_len: "h_memcpy h dst src n = Some h' \<Longrightarrow> blk_len h' b = blk_len h b"
  by (auto simp: h_memcpy_Some_iff h_put_blk_len)

lemma h_memcpy_fits:
  assumes "blk_len h b = Some len" and "unat off + n \<le> len"
    and "blk_len h c = Some len'" and "unat off' + n \<le> len'"
    and "\<not> h_overlap (Some b, off) (Some c, off') n"
  shows "\<exists>h'. h_memcpy h (Some b, off) (Some c, off') n = Some h'"
proof -
  obtain bs where bs: "h_get h (Some c, off') n = Some bs" "length bs = n"
    using h_get_fits[OF assms(3,4)] by blast
  obtain h' where "h_put h (Some b, off) bs = Some h'"
    using h_put_fits[OF assms(1)] assms(2) bs(2) by blast
  with bs assms(5) show ?thesis by (auto simp: h_memcpy_Some_iff)
qed

lemma h_malloc_blk_len:
  "h_malloc h n = (p, h') \<Longrightarrow>
     blk_len h' b = (if b = length h then Some n else blk_len h b) \<and> p = (Some (length h), 0)"
  by (auto simp: h_malloc_def blk_len_def nth_append)

lemma h_malloc_get:
  assumes "h_malloc h n = (p, h')" and "fst q \<noteq> Some (length h)"
  shows "h_get h' q k = h_get h q k"
  using assms by (auto simp: h_malloc_def h_get_def h_block_def nth_append split: option.splits)

lemma h_free_blk_len:
  "h_free h (Some b, 0) = Some h' \<Longrightarrow> blk_len h' c = (if c = b then None else blk_len h c)"
  by (auto simp: h_free_def blk_len_def split: if_splits)

lemma h_realloc_Some_iff:
  "h_realloc h (Some b, 0) n = Some (p, h') \<longleftrightarrow>
     (\<exists>m. b < length h \<and> h ! b = Some m \<and> p = (Some (length h), 0) \<and>
        h' = h[b := None] @ [Some (take n m @ replicate (n - length m) None)])"
  by (auto simp: h_realloc_def h_block_def h_free_def nullp_def bind_Some_iff split: if_splits)

end
