(* ===== verification/Rs_Utils.thy ===== *)
theory Rs_Utils
  imports Rs_Prelude
begin

text \<open>
  The helpers of \<open>rsCppUtils.h\<close> and \<open>rsCppUtils.cpp\<close>: minimum and maximum, the search
  for the highest set bit, powers of two, rounding up to an alignment, the colour
  packing and box filters of the mipmap code, and \<open>rsuCopyString\<close>. The templates are
  modelled at the types the runtime instantiates them with (\<open>uint32_t\<close>, and \<open>size_t\<close>
  for \<open>rsRound\<close>).
\<close>

section \<open>Definitions\<close>

definition rsMin :: "'a :: linorder \<Rightarrow> 'a \<Rightarrow> 'a" where
  "rsMin in1 in2 = (if in1 > in2 then in2 else in1)"

definition rsMax :: "'a :: linorder \<Rightarrow> 'a \<Rightarrow> 'a" where
  "rsMax in1 in2 = (if in1 < in2 then in2 else in1)"

text \<open>The loop \<open>while (val > 1) { bit++; val >>= 1; }\<close>.\<close>

lemma unat_drop_bit_less: "1 < (v :: u32) \<Longrightarrow> unat (drop_bit 1 v) < unat v"
  by (simp add: unat_drop_bit_div word_less_nat_alt)

function rsFindHighBit_loop :: "u32 \<Rightarrow> u32 \<Rightarrow> u32" where
  "rsFindHighBit_loop val bt =
     (if 1 < val then rsFindHighBit_loop (drop_bit 1 val) (bt + 1) else bt)"
  by pat_completeness auto
termination
  by (relation "measure (\<lambda>(val, bt). unat val)") (use unat_drop_bit_less in auto)

declare rsFindHighBit_loop.simps [simp del]

definition rsFindHighBit :: "u32 \<Rightarrow> u32" where
  "rsFindHighBit val = rsFindHighBit_loop val 0"

definition rsIsPow2 :: "u32 \<Rightarrow> bool" where
  "rsIsPow2 val = (val AND (val - 1) = 0)"

text \<open>\<open>1 << k\<close> on a 32 bit operand is undefined for \<open>k \<ge> 32\<close>.\<close>

definition shl32 :: "u32 \<Rightarrow> u32 option" where
  "shl32 k = (if k < 32 then Some (push_bit (unat k) 1) else None)"

definition rsHigherPow2 :: "u32 \<Rightarrow> u32 option" where
  "rsHigherPow2 v = (if rsIsPow2 v then Some v else shl32 (rsFindHighBit v + 1))"

definition rsLowerPow2 :: "u32 \<Rightarrow> u32 option" where
  "rsLowerPow2 v = (if rsIsPow2 v then Some v else shl32 (rsFindHighBit v))"

text \<open>\<open>rsRound\<close> at \<open>T = size_t\<close>. The mask \<open>~(r - 1)\<close> is a 32 bit \<open>unsigned int\<close>, so
  widening it to \<open>T\<close> clears the upper half of the result.\<close>

definition rsRound :: "u64 \<Rightarrow> u32 \<Rightarrow> u64" where
  "rsRound v r =
     (if r AND (r - 1) \<noteq> 0 then v
      else let res = v + ucast (r - 1)
           in if res < v then v else res AND ucast (NOT (r - 1)))"

definition rs888to565 :: "u32 \<Rightarrow> u32 \<Rightarrow> u32 \<Rightarrow> u16" where
  "rs888to565 r g b =
     (let t = (0 :: u16);
          t = ucast (ucast t OR drop_bit 3 b);
          t = ucast (ucast t OR push_bit 5 (drop_bit 2 g));
          t = ucast (ucast t OR push_bit 11 (drop_bit 3 r))
      in t)"

definition rsBoxFilter565 :: "u16 \<Rightarrow> u16 \<Rightarrow> u16 \<Rightarrow> u16 \<Rightarrow> u16" where
  "rsBoxFilter565 i1 i2 i3 i4 =
     (let j1 = (ucast i1 :: u32); j2 = (ucast i2 :: u32);
          j3 = (ucast i3 :: u32); j4 = (ucast i4 :: u32);
          r = (j1 AND 0x1f) + (j2 AND 0x1f) + (j3 AND 0x1f) + (j4 AND 0x1f);
          g = (drop_bit 5 j1 AND 0x3f) + (drop_bit 5 j2 AND 0x3f)
              + (drop_bit 5 j3 AND 0x3f) + (drop_bit 5 j4 AND 0x3f);
          b = drop_bit 11 j1 + drop_bit 11 j2 + drop_bit 11 j3 + drop_bit 11 j4
      in ucast (drop_bit 2 r OR push_bit 5 (drop_bit 2 g) OR push_bit 11 (drop_bit 2 b)))"

definition rsBoxFilter8888 :: "u32 \<Rightarrow> u32 \<Rightarrow> u32 \<Rightarrow> u32 \<Rightarrow> u32" where
  "rsBoxFilter8888 i1 i2 i3 i4 =
     (let r = (i1 AND 0xff) + (i2 AND 0xff) + (i3 AND 0xff) + (i4 AND 0xff);
          g = (drop_bit 8 i1 AND 0xff) + (drop_bit 8 i2 AND 0xff)
              + (drop_bit 8 i3 AND 0xff) + (drop_bit 8 i4 AND 0xff);
          b = (drop_bit 16 i1 AND 0xff) + (drop_bit 16 i2 AND 0xff)
              + (drop_bit 16 i3 AND 0xff) + (drop_bit 16 i4 AND 0xff);
          a = (drop_bit 24 i1 AND 0xff) + (drop_bit 24 i2 AND 0xff)
              + (drop_bit 24 i3 AND 0xff) + (drop_bit 24 i4 AND 0xff)
      in drop_bit 2 r OR push_bit 8 (drop_bit 2 g)
         OR push_bit 16 (drop_bit 2 b) OR push_bit 24 (drop_bit 2 a))"

text \<open>\<open>strlen\<close> and \<open>rsuCopyString(name, len)\<close>: the copy holds \<open>len\<close> bytes of the source
  and a terminating zero.\<close>

definition c_strlen :: "u8 list \<Rightarrow> nat option" where
  "c_strlen s = (if 0 \<in> set s then Some (length (takeWhile (\<lambda>b. b \<noteq> 0) s)) else None)"

definition rsuCopyString :: "mem \<Rightarrow> nat \<Rightarrow> u64 \<Rightarrow> u8 list option" where
  "rsuCopyString src p len =
     do { bs \<leftarrow> mem_read src p (unat len); Some (bs @ [0]) }"

section \<open>Minimum and maximum\<close>

lemma rsMin_min [simp]: "rsMin a b = min a b"
  by (auto simp: rsMin_def min_def)

lemma rsMax_max [simp]: "rsMax a b = max a b"
  by (auto simp: rsMax_def max_def)

section \<open>Bits and powers of two\<close>

lemma rsFindHighBit_loop_spec:
  assumes "0 < v" and "unat bt + unat v < 2 ^ 32"
  shows "\<exists>k. rsFindHighBit_loop v bt = bt + of_nat k \<and> 2 ^ k \<le> unat v \<and> unat v < 2 ^ Suc k"
  using assms
proof (induction v bt rule: rsFindHighBit_loop.induct)
  case (1 v bt)
  show ?case
  proof (cases "1 < v")
    case False
    with "1.prems" have "v = 1"
      by (simp add: word_unat_eq_iff word_less_nat_alt)
    then show ?thesis
      by (intro exI[of _ 0]) (simp add: rsFindHighBit_loop.simps)
  next
    case True
    let ?w = "drop_bit 1 v"
    have w: "unat ?w = unat v div 2"
      by (simp add: unat_drop_bit_div)
    from True have v2: "2 \<le> unat v"
      by (simp add: word_less_nat_alt)
    then have pos: "0 < ?w"
      using w by (simp add: word_less_nat_alt)
    have "unat (bt + 1) \<le> unat bt + 1"
      by (simp add: unat_word_ariths)
    moreover from v2 have "unat v div 2 + 1 \<le> unat v" by linarith
    ultimately have fits: "unat (bt + 1) + unat ?w < 2 ^ 32"
      using "1.prems"(2) w by linarith
    from "1.IH"[OF True pos fits] obtain k where
      k: "rsFindHighBit_loop ?w (bt + 1) = bt + 1 + of_nat k"
      "2 ^ k \<le> unat ?w" "unat ?w < 2 ^ Suc k" by blast
    have "2 ^ Suc k \<le> unat v" "unat v < 2 ^ Suc (Suc k)"
      using k(2,3) w by auto
    moreover have "rsFindHighBit_loop v bt = bt + of_nat (Suc k)"
      using True k(1) by (simp add: rsFindHighBit_loop.simps[of v bt] add.assoc)
    ultimately show ?thesis by blast
  qed
qed

lemma rsFindHighBit_bounds:
  assumes "0 < v"
  shows "2 ^ unat (rsFindHighBit v) \<le> unat v \<and> unat v < 2 ^ Suc (unat (rsFindHighBit v))"
    and "rsFindHighBit v < 32"
proof -
  have "unat (0 :: u32) + unat v < 2 ^ 32"
    using unat_less_exp[of v] by simp
  from rsFindHighBit_loop_spec[OF assms this] obtain k where
    k: "rsFindHighBit v = of_nat k" "2 ^ k \<le> unat v" "unat v < 2 ^ Suc k"
    by (auto simp: rsFindHighBit_def)
  have "k < 32"
  proof (rule ccontr)
    assume "\<not> k < 32"
    then have "(2 :: nat) ^ 32 \<le> 2 ^ k" by (intro power_increasing) auto
    with k(2) unat_less_exp[of v] show False by simp
  qed
  then have u: "unat (rsFindHighBit v) = k"
    using k(1) by (simp add: unat_of_nat)
  from k(2,3) u show "2 ^ unat (rsFindHighBit v) \<le> unat v \<and> unat v < 2 ^ Suc (unat (rsFindHighBit v))"
    by simp
  from u \<open>k < 32\<close> show "rsFindHighBit v < 32"
    by (simp add: word_less_nat_alt)
qed

lemma rsFindHighBit_0 [simp]: "rsFindHighBit 0 = 0"
  by (simp add: rsFindHighBit_def rsFindHighBit_loop.simps)

lemma unat_shl32: "shl32 k = Some p \<Longrightarrow> unat p = 2 ^ unat k"
proof -
  assume "shl32 k = Some p"
  then have k: "unat k < 32" and p: "p = push_bit (unat k) 1"
    by (auto simp: shl32_def word_less_nat_alt split: if_splits)
  show ?thesis
    using k by (simp only: p) (rule unat_exp_word, simp)
qed

text \<open>The bit trick \<open>(val & (val - 1)) == 0\<close> decides whether a value is zero or a power of
  two.\<close>

lemma and_minus_one_nat: 
  fixes n :: nat
  assumes "0 < n" and "2 ^ k \<le> n" and "n < 2 ^ Suc k"
  shows "n AND (n - 1) = 0 \<longleftrightarrow> n = 2 ^ k"
proof
  assume z: "n AND (n - 1) = 0"
  show "n = 2 ^ k"
  proof (rule ccontr)
    assume "n \<noteq> 2 ^ k"
    with assms have "2 ^ k \<le> n - 1" "n - 1 < 2 ^ Suc k" by auto
    then have "n div 2 ^ k = 1" "(n - 1) div 2 ^ k = 1"
      using assms by (auto intro!: div_nat_eqI)
    then have "bit n k" "bit (n - 1) k"
      by (simp_all add: bit_iff_odd)
    then have "bit (n AND (n - 1)) k" by (simp add: bit_and_iff)
    with z show False by simp
  qed
next
  assume "n = 2 ^ k"
  then show "n AND (n - 1) = 0"
    using take_bit_eq_mask[of k "2 ^ k :: nat"] by (simp add: mask_eq_exp_minus_1)
qed

lemma unat_and_minus_one:
  assumes "0 < (v :: u32)"
  shows "unat (v AND (v - 1)) = unat v AND (unat v - 1)"
  using assms by (simp add: unsigned_and_eq unat_minus_one word_gt_0)

lemma rsIsPow2_iff: "rsIsPow2 v \<longleftrightarrow> v = 0 \<or> (\<exists>k<32. unat v = 2 ^ k)"
proof (cases "v = 0")
  case True
  then show ?thesis by (simp add: rsIsPow2_def)
next
  case False
  then have pos: "0 < v" by (simp add: word_gt_0)
  let ?k = "unat (rsFindHighBit v)"
  note hb = rsFindHighBit_bounds[OF pos]
  have "rsIsPow2 v \<longleftrightarrow> unat v AND (unat v - 1) = 0"
    using unat_and_minus_one[OF pos] by (simp add: rsIsPow2_def flip: unat_0_iff)
  also have "\<dots> \<longleftrightarrow> unat v = 2 ^ ?k"
    using hb(1) pos by (intro and_minus_one_nat) (auto simp: word_less_nat_alt)
  also have "\<dots> \<longleftrightarrow> (\<exists>k<32. unat v = 2 ^ k)"
  proof
    assume "unat v = 2 ^ ?k"
    then show "\<exists>k<32. unat v = 2 ^ k" using hb(2) by (auto simp: word_less_nat_alt)
  next
    assume "\<exists>k<32. unat v = 2 ^ k"
    then obtain k where k: "unat v = 2 ^ k" by blast
    with hb(1) have "2 ^ ?k \<le> (2 :: nat) ^ k" "(2 :: nat) ^ k < 2 ^ Suc ?k" by simp_all
    then have "k = ?k"
      by (metis Suc_leI less_Suc_eq_le nat_power_less_imp_less not_less_eq_eq numeral_2_eq_2
          one_less_numeral_iff power_le_imp_le_exp semiring_norm(76) zero_less_Suc le_antisym)
    with k show "unat v = 2 ^ ?k" by simp
  qed
  finally show ?thesis using False by simp
qed

text \<open>\<open>rsHigherPow2\<close> returns the least power of two that is not below its argument; it is
  undefined exactly for the arguments above \<open>2 ^ 31\<close>, where \<open>1 << 32\<close> would be needed.\<close>

lemma rsHigherPow2_spec:
  assumes "0 < v" and "rsHigherPow2 v = Some p"
  shows "(\<exists>k<32. unat p = 2 ^ k) \<and> unat v \<le> unat p \<and> unat p < 2 * unat v"
proof (cases "rsIsPow2 v")
  case True
  with assms have "p = v" by (simp add: rsHigherPow2_def)
  with True assms(1) show ?thesis
    by (auto simp: rsIsPow2_iff word_less_nat_alt)
next
  case False
  note hb = rsFindHighBit_bounds[OF assms(1)]
  let ?k = "unat (rsFindHighBit v)"
  from False assms(2) have s: "shl32 (rsFindHighBit v + 1) = Some p"
    by (simp add: rsHigherPow2_def)
  have k1: "unat (rsFindHighBit v + 1) = Suc ?k"
    using hb(2) by (simp add: unat_word_ariths word_less_nat_alt)
  have p: "unat p = 2 ^ Suc ?k"
    using unat_shl32[OF s] k1 by simp
  from False hb(1) hb(2) have "2 ^ ?k \<noteq> unat v"
    by (auto simp: rsIsPow2_iff word_less_nat_alt)
  moreover have "Suc ?k < 32"
    using s k1 by (auto simp: shl32_def word_less_nat_alt split: if_splits)
  moreover have "\<exists>k<32. unat p = 2 ^ k"
    using p \<open>Suc ?k < 32\<close> by blast
  ultimately show ?thesis using hb(1) p by auto
qed

lemma rsHigherPow2_Some_iff: "(\<exists>p. rsHigherPow2 v = Some p) \<longleftrightarrow> unat v \<le> 2 ^ 31"
proof (cases "rsIsPow2 v")
  case True
  then have "unat v = 0 \<or> (\<exists>k<32. unat v = 2 ^ k)" by (auto simp: rsIsPow2_iff)
  moreover have "(2 :: nat) ^ k \<le> 2 ^ 31" if "k < 32" for k
    using that by (intro power_increasing) auto
  ultimately have "unat v \<le> 2 ^ 31" by fastforce
  with True show ?thesis by (simp add: rsHigherPow2_def)
next
  case False
  then have pos: "0 < v" by (auto simp: rsIsPow2_iff word_gt_0)
  note hb = rsFindHighBit_bounds[OF pos]
  let ?k = "unat (rsFindHighBit v)"
  have k1: "unat (rsFindHighBit v + 1) = Suc ?k"
    using hb(2) by (simp add: unat_word_ariths word_less_nat_alt)
  have "(\<exists>p. rsHigherPow2 v = Some p) \<longleftrightarrow> Suc ?k < 32"
    using False k1 by (simp add: rsHigherPow2_def shl32_def word_less_nat_alt)
  also have "\<dots> \<longleftrightarrow> unat v \<le> 2 ^ 31"
  proof
    assume "Suc ?k < 32"
    then have "(2 :: nat) ^ Suc ?k \<le> 2 ^ 31" by (intro power_increasing) auto
    with hb(1) show "unat v \<le> 2 ^ 31" by linarith
  next
    assume le: "unat v \<le> 2 ^ 31"
    show "Suc ?k < 32"
    proof (rule ccontr)
      assume "\<not> Suc ?k < 32"
      with hb(2) have "?k = 31" by (simp add: word_less_nat_alt)
      with hb(1) le have "unat v = 2 ^ 31" by simp
      then have "\<exists>k<32. unat v = 2 ^ k" by (intro exI[of _ 31]) simp
      with False show False by (simp add: rsIsPow2_iff)
    qed
  qed
  finally show ?thesis .
qed

text \<open>C36: \<open>rsHigherPow2\<close> returns the least power of two that is not below its argument, for every
  argument from 1 to \<open>2 ^ 31\<close>.\<close>

theorem rsHigherPow2_least:
  assumes "0 < v" and "unat v \<le> 2 ^ 31"
  shows "\<exists>p k. rsHigherPow2 v = Some p \<and> unat p = 2 ^ k \<and> k < 32
    \<and> unat v \<le> unat p \<and> unat p < 2 * unat v"
  using rsHigherPow2_Some_iff[of v] rsHigherPow2_spec[OF assms(1)] assms(2) by blast

theorem rsHigherPow2_least_witness:
  "\<exists>p k. rsHigherPow2 100 = Some p \<and> unat p = 2 ^ k \<and> k < 32 \<and> 100 \<le> unat p \<and> unat p < 200"
  using rsHigherPow2_least[of 100] by simp

section \<open>Rounding up to an alignment\<close>

lemma rsRound_pow2:
  assumes "k < 32" and "unat v + (2 ^ k - 1) < 2 ^ 64"
  shows "unat (rsRound v (push_bit k 1)) = (unat v + (2 ^ k - 1)) div 2 ^ k * 2 ^ k mod 2 ^ 32"
proof -
  let ?r = "push_bit k 1 :: u32"
  have r1: "?r - 1 = mask k" by (simp add: mask_eq_exp_minus_1 push_bit_eq_mult)
  have "unat (mask k :: u64) = 2 ^ k - 1"
  proof -
    have "(mask k :: u64) = of_nat (2 ^ k - 1)"
      by (simp add: mask_eq_exp_minus_1 of_nat_diff)
    then show ?thesis using assms(2) by (simp only: unat_of_nat) simp
  qed
  then have fits: "unat (v + mask k) = unat v + (2 ^ k - 1)"
    using assms(2) by (simp add: unat_word_ariths)
  then have "unat v \<le> unat (v + mask k)" by (simp only: le_add1)
  then have nov: "\<not> v + mask k < v" by (simp add: word_less_nat_alt not_less)
  have z: "?r AND mask k = 0"
    by (rule bit_word_eqI) (auto simp: bit_simps)
  have um: "(ucast (mask k :: u32) :: u64) = mask k"
    using assms(1) by (intro bit_word_eqI) (auto simp: bit_simps)
  have un: "(ucast (NOT (mask k) :: u32) :: u64) = mask 32 AND NOT (mask k)"
    by (rule bit_word_eqI) (auto simp: bit_simps)
  have "rsRound v ?r = (v + mask k) AND (mask 32 AND NOT (mask k))"
    unfolding rsRound_def Let_def r1 um un using z nov by simp
  also have "\<dots> = take_bit 32 ((v + mask k) AND NOT (mask k))"
    by (simp only: take_bit_eq_mask and.assoc and.commute and.left_commute)
  finally have "unat (rsRound v ?r) = unat ((v + mask k) AND NOT (mask k)) mod 2 ^ 32"
    by (simp only: unat_take_bit_mod)
  then show ?thesis
    using fits by (simp add: unat_and_not_mask minus_mod_eq_div_mult)
qed

lemma rsRound16:
  assumes "unat v + 15 < 2 ^ 32"
  shows "unat (rsRound v 16) = (unat v + 15) div 16 * 16"
proof -
  have "(unat v + 15) div 16 * 16 \<le> unat v + 15" by simp
  with assms have "(unat v + 15) div 16 * 16 < 2 ^ 32" by linarith
  then show ?thesis using rsRound_pow2[of 4 v] assms by simp
qed

text \<open>\<open>rsRound\<close> to a power of two is the least multiple that is not below the value, cut to its
  low 32 bits: the mask is computed in \<open>unsigned int\<close>, so a \<open>size_t\<close> result above
  \<open>2 ^ 32\<close> loses its upper half.\<close>

theorem rsRound_correct:
  assumes "k < 32" and "unat v + (2 ^ k - 1) < 2 ^ 64"
  shows "\<exists>m. 2 ^ k dvd m \<and> unat v \<le> m \<and> m < unat v + 2 ^ k
    \<and> unat (rsRound v (push_bit k 1)) = m mod 2 ^ 32"
proof -
  let ?n = "unat v + (2 ^ k - 1)" and ?m = "(unat v + (2 ^ k - 1)) div 2 ^ k * 2 ^ k"
  have "?n = ?m + ?n mod 2 ^ k" by (rule div_mult_mod_eq[symmetric])
  moreover have "?n mod 2 ^ k < 2 ^ k" by (rule mod_less_divisor) simp
  moreover have "(0 :: nat) < 2 ^ k" by simp
  ultimately have "unat v \<le> ?m" "?m < unat v + 2 ^ k" by linarith+
  with rsRound_pow2[OF assms] show ?thesis by (intro exI[of _ ?m]) simp
qed

theorem rsRound_correct_witness:
  "\<exists>m. 2 ^ 4 dvd m \<and> 4294967297 \<le> m \<and> m < 4294967297 + 2 ^ 4
    \<and> unat (rsRound 4294967297 (push_bit 4 1)) = m mod (2 ^ 32 :: nat)"
  using rsRound_correct[of 4 4294967297] by simp

section \<open>The box filters\<close>

text \<open>Channel \<open>c\<close> of an 8888 pixel, and the channels of a 565 pixel.\<close>

definition chan8888 :: "nat \<Rightarrow> u32 \<Rightarrow> u32" where
  "chan8888 c w = take_bit 8 (drop_bit (8 * c) w)"

definition chan565 :: "nat \<Rightarrow> nat \<Rightarrow> u16 \<Rightarrow> u32" where
  "chan565 pos width w = take_bit width (drop_bit pos (ucast w))"

lemma chan8888_pack:
  assumes "take_bit 8 x = x" "take_bit 8 y = y" "take_bit 8 z = z" "take_bit 8 w = (w :: u32)"
  shows "chan8888 0 (x OR push_bit 8 y OR push_bit 16 z OR push_bit 24 w) = x"
    and "chan8888 1 (x OR push_bit 8 y OR push_bit 16 z OR push_bit 24 w) = y"
    and "chan8888 2 (x OR push_bit 8 y OR push_bit 16 z OR push_bit 24 w) = z"
    and "chan8888 3 (x OR push_bit 8 y OR push_bit 16 z OR push_bit 24 w) = w"
proof -
  have b: "bit x n \<Longrightarrow> n < 8" "bit y n \<Longrightarrow> n < 8" "bit z n \<Longrightarrow> n < 8" "bit w n \<Longrightarrow> n < 8" for n
    using assms by (metis bit_take_bit_iff)+
  let ?p = "x OR push_bit 8 y OR push_bit 16 z OR push_bit 24 w"
  show "chan8888 0 ?p = x" "chan8888 1 ?p = y" "chan8888 2 ?p = z" "chan8888 3 ?p = w"
    by (rule bit_word_eqI; use b in \<open>fastforce simp: chan8888_def bit_simps\<close>)+
qed

lemma mask_u32: "(0xff :: u32) = mask 8" "(0x1f :: u32) = mask 5" "(0x3f :: u32) = mask 6"
  by (simp_all add: mask_eq_exp_minus_1)

text \<open>The sum of four \<open>k\<close> bit numbers shifted right by two is their average and has \<open>k\<close> bits
  again.\<close>

lemma average4:
  fixes a b c d :: u32
  assumes "k \<le> 16" and "unat a < 2 ^ k" "unat b < 2 ^ k" "unat c < 2 ^ k" "unat d < 2 ^ k"
  shows "unat (drop_bit 2 (a + b + c + d)) = (unat a + unat b + unat c + unat d) div 4"
    and "take_bit k (drop_bit 2 (a + b + c + d)) = drop_bit 2 (a + b + c + d)"
proof -
  have p: "(2 :: nat) ^ k \<le> 2 ^ 16" using assms(1) by (intro power_increasing) auto
  then have "unat a < 2 ^ 16" "unat b < 2 ^ 16" "unat c < 2 ^ 16" "unat d < 2 ^ 16"
    using assms(2-5) less_le_trans by blast+
  then have "unat (a + b) = unat a + unat b" "unat (a + b + c) = unat a + unat b + unat c"
    "unat (a + b + c + d) = unat a + unat b + unat c + unat d"
    by (simp_all add: unat_word_ariths)
  then show avg: "unat (drop_bit 2 (a + b + c + d)) = (unat a + unat b + unat c + unat d) div 4"
    by (simp add: unat_drop_bit_div)
  show "take_bit k (drop_bit 2 (a + b + c + d)) = drop_bit 2 (a + b + c + d)"
    using avg assms(2-5) by (intro take_bit_small) simp
qed

lemma unat_take_bit_lt: "unat (take_bit k (w :: u32)) < 2 ^ k"
  by (simp add: unat_take_bit_mod)

text \<open>C38: Every channel of \<open>rsBoxFilter8888\<close> is the average, rounded down, of that channel of the
  four pixels; no channel leaks into another.\<close>

theorem rsBoxFilter8888_average:
  assumes "c < 4"
  shows "unat (chan8888 c (rsBoxFilter8888 i1 i2 i3 i4))
    = (unat (chan8888 c i1) + unat (chan8888 c i2) + unat (chan8888 c i3) + unat (chan8888 c i4)) div 4"
proof -
  let ?s = "\<lambda>c. drop_bit 2 (chan8888 c i1 + chan8888 c i2 + chan8888 c i3 + chan8888 c i4)"
  have lt: "unat (chan8888 c w) < 2 ^ 8" for c w
    unfolding chan8888_def by (rule unat_take_bit_lt)
  note av = average4[OF _ lt lt lt lt]
  have eq: "rsBoxFilter8888 i1 i2 i3 i4
      = ?s 0 OR push_bit 8 (?s 1) OR push_bit 16 (?s 2) OR push_bit 24 (?s 3)"
    unfolding rsBoxFilter8888_def chan8888_def Let_def mask_u32 take_bit_eq_mask by simp
  have "chan8888 c (rsBoxFilter8888 i1 i2 i3 i4) = ?s c"
  proof -
    from assms consider "c = 0" | "c = 1" | "c = 2" | "c = 3" by linarith
    then show ?thesis
      unfolding eq by cases (simp_all only: chan8888_pack av(2))
  qed
  then show ?thesis using av(1) by simp
qed

theorem rsBoxFilter8888_average_witness:
  "unat (chan8888 1 (rsBoxFilter8888 0x1000 0x2000 0x3000 0x40ff)) = (16 + 32 + 48 + 64) div 4"
  using rsBoxFilter8888_average[of 1 "0x1000" "0x2000" "0x3000" "0x40ff"]
  by (simp add: chan8888_def)

lemma chan565_pack:
  assumes "take_bit 5 x = x" "take_bit 6 y = y" "take_bit 5 z = (z :: u32)"
  shows "chan565 0 5 (ucast (x OR push_bit 5 y OR push_bit 11 z)) = x"
    and "chan565 5 6 (ucast (x OR push_bit 5 y OR push_bit 11 z)) = y"
    and "chan565 11 5 (ucast (x OR push_bit 5 y OR push_bit 11 z)) = z"
proof -
  have b: "bit x n \<Longrightarrow> n < 5" "bit y n \<Longrightarrow> n < 6" "bit z n \<Longrightarrow> n < 5" for n
    using assms by (metis bit_take_bit_iff)+
  let ?p = "ucast (x OR push_bit 5 y OR push_bit 11 z)"
  show "chan565 0 5 ?p = x" "chan565 5 6 ?p = y" "chan565 11 5 ?p = z"
    by (rule bit_word_eqI; use b in \<open>fastforce simp: chan565_def bit_simps\<close>)+
qed

text \<open>The three channels of \<open>rsBoxFilter565\<close> are the averages of the channels of the four
  pixels.\<close>

theorem rsBoxFilter565_average:
  assumes "(pos, width) \<in> {(0, 5), (5, 6), (11, 5)}"
  shows "unat (chan565 pos width (rsBoxFilter565 i1 i2 i3 i4))
    = (unat (chan565 pos width i1) + unat (chan565 pos width i2)
       + unat (chan565 pos width i3) + unat (chan565 pos width i4)) div 4"
proof -
  let ?s = "\<lambda>p k. drop_bit 2 (chan565 p k i1 + chan565 p k i2 + chan565 p k i3 + chan565 p k i4)"
  have lt: "unat (chan565 p k w) < 2 ^ k" for p k w
    unfolding chan565_def by (rule unat_take_bit_lt)
  note av = average4[OF _ lt lt lt lt]
  have top: "drop_bit 11 (ucast w :: u32) = chan565 11 5 w" for w
    unfolding chan565_def by (rule bit_word_eqI) (auto simp: bit_simps dest: bit_imp_le_length)
  have eq: "rsBoxFilter565 i1 i2 i3 i4
      = ucast (?s 0 5 OR push_bit 5 (?s 5 6) OR push_bit 11 (?s 11 5))"
    unfolding rsBoxFilter565_def Let_def top
    unfolding chan565_def mask_u32 take_bit_eq_mask by simp
  have "chan565 pos width (rsBoxFilter565 i1 i2 i3 i4) = ?s pos width" and "width \<le> 16"
    using assms unfolding eq by (auto simp only: chan565_pack av(2) insert_iff empty_iff Pair_inject)
  then show ?thesis using av(1) by simp
qed

theorem rsBoxFilter565_average_witness:
  "unat (chan565 5 6 (rsBoxFilter565 0x20 0x40 0x60 0xff)) = (1 + 2 + 3 + 7) div 4"
  using rsBoxFilter565_average[of 5 6 "0x20" "0x40" "0x60" "0xff"]
  by (simp add: chan565_def)

end
