(* ===== verification/Rs_Stream.thy ===== *)
theory Rs_Stream
  imports Rs_Utils
begin

text \<open>
  The serialisation streams of \<open>rsStream.h\<close> and \<open>rsStream.cpp\<close>. An \<open>IStream\<close> is a
  block of bytes with a read position, an \<open>OStream\<close> a growing block with a write
  position. Positions and lengths are 64 bit words, as in the code. A load or a store that
  would leave the block is \<open>None\<close>. The multi-byte loads of the code reinterpret the bytes
  of a little-endian host, which is the order the stores write.

  The round trip of each store and load pair is stated once, as the locale
  \<open>stream_codec\<close>, and interpreted for every pair.
\<close>

section \<open>The input stream\<close>

record istream =
  iData :: mem
  iPos :: u64
  iUse64 :: bool

definition IStream_new :: "mem \<Rightarrow> bool \<Rightarrow> istream" where
  "IStream_new buf use64 = \<lparr>iData = buf, iPos = 0, iUse64 = use64\<rparr>"

definition le16 :: "u8 list \<Rightarrow> u16" where
  "le16 bs = ucast (bs ! 0) OR push_bit 8 (ucast (bs ! 1))"

definition le32 :: "u8 list \<Rightarrow> u32" where
  "le32 bs = ucast (bs ! 0) OR push_bit 8 (ucast (bs ! 1))
     OR push_bit 16 (ucast (bs ! 2)) OR push_bit 24 (ucast (bs ! 3))"

definition le64 :: "u8 list \<Rightarrow> u64" where
  "le64 bs = ucast (bs ! 0) OR push_bit 8 (ucast (bs ! 1))
     OR push_bit 16 (ucast (bs ! 2)) OR push_bit 24 (ucast (bs ! 3))
     OR push_bit 32 (ucast (bs ! 4)) OR push_bit 40 (ucast (bs ! 5))
     OR push_bit 48 (ucast (bs ! 6)) OR push_bit 56 (ucast (bs ! 7))"

definition loadU32 :: "istream \<Rightarrow> (u32 \<times> istream) option" where
  "loadU32 s = (let p = (iPos s + 3) AND NOT 3 in
     do { bs \<leftarrow> mem_read (iData s) (unat p) 4;
          Some (le32 bs, s\<lparr>iPos := p + 4\<rparr>) })"

text \<open>\<open>int32_t\<close> and \<open>float\<close> values are carried as their 32 bit patterns.\<close>

definition loadI32 :: "istream \<Rightarrow> (u32 \<times> istream) option" where
  "loadI32 s = (let p = (iPos s + 3) AND NOT 3 in
     do { bs \<leftarrow> mem_read (iData s) (unat p) 4;
          Some (le32 bs, s\<lparr>iPos := p + 4\<rparr>) })"

definition loadF :: "istream \<Rightarrow> (u32 \<times> istream) option" where
  "loadF s = (let p = (iPos s + 3) AND NOT 3 in
     do { bs \<leftarrow> mem_read (iData s) (unat p) 4;
          Some (le32 bs, s\<lparr>iPos := p + 4\<rparr>) })"

definition loadU16 :: "istream \<Rightarrow> (u16 \<times> istream) option" where
  "loadU16 s = (let p = (iPos s + 1) AND NOT 1 in
     do { bs \<leftarrow> mem_read (iData s) (unat p) 2;
          Some (le16 bs, s\<lparr>iPos := p + 2\<rparr>) })"

definition loadU8 :: "istream \<Rightarrow> (u8 \<times> istream) option" where
  "loadU8 s =
     do { bs \<leftarrow> mem_read (iData s) (unat (iPos s)) 1;
          Some (bs ! 0, s\<lparr>iPos := iPos s + 1\<rparr>) }"

definition loadByteArray :: "u64 \<Rightarrow> istream \<Rightarrow> (mem \<times> istream) option" where
  "loadByteArray numBytes s =
     do { bs \<leftarrow> mem_get (iData s) (unat (iPos s)) (unat numBytes);
          Some (bs, s\<lparr>iPos := iPos s + numBytes\<rparr>) }"

definition loadOffset :: "istream \<Rightarrow> (u64 \<times> istream) option" where
  "loadOffset s =
     (if iUse64 s
      then let p = (iPos s + 7) AND NOT 7 in
           do { bs \<leftarrow> mem_read (iData s) (unat p) 8;
                Some (le64 bs, s\<lparr>iPos := p + 8\<rparr>) }
      else do { (v, s') \<leftarrow> loadU32 s; Some (ucast v, s') })"

text \<open>The result is a zero-terminated copy, as \<open>rsuCopyString\<close> returns it.\<close>

definition loadString :: "istream \<Rightarrow> (u8 list \<times> istream) option" where
  "loadString s =
     do { (len, s1) \<leftarrow> loadU32 s;
          str \<leftarrow> rsuCopyString (iData s1) (unat (iPos s1)) (ucast len);
          Some (str, s1\<lparr>iPos := iPos s1 + ucast len\<rparr>) }"

definition IStream_reset :: "u64 \<Rightarrow> istream \<Rightarrow> istream" where
  "IStream_reset pos s = s\<lparr>iPos := pos\<rparr>"

section \<open>The output stream\<close>

record ostream =
  oData :: mem
  oLength :: u64
  oPos :: u64
  oUse64 :: bool

definition OStream_new :: "u64 \<Rightarrow> bool \<Rightarrow> ostream" where
  "OStream_new len use64 =
     \<lparr>oData = replicate (unat len) None, oLength = len, oPos = 0, oUse64 = use64\<rparr>"

text \<open>\<open>growSize\<close> doubles the block: a fresh block of \<open>2 * mLength\<close> bytes, into which the old
  \<open>mLength\<close> bytes are copied.\<close>

definition growSize :: "ostream \<Rightarrow> ostream option" where
  "growSize s =
     do { old \<leftarrow> mem_get (oData s) 0 (unat (oLength s));
          new \<leftarrow> mem_put (replicate (unat (oLength s * 2)) None) 0 old;
          Some (s\<lparr>oData := new, oLength := oLength s * 2\<rparr>) }"

text \<open>\<open>OStream::align\<close>: \<open>bytes\<close> is a \<open>uint32_t\<close>, so the mask is widened with zeros.\<close>

definition OStream_align :: "u32 \<Rightarrow> ostream \<Rightarrow> ostream option" where
  "OStream_align bytes s =
     (let s1 = s\<lparr>oPos := (oPos s + ucast (bytes - 1)) AND ucast (NOT (bytes - 1))\<rparr>
      in if oLength s1 \<le> oPos s1 then growSize s1 else Some s1)"

text \<open>The part the fixed-size stores share: align the position, grow once if the value does
  not fit below the length, store the bytes.\<close>

definition put_bytes :: "u64 \<Rightarrow> u8 list \<Rightarrow> ostream \<Rightarrow> ostream option" where
  "put_bytes p bs s =
     do { s1 \<leftarrow> (if oLength s \<le> p + of_nat (length bs) then growSize (s\<lparr>oPos := p\<rparr>)
                 else Some (s\<lparr>oPos := p\<rparr>));
          d \<leftarrow> mem_write (oData s1) (unat p) bs;
          Some (s1\<lparr>oData := d, oPos := p + of_nat (length bs)\<rparr>) }"

definition addU32 :: "u32 \<Rightarrow> ostream \<Rightarrow> ostream option" where
  "addU32 v s = put_bytes ((oPos s + 3) AND NOT 3)
     [ucast (v AND 0xff), ucast (drop_bit 8 v AND 0xff),
      ucast (drop_bit 16 v AND 0xff), ucast (drop_bit 24 v AND 0xff)] s"

definition addI32 :: "u32 \<Rightarrow> ostream \<Rightarrow> ostream option" where
  "addI32 v s = put_bytes ((oPos s + 3) AND NOT 3)
     [ucast (v AND 0xff), ucast (signed_drop_bit 8 v AND 0xff),
      ucast (signed_drop_bit 16 v AND 0xff), ucast (signed_drop_bit 24 v AND 0xff)] s"

definition addF :: "u32 \<Rightarrow> ostream \<Rightarrow> ostream option" where
  "addF v s = addU32 v s"

definition addU16 :: "u16 \<Rightarrow> ostream \<Rightarrow> ostream option" where
  "addU16 v s = put_bytes ((oPos s + 1) AND NOT 1)
     [ucast (v AND 0xff), ucast (drop_bit 8 v)] s"

definition addU8 :: "u8 \<Rightarrow> ostream \<Rightarrow> ostream option" where
  "addU8 v s = put_bytes (oPos s) [v] s"

definition addOffset :: "u64 \<Rightarrow> ostream \<Rightarrow> ostream option" where
  "addOffset v s =
     (if oUse64 s
      then put_bytes ((oPos s + 7) AND NOT 7)
        [ucast (v AND 0xff), ucast (drop_bit 8 v AND 0xff),
         ucast (drop_bit 16 v AND 0xff), ucast (drop_bit 24 v AND 0xff),
         ucast (drop_bit 32 v AND 0xff), ucast (drop_bit 40 v AND 0xff),
         ucast (drop_bit 48 v AND 0xff), ucast (drop_bit 56 v AND 0xff)] s
      else addU32 (ucast v) s)"

text \<open>\<open>addString(s, len)\<close>: the length, then the bytes after at most one \<open>growSize\<close>.\<close>

definition addString_len :: "u8 list \<Rightarrow> u64 \<Rightarrow> ostream \<Rightarrow> ostream option" where
  "addString_len str len s =
     do { s1 \<leftarrow> addU32 (ucast len) s;
          s2 \<leftarrow> (if oLength s1 \<le> oPos s1 + len then growSize s1 else Some s1);
          bs \<leftarrow> mem_get (map Some str) 0 (unat len);
          d \<leftarrow> mem_put (oData s2) (unat (oPos s2)) bs;
          Some (s2\<lparr>oData := d, oPos := oPos s2 + len\<rparr>) }"

definition addString :: "u8 list \<Rightarrow> ostream \<Rightarrow> ostream option" where
  "addString str s =
     do { n \<leftarrow> c_strlen str; addString_len str (of_nat n) s }"

text \<open>\<open>addByteArray\<close> grows until the bytes fit. The loop does not end when the length is 0,
  since doubling 0 makes no progress.\<close>

partial_function (option) addByteArray_grow :: "u64 \<Rightarrow> ostream \<Rightarrow> ostream option" where
  "addByteArray_grow numBytes s =
     (if oLength s \<le> oPos s + numBytes
      then Option.bind (growSize s) (addByteArray_grow numBytes)
      else Some s)"

definition addByteArray :: "mem \<Rightarrow> u64 \<Rightarrow> ostream \<Rightarrow> ostream option" where
  "addByteArray src numBytes s =
     do { s1 \<leftarrow> addByteArray_grow numBytes s;
          bs \<leftarrow> mem_get src 0 (unat numBytes);
          d \<leftarrow> mem_put (oData s1) (unat (oPos s1)) bs;
          Some (s1\<lparr>oData := d, oPos := oPos s1 + numBytes\<rparr>) }"

definition OStream_reset :: "u64 \<Rightarrow> ostream \<Rightarrow> ostream" where
  "OStream_reset pos s = s\<lparr>oPos := pos\<rparr>"


section \<open>Well-formed output streams\<close>

definition ostream_wf :: "ostream \<Rightarrow> bool" where
  "ostream_wf s \<longleftrightarrow> length (oData s) = unat (oLength s) \<and> unat (oPos s) \<le> unat (oLength s)
     \<and> 16 \<le> unat (oLength s) \<and> 8 dvd unat (oLength s)"

text \<open>\<open>s'\<close> keeps everything that was written to \<open>s\<close>.\<close>

definition extends :: "ostream \<Rightarrow> ostream \<Rightarrow> bool" where
  "extends s s' \<longleftrightarrow> oUse64 s' = oUse64 s \<and> unat (oPos s) \<le> unat (oPos s')
     \<and> length (oData s) \<le> length (oData s')
     \<and> (\<forall>i < unat (oPos s). oData s' ! i = oData s ! i)"

text \<open>An input stream over a buffer that holds what was written to \<open>s\<close>.\<close>

definition reads_from :: "istream \<Rightarrow> ostream \<Rightarrow> bool" where
  "reads_from i s \<longleftrightarrow> iUse64 i = oUse64 s \<and> unat (oPos s) \<le> length (iData i)
     \<and> (\<forall>k < unat (oPos s). iData i ! k = oData s ! k)"

lemma extends_refl [simp, intro]: "extends s s"
  by (simp add: extends_def)

lemma extends_trans [trans]: "extends s t \<Longrightarrow> extends t u \<Longrightarrow> extends s u"
  by (auto simp: extends_def)

lemma reads_from_extends: "reads_from i t \<Longrightarrow> extends s t \<Longrightarrow> reads_from i s"
  by (auto simp: reads_from_def extends_def)

lemma reads_from_pos [simp]: "reads_from (i\<lparr>iPos := p\<rparr>) s = reads_from i s"
  by (simp add: reads_from_def)

lemma OStream_new_wf: "16 \<le> unat len \<Longrightarrow> 8 dvd unat len \<Longrightarrow> ostream_wf (OStream_new len u)"
  by (simp add: ostream_wf_def OStream_new_def)

lemma growSize_spec:
  assumes "length (oData s) = unat (oLength s)" and "growSize s = Some s'"
  shows "unat (oLength s') = 2 * unat (oLength s)" and "length (oData s') = unat (oLength s')"
    and "oPos s' = oPos s" and "oUse64 s' = oUse64 s"
    and "\<And>i. i < unat (oLength s) \<Longrightarrow> oData s' ! i = oData s ! i"
proof -
  let ?L = "unat (oLength s)"
  from assms obtain new where
    new: "mem_put (replicate (unat (oLength s * 2)) None) 0 (oData s) = Some new"
    and s': "s' = s\<lparr>oData := new, oLength := oLength s * 2\<rparr>"
    by (auto simp: growSize_def mem_get_def bind_Some_iff)
  from mem_put_fits[OF new] assms(1) have le: "?L \<le> unat (oLength s * 2)" by simp
  have two: "unat (oLength s * 2) = (2 * ?L) mod 2 ^ 64"
    by (simp add: unat_word_ariths mult.commute)
  show len: "unat (oLength s') = 2 * ?L"
  proof (cases "2 * ?L < 2 ^ 64")
    case True
    then show ?thesis using two by (simp add: s')
  next
    case False
    have "?L < 2 ^ 64" using unat_less_exp[of "oLength s"] by simp
    with False have "(2 * ?L) mod 2 ^ 64 = 2 * ?L - 2 ^ 64"
      by (simp add: mod_if)
    with le two \<open>?L < 2 ^ 64\<close> False show ?thesis by linarith
  qed
  show "length (oData s') = unat (oLength s')"
    using mem_put_length[OF new] by (simp add: s')
  show "oPos s' = oPos s" "oUse64 s' = oUse64 s"
    by (simp_all add: s')
  fix i assume "i < ?L"
  with mem_put_nth[OF new, of i] le assms(1) show "oData s' ! i = oData s ! i"
    by (simp add: s')
qed

lemma growSize_wf:
  assumes "ostream_wf s" and "growSize s = Some s'"
  shows "ostream_wf s'" and "extends s s'"
proof -
  note g = growSize_spec[OF _ assms(2)]
  have l: "length (oData s) = unat (oLength s)" using assms(1) by (simp add: ostream_wf_def)
  from assms(1) g[OF l] show "ostream_wf s'"
    by (auto simp: ostream_wf_def)
  from assms(1) g[OF l] show "extends s s'"
    by (auto simp: ostream_wf_def extends_def)
qed

lemma grow_if_wf:
  assumes wf: "ostream_wf s" and g: "(if b then growSize s else Some s) = Some t"
  shows "ostream_wf t" and "extends s t" and "oPos t = oPos s"
proof -
  have l: "length (oData s) = unat (oLength s)" using wf by (simp add: ostream_wf_def)
  have "ostream_wf t \<and> extends s t \<and> oPos t = oPos s"
  proof (cases b)
    case True
    then have "growSize s = Some t" using g by simp
    then show ?thesis using growSize_wf[OF wf] growSize_spec(3)[OF l] by blast
  next
    case False
    then show ?thesis using g wf by simp
  qed
  then show "ostream_wf t" "extends s t" "oPos t = oPos s" by blast+
qed

text \<open>Doubling succeeds while the new length is representable.\<close>

lemma growSize_Some:
  assumes "length (oData s) = unat (oLength s)" and "unat (oLength s) < 2 ^ 63"
  shows "\<exists>s'. growSize s = Some s'"
proof -
  have "unat (oLength s * 2) = 2 * unat (oLength s)"
    using assms(2) by (simp add: unat_word_ariths)
  with assms(1) show ?thesis
    by (auto simp: growSize_def mem_get_def mem_put_def)
qed

section \<open>Alignment of positions\<close>

lemma unat_align:
  fixes p :: u64
  assumes "unat p + (2 ^ k - 1) < 2 ^ 64"
  shows "unat ((p + mask k) AND NOT (mask k)) = (unat p + (2 ^ k - 1)) div 2 ^ k * 2 ^ k"
proof -
  have "(mask k :: u64) = of_nat (2 ^ k - 1)"
    by (simp add: mask_eq_exp_minus_1 of_nat_diff)
  then have m: "unat (mask k :: u64) = 2 ^ k - 1"
    using assms by (simp only: unat_of_nat) simp
  have "unat (p + mask k) = unat p + (2 ^ k - 1)"
    using assms m by (simp add: unat_word_ariths)
  then show ?thesis
    by (simp add: unat_and_not_mask minus_mod_eq_div_mult)
qed

lemma align_bounds_nat:
  fixes n L :: nat
  assumes "n \<le> L" and "2 ^ k dvd L"
  shows "n \<le> (n + (2 ^ k - 1)) div 2 ^ k * 2 ^ k" and "(n + (2 ^ k - 1)) div 2 ^ k * 2 ^ k \<le> L"
proof -
  have "n + (2 ^ k - 1) = (n + (2 ^ k - 1)) div 2 ^ k * 2 ^ k + (n + (2 ^ k - 1)) mod 2 ^ k"
    by (rule div_mult_mod_eq[symmetric])
  moreover have "(n + (2 ^ k - 1)) mod 2 ^ k < 2 ^ k"
    by (rule mod_less_divisor) simp
  ultimately show "n \<le> (n + (2 ^ k - 1)) div 2 ^ k * 2 ^ k" by linarith
  from assms(2) obtain q where L: "L = 2 ^ k * q" by (elim dvdE)
  have "(n + (2 ^ k - 1)) div 2 ^ k \<le> (2 ^ k * q + (2 ^ k - 1)) div 2 ^ k"
    using assms(1) L by (intro div_le_mono) simp
  also have "\<dots> = q"
  proof (rule div_nat_eqI)
    have "(0 :: nat) < 2 ^ k" by simp
    then have "2 ^ k - 1 < (2 :: nat) ^ k" by linarith
    then show "2 ^ k * q \<le> 2 ^ k * q + (2 ^ k - 1)" "2 ^ k * q + (2 ^ k - 1) < 2 ^ k * Suc q"
      unfolding mult_Suc_right by linarith+
  qed
  finally have "(n + (2 ^ k - 1)) div 2 ^ k * 2 ^ k \<le> q * 2 ^ k" by (rule mult_right_mono) simp
  then show "(n + (2 ^ k - 1)) div 2 ^ k * 2 ^ k \<le> L" by (simp add: L mult.commute)
qed

lemma align_wf:
  assumes "ostream_wf s" and "k \<le> 3"
  shows "unat (oPos s) \<le> unat ((oPos s + mask k) AND NOT (mask k))"
    and "unat ((oPos s + mask k) AND NOT (mask k)) \<le> unat (oLength s)"
    and "unat ((oPos s + mask k) AND NOT (mask k)) = (unat (oPos s) + (2 ^ k - 1)) div 2 ^ k * 2 ^ k"
proof -
  let ?n = "unat (oPos s)" and ?L = "unat (oLength s)"
  from assms(1) have le: "?n \<le> ?L" and d: "8 dvd ?L" by (auto simp: ostream_wf_def)
  have pk: "(2 :: nat) ^ k \<le> 8"
    using assms(2) power_increasing[of k 3 "2 :: nat"] by simp
  have "(2 :: nat) ^ k dvd 2 ^ 3" using assms(2) by (intro le_imp_power_dvd) simp
  then have dk: "2 ^ k dvd ?L" using d by (auto intro: dvd_trans)
  have "?L \<le> 2 ^ 64 - 8"
  proof -
    from d obtain q where q: "?L = 8 * q" by (elim dvdE)
    have "?L < 2 ^ 64" using unat_less_exp[of "oLength s"] by simp
    then show ?thesis using q by simp
  qed
  with le pk have fits: "?n + (2 ^ k - 1) < 2 ^ 64" by simp
  show eq: "unat ((oPos s + mask k) AND NOT (mask k)) = (?n + (2 ^ k - 1)) div 2 ^ k * 2 ^ k"
    by (rule unat_align[OF fits])
  show "?n \<le> unat ((oPos s + mask k) AND NOT (mask k))"
    and "unat ((oPos s + mask k) AND NOT (mask k)) \<le> ?L"
    unfolding eq by (rule align_bounds_nat[OF le dk])+
qed

lemma mask_words: "(1 :: u64) = mask 1" "(3 :: u64) = mask 2" "(7 :: u64) = mask 3"
  by (simp_all add: mask_eq_exp_minus_1)

lemma le_three: "1 \<le> (3 :: nat)" "2 \<le> (3 :: nat)" "3 \<le> (3 :: nat)"
  by simp_all

lemmas align2_wf = align_wf[OF _ le_three(1), folded mask_words]
lemmas align4_wf = align_wf[OF _ le_three(2), folded mask_words]
lemmas align8_wf = align_wf[OF _ le_three(3), folded mask_words]


section \<open>One store\<close>

lemma put_bytes_spec:
  assumes wf: "ostream_wf s" and pos: "unat (oPos s) \<le> unat p" "unat p \<le> unat (oLength s)"
    and put: "put_bytes p bs s = Some s'"
  shows "ostream_wf s'" and "extends s s'" and "unat (oPos s') = unat p + length bs"
    and "oPos s' = p + of_nat (length bs)"
    and "mem_read (oData s') (unat p) (length bs) = Some bs"
proof -
  from put obtain s1 d where
    s1: "(if oLength s \<le> p + of_nat (length bs) then growSize (s\<lparr>oPos := p\<rparr>)
          else Some (s\<lparr>oPos := p\<rparr>)) = Some s1"
    and d: "mem_write (oData s1) (unat p) bs = Some d"
    and s': "s' = s1\<lparr>oData := d, oPos := p + of_nat (length bs)\<rparr>"
    by (auto simp: put_bytes_def bind_Some_iff)
  have wfp: "ostream_wf (s\<lparr>oPos := p\<rparr>)"
    using wf pos by (simp add: ostream_wf_def)
  then have wf1: "ostream_wf s1" and ext1: "extends (s\<lparr>oPos := p\<rparr>) s1"
    using s1 growSize_wf[OF wfp] by (auto split: if_splits)
  have pos1: "oPos s1 = p"
    using s1 growSize_spec(3)[of "s\<lparr>oPos := p\<rparr>" s1] wf
    by (auto simp: ostream_wf_def split: if_splits)
  have fits: "unat p + length bs \<le> unat (oLength s1)"
    using mem_write_fits[OF d] wf1 by (simp add: ostream_wf_def)
  moreover have L: "unat (oLength s1) < 2 ^ 64" using unat_less_exp[of "oLength s1"] by simp
  ultimately have u: "unat (p + of_nat (length bs)) = unat p + length bs"
    by (simp add: unat_word_ariths unat_of_nat)
  show "unat (oPos s') = unat p + length bs" "oPos s' = p + of_nat (length bs)"
    using u by (simp_all add: s')
  show "ostream_wf s'"
    using wf1 fits u mem_write_length[OF d] by (simp add: s' ostream_wf_def)
  show "mem_read (oData s') (unat p) (length bs) = Some bs"
    using mem_read_write_same[OF d] by (simp add: s')
  have "oData s' ! i = oData s ! i" if "i < unat (oPos s)" for i
  proof -
    from that pos have ip: "i < unat p" by simp
    with fits wf1 have "i < length (oData s1)" by (simp add: ostream_wf_def)
    with ip have "oData s' ! i = oData s1 ! i"
      using mem_write_nth[OF d, of i] by (simp add: s')
    also have "\<dots> = oData s ! i" using ext1 ip by (simp add: extends_def)
    finally show ?thesis .
  qed
  moreover have "oUse64 s' = oUse64 s"
    using ext1 by (simp add: s' extends_def)
  moreover have "length (oData s) \<le> length (oData s')"
    using ext1 mem_write_length[OF d] by (simp add: s' extends_def)
  ultimately show "extends s s'"
    using u pos by (simp add: extends_def s')
qed

text \<open>A fixed-size store of a well-formed stream never fails while the length can double: one
  \<open>growSize\<close> makes enough room for up to eight bytes.\<close>

lemma put_bytes_Some:
  assumes wf: "ostream_wf s" and p: "unat p \<le> unat (oLength s)" and len: "length bs \<le> 8"
    and L: "unat (oLength s) < 2 ^ 63"
  shows "\<exists>s'. put_bytes p bs s = Some s'"
proof -
  have u: "unat (p + of_nat (length bs)) = unat p + length bs"
    using p len L by (simp add: unat_word_ariths unat_of_nat)
  have l: "length (oData (s\<lparr>oPos := p\<rparr>)) = unat (oLength (s\<lparr>oPos := p\<rparr>))"
    using wf by (simp add: ostream_wf_def)
  show ?thesis
  proof (cases "oLength s \<le> p + of_nat (length bs)")
    case True
    obtain s1 where s1: "growSize (s\<lparr>oPos := p\<rparr>) = Some s1"
      using growSize_Some[OF l] L by auto
    have "unat p + length bs \<le> length (oData s1)"
      using growSize_spec[OF l s1] wf p len by (auto simp: ostream_wf_def)
    then show ?thesis
      using mem_write_Some[of "unat p" bs "oData s1"] True s1 by (auto simp: put_bytes_def)
  next
    case False
    then have "unat p + length bs < unat (oLength s)" using u by (simp add: word_le_nat_alt)
    then have "unat p + length bs \<le> length (oData (s\<lparr>oPos := p\<rparr>))" using l by simp
    then show ?thesis
      using mem_write_Some[of "unat p" bs "oData s"] False by (auto simp: put_bytes_def)
  qed
qed

section \<open>Byte order\<close>

lemma ucast_and_ff:
  "ucast ((x :: u16) AND 0xff) = (ucast x :: u8)"
  "ucast ((y :: u32) AND 0xff) = (ucast y :: u8)"
  "ucast ((z :: u64) AND 0xff) = (ucast z :: u8)"
proof -
  have m: "(0xff :: u16) = mask 8" "(0xff :: u32) = mask 8" "(0xff :: u64) = mask 8"
    by (simp_all add: mask_eq_exp_minus_1)
  show "ucast (x AND 0xff) = (ucast x :: u8)" "ucast (y AND 0xff) = (ucast y :: u8)"
    "ucast (z AND 0xff) = (ucast z :: u8)"
    unfolding m by (rule bit_word_eqI; simp add: bit_simps; fail)+
qed

lemma ucast_signed_drop_bit:
  "k \<le> 24 \<Longrightarrow> ucast (signed_drop_bit k (v :: u32)) = (ucast (drop_bit k v) :: u8)"
  by (rule bit_word_eqI) (auto simp: bit_simps)

lemma le16_split: "le16 [ucast (v AND 0xff), ucast (drop_bit 8 v)] = v"
proof (rule bit_word_eqI)
  fix n assume n: "n < LENGTH(16)"
  consider "n < 8" | "8 \<le> n" by linarith
  then show "bit (le16 [ucast (v AND 0xff), ucast (drop_bit 8 v)]) n = bit v n"
    using n by cases (simp_all add: le16_def ucast_and_ff bit_simps less_diff_conv2)
qed

lemma le32_split:
  "le32 [ucast (v AND 0xff), ucast (drop_bit 8 v AND 0xff), ucast (drop_bit 16 v AND 0xff),
     ucast (drop_bit 24 v AND 0xff)] = v"
proof (rule bit_word_eqI)
  fix n assume n: "n < LENGTH(32)"
  consider "n < 8" | "8 \<le> n" "n < 16" | "16 \<le> n" "n < 24" | "24 \<le> n" by linarith
  then show "bit (le32 [ucast (v AND 0xff), ucast (drop_bit 8 v AND 0xff),
      ucast (drop_bit 16 v AND 0xff), ucast (drop_bit 24 v AND 0xff)]) n = bit v n"
    using n by cases (simp_all add: le32_def ucast_and_ff bit_simps less_diff_conv2)
qed

lemma le32_split_signed:
  "le32 [ucast (v AND 0xff), ucast (signed_drop_bit 8 v AND 0xff),
     ucast (signed_drop_bit 16 v AND 0xff), ucast (signed_drop_bit 24 v AND 0xff)] = v"
  using le32_split[of v] by (simp only: ucast_and_ff) (simp add: ucast_signed_drop_bit)

lemma le64_split:
  "le64 [ucast (v AND 0xff), ucast (drop_bit 8 v AND 0xff),
     ucast (drop_bit 16 v AND 0xff), ucast (drop_bit 24 v AND 0xff),
     ucast (drop_bit 32 v AND 0xff), ucast (drop_bit 40 v AND 0xff),
     ucast (drop_bit 48 v AND 0xff), ucast (drop_bit 56 v AND 0xff)] = v"
proof (rule bit_word_eqI)
  fix n assume n: "n < LENGTH(64)"
  consider "n < 8" | "8 \<le> n" "n < 16" | "16 \<le> n" "n < 24" | "24 \<le> n" "n < 32"
    | "32 \<le> n" "n < 40" | "40 \<le> n" "n < 48" | "48 \<le> n" "n < 56" | "56 \<le> n" by linarith
  then show "bit (le64 [ucast (v AND 0xff), ucast (drop_bit 8 v AND 0xff),
     ucast (drop_bit 16 v AND 0xff), ucast (drop_bit 24 v AND 0xff),
     ucast (drop_bit 32 v AND 0xff), ucast (drop_bit 40 v AND 0xff),
     ucast (drop_bit 48 v AND 0xff), ucast (drop_bit 56 v AND 0xff)]) n = bit v n"
    using n by cases (simp_all add: le64_def ucast_and_ff bit_simps less_diff_conv2)
qed


section \<open>The contract of a store and load pair\<close>

text \<open>
  What the serialisation code relies on: a store keeps the stream well formed, keeps what
  was written before, and a load at the position where the store began returns the stored
  value and leaves the position where the store ended. \<open>rep\<close> is the form in which the
  load returns a value, \<open>ok\<close> the values the format can hold.
\<close>

locale stream_codec =
  fixes add :: "'a \<Rightarrow> ostream \<Rightarrow> ostream option"
    and load :: "istream \<Rightarrow> ('b \<times> istream) option"
    and rep :: "'a \<Rightarrow> 'b"
    and ok :: "bool \<Rightarrow> 'a \<Rightarrow> bool"
  assumes add_wf: "ostream_wf s \<Longrightarrow> add v s = Some s' \<Longrightarrow> ostream_wf s'"
    and add_extends: "ostream_wf s \<Longrightarrow> add v s = Some s' \<Longrightarrow> extends s s'"
    and load_add: "ostream_wf s \<Longrightarrow> ok (oUse64 s) v \<Longrightarrow> add v s = Some s' \<Longrightarrow>
      reads_from i s' \<Longrightarrow> iPos i = oPos s \<Longrightarrow> load i = Some (rep v, i\<lparr>iPos := oPos s'\<rparr>)"
begin

text \<open>The load still works when more was written after the value.\<close>

lemma load_add_later:
  assumes "ostream_wf s" and "ok (oUse64 s) v" and "add v s = Some s'" and "extends s' t"
    and "reads_from i t" and "iPos i = oPos s"
  shows "load i = Some (rep v, i\<lparr>iPos := oPos s'\<rparr>)"
  using assms reads_from_extends load_add by blast

lemma add_keeps:
  assumes "ostream_wf s" and "add v s = Some s'"
  shows "ostream_wf s' \<and> extends s s' \<and> oUse64 s' = oUse64 s"
  using add_wf[OF assms] add_extends[OF assms] by (simp add: extends_def)

end

text \<open>Several values in a row.\<close>

fun add_all :: "('a \<Rightarrow> ostream \<Rightarrow> ostream option) \<Rightarrow> 'a list \<Rightarrow> ostream \<Rightarrow> ostream option" where
  "add_all add [] s = Some s"
| "add_all add (x # xs) s = Option.bind (add x s) (add_all add xs)"

fun load_many :: "(istream \<Rightarrow> ('b \<times> istream) option) \<Rightarrow> nat \<Rightarrow> istream \<Rightarrow> ('b list \<times> istream) option" where
  "load_many load 0 i = Some ([], i)"
| "load_many load (Suc n) i =
     do { (x, i1) \<leftarrow> load i; (xs, i2) \<leftarrow> load_many load n i1; Some (x # xs, i2) }"

context stream_codec
begin

lemma add_all_keeps:
  "ostream_wf s \<Longrightarrow> add_all add xs s = Some s' \<Longrightarrow>
   ostream_wf s' \<and> extends s s' \<and> oUse64 s' = oUse64 s"
proof (induction xs arbitrary: s)
  case Nil
  then show ?case by simp
next
  case (Cons x xs)
  from Cons.prems obtain s1 where s1: "add x s = Some s1" "add_all add xs s1 = Some s'"
    by (auto simp: bind_Some_iff)
  from add_keeps[OF Cons.prems(1) s1(1)] Cons.IH[OF _ s1(2)] show ?case
    using extends_trans by auto
qed

lemma load_many_add_all:
  "ostream_wf s \<Longrightarrow> (\<forall>x\<in>set xs. ok (oUse64 s) x) \<Longrightarrow> add_all add xs s = Some s' \<Longrightarrow>
   reads_from i s' \<Longrightarrow> iPos i = oPos s \<Longrightarrow>
   load_many load (length xs) i = Some (map rep xs, i\<lparr>iPos := oPos s'\<rparr>)"
proof (induction xs arbitrary: s i)
  case Nil
  then show ?case by simp
next
  case (Cons x xs)
  from Cons.prems(3) obtain s1 where s1: "add x s = Some s1" "add_all add xs s1 = Some s'"
    by (auto simp: bind_Some_iff)
  note k = add_keeps[OF Cons.prems(1) s1(1)]
  then have ext: "extends s1 s'" using add_all_keeps[OF _ s1(2)] by simp
  have l: "load i = Some (rep x, i\<lparr>iPos := oPos s1\<rparr>)"
    using load_add_later[OF Cons.prems(1) _ s1(1) ext Cons.prems(4,5)] Cons.prems(2) by simp
  have "load_many load (length xs) (i\<lparr>iPos := oPos s1\<rparr>)
      = Some (map rep xs, (i\<lparr>iPos := oPos s1\<rparr>)\<lparr>iPos := oPos s'\<rparr>)"
    using k Cons.prems by (intro Cons.IH[OF _ _ s1(2)]) auto
  with l show ?case by simp
qed

end

section \<open>The pairs of the code\<close>

lemma reads_back:
  assumes wf: "ostream_wf s" and pos: "unat (oPos s) \<le> unat p" "unat p \<le> unat (oLength s)"
    and put: "put_bytes p bs s = Some s'" and i: "reads_from i s'"
  shows "mem_read (iData i) (unat p) (length bs) = Some bs"
proof -
  note sp = put_bytes_spec[OF wf pos put]
  have le: "unat (oPos s') \<le> length (oData s')" using sp(1) by (simp add: ostream_wf_def)
  have "mem_read (iData i) (unat p) (length bs) = mem_read (oData s') (unat p) (length bs)"
    using i sp(3) le by (intro mem_read_cong) (auto simp: reads_from_def)
  with sp(5) show ?thesis by simp
qed

interpretation c_u8: stream_codec addU8 loadU8 id "\<lambda>_ _. True"
proof
  fix s s' :: ostream and v :: u8
  assume wf: "ostream_wf s" and a: "addU8 v s = Some s'"
  have le: "unat (oPos s) \<le> unat (oLength s)" using wf by (simp add: ostream_wf_def)
  note sp = put_bytes_spec[OF wf order_refl le a[unfolded addU8_def]]
  show "ostream_wf s'" "extends s s'" by (fact sp)+
  fix i assume i: "reads_from i s'" "iPos i = oPos s"
  from reads_back[OF wf order_refl le a[unfolded addU8_def] i(1)] sp(4) i(2)
  show "loadU8 i = Some (id v, i\<lparr>iPos := oPos s'\<rparr>)"
    by (simp add: loadU8_def)
qed

interpretation c_u16: stream_codec addU16 loadU16 id "\<lambda>_ _. True"
proof
  fix s s' :: ostream and v :: u16
  assume wf: "ostream_wf s" and a: "addU16 v s = Some s'"
  note al = align2_wf(1,2)[OF wf]
  note sp = put_bytes_spec[OF wf al a[unfolded addU16_def]]
  show "ostream_wf s'" "extends s s'" by (fact sp)+
  fix i assume i: "reads_from i s'" "iPos i = oPos s"
  from reads_back[OF wf al a[unfolded addU16_def] i(1)] sp(4) i(2)
  show "loadU16 i = Some (id v, i\<lparr>iPos := oPos s'\<rparr>)"
    by (simp add: loadU16_def le16_split numeral_2_eq_2[symmetric])
qed

interpretation c_u32: stream_codec addU32 loadU32 id "\<lambda>_ _. True"
proof
  fix s s' :: ostream and v :: u32
  assume wf: "ostream_wf s" and a: "addU32 v s = Some s'"
  note al = align4_wf(1,2)[OF wf]
  note sp = put_bytes_spec[OF wf al a[unfolded addU32_def]]
  show "ostream_wf s'" "extends s s'" by (fact sp)+
  fix i assume i: "reads_from i s'" "iPos i = oPos s"
  from reads_back[OF wf al a[unfolded addU32_def] i(1)] sp(4) i(2)
  show "loadU32 i = Some (id v, i\<lparr>iPos := oPos s'\<rparr>)"
    by (simp add: loadU32_def Let_def le32_split Suc_4_8)
qed

interpretation c_i32: stream_codec addI32 loadI32 id "\<lambda>_ _. True"
proof
  fix s s' :: ostream and v :: u32
  assume wf: "ostream_wf s" and a: "addI32 v s = Some s'"
  note al = align4_wf(1,2)[OF wf]
  note sp = put_bytes_spec[OF wf al a[unfolded addI32_def]]
  show "ostream_wf s'" "extends s s'" by (fact sp)+
  fix i assume i: "reads_from i s'" "iPos i = oPos s"
  from reads_back[OF wf al a[unfolded addI32_def] i(1)] sp(4) i(2)
  show "loadI32 i = Some (id v, i\<lparr>iPos := oPos s'\<rparr>)"
    by (simp add: loadI32_def Let_def le32_split_signed Suc_4_8)
qed

interpretation c_f: stream_codec addF loadF id "\<lambda>_ _. True"
proof -
  have "addF = addU32" "loadF = loadU32"
    by (auto simp: fun_eq_iff addF_def loadF_def loadU32_def)
  then show "stream_codec addF loadF id (\<lambda>_ _. True)"
    by (simp add: c_u32.stream_codec_axioms)
qed


text \<open>An offset needs 64 bit streams unless it fits 32 bits.\<close>

interpretation c_off: stream_codec addOffset loadOffset id "\<lambda>u64 v. u64 \<or> unat v < 2 ^ 32"
proof
  fix s s' :: ostream and v :: u64
  assume wf: "ostream_wf s" and a: "addOffset v s = Some s'"
  note al = align8_wf(1,2)[OF wf]
  have big: "ostream_wf s' \<and> extends s s' \<and>
      (\<forall>i. reads_from i s' \<longrightarrow> iPos i = oPos s \<longrightarrow>
        loadOffset i = Some (v, i\<lparr>iPos := oPos s'\<rparr>))" if u: "oUse64 s"
  proof -
    note a' = a[unfolded addOffset_def if_P[OF u]]
    note sp = put_bytes_spec[OF wf al a']
    have "loadOffset i = Some (v, i\<lparr>iPos := oPos s'\<rparr>)" if i: "reads_from i s'" "iPos i = oPos s" for i
    proof -
      have "iUse64 i" using i sp(2) u by (simp add: reads_from_def extends_def)
      with reads_back[OF wf al a' i(1)] sp(4) i(2) show ?thesis
        by (simp add: loadOffset_def Let_def le64_split Suc_4_8)
    qed
    with sp show ?thesis by blast
  qed
  have small: "addU32 (ucast v) s = Some s'" if "\<not> oUse64 s"
    using a that by (simp add: addOffset_def)
  show wf': "ostream_wf s'" and ext: "extends s s'"
    using big small c_u32.add_keeps[OF wf, of "ucast v" s'] by blast+
  fix i assume i: "reads_from i s'" "iPos i = oPos s" and ok: "oUse64 s \<or> unat v < 2 ^ 32"
  show "loadOffset i = Some (id v, i\<lparr>iPos := oPos s'\<rparr>)"
  proof (cases "oUse64 s")
    case True
    with big i show ?thesis by simp
  next
    case False
    then have "\<not> iUse64 i" using i ext by (simp add: reads_from_def extends_def)
    moreover have "ucast (ucast v :: u32) = v"
      using ok False ucast_u32_u64 by blast
    ultimately show ?thesis
      using c_u32.load_add[OF wf TrueI small[OF False] i] by (simp add: loadOffset_def)
  qed
qed

text \<open>A string comes back zero-terminated, without what follows its first zero byte.\<close>

definition c_string :: "u8 list \<Rightarrow> u8 list" where
  "c_string str = takeWhile (\<lambda>b. b \<noteq> 0) str @ [0]"

lemma addString_len_spec:
  assumes wf: "ostream_wf s" and a: "addString_len str len s = Some s'"
  shows "ostream_wf s'" and "extends s s'"
    and "\<exists>s1. addU32 (ucast len) s = Some s1 \<and> extends s1 s' \<and> oPos s' = oPos s1 + len \<and>
      mem_get (oData s') (unat (oPos s1)) (unat len) = mem_get (map Some str) 0 (unat len) \<and>
      unat (oPos s') = unat (oPos s1) + unat len"
    and "unat len \<le> length str"
proof -
  from a obtain s1 s2 bs d where
    s1: "addU32 (ucast len) s = Some s1"
    and s2: "(if oLength s1 \<le> oPos s1 + len then growSize s1 else Some s1) = Some s2"
    and bs: "mem_get (map Some str) 0 (unat len) = Some bs"
    and d: "mem_put (oData s2) (unat (oPos s2)) bs = Some d"
    and s': "s' = s2\<lparr>oData := d, oPos := oPos s2 + len\<rparr>"
    by (auto simp only: addString_len_def bind_Some_iff option.inject)
  have k1: "ostream_wf s1" "extends s s1" using c_u32.add_keeps[OF wf s1] by blast+
  note k2 = grow_if_wf[OF k1(1) s2]
  have lbs: "length bs = unat len" by (rule mem_get_length[OF bs])
  have fits: "unat (oPos s2) + unat len \<le> unat (oLength s2)"
    using mem_put_fits[OF d] k2(1) lbs by (simp add: ostream_wf_def)
  moreover have "unat (oLength s2) < 2 ^ 64" using unat_less_exp[of "oLength s2"] by simp
  ultimately have u: "unat (oPos s2 + len) = unat (oPos s2) + unat len"
    by (simp add: unat_word_ariths)
  show wf': "ostream_wf s'"
    using k2(1) fits u mem_put_length[OF d] by (simp add: s' ostream_wf_def)
  have ext: "extends s1 s'"
  proof -
    have "oData s' ! i = oData s1 ! i" if "i < unat (oPos s1)" for i
    proof -
      have "i < length (oData s2)" using that k2 by (simp add: ostream_wf_def)
      then have "d ! i = oData s2 ! i" using mem_put_nth[OF d] that k2(3) by simp
      also have "\<dots> = oData s1 ! i" using k2(2) that by (simp add: extends_def)
      finally show ?thesis by (simp add: s')
    qed
    then show ?thesis
      using k2 u mem_put_length[OF d] by (simp add: extends_def s')
  qed
  show "extends s s'" by (rule extends_trans[OF k1(2) ext])
  have g: "mem_get (oData s') (unat (oPos s1)) (unat len) = mem_get (map Some str) 0 (unat len)"
    using mem_get_put_same[OF d] bs lbs k2(3) by (simp add: s')
  have "oPos s' = oPos s1 + len" "unat (oPos s') = unat (oPos s1) + unat len"
    using u k2(3) by (simp_all add: s')
  then show "\<exists>s1. addU32 (ucast len) s = Some s1 \<and> extends s1 s' \<and>
      oPos s' = oPos s1 + len \<and>
      mem_get (oData s') (unat (oPos s1)) (unat len) = mem_get (map Some str) 0 (unat len) \<and>
      unat (oPos s') = unat (oPos s1) + unat len"
    using s1 ext g by blast
  show "unat len \<le> length str"
    using bs by (auto simp: mem_get_def split: if_splits)
qed

lemma takeWhile_zero_prefix:
  "take (length (takeWhile P xs)) xs = takeWhile P xs"
  by (metis takeWhile_eq_take)

interpretation c_str: stream_codec addString loadString c_string
  "\<lambda>_ str. 0 \<in> set str \<and> length str < 2 ^ 32"
proof
  fix s s' :: ostream and str :: "u8 list"
  assume wf: "ostream_wf s" and a: "addString str s = Some s'"
  let ?n = "length (takeWhile (\<lambda>b. b \<noteq> 0) str)"
  from a have a': "addString_len str (of_nat ?n) s = Some s'"
    by (auto simp: addString_def c_strlen_def bind_Some_iff split: if_splits)
  note sp = addString_len_spec[OF wf a']
  show "ostream_wf s'" "extends s s'" by (fact sp)+
  fix i assume i: "reads_from i s'" "iPos i = oPos s" and ok: "0 \<in> set str \<and> length str < 2 ^ 32"
  have n: "?n < 2 ^ 32" using ok length_takeWhile_le[of _ str] by (meson le_less_trans)
  then have un: "unat (of_nat ?n :: u64) = ?n" by (simp add: unat_of_nat)
  have uu: "(ucast (ucast (of_nat ?n :: u64) :: u32) :: u64) = of_nat ?n"
    using n un by (intro ucast_u32_u64) simp
  from sp(3) obtain s1 where s1: "addU32 (ucast (of_nat ?n :: u64)) s = Some s1" "extends s1 s'"
    "oPos s' = oPos s1 + of_nat ?n"
    "mem_get (oData s') (unat (oPos s1)) ?n = mem_get (map Some str) 0 ?n"
    "unat (oPos s') = unat (oPos s1) + ?n"
    by (auto simp: un)
  have l1: "loadU32 i = Some (ucast (of_nat ?n :: u64), i\<lparr>iPos := oPos s1\<rparr>)"
    using c_u32.load_add_later[OF wf TrueI s1(1,2) i] by simp
  have "mem_get (iData i) (unat (oPos s1)) ?n = mem_get (oData s') (unat (oPos s1)) ?n"
    using i(1) s1(5) sp(1) by (intro mem_get_cong) (auto simp: reads_from_def ostream_wf_def)
  also have "\<dots> = Some (map Some (takeWhile (\<lambda>b. b \<noteq> 0) str))"
    by (simp only: s1(4)) (simp add: mem_get_def take_map takeWhile_zero_prefix length_takeWhile_le)
  finally have "mem_read (iData i) (unat (oPos s1)) ?n = Some (takeWhile (\<lambda>b. b \<noteq> 0) str)"
    by (simp add: mem_read_def)
  then show "loadString i = Some (c_string str, i\<lparr>iPos := oPos s'\<rparr>)"
    using l1 uu un s1(3) by (simp add: loadString_def rsuCopyString_def c_string_def)
qed

section \<open>Byte arrays\<close>

lemma addByteArray_grow_spec:
  assumes "ostream_wf s" and "unat (oPos s) + unat n < 2 ^ 62" and "unat (oLength s) < 2 ^ 63"
  shows "\<exists>t. addByteArray_grow n s = Some t \<and> ostream_wf t \<and> extends s t \<and> oPos t = oPos s
    \<and> unat (oPos s) + unat n < unat (oLength t)"
  using assms
proof (induction "2 ^ 62 - unat (oLength s)" arbitrary: s rule: less_induct)
  case less
  have u: "unat (oPos s + n) = unat (oPos s) + unat n"
    using less.prems(2) by (intro unat_plus_if_fits) simp
  show ?case
  proof (cases "oLength s \<le> oPos s + n")
    case True
    then have L: "unat (oLength s) < 2 ^ 62" using u less.prems(2) by (simp add: word_le_nat_alt)
    have l: "length (oData s) = unat (oLength s)" using less.prems(1) by (simp add: ostream_wf_def)
    obtain s1 where s1: "growSize s = Some s1" using growSize_Some[OF l less.prems(3)] by blast
    note g = growSize_wf[OF less.prems(1) s1] growSize_spec[OF l s1]
    have "16 \<le> unat (oLength s)" using less.prems(1) by (simp add: ostream_wf_def)
    then have dec: "2 ^ 62 - unat (oLength s1) < 2 ^ 62 - unat (oLength s)"
      and small: "unat (oLength s1) < 2 ^ 63"
      using L g(3) by simp_all
    have "unat (oPos s1) + unat n < 2 ^ 62" using g(5) less.prems(2) by simp
    from less.hyps[OF dec g(1) this small] obtain t where
      t: "addByteArray_grow n s1 = Some t" "ostream_wf t" "extends s1 t" "oPos t = oPos s1"
      "unat (oPos s1) + unat n < unat (oLength t)"
      by blast
    have "addByteArray_grow n s = Some t"
      using True s1 t(1) by (subst addByteArray_grow.simps) simp
    with t g show ?thesis using extends_trans by (intro exI[of _ t]) auto
  next
    case False
    then have "addByteArray_grow n s = Some s" by (subst addByteArray_grow.simps) simp
    moreover have "unat (oPos s) + unat n < unat (oLength s)"
      using False u by (simp add: word_le_nat_alt)
    ultimately show ?thesis using less.prems by blast
  qed
qed

lemma addByteArray_grow_stuck:
  assumes "oLength s = 0" and "oData s = []"
  shows "addByteArray_grow n s = None"
proof (rule ccontr)
  assume "addByteArray_grow n s \<noteq> None"
  then obtain t where "addByteArray_grow n s = Some t" by blast
  then have "oLength s = 0 \<and> oData s = [] \<longrightarrow> False"
  proof (rule addByteArray_grow.raw_induct[of "\<lambda>n s t. oLength s = 0 \<and> oData s = [] \<longrightarrow> False", rotated])
    fix f :: "u64 \<Rightarrow> ostream \<Rightarrow> ostream option" and n s t
    assume IH: "\<And>n s t. f n s = Some t \<Longrightarrow> oLength s = 0 \<and> oData s = [] \<longrightarrow> False"
      and f: "(if oLength s \<le> oPos s + n then Option.bind (growSize s) (f n) else Some s) = Some t"
    show "oLength s = 0 \<and> oData s = [] \<longrightarrow> False"
    proof
      assume L: "oLength s = 0 \<and> oData s = []"
      then have "growSize s = Some (s\<lparr>oData := [], oLength := 0\<rparr>)"
        by (auto simp: growSize_def mem_get_def mem_put_def)
      with f L have "f n (s\<lparr>oData := [], oLength := 0\<rparr>) = Some t" by simp
      from IH[OF this] show False by simp
    qed
  qed
  with assms show False by simp
qed
lemma addByteArray_spec:
  assumes wf: "ostream_wf s" and P: "unat (oPos s) + unat n < 2 ^ 62" and L: "unat (oLength s) < 2 ^ 63"
    and src: "mem_get src 0 (unat n) = Some bs"
  shows "\<exists>s'. addByteArray src n s = Some s' \<and> ostream_wf s' \<and> extends s s'
    \<and> oPos s' = oPos s + n \<and> unat (oPos s') = unat (oPos s) + unat n
    \<and> mem_get (oData s') (unat (oPos s)) (unat n) = Some bs"
proof -
  obtain t where t: "addByteArray_grow n s = Some t" "ostream_wf t" "extends s t" "oPos t = oPos s"
    "unat (oPos s) + unat n < unat (oLength t)"
    using addByteArray_grow_spec[OF wf P L] by blast
  have lbs: "length bs = unat n" by (rule mem_get_length[OF src])
  obtain d where d: "mem_put (oData t) (unat (oPos t)) bs = Some d"
    using mem_put_Some[of "unat (oPos t)" bs "oData t"] t lbs by (auto simp: ostream_wf_def)
  define s' where "s' = t\<lparr>oData := d, oPos := oPos t + n\<rparr>"
  have u: "unat (oPos s + n) = unat (oPos s) + unat n"
    using P by (intro unat_plus_if_fits) simp
  have "addByteArray src n s = Some s'"
    using t(1) src d by (simp add: addByteArray_def s'_def)
  moreover have "ostream_wf s'"
    using t u mem_put_length[OF d] by (simp add: s'_def ostream_wf_def)
  moreover have "oData s' ! i = oData s ! i" if "i < unat (oPos s)" for i
    using mem_put_nth[OF d, of i] that t by (simp add: s'_def ostream_wf_def extends_def)
  then have "extends s s'"
    using t u mem_put_length[OF d] by (simp add: s'_def extends_def)
  moreover have "mem_get (oData s') (unat (oPos s)) (unat n) = Some bs"
    using mem_get_put_same[OF d] lbs t(4) by (simp add: s'_def)
  ultimately show ?thesis using u t(4) by (intro exI[of _ s']) (simp add: s'_def)
qed

section \<open>Correctness of the streams\<close>

text \<open>Storing a 32 bit value into a well-formed stream whose block can still double always
  succeeds, keeps the stream well formed and keeps every byte written before.\<close>

theorem addU32_total:
  assumes "ostream_wf s" and "unat (oLength s) < 2 ^ 63"
  shows "\<exists>s'. addU32 v s = Some s' \<and> ostream_wf s' \<and> extends s s'
    \<and> unat (oPos s') = (unat (oPos s) + 3) div 4 * 4 + 4"
proof -
  note al = align4_wf[OF assms(1)]
  obtain s' where s': "addU32 v s = Some s'"
    using put_bytes_Some[OF assms(1) al(2)] assms(2) unfolding addU32_def by force
  note sp = put_bytes_spec[OF assms(1) al(1,2) s'[unfolded addU32_def]]
  show ?thesis using s' sp(1,2,3) al(3) by (simp add: algebra_simps)
qed

theorem addU32_total_witness:
  "\<exists>s'. addU32 7 (OStream_new 16 False) = Some s' \<and> ostream_wf s'
    \<and> extends (OStream_new 16 False) s' \<and> unat (oPos s') = 4"
  using addU32_total[of "OStream_new 16 False" 7] OStream_new_wf[of 16 False]
  by (simp add: OStream_new_def)

text \<open>C32: A string stored with \<open>addString\<close> is what \<open>loadString\<close> returns from the position where
  the store began, and the load leaves the position where the store ended, whatever is
  written after it.\<close>

theorem addString_loadString:
  assumes "ostream_wf s" and "0 \<in> set str" and "length str < 2 ^ 32"
    and "addString str s = Some s'" and "extends s' t" and "reads_from i t" and "iPos i = oPos s"
  shows "loadString i = Some (takeWhile (\<lambda>b. b \<noteq> 0) str @ [0], i\<lparr>iPos := oPos s'\<rparr>)"
  using c_str.load_add_later[OF assms(1) _ assms(4-7)] assms(2,3) by (simp add: c_string_def)

theorem addString_loadString_witness:
  "\<exists>s'. addString [104, 105, 0] (OStream_new 16 False) = Some s' \<and>
     loadString (IStream_new (oData s') False)
       = Some ([104, 105, 0], (IStream_new (oData s') False)\<lparr>iPos := oPos s'\<rparr>)"
proof -
  let ?s = "OStream_new 16 False"
  obtain s' where a: "addString [104, 105, 0] ?s = Some s'"
    by (simp add: addString_def c_strlen_def addString_len_def addU32_def put_bytes_def
      OStream_new_def mem_write_def mem_put_def mem_get_def)
  have wf: "ostream_wf ?s" by (rule OStream_new_wf) simp_all
  have "reads_from (IStream_new (oData s') False) s'"
    using c_str.add_keeps[OF wf a]
    by (simp add: reads_from_def IStream_new_def ostream_wf_def OStream_new_def)
  then show ?thesis
    using a addString_loadString[OF wf _ _ a extends_refl, of "IStream_new (oData s') False"]
    by (simp add: IStream_new_def OStream_new_def)
qed

text \<open>C33: \<open>addByteArray\<close> always ends on a well-formed stream (while the sizes stay below
  \<open>2 ^ 62\<close>), however often the block has to double, and \<open>loadByteArray\<close> reads the array
  back.\<close>

theorem addByteArray_loadByteArray:
  assumes "ostream_wf s" and "unat (oPos s) + unat n < 2 ^ 62" and "unat (oLength s) < 2 ^ 63"
    and "mem_get src 0 (unat n) = Some bs"
  shows "\<exists>s'. addByteArray src n s = Some s' \<and> ostream_wf s' \<and> extends s s' \<and>
    (\<forall>i. reads_from i s' \<and> iPos i = oPos s \<longrightarrow>
         loadByteArray n i = Some (bs, i\<lparr>iPos := oPos s'\<rparr>))"
proof -
  obtain s' where s': "addByteArray src n s = Some s'" "ostream_wf s'" "extends s s'"
    "oPos s' = oPos s + n" "unat (oPos s') = unat (oPos s) + unat n"
    "mem_get (oData s') (unat (oPos s)) (unat n) = Some bs"
    using addByteArray_spec[OF assms] by blast
  have "loadByteArray n i = Some (bs, i\<lparr>iPos := oPos s'\<rparr>)"
    if "reads_from i s'" "iPos i = oPos s" for i
  proof -
    have "mem_get (iData i) (unat (oPos s)) (unat n) = mem_get (oData s') (unat (oPos s)) (unat n)"
      using that s' by (intro mem_get_cong) (auto simp: reads_from_def ostream_wf_def)
    then show ?thesis using s' that by (simp add: loadByteArray_def)
  qed
  then show ?thesis using s' by blast
qed

theorem addByteArray_loadByteArray_witness:
  "\<exists>s'. addByteArray (replicate 100 (Some 1)) 100 (OStream_new 16 True) = Some s' \<and>
     loadByteArray 100 (IStream_new (oData s') True)
       = Some (replicate 100 (Some 1), (IStream_new (oData s') True)\<lparr>iPos := oPos s'\<rparr>)"
proof -
  let ?s = "OStream_new 16 True"
  have wf: "ostream_wf ?s" by (rule OStream_new_wf) simp_all
  have m: "mem_get (replicate 100 (Some 1)) 0 (unat (100 :: u64)) = Some (replicate 100 (Some 1))"
    by (simp add: mem_get_def)
  obtain s' where s': "addByteArray (replicate 100 (Some 1)) 100 ?s = Some s'" "ostream_wf s'"
    "extends ?s s'"
    "\<forall>i. reads_from i s' \<and> iPos i = oPos ?s \<longrightarrow>
       loadByteArray 100 i = Some (replicate 100 (Some 1), i\<lparr>iPos := oPos s'\<rparr>)"
    using addByteArray_loadByteArray[OF wf _ _ m] by (auto simp: OStream_new_def)
  moreover have "reads_from (IStream_new (oData s') True) s'"
    using s'(2,3) by (simp add: reads_from_def IStream_new_def ostream_wf_def OStream_new_def extends_def)
  ultimately show ?thesis by (simp add: IStream_new_def OStream_new_def)
qed

text \<open>C39: \<open>addString\<close> doubles the block at most once, where \<open>addByteArray\<close> loops: a string that
  does not fit into twice the block is written past the end of the block.\<close>

theorem addString_overflow:
  assumes "addU32 (ucast len) s = Some s1" and "length (oData s1) = unat (oLength s1)"
    and "2 * unat (oLength s1) < unat (oPos s1) + unat len"
  shows "addString_len str len s = None"
proof (rule ccontr)
  assume "addString_len str len s \<noteq> None"
  then obtain s' where "addString_len str len s = Some s'" by blast
  with assms(1) obtain s2 bs d where
    s2: "(if oLength s1 \<le> oPos s1 + len then growSize s1 else Some s1) = Some s2"
    and bs: "mem_get (map Some str) 0 (unat len) = Some bs"
    and d: "mem_put (oData s2) (unat (oPos s2)) bs = Some d"
    by (auto simp only: addString_len_def bind_Some_iff option.inject)
  have "length (oData s2) \<le> 2 * unat (oLength s1) \<and> oPos s2 = oPos s1"
  proof (cases "oLength s1 \<le> oPos s1 + len")
    case True
    then have "growSize s1 = Some s2" using s2 by simp
    from growSize_spec[OF assms(2) this] show ?thesis by simp
  next
    case False
    then show ?thesis using s2 assms(2) by simp
  qed
  with mem_put_fits[OF d] mem_get_length[OF bs] assms(3) show False by simp
qed

theorem addString_overflow_witness:
  "addString_len (replicate 30 65 @ [0]) 30 (OStream_new 16 False) = None"
proof (rule addString_overflow)
  show "addU32 (ucast (30 :: u64)) (OStream_new 16 False)
      = Some \<lparr>oData = [Some 30, Some 0, Some 0, Some 0] @ replicate 12 None, oLength = 16,
             oPos = 4, oUse64 = False\<rparr>"
    by (simp add: addU32_def put_bytes_def OStream_new_def mem_write_def mem_put_def)
qed simp_all

end
