(* ===== verification/Rs_Component.thy ===== *)
theory Rs_Component
  imports Rs_Stream
begin

text \<open>
  The class \<open>Component\<close> of \<open>rsComponent.h\<close> and \<open>rsComponent.cpp\<close> with the enumerations of
  \<open>rsDefines.h\<close> it uses. A component is the description of one basic cell: data type, kind,
  normalisation and vector size, with the sizes and flags \<open>set\<close> derives from them.

  The enumerations have one constructor per enumerator and one more for the values without
  an enumerator, which a cast from an integer can produce. \<open>mBitsUnpadded\<close> is an option:
  the constructor leaves it indeterminate and some paths of \<open>set\<close> never write it. The
  conditions of \<open>rsAssert\<close>, which only logs, are collected in \<open>Component_set_asserts\<close>.
\<close>

section \<open>The enumerations\<close>

datatype RsDataType =
    RS_TYPE_NONE | RS_TYPE_FLOAT_16 | RS_TYPE_FLOAT_32 | RS_TYPE_FLOAT_64
  | RS_TYPE_SIGNED_8 | RS_TYPE_SIGNED_16 | RS_TYPE_SIGNED_32 | RS_TYPE_SIGNED_64
  | RS_TYPE_UNSIGNED_8 | RS_TYPE_UNSIGNED_16 | RS_TYPE_UNSIGNED_32 | RS_TYPE_UNSIGNED_64
  | RS_TYPE_BOOLEAN
  | RS_TYPE_UNSIGNED_5_6_5 | RS_TYPE_UNSIGNED_5_5_5_1 | RS_TYPE_UNSIGNED_4_4_4_4
  | RS_TYPE_MATRIX_4X4 | RS_TYPE_MATRIX_3X3 | RS_TYPE_MATRIX_2X2
  | RS_TYPE_ELEMENT | RS_TYPE_TYPE | RS_TYPE_ALLOCATION | RS_TYPE_SAMPLER | RS_TYPE_SCRIPT
  | RS_TYPE_MESH | RS_TYPE_PROGRAM_FRAGMENT | RS_TYPE_PROGRAM_VERTEX | RS_TYPE_PROGRAM_RASTER
  | RS_TYPE_PROGRAM_STORE | RS_TYPE_FONT
  | RS_TYPE_INVALID
  | RS_TYPE_unnamed nat

fun RsDataType_val :: "RsDataType \<Rightarrow> nat" where
  "RsDataType_val RS_TYPE_NONE = 0"
| "RsDataType_val RS_TYPE_FLOAT_16 = 1"
| "RsDataType_val RS_TYPE_FLOAT_32 = 2"
| "RsDataType_val RS_TYPE_FLOAT_64 = 3"
| "RsDataType_val RS_TYPE_SIGNED_8 = 4"
| "RsDataType_val RS_TYPE_SIGNED_16 = 5"
| "RsDataType_val RS_TYPE_SIGNED_32 = 6"
| "RsDataType_val RS_TYPE_SIGNED_64 = 7"
| "RsDataType_val RS_TYPE_UNSIGNED_8 = 8"
| "RsDataType_val RS_TYPE_UNSIGNED_16 = 9"
| "RsDataType_val RS_TYPE_UNSIGNED_32 = 10"
| "RsDataType_val RS_TYPE_UNSIGNED_64 = 11"
| "RsDataType_val RS_TYPE_BOOLEAN = 12"
| "RsDataType_val RS_TYPE_UNSIGNED_5_6_5 = 13"
| "RsDataType_val RS_TYPE_UNSIGNED_5_5_5_1 = 14"
| "RsDataType_val RS_TYPE_UNSIGNED_4_4_4_4 = 15"
| "RsDataType_val RS_TYPE_MATRIX_4X4 = 16"
| "RsDataType_val RS_TYPE_MATRIX_3X3 = 17"
| "RsDataType_val RS_TYPE_MATRIX_2X2 = 18"
| "RsDataType_val RS_TYPE_ELEMENT = 1000"
| "RsDataType_val RS_TYPE_TYPE = 1001"
| "RsDataType_val RS_TYPE_ALLOCATION = 1002"
| "RsDataType_val RS_TYPE_SAMPLER = 1003"
| "RsDataType_val RS_TYPE_SCRIPT = 1004"
| "RsDataType_val RS_TYPE_MESH = 1005"
| "RsDataType_val RS_TYPE_PROGRAM_FRAGMENT = 1006"
| "RsDataType_val RS_TYPE_PROGRAM_VERTEX = 1007"
| "RsDataType_val RS_TYPE_PROGRAM_RASTER = 1008"
| "RsDataType_val RS_TYPE_PROGRAM_STORE = 1009"
| "RsDataType_val RS_TYPE_FONT = 1010"
| "RsDataType_val RS_TYPE_INVALID = 10000"
| "RsDataType_val (RS_TYPE_unnamed n) = n"

text \<open>A cast to the enumeration finds the enumerator with the value.\<close>

definition RsDataType_named :: "RsDataType list" where
  "RsDataType_named =
    [RS_TYPE_NONE, RS_TYPE_FLOAT_16, RS_TYPE_FLOAT_32, RS_TYPE_FLOAT_64,
     RS_TYPE_SIGNED_8, RS_TYPE_SIGNED_16, RS_TYPE_SIGNED_32, RS_TYPE_SIGNED_64,
     RS_TYPE_UNSIGNED_8, RS_TYPE_UNSIGNED_16, RS_TYPE_UNSIGNED_32, RS_TYPE_UNSIGNED_64,
     RS_TYPE_BOOLEAN, RS_TYPE_UNSIGNED_5_6_5, RS_TYPE_UNSIGNED_5_5_5_1,
     RS_TYPE_UNSIGNED_4_4_4_4, RS_TYPE_MATRIX_4X4, RS_TYPE_MATRIX_3X3, RS_TYPE_MATRIX_2X2,
     RS_TYPE_ELEMENT, RS_TYPE_TYPE, RS_TYPE_ALLOCATION, RS_TYPE_SAMPLER, RS_TYPE_SCRIPT,
     RS_TYPE_MESH, RS_TYPE_PROGRAM_FRAGMENT, RS_TYPE_PROGRAM_VERTEX, RS_TYPE_PROGRAM_RASTER,
     RS_TYPE_PROGRAM_STORE, RS_TYPE_FONT, RS_TYPE_INVALID]"

definition RsDataType_cast :: "nat \<Rightarrow> RsDataType" where
  "RsDataType_cast n =
     (case find (\<lambda>t. RsDataType_val t = n) RsDataType_named of
        Some t \<Rightarrow> t | None \<Rightarrow> RS_TYPE_unnamed n)"

datatype RsDataKind =
    RS_KIND_USER | RS_KIND_PIXEL_L | RS_KIND_PIXEL_A | RS_KIND_PIXEL_LA | RS_KIND_PIXEL_RGB
  | RS_KIND_PIXEL_RGBA | RS_KIND_PIXEL_DEPTH | RS_KIND_PIXEL_YUV | RS_KIND_INVALID
  | RS_KIND_unnamed nat

fun RsDataKind_val :: "RsDataKind \<Rightarrow> nat" where
  "RsDataKind_val RS_KIND_USER = 0"
| "RsDataKind_val RS_KIND_PIXEL_L = 7"
| "RsDataKind_val RS_KIND_PIXEL_A = 8"
| "RsDataKind_val RS_KIND_PIXEL_LA = 9"
| "RsDataKind_val RS_KIND_PIXEL_RGB = 10"
| "RsDataKind_val RS_KIND_PIXEL_RGBA = 11"
| "RsDataKind_val RS_KIND_PIXEL_DEPTH = 12"
| "RsDataKind_val RS_KIND_PIXEL_YUV = 13"
| "RsDataKind_val RS_KIND_INVALID = 100"
| "RsDataKind_val (RS_KIND_unnamed n) = n"

definition RsDataKind_named :: "RsDataKind list" where
  "RsDataKind_named =
    [RS_KIND_USER, RS_KIND_PIXEL_L, RS_KIND_PIXEL_A, RS_KIND_PIXEL_LA, RS_KIND_PIXEL_RGB,
     RS_KIND_PIXEL_RGBA, RS_KIND_PIXEL_DEPTH, RS_KIND_PIXEL_YUV, RS_KIND_INVALID]"

definition RsDataKind_cast :: "nat \<Rightarrow> RsDataKind" where
  "RsDataKind_cast n =
     (case find (\<lambda>k. RsDataKind_val k = n) RsDataKind_named of
        Some k \<Rightarrow> k | None \<Rightarrow> RS_KIND_unnamed n)"

section \<open>The component\<close>

record component =
  mType :: RsDataType
  mKind :: RsDataKind
  mNormalized :: bool
  mVectorSize :: u32
  mBits :: u32
  mBitsUnpadded :: "u32 option"
  mTypeBits :: u32
  mIsFloat :: bool
  mIsSigned :: bool
  mIsPixel :: bool

text \<open>The first switch of \<open>set\<close>.\<close>

fun Component_kind_isPixel :: "RsDataKind \<Rightarrow> bool" where
  "Component_kind_isPixel RS_KIND_PIXEL_L = True"
| "Component_kind_isPixel RS_KIND_PIXEL_A = True"
| "Component_kind_isPixel RS_KIND_PIXEL_LA = True"
| "Component_kind_isPixel RS_KIND_PIXEL_RGB = True"
| "Component_kind_isPixel RS_KIND_PIXEL_RGBA = True"
| "Component_kind_isPixel RS_KIND_PIXEL_YUV = True"
| "Component_kind_isPixel _ = False"

text \<open>What follows the second switch, reached by the cases that \<open>break\<close>.\<close>

definition Component_set_sizes :: "component \<Rightarrow> component option" where
  "Component_set_sizes c =
     do { p \<leftarrow> rsHigherPow2 (mVectorSize c);
          Some (c\<lparr>mBitsUnpadded := Some (mTypeBits c * mVectorSize c), mBits := mTypeBits c * p\<rparr>) }"

text \<open>The second switch: \<open>Inl\<close> for the cases that return, \<open>Inr\<close> for those that break.\<close>

fun Component_set_type :: "component \<Rightarrow> RsDataType \<Rightarrow> component + component" where
  "Component_set_type c RS_TYPE_NONE = Inl c"
| "Component_set_type c RS_TYPE_UNSIGNED_5_6_5 =
     Inl (c\<lparr>mVectorSize := 3, mBits := 16, mNormalized := True\<rparr>)"
| "Component_set_type c RS_TYPE_UNSIGNED_5_5_5_1 =
     Inl (c\<lparr>mVectorSize := 4, mBits := 16, mNormalized := True\<rparr>)"
| "Component_set_type c RS_TYPE_UNSIGNED_4_4_4_4 =
     Inl (c\<lparr>mVectorSize := 4, mBits := 16, mNormalized := True\<rparr>)"
| "Component_set_type c RS_TYPE_MATRIX_4X4 = Inr (c\<lparr>mTypeBits := 16 * 32\<rparr>)"
| "Component_set_type c RS_TYPE_MATRIX_3X3 = Inr (c\<lparr>mTypeBits := 9 * 32\<rparr>)"
| "Component_set_type c RS_TYPE_MATRIX_2X2 = Inr (c\<lparr>mTypeBits := 4 * 32\<rparr>)"
| "Component_set_type c RS_TYPE_ELEMENT = Inl (c\<lparr>mBits := 32, mTypeBits := 32\<rparr>)"
| "Component_set_type c RS_TYPE_TYPE = Inl (c\<lparr>mBits := 32, mTypeBits := 32\<rparr>)"
| "Component_set_type c RS_TYPE_ALLOCATION = Inl (c\<lparr>mBits := 32, mTypeBits := 32\<rparr>)"
| "Component_set_type c RS_TYPE_SAMPLER = Inl (c\<lparr>mBits := 32, mTypeBits := 32\<rparr>)"
| "Component_set_type c RS_TYPE_SCRIPT = Inl (c\<lparr>mBits := 32, mTypeBits := 32\<rparr>)"
| "Component_set_type c RS_TYPE_MESH = Inl (c\<lparr>mBits := 32, mTypeBits := 32\<rparr>)"
| "Component_set_type c RS_TYPE_PROGRAM_FRAGMENT = Inl (c\<lparr>mBits := 32, mTypeBits := 32\<rparr>)"
| "Component_set_type c RS_TYPE_PROGRAM_VERTEX = Inl (c\<lparr>mBits := 32, mTypeBits := 32\<rparr>)"
| "Component_set_type c RS_TYPE_PROGRAM_RASTER = Inl (c\<lparr>mBits := 32, mTypeBits := 32\<rparr>)"
| "Component_set_type c RS_TYPE_PROGRAM_STORE = Inl (c\<lparr>mBits := 32, mTypeBits := 32\<rparr>)"
| "Component_set_type c RS_TYPE_FONT = Inl (c\<lparr>mBits := 32, mTypeBits := 32\<rparr>)"
| "Component_set_type c RS_TYPE_FLOAT_16 = Inr (c\<lparr>mTypeBits := 16, mIsFloat := True\<rparr>)"
| "Component_set_type c RS_TYPE_FLOAT_32 = Inr (c\<lparr>mTypeBits := 32, mIsFloat := True\<rparr>)"
| "Component_set_type c RS_TYPE_FLOAT_64 = Inr (c\<lparr>mTypeBits := 64, mIsFloat := True\<rparr>)"
| "Component_set_type c RS_TYPE_SIGNED_8 = Inr (c\<lparr>mTypeBits := 8, mIsSigned := True\<rparr>)"
| "Component_set_type c RS_TYPE_SIGNED_16 = Inr (c\<lparr>mTypeBits := 16, mIsSigned := True\<rparr>)"
| "Component_set_type c RS_TYPE_SIGNED_32 = Inr (c\<lparr>mTypeBits := 32, mIsSigned := True\<rparr>)"
| "Component_set_type c RS_TYPE_SIGNED_64 = Inr (c\<lparr>mTypeBits := 64, mIsSigned := True\<rparr>)"
| "Component_set_type c RS_TYPE_UNSIGNED_8 = Inr (c\<lparr>mTypeBits := 8\<rparr>)"
| "Component_set_type c RS_TYPE_UNSIGNED_16 = Inr (c\<lparr>mTypeBits := 16\<rparr>)"
| "Component_set_type c RS_TYPE_UNSIGNED_32 = Inr (c\<lparr>mTypeBits := 32\<rparr>)"
| "Component_set_type c RS_TYPE_UNSIGNED_64 = Inr (c\<lparr>mTypeBits := 64\<rparr>)"
| "Component_set_type c RS_TYPE_BOOLEAN = Inr (c\<lparr>mTypeBits := 8\<rparr>)"
| "Component_set_type c RS_TYPE_INVALID = Inr c"
| "Component_set_type c (RS_TYPE_unnamed n) = Inr c"

definition Component_set ::
    "RsDataType \<Rightarrow> RsDataKind \<Rightarrow> bool \<Rightarrow> u32 \<Rightarrow> component \<Rightarrow> component option" where
  "Component_set dt dk norm vecSize c =
     (let c1 = c\<lparr>mType := dt, mKind := dk, mNormalized := norm, mVectorSize := vecSize,
                 mBits := 0, mTypeBits := 0, mIsFloat := False, mIsSigned := False,
                 mIsPixel := Component_kind_isPixel dk\<rparr>
      in case Component_set_type c1 dt of
           Inl c2 \<Rightarrow> Some c2
         | Inr c2 \<Rightarrow> Component_set_sizes c2)"

text \<open>The constructor. The other fields get their value in \<open>set\<close>; \<open>mBitsUnpadded\<close> stays
  indeterminate.\<close>

definition Component_new :: component where
  "Component_new =
     \<lparr>mType = RS_TYPE_NONE, mKind = RS_KIND_USER, mNormalized = False, mVectorSize = 1,
      mBits = 0, mBitsUnpadded = None, mTypeBits = 0, mIsFloat = False, mIsSigned = False,
      mIsPixel = False\<rparr>"

text \<open>The assertions of the two switches.\<close>

fun Component_kind_asserts :: "RsDataKind \<Rightarrow> bool \<Rightarrow> u32 \<Rightarrow> bool" where
  "Component_kind_asserts RS_KIND_PIXEL_L norm v = (v = 1 \<and> norm)"
| "Component_kind_asserts RS_KIND_PIXEL_A norm v = (v = 1 \<and> norm)"
| "Component_kind_asserts RS_KIND_PIXEL_LA norm v = (v = 2 \<and> norm)"
| "Component_kind_asserts RS_KIND_PIXEL_RGB norm v = (v = 3 \<and> norm)"
| "Component_kind_asserts RS_KIND_PIXEL_RGBA norm v = (v = 4 \<and> norm)"
| "Component_kind_asserts RS_KIND_PIXEL_YUV norm v = (v = 1 \<and> norm)"
| "Component_kind_asserts RS_KIND_INVALID norm v = False"
| "Component_kind_asserts _ norm v = True"

definition isReference :: "component \<Rightarrow> bool" where
  "isReference c = (RsDataType_val (mType c) \<ge> RsDataType_val RS_TYPE_ELEMENT)"

definition Component_set_asserts :: "RsDataType \<Rightarrow> RsDataKind \<Rightarrow> bool \<Rightarrow> u32 \<Rightarrow> bool" where
  "Component_set_asserts dt dk norm v \<longleftrightarrow> v \<le> 4 \<and> Component_kind_asserts dk norm v \<and>
     (case dt of
        RS_TYPE_UNSIGNED_5_6_5 \<Rightarrow> dk = RS_KIND_PIXEL_RGB
      | RS_TYPE_UNSIGNED_5_5_5_1 \<Rightarrow> dk = RS_KIND_PIXEL_RGBA
      | RS_TYPE_UNSIGNED_4_4_4_4 \<Rightarrow> dk = RS_KIND_PIXEL_RGBA
      | RS_TYPE_MATRIX_4X4 \<Rightarrow> v = 1 \<and> \<not> norm \<and> dk = RS_KIND_USER
      | RS_TYPE_MATRIX_3X3 \<Rightarrow> v = 1 \<and> \<not> norm \<and> dk = RS_KIND_USER
      | RS_TYPE_MATRIX_2X2 \<Rightarrow> v = 1 \<and> \<not> norm \<and> dk = RS_KIND_USER
      | RS_TYPE_INVALID \<Rightarrow> False
      | RS_TYPE_unnamed n \<Rightarrow> False
      | _ \<Rightarrow> (RsDataType_val dt \<ge> RsDataType_val RS_TYPE_ELEMENT \<longrightarrow>
                v = 1 \<and> \<not> norm \<and> dk = RS_KIND_USER))"

section \<open>The names in the log\<close>

definition gTypeBasicStrings :: "string list" where
  "gTypeBasicStrings =
    [''NONE'', ''F16'', ''F32'', ''F64'', ''S8'', ''S16'', ''S32'', ''S64'', ''U8'', ''U16'',
     ''U32'', ''U64'', ''BOOLEAN'', ''UP_565'', ''UP_5551'', ''UP_4444'', ''MATRIX_4X4'',
     ''MATRIX_3X3'', ''MATRIX_2X2'']"

definition gTypeObjStrings :: "string list" where
  "gTypeObjStrings =
    [''ELEMENT'', ''TYPE'', ''ALLOCATION'', ''SAMPLER'', ''SCRIPT'', ''MESH'',
     ''PROGRAM_FRAGMENT'', ''PROGRAM_VERTEX'', ''PROGRAM_RASTER'', ''PROGRAM_STORE'']"

definition gKindStrings :: "string list" where
  "gKindStrings =
    [''USER'', ''COLOR'', ''POSITION'', ''TEXTURE'', ''NORMAL'', ''INDEX'', ''POINT_SIZE'',
     ''PIXEL_L'', ''PIXEL_A'', ''PIXEL_LA'', ''PIXEL_RGB'', ''PIXEL_RGBA'']"

definition str_nth :: "string list \<Rightarrow> nat \<Rightarrow> string option" where
  "str_nth xs i = (if i < length xs then Some (xs ! i) else None)"

text \<open>What \<open>dumpLOGV\<close> prints: type name, kind name, vector size and bits. \<open>None\<close> is an access
  past the end of one of the tables.\<close>

definition Component_dumpLOGV :: "component \<Rightarrow> (string \<times> string \<times> u32 \<times> u32) option" where
  "Component_dumpLOGV c =
     (if RsDataType_val (mType c) \<ge> RsDataType_val RS_TYPE_ELEMENT
      then do { t \<leftarrow> str_nth gTypeObjStrings (RsDataType_val (mType c) - RsDataType_val RS_TYPE_ELEMENT);
                k \<leftarrow> str_nth gKindStrings (RsDataKind_val (mKind c));
                Some (t, k, mVectorSize c, mBits c) }
      else do { t \<leftarrow> str_nth gTypeBasicStrings (RsDataType_val (mType c));
                k \<leftarrow> str_nth gKindStrings (RsDataKind_val (mKind c));
                Some (t, k, mVectorSize c, mBits c) })"

section \<open>Serialisation\<close>

definition Component_serialize :: "component \<Rightarrow> ostream \<Rightarrow> ostream option" where
  "Component_serialize c s =
     do { s1 \<leftarrow> addU8 (of_nat (RsDataType_val (mType c))) s;
          s2 \<leftarrow> addU8 (of_nat (RsDataKind_val (mKind c))) s1;
          s3 \<leftarrow> addU8 (if mNormalized c then 1 else 0) s2;
          addU32 (mVectorSize c) s3 }"

definition Component_loadFromStream ::
    "component \<Rightarrow> istream \<Rightarrow> (component \<times> istream) option" where
  "Component_loadFromStream c i =
     do { (t, i1) \<leftarrow> loadU8 i;
          (k, i2) \<leftarrow> loadU8 i1;
          (temp, i3) \<leftarrow> loadU8 i2;
          (v, i4) \<leftarrow> loadU32 i3;
          c' \<leftarrow> Component_set (RsDataType_cast (unat t)) (RsDataKind_cast (unat k)) (temp \<noteq> 0) v c;
          Some (c', i4) }"

section \<open>Sizes\<close>

lemma Component_new_set:
  "mBitsUnpadded c = None \<Longrightarrow> Component_set RS_TYPE_NONE RS_KIND_USER False 1 c = Some Component_new"
  by (simp add: Component_set_def Component_new_def)

lemma rsHigherPow2_vec [simp]:
  "rsHigherPow2 1 = Some 1" "rsHigherPow2 2 = Some 2" "rsHigherPow2 3 = Some 4"
  "rsHigherPow2 4 = Some 4"
proof -
  have "rsFindHighBit 3 = 1"
    unfolding rsFindHighBit_def
    by (subst rsFindHighBit_loop.simps, simp, subst rsFindHighBit_loop.simps, simp)
  then show "rsHigherPow2 3 = Some 4" by (simp add: rsHigherPow2_def rsIsPow2_def shl32_def)
qed (simp_all add: rsHigherPow2_def rsIsPow2_def)

lemma vec_cases: "(v :: u32) \<le> 4 \<Longrightarrow> v \<noteq> 0 \<Longrightarrow> v = 1 \<or> v = 2 \<or> v = 3 \<or> v = 4"
proof -
  assume "v \<le> 4" "v \<noteq> 0"
  then have "unat v \<le> 4" "unat v \<noteq> 0" by (simp_all add: word_le_nat_alt unat_eq_0)
  then have "unat v = 1 \<or> unat v = 2 \<or> unat v = 3 \<or> unat v = 4" by linarith
  then show ?thesis by (auto simp: word_unat_eq_iff)
qed

text \<open>The cases of \<open>set\<close> that break out of the second switch without an assertion failing, and
  the width of their type.\<close>

fun numeric_bits :: "RsDataType \<Rightarrow> u32 option" where
  "numeric_bits dt = (case Component_set_type Component_new dt of
      Inr c \<Rightarrow> if mTypeBits c = 0 then None else Some (mTypeBits c) | Inl _ \<Rightarrow> None)"

text \<open>For every scalar, vector and matrix type (16 types) and every vector size from 1 to 4,
  \<open>set\<close> succeeds, the unpadded size is the type's width times the vector size, and the
  padded size is the width times 1, 2, 4 and 4: vectors of three are padded to four.\<close>

theorem Component_set_padding:
  assumes "numeric_bits dt = Some b" and "0 < v" and "v \<le> 4"
  shows "\<exists>c'. Component_set dt dk norm v c = Some c' \<and> mTypeBits c' = b
    \<and> mBitsUnpadded c' = Some (b * v) \<and> mBits c' = b * (if v = 3 then 4 else v)
    \<and> mVectorSize c' = v"
proof -
  from assms(2,3) have "v = 1 \<or> v = 2 \<or> v = 3 \<or> v = 4" by (intro vec_cases) auto
  moreover have "\<exists>p. rsHigherPow2 v = Some p \<and> p = (if v = 3 then 4 else v)"
    using calculation by auto
  ultimately show ?thesis using assms(1)
    by (cases dt) (auto simp: Component_set_def Component_set_sizes_def Component_new_def)
qed

theorem Component_set_padding_witness:
  "\<exists>c'. Component_set RS_TYPE_FLOAT_32 RS_KIND_USER False 3 Component_new = Some c'
    \<and> mTypeBits c' = 32 \<and> mBitsUnpadded c' = Some 96 \<and> mBits c' = 128 \<and> mVectorSize c' = 3"
  using Component_set_padding[of RS_TYPE_FLOAT_32 32 3 RS_KIND_USER False Component_new]
  by (simp add: Component_new_def)

section \<open>Serialisation\<close>

lemma RsDataType_cast_val:
  "RsDataType_cast (RsDataType_val t) = t \<longleftrightarrow> (\<forall>n. t = RS_TYPE_unnamed n \<longrightarrow> (\<forall>t'\<in>set RsDataType_named. RsDataType_val t' \<noteq> n))"
  by (cases t) (auto simp: RsDataType_cast_def RsDataType_named_def split: option.splits)

text \<open>A component as \<open>set\<close> makes it, whose type and kind fit into the byte the format has for
  them.\<close>

definition component_storable :: "component \<Rightarrow> bool" where
  "component_storable c \<longleftrightarrow>
     Component_set (mType c) (mKind c) (mNormalized c) (mVectorSize c) Component_new = Some c
     \<and> RsDataType_val (mType c) < 256 \<and> RsDataType_cast (RsDataType_val (mType c)) = mType c
     \<and> RsDataKind_val (mKind c) < 256 \<and> RsDataKind_cast (RsDataKind_val (mKind c)) = mKind c"

lemma Component_set_fields:
  assumes "Component_set dt dk norm v c = Some c'"
  shows "mType c' = dt" and "mKind c' = dk"
    and "Component_set dt dk (mNormalized c') (mVectorSize c') c = Some c'"
  using assms
  by (cases dt; force simp: Component_set_def Component_set_sizes_def bind_Some_iff)+

lemma Component_serialize_steps:
  assumes "ostream_wf s" and "Component_serialize c s = Some s'"
  obtains s1 s2 s3 where
    "addU8 (of_nat (RsDataType_val (mType c))) s = Some s1" "ostream_wf s1" "extends s s1"
    "addU8 (of_nat (RsDataKind_val (mKind c))) s1 = Some s2" "ostream_wf s2" "extends s1 s2"
    "addU8 (if mNormalized c then 1 else 0) s2 = Some s3" "ostream_wf s3" "extends s2 s3"
    "addU32 (mVectorSize c) s3 = Some s'" "ostream_wf s'" "extends s3 s'"
proof -
  from assms(2) obtain s1 s2 s3 where
    s: "addU8 (of_nat (RsDataType_val (mType c))) s = Some s1"
    "addU8 (of_nat (RsDataKind_val (mKind c))) s1 = Some s2"
    "addU8 (if mNormalized c then 1 else 0) s2 = Some s3"
    "addU32 (mVectorSize c) s3 = Some s'"
    unfolding Component_serialize_def bind_Some_iff by blast
  have k1: "ostream_wf s1" "extends s s1" using c_u8.add_keeps[OF assms(1) s(1)] by blast+
  have k2: "ostream_wf s2" "extends s1 s2" using c_u8.add_keeps[OF k1(1) s(2)] by blast+
  have k3: "ostream_wf s3" "extends s2 s3" using c_u8.add_keeps[OF k2(1) s(3)] by blast+
  have k4: "ostream_wf s'" "extends s3 s'" using c_u32.add_keeps[OF k3(1) s(4)] by blast+
  show thesis by (rule that) (fact s k1 k2 k3 k4)+
qed

lemma Component_loads:
  assumes wf: "ostream_wf s" and a: "Component_serialize c s = Some s'"
    and i: "reads_from i s'" "iPos i = oPos s"
  shows "Component_loadFromStream c0 i =
    (case Component_set (RsDataType_cast (RsDataType_val (mType c) mod 256))
        (RsDataKind_cast (RsDataKind_val (mKind c) mod 256)) (mNormalized c) (mVectorSize c) c0
     of None \<Rightarrow> None | Some c' \<Rightarrow> Some (c', i\<lparr>iPos := oPos s'\<rparr>))"
proof -
  obtain s1 s2 s3 where
    s: "addU8 (of_nat (RsDataType_val (mType c))) s = Some s1" "ostream_wf s1" "extends s s1"
    "addU8 (of_nat (RsDataKind_val (mKind c))) s1 = Some s2" "ostream_wf s2" "extends s1 s2"
    "addU8 (if mNormalized c then 1 else 0) s2 = Some s3" "ostream_wf s3" "extends s2 s3"
    "addU32 (mVectorSize c) s3 = Some s'" "ostream_wf s'" "extends s3 s'"
    by (rule Component_serialize_steps[OF wf a])
  have e: "extends s2 s'" "extends s1 s'" using s extends_trans by blast+
  have l1: "loadU8 i = Some (of_nat (RsDataType_val (mType c)), i\<lparr>iPos := oPos s1\<rparr>)"
    using c_u8.load_add_later[OF wf TrueI s(1) e(2) i] by simp
  have l2: "loadU8 (i\<lparr>iPos := oPos s1\<rparr>) = Some (of_nat (RsDataKind_val (mKind c)), i\<lparr>iPos := oPos s2\<rparr>)"
    using c_u8.load_add_later[OF s(2) TrueI s(4) e(1), of "i\<lparr>iPos := oPos s1\<rparr>"] i by simp
  have l3: "loadU8 (i\<lparr>iPos := oPos s2\<rparr>) = Some (if mNormalized c then 1 else 0, i\<lparr>iPos := oPos s3\<rparr>)"
    using c_u8.load_add_later[OF s(5) TrueI s(7) s(12), of "i\<lparr>iPos := oPos s2\<rparr>"] i by simp
  have l4: "loadU32 (i\<lparr>iPos := oPos s3\<rparr>) = Some (mVectorSize c, i\<lparr>iPos := oPos s'\<rparr>)"
    using c_u32.load_add_later[OF s(8) TrueI s(10) extends_refl, of "i\<lparr>iPos := oPos s3\<rparr>"] i by simp
  show ?thesis
    by (auto simp: Component_loadFromStream_def l1 l2 l3 l4 unat_of_nat split: option.split)
qed

text \<open>Components are a codec of the stream format themselves.\<close>

interpretation c_comp: stream_codec Component_serialize "Component_loadFromStream Component_new" id
  "\<lambda>_. component_storable"
proof
  fix s s' :: ostream and c :: component
  assume wf: "ostream_wf s" and a: "Component_serialize c s = Some s'"
  obtain s1 s2 s3 where k: "extends s s1" "extends s1 s2" "extends s2 s3" "ostream_wf s'" "extends s3 s'"
    by (rule Component_serialize_steps[OF wf a])
  show "ostream_wf s'" by (fact k)
  show "extends s s'" using k extends_trans by blast
  fix i assume "component_storable c" and i: "reads_from i s'" "iPos i = oPos s"
  then show "Component_loadFromStream Component_new i = Some (id c, i\<lparr>iPos := oPos s'\<rparr>)"
    using Component_loads[OF wf a i, of Component_new] by (simp add: component_storable_def)
qed

text \<open>C31: A component that \<open>set\<close> made from a type and a kind that fit into a byte is restored
  exactly, every derived field included, by \<open>loadFromStream\<close> from what \<open>serialize\<close>
  wrote.\<close>

theorem Component_roundtrip:
  assumes "ostream_wf s" and "Component_set dt dk norm v Component_new = Some c"
    and "RsDataType_val dt < 256" and "RsDataType_cast (RsDataType_val dt) = dt"
    and "RsDataKind_val dk < 256" and "RsDataKind_cast (RsDataKind_val dk) = dk"
    and "Component_serialize c s = Some s'" and "extends s' t"
    and "reads_from i t" and "iPos i = oPos s"
  shows "Component_loadFromStream Component_new i = Some (c, i\<lparr>iPos := oPos s'\<rparr>)"
proof -
  have "component_storable c"
    using Component_set_fields[OF assms(2)] assms(3-6) by (simp add: component_storable_def)
  then show ?thesis using c_comp.load_add_later[OF assms(1) _ assms(7-10)] by simp
qed

theorem Component_roundtrip_witness:
  "\<exists>c s'. Component_set RS_TYPE_UNSIGNED_8 RS_KIND_PIXEL_RGBA True 4 Component_new = Some c \<and>
     Component_serialize c (OStream_new 16 False) = Some s' \<and>
     Component_loadFromStream Component_new (IStream_new (oData s') False)
       = Some (c, (IStream_new (oData s') False)\<lparr>iPos := oPos s'\<rparr>)"
proof -
  let ?s = "OStream_new 16 False"
  obtain c where c: "Component_set RS_TYPE_UNSIGNED_8 RS_KIND_PIXEL_RGBA True 4 Component_new = Some c"
    by (simp add: Component_set_def Component_set_sizes_def)
  then have f: "mType c = RS_TYPE_UNSIGNED_8" "mKind c = RS_KIND_PIXEL_RGBA"
    "mNormalized c" "mVectorSize c = 4"
    by (auto simp: Component_set_def Component_set_sizes_def)
  have wf: "ostream_wf ?s" by (rule OStream_new_wf) simp_all
  have "Option.is_none (Option.bind (Component_set RS_TYPE_UNSIGNED_8 RS_KIND_PIXEL_RGBA True 4 Component_new)
      (\<lambda>c. Component_serialize c ?s)) = False"
    by code_simp
  with c obtain s' where a: "Component_serialize c ?s = Some s'"
    by (auto simp: Option.is_none_def)
  have "reads_from (IStream_new (oData s') False) s'"
    using c_comp.add_keeps[OF wf a]
    by (simp add: reads_from_def IStream_new_def ostream_wf_def OStream_new_def)
  then have "Component_loadFromStream Component_new (IStream_new (oData s') False)
       = Some (c, (IStream_new (oData s') False)\<lparr>iPos := oPos s'\<rparr>)"
    by (intro Component_roundtrip[OF wf c _ _ _ _ a extends_refl])
       (simp_all add: RsDataType_cast_def RsDataType_named_def RsDataKind_cast_def
          RsDataKind_named_def IStream_new_def OStream_new_def)
  with c a show ?thesis by blast
qed

lemma RsDataType_cast_gap: "18 < k \<Longrightarrow> k < 1000 \<Longrightarrow> RsDataType_cast k = RS_TYPE_unnamed k"
  by (simp add: RsDataType_cast_def RsDataType_named_def)

text \<open>A component of an object type does not survive the round trip: \<open>serialize\<close> keeps only
  the low byte of the type, and what is loaded is no type of the enumeration.\<close>

theorem Component_reference_lost:
  assumes "ostream_wf s" and "Component_serialize c s = Some s'"
    and "1000 \<le> RsDataType_val (mType c)" and "RsDataType_val (mType c) \<le> 1010"
    and "reads_from i s'" and "iPos i = oPos s"
    and "Component_loadFromStream c0 i = Some (c', i')"
  shows "mType c' = RS_TYPE_unnamed (RsDataType_val (mType c) - 768)"
proof -
  let ?n = "RsDataType_val (mType c)"
  have n: "?n mod 256 = ?n - 768" using assms(3,4) by (simp add: mod_if)
  have "RsDataType_cast (?n - 768) = RS_TYPE_unnamed (?n - 768)"
    using assms(3,4) by (intro RsDataType_cast_gap) simp_all
  then have "\<exists>k. Component_set (RS_TYPE_unnamed (?n - 768)) k (mNormalized c) (mVectorSize c) c0 = Some c'"
    using assms(7) Component_loads[OF assms(1,2,5,6), of c0] n by (auto split: option.splits)
  then show ?thesis using Component_set_fields(1) by blast
qed

theorem Component_reference_lost_witness:
  "\<exists>c s' c' i'. mType c = RS_TYPE_ELEMENT \<and> Component_serialize c (OStream_new 16 False) = Some s' \<and>
     Component_loadFromStream Component_new (IStream_new (oData s') False) = Some (c', i') \<and>
     mType c' = RS_TYPE_unnamed 232"
proof -
  let ?s = "OStream_new 16 False"
  obtain c where c: "Component_set RS_TYPE_ELEMENT RS_KIND_USER False 1 Component_new = Some c"
    by (simp add: Component_set_def)
  then have f: "mType c = RS_TYPE_ELEMENT" "mKind c = RS_KIND_USER" "\<not> mNormalized c" "mVectorSize c = 1"
    by (auto simp: Component_set_def)
  have wf: "ostream_wf ?s" by (rule OStream_new_wf) simp_all
  have "Option.is_none (Option.bind (Component_set RS_TYPE_ELEMENT RS_KIND_USER False 1 Component_new)
      (\<lambda>c. Component_serialize c ?s)) = False"
    by code_simp
  with c obtain s' where a: "Component_serialize c ?s = Some s'"
    by (auto simp: Option.is_none_def)
  let ?i = "IStream_new (oData s') False"
  have r: "reads_from ?i s'" and p: "iPos ?i = oPos ?s"
    using c_comp.add_keeps[OF wf a]
    by (simp_all add: reads_from_def IStream_new_def ostream_wf_def OStream_new_def)
  have "Component_set (RsDataType_cast 232) RS_KIND_USER False 1 Component_new \<noteq> None"
    by (simp add: RsDataType_cast_def RsDataType_named_def Component_set_def Component_set_sizes_def)
  then obtain c' i' where l: "Component_loadFromStream Component_new ?i = Some (c', i')"
    using Component_loads[OF wf a r p, of Component_new] f
    by (auto simp: RsDataKind_cast_def RsDataKind_named_def)
  show ?thesis
    using Component_reference_lost[OF wf a _ _ r p l] f a l by auto
qed

section \<open>The log\<close>

text \<open>The tables of names end before the last enumerators: printing a font component, or a depth
  or YUV pixel, reads past the end of a table.\<close>

lemma Component_dumpLOGV_None:
  "mType c = RS_TYPE_FONT \<or> mKind c = RS_KIND_PIXEL_DEPTH \<or> mKind c = RS_KIND_PIXEL_YUV \<Longrightarrow>
   Component_dumpLOGV c = None"
  by (auto simp: Component_dumpLOGV_def str_nth_def gTypeObjStrings_def gKindStrings_def
      split: if_splits)

lemma Component_dumpLOGV_Some:
  assumes "mType c \<in> set RsDataType_named - {RS_TYPE_FONT, RS_TYPE_INVALID}"
    and "mKind c \<in> {RS_KIND_USER, RS_KIND_PIXEL_L, RS_KIND_PIXEL_A, RS_KIND_PIXEL_LA,
      RS_KIND_PIXEL_RGB, RS_KIND_PIXEL_RGBA}"
  shows "\<exists>t k. Component_dumpLOGV c = Some (t, k, mVectorSize c, mBits c)"
  using assms
  by (cases "mType c"; cases "mKind c")
     (auto simp: Component_dumpLOGV_def str_nth_def gTypeObjStrings_def gTypeBasicStrings_def
        gKindStrings_def RsDataType_named_def)

end
