(* ===== verification/Rs_Element.thy ===== *)
theory Rs_Element
  imports Rs_Component
begin

text \<open>
  The class \<open>Element\<close> of \<open>rsElement.h\<close> and \<open>rsElement.cpp\<close>: the description of one cell of an
  allocation, either a single component or a structure of named fields. This theory has the
  part of the class that computes sizes, offsets and the driver's view, the walk over the
  object references in a cell, and serialisation. The operations that create, share and
  delete elements are in \<open>Rs_Context\<close>.

  A field refers to its element by the element's address. The definitions take the map \<open>E\<close>
  from addresses to elements; an address that is no element is the undefined outcome.
\<close>

section \<open>Data\<close>

record element_field =
  fName :: "u8 list"
  fElem :: nat
  fOffsetBits :: u32
  fOffsetBitsUnpadded :: u32
  fArraySize :: u32

record element_hal =
  hDataType :: RsDataType
  hDataKind :: RsDataKind
  hVectorSize :: u32
  hElementSizeBytes :: u32
  hFields :: "nat list"
  hFieldArraySizes :: "u32 list"
  hFieldNames :: "u8 list list"
  hFieldNameLengths :: "u32 list"
  hFieldOffsetBytes :: "u32 list"
  hFieldsCount :: u32

record element =
  eHal :: element_hal
  eFields :: "element_field list"
  eHasReference :: bool
  eComponent :: component
  eBitsUnpadded :: "u32 option"
  eBits :: u32

type_synonym elem_env = "nat \<Rightarrow> element option"

definition Element_new :: element where
  "Element_new =
     \<lparr>eHal = \<lparr>hDataType = RS_TYPE_NONE, hDataKind = RS_KIND_USER, hVectorSize = 0,
              hElementSizeBytes = 0, hFields = [], hFieldArraySizes = [], hFieldNames = [],
              hFieldNameLengths = [], hFieldOffsetBytes = [], hFieldsCount = 0\<rparr>,
      eFields = [], eHasReference = False, eComponent = Component_new,
      eBitsUnpadded = Some 0, eBits = 0\<rparr>"

text \<open>What \<open>clear\<close> releases: \<open>delete [] mFields\<close> destroys the fields from the last to the
  first.\<close>

definition Element_releases :: "element \<Rightarrow> nat list" where
  "Element_releases e = rev (map fElem (eFields e))"

section \<open>Sizes\<close>

text \<open>The product \<open>mBits * arraySize\<close> is a \<open>uint32_t\<close>, the total a \<open>size_t\<close>.\<close>

fun getSizeBits_loop :: "elem_env \<Rightarrow> element_field list \<Rightarrow> u64 \<Rightarrow> u64 option" where
  "getSizeBits_loop E [] tot = Some tot"
| "getSizeBits_loop E (f # fs) tot =
     do { sub \<leftarrow> E (fElem f);
          getSizeBits_loop E fs (tot + ucast (eBits sub * fArraySize f)) }"

definition getSizeBits :: "elem_env \<Rightarrow> element \<Rightarrow> u64 option" where
  "getSizeBits E e =
     (if eFields e = [] then Some (ucast (eBits e)) else getSizeBits_loop E (eFields e) 0)"

fun getSizeBitsUnpadded_loop :: "elem_env \<Rightarrow> element_field list \<Rightarrow> u64 \<Rightarrow> u64 option" where
  "getSizeBitsUnpadded_loop E [] tot = Some tot"
| "getSizeBitsUnpadded_loop E (f # fs) tot =
     do { sub \<leftarrow> E (fElem f);
          b \<leftarrow> eBitsUnpadded sub;
          getSizeBitsUnpadded_loop E fs (tot + ucast (b * fArraySize f)) }"

definition getSizeBitsUnpadded :: "elem_env \<Rightarrow> element \<Rightarrow> u64 option" where
  "getSizeBitsUnpadded E e =
     (if eFields e = [] then map_option ucast (eBitsUnpadded e)
      else getSizeBitsUnpadded_loop E (eFields e) 0)"

definition getSizeBytes :: "elem_env \<Rightarrow> element \<Rightarrow> u64 option" where
  "getSizeBytes E e = do { b \<leftarrow> getSizeBits E e; Some (drop_bit 3 (b + 7)) }"

definition getSizeBytesUnpadded :: "elem_env \<Rightarrow> element \<Rightarrow> u64 option" where
  "getSizeBytesUnpadded E e = do { b \<leftarrow> getSizeBitsUnpadded E e; Some (drop_bit 3 (b + 7)) }"

definition field_at :: "element \<Rightarrow> nat \<Rightarrow> element_field option" where
  "field_at e i = (if i < length (eFields e) then Some (eFields e ! i) else None)"

definition getFieldOffsetBytes :: "element \<Rightarrow> u32 \<Rightarrow> u64 option" where
  "getFieldOffsetBytes e i = map_option (\<lambda>f. drop_bit 3 (ucast (fOffsetBits f))) (field_at e (unat i))"

definition getFieldOffsetBytesUnpadded :: "element \<Rightarrow> u32 \<Rightarrow> u64 option" where
  "getFieldOffsetBytesUnpadded e i =
     map_option (\<lambda>f. drop_bit 3 (ucast (fOffsetBitsUnpadded f))) (field_at e (unat i))"

section \<open>The derived state\<close>

text \<open>\<open>name[0]\<close> of a C string.\<close>

definition first_char :: "u8 list \<Rightarrow> u8 option" where
  "first_char s = (case s of [] \<Rightarrow> None | c # cs \<Rightarrow> Some c)"

fun noPaddingFieldCount :: "element_field list \<Rightarrow> u32 \<Rightarrow> u32 option" where
  "noPaddingFieldCount [] n = Some n"
| "noPaddingFieldCount (f # fs) n =
     do { c \<leftarrow> first_char (fName f); noPaddingFieldCount fs (if c \<noteq> 0x23 then n + 1 else n) }"

text \<open>The second loop of \<open>compute\<close>. The accumulator is the element with the fields done so
  far; the driver's arrays grow where the code fills their next slot.\<close>

definition hal_push :: "element_field \<Rightarrow> element_hal \<Rightarrow> element_hal option" where
  "hal_push f h =
     do { n \<leftarrow> c_strlen (fName f);
          Some (h\<lparr>hFields := hFields h @ [fElem f],
                  hFieldArraySizes := hFieldArraySizes h @ [fArraySize f],
                  hFieldNames := hFieldNames h @ [fName f],
                  hFieldNameLengths := hFieldNameLengths h @ [of_nat n + 1],
                  hFieldOffsetBytes := hFieldOffsetBytes h @ [drop_bit 3 (fOffsetBits f)]\<rparr>) }"

fun Element_compute_loop ::
    "elem_env \<Rightarrow> element_field list \<Rightarrow> u64 \<Rightarrow> u64 \<Rightarrow> element \<Rightarrow> element option" where
  "Element_compute_loop E [] bits bitsUnpadded e = Some e"
| "Element_compute_loop E (f # fs) bits bitsUnpadded e =
     do { sub \<leftarrow> E (fElem f);
          let f' = f\<lparr>fOffsetBits := ucast bits, fOffsetBitsUnpadded := ucast bitsUnpadded\<rparr>;
          sb \<leftarrow> getSizeBits E sub;
          su \<leftarrow> getSizeBitsUnpadded E sub;
          let e1 = e\<lparr>eFields := eFields e @ [f'], eHasReference := eHasReference e \<or> eHasReference sub\<rparr>;
          c \<leftarrow> first_char (fName f);
          h \<leftarrow> (if c = 0x23 then Some (eHal e1) else hal_push f' (eHal e1));
          Element_compute_loop E fs (bits + sb * ucast (fArraySize f))
            (bitsUnpadded + su * ucast (fArraySize f)) (e1\<lparr>eHal := h\<rparr>) }"

definition Element_compute :: "elem_env \<Rightarrow> element \<Rightarrow> element option" where
  "Element_compute E e =
     (let c = eComponent e;
          e0 = e\<lparr>eHal := (eHal e)\<lparr>hDataType := mType c, hDataKind := mKind c,
                                   hVectorSize := mVectorSize c\<rparr>\<rparr>
      in if eFields e = []
         then let e1 = e0\<lparr>eBits := mBits c, eBitsUnpadded := mBitsUnpadded c,
                          eHasReference := isReference c\<rparr>
              in do { n \<leftarrow> getSizeBytes E e1;
                      Some (e1\<lparr>eHal := (eHal e1)\<lparr>hElementSizeBytes := ucast n\<rparr>\<rparr>) }
         else do { cnt \<leftarrow> noPaddingFieldCount (eFields e) 0;
                   let e1 = e0\<lparr>eFields := [], eHal := (eHal e0)\<lparr>hFields := [], hFieldArraySizes := [],
                       hFieldNames := [], hFieldNameLengths := [], hFieldOffsetBytes := [],
                       hFieldsCount := cnt\<rparr>\<rparr>;
                   e2 \<leftarrow> Element_compute_loop E (eFields e) 0 0 e1;
                   n \<leftarrow> getSizeBytes E e2;
                   Some (e2\<lparr>eHal := (eHal e2)\<lparr>hElementSizeBytes := ucast n\<rparr>\<rparr>) })"

section \<open>Object references in a cell\<close>

text \<open>
  \<open>incRefs\<close> and \<open>decRefs\<close> walk over a cell in memory and act on every object pointer in it;
  \<open>act\<close> is \<open>incSysRef\<close> or \<open>decSysRef\<close>. A pointer is eight bytes; the object at address \<open>k\<close> is
  the pointer value \<open>k + 1\<close>, null is 0. The depth of nested structures is bounded by
  \<open>fuel\<close>.
\<close>

fun array_walk :: "(nat \<Rightarrow> 'st \<Rightarrow> 'st option) \<Rightarrow> nat \<Rightarrow> nat \<Rightarrow> nat \<Rightarrow> 'st \<Rightarrow> 'st option" where
  "array_walk step 0 p stride st = Some st"
| "array_walk step (Suc n) p stride st =
     do { st1 \<leftarrow> step p st; array_walk step n (p + stride) stride st1 }"

fun fields_walk ::
    "elem_env \<Rightarrow> (element \<Rightarrow> nat \<Rightarrow> 'st \<Rightarrow> 'st option) \<Rightarrow> element_field list \<Rightarrow> nat \<Rightarrow> 'st \<Rightarrow> 'st option"
  where
  "fields_walk E step [] p st = Some st"
| "fields_walk E step (f # fs) p st =
     do { sub \<leftarrow> E (fElem f);
          st1 \<leftarrow> (if eHasReference sub
                  then do { n \<leftarrow> getSizeBytes E sub;
                            array_walk (step sub) (unat (fArraySize f))
                              (p + unat (drop_bit 3 (fOffsetBits f))) (unat n) st }
                  else Some st);
          fields_walk E step fs p st1 }"

primrec walkRefs ::
    "elem_env \<Rightarrow> mem \<Rightarrow> (nat \<Rightarrow> 'st \<Rightarrow> 'st option) \<Rightarrow> nat \<Rightarrow> element \<Rightarrow> nat \<Rightarrow> 'st \<Rightarrow> 'st option" where
  "walkRefs E m act 0 = (\<lambda>e p st. None)"
| "walkRefs E m act (Suc fuel) = (\<lambda>e p st.
     if eFields e = []
     then (if isReference (eComponent e)
           then do { bs \<leftarrow> mem_read m p 8;
                     let v = unat (le64 bs);
                     if v \<noteq> 0 then act (v - 1) st else Some st }
           else Some st)
     else fields_walk E (walkRefs E m act fuel) (eFields e) p st)"

section \<open>Serialisation\<close>

definition RS_A3D_CLASS_ID_ELEMENT :: u32 where
  "RS_A3D_CLASS_ID_ELEMENT = 3"

text \<open>\<open>N\<close> gives the names of the objects; an object without a name makes \<open>addString(getName())\<close>
  take the length of a null pointer.\<close>

fun fields_serialize ::
    "(nat \<Rightarrow> ostream \<Rightarrow> ostream option) \<Rightarrow> element_field list \<Rightarrow> ostream \<Rightarrow> ostream option" where
  "fields_serialize ser [] s = Some s"
| "fields_serialize ser (f # fs) s =
     do { s1 \<leftarrow> addString (fName f) s;
          s2 \<leftarrow> addU32 (fArraySize f) s1;
          s3 \<leftarrow> ser (fElem f) s2;
          fields_serialize ser fs s3 }"

primrec Element_serialize ::
    "elem_env \<Rightarrow> (nat \<Rightarrow> u8 list option) \<Rightarrow> nat \<Rightarrow> nat \<Rightarrow> ostream \<Rightarrow> ostream option" where
  "Element_serialize E N 0 = (\<lambda>ob s. None)"
| "Element_serialize E N (Suc fuel) = (\<lambda>ob s.
     do { e \<leftarrow> E ob;
          s1 \<leftarrow> addU32 RS_A3D_CLASS_ID_ELEMENT s;
          name \<leftarrow> N ob;
          s2 \<leftarrow> addString name s1;
          s3 \<leftarrow> Component_serialize (eComponent e) s2;
          s4 \<leftarrow> addU32 (of_nat (length (eFields e))) s3;
          fields_serialize (Element_serialize E N fuel) (eFields e) s4 })"

section \<open>The native view\<close>

definition rsaElementGetNativeData :: "element \<Rightarrow> u32 list" where
  "rsaElementGetNativeData e =
     [of_nat (RsDataType_val (mType (eComponent e))), of_nat (RsDataKind_val (mKind (eComponent e))),
      if mNormalized (eComponent e) then 1 else 0, mVectorSize (eComponent e),
      of_nat (length (eFields e))]"

section \<open>Offsets\<close>

text \<open>The size of a field in bits, as a number.\<close>

definition elem_bits :: "elem_env \<Rightarrow> nat \<Rightarrow> nat" where
  "elem_bits E ob = (case Option.bind (E ob) (getSizeBits E) of None \<Rightarrow> 0 | Some b \<Rightarrow> unat b)"

definition field_bits :: "elem_env \<Rightarrow> element_field \<Rightarrow> nat" where
  "field_bits E f = elem_bits E (fElem f) * unat (fArraySize f)"

text \<open>The same without the padding of vectors of three.\<close>

definition elem_bits_unpadded :: "elem_env \<Rightarrow> nat \<Rightarrow> nat" where
  "elem_bits_unpadded E ob = (case Option.bind (E ob) (getSizeBitsUnpadded E) of None \<Rightarrow> 0 | Some b \<Rightarrow> unat b)"

definition field_bits_unpadded :: "elem_env \<Rightarrow> element_field \<Rightarrow> nat" where
  "field_bits_unpadded E f = elem_bits_unpadded E (fElem f) * unat (fArraySize f)"

text \<open>What \<open>compute\<close> keeps of a field.\<close>

definition same_field :: "element_field \<Rightarrow> element_field \<Rightarrow> bool" where
  "same_field f g \<longleftrightarrow> fName f = fName g \<and> fElem f = fElem g \<and> fArraySize f = fArraySize g"

lemma unat_ucast_u32_u64 [simp]: "unat (ucast (x :: u32) :: u64) = unat x"
proof -
  have "unat x < 2 ^ 64" using unat_less_exp[of x] by simp
  then show ?thesis by (simp only: unsigned_ucast_eq) (simp add: take_bit_nat_eq_self)
qed

lemma unat_ucast_u64_u32: "unat (x :: u64) < 2 ^ 32 \<Longrightarrow> unat (ucast x :: u32) = unat x"
  by (simp only: unsigned_ucast_eq) (simp add: take_bit_nat_eq_self)

lemma ucast_offset: "(ucast ((b :: u64) + x * ucast (n :: u32)) :: u32) = ucast b + of_nat (unat x * unat n)"
proof -
  have "(ucast (of_nat m :: u64) :: u32) = of_nat m" for m
    by (rule bit_word_eqI) (simp add: bit_simps)
  from this[of "unat b + unat x * unat n"] this[of "unat b"] show ?thesis by simp
qed

text \<open>One round of the loop.\<close>

lemma Element_compute_loop_step:
  assumes "Element_compute_loop E (f # fs) bits bu e = Some e'"
  obtains sub sb su c h f' e1 where
    "E (fElem f) = Some sub" "getSizeBits E sub = Some sb" "getSizeBitsUnpadded E sub = Some su"
    "first_char (fName f) = Some c"
    "f' = f\<lparr>fOffsetBits := ucast bits, fOffsetBitsUnpadded := ucast bu\<rparr>"
    "(if c = 0x23 then Some (eHal e) else hal_push f' (eHal e)) = Some h"
    "e1 = e\<lparr>eFields := eFields e @ [f'], eHasReference := eHasReference e \<or> eHasReference sub,
       eHal := h\<rparr>"
    "Element_compute_loop E fs (bits + sb * ucast (fArraySize f)) (bu + su * ucast (fArraySize f)) e1
      = Some e'"
proof -
  let ?f = "f\<lparr>fOffsetBits := ucast bits, fOffsetBitsUnpadded := ucast bu\<rparr>"
  let ?e = "\<lambda>sub. e\<lparr>eFields := eFields e @ [?f], eHasReference := eHasReference e \<or> eHasReference sub\<rparr>"
  from assms obtain sub sb su c h where
    s: "E (fElem f) = Some sub" "getSizeBits E sub = Some sb" "getSizeBitsUnpadded E sub = Some su"
    "first_char (fName f) = Some c"
    "(if c = 0x23 then Some (eHal (?e sub)) else hal_push ?f (eHal (?e sub))) = Some h"
    "Element_compute_loop E fs (bits + sb * ucast (fArraySize f)) (bu + su * ucast (fArraySize f))
      ((?e sub)\<lparr>eHal := h\<rparr>) = Some e'"
    by (auto simp only: Element_compute_loop.simps bind_Some_iff Let_def)
  have hal: "eHal (?e sub) = eHal e" by simp
  show thesis by (rule that[OF s(1-4) refl s(5)[unfolded hal] refl]) (use s(6) in simp)
qed

lemma Element_compute_loop_offsets:
  assumes "Element_compute_loop E fs bits bu e = Some e'"
    and "unat bits + sum_list (map (field_bits E) fs) < 2 ^ 32"
  shows "\<exists>gs. eFields e' = eFields e @ gs \<and> list_all2 same_field gs fs \<and>
    (\<forall>i < length fs. unat (fOffsetBits (gs ! i)) = unat bits + sum_list (map (field_bits E) (take i fs)))"
  using assms
proof (induction fs arbitrary: bits bu e)
  case Nil
  then show ?case by simp
next
  case (Cons f fs)
  obtain sub sb su c h f' e1 where
    s: "E (fElem f) = Some sub" "getSizeBits E sub = Some sb"
    and f': "f' = f\<lparr>fOffsetBits := ucast bits, fOffsetBitsUnpadded := ucast bu\<rparr>"
    and e1: "e1 = e\<lparr>eFields := eFields e @ [f'], eHasReference := eHasReference e \<or> eHasReference sub,
       eHal := h\<rparr>"
    and r: "Element_compute_loop E fs (bits + sb * ucast (fArraySize f)) (bu + su * ucast (fArraySize f)) e1
      = Some e'"
    by (rule Element_compute_loop_step[OF Cons.prems(1)])
  have fb: "field_bits E f = unat sb * unat (fArraySize f)"
    using s by (simp add: field_bits_def elem_bits_def)
  have small: "unat bits + unat sb * unat (fArraySize f) + sum_list (map (field_bits E) fs) < 2 ^ 32"
    using Cons.prems(2) fb by simp
  have m: "unat (sb * ucast (fArraySize f)) = unat sb * unat (fArraySize f)"
    using small by (subst unat_mult_if_fits) simp_all
  have u: "unat (bits + sb * ucast (fArraySize f)) = unat bits + unat sb * unat (fArraySize f)"
    using small m by (subst unat_plus_if_fits) simp_all
  have "unat (bits + sb * ucast (fArraySize f)) + sum_list (map (field_bits E) fs) < 2 ^ 32"
    using small u by simp
  from Cons.IH[OF r this] obtain gs where gs: "eFields e' = (eFields e @ [f']) @ gs"
    "list_all2 same_field gs fs"
    "\<forall>i < length fs. unat (fOffsetBits (gs ! i))
      = unat bits + unat sb * unat (fArraySize f) + sum_list (map (field_bits E) (take i fs))"
    by (auto simp: u e1)
  have "unat (fOffsetBits ((f' # gs) ! i)) = unat bits + sum_list (map (field_bits E) (take i (f # fs)))"
    if "i < length (f # fs)" for i
  proof (cases i)
    case 0
    then show ?thesis using small by (simp add: f' unat_ucast_u64_u32)
  next
    case (Suc j)
    then show ?thesis using gs(3) that fb by simp
  qed
  moreover have "list_all2 same_field (f' # gs) (f # fs)" using gs(2) by (simp add: same_field_def f')
  ultimately show ?case using gs(1) by (intro exI[of _ "f' # gs"]) simp
qed

text \<open>The unpadded offsets as words: the sum in \<open>size_t\<close> is cut to the 32 bits of the field.\<close>

lemma Element_compute_loop_unpadded:
  assumes "Element_compute_loop E fs bits bu e = Some e'"
  shows "\<exists>gs. eFields e' = eFields e @ gs \<and> length gs = length fs \<and>
    (\<forall>i < length fs. fOffsetBitsUnpadded (gs ! i) = ucast bu + of_nat (sum_list (map (field_bits_unpadded E) (take i fs))))"
  using assms
proof (induction fs arbitrary: bits bu e)
  case (Cons f fs)
  obtain sub sb su c h f' e1 where s: "E (fElem f) = Some sub" "getSizeBitsUnpadded E sub = Some su"
    and f': "f' = f\<lparr>fOffsetBits := ucast bits, fOffsetBitsUnpadded := ucast bu\<rparr>"
    and e1: "e1 = e\<lparr>eFields := eFields e @ [f'], eHasReference := eHasReference e \<or> eHasReference sub,
       eHal := h\<rparr>"
    and r: "Element_compute_loop E fs (bits + sb * ucast (fArraySize f)) (bu + su * ucast (fArraySize f)) e1
      = Some e'"
    by (rule Element_compute_loop_step[OF Cons.prems])
  have fb: "ucast (bu + su * ucast (fArraySize f)) = (ucast bu :: u32) + of_nat (field_bits_unpadded E f)"
    using s by (simp add: field_bits_unpadded_def elem_bits_unpadded_def ucast_offset)
  from Cons.IH[OF r] obtain gs where gs: "eFields e' = (eFields e @ [f']) @ gs" "length gs = length fs"
    "\<forall>i < length fs. fOffsetBitsUnpadded (gs ! i)
      = ucast bu + of_nat (field_bits_unpadded E f) + of_nat (sum_list (map (field_bits_unpadded E) (take i fs)))"
    unfolding fb by (auto simp: e1)
  have "fOffsetBitsUnpadded ((f' # gs) ! i) = ucast bu + of_nat (sum_list (map (field_bits_unpadded E) (take i (f # fs))))"
    if "i < length (f # fs)" for i
    using that gs(3) by (cases i) (simp_all add: f' add.assoc)
  then show ?case using gs(1,2) by (intro exI[of _ "f' # gs"]) simp
qed simp

text \<open>Fields whose name starts with \<open>#\<close> are padding, which the driver does not see.\<close>

definition is_padding :: "element_field \<Rightarrow> bool" where
  "is_padding f \<longleftrightarrow> first_char (fName f) = Some 0x23"

lemma hal_push_fields:
  assumes "hal_push f h = Some h'"
  shows "hFields h' = hFields h @ [fElem f]"
    and "hFieldArraySizes h' = hFieldArraySizes h @ [fArraySize f]"
    and "hFieldNames h' = hFieldNames h @ [fName f]"
    and "hFieldOffsetBytes h' = hFieldOffsetBytes h @ [drop_bit 3 (fOffsetBits f)]"
    and "length (hFieldNameLengths h') = Suc (length (hFieldNameLengths h))"
    and "hFieldsCount h' = hFieldsCount h"
  using assms by (auto simp: hal_push_def bind_Some_iff)

lemma Element_compute_loop_view:
  assumes "Element_compute_loop E fs bits bu e = Some e'"
  shows "\<exists>gs. eFields e' = eFields e @ gs \<and> list_all2 same_field gs fs
    \<and> hFields (eHal e') = hFields (eHal e) @ map fElem (filter (\<lambda>f. \<not> is_padding f) gs)
    \<and> hFieldArraySizes (eHal e') = hFieldArraySizes (eHal e) @ map fArraySize (filter (\<lambda>f. \<not> is_padding f) gs)
    \<and> hFieldNames (eHal e') = hFieldNames (eHal e) @ map fName (filter (\<lambda>f. \<not> is_padding f) gs)
    \<and> hFieldOffsetBytes (eHal e') = hFieldOffsetBytes (eHal e)
        @ map (\<lambda>f. drop_bit 3 (fOffsetBits f)) (filter (\<lambda>f. \<not> is_padding f) gs)
    \<and> length (hFieldNameLengths (eHal e'))
        = length (hFieldNameLengths (eHal e)) + length (filter (\<lambda>f. \<not> is_padding f) gs)
    \<and> hFieldsCount (eHal e') = hFieldsCount (eHal e) \<and> eBits e' = eBits e
    \<and> (eHasReference e' \<longleftrightarrow> eHasReference e \<or> (\<exists>f\<in>set fs. \<exists>sub. E (fElem f) = Some sub \<and> eHasReference sub))"
  using assms
proof (induction fs arbitrary: bits bu e)
  case Nil
  then show ?case by simp
next
  case (Cons f fs)
  obtain sub sb su c h f' e1 where s: "E (fElem f) = Some sub" "first_char (fName f) = Some c"
    and f': "f' = f\<lparr>fOffsetBits := ucast bits, fOffsetBitsUnpadded := ucast bu\<rparr>"
    and h: "(if c = 0x23 then Some (eHal e) else hal_push f' (eHal e)) = Some h"
    and e1: "e1 = e\<lparr>eFields := eFields e @ [f'], eHasReference := eHasReference e \<or> eHasReference sub,
       eHal := h\<rparr>"
    and r: "Element_compute_loop E fs (bits + sb * ucast (fArraySize f)) (bu + su * ucast (fArraySize f)) e1
      = Some e'"
    by (rule Element_compute_loop_step[OF Cons.prems])
  have p: "is_padding f' \<longleftrightarrow> c = 0x23" using s(2) by (simp add: is_padding_def f')
  obtain gs where gs: "eFields e' = eFields e1 @ gs \<and> list_all2 same_field gs fs
    \<and> hFields (eHal e') = hFields (eHal e1) @ map fElem (filter (\<lambda>f. \<not> is_padding f) gs)
    \<and> hFieldArraySizes (eHal e') = hFieldArraySizes (eHal e1) @ map fArraySize (filter (\<lambda>f. \<not> is_padding f) gs)
    \<and> hFieldNames (eHal e') = hFieldNames (eHal e1) @ map fName (filter (\<lambda>f. \<not> is_padding f) gs)
    \<and> hFieldOffsetBytes (eHal e') = hFieldOffsetBytes (eHal e1)
        @ map (\<lambda>f. drop_bit 3 (fOffsetBits f)) (filter (\<lambda>f. \<not> is_padding f) gs)
    \<and> length (hFieldNameLengths (eHal e'))
        = length (hFieldNameLengths (eHal e1)) + length (filter (\<lambda>f. \<not> is_padding f) gs)
    \<and> hFieldsCount (eHal e') = hFieldsCount (eHal e1) \<and> eBits e' = eBits e1
    \<and> (eHasReference e' \<longleftrightarrow> eHasReference e1 \<or> (\<exists>f\<in>set fs. \<exists>sub. E (fElem f) = Some sub \<and> eHasReference sub))"
    using Cons.IH[OF r] by blast
  have sf: "same_field f' f" by (simp add: same_field_def f')
  show ?case
  proof (cases "c = 0x23")
    case True
    then have "h = eHal e" using h by simp
    then show ?thesis using gs p True sf s(1) by (intro exI[of _ "f' # gs"]) (auto simp: e1)
  next
    case False
    then have "hal_push f' (eHal e) = Some h" using h by simp
    note hp = hal_push_fields[OF this]
    show ?thesis using gs p False sf s(1) hp by (intro exI[of _ "f' # gs"]) (auto simp: e1)
  qed
qed

lemma noPaddingFieldCount_spec:
  "noPaddingFieldCount fs n = Some k \<Longrightarrow> k = n + of_nat (length (filter (\<lambda>f. \<not> is_padding f) fs))"
  by (induction fs n rule: noPaddingFieldCount.induct)
     (auto simp: bind_Some_iff is_padding_def algebra_simps split: if_splits)

lemma filter_same_field:
  "list_all2 same_field gs fs \<Longrightarrow>
   length (filter (\<lambda>f. \<not> is_padding f) gs) = length (filter (\<lambda>f. \<not> is_padding f) fs)"
  by (induction rule: list_all2_induct) (auto simp: same_field_def is_padding_def)

lemma Element_compute_struct:
  assumes "Element_compute E e = Some e'" and "eFields e \<noteq> []"
  obtains cnt e1 e2 n where "noPaddingFieldCount (eFields e) 0 = Some cnt"
    "eFields e1 = []" "hFields (eHal e1) = []" "hFieldArraySizes (eHal e1) = []"
    "hFieldNames (eHal e1) = []" "hFieldNameLengths (eHal e1) = []" "hFieldOffsetBytes (eHal e1) = []"
    "hFieldsCount (eHal e1) = cnt" "eBits e1 = eBits e" "eHasReference e1 = eHasReference e"
    "Element_compute_loop E (eFields e) 0 0 e1 = Some e2" "getSizeBytes E e2 = Some n"
    "e' = e2\<lparr>eHal := (eHal e2)\<lparr>hElementSizeBytes := ucast n\<rparr>\<rparr>"
proof -
  let ?c = "eComponent e"
  let ?e1 = "\<lambda>cnt. e\<lparr>eFields := [], eHal := (eHal e)\<lparr>hDataType := mType ?c, hDataKind := mKind ?c,
    hVectorSize := mVectorSize ?c, hFields := [], hFieldArraySizes := [], hFieldNames := [],
    hFieldNameLengths := [], hFieldOffsetBytes := [], hFieldsCount := cnt\<rparr>\<rparr>"
  from assms obtain cnt e2 n where c: "noPaddingFieldCount (eFields e) 0 = Some cnt"
    "Element_compute_loop E (eFields e) 0 0 (?e1 cnt) = Some e2" "getSizeBytes E e2 = Some n"
    "e' = e2\<lparr>eHal := (eHal e2)\<lparr>hElementSizeBytes := ucast n\<rparr>\<rparr>"
    by (auto simp: Element_compute_def Let_def bind_Some_iff)
  show thesis by (rule that[of cnt "?e1 cnt" e2 n]) (simp_all add: c)
qed

text \<open>C21: \<open>compute\<close> lays the fields of a structure out one after the other. The bit offset of each field is the
  sum of the sizes (times the array sizes) of the fields before it, and its unpadded bit offset is the same
  sum of the unpadded sizes, as a \<open>uint32_t\<close>. Name, element and array size of every field stay what they
  were.\<close>

theorem Element_compute_offsets:
  assumes "Element_compute E e = Some e'" and "eFields e \<noteq> []"
    and "sum_list (map (field_bits E) (eFields e)) < 2 ^ 32"
  shows "list_all2 same_field (eFields e') (eFields e) \<and>
    (\<forall>i < length (eFields e).
       unat (fOffsetBits (eFields e' ! i)) = sum_list (map (field_bits E) (take i (eFields e)))
     \<and> fOffsetBitsUnpadded (eFields e' ! i) = of_nat (sum_list (map (field_bits_unpadded E) (take i (eFields e)))))"
proof -
  obtain cnt e1 e2 n where c: "noPaddingFieldCount (eFields e) 0 = Some cnt"
    "eFields e1 = []" "hFields (eHal e1) = []" "hFieldArraySizes (eHal e1) = []"
    "hFieldNames (eHal e1) = []" "hFieldNameLengths (eHal e1) = []" "hFieldOffsetBytes (eHal e1) = []"
    "hFieldsCount (eHal e1) = cnt" "eBits e1 = eBits e" "eHasReference e1 = eHasReference e"
    "Element_compute_loop E (eFields e) 0 0 e1 = Some e2" "getSizeBytes E e2 = Some n"
    "e' = e2\<lparr>eHal := (eHal e2)\<lparr>hElementSizeBytes := ucast n\<rparr>\<rparr>"
    by (rule Element_compute_struct[OF assms(1,2)])
  from Element_compute_loop_offsets[OF c(11)] Element_compute_loop_unpadded[OF c(11)] assms(3) c(2,13) show ?thesis by auto
qed

text \<open>The driver's view that \<open>compute\<close> builds lists exactly the fields that are not padding,
  in order, with their byte offsets; its count is the length of its arrays, and the element
  holds references iff one of its fields does.\<close>

theorem Element_compute_driver_view:
  assumes "Element_compute E e = Some e'" and "eFields e \<noteq> []" and "\<not> eHasReference e"
    and "length (eFields e) < 2 ^ 32"
  shows "hFields (eHal e') = map fElem (filter (\<lambda>f. \<not> is_padding f) (eFields e'))
    \<and> hFieldNames (eHal e') = map fName (filter (\<lambda>f. \<not> is_padding f) (eFields e'))
    \<and> hFieldArraySizes (eHal e') = map fArraySize (filter (\<lambda>f. \<not> is_padding f) (eFields e'))
    \<and> hFieldOffsetBytes (eHal e')
        = map (\<lambda>f. drop_bit 3 (fOffsetBits f)) (filter (\<lambda>f. \<not> is_padding f) (eFields e'))
    \<and> unat (hFieldsCount (eHal e')) = length (hFields (eHal e'))
    \<and> length (hFieldNameLengths (eHal e')) = length (hFields (eHal e'))
    \<and> (eHasReference e' \<longleftrightarrow> (\<exists>f\<in>set (eFields e). \<exists>sub. E (fElem f) = Some sub \<and> eHasReference sub))"
proof -
  obtain cnt e1 e2 n where c: "noPaddingFieldCount (eFields e) 0 = Some cnt"
    "eFields e1 = []" "hFields (eHal e1) = []" "hFieldArraySizes (eHal e1) = []"
    "hFieldNames (eHal e1) = []" "hFieldNameLengths (eHal e1) = []" "hFieldOffsetBytes (eHal e1) = []"
    "hFieldsCount (eHal e1) = cnt" "eBits e1 = eBits e" "eHasReference e1 = eHasReference e"
    "Element_compute_loop E (eFields e) 0 0 e1 = Some e2" "getSizeBytes E e2 = Some n"
    "e' = e2\<lparr>eHal := (eHal e2)\<lparr>hElementSizeBytes := ucast n\<rparr>\<rparr>"
    by (rule Element_compute_struct[OF assms(1,2)])
  obtain gs where gs: "eFields e2 = eFields e1 @ gs" "list_all2 same_field gs (eFields e)"
    and view: "hFields (eHal e2) = map fElem (filter (\<lambda>f. \<not> is_padding f) gs)"
    "hFieldArraySizes (eHal e2) = map fArraySize (filter (\<lambda>f. \<not> is_padding f) gs)"
    "hFieldNames (eHal e2) = map fName (filter (\<lambda>f. \<not> is_padding f) gs)"
    "hFieldOffsetBytes (eHal e2) = map (\<lambda>f. drop_bit 3 (fOffsetBits f)) (filter (\<lambda>f. \<not> is_padding f) gs)"
    "length (hFieldNameLengths (eHal e2)) = length (filter (\<lambda>f. \<not> is_padding f) gs)"
    "hFieldsCount (eHal e2) = cnt"
    "eHasReference e2 \<longleftrightarrow> eHasReference e \<or> (\<exists>f\<in>set (eFields e). \<exists>sub. E (fElem f) = Some sub \<and> eHasReference sub)"
    using Element_compute_loop_view[OF c(11)] unfolding c(2-10) append_Nil list.size add_0 by blast
  have "cnt = of_nat (length (filter (\<lambda>f. \<not> is_padding f) gs))"
    using noPaddingFieldCount_spec[OF c(1)] filter_same_field[OF gs(2)] by simp
  moreover have "length (filter (\<lambda>f. \<not> is_padding f) gs) < 2 ^ 32"
    using assms(4) list_all2_lengthD[OF gs(2)] length_filter_le[of "\<lambda>f. \<not> is_padding f" gs] by linarith
  ultimately have "unat cnt = length (filter (\<lambda>f. \<not> is_padding f) gs)" by (simp add: unat_of_nat)
  then show ?thesis using view gs(1) c(2,13) assms(3) by simp
qed
section \<open>Sizes\<close>

definition flat_field :: "elem_env \<Rightarrow> element_field \<Rightarrow> bool" where
  "flat_field E f \<longleftrightarrow> (\<exists>sub. E (fElem f) = Some sub \<and> eFields sub = [])"

lemma getSizeBits_loop_flat:
  assumes "\<forall>f\<in>set fs. flat_field E f" and "unat tot + sum_list (map (field_bits E) fs) < 2 ^ 32"
  shows "\<exists>n. getSizeBits_loop E fs tot = Some n \<and> unat n = unat tot + sum_list (map (field_bits E) fs)"
  using assms
proof (induction fs arbitrary: tot)
  case Nil
  then show ?case by simp
next
  case (Cons f fs)
  from Cons.prems(1) obtain sub where sub: "E (fElem f) = Some sub" "eFields sub = []"
    by (auto simp: flat_field_def)
  have fb: "field_bits E f = unat (eBits sub) * unat (fArraySize f)"
    using sub by (simp add: field_bits_def elem_bits_def getSizeBits_def)
  have small: "unat tot + unat (eBits sub) * unat (fArraySize f) + sum_list (map (field_bits E) fs) < 2 ^ 32"
    using Cons.prems(2) fb by simp
  have m: "unat (eBits sub * fArraySize f) = unat (eBits sub) * unat (fArraySize f)"
    using small by (intro unat_mult_if_fits) simp
  have u: "unat (tot + ucast (eBits sub * fArraySize f)) = unat tot + unat (eBits sub) * unat (fArraySize f)"
    using small m by (subst unat_plus_if_fits) simp_all
  have "\<exists>n. getSizeBits_loop E fs (tot + ucast (eBits sub * fArraySize f)) = Some n \<and>
      unat n = unat (tot + ucast (eBits sub * fArraySize f)) + sum_list (map (field_bits E) fs)"
    using Cons.prems(1) small u by (intro Cons.IH) auto
  then show ?case using sub(1) u fb by (simp add: add.assoc)
qed

lemma getSizeBits_same_fields:
  "list_all2 same_field gs fs \<Longrightarrow> getSizeBits_loop E gs tot = getSizeBits_loop E fs tot"
proof (induction arbitrary: tot rule: list_all2_induct)
  case Nil
  then show ?case by simp
next
  case (Cons g gs f fs)
  then show ?case by (cases "E (fElem f)") (simp_all add: same_field_def)
qed

lemma sum_list_take_Suc:
  "i < length xs \<Longrightarrow> sum_list (map f (take (Suc i) xs)) = sum_list (map f (take i xs)) + (f (xs ! i) :: nat)"
  by (simp add: take_Suc_conv_app_nth)

lemma Element_compute_struct_bits:
  assumes "Element_compute E e = Some e'" and "eFields e \<noteq> []"
  shows "eBits e' = eBits e"
proof -
  obtain cnt e1 e2 n where c: "noPaddingFieldCount (eFields e) 0 = Some cnt"
    "eFields e1 = []" "hFields (eHal e1) = []" "hFieldArraySizes (eHal e1) = []"
    "hFieldNames (eHal e1) = []" "hFieldNameLengths (eHal e1) = []" "hFieldOffsetBytes (eHal e1) = []"
    "hFieldsCount (eHal e1) = cnt" "eBits e1 = eBits e" "eHasReference e1 = eHasReference e"
    "Element_compute_loop E (eFields e) 0 0 e1 = Some e2" "getSizeBytes E e2 = Some n"
    "e' = e2\<lparr>eHal := (eHal e2)\<lparr>hElementSizeBytes := ucast n\<rparr>\<rparr>"
    by (rule Element_compute_struct[OF assms])
  show ?thesis using Element_compute_loop_view[OF c(11)] c(9,13) by auto
qed

text \<open>C34: For a structure whose fields are not structures themselves, the fields do not overlap and
  the size \<open>getSizeBits\<close> reports is where the last field ends.\<close>

theorem Element_fields_in_bounds:
  assumes "Element_compute E e = Some e'" and "eFields e \<noteq> []"
    and "sum_list (map (field_bits E) (eFields e)) < 2 ^ 32"
    and "\<forall>f\<in>set (eFields e). flat_field E f"
  shows "\<exists>n. getSizeBits E e' = Some n
    \<and> (\<forall>i < length (eFields e). unat (fOffsetBits (eFields e' ! i)) + field_bits E (eFields e ! i)
        = (if Suc i < length (eFields e) then unat (fOffsetBits (eFields e' ! Suc i)) else unat n))"
proof -
  obtain cnt e1 e2 n where c: "noPaddingFieldCount (eFields e) 0 = Some cnt"
    "eFields e1 = []" "hFields (eHal e1) = []" "hFieldArraySizes (eHal e1) = []"
    "hFieldNames (eHal e1) = []" "hFieldNameLengths (eHal e1) = []" "hFieldOffsetBytes (eHal e1) = []"
    "hFieldsCount (eHal e1) = cnt" "eBits e1 = eBits e" "eHasReference e1 = eHasReference e"
    "Element_compute_loop E (eFields e) 0 0 e1 = Some e2" "getSizeBytes E e2 = Some n"
    "e' = e2\<lparr>eHal := (eHal e2)\<lparr>hElementSizeBytes := ucast n\<rparr>\<rparr>"
    by (rule Element_compute_struct[OF assms(1,2)])
  obtain gs where gs: "eFields e' = gs" "list_all2 same_field gs (eFields e)"
    and off: "\<forall>i < length (eFields e). unat (fOffsetBits (gs ! i)) = sum_list (map (field_bits E) (take i (eFields e)))"
    using Element_compute_loop_offsets[OF c(11)] assms(3) c(2,13) by auto
  obtain m where m: "getSizeBits_loop E (eFields e) 0 = Some m" "unat m = sum_list (map (field_bits E) (eFields e))"
    using getSizeBits_loop_flat[OF assms(4), of 0] assms(3) by auto
  have "gs \<noteq> []" using gs(2) assms(2) by auto
  then have "getSizeBits E e' = Some m"
    using gs(1) m(1) getSizeBits_same_fields[OF gs(2)] by (simp add: getSizeBits_def)
  moreover have "unat (fOffsetBits (gs ! i)) + field_bits E (eFields e ! i)
      = (if Suc i < length (eFields e) then unat (fOffsetBits (gs ! Suc i)) else unat m)"
    if i: "i < length (eFields e)" for i
  proof (cases "Suc i < length (eFields e)")
    case True
    then show ?thesis using off i by (simp add: sum_list_take_Suc)
  next
    case False
    then have "take (Suc i) (eFields e) = eFields e" by simp
    then show ?thesis using sum_list_take_Suc[OF i, of "field_bits E"] off i m(2) False by simp
  qed
  ultimately show ?thesis using gs(1) by blast
qed

text \<open>A structure inside a structure counts as zero bits: \<open>compute\<close> never sets \<open>mBits\<close> of a
  structure, and \<open>getSizeBits\<close> adds up the \<open>mBits\<close> of the field elements, so an element
  made of structures only has size 0 although \<open>compute\<close> gave its fields increasing
  offsets.\<close>

theorem Element_nested_size_zero:
  assumes "eFields e \<noteq> []"
    and "\<forall>f\<in>set (eFields e). \<exists>E' fs c sub. fs \<noteq> [] \<and> E (fElem f) = Some sub
      \<and> Element_compute E' (Element_new\<lparr>eFields := fs, eComponent := c\<rparr>) = Some sub"
  shows "getSizeBits E e = Some 0"
proof -
  have "getSizeBits_loop E fs 0 = Some 0" if "set fs \<subseteq> set (eFields e)" for fs
    using that
  proof (induction fs)
    case (Cons f fs)
    then have "f \<in> set (eFields e)" by simp
    then obtain E' gs c sub where sub: "gs \<noteq> []" "E (fElem f) = Some sub"
      "Element_compute E' (Element_new\<lparr>eFields := gs, eComponent := c\<rparr>) = Some sub"
      using assms(2) by blast
    then have "eBits sub = 0" using Element_compute_struct_bits[OF sub(3)] by (simp add: Element_new_def)
    with Cons sub(2) show ?case by simp
  qed simp
  then show ?thesis using assms(1) by (simp add: getSizeBits_def)
qed
section \<open>A concrete structure\<close>

text \<open>\<open>struct { float a[3]; float #; float b; }\<close>, and a structure that has it as its only
  field.\<close>

definition sample_env :: elem_env where
  "sample_env = [0 \<mapsto> Element_new\<lparr>eBits := 32, eBitsUnpadded := Some 32\<rparr>]"

definition sample_fields :: "element_field list" where
  "sample_fields =
     [\<lparr>fName = [97, 0], fElem = 0, fOffsetBits = 0, fOffsetBitsUnpadded = 0, fArraySize = 3\<rparr>,
      \<lparr>fName = [35, 0], fElem = 0, fOffsetBits = 0, fOffsetBitsUnpadded = 0, fArraySize = 1\<rparr>,
      \<lparr>fName = [98, 0], fElem = 0, fOffsetBits = 0, fOffsetBitsUnpadded = 0, fArraySize = 1\<rparr>]"

definition sample_struct :: element where
  "sample_struct = Element_new\<lparr>eFields := sample_fields, eComponent := Component_new\<rparr>"

lemma sample_compute: "\<exists>e'. Element_compute sample_env sample_struct = Some e'"
proof -
  have "Option.is_none (Element_compute sample_env sample_struct) = False" by code_simp
  then show ?thesis by (cases "Element_compute sample_env sample_struct") auto
qed

lemma sample_fields_ne: "eFields sample_struct = sample_fields" "sample_fields \<noteq> []"
  "length sample_fields = 3" "\<not> eHasReference sample_struct"
  by (simp_all add: sample_struct_def sample_fields_def Element_new_def)

lemma sample_field_bits: "map (field_bits sample_env) sample_fields = [96, 32, 32]"
  by (simp add: sample_fields_def field_bits_def elem_bits_def sample_env_def getSizeBits_def Element_new_def)

text \<open>\<open>struct { float3 a[2]; float b; }\<close>, where the padded and the unpadded offsets differ.\<close>

definition float3_env :: elem_env where
  "float3_env = [0 \<mapsto> Element_new\<lparr>eBits := 128, eBitsUnpadded := Some 96\<rparr>, 1 \<mapsto> Element_new\<lparr>eBits := 32, eBitsUnpadded := Some 32\<rparr>]"

definition float3_struct :: element where
  "float3_struct = Element_new\<lparr>eFields :=
     [\<lparr>fName = [97, 0], fElem = 0, fOffsetBits = 0, fOffsetBitsUnpadded = 0, fArraySize = 2\<rparr>,
      \<lparr>fName = [98, 0], fElem = 1, fOffsetBits = 0, fOffsetBitsUnpadded = 0, fArraySize = 1\<rparr>]\<rparr>"

theorem Element_compute_offsets_witness:
  "\<exists>e'. Element_compute float3_env float3_struct = Some e' \<and> unat (fOffsetBits (eFields e' ! 0)) = 0 \<and>
     unat (fOffsetBits (eFields e' ! 1)) = 256 \<and> fOffsetBitsUnpadded (eFields e' ! 1) = 192"
proof -
  have "Option.is_none (Element_compute float3_env float3_struct) = False" by code_simp
  then obtain e' where e': "Element_compute float3_env float3_struct = Some e'" by (auto simp: Option.is_none_def)
  have b: "map (field_bits float3_env) (eFields float3_struct) = [256, 32]"
    "map (field_bits_unpadded float3_env) (eFields float3_struct) = [192, 32]" "eFields float3_struct \<noteq> []"
    by (simp_all add: float3_env_def float3_struct_def field_bits_def elem_bits_def field_bits_unpadded_def
      elem_bits_unpadded_def getSizeBits_def getSizeBitsUnpadded_def Element_new_def)
  have "length (eFields float3_struct) = 2" using b(1) by (metis length_map length_Cons list.size(3) numeral_2_eq_2 Suc_1)
  then have "unat (fOffsetBits (eFields e' ! i)) = sum_list (take i [256, 32])
      \<and> fOffsetBitsUnpadded (eFields e' ! i) = of_nat (sum_list (take i [192, 32]))" if "i < 2" for i
    using Element_compute_offsets[OF e' b(3)] that b(1,2) by (simp flip: take_map)
  from this[of 0] this[of 1] e' show ?thesis by simp
qed

theorem Element_compute_driver_view_witness:
  "\<exists>e'. Element_compute sample_env sample_struct = Some e' \<and>
     unat (hFieldsCount (eHal e')) = length (hFields (eHal e')) \<and> \<not> eHasReference e'"
proof -
  obtain e' where e': "Element_compute sample_env sample_struct = Some e'" using sample_compute by blast
  show ?thesis
    using Element_compute_driver_view[OF e'] e'
    by (auto simp: sample_fields_ne sample_env_def Element_new_def split: if_splits)
qed

theorem Element_fields_in_bounds_witness:
  "\<exists>e' n. Element_compute sample_env sample_struct = Some e' \<and> getSizeBits sample_env e' = Some n \<and>
     unat (fOffsetBits (eFields e' ! 2)) + 32 = unat n"
proof -
  obtain e' where e': "Element_compute sample_env sample_struct = Some e'" using sample_compute by blast
  have flat: "\<forall>f\<in>set (eFields sample_struct). flat_field sample_env f"
    by (simp add: sample_fields_ne sample_fields_def flat_field_def sample_env_def Element_new_def)
  have "field_bits sample_env (sample_fields ! 2) = map (field_bits sample_env) sample_fields ! 2"
    by (simp add: sample_fields_ne)
  then have "field_bits sample_env (sample_fields ! 2) = 32" by (simp add: sample_field_bits)
  moreover have "\<exists>n. getSizeBits sample_env e' = Some n
    \<and> (\<forall>i < length (eFields sample_struct).
        unat (fOffsetBits (eFields e' ! i)) + field_bits sample_env (eFields sample_struct ! i)
        = (if Suc i < length (eFields sample_struct) then unat (fOffsetBits (eFields e' ! Suc i)) else unat n))"
    by (rule Element_fields_in_bounds[OF e' _ _ flat]) (simp_all add: sample_fields_ne sample_field_bits)
  then obtain n where "getSizeBits sample_env e' = Some n"
    "unat (fOffsetBits (eFields e' ! 2)) + field_bits sample_env (sample_fields ! 2) = unat n"
    by (auto simp: sample_fields_ne dest!: spec[of _ 2])
  ultimately show ?thesis using e' by auto
qed

theorem Element_nested_size_zero_witness:
  "\<exists>sub. getSizeBits [1 \<mapsto> sub]
     (Element_new\<lparr>eFields := [\<lparr>fName = [99, 0], fElem = 1, fOffsetBits = 0, fOffsetBitsUnpadded = 0,
        fArraySize = 5\<rparr>]\<rparr>) = Some 0
     \<and> Element_compute sample_env sample_struct = Some sub"
proof -
  obtain sub where sub: "Element_compute sample_env sample_struct = Some sub" using sample_compute by blast
  show ?thesis
    by (rule exI[of _ sub], intro conjI Element_nested_size_zero)
       (use sub sample_fields_ne in \<open>auto simp: sample_struct_def\<close>)
qed

end
