(* ===== verification/Rs_Type.thy ===== *)
theory Rs_Type
  imports Rs_Element
begin

text \<open>
  The class \<open>Type\<close> of \<open>rsType.h\<close> and \<open>rsType.cpp\<close>: the shape of an allocation, its element and
  dimensions, with the table of mipmap levels and the number of cells \<open>compute\<close> derives
  from them. Creation and sharing of types are in \<open>Rs_Context\<close>.

  The level tables are arrays of \<open>lodCount\<close> entries, indeterminate until written; a store
  outside an array is the undefined outcome.
\<close>

section \<open>Data\<close>

record rstype =
  tElement :: "nat option"
  tDimX :: u32
  tDimY :: u32
  tDimZ :: u32
  tLodDimX :: "u32 option list"
  tLodDimY :: "u32 option list"
  tLodDimZ :: "u32 option list"
  tLodCount :: u32
  tDimYuv :: u32
  tFaces :: bool
  tDimLOD :: bool
  tCellCount :: u64
  tHalElement :: "nat option"

definition Type_new :: rstype where
  "Type_new =
     \<lparr>tElement = None, tDimX = 0, tDimY = 0, tDimZ = 0, tLodDimX = [], tLodDimY = [], tLodDimZ = [],
      tLodCount = 0, tDimYuv = 0, tFaces = False, tDimLOD = False, tCellCount = 0,
      tHalElement = None\<rparr>"

definition Type_releases :: "rstype \<Rightarrow> nat list" where
  "Type_releases t = (case tElement t of None \<Rightarrow> [] | Some e \<Rightarrow> [e])"

section \<open>The derived state\<close>

definition arr_set :: "'a option list \<Rightarrow> nat \<Rightarrow> 'a \<Rightarrow> 'a option list option" where
  "arr_set a i v = (if i < length a then Some (a[i := Some v]) else None)"

definition arr_get :: "'a option list \<Rightarrow> nat \<Rightarrow> 'a option" where
  "arr_get a i = (if i < length a then a ! i else None)"

text \<open>\<open>if (tx > 1) tx >>= 1\<close>.\<close>

definition lod_half :: "u32 \<Rightarrow> u32" where
  "lod_half x = (if 1 < x then drop_bit 1 x else x)"

text \<open>The loop over the levels, for the \<open>n\<close> levels from \<open>lod\<close> on. The product of the dimensions
  is a \<open>uint32_t\<close>, the sum a \<open>size_t\<close>.\<close>

fun Type_lod_loop :: "nat \<Rightarrow> nat \<Rightarrow> u32 \<Rightarrow> u32 \<Rightarrow> u32 \<Rightarrow> rstype \<Rightarrow> rstype option" where
  "Type_lod_loop 0 lod tx ty tz t = Some t"
| "Type_lod_loop (Suc n) lod tx ty tz t =
     do { ax \<leftarrow> arr_set (tLodDimX t) lod tx;
          ay \<leftarrow> arr_set (tLodDimY t) lod ty;
          az \<leftarrow> arr_set (tLodDimZ t) lod tz;
          Type_lod_loop n (lod + 1) (lod_half tx) (lod_half ty) (lod_half tz)
            (t\<lparr>tLodDimX := ax, tLodDimY := ay, tLodDimZ := az,
               tCellCount := tCellCount t + ucast (tx * rsMax ty 1 * rsMax tz 1)\<rparr>) }"

text \<open>The planes of a YUV image are kept in levels 1 and 2. \<open>HAL_PIXEL_FORMAT_YCrCb_420_SP\<close> is
  the only format whose case does something.\<close>

definition HAL_PIXEL_FORMAT_YCrCb_420_SP :: u32 where
  "HAL_PIXEL_FORMAT_YCrCb_420_SP = 17"

definition Type_compute_yuv :: "rstype \<Rightarrow> rstype option" where
  "Type_compute_yuv t =
     do { x0 \<leftarrow> arr_get (tLodDimX t) 0;
          y0 \<leftarrow> arr_get (tLodDimY t) 0;
          ax1 \<leftarrow> arr_set (tLodDimX t) 1 (x0 div 2);
          ay1 \<leftarrow> arr_set (tLodDimY t) 1 (y0 div 2);
          ax2 \<leftarrow> arr_set ax1 2 (x0 div 2);
          ay2 \<leftarrow> arr_set ay1 2 (y0 div 2);
          let cc = tCellCount t + ucast ((x0 div 2) * (y0 div 2)) + ucast ((x0 div 2) * (y0 div 2));
          ax3 \<leftarrow> (if tDimYuv t = HAL_PIXEL_FORMAT_YCrCb_420_SP then arr_set ax2 1 x0 else Some ax2);
          Some (t\<lparr>tLodDimX := ax3, tLodDimY := ay2, tCellCount := cc\<rparr>) }"

definition Type_lodCount :: "rstype \<Rightarrow> u32" where
  "Type_lodCount t =
     (if tDimLOD t
      then let l2x = rsFindHighBit (tDimX t) + 1;
               l2y = rsFindHighBit (tDimY t) + 1;
               l2z = rsFindHighBit (tDimZ t) + 1
           in rsMax (rsMax l2x l2y) l2z
      else 1)"

definition Type_compute :: "rstype \<Rightarrow> rstype option" where
  "Type_compute t =
     (let oldLODCount = tLodCount t;
          n = Type_lodCount t;
          t1 = t\<lparr>tLodCount := n\<rparr>;
          t2 = (if n \<noteq> oldLODCount
                then t1\<lparr>tLodDimX := replicate (unat n) None, tLodDimY := replicate (unat n) None,
                        tLodDimZ := replicate (unat n) None\<rparr>
                else t1)
      in do { t3 \<leftarrow> Type_lod_loop (unat n) 0 (tDimX t) (tDimY t) (tDimZ t) (t2\<lparr>tCellCount := 0\<rparr>);
              let t4 = (if tFaces t then t3\<lparr>tCellCount := tCellCount t3 * 6\<rparr> else t3);
              t5 \<leftarrow> (if tDimYuv t \<noteq> 0 then Type_compute_yuv t4 else Some t4);
              Some (t5\<lparr>tHalElement := tElement t5\<rparr>) })"

section \<open>Queries\<close>

definition getElementSizeBytes :: "elem_env \<Rightarrow> rstype \<Rightarrow> u64 option" where
  "getElementSizeBytes E t = do { ob \<leftarrow> tElement t; e \<leftarrow> E ob; getSizeBytes E e }"

definition getPackedSizeBytes :: "elem_env \<Rightarrow> rstype \<Rightarrow> u64 option" where
  "getPackedSizeBytes E t = do { n \<leftarrow> getElementSizeBytes E t; Some (tCellCount t * n) }"

definition getIsNp2 :: "rstype \<Rightarrow> bool" where
  "getIsNp2 t =
     (let x = tDimX t; y = tDimY t; z = tDimZ t
      in if x \<noteq> 0 \<and> x AND (x - 1) \<noteq> 0 then True
         else if y \<noteq> 0 \<and> y AND (y - 1) \<noteq> 0 then True
         else if z \<noteq> 0 \<and> z AND (z - 1) \<noteq> 0 then True
         else False)"

definition rsaTypeGetNativeData :: "rstype \<Rightarrow> (u32 list \<times> nat option)" where
  "rsaTypeGetNativeData t =
     ([tDimX t, tDimY t, tDimZ t, if tDimLOD t then 1 else 0, if tFaces t then 1 else 0], tElement t)"

section \<open>Object references in the cells\<close>

text \<open>\<open>stride\<close> is a \<open>uint32_t\<close>; its product with \<open>startOff\<close> is a \<open>size_t\<close>. \<open>walk\<close> is the walk
  over one cell at an offset.\<close>

fun cells_walk :: "(nat \<Rightarrow> 'st \<Rightarrow> 'st option) \<Rightarrow> nat \<Rightarrow> nat \<Rightarrow> nat \<Rightarrow> 'st \<Rightarrow> 'st option" where
  "cells_walk walk 0 p stride st = Some st"
| "cells_walk walk (Suc ct) p stride st =
     do { st1 \<leftarrow> walk p st; cells_walk walk ct (p + stride) stride st1 }"

definition Type_incRefs ::
    "elem_env \<Rightarrow> mem \<Rightarrow> (nat \<Rightarrow> 'st \<Rightarrow> 'st option) \<Rightarrow> nat \<Rightarrow> rstype \<Rightarrow> nat \<Rightarrow> u64 \<Rightarrow> u64 \<Rightarrow> 'st \<Rightarrow> 'st option"
  where
  "Type_incRefs E m inc fuel t p ct startOff st =
     do { ob \<leftarrow> tHalElement t;
          e \<leftarrow> E ob;
          n \<leftarrow> getSizeBytes E e;
          let stride = (ucast n :: u32);
          cells_walk (walkRefs E m inc fuel e) (unat ct) (p + unat (ucast stride * startOff))
            (unat stride) st }"

definition Type_decRefs ::
    "elem_env \<Rightarrow> mem \<Rightarrow> (nat \<Rightarrow> 'st \<Rightarrow> 'st option) \<Rightarrow> nat \<Rightarrow> rstype \<Rightarrow> nat \<Rightarrow> u64 \<Rightarrow> u64 \<Rightarrow> 'st \<Rightarrow> 'st option"
  where
  "Type_decRefs E m dec fuel t p ct startOff st =
     do { ob \<leftarrow> tHalElement t;
          e \<leftarrow> E ob;
          if \<not> eHasReference e then Some st
          else do { n \<leftarrow> getSizeBytes E e;
                    let stride = (ucast n :: u32);
                    cells_walk (walkRefs E m dec fuel e) (unat ct) (p + unat (ucast stride * startOff))
                      (unat stride) st } }"

section \<open>Serialisation\<close>

definition RS_A3D_CLASS_ID_TYPE :: u32 where
  "RS_A3D_CLASS_ID_TYPE = 2"

definition Type_serialize ::
    "elem_env \<Rightarrow> (nat \<Rightarrow> u8 list option) \<Rightarrow> nat \<Rightarrow> u8 list option \<Rightarrow> rstype \<Rightarrow> ostream \<Rightarrow> ostream option" where
  "Type_serialize E N fuel tname t s =
     do { s1 \<leftarrow> addU32 RS_A3D_CLASS_ID_TYPE s;
          name \<leftarrow> tname;
          s2 \<leftarrow> addString name s1;
          ob \<leftarrow> tElement t;
          s3 \<leftarrow> Element_serialize E N fuel ob s2;
          s4 \<leftarrow> addU32 (tDimX t) s3;
          s5 \<leftarrow> addU32 (tDimY t) s4;
          s6 \<leftarrow> addU32 (tDimZ t) s5;
          s7 \<leftarrow> addU8 (if tLodCount t \<noteq> 0 then 1 else 0) s6;
          addU8 (if tFaces t then 1 else 0) s7 }"

section \<open>The mipmap levels\<close>

text \<open>Dimension \<open>d\<close> at level \<open>l\<close>: halved, rounded down, but never below 1; a missing dimension
  stays 0.\<close>

definition lod_dim :: "nat \<Rightarrow> nat \<Rightarrow> nat" where
  "lod_dim d l = (if d = 0 then 0 else max 1 (d div 2 ^ l))"

lemma lod_dim_0 [simp]: "lod_dim d 0 = d"
  by (simp add: lod_dim_def)

lemma lod_dim_le: "lod_dim d l \<le> d"
  by (auto simp: lod_dim_def)

lemma lod_dim_small: "d \<le> 1 \<Longrightarrow> lod_dim d l = d"
proof -
  assume "d \<le> 1"
  moreover have "d \<noteq> 0 \<Longrightarrow> 1 \<le> lod_dim d l" by (simp add: lod_dim_def)
  ultimately show ?thesis using lod_dim_le[of d l] by linarith
qed

lemma unat_lod_half: "unat (lod_half x) = lod_dim (unat x) (Suc 0)"
proof (cases "1 < x")
  case True
  then show ?thesis by (simp add: lod_half_def lod_dim_def unat_drop_bit_div word_less_nat_alt)
next
  case False
  then have "unat x \<le> 1" by (simp add: word_less_nat_alt)
  then show ?thesis using False by (auto simp: lod_half_def lod_dim_def)
qed

lemma lod_dim_Suc: "lod_dim (lod_dim d (Suc 0)) l = lod_dim d (Suc l)"
proof (cases "d \<le> 1")
  case True
  then show ?thesis by (simp add: lod_dim_small)
next
  case False
  then have h: "lod_dim d (Suc 0) = d div 2" "d div 2 \<noteq> 0" by (auto simp: lod_dim_def)
  have "d div 2 div 2 ^ l = d div 2 ^ Suc l" by (simp add: div_mult2_eq)
  then show ?thesis using False h by (simp add: lod_dim_def)
qed

definition lod_cells :: "nat \<Rightarrow> nat \<Rightarrow> nat \<Rightarrow> nat \<Rightarrow> nat" where
  "lod_cells x y z l = lod_dim x l * max (lod_dim y l) 1 * max (lod_dim z l) 1"

lemma lod_cells_Suc: "lod_cells (lod_dim x (Suc 0)) (lod_dim y (Suc 0)) (lod_dim z (Suc 0)) l = lod_cells x y z (Suc l)"
  by (simp only: lod_cells_def lod_dim_Suc)

lemma lod_cells_le: "lod_cells x y z l \<le> lod_cells x y z 0"
proof -
  have "lod_dim x l * max (lod_dim y l) 1 \<le> x * max y 1"
    using lod_dim_le[of x l] lod_dim_le[of y l] by (intro mult_mono) auto
  then have "lod_dim x l * max (lod_dim y l) 1 * max (lod_dim z l) 1 \<le> x * max y 1 * max z 1"
    using lod_dim_le[of z l] by (rule_tac mult_mono) auto
  then show ?thesis by (simp add: lod_cells_def)
qed

definition type_arrays :: "rstype \<Rightarrow> nat \<Rightarrow> bool" where
  "type_arrays t n \<longleftrightarrow> length (tLodDimX t) = n \<and> length (tLodDimY t) = n \<and> length (tLodDimZ t) = n"

text \<open>Entry \<open>i\<close> of a level table.\<close>

definition lod_entry :: "u32 option list \<Rightarrow> nat \<Rightarrow> nat \<Rightarrow> bool" where
  "lod_entry a i d \<longleftrightarrow> (\<exists>v. a ! i = Some v \<and> unat v = d)"

lemma unat_max1: "unat (rsMax (x :: u32) 1) = max (unat x) 1"
  by (simp add: max_def word_le_nat_alt)

lemma Type_lod_loop_spec:
  assumes "type_arrays t (lod + n)" and "lod_cells (unat tx) (unat ty) (unat tz) 0 < 2 ^ 32"
    and "unat (tCellCount t) + n * 2 ^ 32 < 2 ^ 64"
  shows "\<exists>t'. Type_lod_loop n lod tx ty tz t = Some t' \<and> type_arrays t' (lod + n)
    \<and> (\<forall>i<lod. tLodDimX t' ! i = tLodDimX t ! i \<and> tLodDimY t' ! i = tLodDimY t ! i
        \<and> tLodDimZ t' ! i = tLodDimZ t ! i)
    \<and> (\<forall>i<n. lod_entry (tLodDimX t') (lod + i) (lod_dim (unat tx) i)
        \<and> lod_entry (tLodDimY t') (lod + i) (lod_dim (unat ty) i)
        \<and> lod_entry (tLodDimZ t') (lod + i) (lod_dim (unat tz) i))
    \<and> unat (tCellCount t') = unat (tCellCount t) + (\<Sum>i<n. lod_cells (unat tx) (unat ty) (unat tz) i)
    \<and> tLodCount t' = tLodCount t \<and> tFaces t' = tFaces t \<and> tDimYuv t' = tDimYuv t
    \<and> tElement t' = tElement t \<and> tDimX t' = tDimX t \<and> tDimY t' = tDimY t \<and> tDimZ t' = tDimZ t
    \<and> tDimLOD t' = tDimLOD t"
  using assms
proof (induction n arbitrary: lod tx ty tz t)
  case 0
  then show ?case by simp
next
  case (Suc n)
  define t1 where "t1 = t\<lparr>tLodDimX := (tLodDimX t)[lod := Some tx], tLodDimY := (tLodDimY t)[lod := Some ty],
    tLodDimZ := (tLodDimZ t)[lod := Some tz],
    tCellCount := tCellCount t + ucast (tx * rsMax ty 1 * rsMax tz 1)\<rparr>"
  have len: "lod < length (tLodDimX t)" "lod < length (tLodDimY t)" "lod < length (tLodDimZ t)"
    using Suc.prems(1) by (simp_all add: type_arrays_def)
  have step: "Type_lod_loop (Suc n) lod tx ty tz t
      = Type_lod_loop n (lod + 1) (lod_half tx) (lod_half ty) (lod_half tz) t1"
    using len by (simp add: arr_set_def t1_def)
  have p1: "unat (tx * rsMax ty 1) = unat tx * max (unat ty) 1"
  proof -
    have "unat tx * max (unat ty) 1 \<le> unat tx * max (unat ty) 1 * max (unat tz) 1"
      using mult_le_mono2[of 1 "max (unat tz) 1" "unat tx * max (unat ty) 1"] by simp
    also have "\<dots> < 2 ^ 32" using Suc.prems(2) by (simp add: lod_cells_def)
    finally show ?thesis by (subst unat_mult_if_fits) (simp_all only: unat_max1 len_of_numeral_defs, simp)
  qed
  have p: "unat (tx * rsMax ty 1 * rsMax tz 1) = lod_cells (unat tx) (unat ty) (unat tz) 0"
  proof -
    have "unat (tx * rsMax ty 1) * unat (rsMax tz 1) < 2 ^ 32"
      using Suc.prems(2) by (simp only: p1 unat_max1) (simp add: lod_cells_def)
    then have "unat (tx * rsMax ty 1 * rsMax tz 1) = unat (tx * rsMax ty 1) * unat (rsMax tz 1)"
      by (intro unat_mult_if_fits) simp
    then show ?thesis by (simp only: p1 unat_max1) (simp add: lod_cells_def)
  qed
  have cc: "unat (tCellCount t1) = unat (tCellCount t) + lod_cells (unat tx) (unat ty) (unat tz) 0"
  proof -
    have "unat (tCellCount t + ucast (tx * rsMax ty 1 * rsMax tz 1))
        = unat (tCellCount t) + unat (tx * rsMax ty 1 * rsMax tz 1)"
      using Suc.prems(2,3) p by (subst unat_plus_if_fits) (simp_all only: unat_ucast_u32_u64, simp)
    then show ?thesis by (simp add: t1_def p[unfolded rsMax_max])
  qed
  have "type_arrays t1 (lod + 1 + n)" using Suc.prems(1) by (simp add: type_arrays_def t1_def)
  moreover have "lod_cells (unat (lod_half tx)) (unat (lod_half ty)) (unat (lod_half tz)) 0 < 2 ^ 32"
    using lod_cells_le[of "unat tx" "unat ty" "unat tz" "Suc 0"] Suc.prems(2)
    by (simp only: unat_lod_half lod_cells_Suc)
  moreover have "unat (tCellCount t1) + n * 2 ^ 32 < 2 ^ 64" using Suc.prems(2,3) cc by simp
  ultimately obtain t' where t': "Type_lod_loop n (lod + 1) (lod_half tx) (lod_half ty) (lod_half tz) t1 = Some t'"
    "type_arrays t' (lod + 1 + n)"
    "\<forall>i<lod + 1. tLodDimX t' ! i = tLodDimX t1 ! i \<and> tLodDimY t' ! i = tLodDimY t1 ! i
        \<and> tLodDimZ t' ! i = tLodDimZ t1 ! i"
    "\<forall>i<n. lod_entry (tLodDimX t') (lod + 1 + i) (lod_dim (unat (lod_half tx)) i)
        \<and> lod_entry (tLodDimY t') (lod + 1 + i) (lod_dim (unat (lod_half ty)) i)
        \<and> lod_entry (tLodDimZ t') (lod + 1 + i) (lod_dim (unat (lod_half tz)) i)"
    "unat (tCellCount t') = unat (tCellCount t1)
        + (\<Sum>i<n. lod_cells (unat (lod_half tx)) (unat (lod_half ty)) (unat (lod_half tz)) i)"
    "tLodCount t' = tLodCount t1 \<and> tFaces t' = tFaces t1 \<and> tDimYuv t' = tDimYuv t1
    \<and> tElement t' = tElement t1 \<and> tDimX t' = tDimX t1 \<and> tDimY t' = tDimY t1 \<and> tDimZ t' = tDimZ t1
    \<and> tDimLOD t' = tDimLOD t1"
    using Suc.IH[of t1 "lod + 1" "lod_half tx" "lod_half ty" "lod_half tz"] by blast
  have e: "lod_entry (tLodDimX t') (lod + i) (lod_dim (unat tx) i)
        \<and> lod_entry (tLodDimY t') (lod + i) (lod_dim (unat ty) i)
        \<and> lod_entry (tLodDimZ t') (lod + i) (lod_dim (unat tz) i)" if "i < Suc n" for i
  proof (cases i)
    case 0
    then show ?thesis using t'(3) len by (simp add: lod_entry_def t1_def)
  next
    case (Suc j)
    then have "j < n" using that by simp
    with t'(4) Suc show ?thesis by (simp add: unat_lod_half lod_dim_Suc)
  qed
  have s: "unat (tCellCount t') = unat (tCellCount t) + (\<Sum>i<Suc n. lod_cells (unat tx) (unat ty) (unat tz) i)"
    using t'(5) cc unfolding sum.lessThan_Suc_shift by (simp add: unat_lod_half lod_cells_Suc)
  show ?case
    using t'(1,2,3,6) e s unfolding step by (intro exI[of _ t']) (auto simp: t1_def)
qed
lemma rsFindHighBit_unat: "unat (rsFindHighBit v) < 32"
proof (cases "v = 0")
  case False
  then have "0 < v" by (simp add: word_gt_0)
  from rsFindHighBit_bounds(2)[OF this] show ?thesis by (simp add: word_less_nat_alt)
qed simp

lemma unat_highbit_Suc: "unat (rsFindHighBit v + 1) = Suc (unat (rsFindHighBit v))"
  using rsFindHighBit_unat[of v] by (simp add: unat_word_ariths)

lemma lod_dim_highbit: "unat (rsFindHighBit v) \<le> l \<Longrightarrow> lod_dim (unat v) l \<le> 1"
proof (cases "v = 0")
  case False
  assume l: "unat (rsFindHighBit v) \<le> l"
  have "0 < v" using False by (simp add: word_gt_0)
  then have "unat v < 2 ^ Suc (unat (rsFindHighBit v))" using rsFindHighBit_bounds(1) by blast
  also have "(2 :: nat) ^ Suc (unat (rsFindHighBit v)) \<le> 2 ^ Suc l"
    using l by (intro power_increasing) auto
  finally have "unat v div 2 ^ l < 2" by (simp add: less_mult_imp_div_less)
  then show ?thesis by (simp add: lod_dim_def)
qed (simp add: lod_dim_def)

lemma lod_dim_highbit_less:
  assumes "l < unat (rsFindHighBit v)"
  shows "1 < lod_dim (unat v) l"
proof -
  have v: "0 < v" using assms by (auto simp: word_gt_0)
  have "(2 :: nat) ^ Suc l \<le> 2 ^ unat (rsFindHighBit v)" using assms by (intro power_increasing) auto
  also have "\<dots> \<le> unat v" using rsFindHighBit_bounds(1)[OF v] by blast
  finally have "2 * 2 ^ l \<le> unat v" by simp
  then have "2 \<le> unat v div 2 ^ l" by (simp add: less_eq_div_iff_mult_less_eq)
  then show ?thesis using v by (simp add: lod_dim_def unat_gt_0 word_gt_0)
qed

lemma Type_lodCount_bounds: "1 \<le> unat (Type_lodCount t) \<and> unat (Type_lodCount t) \<le> 32"
proof -
  have "unat (rsFindHighBit v + 1) \<le> 32" for v
    using rsFindHighBit_unat[of v] unat_highbit_Suc[of v] by simp
  moreover have "1 \<le> unat (rsFindHighBit v + 1)" for v using unat_highbit_Suc[of v] by simp
  ultimately show ?thesis by (auto simp: Type_lodCount_def Let_def max_def)
qed

definition type_wf :: "rstype \<Rightarrow> bool" where
  "type_wf t \<longleftrightarrow> type_arrays t (unat (tLodCount t))"

lemma Type_compute_spec:
  assumes wf: "type_wf t" and yuv: "tDimYuv t = 0"
    and small: "unat (tDimX t) * max (unat (tDimY t)) 1 * max (unat (tDimZ t)) 1 < 2 ^ 32"
  shows "\<exists>t'. Type_compute t = Some t' \<and> type_wf t' \<and> tLodCount t' = Type_lodCount t
    \<and> (\<forall>l < unat (tLodCount t'). lod_entry (tLodDimX t') l (lod_dim (unat (tDimX t)) l)
        \<and> lod_entry (tLodDimY t') l (lod_dim (unat (tDimY t)) l)
        \<and> lod_entry (tLodDimZ t') l (lod_dim (unat (tDimZ t)) l))
    \<and> unat (tCellCount t') = (if tFaces t then 6 else 1)
        * (\<Sum>l < unat (tLodCount t'). lod_cells (unat (tDimX t)) (unat (tDimY t)) (unat (tDimZ t)) l)
    \<and> tHalElement t' = tElement t \<and> tElement t' = tElement t \<and> tFaces t' = tFaces t
    \<and> tDimX t' = tDimX t \<and> tDimY t' = tDimY t \<and> tDimZ t' = tDimZ t \<and> tDimLOD t' = tDimLOD t"
proof -
  let ?n = "Type_lodCount t"
  let ?S = "\<Sum>l < unat ?n. lod_cells (unat (tDimX t)) (unat (tDimY t)) (unat (tDimZ t)) l"
  define t2 where "t2 = (if ?n \<noteq> tLodCount t
    then t\<lparr>tLodCount := ?n, tLodDimX := replicate (unat ?n) None, tLodDimY := replicate (unat ?n) None,
      tLodDimZ := replicate (unat ?n) None\<rparr> else t\<lparr>tLodCount := ?n\<rparr>)\<lparr>tCellCount := 0\<rparr>"
  have n32: "unat ?n \<le> 32" using Type_lodCount_bounds by blast
  have "type_arrays t2 (0 + unat ?n)" using wf by (simp add: t2_def type_arrays_def type_wf_def)
  moreover have c0: "lod_cells (unat (tDimX t)) (unat (tDimY t)) (unat (tDimZ t)) 0 < 2 ^ 32"
    using small by (simp add: lod_cells_def)
  moreover have "unat (tCellCount t2) + unat ?n * 2 ^ 32 < 2 ^ 64" using n32 by (simp add: t2_def)
  ultimately obtain t3 where t3: "Type_lod_loop (unat ?n) 0 (tDimX t) (tDimY t) (tDimZ t) t2 = Some t3"
    "type_arrays t3 (0 + unat ?n)"
    "\<forall>i<unat ?n. lod_entry (tLodDimX t3) (0 + i) (lod_dim (unat (tDimX t)) i)
        \<and> lod_entry (tLodDimY t3) (0 + i) (lod_dim (unat (tDimY t)) i)
        \<and> lod_entry (tLodDimZ t3) (0 + i) (lod_dim (unat (tDimZ t)) i)"
    "unat (tCellCount t3) = unat (tCellCount t2) + ?S"
    "tLodCount t3 = tLodCount t2 \<and> tFaces t3 = tFaces t2 \<and> tDimYuv t3 = tDimYuv t2
    \<and> tElement t3 = tElement t2 \<and> tDimX t3 = tDimX t2 \<and> tDimY t3 = tDimY t2 \<and> tDimZ t3 = tDimZ t2
    \<and> tDimLOD t3 = tDimLOD t2"
    using Type_lod_loop_spec[of t2 0 "unat ?n" "tDimX t" "tDimY t" "tDimZ t"] by blast
  define t4 where "t4 = (if tFaces t then t3\<lparr>tCellCount := tCellCount t3 * 6\<rparr> else t3)"
  have eq: "Type_compute t = Some (t4\<lparr>tHalElement := tElement t4\<rparr>)"
    using t3(1) yuv by (simp add: Type_compute_def Let_def t2_def t4_def)
  have "?S \<le> (\<Sum>l < unat ?n. 2 ^ 32)"
    using c0 lod_cells_le by (intro sum_mono) (meson le_less_trans less_imp_le)
  also have "\<dots> \<le> 32 * 2 ^ 32" using n32 by simp
  finally have S: "?S \<le> 32 * 2 ^ 32" .
  have cc: "unat (tCellCount t3) = ?S" using t3(4) by (simp add: t2_def)
  have "unat (tCellCount t3 * 6) = 6 * ?S"
    using S cc by (subst unat_mult_if_fits) simp_all
  then have c4: "unat (tCellCount t4) = (if tFaces t then 6 else 1) * ?S"
    using cc by (simp add: t4_def)
  show ?thesis
    using eq t3(2,3,5) c4
    by (intro exI[of _ "t4\<lparr>tHalElement := tElement t4\<rparr>"]) (simp add: t4_def t2_def type_wf_def type_arrays_def)
qed

text \<open>C22: The level table of a mipmapped type: level 0 has the dimensions of the type, every
  dimension is halved (not below 1) from level to level, the table ends at the first level
  at which all dimensions are at most 1, and it has at most 32 levels.\<close>

theorem Type_compute_levels:
  assumes "type_wf t" and "tDimYuv t = 0" and "tDimLOD t"
    and "unat (tDimX t) * max (unat (tDimY t)) 1 * max (unat (tDimZ t)) 1 < 2 ^ 32"
  shows "\<exists>t'. Type_compute t = Some t' \<and> type_wf t' \<and> unat (tLodCount t') \<le> 32
    \<and> (\<forall>l < unat (tLodCount t'). lod_entry (tLodDimX t') l (lod_dim (unat (tDimX t)) l)
        \<and> lod_entry (tLodDimY t') l (lod_dim (unat (tDimY t)) l)
        \<and> lod_entry (tLodDimZ t') l (lod_dim (unat (tDimZ t)) l))
    \<and> (\<forall>l. Suc l = unat (tLodCount t') \<longrightarrow>
        lod_dim (unat (tDimX t)) l \<le> 1 \<and> lod_dim (unat (tDimY t)) l \<le> 1 \<and> lod_dim (unat (tDimZ t)) l \<le> 1)
    \<and> (\<forall>l. Suc l < unat (tLodCount t') \<longrightarrow>
        lod_dim (unat (tDimX t)) l > 1 \<or> lod_dim (unat (tDimY t)) l > 1 \<or> lod_dim (unat (tDimZ t)) l > 1)"
proof -
  obtain t' where t': "Type_compute t = Some t'" "type_wf t'" "tLodCount t' = Type_lodCount t"
    "\<forall>l < unat (tLodCount t'). lod_entry (tLodDimX t') l (lod_dim (unat (tDimX t)) l)
        \<and> lod_entry (tLodDimY t') l (lod_dim (unat (tDimY t)) l)
        \<and> lod_entry (tLodDimZ t') l (lod_dim (unat (tDimZ t)) l)"
    using Type_compute_spec[OF assms(1,2,4)] by blast
  let ?h = "\<lambda>v. unat (rsFindHighBit v)"
  have um: "unat (rsMax a b) = max (unat a) (unat b)" for a b :: u32
    by (simp add: max_def word_le_nat_alt)
  have n: "unat (Type_lodCount t) = Suc (max (max (?h (tDimX t)) (?h (tDimY t))) (?h (tDimZ t)))"
    using assms(3) by (simp add: Type_lodCount_def Let_def um unat_highbit_Suc del: rsMax_max)
  have "lod_dim (unat (tDimX t)) l \<le> 1 \<and> lod_dim (unat (tDimY t)) l \<le> 1 \<and> lod_dim (unat (tDimZ t)) l \<le> 1"
    if "Suc l = unat (tLodCount t')" for l
    using that n t'(3) by (intro conjI lod_dim_highbit) auto
  moreover have "lod_dim (unat (tDimX t)) l > 1 \<or> lod_dim (unat (tDimY t)) l > 1 \<or> lod_dim (unat (tDimZ t)) l > 1"
    if "Suc l < unat (tLodCount t')" for l
  proof -
    have "l < ?h (tDimX t) \<or> l < ?h (tDimY t) \<or> l < ?h (tDimZ t)" using that n t'(3) by auto
    then show ?thesis using lod_dim_highbit_less by blast
  qed
  ultimately show ?thesis using t' Type_lodCount_bounds by auto
qed

theorem Type_compute_levels_witness:
  "\<exists>t'. Type_compute (Type_new\<lparr>tDimX := 5, tDimY := 3, tDimLOD := True\<rparr>) = Some t'
    \<and> unat (tLodCount t') \<le> 32"
  using Type_compute_levels[of "Type_new\<lparr>tDimX := 5, tDimY := 3, tDimLOD := True\<rparr>"]
  by (auto simp: Type_new_def type_wf_def type_arrays_def)

text \<open>C35: The cell count of a type is the number of cells of all its levels, times six for a cube
  map.\<close>

theorem Type_compute_cellCount:
  assumes "type_wf t" and "tDimYuv t = 0"
    and "unat (tDimX t) * max (unat (tDimY t)) 1 * max (unat (tDimZ t)) 1 < 2 ^ 32"
  shows "\<exists>t'. Type_compute t = Some t' \<and>
    unat (tCellCount t') = (if tFaces t then 6 else 1)
        * (\<Sum>l < unat (Type_lodCount t). lod_cells (unat (tDimX t)) (unat (tDimY t)) (unat (tDimZ t)) l)"
  using Type_compute_spec[OF assms] by auto

theorem Type_compute_cellCount_witness:
  "\<exists>t'. Type_compute (Type_new\<lparr>tDimX := 4, tDimY := 2, tFaces := True\<rparr>) = Some t'
    \<and> unat (tCellCount t') = 48"
  using Type_compute_cellCount[of "Type_new\<lparr>tDimX := 4, tDimY := 2, tFaces := True\<rparr>"]
  by (auto simp: Type_new_def type_wf_def type_arrays_def Type_lodCount_def lod_cells_def)

text \<open>C40: For a YUV type without mipmaps \<open>compute\<close> stores the sizes of the chroma planes behind the
  end of the level tables, which have a single entry.\<close>

theorem Type_compute_yuv_overflow:
  assumes "type_wf t" and "tDimYuv t \<noteq> 0" and "\<not> tDimLOD t"
  shows "Type_compute t = None"
proof -
  have n: "Type_lodCount t = 1" using assms(3) by (simp add: Type_lodCount_def)
  have len: "length (tLodDimX (if 1 \<noteq> tLodCount t
      then t\<lparr>tLodCount := 1, tLodDimX := replicate (unat (1 :: u32)) None,
        tLodDimY := replicate (unat (1 :: u32)) None, tLodDimZ := replicate (unat (1 :: u32)) None\<rparr>
      else t\<lparr>tLodCount := 1\<rparr>)) = 1"
    using assms(1) by (auto simp: type_wf_def type_arrays_def)
  have "Type_compute_yuv t3 = None" if "length (tLodDimX t3) = 1" for t3
    using that by (auto simp: Type_compute_yuv_def arr_set_def split: Option.bind_splits)
  then show ?thesis
    using assms(2) len by (auto simp: Type_compute_def Let_def n arr_set_def split: Option.bind_splits)
qed

theorem Type_compute_yuv_overflow_witness:
  "Type_compute (Type_new\<lparr>tDimX := 64, tDimY := 64, tDimYuv := 17\<rparr>) = None"
  by (rule Type_compute_yuv_overflow) (simp_all add: Type_new_def type_wf_def type_arrays_def)
section \<open>Other properties of types\<close>

lemma np2_iff: "x \<noteq> 0 \<and> x AND (x - 1) \<noteq> 0 \<longleftrightarrow> (\<forall>k. unat (x :: u32) \<noteq> 0 \<and> unat x \<noteq> 2 ^ k)"
proof -
  have "x \<noteq> 0 \<and> x AND (x - 1) \<noteq> 0 \<longleftrightarrow> \<not> rsIsPow2 x"
    by (auto simp: rsIsPow2_def)
  also have "\<dots> \<longleftrightarrow> (\<forall>k. unat x \<noteq> 0 \<and> unat x \<noteq> 2 ^ k)"
  proof -
    have "k < 32" if "unat x = 2 ^ k" for k
    proof -
      have "(2 :: nat) ^ k < 2 ^ 32" using that unat_less_exp[of x] by simp
      then show ?thesis by (rule power_less_imp_less_exp[rotated]) simp
    qed
    then show ?thesis by (auto simp: rsIsPow2_iff unat_0_iff)
  qed
  finally show ?thesis .
qed

text \<open>\<open>getIsNp2\<close> holds iff some dimension is neither missing nor a power of two.\<close>

theorem getIsNp2_iff:
  "getIsNp2 t \<longleftrightarrow> (\<exists>d\<in>{tDimX t, tDimY t, tDimZ t}. \<forall>k. unat d \<noteq> 0 \<and> unat d \<noteq> 2 ^ k)"
  unfolding getIsNp2_def Let_def np2_iff by auto

theorem getIsNp2_iff_witness:
  "getIsNp2 (Type_new\<lparr>tDimX := 6\<rparr>) \<longleftrightarrow>
   (\<exists>d\<in>{6, 0}. \<forall>k. unat (d :: u32) \<noteq> 0 \<and> unat d \<noteq> 2 ^ k)"
  using getIsNp2_iff[of "Type_new\<lparr>tDimX := 6\<rparr>"] by (simp add: Type_new_def)

text \<open>The serialised form of a type does not tell whether it has mipmaps: the flag is
  \<open>lodCount ? 1 : 0\<close>, and \<open>compute\<close> makes \<open>lodCount\<close> at least 1, so a type and its
  mipmapped twin are written identically.\<close>

theorem Type_serialize_loses_lod:
  assumes "type_wf t" and "tDimYuv t = 0"
    and "unat (tDimX t) * max (unat (tDimY t)) 1 * max (unat (tDimZ t)) 1 < 2 ^ 32"
  shows "\<exists>t1 t2. Type_compute (t\<lparr>tDimLOD := False\<rparr>) = Some t1 \<and> Type_compute (t\<lparr>tDimLOD := True\<rparr>) = Some t2
    \<and> Type_serialize E N fuel nm t1 s = Type_serialize E N fuel nm t2 s"
proof -
  have wf: "type_wf (t\<lparr>tDimLOD := b\<rparr>)" for b using assms(1) by (simp add: type_wf_def type_arrays_def)
  have ex: "\<exists>t'. Type_compute (t\<lparr>tDimLOD := b\<rparr>) = Some t' \<and> tLodCount t' \<noteq> 0 \<and> tElement t' = tElement t
      \<and> tFaces t' = tFaces t \<and> tDimX t' = tDimX t \<and> tDimY t' = tDimY t \<and> tDimZ t' = tDimZ t" for b
    using Type_compute_spec[OF wf[of b]] assms(2,3) Type_lodCount_bounds[of "t\<lparr>tDimLOD := b\<rparr>"] by fastforce
  obtain t1 where 1: "Type_compute (t\<lparr>tDimLOD := False\<rparr>) = Some t1" "tLodCount t1 \<noteq> 0"
    "tElement t1 = tElement t" "tFaces t1 = tFaces t" "tDimX t1 = tDimX t" "tDimY t1 = tDimY t" "tDimZ t1 = tDimZ t"
    using ex[of False] by blast
  obtain t2 where 2: "Type_compute (t\<lparr>tDimLOD := True\<rparr>) = Some t2" "tLodCount t2 \<noteq> 0"
    "tElement t2 = tElement t" "tFaces t2 = tFaces t" "tDimX t2 = tDimX t" "tDimY t2 = tDimY t" "tDimZ t2 = tDimZ t"
    using ex[of True] by blast
  have "Type_serialize E N fuel nm t1 s = Type_serialize E N fuel nm t2 s"
    by (simp only: Type_serialize_def 1(2-) 2(2-) if_True if_False not_False_eq_True)
  then show ?thesis using 1(1) 2(1) by blast
qed

theorem Type_serialize_loses_lod_witness:
  "\<exists>t1 t2 s'. Type_compute (Type_new\<lparr>tDimX := 8, tElement := Some 0\<rparr>) = Some t1
    \<and> Type_compute (Type_new\<lparr>tDimX := 8, tElement := Some 0, tDimLOD := True\<rparr>) = Some t2
    \<and> Type_serialize [0 \<mapsto> Element_new] [0 \<mapsto> [101, 0]] 1 (Some [116, 0]) t1 (OStream_new 64 False) = Some s'
    \<and> Type_serialize [0 \<mapsto> Element_new] [0 \<mapsto> [101, 0]] 1 (Some [116, 0]) t2 (OStream_new 64 False) = Some s'"
proof -
  let ?t = "Type_new\<lparr>tDimX := 8, tElement := Some 0\<rparr>"
  let ?ser = "\<lambda>t. Type_serialize [0 \<mapsto> Element_new] [0 \<mapsto> [101, 0]] 1 (Some [116, 0]) t (OStream_new 64 False)"
  have "Option.is_none (Option.bind (Type_compute ?t) ?ser) = False" by code_simp
  then obtain t1 s' where 1: "Type_compute ?t = Some t1" "?ser t1 = Some s'"
    by (cases "Type_compute ?t"; cases "Option.bind (Type_compute ?t) ?ser") auto
  have "?t\<lparr>tDimLOD := False\<rparr> = ?t" by (simp add: Type_new_def)
  then obtain t2 where "Type_compute (?t\<lparr>tDimLOD := True\<rparr>) = Some t2" "?ser t1 = ?ser t2"
    using Type_serialize_loses_lod[of ?t "[0 \<mapsto> Element_new]" "[0 \<mapsto> [101, 0]]" 1 "Some [116, 0]" "OStream_new 64 False"] 1(1)
    by (auto simp: Type_new_def type_wf_def type_arrays_def)
  then show ?thesis using 1 by auto
qed

end
