(* ===== verification/Rs_Runtime.thy ===== *)
theory Rs_Runtime
  imports Rs_Stream "HOL-Library.Multiset"
begin

unbundle bit_operations_syntax

text \<open>
  The view of an allocation that scripts have (\<open>driver/runtime/rs_structs.h\<close>,
  \<open>rs_allocation.c\<close>): the memory of its levels, the address of an element, and reads and writes
  of single elements. \<open>uchar\<close> and \<open>short\<close> elements are the ones the transforms of the runtime use.

  \<open>int\<close> and \<open>int16_t\<close> are words read as two's complement numbers; \<open>sx\<close> is the promotion of an
  \<open>int16_t\<close> to \<open>int\<close> and \<open>tr\<close> the conversion back. Coordinates are passed as \<open>uint32_t\<close>.

  The lemmas at the end are about blocks of pixels: an update of every pixel of a block does
  not depend on the order in which the pixels are visited.
\<close>

section \<open>Signed integers\<close>

type_synonym i16 = "16 word"
type_synonym i32 = "32 word"

definition sx :: "i16 \<Rightarrow> i32" where
  "sx v = scast v"

definition tr :: "i32 \<Rightarrow> i16" where
  "tr v = ucast v"

lemma sx_0 [simp]: "sx 0 = 0"
  by (simp add: sx_def)

lemma tr_0 [simp]: "tr 0 = 0"
  by (simp add: tr_def)

lemma tr_sx [simp]: "tr (sx v) = v"
proof (rule bit_word_eqI)
  fix n
  assume "n < LENGTH(16)"
  then have "n < 15 \<or> n = 15" by auto
  then show "bit (tr (sx v)) n = bit v n" by (auto simp: tr_def sx_def bit_simps)
qed

lemma tr_minus_sx [simp]: "tr (- sx 0) = 0"
  by simp

lemma sx_eq_0 [simp]: "sx v = 0 \<longleftrightarrow> v = 0"
  by (metis sx_0 tr_0 tr_sx)

section \<open>Loops\<close>

text \<open>\<open>n\<close> rounds of a loop, with the counter starting at \<open>i\<close>.\<close>

fun for_upto :: "nat \<Rightarrow> nat \<Rightarrow> (nat \<Rightarrow> 's \<Rightarrow> 's option) \<Rightarrow> 's \<Rightarrow> 's option" where
  "for_upto i 0 f s = Some s"
| "for_upto i (Suc n) f s = Option.bind (f i s) (for_upto (i + 1) n f)"

section \<open>Allocations as scripts see them\<close>

record rtlod =
  lodData :: mem
  lodStride :: u64
  lodDimX :: u32
  lodDimY :: u32
  lodDimZ :: u32

record rtalloc =
  raElementSizeBytes :: u32
  raHasMipmaps :: bool
  raHasFaces :: bool
  raLod :: "nat \<Rightarrow> rtlod"
  raYuvShift :: u32
  raYuvStep :: u32

definition rsAllocationGetDimX :: "rtalloc \<Rightarrow> u32" where
  "rsAllocationGetDimX a = lodDimX (raLod a 0)"

definition rsAllocationGetDimY :: "rtalloc \<Rightarrow> u32" where
  "rsAllocationGetDimY a = lodDimY (raLod a 0)"

definition rsAllocationGetDimZ :: "rtalloc \<Rightarrow> u32" where
  "rsAllocationGetDimZ a = lodDimZ (raLod a 0)"

definition rsAllocationGetDimLOD :: "rtalloc \<Rightarrow> u32" where
  "rsAllocationGetDimLOD a = (if raHasMipmaps a then 1 else 0)"

definition rsAllocationGetDimFaces :: "rtalloc \<Rightarrow> u32" where
  "rsAllocationGetDimFaces a = (if raHasFaces a then 1 else 0)"

text \<open>The loop of the local \<open>memcpy\<close>: one byte per round, from \<open>src\<close> at \<open>q\<close> to \<open>dst\<close> at \<open>p\<close>.\<close>

fun rt_memcpy :: "mem \<Rightarrow> nat \<Rightarrow> mem \<Rightarrow> nat \<Rightarrow> nat \<Rightarrow> mem option" where
  "rt_memcpy dst p src q 0 = Some dst"
| "rt_memcpy dst p src q (Suc sz) =
     (if p < length dst \<and> q < length src
      then rt_memcpy (dst[p := src ! q]) (p + 1) src (q + 1) sz
      else None)"

text \<open>Addresses are computed in 32 bits.\<close>

definition rsOffset :: "rtalloc \<Rightarrow> u32 \<Rightarrow> u32 \<Rightarrow> u32 \<Rightarrow> u32 \<Rightarrow> nat" where
  "rsOffset a sizeOf x y z =
     (let stride = ucast (lodStride (raLod a 0)); dimY = lodDimY (raLod a 0)
      in unat (sizeOf * x + y * stride + z * stride * dimY))"

definition rsOffsetNs :: "rtalloc \<Rightarrow> u32 \<Rightarrow> u32 \<Rightarrow> u32 \<Rightarrow> nat" where
  "rsOffsetNs a x y z = rsOffset a (raElementSizeBytes a) x y z"

definition set_data :: "rtalloc \<Rightarrow> mem \<Rightarrow> rtalloc" where
  "set_data a m = a\<lparr>raLod := (raLod a)(0 := (raLod a 0)\<lparr>lodData := m\<rparr>)\<rparr>"

text \<open>\<open>rsGetElementAt\<close> returns a pointer into the allocation; \<open>rsSetElementAt\<close> copies an element
  to it.\<close>

definition rsGetElementAt1 :: "rtalloc \<Rightarrow> u32 \<Rightarrow> nat" where
  "rsGetElementAt1 a x = unat (raElementSizeBytes a * x)"

definition rsGetElementAt2 :: "rtalloc \<Rightarrow> u32 \<Rightarrow> u32 \<Rightarrow> nat" where
  "rsGetElementAt2 a x y =
     (let stride = ucast (lodStride (raLod a 0)) in unat (raElementSizeBytes a * x + y * stride))"

definition rsGetElementAt3 :: "rtalloc \<Rightarrow> u32 \<Rightarrow> u32 \<Rightarrow> u32 \<Rightarrow> nat" where
  "rsGetElementAt3 a x y z =
     (let stride = ucast (lodStride (raLod a 0)); dimY = lodDimY (raLod a 0)
      in unat (raElementSizeBytes a * x + y * stride + z * stride * dimY))"

definition rsSetElementAt1 :: "rtalloc \<Rightarrow> mem \<Rightarrow> u32 \<Rightarrow> rtalloc option" where
  "rsSetElementAt1 a ptr x =
     map_option (set_data a)
       (rt_memcpy (lodData (raLod a 0)) (rsGetElementAt1 a x) ptr 0 (unat (raElementSizeBytes a)))"

definition rsSetElementAt2 :: "rtalloc \<Rightarrow> mem \<Rightarrow> u32 \<Rightarrow> u32 \<Rightarrow> rtalloc option" where
  "rsSetElementAt2 a ptr x y =
     map_option (set_data a)
       (rt_memcpy (lodData (raLod a 0)) (rsGetElementAt2 a x y) ptr 0 (unat (raElementSizeBytes a)))"

definition rsSetElementAt3 :: "rtalloc \<Rightarrow> mem \<Rightarrow> u32 \<Rightarrow> u32 \<Rightarrow> u32 \<Rightarrow> rtalloc option" where
  "rsSetElementAt3 a ptr x y z =
     map_option (set_data a)
       (rt_memcpy (lodData (raLod a 0)) (rsGetElementAt3 a x y z) ptr 0 (unat (raElementSizeBytes a)))"

text \<open>Typed access. The implementations load and store at \<open>rsOffset\<close> with the size of the type.\<close>

definition rsGetElementAtImpl_uchar :: "rtalloc \<Rightarrow> u32 \<Rightarrow> u32 \<Rightarrow> u32 \<Rightarrow> u8 option" where
  "rsGetElementAtImpl_uchar a x y z =
     do { bs \<leftarrow> mem_read (lodData (raLod a 0)) (rsOffset a 1 x y z) 1; Some (bs ! 0) }"

definition rsSetElementAtImpl_uchar :: "rtalloc \<Rightarrow> u8 \<Rightarrow> u32 \<Rightarrow> u32 \<Rightarrow> u32 \<Rightarrow> rtalloc option" where
  "rsSetElementAtImpl_uchar a v x y z =
     map_option (set_data a) (mem_write (lodData (raLod a 0)) (rsOffset a 1 x y z) [v])"

definition rsGetElementAtImpl_short :: "rtalloc \<Rightarrow> u32 \<Rightarrow> u32 \<Rightarrow> u32 \<Rightarrow> i16 option" where
  "rsGetElementAtImpl_short a x y z =
     do { bs \<leftarrow> mem_read (lodData (raLod a 0)) (rsOffset a 2 x y z) 2; Some (le16 bs) }"

definition rsSetElementAtImpl_short :: "rtalloc \<Rightarrow> i16 \<Rightarrow> u32 \<Rightarrow> u32 \<Rightarrow> u32 \<Rightarrow> rtalloc option" where
  "rsSetElementAtImpl_short a v x y z =
     map_option (set_data a)
       (mem_write (lodData (raLod a 0)) (rsOffset a 2 x y z) [ucast (v AND 0xff), ucast (drop_bit 8 v)])"

definition rsGetElementAt_uchar :: "rtalloc \<Rightarrow> u32 \<Rightarrow> u32 \<Rightarrow> u8 option" where
  "rsGetElementAt_uchar a x y = rsGetElementAtImpl_uchar a x y 0"

definition rsSetElementAt_uchar :: "rtalloc \<Rightarrow> u8 \<Rightarrow> u32 \<Rightarrow> u32 \<Rightarrow> rtalloc option" where
  "rsSetElementAt_uchar a v x y = rsSetElementAtImpl_uchar a v x y 0"

definition rsGetElementAt_short :: "rtalloc \<Rightarrow> u32 \<Rightarrow> u32 \<Rightarrow> i16 option" where
  "rsGetElementAt_short a x y = rsGetElementAtImpl_short a x y 0"

definition rsSetElementAt_short :: "rtalloc \<Rightarrow> i16 \<Rightarrow> u32 \<Rightarrow> u32 \<Rightarrow> rtalloc option" where
  "rsSetElementAt_short a v x y = rsSetElementAtImpl_short a v x y 0"

definition rsGetElementAt_short1 :: "rtalloc \<Rightarrow> u32 \<Rightarrow> i16 option" where
  "rsGetElementAt_short1 a x = rsGetElementAtImpl_short a x 0 0"

definition rsSetElementAt_short1 :: "rtalloc \<Rightarrow> i16 \<Rightarrow> u32 \<Rightarrow> rtalloc option" where
  "rsSetElementAt_short1 a v x = rsSetElementAtImpl_short a v x 0 0"

text \<open>The chroma planes of a YUV allocation are kept in the levels 1 and 2. The address is a
  \<open>size_t\<close>; a shift by the width of \<open>uint32_t\<close> or more is undefined.\<close>

definition rsGetElementAtYuv_uchar_Y :: "rtalloc \<Rightarrow> u32 \<Rightarrow> u32 \<Rightarrow> u8 option" where
  "rsGetElementAtYuv_uchar_Y a x y = rsGetElementAt_uchar a x y"

definition yuv_plane :: "rtalloc \<Rightarrow> nat \<Rightarrow> u32 \<Rightarrow> u32 \<Rightarrow> u8 option" where
  "yuv_plane a plane x y =
     (let cstep = ucast (raYuvStep a) :: u64; shift = unat (raYuvShift a);
          stride = lodStride (raLod a plane)
      in if 32 \<le> shift then None
         else do { bs \<leftarrow> mem_read (lodData (raLod a plane))
                     (unat (ucast (drop_bit shift x) * cstep + ucast (drop_bit shift y) * stride)) 1;
                   Some (bs ! 0) })"

definition rsGetElementAtYuv_uchar_U :: "rtalloc \<Rightarrow> u32 \<Rightarrow> u32 \<Rightarrow> u8 option" where
  "rsGetElementAtYuv_uchar_U a x y = yuv_plane a 1 x y"

definition rsGetElementAtYuv_uchar_V :: "rtalloc \<Rightarrow> u32 \<Rightarrow> u32 \<Rightarrow> u8 option" where
  "rsGetElementAtYuv_uchar_V a x y = yuv_plane a 2 x y"

section \<open>Arithmetic of the transforms\<close>

definition ROUND_POWER_OF_TWO :: "i32 \<Rightarrow> nat \<Rightarrow> i32" where
  "ROUND_POWER_OF_TWO value n = signed_drop_bit n (value + push_bit (n - 1) 1)"

definition clip_pixel :: "i32 \<Rightarrow> u8" where
  "clip_pixel val = (if 255 <s val then 255 else if val <s 0 then 0 else ucast val)"

text \<open>The transforms read their block first: entry \<open>j + i * n\<close> is the element at \<open>(j + xoff, i + yoff)\<close>.\<close>

definition read_block :: "nat \<Rightarrow> rtalloc \<Rightarrow> u32 \<Rightarrow> u32 \<Rightarrow> i16 list option" where
  "read_block n a xoff yoff =
     those (map (\<lambda>k. rsGetElementAt_short a (of_nat (k mod n) + xoff) (of_nat (k div n) + yoff)) [0..<n * n])"

text \<open>Row \<open>i\<close> and column \<open>i\<close> of a block.\<close>

definition blk_row :: "nat \<Rightarrow> nat \<Rightarrow> 'a list \<Rightarrow> 'a list" where
  "blk_row n i b = take n (drop (i * n) b)"

definition blk_col :: "nat \<Rightarrow> nat \<Rightarrow> 'a list \<Rightarrow> 'a list" where
  "blk_col n i b = map (\<lambda>j. b ! (j * n + i)) [0..<n]"

section \<open>Loops as folds\<close>

lemma for_upto_fold:
  "for_upto i n f s = fold (\<lambda>k s. Option.bind s (f k)) [i..<i + n] (Some s)"
proof (induction n arbitrary: i s)
  case 0
  then show ?case by simp
next
  case (Suc n)
  have none: "fold (\<lambda>k s. Option.bind s (f k)) xs None = None" for xs by (induction xs) auto
  have "[i..<i + Suc n] = i # [Suc i..<Suc i + n]" by (simp add: upt_conv_Cons)
  then show ?case using Suc.IH[of "i + 1"] none by (cases "f i s") simp_all
qed

lemma for_upto_cong:
  "(\<And>k s. i \<le> k \<Longrightarrow> k < i + n \<Longrightarrow> f k s = g k s) \<Longrightarrow> for_upto i n f s = for_upto i n g s"
proof (induction n arbitrary: i s)
  case 0
  then show ?case by simp
next
  case (Suc n)
  have "for_upto (Suc i) n f t = for_upto (Suc i) n g t" for t
    by (rule Suc.IH) (use Suc.prems in auto)
  then show ?case using Suc.prems[of i s] by (cases "g i s") simp_all
qed

lemma fold_bind_None: "fold (\<lambda>k s. Option.bind s (f k)) xs None = None"
  by (induction xs) auto

lemma fold_bind_bind:
  "fold (\<lambda>k s. Option.bind s (f k)) xs (Option.bind s g) = Option.bind s (\<lambda>t. fold (\<lambda>k s. Option.bind s (f k)) xs (g t))"
  by (cases s) (simp_all add: fold_bind_None)

text \<open>Two nested loops visit the pairs of counters.\<close>

lemma for_upto_nested:
  "for_upto 0 n (\<lambda>i. for_upto 0 m (f i)) s =
   fold (\<lambda>(i, j) s. Option.bind s (f i j)) (List.product [0..<n] [0..<m]) (Some s)"
proof -
  have inner: "Option.bind t (for_upto 0 m (f i)) = fold (\<lambda>(i, j) s. Option.bind s (f i j)) (map (Pair i) [0..<m]) t" for i t
    by (cases t) (simp_all add: for_upto_fold fold_map comp_def fold_bind_None)
  have "fold (\<lambda>k t. Option.bind t (for_upto 0 m (f k))) is t =
      fold (\<lambda>(i, j) s. Option.bind s (f i j)) (List.product is [0..<m]) t" for "is" t
    by (induction "is" arbitrary: t) (simp_all add: inner)
  then show ?thesis by (simp add: for_upto_fold)
qed

section \<open>Pixels of a block\<close>

text \<open>One byte of a memory is read, changed and written back.\<close>

definition pix_upd :: "(u8 \<Rightarrow> u8) \<Rightarrow> nat \<Rightarrow> mem \<Rightarrow> mem option" where
  "pix_upd f p m = (if p < length m \<and> m ! p \<noteq> None then Some (m[p := map_option f (m ! p)]) else None)"

lemma mem_read_1: "mem_read m p 1 = (if p < length m then map_option (\<lambda>v. [v]) (m ! p) else None)"
proof -
  have "p < length m \<Longrightarrow> take 1 (drop p m) = [m ! p]"
    by (metis One_nat_def Cons_nth_drop_Suc take_Suc_Cons take0)
  then show ?thesis by (auto simp: mem_read_def mem_get_def split: option.split)
qed

lemma mem_write_1: "mem_write m p [v] = (if p < length m then Some (m[p := Some v]) else None)"
  by (simp add: mem_write_def mem_put_def upd_conv_take_nth_drop)

lemma set_data_simps [simp]:
  "lodData (raLod (set_data a m) 0) = m" "rsOffset (set_data a m) = rsOffset a"
  "set_data (set_data a m) m' = set_data a m'" "set_data a (lodData (raLod a 0)) = a"
  by (simp_all add: set_data_def rsOffset_def fun_eq_iff)

lemma pix_upd_eq:
  "Option.bind (rsGetElementAt_uchar a x y) (\<lambda>v. rsSetElementAt_uchar a (f v) x y)
   = map_option (set_data a) (pix_upd f (rsOffset a 1 x y 0) (lodData (raLod a 0)))"
  unfolding rsGetElementAt_uchar_def rsSetElementAt_uchar_def rsGetElementAtImpl_uchar_def
    rsSetElementAtImpl_uchar_def mem_read_1 mem_write_1 pix_upd_def
  by (cases "lodData (raLod a 0) ! rsOffset a 1 x y 0") auto

lemma pix_upd_commute:
  assumes "p \<noteq> q"
  shows "Option.bind (pix_upd f p m) (pix_upd g q) = Option.bind (pix_upd g q m) (pix_upd f p)"
  using assms by (auto simp: pix_upd_def list_update_swap)

text \<open>Every pixel in a list is changed once, so the order does not matter.\<close>

definition pix_fold :: "(nat \<times> (u8 \<Rightarrow> u8)) list \<Rightarrow> mem \<Rightarrow> mem option" where
  "pix_fold ps m = fold (\<lambda>(p, f) s. Option.bind s (pix_upd f p)) ps (Some m)"

lemma pix_fold_perm:
  assumes "distinct (map fst ps)" and "mset qs = mset ps"
  shows "pix_fold qs m = pix_fold ps m"
proof -
  let ?F = "\<lambda>(p, f) s. Option.bind s (pix_upd f p)"
  have "?F x \<circ> ?F y = ?F y \<circ> ?F x" if "x \<in> set ps" "y \<in> set ps" for x y
  proof (cases "x = y")
    case False
    then have "fst x \<noteq> fst y" using assms(1) that by (metis distinct_map inj_on_def)
    then show ?thesis
      using pix_upd_commute[of "fst x" "fst y"] by (auto simp: fun_eq_iff split_beta bind_assoc pix_upd_commute)
  qed simp
  then have "fold ?F ps = fold ?F qs" using assms(2) by (intro fold_multiset_equiv) auto
  then show ?thesis by (simp add: pix_fold_def)
qed

lemma fold_pix_data:
  "fold (\<lambda>(i, j) s. Option.bind s (\<lambda>a. Option.bind (rsGetElementAt_uchar a (X i j) (Y i j))
      (\<lambda>v. rsSetElementAt_uchar a (f i j v) (X i j) (Y i j)))) ijs (Some a)
   = map_option (set_data a) (pix_fold (map (\<lambda>(i, j). (rsOffset a 1 (X i j) (Y i j) 0, f i j)) ijs)
       (lodData (raLod a 0)))"
  unfolding pix_upd_eq
proof (induction ijs arbitrary: a)
  case Nil
  then show ?case by (simp add: pix_fold_def)
next
  case (Cons ij ijs)
  obtain i j where ij: "ij = (i, j)" by fastforce
  let ?p = "rsOffset a 1 (X i j) (Y i j) 0"
  have none: "fold (\<lambda>(p, f) s. Option.bind s (pix_upd f p)) ps None = None" for ps
    by (induction ps) auto
  have none': "fold (\<lambda>(i, j) s. Option.bind s (\<lambda>a. map_option (set_data a) (pix_upd (f i j)
      (rsOffset a 1 (X i j) (Y i j) 0) (lodData (raLod a 0))))) ijs None = None" for ijs
    by (induction ijs) auto
  show ?case
  proof (cases "pix_upd (f i j) ?p (lodData (raLod a 0))")
    case None
    then show ?thesis by (simp add: ij pix_fold_def none none')
  next
    case (Some m)
    then show ?thesis using Cons.IH[of "set_data a m"]
      by (simp add: ij pix_fold_def option.map_comp comp_def)
  qed
qed

text \<open>An \<open>n\<close> by \<open>n\<close> block of elements of \<open>e\<close> bytes that lies within the rows of an allocation, and whose
  addresses fit into 32 bits.\<close>

definition block_fits :: "nat \<Rightarrow> nat \<Rightarrow> rtalloc \<Rightarrow> u32 \<Rightarrow> u32 \<Rightarrow> bool" where
  "block_fits n e a xoff yoff \<longleftrightarrow> 0 < e \<and> e \<le> 8
     \<and> e * (unat xoff + n) \<le> unat (ucast (lodStride (raLod a 0)) :: u32)
     \<and> (unat yoff + n) * unat (ucast (lodStride (raLod a 0)) :: u32) \<le> 2 ^ 32"

lemma block_fits_set_data [simp]: "block_fits n e (set_data a m) xoff yoff = block_fits n e a xoff yoff"
  by (simp add: block_fits_def set_data_def)

lemma block_addr_less:
  fixes e i x S j y N :: nat
  assumes "e * (i + x) < S" and "j + y < N" and "N * S \<le> B"
  shows "e * (i + x) + (j + y) * S < B"
proof -
  have "(j + y) * S + S \<le> N * S" using assms(2) by (metis Suc_leI add.commute mult_Suc mult_le_mono1)
  then show ?thesis using assms(1,3) by linarith
qed

lemma unat_of_nat_plus:
  assumes "i + unat (x :: u32) < 2 ^ 32"
  shows "unat (of_nat i + x) = i + unat x"
proof -
  have "unat (of_nat i :: u32) = i" using assms by (simp add: unat_of_nat)
  then show ?thesis using assms unat_plus_if_fits[of "of_nat i" x] by simp
qed

lemma rsOffset_block:
  assumes fits: "block_fits n e a xoff yoff" and i: "i < n" and j: "j < n"
  shows "rsOffset a (of_nat e) (of_nat i + xoff) (of_nat j + yoff) 0
    = e * (i + unat xoff) + (j + unat yoff) * unat (ucast (lodStride (raLod a 0)) :: u32)"
proof -
  define S where "S = unat (ucast (lodStride (raLod a 0)) :: u32)"
  have f: "0 < e" "e \<le> 8" "e * (unat xoff + n) \<le> S" "(unat yoff + n) * S \<le> 2 ^ 32"
    using fits by (simp_all add: block_fits_def S_def)
  have "e * (i + unat xoff) < e * (unat xoff + n)" using f(1) i by simp
  then have lt: "e * (i + unat xoff) < S" using f(3) by linarith
  have S32: "S < 2 ^ 32" unfolding S_def using unat_less_exp[of "ucast (lodStride (raLod a 0)) :: u32"] by simp
  have all: "e * (i + unat xoff) + (j + unat yoff) * S < 2 ^ 32"
    using block_addr_less[OF lt, of j "unat yoff" "unat yoff + n" "2 ^ 32"] f(4) j by simp
  have "1 * (i + unat xoff) \<le> e * (i + unat xoff)" using f(1) by (intro mult_le_mono1) simp
  then have "i + unat xoff < 2 ^ 32" using less_trans[OF lt S32] by (metis le_less_trans mult_1)
  then have ix: "unat (of_nat i + xoff) = i + unat xoff" by (rule unat_of_nat_plus)
  have "(j + unat yoff) * 1 \<le> (j + unat yoff) * S" using lt by (intro mult_le_mono2) linarith
  then have "j + unat yoff < 2 ^ 32"
    using all by (metis add_lessD1 add.commute le_less_trans mult.right_neutral)
  then have jy: "unat (of_nat j + yoff) = j + unat yoff" by (rule unat_of_nat_plus)
  have e: "unat (of_nat e :: u32) = e" using f(2) by (simp add: unat_of_nat)
  have p: "unat (of_nat e * (of_nat i + xoff) :: u32) = e * (i + unat xoff)"
    using lt S32 by (subst unat_mult_if_fits) (simp_all add: e ix)
  have q: "unat ((of_nat j + yoff) * ucast (lodStride (raLod a 0)) :: u32) = (j + unat yoff) * S"
    using all by (subst unat_mult_if_fits) (simp_all add: jy S_def[symmetric])
  have "unat (of_nat e * (of_nat i + xoff) + (of_nat j + yoff) * ucast (lodStride (raLod a 0)) :: u32)
      = e * (i + unat xoff) + (j + unat yoff) * S"
    using all by (subst unat_plus_if_fits) (simp_all add: p q)
  then show ?thesis by (simp add: rsOffset_def S_def Let_def)
qed

text \<open>Different elements of a block do not overlap.\<close>

lemma rsOffset_apart:
  assumes fits: "block_fits n e a xoff yoff" and "i < n" "j < n" "k < n" "l < n" and "(i, j) \<noteq> (k, l)"
  shows "rsOffset a (of_nat e) (of_nat i + xoff) (of_nat j + yoff) 0 + e
      \<le> rsOffset a (of_nat e) (of_nat k + xoff) (of_nat l + yoff) 0
    \<or> rsOffset a (of_nat e) (of_nat k + xoff) (of_nat l + yoff) 0 + e
      \<le> rsOffset a (of_nat e) (of_nat i + xoff) (of_nat j + yoff) 0"
proof -
  define S where "S = unat (ucast (lodStride (raLod a 0)) :: u32)"
  have f: "0 < e" "e * (unat xoff + n) \<le> S" using fits by (simp_all add: block_fits_def S_def)
  have le: "e * (m + unat xoff) + e \<le> S" if "m < n" for m
  proof -
    have "e * (m + unat xoff) + e = e * (m + unat xoff + 1)" by simp
    also have "\<dots> \<le> e * (unat xoff + n)" using that by (intro mult_le_mono2) simp
    finally show ?thesis using f(2) by simp
  qed
  have row: "e * (m + unat xoff) + (u + unat yoff) * S + e \<le> e * (m' + unat xoff) + (u' + unat yoff) * S"
    if "m < n" "u < u'" for m m' u u'
  proof -
    have "(u + unat yoff) * S + S \<le> (u' + unat yoff) * S"
      using that(2) by (metis Suc_leI add.commute add_less_mono1 mult_Suc mult_le_mono1)
    then show ?thesis using le[OF that(1)] by linarith
  qed
  have col: "e * (m + unat xoff) + e \<le> e * (m' + unat xoff)" if "m < m'" for m m'
    using that by (metis Suc_leI add.commute add_less_mono1 mult_Suc_right mult_le_mono2)
  consider "j < l" | "l < j" | "j = l" "i < k" | "j = l" "k < i" using assms(6) by fastforce
  then show ?thesis
    unfolding rsOffset_block[OF fits assms(2,3)] rsOffset_block[OF fits assms(4,5)] S_def[symmetric]
  proof cases
    case 1
    then show "e * (i + unat xoff) + (j + unat yoff) * S + e \<le> e * (k + unat xoff) + (l + unat yoff) * S \<or>
      e * (k + unat xoff) + (l + unat yoff) * S + e \<le> e * (i + unat xoff) + (j + unat yoff) * S"
      using row assms by blast
  next
    case 2
    then show "e * (i + unat xoff) + (j + unat yoff) * S + e \<le> e * (k + unat xoff) + (l + unat yoff) * S \<or>
      e * (k + unat xoff) + (l + unat yoff) * S + e \<le> e * (i + unat xoff) + (j + unat yoff) * S"
      using row assms by blast
  next
    case 3
    then show "e * (i + unat xoff) + (j + unat yoff) * S + e \<le> e * (k + unat xoff) + (l + unat yoff) * S \<or>
      e * (k + unat xoff) + (l + unat yoff) * S + e \<le> e * (i + unat xoff) + (j + unat yoff) * S"
      using col[of i k] by simp
  next
    case 4
    then show "e * (i + unat xoff) + (j + unat yoff) * S + e \<le> e * (k + unat xoff) + (l + unat yoff) * S \<or>
      e * (k + unat xoff) + (l + unat yoff) * S + e \<le> e * (i + unat xoff) + (j + unat yoff) * S"
      using col[of k i] by simp
  qed
qed

text \<open>A block of pixels may be updated row by row or column by column.\<close>

lemma pixels_transposed:
  assumes fits: "block_fits n 1 a xoff yoff"
  shows "for_upto 0 n (\<lambda>i. for_upto 0 n (\<lambda>j a. Option.bind (rsGetElementAt_uchar a (of_nat i + xoff) (of_nat j + yoff))
      (\<lambda>v. rsSetElementAt_uchar a (f i j v) (of_nat i + xoff) (of_nat j + yoff)))) a
   = for_upto 0 n (\<lambda>i. for_upto 0 n (\<lambda>j a. Option.bind (rsGetElementAt_uchar a (of_nat j + xoff) (of_nat i + yoff))
      (\<lambda>v. rsSetElementAt_uchar a (f j i v) (of_nat j + xoff) (of_nat i + yoff)))) a"
proof -
  let ?c = "\<lambda>(i, j). (rsOffset a 1 (of_nat i + xoff) (of_nat j + yoff) 0, f i j)"
  let ?P = "List.product [0..<n] [0..<n]"
  have inj: "inj_on (\<lambda>p. rsOffset a 1 (of_nat (fst p) + xoff) (of_nat (snd p) + yoff) 0) (set ?P)"
  proof (rule inj_onI)
    fix p q
    assume pq: "p \<in> set ?P" "q \<in> set ?P" "rsOffset a 1 (of_nat (fst p) + xoff) (of_nat (snd p) + yoff) 0
      = rsOffset a 1 (of_nat (fst q) + xoff) (of_nat (snd q) + yoff) 0"
    obtain i j k l where "p = (i, j)" "q = (k, l)" by fastforce
    then show "p = q" using rsOffset_apart[OF fits, of i j k l] pq by fastforce
  qed
  have d: "distinct (map fst (map ?c ?P))"
    using inj by (simp add: distinct_map distinct_product comp_def split_def)
  have e: "map (\<lambda>(i, j). (rsOffset a 1 (of_nat j + xoff) (of_nat i + yoff) 0, f j i)) ?P = map ?c (map prod.swap ?P)"
    by auto
  have "mset (map prod.swap ?P) = mset ?P"
    by (subst set_eq_iff_mset_eq_distinct[symmetric]) (auto simp: distinct_map distinct_product)
  then have "mset (map (\<lambda>(i, j). (rsOffset a 1 (of_nat j + xoff) (of_nat i + yoff) 0, f j i)) ?P) = mset (map ?c ?P)"
    unfolding e mset_map[of ?c] by (rule arg_cong)
  from pix_fold_perm[OF d this] show ?thesis
    by (simp add: for_upto_nested fold_pix_data)
qed

section \<open>Typed elements\<close>

text \<open>The contract of typed access to elements of \<open>e\<close> bytes.\<close>

locale elem_store =
  fixes get :: "rtalloc \<Rightarrow> u32 \<Rightarrow> u32 \<Rightarrow> 'v option"
    and put :: "rtalloc \<Rightarrow> 'v \<Rightarrow> u32 \<Rightarrow> u32 \<Rightarrow> rtalloc option"
    and e :: nat
  assumes get_put: "put a v x y = Some a' \<Longrightarrow> get a' x y = Some v"
    and get_put_apart: "put a v x y = Some a' \<Longrightarrow>
      rsOffset a (of_nat e) x y 0 + e \<le> rsOffset a (of_nat e) x' y' 0
        \<or> rsOffset a (of_nat e) x' y' 0 + e \<le> rsOffset a (of_nat e) x y 0 \<Longrightarrow>
      get a' x' y' = get a x' y'"
    and put_data: "put a v x y = Some a' \<Longrightarrow> \<exists>m. a' = set_data a m"
    and put_defined: "get a x y = Some w \<Longrightarrow> \<exists>a'. put a v x y = Some a'"
begin

lemma put_list:
  assumes "fold (\<lambda>(i, j) s. Option.bind s (\<lambda>a. put a (f i j) (of_nat i + xoff) (of_nat j + yoff))) ijs (Some a) = Some a'"
    and "block_fits n e a xoff yoff" and "distinct ijs" and "set ijs \<subseteq> {0..<n} \<times> {0..<n}"
  shows "(\<forall>i j. (i, j) \<in> set ijs \<longrightarrow> get a' (of_nat i + xoff) (of_nat j + yoff) = Some (f i j))
    \<and> (\<exists>m. a' = set_data a m)"
  using assms
proof (induction ijs arbitrary: a' rule: rev_induct)
  case Nil
  then show ?case by (auto intro: exI[of _ "lodData (raLod a 0)"])
next
  case (snoc ij ijs)
  obtain i j where ij: "ij = (i, j)" by fastforce
  from snoc.prems(1) obtain a1 where a1: "fold (\<lambda>(i, j) s. Option.bind s (\<lambda>a. put a (f i j) (of_nat i + xoff)
      (of_nat j + yoff))) ijs (Some a) = Some a1" and w: "put a1 (f i j) (of_nat i + xoff) (of_nat j + yoff) = Some a'"
    by (auto simp: ij bind_Some_iff)
  have IH: "\<forall>k l. (k, l) \<in> set ijs \<longrightarrow> get a1 (of_nat k + xoff) (of_nat l + yoff) = Some (f k l)"
    "\<exists>m. a1 = set_data a m"
    using snoc.IH[OF a1 snoc.prems(2)] snoc.prems(3,4) by simp_all
  then have fits: "block_fits n e a1 xoff yoff" using snoc.prems(2) by auto
  have "get a' (of_nat k + xoff) (of_nat l + yoff) = Some (f k l)" if "(k, l) \<in> set (ijs @ [ij])" for k l
  proof (cases "(k, l) = (i, j)")
    case True
    then show ?thesis using get_put[OF w] by simp
  next
    case False
    then have kl: "(k, l) \<in> set ijs" using that by (auto simp: ij)
    have "i < n" "j < n" "k < n" "l < n" using snoc.prems(4) kl by (auto simp: ij)
    then have "get a' (of_nat k + xoff) (of_nat l + yoff) = get a1 (of_nat k + xoff) (of_nat l + yoff)"
      using rsOffset_apart[OF fits, of i j k l] False by (intro get_put_apart[OF w]) auto
    then show ?thesis using IH(1) kl by simp
  qed
  moreover have "\<exists>m. a' = set_data a m" using put_data[OF w] IH(2) by auto
  ultimately show ?case by blast
qed

text \<open>A block that was written element by element holds what was written.\<close>

lemma block_written:
  assumes w: "for_upto 0 n (\<lambda>i. for_upto 0 n (\<lambda>j a. put a (f i j) (of_nat i + xoff) (of_nat j + yoff))) a = Some a'"
    and fits: "block_fits n e a xoff yoff"
  shows "i < n \<Longrightarrow> j < n \<Longrightarrow> get a' (of_nat i + xoff) (of_nat j + yoff) = Some (f i j)"
    and "\<exists>m. a' = set_data a m"
  using put_list[OF w[unfolded for_upto_nested] fits] by (auto simp: distinct_product)

text \<open>A block that can be read can be written.\<close>

lemma put_list_some:
  assumes "\<And>i j. i < n \<Longrightarrow> j < n \<Longrightarrow> \<exists>v. get a (of_nat i + xoff) (of_nat j + yoff) = Some v"
    and "block_fits n e a xoff yoff" and "distinct ijs" and "set ijs \<subseteq> {0..<n} \<times> {0..<n}"
  shows "\<exists>a'. fold (\<lambda>(i, j) s. Option.bind s (\<lambda>a. put a (f i j) (of_nat i + xoff) (of_nat j + yoff))) ijs (Some a) = Some a'
    \<and> (\<forall>i j. i < n \<and> j < n \<and> (i, j) \<notin> set ijs \<longrightarrow>
        get a' (of_nat i + xoff) (of_nat j + yoff) = get a (of_nat i + xoff) (of_nat j + yoff))"
  using assms(3,4)
proof (induction ijs rule: rev_induct)
  case Nil
  then show ?case by simp
next
  case (snoc ij ijs)
  obtain i j where ij: "ij = (i, j)" by fastforce
  have lt: "i < n" "j < n" "(i, j) \<notin> set ijs" using snoc.prems by (auto simp: ij)
  from snoc obtain a1 where a1: "fold (\<lambda>(i, j) s. Option.bind s (\<lambda>a. put a (f i j) (of_nat i + xoff)
      (of_nat j + yoff))) ijs (Some a) = Some a1"
    and keep: "\<forall>k l. k < n \<and> l < n \<and> (k, l) \<notin> set ijs \<longrightarrow>
      get a1 (of_nat k + xoff) (of_nat l + yoff) = get a (of_nat k + xoff) (of_nat l + yoff)" by auto
  have "\<exists>m. a1 = set_data a m" using put_list[OF a1 assms(2)] snoc.prems by simp
  then have fits: "block_fits n e a1 xoff yoff" using assms(2) by auto
  obtain v where "get a1 (of_nat i + xoff) (of_nat j + yoff) = Some v" using keep assms(1) lt by metis
  then obtain a' where a': "put a1 (f i j) (of_nat i + xoff) (of_nat j + yoff) = Some a'"
    using put_defined by metis
  have "get a' (of_nat k + xoff) (of_nat l + yoff) = get a (of_nat k + xoff) (of_nat l + yoff)"
    if "k < n" "l < n" "(k, l) \<notin> set (ijs @ [ij])" for k l
  proof -
    have "(k, l) \<noteq> (i, j)" "(k, l) \<notin> set ijs" using that by (auto simp: ij)
    then have "get a' (of_nat k + xoff) (of_nat l + yoff) = get a1 (of_nat k + xoff) (of_nat l + yoff)"
      using rsOffset_apart[OF fits, of i j k l] that lt by (intro get_put_apart[OF a']) auto
    then show ?thesis using keep that \<open>(k, l) \<notin> set ijs\<close> by simp
  qed
  then show ?case using a1 a' by (auto simp: ij)
qed

lemma block_writable:
  assumes "\<And>i j. i < n \<Longrightarrow> j < n \<Longrightarrow> \<exists>v. get a (of_nat i + xoff) (of_nat j + yoff) = Some v"
    and "block_fits n e a xoff yoff"
  shows "\<exists>a'. for_upto 0 n (\<lambda>i. for_upto 0 n (\<lambda>j a. put a (f i j) (of_nat i + xoff) (of_nat j + yoff))) a = Some a'"
  unfolding for_upto_nested
  using put_list_some[of n a xoff yoff "List.product [0..<0 + n] [0..<0 + n]" f, OF assms] by (auto simp: distinct_product)

end

interpretation short_store: elem_store rsGetElementAt_short rsSetElementAt_short 2
proof
  fix a a' and v w :: i16 and x y x' y'
  {
    assume "rsGetElementAt_short a x y = Some w"
    then have "rsOffset a 2 x y 0 + 2 \<le> length (lodData (raLod a 0))"
      by (auto simp: rsGetElementAt_short_def rsGetElementAtImpl_short_def mem_read_def mem_get_def bind_Some_iff split: if_splits)
    then show "\<exists>a'. rsSetElementAt_short a v x y = Some a'"
      by (auto simp: rsSetElementAt_short_def rsSetElementAtImpl_short_def mem_write_def mem_put_def)
  }
  assume w: "rsSetElementAt_short a v x y = Some a'"
  let ?bs = "[ucast (v AND 0xff), ucast (drop_bit 8 v)] :: u8 list"
  from w obtain m where m: "mem_write (lodData (raLod a 0)) (rsOffset a 2 x y 0) ?bs = Some m" "a' = set_data a m"
    by (auto simp: rsSetElementAt_short_def rsSetElementAtImpl_short_def)
  then show "\<exists>m. a' = set_data a m" by blast
  have "mem_read m (rsOffset a 2 x y 0) 2 = Some ?bs"
    using mem_read_write_same[OF m(1)] by (simp add: numeral_2_eq_2)
  then show "rsGetElementAt_short a' x y = Some v"
    by (simp add: rsGetElementAt_short_def rsGetElementAtImpl_short_def m(2) le16_split)
  assume "rsOffset a (of_nat 2) x y 0 + 2 \<le> rsOffset a (of_nat 2) x' y' 0
    \<or> rsOffset a (of_nat 2) x' y' 0 + 2 \<le> rsOffset a (of_nat 2) x y 0"
  then have "mem_get m (rsOffset a 2 x' y' 0) 2 = mem_get (lodData (raLod a 0)) (rsOffset a 2 x' y' 0) 2"
    using m(1) unfolding mem_write_def by (intro mem_get_put_disjoint) auto
  then show "rsGetElementAt_short a' x' y' = rsGetElementAt_short a x' y'"
    by (simp add: rsGetElementAt_short_def rsGetElementAtImpl_short_def m(2) mem_read_def)
qed

interpretation uchar_store: elem_store rsGetElementAt_uchar rsSetElementAt_uchar 1
proof
  fix a a' and v w :: u8 and x y x' y'
  {
    assume "rsGetElementAt_uchar a x y = Some w"
    then have "rsOffset a 1 x y 0 + 1 \<le> length (lodData (raLod a 0))"
      by (auto simp: rsGetElementAt_uchar_def rsGetElementAtImpl_uchar_def mem_read_def mem_get_def bind_Some_iff split: if_splits)
    then show "\<exists>a'. rsSetElementAt_uchar a v x y = Some a'"
      by (auto simp: rsSetElementAt_uchar_def rsSetElementAtImpl_uchar_def mem_write_def mem_put_def)
  }
  assume w: "rsSetElementAt_uchar a v x y = Some a'"
  from w obtain m where m: "mem_write (lodData (raLod a 0)) (rsOffset a 1 x y 0) [v] = Some m" "a' = set_data a m"
    by (auto simp: rsSetElementAt_uchar_def rsSetElementAtImpl_uchar_def)
  then show "\<exists>m. a' = set_data a m" by blast
  have "mem_read m (rsOffset a 1 x y 0) 1 = Some [v]"
    using mem_read_write_same[OF m(1)] by simp
  then show "rsGetElementAt_uchar a' x y = Some v"
    by (simp add: rsGetElementAt_uchar_def rsGetElementAtImpl_uchar_def m(2))
  assume "rsOffset a (of_nat 1) x y 0 + 1 \<le> rsOffset a (of_nat 1) x' y' 0
    \<or> rsOffset a (of_nat 1) x' y' 0 + 1 \<le> rsOffset a (of_nat 1) x y 0"
  then have "mem_get m (rsOffset a 1 x' y' 0) 1 = mem_get (lodData (raLod a 0)) (rsOffset a 1 x' y' 0) 1"
    using m(1) unfolding mem_write_def by (intro mem_get_put_disjoint) auto
  then show "rsGetElementAt_uchar a' x' y' = rsGetElementAt_uchar a x' y'"
    by (simp add: rsGetElementAt_uchar_def rsGetElementAtImpl_uchar_def m(2) mem_read_def)
qed

lemma read_block_nth:
  assumes "read_block n a xoff yoff = Some b" and "i < n" and "j < n"
  shows "rsGetElementAt_short a (of_nat i + xoff) (of_nat j + yoff) = Some (b ! (i + j * n))"
proof -
  have k: "i + j * n < n * n"
  proof -
    have "j * n + n \<le> n * n" using assms(3) by (metis Suc_leI add.commute mult_Suc mult_le_mono1)
    then show ?thesis using assms(2) by linarith
  qed
  have "map (\<lambda>k. rsGetElementAt_short a (of_nat (k mod n) + xoff) (of_nat (k div n) + yoff)) [0..<n * n] = map Some b"
    using assms(1) by (simp add: read_block_def those_Some_iff)
  then have "map (\<lambda>k. rsGetElementAt_short a (of_nat (k mod n) + xoff) (of_nat (k div n) + yoff)) [0..<n * n] ! (i + j * n)
      = map Some b ! (i + j * n)" by (rule arg_cong)
  moreover have "length b = n * n" using assms(1) by (auto simp: read_block_def those_Some_iff dest: map_eq_imp_length_eq)
  ultimately show ?thesis using k assms(2) by simp
qed

lemma read_block_length: "read_block n a xoff yoff = Some b \<Longrightarrow> length b = n * n"
  by (auto simp: read_block_def those_Some_iff dest: map_eq_imp_length_eq)

lemma read_block_written:
  assumes "for_upto 0 n (\<lambda>i. for_upto 0 n (\<lambda>j a. rsSetElementAt_short a (b ! (i + j * n)) (of_nat i + xoff)
      (of_nat j + yoff))) a = Some a'"
    and "block_fits n 2 a xoff yoff" and "length b = n * n"
  shows "read_block n a' xoff yoff = Some b"
proof -
  have "rsGetElementAt_short a' (of_nat (k mod n) + xoff) (of_nat (k div n) + yoff) = Some (b ! k)" if "k < n * n" for k
  proof -
    have "0 < n" using that by (cases n) auto
    then have "k mod n < n" "k div n < n" using that by (simp_all add: less_mult_imp_div_less)
    from short_store.block_written(1)[OF assms(1,2) this] show ?thesis by (simp add: add.commute)
  qed
  then have "map (\<lambda>k. rsGetElementAt_short a' (of_nat (k mod n) + xoff) (of_nat (k div n) + yoff)) [0..<n * n]
      = map Some b"
    using assms(3) by (intro nth_equalityI) auto
  then show ?thesis by (simp add: read_block_def)
qed

end
