(* ===== verification/Rs_DrvAllocation.thy ===== *)
theory Rs_DrvAllocation
  imports Rs_Memory Rs_Type Rs_Runtime
begin

unbundle bit_operations_syntax

text \<open>
  Allocations in the reference driver (\<open>driver/rsdAllocation.cpp\<close>): the table of level pointers,
  strides and dimensions, reads and writes of rectangles, copies between allocations, fields
  of single elements, mipmaps, creation, destruction and resizing. The model is the build with
  \<open>RS_COMPATIBILITY_LIB\<close>, in which the driver makes no OpenGL calls and has no surfaces.

  The type of an allocation is kept as a value: types do not change after \<open>compute\<close>. The counting
  of object references inside cells is done by the functions of \<open>refenv\<close>, which are \<open>incSysRef\<close>
  and \<open>decSysRef\<close> in a context.
\<close>

section \<open>Data\<close>

datatype RsError =
    RS_ERROR_NONE | RS_ERROR_BAD_SHADER | RS_ERROR_BAD_SCRIPT | RS_ERROR_BAD_VALUE | RS_ERROR_OUT_OF_MEMORY
  | RS_ERROR_DRIVER | RS_ERROR_FATAL_DEBUG | RS_ERROR_FATAL_UNKNOWN | RS_ERROR_FATAL_DRIVER
  | RS_ERROR_FATAL_PROGRAM_LINK

datatype RsAllocationMipmapControl =
  RS_ALLOCATION_MIPMAP_NONE | RS_ALLOCATION_MIPMAP_FULL | RS_ALLOCATION_MIPMAP_ON_SYNC_TO_TEXTURE

definition RS_ALLOCATION_USAGE_SCRIPT :: u32 where
  "RS_ALLOCATION_USAGE_SCRIPT = 0x0001"
definition RS_ALLOCATION_USAGE_GRAPHICS_TEXTURE :: u32 where
  "RS_ALLOCATION_USAGE_GRAPHICS_TEXTURE = 0x0002"
definition RS_ALLOCATION_USAGE_GRAPHICS_RENDER_TARGET :: u32 where
  "RS_ALLOCATION_USAGE_GRAPHICS_RENDER_TARGET = 0x0010"
definition RS_ALLOCATION_USAGE_IO_INPUT :: u32 where
  "RS_ALLOCATION_USAGE_IO_INPUT = 0x0020"
definition RS_ALLOCATION_USAGE_IO_OUTPUT :: u32 where
  "RS_ALLOCATION_USAGE_IO_OUTPUT = 0x0040"
definition RS_ALLOCATION_USAGE_SHARED :: u32 where
  "RS_ALLOCATION_USAGE_SHARED = 0x0080"

definition HAL_PIXEL_FORMAT_YV12 :: u32 where
  "HAL_PIXEL_FORMAT_YV12 = 0x32315659"

definition MAX_LOD :: nat where
  "MAX_LOD = 16"

record drvlod =
  lMallocPtr :: hptr
  lStride :: u64
  lDimX :: u32
  lDimY :: u32
  lDimZ :: u32

record drvstate =
  dsLod :: "drvlod list"
  dsFaceOffset :: u64
  dsLodCount :: u32
  dsFaceCount :: u32
  dsYuvShift :: u32
  dsYuvStep :: u32

record drvalloc =
  useUserProvidedPtr :: bool
  uploadDeferred :: bool

record allocation =
  aType :: rstype
  aTypeOb :: "nat option"
  aUsageFlags :: u32
  aMipmapControl :: RsAllocationMipmapControl
  aYuv :: u32
  aElementSizeBytes :: u32
  aHasMipmaps :: bool
  aHasFaces :: bool
  aHasReferences :: bool
  aUserProvidedPtr :: hptr
  aDrvState :: drvstate
  aDrv :: "drvalloc option"

record 's refenv =
  reElem :: elem_env
  reInc :: "nat \<Rightarrow> 's \<Rightarrow> 's option"
  reDec :: "nat \<Rightarrow> 's \<Rightarrow> 's option"
  reFuel :: nat

record 's drvst =
  dHeap :: heap
  dRefs :: 's
  dErrors :: "RsError list"

definition has_usage :: "allocation \<Rightarrow> u32 \<Rightarrow> bool" where
  "has_usage a f \<longleftrightarrow> aUsageFlags a AND f \<noteq> 0"

definition getIsScript :: "allocation \<Rightarrow> bool" where
  "getIsScript a = has_usage a RS_ALLOCATION_USAGE_SCRIPT"

definition getIsRenderTarget :: "allocation \<Rightarrow> bool" where
  "getIsRenderTarget a = has_usage a RS_ALLOCATION_USAGE_GRAPHICS_RENDER_TARGET"

definition setError :: "RsError \<Rightarrow> 's drvst \<Rightarrow> 's drvst" where
  "setError e s = s\<lparr>dErrors := dErrors s @ [e]\<rparr>"

section \<open>The pointer table\<close>

definition lod_at :: "drvstate \<Rightarrow> nat \<Rightarrow> drvlod option" where
  "lod_at d i = (if i < length (dsLod d) then Some (dsLod d ! i) else None)"

definition lod_upd :: "nat \<Rightarrow> (drvlod \<Rightarrow> drvlod) \<Rightarrow> drvstate \<Rightarrow> drvstate option" where
  "lod_upd i f d =
     (if i < length (dsLod d) then Some (d\<lparr>dsLod := (dsLod d)[i := f (dsLod d ! i)]\<rparr>) else None)"

text \<open>\<open>xoff * elementSizeBytes\<close> and \<open>zoff * dimY\<close> are products of \<open>uint32_t\<close>.\<close>

definition GetOffsetPtr ::
    "allocation \<Rightarrow> u32 \<Rightarrow> u32 \<Rightarrow> u32 \<Rightarrow> nat \<Rightarrow> u32 \<Rightarrow> hptr option" where
  "GetOffsetPtr a xoff yoff zoff lod face =
     do { l \<leftarrow> lod_at (aDrvState a) lod;
          let p = ptr_add (lMallocPtr l) (ucast face * dsFaceOffset (aDrvState a));
          let p = ptr_add p (ucast (zoff * lDimY l) * lStride l);
          let p = ptr_add p (ucast yoff * lStride l);
          Some (ptr_add p (ucast (xoff * aElementSizeBytes a))) }"

text \<open>The planes of a YUV image; the result is the size of the two smaller ones.\<close>

definition DeriveYUVLayout :: "u32 \<Rightarrow> drvstate \<Rightarrow> (u64 \<times> drvstate) option" where
  "DeriveYUVLayout yuv d =
     do { l0 \<leftarrow> lod_at d 0;
          d \<leftarrow> lod_upd 1 (\<lambda>l. l\<lparr>lDimX := lDimX l0 div 2, lDimY := lDimY l0 div 2\<rparr>) d;
          d \<leftarrow> lod_upd 2 (\<lambda>l. l\<lparr>lDimX := lDimX l0 div 2, lDimY := lDimY l0 div 2\<rparr>) d;
          let d = d\<lparr>dsYuvShift := 1, dsYuvStep := 1, dsLodCount := 3\<rparr>;
          if yuv = HAL_PIXEL_FORMAT_YV12
          then do { d \<leftarrow> lod_upd 2 (\<lambda>l. l\<lparr>lStride := rsRound (drop_bit 1 (lStride l0)) 16,
                       lMallocPtr := ptr_add (lMallocPtr l0) (lStride l0 * ucast (lDimY l0))\<rparr>) d;
                    l2 \<leftarrow> lod_at d 2;
                    d \<leftarrow> lod_upd 1 (\<lambda>l. l\<lparr>lStride := lStride l2,
                       lMallocPtr := ptr_add (lMallocPtr l2) (lStride l2 * ucast (lDimY l2))\<rparr>) d;
                    l1 \<leftarrow> lod_at d 1;
                    Some (lStride l2 * ucast (lDimY l2) + lStride l1 * ucast (lDimY l2), d) }
          else if yuv = HAL_PIXEL_FORMAT_YCrCb_420_SP
          then do { d \<leftarrow> lod_upd 1 (\<lambda>l. l\<lparr>lStride := lStride l0\<rparr>) d;
                    d \<leftarrow> lod_upd 2 (\<lambda>l. l\<lparr>lStride := lStride l0,
                       lMallocPtr := ptr_add (lMallocPtr l0) (lStride l0 * ucast (lDimY l0))\<rparr>) d;
                    l2 \<leftarrow> lod_at d 2;
                    d \<leftarrow> lod_upd 1 (\<lambda>l. l\<lparr>lMallocPtr := ptr_add (lMallocPtr l2) 1\<rparr>) d;
                    l1 \<leftarrow> lod_at d 1;
                    Some (lStride l1 * ucast (lDimY l1), d\<lparr>dsYuvStep := 2\<rparr>) }
          else Some (0, d) }"

text \<open>The loop over the mipmap levels: \<open>n\<close> levels from \<open>lod\<close> on, \<open>o\<close> the next free offset.\<close>

fun mip_table ::
    "nat \<Rightarrow> nat \<Rightarrow> u64 \<Rightarrow> u32 \<Rightarrow> u32 \<Rightarrow> u32 \<Rightarrow> u64 \<Rightarrow> u64 list \<Rightarrow> drvstate \<Rightarrow>
     (u64 \<times> u64 list \<times> drvstate) option" where
  "mip_table 0 lod eSize tx ty tz off offsets d = Some (off, offsets, d)"
| "mip_table (Suc n) lod eSize tx ty tz off offsets d =
     do { d1 \<leftarrow> lod_upd lod (\<lambda>l. l\<lparr>lDimX := tx, lDimY := ty, lDimZ := tz,
                  lStride := rsRound (ucast tx * eSize) 16\<rparr>) d;
          l \<leftarrow> lod_at d1 lod;
          mip_table n (lod + 1) eSize (lod_half tx) (lod_half ty) (lod_half tz)
            (off + lStride l * ucast (rsMax ty 1) * ucast (rsMax tz 1)) (offsets[lod := off]) d1 }"

text \<open>\<open>offsets[ct] = (size_t)lod[ct].mallocPtr\<close>, and \<open>lod[ct].mallocPtr = ptr + offsets[ct]\<close>, for
  \<open>n\<close> levels from \<open>ct\<close> on.\<close>

fun plane_offsets :: "nat \<Rightarrow> nat \<Rightarrow> drvstate \<Rightarrow> u64 list \<Rightarrow> u64 list option" where
  "plane_offsets 0 ct d offsets = Some offsets"
| "plane_offsets (Suc n) ct d offsets =
     do { l \<leftarrow> lod_at d ct; v \<leftarrow> ptr_int (lMallocPtr l); plane_offsets n (ct + 1) d (offsets[ct := v]) }"

fun set_level_ptrs :: "nat \<Rightarrow> nat \<Rightarrow> hptr \<Rightarrow> u64 list \<Rightarrow> drvstate \<Rightarrow> drvstate option" where
  "set_level_ptrs 0 ct p offsets d = Some d"
| "set_level_ptrs (Suc n) ct p offsets d =
     do { d1 \<leftarrow> lod_upd ct (\<lambda>l. l\<lparr>lMallocPtr := ptr_add p (offsets ! ct)\<rparr>) d;
          set_level_ptrs n (ct + 1) p offsets d1 }"

definition AllocationBuildPointerTable ::
    "elem_env \<Rightarrow> allocation \<Rightarrow> rstype \<Rightarrow> hptr \<Rightarrow> (u64 \<times> allocation) option" where
  "AllocationBuildPointerTable E a t p =
     do { eSize \<leftarrow> getElementSizeBytes E t;
          d \<leftarrow> lod_upd 0 (\<lambda>l. l\<lparr>lDimX := tDimX t, lDimY := tDimY t, lDimZ := tDimZ t,
                 lMallocPtr := nullp, lStride := rsRound (ucast (tDimX t) * eSize) 16\<rparr>) (aDrvState a);
          let d = d\<lparr>dsLodCount := tLodCount t, dsFaceCount := (if tFaces t then 1 else 0)\<rparr>;
          let offsets = replicate MAX_LOD 0;
          l0 \<leftarrow> lod_at d 0;
          let off = lStride l0 * ucast (rsMax (lDimY l0) 1) * ucast (rsMax (lDimZ l0) 1);
          (off, offsets, d) \<leftarrow>
            (if 1 < dsLodCount d
             then mip_table (unat (dsLodCount d) - 1) 1 eSize (lDimX l0) (lDimY l0) (lDimZ l0) off offsets d
             else if aYuv a \<noteq> 0
             then do { (uvSize, d) \<leftarrow> DeriveYUVLayout (aYuv a) d;
                       offsets \<leftarrow> plane_offsets (unat (dsLodCount d) - 1) 1 d offsets;
                       Some (off + uvSize, offsets, d) }
             else Some (off, offsets, d));
          let d = d\<lparr>dsFaceOffset := off\<rparr>;
          d \<leftarrow> lod_upd 0 (\<lambda>l. l\<lparr>lMallocPtr := p\<rparr>) d;
          d \<leftarrow> set_level_ptrs (unat (dsLodCount d) - 1) 1 p offsets d;
          Some (if dsFaceCount d \<noteq> 0 then dsFaceOffset d * 6 else dsFaceOffset d, a\<lparr>aDrvState := d\<rparr>) }"

section \<open>Reads and writes of the driver\<close>

text \<open>The object references in \<open>ct\<close> cells at a pointer.\<close>

definition Allocation_incRefs ::
    "'s refenv \<Rightarrow> allocation \<Rightarrow> hptr \<Rightarrow> u64 \<Rightarrow> u64 \<Rightarrow> 's drvst \<Rightarrow> 's drvst option" where
  "Allocation_incRefs R a p ct startOff s =
     do { m \<leftarrow> h_block (dHeap s) p;
          r \<leftarrow> Type_incRefs (reElem R) m (reInc R) (reFuel R) (aType a) (unat (snd p)) ct startOff (dRefs s);
          Some (s\<lparr>dRefs := r\<rparr>) }"

definition Allocation_decRefs ::
    "'s refenv \<Rightarrow> allocation \<Rightarrow> hptr \<Rightarrow> u64 \<Rightarrow> u64 \<Rightarrow> 's drvst \<Rightarrow> 's drvst option" where
  "Allocation_decRefs R a p ct startOff s =
     (if \<not> aHasReferences a \<or> \<not> getIsScript a then Some s
      else do { m \<leftarrow> h_block (dHeap s) p;
                r \<leftarrow> Type_decRefs (reElem R) m (reDec R) (reFuel R) (aType a) (unat (snd p)) ct startOff (dRefs s);
                Some (s\<lparr>dRefs := r\<rparr>) })"

definition replace_refs ::
    "'s refenv \<Rightarrow> allocation \<Rightarrow> hptr \<Rightarrow> hptr \<Rightarrow> u64 \<Rightarrow> 's drvst \<Rightarrow> 's drvst option" where
  "replace_refs R a dst src ct s =
     (if aHasReferences a
      then do { s1 \<leftarrow> Allocation_incRefs R a src ct 0 s; Allocation_decRefs R a dst ct 0 s1 }
      else Some s)"

definition st_memcpy :: "hptr \<Rightarrow> hptr \<Rightarrow> u64 \<Rightarrow> 's drvst \<Rightarrow> 's drvst option" where
  "st_memcpy dst src n s = do { h \<leftarrow> h_memcpy (dHeap s) dst src (unat n); Some (s\<lparr>dHeap := h\<rparr>) }"

definition set_uploadDeferred :: "allocation \<Rightarrow> allocation option" where
  "set_uploadDeferred a = do { d \<leftarrow> aDrv a; Some (a\<lparr>aDrv := Some (d\<lparr>uploadDeferred := True\<rparr>)\<rparr>) }"

text \<open>\<open>p = nullp\<close> is the test of a pointer for null.\<close>

definition rsdAllocationData1D ::
    "'s refenv \<Rightarrow> allocation \<Rightarrow> u32 \<Rightarrow> u32 \<Rightarrow> u64 \<Rightarrow> hptr \<Rightarrow> u64 \<Rightarrow> 's drvst \<Rightarrow>
     (allocation \<times> 's drvst) option" where
  "rsdAllocationData1D R a xoff lod cnt data sizeBytes s =
     do { eSize \<leftarrow> getElementSizeBytes (reElem R) (aType a);
          p \<leftarrow> GetOffsetPtr a xoff 0 0 0 0;
          let size = cnt * eSize;
          s1 \<leftarrow> (if p \<noteq> data
                 then do { s \<leftarrow> replace_refs R a p data cnt s; st_memcpy p data size s }
                 else Some s);
          a1 \<leftarrow> set_uploadDeferred a;
          Some (a1, s1) }"

text \<open>\<open>n\<close> rounds of the loop over the lines of a rectangle; \<open>copy_rows\<close> is the loop of the reads
  and of the chroma planes, which do not look at references.\<close>

fun write_rows ::
    "'s refenv \<Rightarrow> allocation \<Rightarrow> nat \<Rightarrow> u32 \<Rightarrow> u64 \<Rightarrow> hptr \<Rightarrow> u64 \<Rightarrow> hptr \<Rightarrow> u64 \<Rightarrow> 's drvst \<Rightarrow>
     (hptr \<times> 's drvst) option" where
  "write_rows R a 0 w lineSize dst dstStride src srcStride s = Some (src, s)"
| "write_rows R a (Suc n) w lineSize dst dstStride src srcStride s =
     do { s1 \<leftarrow> replace_refs R a dst src (ucast w) s;
          s2 \<leftarrow> st_memcpy dst src lineSize s1;
          write_rows R a n w lineSize (ptr_add dst dstStride) dstStride (ptr_add src srcStride) srcStride s2 }"

fun copy_rows ::
    "nat \<Rightarrow> u64 \<Rightarrow> hptr \<Rightarrow> u64 \<Rightarrow> hptr \<Rightarrow> u64 \<Rightarrow> 's drvst \<Rightarrow> (hptr \<times> hptr \<times> 's drvst) option" where
  "copy_rows 0 lineSize dst dstStride src srcStride s = Some (dst, src, s)"
| "copy_rows (Suc n) lineSize dst dstStride src srcStride s =
     do { s1 \<leftarrow> st_memcpy dst src lineSize s;
          copy_rows n lineSize (ptr_add dst dstStride) dstStride (ptr_add src srcStride) srcStride s1 }"

text \<open>The chroma planes \<open>lod\<close> to \<open>maxLod - 1\<close> of an image with \<open>yuv\<close> set.\<close>

fun write_planes ::
    "allocation \<Rightarrow> u32 \<Rightarrow> u32 \<Rightarrow> u32 \<Rightarrow> u32 \<Rightarrow> u64 \<Rightarrow> nat list \<Rightarrow> hptr \<Rightarrow> 's drvst \<Rightarrow> 's drvst option" where
  "write_planes a xoff yoff face h clineSize [] src s = Some s"
| "write_planes a xoff yoff face h clineSize (lod # lods) src s =
     do { dst \<leftarrow> GetOffsetPtr a xoff yoff 0 lod face;
          l \<leftarrow> lod_at (aDrvState a) lod;
          (dst', src', s1) \<leftarrow> copy_rows (unat (drop_bit 1 (yoff + h)) - unat (drop_bit 1 yoff)) clineSize
                               dst (lStride l) src (lStride l) s;
          write_planes a xoff yoff face h clineSize lods src' s1 }"

definition yuv_planes :: "u32 \<Rightarrow> nat list" where
  "yuv_planes yuv =
     (if yuv = HAL_PIXEL_FORMAT_YV12 then [1, 2]
      else if yuv = HAL_PIXEL_FORMAT_YCrCb_420_SP then [2] else [1])"

definition rsdAllocationData2D ::
    "'s refenv \<Rightarrow> allocation \<Rightarrow> u32 \<Rightarrow> u32 \<Rightarrow> u32 \<Rightarrow> u32 \<Rightarrow> u32 \<Rightarrow> u32 \<Rightarrow> hptr \<Rightarrow> u64 \<Rightarrow> u64 \<Rightarrow> 's drvst \<Rightarrow>
     (allocation \<times> 's drvst) option" where
  "rsdAllocationData2D R a xoff yoff lod face w h data sizeBytes stride s =
     (let eSize = ucast (aElementSizeBytes a);
          lineSize = eSize * ucast w;
          stride = (if stride = 0 then lineSize else stride)
      in do { l0 \<leftarrow> lod_at (aDrvState a) 0;
              if lMallocPtr l0 \<noteq> nullp
              then do { dst \<leftarrow> GetOffsetPtr a xoff yoff 0 (unat lod) face;
                        l \<leftarrow> lod_at (aDrvState a) (unat lod);
                        a1 \<leftarrow> set_uploadDeferred a;
                        if dst = data then Some (a1, s)
                        else do { (src, s1) \<leftarrow> write_rows R a (unat (yoff + h) - unat yoff) w lineSize
                                                 dst (lStride l) data stride s;
                                  s2 \<leftarrow> (if aYuv a \<noteq> 0
                                         then write_planes a xoff yoff face h
                                                (if aYuv a = HAL_PIXEL_FORMAT_YV12 then drop_bit 1 lineSize else lineSize)
                                                (yuv_planes (aYuv a)) src s1
                                         else Some s1);
                                  Some (a1, s2) } }
              else Some (a, s) })"

text \<open>The loop over the slices from \<open>zoff\<close> to \<open>d - 1\<close>; \<open>lineSize\<close> is computed in 32 bits. The
  result tells whether the loop was left early.\<close>

fun write_slices ::
    "'s refenv \<Rightarrow> allocation \<Rightarrow> u32 \<Rightarrow> u32 \<Rightarrow> nat \<Rightarrow> u32 \<Rightarrow> u32 \<Rightarrow> u64 \<Rightarrow> u64 \<Rightarrow> u32 list \<Rightarrow> hptr \<Rightarrow>
     's drvst \<Rightarrow> 's drvst option" where
  "write_slices R a xoff yoff lod w h lineSize stride [] src s = Some s"
| "write_slices R a xoff yoff lod w h lineSize stride (z # zs) src s =
     do { dst \<leftarrow> GetOffsetPtr a xoff yoff z lod 0;
          l \<leftarrow> lod_at (aDrvState a) lod;
          if dst = src then Some s
          else do { (src', s1) \<leftarrow> write_rows R a (unat (yoff + h) - unat yoff) w lineSize
                                    dst (lStride l) src stride s;
                    write_slices R a xoff yoff lod w h lineSize stride zs src' s1 } }"

definition u32_upto :: "u32 \<Rightarrow> u32 \<Rightarrow> u32 list" where
  "u32_upto lo hi = map of_nat [unat lo..<unat hi]"

definition rsdAllocationData3D ::
    "'s refenv \<Rightarrow> allocation \<Rightarrow> u32 \<Rightarrow> u32 \<Rightarrow> u32 \<Rightarrow> u32 \<Rightarrow> u32 \<Rightarrow> u32 \<Rightarrow> u32 \<Rightarrow> hptr \<Rightarrow> u64 \<Rightarrow> u64 \<Rightarrow> 's drvst \<Rightarrow>
     (allocation \<times> 's drvst) option" where
  "rsdAllocationData3D R a xoff yoff zoff lod w h d data sizeBytes stride s =
     (let lineSize = ucast (aElementSizeBytes a * w);
          stride = (if stride = 0 then lineSize else stride)
      in do { l0 \<leftarrow> lod_at (aDrvState a) 0;
              if lMallocPtr l0 \<noteq> nullp
              then do { s1 \<leftarrow> write_slices R a xoff yoff (unat lod) w h lineSize stride (u32_upto zoff d) data s;
                        a1 \<leftarrow> set_uploadDeferred a;
                        Some (a1, s1) }
              else Some (a, s) })"

definition rsdAllocationRead1D ::
    "'s refenv \<Rightarrow> allocation \<Rightarrow> u32 \<Rightarrow> u32 \<Rightarrow> u64 \<Rightarrow> hptr \<Rightarrow> u64 \<Rightarrow> 's drvst \<Rightarrow> 's drvst option" where
  "rsdAllocationRead1D R a xoff lod cnt data sizeBytes s =
     do { eSize \<leftarrow> getElementSizeBytes (reElem R) (aType a);
          p \<leftarrow> GetOffsetPtr a xoff 0 0 0 0;
          if data \<noteq> p then st_memcpy data p (cnt * eSize) s else Some s }"

definition rsdAllocationRead2D ::
    "allocation \<Rightarrow> u32 \<Rightarrow> u32 \<Rightarrow> u32 \<Rightarrow> u32 \<Rightarrow> u32 \<Rightarrow> u32 \<Rightarrow> hptr \<Rightarrow> u64 \<Rightarrow> u64 \<Rightarrow> 's drvst \<Rightarrow> 's drvst option" where
  "rsdAllocationRead2D a xoff yoff lod face w h data sizeBytes stride s =
     (let eSize = ucast (aElementSizeBytes a);
          lineSize = eSize * ucast w;
          stride = (if stride = 0 then lineSize else stride)
      in do { l0 \<leftarrow> lod_at (aDrvState a) 0;
              if lMallocPtr l0 \<noteq> nullp
              then do { src \<leftarrow> GetOffsetPtr a xoff yoff 0 (unat lod) face;
                        l \<leftarrow> lod_at (aDrvState a) (unat lod);
                        if data = src then Some s
                        else do { (dst', src', s1) \<leftarrow> copy_rows (unat (yoff + h) - unat yoff) lineSize
                                                       data stride src (lStride l) s;
                                  Some s1 } }
              else Some s })"

fun read_slices ::
    "allocation \<Rightarrow> u32 \<Rightarrow> u32 \<Rightarrow> nat \<Rightarrow> u32 \<Rightarrow> u64 \<Rightarrow> u64 \<Rightarrow> u32 list \<Rightarrow> hptr \<Rightarrow> 's drvst \<Rightarrow> 's drvst option" where
  "read_slices a xoff yoff lod h lineSize stride [] dst s = Some s"
| "read_slices a xoff yoff lod h lineSize stride (z # zs) dst s =
     do { src \<leftarrow> GetOffsetPtr a xoff yoff z lod 0;
          l \<leftarrow> lod_at (aDrvState a) lod;
          if dst = src then Some s
          else do { (dst', src', s1) \<leftarrow> copy_rows (unat (yoff + h) - unat yoff) lineSize
                                         dst stride src (lStride l) s;
                    read_slices a xoff yoff lod h lineSize stride zs dst' s1 } }"

definition rsdAllocationRead3D ::
    "allocation \<Rightarrow> u32 \<Rightarrow> u32 \<Rightarrow> u32 \<Rightarrow> u32 \<Rightarrow> u32 \<Rightarrow> u32 \<Rightarrow> u32 \<Rightarrow> hptr \<Rightarrow> u64 \<Rightarrow> u64 \<Rightarrow> 's drvst \<Rightarrow>
     's drvst option" where
  "rsdAllocationRead3D a xoff yoff zoff lod w h d data sizeBytes stride s =
     (let lineSize = ucast (aElementSizeBytes a * w);
          stride = (if stride = 0 then lineSize else stride)
      in do { l0 \<leftarrow> lod_at (aDrvState a) 0;
              if lMallocPtr l0 \<noteq> nullp
              then read_slices a xoff yoff (unat lod) h lineSize stride (u32_upto zoff d) data s
              else Some s })"

definition rsdAllocationLock1D :: "allocation \<Rightarrow> hptr option" where
  "rsdAllocationLock1D a = map_option lMallocPtr (lod_at (aDrvState a) 0)"

section \<open>Copies between allocations\<close>

text \<open>\<open>dstYoff + i\<close> wraps around; the size of a line is \<open>w * elementSize\<close> as a \<open>size_t\<close> in two
  dimensions and as a \<open>uint32_t\<close> in three.\<close>

definition Data2D_alloc_script ::
    "elem_env \<Rightarrow> allocation \<Rightarrow> u32 \<Rightarrow> u32 \<Rightarrow> u32 \<Rightarrow> u32 \<Rightarrow> u32 \<Rightarrow> u32 \<Rightarrow> allocation \<Rightarrow> u32 \<Rightarrow> u32 \<Rightarrow> u32 \<Rightarrow> u32 \<Rightarrow>
     's drvst \<Rightarrow> 's drvst option" where
  "Data2D_alloc_script E dst dstXoff dstYoff dstLod dstFace w h src srcXoff srcYoff srcLod srcFace s =
     do { elementSize \<leftarrow> getElementSizeBytes E (aType dst);
          for_upto 0 (unat h) (\<lambda>i s.
            do { dstPtr \<leftarrow> GetOffsetPtr dst dstXoff (dstYoff + of_nat i) 0 (unat dstLod) dstFace;
                 srcPtr \<leftarrow> GetOffsetPtr src srcXoff (srcYoff + of_nat i) 0 (unat srcLod) srcFace;
                 st_memcpy dstPtr srcPtr (ucast w * elementSize) s }) s }"

definition Data3D_alloc_script ::
    "elem_env \<Rightarrow> allocation \<Rightarrow> u32 \<Rightarrow> u32 \<Rightarrow> u32 \<Rightarrow> u32 \<Rightarrow> u32 \<Rightarrow> u32 \<Rightarrow> u32 \<Rightarrow> allocation \<Rightarrow> u32 \<Rightarrow> u32 \<Rightarrow> u32 \<Rightarrow> u32 \<Rightarrow>
     's drvst \<Rightarrow> 's drvst option" where
  "Data3D_alloc_script E dst dstXoff dstYoff dstZoff dstLod w h d src srcXoff srcYoff srcZoff srcLod s =
     do { n \<leftarrow> getElementSizeBytes E (aType dst);
          let elementSize = (ucast n :: u32);
          for_upto 0 (unat d) (\<lambda>j.
            for_upto 0 (unat h) (\<lambda>i s.
              do { dstPtr \<leftarrow> GetOffsetPtr dst dstXoff (dstYoff + of_nat i) (dstZoff + of_nat j) (unat dstLod) 0;
                   srcPtr \<leftarrow> GetOffsetPtr src srcXoff (srcYoff + of_nat i) (srcZoff + of_nat j) (unat srcLod) 0;
                   st_memcpy dstPtr srcPtr (ucast (w * elementSize)) s })) s }"

definition rsdAllocationData2D_alloc ::
    "elem_env \<Rightarrow> allocation \<Rightarrow> u32 \<Rightarrow> u32 \<Rightarrow> u32 \<Rightarrow> u32 \<Rightarrow> u32 \<Rightarrow> u32 \<Rightarrow> allocation \<Rightarrow> u32 \<Rightarrow> u32 \<Rightarrow> u32 \<Rightarrow> u32 \<Rightarrow>
     's drvst \<Rightarrow> 's drvst option" where
  "rsdAllocationData2D_alloc E dst dstXoff dstYoff dstLod dstFace w h src srcXoff srcYoff srcLod srcFace s =
     (if \<not> getIsScript dst \<and> \<not> getIsScript src then Some (setError RS_ERROR_FATAL_DRIVER s)
      else Data2D_alloc_script E dst dstXoff dstYoff dstLod dstFace w h src srcXoff srcYoff srcLod srcFace s)"

definition rsdAllocationData3D_alloc ::
    "elem_env \<Rightarrow> allocation \<Rightarrow> u32 \<Rightarrow> u32 \<Rightarrow> u32 \<Rightarrow> u32 \<Rightarrow> u32 \<Rightarrow> u32 \<Rightarrow> u32 \<Rightarrow> allocation \<Rightarrow> u32 \<Rightarrow> u32 \<Rightarrow> u32 \<Rightarrow> u32 \<Rightarrow>
     's drvst \<Rightarrow> 's drvst option" where
  "rsdAllocationData3D_alloc E dst dstXoff dstYoff dstZoff dstLod w h d src srcXoff srcYoff srcZoff srcLod s =
     (if \<not> getIsScript dst \<and> \<not> getIsScript src then Some (setError RS_ERROR_FATAL_DRIVER s)
      else Data3D_alloc_script E dst dstXoff dstYoff dstZoff dstLod w h d src srcXoff srcYoff srcZoff srcLod s)"

section \<open>Fields of one element\<close>

text \<open>The field \<open>cIdx\<close> of the element of a type, and the element of that field.\<close>

definition type_field :: "elem_env \<Rightarrow> rstype \<Rightarrow> u32 \<Rightarrow> (element \<times> element_field \<times> element) option" where
  "type_field E t cIdx =
     do { ob \<leftarrow> tElement t;
          e \<leftarrow> E ob;
          f \<leftarrow> field_at e (unat cIdx);
          sub \<leftarrow> E (fElem f);
          Some (e, f, sub) }"

text \<open>\<open>e->incRefs(data)\<close> and \<open>e->decRefs(ptr)\<close> for one cell of an element.\<close>

definition element_refs ::
    "(nat \<Rightarrow> 's \<Rightarrow> 's option) \<Rightarrow> 's refenv \<Rightarrow> element \<Rightarrow> hptr \<Rightarrow> 's drvst \<Rightarrow> 's drvst option" where
  "element_refs act R e p s =
     do { m \<leftarrow> h_block (dHeap s) p;
          r \<leftarrow> walkRefs (reElem R) m act (reFuel R) e (unat (snd p)) (dRefs s);
          Some (s\<lparr>dRefs := r\<rparr>) }"

definition rsdAllocationElementData2D ::
    "'s refenv \<Rightarrow> allocation \<Rightarrow> u32 \<Rightarrow> u32 \<Rightarrow> hptr \<Rightarrow> u32 \<Rightarrow> u64 \<Rightarrow> 's drvst \<Rightarrow> (allocation \<times> 's drvst) option" where
  "rsdAllocationElementData2D R a x y data cIdx sizeBytes s =
     do { p \<leftarrow> GetOffsetPtr a x y 0 0 0;
          (e, f, sub) \<leftarrow> type_field (reElem R) (aType a) cIdx;
          off \<leftarrow> getFieldOffsetBytes e cIdx;
          let p = ptr_add p off;
          s1 \<leftarrow> (if aHasReferences a
                 then do { s \<leftarrow> element_refs (reInc R) R sub data s; element_refs (reDec R) R sub p s }
                 else Some s);
          s2 \<leftarrow> st_memcpy p data sizeBytes s1;
          a1 \<leftarrow> set_uploadDeferred a;
          Some (a1, s2) }"

definition rsdAllocationElementData1D ::
    "'s refenv \<Rightarrow> allocation \<Rightarrow> u32 \<Rightarrow> hptr \<Rightarrow> u32 \<Rightarrow> u64 \<Rightarrow> 's drvst \<Rightarrow> (allocation \<times> 's drvst) option" where
  "rsdAllocationElementData1D R a x data cIdx sizeBytes s =
     do { p \<leftarrow> GetOffsetPtr a x 0 0 0 0;
          (e, f, sub) \<leftarrow> type_field (reElem R) (aType a) cIdx;
          off \<leftarrow> getFieldOffsetBytes e cIdx;
          let p = ptr_add p off;
          s1 \<leftarrow> (if aHasReferences a
                 then do { s \<leftarrow> element_refs (reInc R) R sub data s; element_refs (reDec R) R sub p s }
                 else Some s);
          s2 \<leftarrow> st_memcpy p data sizeBytes s1;
          a1 \<leftarrow> set_uploadDeferred a;
          Some (a1, s2) }"

section \<open>Mipmaps\<close>

definition load8 :: "heap \<Rightarrow> hptr \<Rightarrow> u8 option" where
  "load8 h p = do { bs \<leftarrow> h_get h p 1; hd bs }"

definition load16 :: "heap \<Rightarrow> hptr \<Rightarrow> u16 option" where
  "load16 h p = do { bs \<leftarrow> h_get h p 2; vs \<leftarrow> those bs; Some (le16 vs) }"

definition load32 :: "heap \<Rightarrow> hptr \<Rightarrow> u32 option" where
  "load32 h p = do { bs \<leftarrow> h_get h p 4; vs \<leftarrow> those bs; Some (le32 vs) }"

definition bytes16 :: "u16 \<Rightarrow> u8 list" where
  "bytes16 v = [ucast v, ucast (drop_bit 8 v)]"

definition bytes32 :: "u32 \<Rightarrow> u8 list" where
  "bytes32 v = [ucast v, ucast (drop_bit 8 v), ucast (drop_bit 16 v), ucast (drop_bit 24 v)]"

definition store_bytes :: "hptr \<Rightarrow> u8 list \<Rightarrow> 's drvst \<Rightarrow> 's drvst option" where
  "store_bytes p bs s = do { h \<leftarrow> h_put (dHeap s) p (map Some bs); Some (s\<lparr>dHeap := h\<rparr>) }"

text \<open>The inner loops. \<open>px\<close> reads the four pixels at \<open>i1[0]\<close>, \<open>i1[1]\<close>, \<open>i2[0]\<close>, \<open>i2[1]\<close> and makes
  the bytes of the new one; \<open>k\<close> is the size of a pixel.\<close>

fun mip_line ::
    "(heap \<Rightarrow> hptr \<Rightarrow> hptr \<Rightarrow> u8 list option) \<Rightarrow> u64 \<Rightarrow> nat \<Rightarrow> hptr \<Rightarrow> hptr \<Rightarrow> hptr \<Rightarrow> 's drvst \<Rightarrow> 's drvst option" where
  "mip_line px k 0 oPtr i1 i2 s = Some s"
| "mip_line px k (Suc n) oPtr i1 i2 s =
     do { bs \<leftarrow> px (dHeap s) i1 i2;
          s1 \<leftarrow> store_bytes oPtr bs s;
          mip_line px k n (ptr_add oPtr k) (ptr_add i1 (2 * k)) (ptr_add i2 (2 * k)) s1 }"

definition px565 :: "heap \<Rightarrow> hptr \<Rightarrow> hptr \<Rightarrow> u8 list option" where
  "px565 h i1 i2 =
     do { p1 \<leftarrow> load16 h i1; p2 \<leftarrow> load16 h (ptr_add i1 2); p3 \<leftarrow> load16 h i2; p4 \<leftarrow> load16 h (ptr_add i2 2);
          Some (bytes16 (rsBoxFilter565 p1 p2 p3 p4)) }"

definition px8888 :: "heap \<Rightarrow> hptr \<Rightarrow> hptr \<Rightarrow> u8 list option" where
  "px8888 h i1 i2 =
     do { p1 \<leftarrow> load32 h i1; p2 \<leftarrow> load32 h (ptr_add i1 4); p3 \<leftarrow> load32 h i2; p4 \<leftarrow> load32 h (ptr_add i2 4);
          Some (bytes32 (rsBoxFilter8888 p1 p2 p3 p4)) }"

text \<open>The sum is at most 1020, so its product with \<open>0.25f\<close> is exact and the conversion to
  \<open>uint8_t\<close> rounds it down.\<close>

definition px8 :: "heap \<Rightarrow> hptr \<Rightarrow> hptr \<Rightarrow> u8 list option" where
  "px8 h i1 i2 =
     do { p1 \<leftarrow> load8 h i1; p2 \<leftarrow> load8 h (ptr_add i1 1); p3 \<leftarrow> load8 h i2; p4 \<leftarrow> load8 h (ptr_add i2 1);
          Some [ucast ((ucast p1 + ucast p2 + ucast p3 + ucast p4 :: u32) div 4)] }"

text \<open>\<open>mip565\<close> passes \<open>y*2\<close> as the third coordinate, the other two as the second.\<close>

definition mip565 :: "allocation \<Rightarrow> nat \<Rightarrow> u32 \<Rightarrow> 's drvst \<Rightarrow> 's drvst option" where
  "mip565 a lod face s =
     do { l \<leftarrow> lod_at (aDrvState a) (lod + 1);
          for_upto 0 (unat (lDimY l)) (\<lambda>y s.
            do { oPtr \<leftarrow> GetOffsetPtr a 0 (of_nat y) 0 (lod + 1) face;
                 i1 \<leftarrow> GetOffsetPtr a 0 0 (of_nat y * 2) lod face;
                 i2 \<leftarrow> GetOffsetPtr a 0 0 (of_nat y * 2 + 1) lod face;
                 mip_line px565 2 (unat (lDimX l)) oPtr i1 i2 s }) s }"

definition mip8888 :: "allocation \<Rightarrow> nat \<Rightarrow> u32 \<Rightarrow> 's drvst \<Rightarrow> 's drvst option" where
  "mip8888 a lod face s =
     do { l \<leftarrow> lod_at (aDrvState a) (lod + 1);
          for_upto 0 (unat (lDimY l)) (\<lambda>y s.
            do { oPtr \<leftarrow> GetOffsetPtr a 0 (of_nat y) 0 (lod + 1) face;
                 i1 \<leftarrow> GetOffsetPtr a 0 (of_nat y * 2) 0 lod face;
                 i2 \<leftarrow> GetOffsetPtr a 0 (of_nat y * 2 + 1) 0 lod face;
                 mip_line px8888 4 (unat (lDimX l)) oPtr i1 i2 s }) s }"

definition mip8 :: "allocation \<Rightarrow> nat \<Rightarrow> u32 \<Rightarrow> 's drvst \<Rightarrow> 's drvst option" where
  "mip8 a lod face s =
     do { l \<leftarrow> lod_at (aDrvState a) (lod + 1);
          for_upto 0 (unat (lDimY l)) (\<lambda>y s.
            do { oPtr \<leftarrow> GetOffsetPtr a 0 (of_nat y) 0 (lod + 1) face;
                 i1 \<leftarrow> GetOffsetPtr a 0 (of_nat y * 2) 0 lod face;
                 i2 \<leftarrow> GetOffsetPtr a 0 (of_nat y * 2 + 1) 0 lod face;
                 mip_line px8 1 (unat (lDimX l)) oPtr i1 i2 s }) s }"

definition rsdAllocationGenerateMipmaps ::
    "elem_env \<Rightarrow> allocation \<Rightarrow> 's drvst \<Rightarrow> 's drvst option" where
  "rsdAllocationGenerateMipmaps E a s =
     do { l0 \<leftarrow> lod_at (aDrvState a) 0;
          if lMallocPtr l0 = nullp then Some s
          else for_upto 0 (if tFaces (aType a) then 6 else 1) (\<lambda>face.
                 for_upto 0 (unat (tLodCount (aType a) - 1)) (\<lambda>lod s.
                   do { ob \<leftarrow> tElement (aType a);
                        e \<leftarrow> E ob;
                        bits \<leftarrow> getSizeBits E e;
                        if bits = 32 then mip8888 a lod (of_nat face) s
                        else if bits = 16 then mip565 a lod (of_nat face) s
                        else if bits = 8 then mip8 a lod (of_nat face) s
                        else Some s })) s }"

section \<open>Creation, destruction and resizing in the driver\<close>

text \<open>\<open>avail n\<close> tells whether \<open>n\<close> bytes of memory can be had.\<close>

definition allocAlignedMemory ::
    "(nat \<Rightarrow> bool) \<Rightarrow> u64 \<Rightarrow> bool \<Rightarrow> 's drvst \<Rightarrow> (hptr \<times> 's drvst) option" where
  "allocAlignedMemory avail allocSize forceZero s =
     (if \<not> avail (unat allocSize) then Some (nullp, s)
      else let (p, h) = h_malloc (dHeap s) (unat allocSize)
           in if forceZero
              then do { h1 \<leftarrow> h_memset h p 0 (unat allocSize); Some (p, s\<lparr>dHeap := h1\<rparr>) }
              else Some (p, s\<lparr>dHeap := h\<rparr>))"

definition init_finish ::
    "'s refenv \<Rightarrow> allocation \<Rightarrow> drvalloc \<Rightarrow> hptr \<Rightarrow> u64 \<Rightarrow> 's drvst \<Rightarrow> (bool \<times> allocation \<times> 's drvst) option" where
  "init_finish R a drv p allocSize s =
     do { (verifySize, a1) \<leftarrow> AllocationBuildPointerTable (reElem R) a (aType a) p;
          let drv = (if aUsageFlags a AND NOT RS_ALLOCATION_USAGE_SCRIPT \<noteq> 0
                     then drv\<lparr>uploadDeferred := True\<rparr> else drv);
          let a2 = a1\<lparr>aDrv := Some drv\<rparr>;
          if aUserProvidedPtr a \<noteq> nullp \<and> \<not> useUserProvidedPtr drv
          then do { (a3, s1) \<leftarrow> rsdAllocationData2D R a2 0 0 0 0 (tDimX (aType a)) (tDimY (aType a))
                                 (aUserProvidedPtr a) allocSize 0 s;
                    Some (True, a3, s1) }
          else Some (True, a2, s) }"

definition rsdAllocationInit ::
    "(nat \<Rightarrow> bool) \<Rightarrow> 's refenv \<Rightarrow> allocation \<Rightarrow> bool \<Rightarrow> 's drvst \<Rightarrow> (bool \<times> allocation \<times> 's drvst) option" where
  "rsdAllocationInit avail R a forceZero s =
     (let drv = \<lparr>useUserProvidedPtr = False, uploadDeferred = False\<rparr>
      in do { (allocSize, a) \<leftarrow> AllocationBuildPointerTable (reElem R) (a\<lparr>aDrv := Some drv\<rparr>) (aType a) nullp;
              eSize \<leftarrow> getElementSizeBytes (reElem R) (aType a);
              if has_usage a RS_ALLOCATION_USAGE_IO_OUTPUT \<or> has_usage a RS_ALLOCATION_USAGE_IO_INPUT
              then init_finish R a drv nullp allocSize s
              else if aUserProvidedPtr a \<noteq> nullp
              then (if aUsageFlags a \<noteq> RS_ALLOCATION_USAGE_SCRIPT OR RS_ALLOCATION_USAGE_SHARED
                       \<and> aUsageFlags a \<noteq> RS_ALLOCATION_USAGE_SCRIPT OR RS_ALLOCATION_USAGE_SHARED
                                           OR RS_ALLOCATION_USAGE_GRAPHICS_TEXTURE
                    then Some (False, a, s)
                    else if tDimLOD (aType a) \<or> tFaces (aType a) then Some (False, a, s)
                    else if ucast (tDimX (aType a)) * eSize mod 16 \<noteq> 0
                    then do { (p, s1) \<leftarrow> allocAlignedMemory avail allocSize forceZero s;
                              if p = nullp then Some (False, a\<lparr>aDrv := None\<rparr>, s1)
                              else init_finish R a drv p allocSize s1 }
                    else init_finish R a (drv\<lparr>useUserProvidedPtr := True\<rparr>) (aUserProvidedPtr a) allocSize s)
              else do { (p, s1) \<leftarrow> allocAlignedMemory avail allocSize forceZero s;
                        if p = nullp then Some (False, a\<lparr>aDrv := None\<rparr>, s1)
                        else init_finish R a drv p allocSize s1 } })"

text \<open>The driver's part of an allocation that could not get memory is null.\<close>

definition rsdAllocationDestroy :: "allocation \<Rightarrow> 's drvst \<Rightarrow> (allocation \<times> 's drvst) option" where
  "rsdAllocationDestroy a s =
     do { l0 \<leftarrow> lod_at (aDrvState a) 0;
          if lMallocPtr l0 \<noteq> nullp
          then do { drv \<leftarrow> aDrv a;
                    s1 \<leftarrow> (if \<not> useUserProvidedPtr drv \<and> \<not> has_usage a RS_ALLOCATION_USAGE_IO_INPUT
                              \<and> \<not> has_usage a RS_ALLOCATION_USAGE_IO_OUTPUT
                           then do { h \<leftarrow> h_free (dHeap s) (lMallocPtr l0); Some (s\<lparr>dHeap := h\<rparr>) }
                           else Some s);
                    d \<leftarrow> lod_upd 0 (\<lambda>l. l\<lparr>lMallocPtr := nullp\<rparr>) (aDrvState a);
                    Some (a\<lparr>aDrvState := d, aDrv := None\<rparr>, s1) }
          else Some (a\<lparr>aDrv := None\<rparr>, s) }"

definition rsdAllocationResize ::
    "'s refenv \<Rightarrow> allocation \<Rightarrow> rstype \<Rightarrow> bool \<Rightarrow> 's drvst \<Rightarrow> (allocation \<times> 's drvst) option" where
  "rsdAllocationResize R a newType zeroNew s =
     do { l0 \<leftarrow> lod_at (aDrvState a) 0;
          let oldDimX = lDimX l0;
          let dimX = tDimX newType;
          if has_usage a RS_ALLOCATION_USAGE_SHARED then Some (a, s)
          else do { (sz, a1) \<leftarrow> AllocationBuildPointerTable (reElem R) a newType nullp;
                    (p, h) \<leftarrow> h_realloc (dHeap s) (lMallocPtr l0) (unat sz);
                    (verifySize, a2) \<leftarrow> AllocationBuildPointerTable (reElem R) a1 newType p;
                    if oldDimX < dimX
                    then do { l \<leftarrow> lod_at (aDrvState a2) 0;
                              let stride = ucast (aElementSizeBytes a2);
                              h1 \<leftarrow> h_memset h (ptr_add (lMallocPtr l) (stride * ucast oldDimX)) 0
                                     (unat (stride * ucast (dimX - oldDimX)));
                              Some (a2, s\<lparr>dHeap := h1\<rparr>) }
                    else Some (a2, s\<lparr>dHeap := h\<rparr>) } }"

section \<open>The layout\<close>

text \<open>
  The layout in numbers: a row is rounded up to 16 bytes, level 0 has the dimensions of the type
  and every further level those that the type has one level earlier.
\<close>

definition row_bytes :: "nat \<Rightarrow> nat \<Rightarrow> nat" where
  "row_bytes es x = (x * es + 15) div 16 * 16"

definition drv_dim :: "u32 \<Rightarrow> nat \<Rightarrow> nat" where
  "drv_dim d l = lod_dim (unat d) (l - 1)"

definition level_bytes :: "nat \<Rightarrow> rstype \<Rightarrow> nat \<Rightarrow> nat" where
  "level_bytes es t l =
     row_bytes es (drv_dim (tDimX t) l) * max (drv_dim (tDimY t) l) 1 * max (drv_dim (tDimZ t) l) 1"

definition level_off :: "nat \<Rightarrow> rstype \<Rightarrow> nat \<Rightarrow> nat" where
  "level_off es t l = (\<Sum>k<l. level_bytes es t k)"

lemma level_off_Suc: "level_off es t (Suc l) = level_off es t l + level_bytes es t l"
  by (simp add: level_off_def)

lemma level_off_mono: "l \<le> m \<Longrightarrow> level_off es t l \<le> level_off es t m"
  unfolding level_off_def by (intro sum_mono2) auto

lemma row_bytes_ge: "x * es \<le> row_bytes es x"
  unfolding row_bytes_def by linarith

lemma row_bytes_round:
  assumes "row_bytes es x < 2 ^ 32" shows "x * es + 15 < 2 ^ 32"
  using assms unfolding row_bytes_def by simp

lemma row_bytes_level: "row_bytes es (drv_dim (tDimX t) l) \<le> level_bytes es t l"
proof -
  have "1 * 1 \<le> max (drv_dim (tDimY t) l) 1 * max (drv_dim (tDimZ t) l) 1"
    by (intro mult_le_mono) auto
  then have "row_bytes es (drv_dim (tDimX t) l) * 1
      \<le> row_bytes es (drv_dim (tDimX t) l) * (max (drv_dim (tDimY t) l) 1 * max (drv_dim (tDimZ t) l) 1)"
    by (intro mult_le_mono2) simp
  then show ?thesis by (simp add: level_bytes_def mult.assoc)
qed

lemma unat_mult_u64_u32:
  "unat (a :: u64) * unat (b :: u32) < 2 ^ 64 \<Longrightarrow> unat (a * ucast b) = unat a * unat b"
  using unat_mult_if_fits[of a "ucast b"] by simp

lemma unat_rsMax_1: "unat (rsMax (y :: u32) 1) = max (unat y) 1"
  by (auto simp: max_def word_le_nat_alt)

text \<open>The stride and the size that the code computes for a level.\<close>

lemma level_stride:
  fixes tx :: u32
  assumes "unat tx = drv_dim (tDimX t) l" and "level_bytes (unat es) t l < 2 ^ 32"
  shows "unat (rsRound (ucast tx * es) 16) = row_bytes (unat es) (drv_dim (tDimX t) l)"
proof -
  have rb: "row_bytes (unat es) (drv_dim (tDimX t) l) < 2 ^ 32"
    using row_bytes_level[of "unat es" t l] assms(2) by linarith
  then have fits: "unat tx * unat es + 15 < 2 ^ 32" using row_bytes_round[OF rb] assms(1) by simp
  then have "unat es * unat tx < 2 ^ 64" by (simp add: mult.commute)
  then have "unat (es * ucast tx) = unat es * unat tx" by (rule unat_mult_u64_u32)
  then have "unat (ucast tx * es) = unat tx * unat es" by (simp add: mult.commute)
  with fits rsRound16[of "ucast tx * es"] assms(1) show ?thesis by (simp add: row_bytes_def)
qed

lemma level_size:
  fixes tx ty tz :: u32
  assumes "unat tx = drv_dim (tDimX t) l" "unat ty = drv_dim (tDimY t) l" "unat tz = drv_dim (tDimZ t) l"
    and "level_bytes (unat es) t l < 2 ^ 32"
  shows "unat (rsRound (ucast tx * es) 16 * ucast (rsMax ty 1) * ucast (rsMax tz 1)) = level_bytes (unat es) t l"
proof -
  let ?r = "row_bytes (unat es) (drv_dim (tDimX t) l)"
  let ?y = "max (drv_dim (tDimY t) l) 1" and ?z = "max (drv_dim (tDimZ t) l) 1"
  let ?s = "rsRound (ucast tx * es) 16"
  have s: "unat ?s = ?r" by (rule level_stride[OF assms(1,4)])
  have yz: "unat (rsMax ty 1) = ?y" "unat (rsMax tz 1) = ?z"
    using assms(2,3) by (simp_all only: unat_rsMax_1)
  have lt: "?r * ?y * ?z < 2 ^ 32" using assms(4) by (simp only: level_bytes_def)
  have "?r * ?y * 1 \<le> ?r * ?y * ?z" by (intro mult_le_mono2) simp
  then have "?r * ?y < 2 ^ 32" using lt by (simp only: mult_1_right order.strict_trans1)
  then have ry: "?r * ?y < 2 ^ 64" by (rule order.strict_trans) simp
  have "unat (?s * ucast (rsMax ty 1)) = ?r * ?y"
    using unat_mult_u64_u32[of ?s "rsMax ty 1"] s yz ry by (simp only:)
  moreover have "?r * ?y * ?z < 2 ^ 64" using lt by (rule order.strict_trans) simp
  ultimately show ?thesis
    using unat_mult_u64_u32[of "?s * ucast (rsMax ty 1)" "rsMax tz 1"] yz(2) by (simp only: level_bytes_def)
qed

text \<open>What the table says about level \<open>l\<close>.\<close>

definition level_ok :: "nat \<Rightarrow> rstype \<Rightarrow> nat \<Rightarrow> drvlod \<Rightarrow> bool" where
  "level_ok es t l e \<longleftrightarrow>
     unat (lDimX e) = drv_dim (tDimX t) l \<and> unat (lDimY e) = drv_dim (tDimY t) l
     \<and> unat (lDimZ e) = drv_dim (tDimZ t) l \<and> unat (lStride e) = row_bytes es (drv_dim (tDimX t) l)"

lemma drv_dim_half: "1 \<le> l \<Longrightarrow> unat x = drv_dim d l \<Longrightarrow> unat (lod_half x) = drv_dim d (Suc l)"
proof -
  assume l: "1 \<le> l" and x: "unat x = drv_dim d l"
  have "lod_dim (lod_dim n k) (Suc 0) = lod_dim n (Suc k)" for n k
    by (induction k arbitrary: n) (simp, metis lod_dim_Suc)
  with l x show ?thesis by (cases l) (simp_all add: unat_lod_half drv_dim_def)
qed

lemma mip_table_spec:
  assumes "1 \<le> lod" and "lod + n \<le> length (dsLod d)" and "length offsets = length (dsLod d)"
    and "unat tx = drv_dim (tDimX t) lod" "unat ty = drv_dim (tDimY t) lod" "unat tz = drv_dim (tDimZ t) lod"
    and "unat off = level_off (unat es) t lod" and "level_off (unat es) t (lod + n) < 2 ^ 32"
  shows "\<exists>off' offsets' d'. mip_table n lod es tx ty tz off offsets d = Some (off', offsets', d')
     \<and> unat off' = level_off (unat es) t (lod + n)
     \<and> length offsets' = length offsets \<and> length (dsLod d') = length (dsLod d)
     \<and> (\<forall>l<lod. offsets' ! l = offsets ! l \<and> dsLod d' ! l = dsLod d ! l)
     \<and> (\<forall>l. lod \<le> l \<and> l < lod + n \<longrightarrow> unat (offsets' ! l) = level_off (unat es) t l \<and> level_ok (unat es) t l (dsLod d' ! l))
     \<and> dsLodCount d' = dsLodCount d \<and> dsFaceCount d' = dsFaceCount d"
  using assms
proof (induction n arbitrary: lod tx ty tz off offsets d)
  case 0
  then show ?case by auto
next
  case (Suc n)
  let ?f = "\<lambda>l. l\<lparr>lDimX := tx, lDimY := ty, lDimZ := tz, lStride := rsRound (ucast tx * es) 16\<rparr>"
  let ?d1 = "d\<lparr>dsLod := (dsLod d)[lod := ?f (dsLod d ! lod)]\<rparr>"
  let ?off = "off + rsRound (ucast tx * es) 16 * ucast (rsMax ty 1) * ucast (rsMax tz 1)"
  have le: "level_off (unat es) t (Suc lod) \<le> level_off (unat es) t (lod + Suc n)"
    by (rule level_off_mono) simp
  then have lb: "level_bytes (unat es) t lod < 2 ^ 32" and
      sum: "level_off (unat es) t lod + level_bytes (unat es) t lod < 2 ^ 32"
    using Suc.prems(8) by (simp_all add: level_off_Suc)
  have "unat ?off = level_off (unat es) t (Suc lod)"
    using unat_plus_if_fits[of off "rsRound (ucast tx * es) 16 * ucast (rsMax ty 1) * ucast (rsMax tz 1)"]
      level_size[OF Suc.prems(4,5,6) lb] Suc.prems(7) sum by (simp add: level_off_Suc)
  then have "\<exists>off' offsets' d'. mip_table n (Suc lod) es (lod_half tx) (lod_half ty) (lod_half tz) ?off
        (offsets[lod := off]) ?d1 = Some (off', offsets', d')
     \<and> unat off' = level_off (unat es) t (Suc lod + n)
     \<and> length offsets' = length (offsets[lod := off]) \<and> length (dsLod d') = length (dsLod ?d1)
     \<and> (\<forall>l<Suc lod. offsets' ! l = offsets[lod := off] ! l \<and> dsLod d' ! l = dsLod ?d1 ! l)
     \<and> (\<forall>l. Suc lod \<le> l \<and> l < Suc lod + n \<longrightarrow> unat (offsets' ! l) = level_off (unat es) t l \<and> level_ok (unat es) t l (dsLod d' ! l))
     \<and> dsLodCount d' = dsLodCount ?d1 \<and> dsFaceCount d' = dsFaceCount ?d1"
    using Suc.prems by (intro Suc.IH) (auto intro: drv_dim_half)
  then obtain off' offsets' d' where
    run: "mip_table n (Suc lod) es (lod_half tx) (lod_half ty) (lod_half tz) ?off (offsets[lod := off]) ?d1
            = Some (off', offsets', d')"
    and r: "unat off' = level_off (unat es) t (Suc lod + n)"
      "length offsets' = length offsets" "length (dsLod d') = length (dsLod d)"
      "\<forall>l<Suc lod. offsets' ! l = offsets[lod := off] ! l \<and> dsLod d' ! l = dsLod ?d1 ! l"
      "\<forall>l. Suc lod \<le> l \<and> l < Suc lod + n \<longrightarrow> unat (offsets' ! l) = level_off (unat es) t l \<and> level_ok (unat es) t l (dsLod d' ! l)"
      "dsLodCount d' = dsLodCount d" "dsFaceCount d' = dsFaceCount d"
    by auto
  have lodlt: "lod < length (dsLod d)" "lod < length offsets" using Suc.prems(2,3) by linarith+
  have step: "mip_table (Suc n) lod es tx ty tz off offsets d = Some (off', offsets', d')"
    using run lodlt by (simp add: lod_upd_def lod_at_def)
  have "offsets' ! lod = off" and at: "dsLod d' ! lod = ?f (dsLod d ! lod)"
    using r(4) lodlt by simp_all
  moreover have "level_ok (unat es) t lod (dsLod d' ! lod)"
    using level_stride[OF Suc.prems(4) lb] Suc.prems(4-6) by (simp add: at level_ok_def)
  ultimately have here: "unat (offsets' ! lod) = level_off (unat es) t lod \<and> level_ok (unat es) t lod (dsLod d' ! lod)"
    using Suc.prems(7) by simp
  have "unat (offsets' ! l) = level_off (unat es) t l \<and> level_ok (unat es) t l (dsLod d' ! l)"
    if "lod \<le> l" "l < lod + Suc n" for l
    using that r(5) here by (cases "l = lod") auto
  moreover have "offsets' ! l = offsets ! l \<and> dsLod d' ! l = dsLod d ! l" if "l < lod" for l
    using that r(4) by simp
  ultimately show ?case using step r by auto
qed
lemma unat_inverse_u64: "of_nat (unat (w :: u64)) = w"
  by simp

lemma set_level_ptrs_spec:
  assumes "ct + n \<le> length (dsLod d)"
  shows "\<exists>ls. set_level_ptrs n ct p offsets d = Some (d\<lparr>dsLod := ls\<rparr>) \<and> length ls = length (dsLod d)
    \<and> (\<forall>l<length ls. ls ! l = (if ct \<le> l \<and> l < ct + n then (dsLod d ! l)\<lparr>lMallocPtr := ptr_add p (offsets ! l)\<rparr>
                                else dsLod d ! l))"
  using assms
proof (induction n arbitrary: ct d)
  case 0
  then show ?case by (auto intro: exI[of _ "dsLod d"])
next
  case (Suc n)
  let ?d1 = "d\<lparr>dsLod := (dsLod d)[ct := (dsLod d ! ct)\<lparr>lMallocPtr := ptr_add p (offsets ! ct)\<rparr>]\<rparr>"
  have "Suc ct + n \<le> length (dsLod ?d1)" using Suc.prems by simp
  from Suc.IH[OF this] obtain ls where
    ls: "set_level_ptrs n (Suc ct) p offsets ?d1 = Some (?d1\<lparr>dsLod := ls\<rparr>)" "length ls = length (dsLod d)"
      "\<forall>l<length ls. ls ! l = (if Suc ct \<le> l \<and> l < Suc ct + n
          then (dsLod ?d1 ! l)\<lparr>lMallocPtr := ptr_add p (offsets ! l)\<rparr> else dsLod ?d1 ! l)"
    by auto
  have "set_level_ptrs (Suc n) ct p offsets d = Some (d\<lparr>dsLod := ls\<rparr>)"
    using ls(1) Suc.prems by (simp add: lod_upd_def)
  moreover have "\<forall>l<length ls. ls ! l = (if ct \<le> l \<and> l < ct + Suc n
      then (dsLod d ! l)\<lparr>lMallocPtr := ptr_add p (offsets ! l)\<rparr> else dsLod d ! l)"
    using ls(2,3) Suc.prems by (auto simp: nth_list_update)
  ultimately show ?case using ls(2) by blast
qed

definition table_ok :: "nat \<Rightarrow> rstype \<Rightarrow> hptr \<Rightarrow> drvstate \<Rightarrow> bool" where
  "table_ok es t p d \<longleftrightarrow>
     length (dsLod d) = MAX_LOD \<and> dsLodCount d = tLodCount t \<and> dsFaceCount d = (if tFaces t then 1 else 0)
     \<and> unat (dsFaceOffset d) = level_off es t (unat (tLodCount t))
     \<and> (\<forall>l < unat (tLodCount t). level_ok es t l (dsLod d ! l)
          \<and> lMallocPtr (dsLod d ! l) = ptr_add p (of_nat (level_off es t l)))"

definition table_size :: "nat \<Rightarrow> rstype \<Rightarrow> nat" where
  "table_size es t = (if tFaces t then 6 else 1) * level_off es t (unat (tLodCount t))"

text \<open>A type whose levels fit the table of the driver and whose data fit 32 bits.\<close>

definition fits_table :: "nat \<Rightarrow> rstype \<Rightarrow> bool" where
  "fits_table es t \<longleftrightarrow>
     1 \<le> unat (tLodCount t) \<and> unat (tLodCount t) \<le> MAX_LOD \<and> 6 * level_off es t (unat (tLodCount t)) < 2 ^ 32"

text \<open>The levels after level 0: the state of the table before the pointers are set.\<close>

lemma table_levels:
  assumes "length (dsLod d) = 16" and "dsLodCount d = tLodCount t" and "1 \<le> unat (tLodCount t)" "unat (tLodCount t) \<le> 16"
    and "unat off = level_off (unat es) t 1" and "level_off (unat es) t (unat (tLodCount t)) < 2 ^ 32"
  shows "\<exists>off' offsets' d'. (if 1 < dsLodCount d
       then mip_table (unat (dsLodCount d) - 1) 1 es (tDimX t) (tDimY t) (tDimZ t) off (replicate MAX_LOD 0) d
       else Some (off, replicate MAX_LOD 0, d)) = Some (off', offsets', d')
     \<and> unat off' = level_off (unat es) t (unat (tLodCount t)) \<and> length (dsLod d') = 16 \<and> dsLod d' ! 0 = dsLod d ! 0
     \<and> (\<forall>l. 1 \<le> l \<and> l < unat (tLodCount t) \<longrightarrow> unat (offsets' ! l) = level_off (unat es) t l \<and> level_ok (unat es) t l (dsLod d' ! l))
     \<and> dsLodCount d' = dsLodCount d \<and> dsFaceCount d' = dsFaceCount d"
proof (cases "1 < tLodCount t")
  case True
  define n where "n = unat (tLodCount t)"
  have n1: "1 < n" using True by (simp add: n_def word_less_nat_alt)
  then have ln: "1 + (n - 1) = n" by simp
  have dim1: "unat (tDimX t) = drv_dim (tDimX t) 1" "unat (tDimY t) = drv_dim (tDimY t) 1"
      "unat (tDimZ t) = drv_dim (tDimZ t) 1"
    by (simp_all add: drv_dim_def)
  have "\<exists>off' offsets' d'. mip_table (n - 1) 1 es (tDimX t) (tDimY t) (tDimZ t) off (replicate MAX_LOD 0) d
        = Some (off', offsets', d') \<and> unat off' = level_off (unat es) t (1 + (n - 1))
     \<and> length offsets' = length (replicate MAX_LOD (0 :: u64)) \<and> length (dsLod d') = length (dsLod d)
     \<and> (\<forall>l<1. offsets' ! l = replicate MAX_LOD 0 ! l \<and> dsLod d' ! l = dsLod d ! l)
     \<and> (\<forall>l. 1 \<le> l \<and> l < 1 + (n - 1) \<longrightarrow> unat (offsets' ! l) = level_off (unat es) t l \<and> level_ok (unat es) t l (dsLod d' ! l))
     \<and> dsLodCount d' = dsLodCount d \<and> dsFaceCount d' = dsFaceCount d"
    using dim1 assms n1 ln by (intro mip_table_spec) (simp_all add: n_def MAX_LOD_def)
  then show ?thesis using True assms(1,2) unfolding ln by (auto simp: n_def)
next
  case False
  then have "unat (tLodCount t) = 1" using assms(3) by (simp add: word_less_nat_alt)
  then show ?thesis using assms False by auto
qed

lemma pointer_table_spec:
  assumes "length (dsLod (aDrvState a)) = MAX_LOD" and "getElementSizeBytes E t = Some es"
    and "fits_table (unat es) t" and "aYuv a = 0 \<or> 1 < tLodCount t"
  shows "\<exists>size d. AllocationBuildPointerTable E a t p = Some (size, a\<lparr>aDrvState := d\<rparr>)
    \<and> unat size = table_size (unat es) t \<and> table_ok (unat es) t p d"
proof -
  define n where "n = unat (tLodCount t)"
  define D0 where "D0 = aDrvState a"
  have n: "1 \<le> n" "n \<le> 16" and F: "6 * level_off (unat es) t n < 2 ^ 32"
    using assms(3) by (simp_all add: fits_table_def n_def MAX_LOD_def)
  have len: "length (dsLod D0) = 16" using assms(1) by (simp add: D0_def MAX_LOD_def)
  let ?l0 = "(dsLod D0 ! 0)\<lparr>lDimX := tDimX t, lDimY := tDimY t, lDimZ := tDimZ t, lMallocPtr := nullp,
               lStride := rsRound (ucast (tDimX t) * es) 16\<rparr>"
  define D1 where "D1 = D0\<lparr>dsLod := (dsLod D0)[0 := ?l0], dsLodCount := tLodCount t,
                           dsFaceCount := (if tFaces t then 1 else 0)\<rparr>"
  define off where "off = rsRound (ucast (tDimX t) * es) 16 * ucast (rsMax (tDimY t) 1) * ucast (rsMax (tDimZ t) 1)"
  have dim0: "unat (tDimX t) = drv_dim (tDimX t) 0" "unat (tDimY t) = drv_dim (tDimY t) 0"
      "unat (tDimZ t) = drv_dim (tDimZ t) 0"
    by (simp_all add: drv_dim_def)
  have "level_off (unat es) t 1 \<le> level_off (unat es) t n" by (rule level_off_mono[OF n(1)])
  then have lb0: "level_bytes (unat es) t 0 < 2 ^ 32" using F by (simp add: level_off_def)
  have off: "unat off = level_off (unat es) t 1"
    using level_size[OF dim0 lb0] by (simp add: off_def level_off_def)
  have ok0: "level_ok (unat es) t 0 ?l0"
    using level_stride[OF dim0(1) lb0] dim0 by (simp add: level_ok_def)
  have D1: "length (dsLod D1) = 16" "dsLodCount D1 = tLodCount t" "dsLod D1 ! 0 = ?l0"
      "dsFaceCount D1 = (if tFaces t then 1 else 0)"
    using len by (simp_all add: D1_def)
  have "level_off (unat es) t (unat (tLodCount t)) < 2 ^ 32" using F by (simp add: n_def)
  from table_levels[OF D1(1,2) n[unfolded n_def] off this] obtain off' offsets' d' where
    mid: "(if 1 < dsLodCount D1
             then mip_table (unat (dsLodCount D1) - 1) 1 es (tDimX t) (tDimY t) (tDimZ t) off (replicate MAX_LOD 0) D1
             else Some (off, replicate MAX_LOD 0, D1)) = Some (off', offsets', d')"
    and m: "unat off' = level_off (unat es) t n" "length (dsLod d') = 16" "dsLod d' ! 0 = ?l0"
      "\<forall>l. 1 \<le> l \<and> l < n \<longrightarrow> unat (offsets' ! l) = level_off (unat es) t l \<and> level_ok (unat es) t l (dsLod d' ! l)"
      "dsLodCount d' = tLodCount t" "dsFaceCount d' = (if tFaces t then 1 else 0)"
    unfolding D1 n_def by blast
  define D2 where "D2 = d'\<lparr>dsFaceOffset := off', dsLod := (dsLod d')[0 := (dsLod d' ! 0)\<lparr>lMallocPtr := p\<rparr>]\<rparr>"
  have len2: "length (dsLod D2) = 16" using m(2) by (simp add: D2_def)
  obtain ls where
    ls: "set_level_ptrs (n - 1) 1 p offsets' D2 = Some (D2\<lparr>dsLod := ls\<rparr>)" "length ls = 16"
      "\<forall>l<length ls. ls ! l = (if 1 \<le> l \<and> l < 1 + (n - 1) then (dsLod D2 ! l)\<lparr>lMallocPtr := ptr_add p (offsets' ! l)\<rparr>
                                else dsLod D2 ! l)"
    using set_level_ptrs_spec[of 1 "n - 1" D2 p offsets'] n len2 by auto
  define size where "size = (if dsFaceCount D2 \<noteq> 0 then dsFaceOffset D2 * 6 else dsFaceOffset D2)"
  let ?D = "D2\<lparr>dsLod := ls\<rparr>"
  have run: "AllocationBuildPointerTable E a t p = Some (size, a\<lparr>aDrvState := ?D\<rparr>)"
    using assms(2,4) mid ls(1) m(2,5) len
    by (auto simp: AllocationBuildPointerTable_def Let_def lod_upd_def lod_at_def D0_def[symmetric] D1_def off_def
        D2_def size_def n_def split: if_splits)
  have sz: "unat size = table_size (unat es) t"
    using m(1,6) F unat_mult_if_fits[of off' 6]
    by (auto simp: size_def D2_def table_size_def n_def[symmetric])
  have "table_ok (unat es) t p ?D"
    unfolding table_ok_def
  proof (intro conjI allI impI)
    fix l
    assume l: "l < unat (tLodCount t)"
    then have "l < n" "l < length ls" using n ls(2) by (simp_all add: n_def)
    then have at: "ls ! l = (if 1 \<le> l then (dsLod D2 ! l)\<lparr>lMallocPtr := ptr_add p (offsets' ! l)\<rparr> else dsLod D2 ! l)"
      using ls(3) by auto
    have o: "1 \<le> l \<Longrightarrow> offsets' ! l = of_nat (level_off (unat es) t l)"
      using m(4) \<open>l < n\<close> by (metis unat_inverse_u64)
    show "level_ok (unat es) t l (dsLod ?D ! l)"
      using at m(2,3,4) ok0 \<open>l < n\<close> by (cases "l = 0") (auto simp: D2_def level_ok_def)
    show "lMallocPtr (dsLod ?D ! l) = ptr_add p (of_nat (level_off (unat es) t l))"
      using at m(2) o by (cases "l = 0") (auto simp: D2_def level_off_def)
  qed (use m ls(2) in \<open>simp_all add: D2_def MAX_LOD_def n_def\<close>)
  then show ?thesis using run sz by blast
qed
section \<open>The cells of an allocation\<close>

text \<open>A cell is given by its face, level and coordinates.\<close>

record cell =
  cFace :: u32
  cLod :: nat
  cX :: u32
  cY :: u32
  cZ :: u32

definition in_cells :: "rstype \<Rightarrow> cell \<Rightarrow> bool" where
  "in_cells t c \<longleftrightarrow>
     unat (cFace c) < (if tFaces t then 6 else 1) \<and> cLod c < unat (tLodCount t)
     \<and> unat (cX c) < drv_dim (tDimX t) (cLod c)
     \<and> unat (cY c) < max (drv_dim (tDimY t) (cLod c)) 1
     \<and> unat (cZ c) < max (drv_dim (tDimZ t) (cLod c)) 1
     \<and> (cZ c = 0 \<or> tDimY t \<noteq> 0)"

definition cell_row :: "rstype \<Rightarrow> cell \<Rightarrow> nat" where
  "cell_row t c = unat (cZ c) * drv_dim (tDimY t) (cLod c) + unat (cY c)"

definition cell_off :: "nat \<Rightarrow> rstype \<Rightarrow> cell \<Rightarrow> nat" where
  "cell_off es t c =
     unat (cFace c) * level_off es t (unat (tLodCount t)) + level_off es t (cLod c)
     + cell_row t c * row_bytes es (drv_dim (tDimX t) (cLod c)) + unat (cX c) * es"

definition cell_ptr :: "allocation \<Rightarrow> cell \<Rightarrow> hptr option" where
  "cell_ptr a c = GetOffsetPtr a (cX c) (cY c) (cZ c) (cLod c) (cFace c)"

lemma slot_le: "i < n \<Longrightarrow> i * s + s \<le> n * (s :: nat)"
  using mult_le_mono1[of "Suc i" n s] by simp

lemma drv_dim_pos: "0 < drv_dim d l \<longleftrightarrow> d \<noteq> 0"
  by (auto simp: drv_dim_def lod_dim_def unat_eq_0)

lemma cell_row_less:
  assumes "in_cells t c"
  shows "cell_row t c < max (drv_dim (tDimY t) (cLod c)) 1 * max (drv_dim (tDimZ t) (cLod c)) 1"
proof (cases "tDimY t = 0")
  case True
  then have z: "drv_dim (tDimY t) (cLod c) = 0" by (simp add: drv_dim_def lod_dim_def)
  with True assms have "cell_row t c = 0" by (auto simp: in_cells_def cell_row_def)
  then show ?thesis by (simp add: less_max_iff_disj)
next
  case False
  then have pos: "0 < drv_dim (tDimY t) (cLod c)" by (simp add: drv_dim_pos)
  have y: "unat (cY c) < drv_dim (tDimY t) (cLod c)" and z: "unat (cZ c) < max (drv_dim (tDimZ t) (cLod c)) 1"
    using assms pos by (auto simp: in_cells_def)
  have "unat (cZ c) * drv_dim (tDimY t) (cLod c) + drv_dim (tDimY t) (cLod c)
      \<le> max (drv_dim (tDimZ t) (cLod c)) 1 * drv_dim (tDimY t) (cLod c)"
    by (rule slot_le[OF z])
  then have "cell_row t c < max (drv_dim (tDimZ t) (cLod c)) 1 * drv_dim (tDimY t) (cLod c)"
    using y by (simp add: cell_row_def)
  moreover have "max (drv_dim (tDimY t) (cLod c)) 1 = drv_dim (tDimY t) (cLod c)" using pos by simp
  ultimately show ?thesis by (simp only: mult.commute)
qed

text \<open>A cell lies in its row, a row in its level, a level in its face.\<close>

lemma cell_in_row:
  assumes "in_cells t c"
  shows "unat (cX c) * es + es \<le> row_bytes es (drv_dim (tDimX t) (cLod c))"
  using slot_le[of "unat (cX c)" "drv_dim (tDimX t) (cLod c)" es]
    row_bytes_ge[of "drv_dim (tDimX t) (cLod c)" es] assms
  by (auto simp: in_cells_def)

lemma row_in_level:
  assumes "in_cells t c"
  shows "cell_row t c * row_bytes es (drv_dim (tDimX t) (cLod c)) + row_bytes es (drv_dim (tDimX t) (cLod c))
    \<le> level_bytes es t (cLod c)"
  using slot_le[OF cell_row_less[OF assms], of "row_bytes es (drv_dim (tDimX t) (cLod c))"]
  by (simp only: level_bytes_def mult.assoc mult.commute mult.left_commute)

lemma level_in_face:
  assumes "l < n" shows "level_off es t l + level_bytes es t l \<le> level_off es t n"
  using level_off_mono[of "Suc l" n es t] assms by (simp add: level_off_Suc)

lemma cell_in_bounds:
  assumes "in_cells t c"
  shows "cell_off es t c + es \<le> table_size es t"
proof -
  have f: "unat (cFace c) < (if tFaces t then 6 else 1)" and l: "cLod c < unat (tLodCount t)"
    using assms by (auto simp: in_cells_def)
  have "level_off es t (cLod c) + cell_row t c * row_bytes es (drv_dim (tDimX t) (cLod c)) + unat (cX c) * es + es
      \<le> level_off es t (unat (tLodCount t))"
    using cell_in_row[OF assms, of es] row_in_level[OF assms, of es] level_in_face[OF l, of es t] by linarith
  then show ?thesis
    using slot_le[OF f, of "level_off es t (unat (tLodCount t))"]
    unfolding cell_off_def table_size_def by linarith
qed

lemma index_inj:
  assumes "y < (m :: nat)" and "y' < m" and "z * m + y = z' * m + y'"
  shows "z = z' \<and> y = y'"
proof -
  have "(z * m + y) div m = z" "(z * m + y) mod m = y" "(z' * m + y') div m = z'" "(z' * m + y') mod m = y'"
    using assms(1,2) by simp_all
  then show ?thesis using assms(3) by metis
qed

lemma cell_row_inj:
  assumes "in_cells t c" and "in_cells t c'" and "cLod c = cLod c'" and "cell_row t c = cell_row t c'"
  shows "cY c = cY c' \<and> cZ c = cZ c'"
proof (cases "tDimY t = 0")
  case True
  then have "cY c = 0" "cY c' = 0" "cZ c = 0" "cZ c' = 0"
    using assms(1,2) by (auto simp: in_cells_def drv_dim_def lod_dim_def unat_eq_0)
  then show ?thesis by simp
next
  case False
  then have pos: "0 < drv_dim (tDimY t) (cLod c)" by (simp add: drv_dim_pos)
  have "unat (cY c) < drv_dim (tDimY t) (cLod c)" "unat (cY c') < drv_dim (tDimY t) (cLod c)"
    using assms(1-3) pos by (auto simp: in_cells_def)
  from index_inj[OF this, of "unat (cZ c)" "unat (cZ c')"] assms(3,4) show ?thesis
    by (simp add: cell_row_def word_unat_eq_iff)
qed

text \<open>Cells in the order of the memory.\<close>

definition cell_before :: "rstype \<Rightarrow> cell \<Rightarrow> cell \<Rightarrow> bool" where
  "cell_before t c c' \<longleftrightarrow>
     unat (cFace c) < unat (cFace c') \<or> cFace c = cFace c' \<and> (cLod c < cLod c' \<or> cLod c = cLod c' \<and>
       (cell_row t c < cell_row t c' \<or> cell_row t c = cell_row t c' \<and> unat (cX c) < unat (cX c')))"

lemma cell_before_total:
  assumes "in_cells t c" and "in_cells t c'" and "c \<noteq> c'"
  shows "cell_before t c c' \<or> cell_before t c' c"
proof -
  have "cFace c \<noteq> cFace c' \<or> cLod c \<noteq> cLod c' \<or> cY c \<noteq> cY c' \<or> cZ c \<noteq> cZ c' \<or> cX c \<noteq> cX c'"
    using assms(3) by (cases c; cases c') auto
  then have "unat (cFace c) \<noteq> unat (cFace c') \<or> cFace c = cFace c' \<and> (cLod c \<noteq> cLod c' \<or> cLod c = cLod c' \<and>
       (cell_row t c \<noteq> cell_row t c' \<or> cell_row t c = cell_row t c' \<and> unat (cX c) \<noteq> unat (cX c')))"
    using cell_row_inj[OF assms(1,2)] by (auto simp: word_unat_eq_iff)
  then show ?thesis unfolding cell_before_def by (metis linorder_neqE_nat)
qed

lemma cell_before_disjoint:
  assumes c: "in_cells t c" and c': "in_cells t c'" and "cell_before t c c'"
  shows "cell_off es t c + es \<le> cell_off es t c'"
proof -
  define F where "F = level_off es t (unat (tLodCount t))"
  define b where "b c = level_off es t (cLod c) + cell_row t c * row_bytes es (drv_dim (tDimX t) (cLod c)) + unat (cX c) * es" for c
  have off: "cell_off es t c = unat (cFace c) * F + b c" for c by (simp add: cell_off_def F_def b_def)
  have bF: "b c + es \<le> F"
    using cell_in_row[OF c, of es] row_in_level[OF c, of es]
      level_in_face[of "cLod c" "unat (tLodCount t)" es t] c
    by (auto simp: b_def F_def in_cells_def)
  consider "unat (cFace c) < unat (cFace c')" | "cFace c = cFace c'" "cLod c < cLod c'"
    | "cFace c = cFace c'" "cLod c = cLod c'" "cell_row t c < cell_row t c'"
    | "cFace c = cFace c'" "cLod c = cLod c'" "cell_row t c = cell_row t c'" "unat (cX c) < unat (cX c')"
    using assms(3) unfolding cell_before_def by blast
  then show ?thesis
  proof cases
    case 1
    then show ?thesis using slot_le[OF 1, of F] bF unfolding off by linarith
  next
    case 2
    have "b c + es \<le> b c'"
      using cell_in_row[OF c, of es] row_in_level[OF c, of es] level_in_face[OF 2(2), of es t]
      unfolding b_def by linarith
    then show ?thesis using 2 unfolding off by simp
  next
    case 3
    have "b c + es \<le> b c'"
      using cell_in_row[OF c, of es] slot_le[OF 3(3), of "row_bytes es (drv_dim (tDimX t) (cLod c))"] 3(2)
      unfolding b_def by simp
    then show ?thesis using 3 unfolding off by simp
  next
    case 4
    then show ?thesis using slot_le[OF 4(4), of es] unfolding off b_def by simp
  qed
qed

lemma cells_disjoint:
  assumes "in_cells t c" and "in_cells t c'" and "c \<noteq> c'"
  shows "cell_off es t c + es \<le> cell_off es t c' \<or> cell_off es t c' + es \<le> cell_off es t c"
  using cell_before_total[OF assms] cell_before_disjoint[OF assms(1,2), of es]
    cell_before_disjoint[OF assms(2,1), of es] by blast

lemma u32_of_nat: "(ucast (v :: u32) :: u64) = of_nat (unat v)"
  by (metis unat_inverse_u64 unat_ucast_u32_u64)

text \<open>The address the driver computes for a cell.\<close>

lemma cell_ptr_spec:
  assumes "table_ok es t p (aDrvState a)" and "fits_table es t" and "unat (aElementSizeBytes a) = es"
    and "in_cells t c"
  shows "cell_ptr a c = Some (ptr_add p (of_nat (cell_off es t c))) \<and> cell_off es t c < 2 ^ 32"
proof -
  let ?l = "dsLod (aDrvState a) ! cLod c"
  have l: "cLod c < unat (tLodCount t)" using assms(4) by (simp add: in_cells_def)
  then have l16: "cLod c < length (dsLod (aDrvState a))"
    using assms(1,2) by (simp add: table_ok_def fits_table_def)
  have ok: "level_ok es t (cLod c) ?l" and mp: "lMallocPtr ?l = ptr_add p (of_nat (level_off es t (cLod c)))"
    and fo: "unat (dsFaceOffset (aDrvState a)) = level_off es t (unat (tLodCount t))"
    using assms(1) l by (simp_all add: table_ok_def)
  have sz: "table_size es t < 2 ^ 32" using assms(2) by (auto simp: table_size_def fits_table_def)
  have lt: "cell_off es t c + es < 2 ^ 32" using cell_in_bounds[OF assms(4), of es] sz by linarith
  have x: "unat (cX c * aElementSizeBytes a) = unat (cX c) * es"
    using unat_mult_if_fits[of "cX c" "aElementSizeBytes a"] assms(3) lt by (simp add: cell_off_def)
  let ?dY = "drv_dim (tDimY t) (cLod c)" and ?row = "row_bytes es (drv_dim (tDimX t) (cLod c))"
  have st: "unat (lStride ?l) = ?row" and dy: "unat (lDimY ?l) = ?dY" using ok by (simp_all add: level_ok_def)
  have z: "unat (cZ c * lDimY ?l) * ?row = unat (cZ c) * ?dY * ?row"
  proof (cases "?row = 0")
    case False
    have "unat (cZ c) * ?dY \<le> cell_row t c" by (simp add: cell_row_def)
    also have "\<dots> \<le> cell_row t c * ?row" using False by simp
    also have "\<dots> < 2 ^ 32" using lt by (simp add: cell_off_def)
    finally have "unat (cZ c) * unat (lDimY ?l) < 2 ^ LENGTH(32)" by (simp add: dy)
    then show ?thesis using unat_mult_if_fits[of "cZ c" "lDimY ?l"] by (simp add: dy)
  qed simp
  let ?w = "ucast (cFace c) * dsFaceOffset (aDrvState a) + ucast (cZ c * lDimY ?l) * lStride ?l
      + ucast (cY c) * lStride ?l + ucast (cX c * aElementSizeBytes a) :: u64"
  have "of_nat (level_off es t (cLod c)) + ?w = (of_nat (level_off es t (cLod c)
      + (unat (cFace c) * unat (dsFaceOffset (aDrvState a)) + unat (cZ c * lDimY ?l) * unat (lStride ?l)
         + unat (cY c) * unat (lStride ?l) + unat (cX c * aElementSizeBytes a))) :: u64)"
    by (simp only: u32_of_nat of_nat_add of_nat_mult unat_inverse_u64)
  also have "\<dots> = of_nat (cell_off es t c)"
    by (rule arg_cong[of _ _ of_nat])
      (simp only: fo st x z cell_off_def cell_row_def add_mult_distrib; simp)
  finally have "cell_ptr a c = Some (ptr_add p (of_nat (cell_off es t c)))"
    using l16 by (simp add: cell_ptr_def GetOffsetPtr_def lod_at_def mp Let_def ptr_add_def add.assoc)
  then show ?thesis using lt by simp
qed

end
