(* ===== verification/Rs_DrvCopy.thy ===== *)
theory Rs_DrvCopy
  imports Rs_DrvAllocation
begin

unbundle bit_operations_syntax

text \<open>
  The reads and writes of the driver, cell by cell: what a copy of rows does to the memory, which
  cells a write of a rectangle changes, and that a read returns what was written.
\<close>

section \<open>Rows of bytes\<close>

text \<open>The address \<open>p\<close> bytes into block \<open>b\<close>.\<close>

definition bptr :: "nat \<Rightarrow> nat \<Rightarrow> hptr" where
  "bptr b p = (Some b, of_nat p)"

lemma bptr_add: "ptr_add (bptr b p) (of_nat n) = bptr b (p + n)"
  by (simp add: bptr_def)

lemma fst_bptr [simp]: "fst (bptr b p) = Some b"
  by (simp add: bptr_def)

lemma unat_snd_bptr: "p < 2 ^ 64 \<Longrightarrow> unat (snd (bptr b p)) = p"
  by (simp add: bptr_def unat_of_nat)

lemma bptr_not_null [simp]: "bptr b p \<noteq> nullp"
  by (simp add: bptr_def nullp_def)

lemma bptr_disjoint:
  assumes "p < 2 ^ 64" and "q < 2 ^ 64"
  shows "h_disjoint (bptr b p) m (bptr c q) n \<longleftrightarrow> b \<noteq> c \<or> p + m \<le> q \<or> q + n \<le> p"
  using assms by (simp add: h_disjoint_def unat_snd_bptr)

lemma bptr_memcpy_fits:
  assumes "blk_len h b = Some sz" "p + n \<le> sz" "sz < 2 ^ 64"
    and "blk_len h c = Some sz'" "q + n \<le> sz'" "sz' < 2 ^ 64" and "b \<noteq> c"
  shows "\<exists>h'. h_memcpy h (bptr b p) (bptr c q) n = Some h'"
proof -
  have "unat (of_nat p :: u64) = p" "unat (of_nat q :: u64) = q"
    using assms by (simp_all add: unat_of_nat)
  moreover have "\<not> h_overlap (Some b, of_nat p) (Some c, of_nat q) n" using assms(7) by (simp add: h_overlap_def)
  ultimately show ?thesis
    using h_memcpy_fits[OF assms(1) _ assms(4), of "of_nat p" n "of_nat q"] assms(2,5)
    unfolding bptr_def by simp
qed

lemma mem_get_sub:
  assumes "mem_get m p n = Some bs" and "k + j \<le> n"
  shows "mem_get m (p + k) j = Some (take j (drop k bs))"
proof -
  have "take j (drop k (take n (drop p m))) = take j (drop (p + k) m)"
    using assms(2) by (simp add: drop_take add.commute min_absorb1)
  then show ?thesis using assms by (auto simp: mem_get_def split: if_splits)
qed

lemma h_get_sub:
  assumes "h_get h (bptr b p) n = Some bs" and "k + j \<le> n" and "p + k < 2 ^ 64"
  shows "h_get h (bptr b (p + k)) j = Some (take j (drop k bs))"
proof -
  have u: "unat (snd (bptr b p)) = p" "unat (snd (bptr b (p + k))) = p + k"
    using assms(3) by (simp_all add: unat_snd_bptr)
  obtain m where m: "b < length h" "h ! b = Some m" "mem_get m p n = Some bs"
    using assms(1) u by (auto simp: h_get_Some_iff)
  then show ?thesis using mem_get_sub[OF m(3) assms(2)] u by (auto simp: h_get_Some_iff)
qed

text \<open>A block of \<open>n\<close> rows of \<open>len\<close> bytes, \<open>stride\<close> bytes apart, from offset \<open>p\<close> of block \<open>b\<close>.\<close>

definition rows_fit :: "heap \<Rightarrow> nat \<Rightarrow> nat \<Rightarrow> nat \<Rightarrow> nat \<Rightarrow> nat \<Rightarrow> bool" where
  "rows_fit h b p stride n len \<longleftrightarrow>
     (\<exists>sz. blk_len h b = Some sz \<and> sz < 2 ^ 64 \<and> (\<forall>i<n. p + i * stride + len \<le> sz))"

lemma rows_fit_Suc:
  assumes "rows_fit h b p stride (Suc n) len"
  shows "rows_fit h b (p + stride) stride n len"
proof -
  obtain sz where "blk_len h b = Some sz" "sz < 2 ^ 64" and fit: "\<forall>i<Suc n. p + i * stride + len \<le> sz"
    using assms by (auto simp: rows_fit_def)
  moreover have "p + stride + i * stride + len \<le> sz" if "i < n" for i
    using fit[rule_format, of "Suc i"] that by simp
  ultimately show ?thesis by (auto simp: rows_fit_def)
qed

lemma rows_fit_cong: "(\<And>b. blk_len h' b = blk_len h b) \<Longrightarrow> rows_fit h' b p stride n len = rows_fit h b p stride n len"
  by (simp add: rows_fit_def)

lemma rows_fit_less: "rows_fit h b p stride n len \<Longrightarrow> i < n \<Longrightarrow> p + i * stride < 2 ^ 64"
  by (fastforce simp: rows_fit_def)

text \<open>What a copy of rows leaves behind: every row of the destination has the bytes of its
  source, and nothing else has changed.\<close>

definition rows_copied :: "heap \<Rightarrow> heap \<Rightarrow> nat \<Rightarrow> nat \<Rightarrow> nat \<Rightarrow> nat \<Rightarrow> nat \<Rightarrow> nat \<Rightarrow> nat \<Rightarrow> nat \<Rightarrow> bool" where
  "rows_copied h h' b p dS c q sS n len \<longleftrightarrow>
     (\<forall>x. blk_len h' x = blk_len h x)
     \<and> (\<forall>i<n. h_get h' (bptr b (p + i * dS)) len = h_get h (bptr c (q + i * sS)) len)
     \<and> (\<forall>r k. (\<forall>i<n. h_disjoint (bptr b (p + i * dS)) len r k) \<longrightarrow> h_get h' r k = h_get h r k)"

lemma rows_copied_step:
  assumes "rows_fit h b p dS (Suc n) len" and "rows_fit h c q sS (Suc n) len" and "b \<noteq> c"
    and "len \<le> dS \<or> n = 0"
    and "h_memcpy h (bptr b p) (bptr c q) len = Some h1"
    and "rows_copied h1 h2 b (p + dS) dS c (q + sS) sS n len"
  shows "rows_copied h h2 b p dS c q sS (Suc n) len"
  unfolding rows_copied_def
proof (intro conjI allI impI)
  fix x
  show "blk_len h2 x = blk_len h x"
    using assms(5,6) by (simp add: rows_copied_def h_memcpy_blk_len)
next
  fix i
  assume i: "i < Suc n"
  note lt = rows_fit_less[OF assms(1)]
  show "h_get h2 (bptr b (p + i * dS)) len = h_get h (bptr c (q + i * sS)) len"
  proof (cases i)
    case 0
    have "h_disjoint (bptr b (p + dS + j * dS)) len (bptr b p) len" if "j < n" for j
      using lt[of "Suc j"] lt[of 0] that assms(4) by (simp add: bptr_disjoint)
    then have "h_get h2 (bptr b p) len = h_get h1 (bptr b p) len"
      using assms(6) unfolding rows_copied_def by blast
    then show ?thesis using 0 h_memcpy_get[OF assms(5)] by simp
  next
    case (Suc j)
    then have "h_get h2 (bptr b (p + i * dS)) len = h_get h1 (bptr c (q + i * sS)) len"
      using assms(6) i unfolding rows_copied_def by (simp add: add.assoc)
    also have "\<dots> = h_get h (bptr c (q + i * sS)) len"
      by (rule h_memcpy_frame[OF assms(5)]) (use assms(3) in \<open>simp add: h_disjoint_def\<close>)
    finally show ?thesis .
  qed
next
  fix r k
  assume d: "\<forall>i<Suc n. h_disjoint (bptr b (p + i * dS)) len r k"
  have "h_disjoint (bptr b (p + dS + i * dS)) len r k" if "i < n" for i
    using d[rule_format, of "Suc i"] that by (simp add: add.assoc)
  then have "h_get h2 r k = h_get h1 r k" using assms(6) unfolding rows_copied_def by blast
  also have "\<dots> = h_get h r k" by (rule h_memcpy_frame[OF assms(5)]) (use d[rule_format, of 0] in simp)
  finally show "h_get h2 r k = h_get h r k" .
qed

lemma copy_rows_spec:
  assumes "rows_fit (dHeap s) b p dS n len" and "rows_fit (dHeap s) c q sS n len" and "b \<noteq> c"
    and "len \<le> dS \<or> n \<le> 1" and "len < 2 ^ 64"
  shows "\<exists>h. copy_rows n (of_nat len) (bptr b p) (of_nat dS) (bptr c q) (of_nat sS) s
       = Some (bptr b (p + n * dS), bptr c (q + n * sS), s\<lparr>dHeap := h\<rparr>)
     \<and> rows_copied (dHeap s) h b p dS c q sS n len"
  using assms
proof (induction n arbitrary: p q s)
  case 0
  then show ?case by (auto simp: rows_copied_def intro!: exI[of _ "dHeap s"])
next
  case (Suc n)
  obtain sz where sz: "blk_len (dHeap s) b = Some sz" "p + len \<le> sz" "sz < 2 ^ 64"
    using Suc.prems(1) unfolding rows_fit_def by fastforce
  obtain sz' where sz': "blk_len (dHeap s) c = Some sz'" "q + len \<le> sz'" "sz' < 2 ^ 64"
    using Suc.prems(2) unfolding rows_fit_def by fastforce
  obtain h1 where h1: "h_memcpy (dHeap s) (bptr b p) (bptr c q) len = Some h1"
    using bptr_memcpy_fits[OF sz sz' Suc.prems(3)] by blast
  let ?s1 = "s\<lparr>dHeap := h1\<rparr>"
  have fit: "rows_fit (dHeap ?s1) b (p + dS) dS n len" "rows_fit (dHeap ?s1) c (q + sS) sS n len"
    using Suc.prems(1,2) rows_fit_cong[of h1 "dHeap s"] h_memcpy_blk_len[OF h1] by (simp_all add: rows_fit_Suc)
  have "len \<le> dS \<or> n \<le> 1" using Suc.prems(4) by auto
  from Suc.IH[OF fit Suc.prems(3) this Suc.prems(5)] obtain h where
    run: "copy_rows n (of_nat len) (bptr b (p + dS)) (of_nat dS) (bptr c (q + sS)) (of_nat sS) ?s1
       = Some (bptr b (p + dS + n * dS), bptr c (q + sS + n * sS), ?s1\<lparr>dHeap := h\<rparr>)"
    and r: "rows_copied h1 h b (p + dS) dS c (q + sS) sS n len" by auto
  have "rows_copied (dHeap s) h b p dS c q sS (Suc n) len"
    by (rule rows_copied_step[OF Suc.prems(1-3) _ h1 r]) (use Suc.prems(4) in auto)
  moreover have "unat (of_nat len :: u64) = len" using Suc.prems(5) by (simp add: unat_of_nat)
  ultimately show ?case
    using run h1 by (intro exI[of _ h]) (simp add: st_memcpy_def bptr_add add.assoc)
qed
section \<open>Rectangles\<close>

text \<open>
  The well-formedness of an allocation with its data in block \<open>b\<close>: the table of levels is the one
  of its type, the cached element size is right and the block has the size of the table.
\<close>

definition drv_alloc_ok :: "nat \<Rightarrow> nat \<Rightarrow> allocation \<Rightarrow> heap \<Rightarrow> bool" where
  "drv_alloc_ok es b a h \<longleftrightarrow>
     table_ok es (aType a) (bptr b 0) (aDrvState a) \<and> fits_table es (aType a)
     \<and> unat (aElementSizeBytes a) = es \<and> blk_len h b = Some (table_size es (aType a)) \<and> aDrv a \<noteq> None"

definition cell_bytes :: "nat \<Rightarrow> allocation \<Rightarrow> heap \<Rightarrow> cell \<Rightarrow> mem option" where
  "cell_bytes es a h c = do { p \<leftarrow> cell_ptr a c; h_get h p es }"

definition rect_ok :: "rstype \<Rightarrow> nat \<Rightarrow> u32 \<Rightarrow> u32 \<Rightarrow> u32 \<Rightarrow> u32 \<Rightarrow> u32 \<Rightarrow> bool" where
  "rect_ok t lod face xoff yoff w h \<longleftrightarrow>
     unat face < (if tFaces t then 6 else 1) \<and> lod < unat (tLodCount t) \<and> 0 < w \<and> 0 < h
     \<and> unat xoff + unat w \<le> drv_dim (tDimX t) lod \<and> unat yoff + unat h \<le> max (drv_dim (tDimY t) lod) 1"

definition in_rect :: "nat \<Rightarrow> u32 \<Rightarrow> u32 \<Rightarrow> u32 \<Rightarrow> u32 \<Rightarrow> u32 \<Rightarrow> cell \<Rightarrow> bool" where
  "in_rect lod face xoff yoff w h c \<longleftrightarrow>
     cFace c = face \<and> cLod c = lod \<and> cZ c = 0
     \<and> unat xoff \<le> unat (cX c) \<and> unat (cX c) < unat xoff + unat w
     \<and> unat yoff \<le> unat (cY c) \<and> unat (cY c) < unat yoff + unat h"

lemma pred_mult_add: "0 < n \<Longrightarrow> (n - 1) * k + k = n * (k :: nat)"
  by (cases n) simp_all

lemma table_size_less: "fits_table es t \<Longrightarrow> table_size es t < 2 ^ 32"
  by (auto simp: fits_table_def table_size_def)

lemma cell_bytes_ok:
  assumes "drv_alloc_ok es b a h" and "in_cells (aType a) c"
  shows "cell_bytes es a h' c = h_get h' (bptr b (cell_off es (aType a) c)) es"
  using cell_ptr_spec[of es "aType a" "bptr b 0" a c] assms
  by (simp add: drv_alloc_ok_def cell_bytes_def bptr_def)

lemma in_rect_cell:
  assumes "rect_ok t lod face xoff yoff w h" and "i < unat h" and "j < unat w"
  shows "in_cells t \<lparr>cFace = face, cLod = lod, cX = xoff + of_nat j, cY = yoff + of_nat i, cZ = 0\<rparr>
    \<and> unat (xoff + of_nat j) = unat xoff + j \<and> unat (yoff + of_nat i) = unat yoff + i"
proof -
  have dx: "drv_dim (tDimX t) lod < 2 ^ 32" "drv_dim (tDimY t) lod < 2 ^ 32"
    using lod_dim_le[of "unat (tDimX t)" "lod - 1"] lod_dim_le[of "unat (tDimY t)" "lod - 1"]
      unat_less_exp[of "tDimX t"] unat_less_exp[of "tDimY t"] by (simp_all add: drv_dim_def)
  have x: "unat (xoff + of_nat j) = unat xoff + j"
    using unat_plus_if_fits[of xoff "of_nat j"] assms dx(1) by (simp add: rect_ok_def unat_of_nat)
  have "unat yoff + i < max (drv_dim (tDimY t) lod) 1" using assms by (simp add: rect_ok_def)
  then have "unat yoff + i < 2 ^ 32" using dx(2) by (simp add: max_def split: if_splits)
  then have y: "unat (yoff + of_nat i) = unat yoff + i"
    using unat_plus_if_fits[of yoff "of_nat i"] by (simp add: unat_of_nat)
  show ?thesis using assms x y by (auto simp: in_cells_def rect_ok_def)
qed

lemma rect_cell_off:
  assumes "rect_ok t lod face xoff yoff w h" and "i < unat h" and "j < unat w"
  shows "cell_off es t \<lparr>cFace = face, cLod = lod, cX = xoff + of_nat j, cY = yoff + of_nat i, cZ = 0\<rparr>
    = cell_off es t \<lparr>cFace = face, cLod = lod, cX = xoff, cY = yoff, cZ = 0\<rparr>
      + i * row_bytes es (drv_dim (tDimX t) lod) + j * es"
  using in_rect_cell[OF assms] by (simp add: cell_off_def cell_row_def add_mult_distrib)

lemma rect_rows_fit:
  assumes "drv_alloc_ok es b a h" and "rect_ok (aType a) lod face xoff yoff w ht"
  shows "rows_fit h b (cell_off es (aType a) \<lparr>cFace = face, cLod = lod, cX = xoff, cY = yoff, cZ = 0\<rparr>)
    (row_bytes es (drv_dim (tDimX (aType a)) lod)) (unat ht) (unat w * es)"
proof -
  let ?c = "\<lambda>i j. \<lparr>cFace = face, cLod = lod, cX = xoff + of_nat j, cY = yoff + of_nat i, cZ = 0\<rparr>"
  let ?off = "cell_off es (aType a) \<lparr>cFace = face, cLod = lod, cX = xoff, cY = yoff, cZ = 0\<rparr>"
  let ?row = "row_bytes es (drv_dim (tDimX (aType a)) lod)"
  have sz: "blk_len h b = Some (table_size es (aType a))" "table_size es (aType a) < 2 ^ 64"
    using assms(1) table_size_less[of es "aType a"] by (auto simp: drv_alloc_ok_def)
  have "?off + i * ?row + unat w * es \<le> table_size es (aType a)" if i: "i < unat ht" for i
  proof -
    have w: "unat w - 1 < unat w" using assms(2) by (simp add: rect_ok_def word_less_nat_alt)
    have "in_cells (aType a) (?c i (unat w - 1))" using in_rect_cell[OF assms(2) i w] by simp
    from cell_in_bounds[OF this, of es] show ?thesis
      using rect_cell_off[OF assms(2) i w, of es] pred_mult_add[of "unat w" es] w by linarith
  qed
  then show ?thesis using sz by (auto simp: rows_fit_def)
qed

text \<open>A cell outside the rectangle has no byte in common with any of its rows.\<close>

lemma rect_frame:
  assumes "in_cells t c" and "rect_ok t lod face xoff yoff w ht" and "\<not> in_rect lod face xoff yoff w ht c"
    and "i < unat ht"
  shows "cell_off es t \<lparr>cFace = face, cLod = lod, cX = xoff, cY = yoff, cZ = 0\<rparr>
        + i * row_bytes es (drv_dim (tDimX t) lod) + unat w * es \<le> cell_off es t c
    \<or> cell_off es t c + es \<le> cell_off es t \<lparr>cFace = face, cLod = lod, cX = xoff, cY = yoff, cZ = 0\<rparr>
        + i * row_bytes es (drv_dim (tDimX t) lod)"
proof -
  let ?c = "\<lambda>j. \<lparr>cFace = face, cLod = lod, cX = xoff + of_nat j, cY = yoff + of_nat i, cZ = 0\<rparr>"
  have w: "0 < unat w" "unat w - 1 < unat w" using assms(2) by (simp_all add: rect_ok_def word_less_nat_alt)
  note first = in_rect_cell[OF assms(2,4) w(1)] and last = in_rect_cell[OF assms(2,4) w(2)]
  have ne: "c \<noteq> ?c j" if "j < unat w" for j
    using assms(3,4) in_rect_cell[OF assms(2,4) that] that by (auto simp: in_rect_def)
  have "cell_before t c (?c 0) \<or> cell_before t (?c (unat w - 1)) c"
  proof (rule ccontr)
    assume n: "\<not> ?thesis"
    then have "cell_before t (?c 0) c" "cell_before t c (?c (unat w - 1))"
      using cell_before_total[OF assms(1) first[THEN conjunct1] ne[OF w(1)]]
        cell_before_total[OF assms(1) last[THEN conjunct1] ne[OF w(2)]] by blast+
    then have same: "cFace c = face" "cLod c = lod" "cell_row t c = cell_row t (?c 0)"
      and x: "unat xoff < unat (cX c)" "unat (cX c) < unat xoff + (unat w - 1)"
      using first last by (auto simp: cell_before_def cell_row_def)
    have "cY c = yoff + of_nat i \<and> cZ c = 0"
      using cell_row_inj[OF assms(1) first[THEN conjunct1]] same by simp
    then show False
      using assms(3,4) same x first by (simp add: in_rect_def)
  qed
  then show ?thesis
  proof
    assume "cell_before t c (?c 0)"
    from cell_before_disjoint[OF assms(1) _ this, of es] first show ?thesis
      using rect_cell_off[OF assms(2,4) w(1), of es] by simp
  next
    assume "cell_before t (?c (unat w - 1)) c"
    from cell_before_disjoint[OF last[THEN conjunct1] assms(1) this, of es] show ?thesis
      using rect_cell_off[OF assms(2,4) w(2), of es] pred_mult_add[OF w(1), of es] by linarith
  qed
qed
lemma write_rows_copy:
  "\<not> aHasReferences a \<Longrightarrow>
   write_rows R a n w len dst dS src sS s = map_option (\<lambda>(d, q, s'). (q, s')) (copy_rows n len dst dS src sS s)"
proof (induction n arbitrary: dst src s)
  case (Suc n)
  then show ?case by (cases "st_memcpy dst src len s") (simp_all add: replace_refs_def)
qed simp

lemma set_uploadDeferred_ok:
  assumes "drv_alloc_ok es b a h"
  shows "\<exists>d. set_uploadDeferred a = Some (a\<lparr>aDrv := Some d\<rparr>)"
  using assms by (auto simp: drv_alloc_ok_def set_uploadDeferred_def)

lemma drv_alloc_ok_upd:
  "drv_alloc_ok es b a h \<Longrightarrow> drv_alloc_ok es b (a\<lparr>aDrv := Some d\<rparr>) h"
  by (simp add: drv_alloc_ok_def)

lemma drv_alloc_ok_heap:
  "drv_alloc_ok es b a h \<Longrightarrow> blk_len h' b = blk_len h b \<Longrightarrow> drv_alloc_ok es b a h'"
  by (simp add: drv_alloc_ok_def)

text \<open>What the driver looks up in the table for the first cell of a rectangle.\<close>

lemma rect_lookup:
  assumes "drv_alloc_ok es b a h" and "rect_ok (aType a) lod face xoff yoff w ht"
  shows "\<exists>l0 l. lod_at (aDrvState a) 0 = Some l0 \<and> lMallocPtr l0 \<noteq> nullp \<and> lod_at (aDrvState a) lod = Some l
    \<and> lStride l = of_nat (row_bytes es (drv_dim (tDimX (aType a)) lod))
    \<and> GetOffsetPtr a xoff yoff 0 lod face
        = Some (bptr b (cell_off es (aType a) \<lparr>cFace = face, cLod = lod, cX = xoff, cY = yoff, cZ = 0\<rparr>))"
proof -
  let ?d = "aDrvState a"
  let ?c = "\<lparr>cFace = face, cLod = lod, cX = xoff, cY = yoff, cZ = 0\<rparr>"
  have t: "table_ok es (aType a) (bptr b 0) ?d" "fits_table es (aType a)" "unat (aElementSizeBytes a) = es"
    using assms(1) by (simp_all add: drv_alloc_ok_def)
  have lod: "lod < unat (tLodCount (aType a))" "0 < unat (tLodCount (aType a))" "unat (tLodCount (aType a)) \<le> length (dsLod ?d)"
    using assms(2) t(1,2) by (auto simp: rect_ok_def table_ok_def fits_table_def)
  have l: "level_ok es (aType a) lod (dsLod ?d ! lod)" "lMallocPtr (dsLod ?d ! 0) = ptr_add (bptr b 0) (of_nat (level_off es (aType a) 0))"
    using t(1) lod by (simp_all add: table_ok_def)
  have st: "lStride (dsLod ?d ! lod) = of_nat (row_bytes es (drv_dim (tDimX (aType a)) lod))"
    using l(1) unat_inverse_u64[of "lStride (dsLod ?d ! lod)"] by (simp add: level_ok_def)
  have "in_cells (aType a) ?c"
    using in_rect_cell[OF assms(2), of 0 0] assms(2) by (simp add: rect_ok_def word_less_nat_alt)
  then have "GetOffsetPtr a xoff yoff 0 lod face = Some (bptr b (cell_off es (aType a) ?c))"
    using cell_ptr_spec[OF t, of ?c] bptr_add[of b 0] by (simp add: cell_ptr_def)
  moreover have "lMallocPtr (dsLod ?d ! 0) \<noteq> nullp" using l(2) by (simp add: bptr_add)
  ultimately show ?thesis using lod st by (auto simp: lod_at_def)
qed

text \<open>The bytes of the cells of a rectangle, when its rows have been copied from block \<open>c\<close>.\<close>

lemma rect_written:
  assumes ok: "drv_alloc_ok es b a h" and rect: "rect_ok (aType a) lod face xoff yoff w ht"
    and src: "rows_fit h c q sS (unat ht) (unat w * es)"
    and copied: "rows_copied h h' b (cell_off es (aType a) \<lparr>cFace = face, cLod = lod, cX = xoff, cY = yoff, cZ = 0\<rparr>)
        (row_bytes es (drv_dim (tDimX (aType a)) lod)) c q sS (unat ht) (unat w * es)"
    and cl: "in_cells (aType a) cl"
  shows "cell_bytes es a h' cl =
    (if in_rect lod face xoff yoff w ht cl
     then h_get h (bptr c (q + (unat (cY cl) - unat yoff) * sS + (unat (cX cl) - unat xoff) * es)) es
     else cell_bytes es a h cl)"
proof -
  let ?off = "cell_off es (aType a) \<lparr>cFace = face, cLod = lod, cX = xoff, cY = yoff, cZ = 0\<rparr>"
  let ?row = "row_bytes es (drv_dim (tDimX (aType a)) lod)"
  note cb = cell_bytes_ok[OF ok cl]
  note fit = rect_rows_fit[OF ok rect]
  show ?thesis
  proof (cases "in_rect lod face xoff yoff w ht cl")
    case True
    define i j where "i = unat (cY cl) - unat yoff" and "j = unat (cX cl) - unat xoff"
    have ij: "i < unat ht" "j < unat w" using True by (auto simp: in_rect_def i_def j_def)
    have "cX cl = xoff + of_nat j" "cY cl = yoff + of_nat i"
      using True in_rect_cell[OF rect ij] by (auto simp: in_rect_def i_def j_def word_unat_eq_iff)
    then have "cl = \<lparr>cFace = face, cLod = lod, cX = xoff + of_nat j, cY = yoff + of_nat i, cZ = 0\<rparr>"
      using True by (cases cl) (simp add: in_rect_def)
    then have off: "cell_off es (aType a) cl = ?off + i * ?row + j * es"
      using rect_cell_off[OF rect ij] by simp
    have jj: "j * es + es \<le> unat w * es" by (rule slot_le[OF ij(2)])
    have eq: "h_get h' (bptr b (?off + i * ?row)) (unat w * es) = h_get h (bptr c (q + i * sS)) (unat w * es)"
      using copied ij(1) by (simp add: rows_copied_def)
    obtain sz where sz: "blk_len h c = Some sz" "sz < 2 ^ 64" "q + i * sS + unat w * es \<le> sz"
      using src ij(1) by (auto simp: rows_fit_def)
    then have lt: "q + i * sS + j * es < 2 ^ 64" using jj by linarith
    have "unat (of_nat (q + i * sS) :: u64) = q + i * sS" using sz by (simp only: unat_of_nat) simp
    then obtain bs where bs: "h_get h (bptr c (q + i * sS)) (unat w * es) = Some bs"
      using h_get_fits[OF sz(1), of "of_nat (q + i * sS)" "unat w * es"] sz(3) by (auto simp: bptr_def)
    have "?off + i * ?row + j * es < 2 ^ 64"
      using cell_in_bounds[OF cl, of es] off table_size_less[of es "aType a"] ok by (simp add: drv_alloc_ok_def)
    from h_get_sub[OF eq[unfolded bs] jj this] h_get_sub[OF bs jj lt] True show ?thesis
      unfolding cb off by (simp add: i_def j_def)
  next
    case False
    have "h_disjoint (bptr b (?off + i * ?row)) (unat w * es) (bptr b (cell_off es (aType a) cl)) es"
      if i: "i < unat ht" for i
    proof -
      have "cell_off es (aType a) cl < 2 ^ 64"
        using cell_in_bounds[OF cl, of es] table_size_less[of es "aType a"] ok by (simp add: drv_alloc_ok_def)
      then show ?thesis
        using rect_frame[OF cl rect False i, of es] rows_fit_less[OF fit i] by (simp add: bptr_disjoint)
    qed
    then have "h_get h' (bptr b (cell_off es (aType a) cl)) es = h_get h (bptr b (cell_off es (aType a) cl)) es"
      using copied unfolding rows_copied_def by blast
    then show ?thesis using False unfolding cb by simp
  qed
qed

text \<open>\<open>if (!stride) stride = lineSize\<close>.\<close>

definition line_stride :: "nat \<Rightarrow> u32 \<Rightarrow> u64 \<Rightarrow> nat" where
  "line_stride es w stride = (if stride = 0 then unat w * es else unat stride)"

lemma line_size:
  assumes "drv_alloc_ok es b a h" and "rect_ok (aType a) lod face xoff yoff w ht"
  shows "ucast (aElementSizeBytes a) * ucast w = (of_nat (unat w * es) :: u64) \<and> unat w * es < 2 ^ 32
    \<and> unat w * es \<le> row_bytes es (drv_dim (tDimX (aType a)) lod)"
proof -
  have "unat w * es \<le> drv_dim (tDimX (aType a)) lod * es" using assms(2) by (simp add: rect_ok_def)
  then have le: "unat w * es \<le> row_bytes es (drv_dim (tDimX (aType a)) lod)"
    using row_bytes_ge[of "drv_dim (tDimX (aType a)) lod" es] by linarith
  have "0 < unat ht" using assms(2) by (simp add: rect_ok_def word_less_nat_alt)
  moreover obtain sz where "blk_len h b = Some sz" and "\<forall>i<unat ht.
      cell_off es (aType a) \<lparr>cFace = face, cLod = lod, cX = xoff, cY = yoff, cZ = 0\<rparr>
      + i * row_bytes es (drv_dim (tDimX (aType a)) lod) + unat w * es \<le> sz"
    using rect_rows_fit[OF assms] unfolding rows_fit_def by blast
  moreover have "blk_len h b = Some (table_size es (aType a))" using assms(1) by (simp add: drv_alloc_ok_def)
  ultimately have "unat w * es \<le> table_size es (aType a)" by force
  moreover have "table_size es (aType a) < 2 ^ 32" using assms(1) table_size_less by (simp add: drv_alloc_ok_def)
  moreover have "ucast (aElementSizeBytes a) * ucast w = (of_nat (unat w * es) :: u64)"
  proof -
    have "unat (aElementSizeBytes a) = es" using assms(1) by (simp add: drv_alloc_ok_def)
    then show ?thesis by (simp only: u32_of_nat of_nat_mult mult.commute)
  qed
  ultimately show ?thesis using le by simp
qed

lemma rect_rounds: "rect_ok t lod face xoff yoff w ht \<Longrightarrow> unat (yoff + ht) - unat yoff = unat ht"
proof -
  assume rect: "rect_ok t lod face xoff yoff w ht"
  have "drv_dim (tDimY t) lod < 2 ^ 32"
    using lod_dim_le[of "unat (tDimY t)" "lod - 1"] unat_less_exp[of "tDimY t"] by (simp add: drv_dim_def)
  then have "max (drv_dim (tDimY t) lod) 1 < 2 ^ 32" by (simp add: max_def)
  moreover have "unat yoff + unat ht \<le> max (drv_dim (tDimY t) lod) 1" using rect by (simp only: rect_ok_def)
  ultimately have "unat yoff + unat ht < 2 ^ LENGTH(32)" by simp
  then show ?thesis using unat_plus_if_fits[of yoff ht] by simp
qed

lemma Data2D_spec:
  assumes ok: "drv_alloc_ok es b a (dHeap s)" and "\<not> aHasReferences a" and "aYuv a = 0"
    and rect: "rect_ok (aType a) (unat lod) face xoff yoff w h"
    and "c \<noteq> b" and src: "rows_fit (dHeap s) c q (line_stride es w stride) (unat h) (unat w * es)"
  shows "\<exists>d h'. rsdAllocationData2D R a xoff yoff lod face w h (bptr c q) sizeBytes stride s
        = Some (a\<lparr>aDrv := Some d\<rparr>, s\<lparr>dHeap := h'\<rparr>)
      \<and> rows_copied (dHeap s) h' b
          (cell_off es (aType a) \<lparr>cFace = face, cLod = unat lod, cX = xoff, cY = yoff, cZ = 0\<rparr>)
          (row_bytes es (drv_dim (tDimX (aType a)) (unat lod))) c q (line_stride es w stride) (unat h) (unat w * es)"
proof -
  let ?off = "cell_off es (aType a) \<lparr>cFace = face, cLod = unat lod, cX = xoff, cY = yoff, cZ = 0\<rparr>"
  let ?row = "row_bytes es (drv_dim (tDimX (aType a)) (unat lod))"
  obtain l0 l where lk: "lod_at (aDrvState a) 0 = Some l0" "lMallocPtr l0 \<noteq> nullp"
      "lod_at (aDrvState a) (unat lod) = Some l" "lStride l = of_nat ?row"
      "GetOffsetPtr a xoff yoff 0 (unat lod) face = Some (bptr b ?off)"
    using rect_lookup[OF ok rect] by blast
  note ls = line_size[OF ok rect]
  obtain d where d: "set_uploadDeferred a = Some (a\<lparr>aDrv := Some d\<rparr>)"
    using set_uploadDeferred_ok[OF ok] by blast
  have stride: "(if stride = 0 then of_nat (unat w * es) else stride) = (of_nat (line_stride es w stride) :: u64)"
    by (simp add: line_stride_def)
  obtain h' where run: "copy_rows (unat h) (of_nat (unat w * es)) (bptr b ?off) (of_nat ?row) (bptr c q)
        (of_nat (line_stride es w stride)) s
       = Some (bptr b (?off + unat h * ?row), bptr c (q + unat h * line_stride es w stride), s\<lparr>dHeap := h'\<rparr>)"
    and copied: "rows_copied (dHeap s) h' b ?off ?row c q (line_stride es w stride) (unat h) (unat w * es)"
    using copy_rows_spec[OF rect_rows_fit[OF ok rect] src] assms(5) ls by auto
  have "bptr b ?off \<noteq> bptr c q" using assms(5) by (simp add: bptr_def)
  then have "rsdAllocationData2D R a xoff yoff lod face w h (bptr c q) sizeBytes stride s
      = Some (a\<lparr>aDrv := Some d\<rparr>, s\<lparr>dHeap := h'\<rparr>)"
    unfolding rsdAllocationData2D_def Let_def ls[THEN conjunct1] stride
    using lk d run assms(2,3) rect_rounds[OF rect] by (simp add: write_rows_copy)
  then show ?thesis using copied by blast
qed

lemma Read2D_spec:
  assumes ok: "drv_alloc_ok es b a (dHeap s)"
    and rect: "rect_ok (aType a) (unat lod) face xoff yoff w h"
    and "c \<noteq> b" and dst: "rows_fit (dHeap s) c q (line_stride es w stride) (unat h) (unat w * es)"
    and "unat w * es \<le> line_stride es w stride"
  shows "\<exists>h'. rsdAllocationRead2D a xoff yoff lod face w h (bptr c q) sizeBytes stride s = Some (s\<lparr>dHeap := h'\<rparr>)
      \<and> rows_copied (dHeap s) h' c q (line_stride es w stride) b
          (cell_off es (aType a) \<lparr>cFace = face, cLod = unat lod, cX = xoff, cY = yoff, cZ = 0\<rparr>)
          (row_bytes es (drv_dim (tDimX (aType a)) (unat lod))) (unat h) (unat w * es)"
proof -
  let ?off = "cell_off es (aType a) \<lparr>cFace = face, cLod = unat lod, cX = xoff, cY = yoff, cZ = 0\<rparr>"
  let ?row = "row_bytes es (drv_dim (tDimX (aType a)) (unat lod))"
  obtain l0 l where lk: "lod_at (aDrvState a) 0 = Some l0" "lMallocPtr l0 \<noteq> nullp"
      "lod_at (aDrvState a) (unat lod) = Some l" "lStride l = of_nat ?row"
      "GetOffsetPtr a xoff yoff 0 (unat lod) face = Some (bptr b ?off)"
    using rect_lookup[OF ok rect] by blast
  note ls = line_size[OF ok rect]
  have stride: "(if stride = 0 then of_nat (unat w * es) else stride) = (of_nat (line_stride es w stride) :: u64)"
    by (simp add: line_stride_def)
  obtain h' where run: "copy_rows (unat h) (of_nat (unat w * es)) (bptr c q) (of_nat (line_stride es w stride))
        (bptr b ?off) (of_nat ?row) s
       = Some (bptr c (q + unat h * line_stride es w stride), bptr b (?off + unat h * ?row), s\<lparr>dHeap := h'\<rparr>)"
    and copied: "rows_copied (dHeap s) h' c q (line_stride es w stride) b ?off ?row (unat h) (unat w * es)"
    using copy_rows_spec[OF dst rect_rows_fit[OF ok rect]] assms(3,5) ls by auto
  have "bptr c q \<noteq> bptr b ?off" using assms(3) by (simp add: bptr_def)
  then have "rsdAllocationRead2D a xoff yoff lod face w h (bptr c q) sizeBytes stride s = Some (s\<lparr>dHeap := h'\<rparr>)"
    unfolding rsdAllocationRead2D_def Let_def ls[THEN conjunct1] stride
    using lk run rect_rounds[OF rect] by simp
  then show ?thesis using copied by blast
qed
section \<open>Writing and reading rectangles\<close>

lemma cell_bytes_aDrv [simp]: "cell_bytes es (a\<lparr>aDrv := d\<rparr>) h c = cell_bytes es a h c"
  by (simp add: cell_bytes_def cell_ptr_def GetOffsetPtr_def)

text \<open>C7: A write of a rectangle changes exactly the cells of the rectangle: every cell in it gets
  the bytes of its place in the source, every other cell of every level and face keeps its bytes,
  and the allocation stays well-formed.\<close>

theorem Data2D_writes_cells:
  assumes "drv_alloc_ok es b a (dHeap s)" and "\<not> aHasReferences a" and "aYuv a = 0"
    and "rect_ok (aType a) (unat lod) face xoff yoff w h"
    and "c \<noteq> b" and "rows_fit (dHeap s) c q (line_stride es w stride) (unat h) (unat w * es)"
  shows "\<exists>a' s'. rsdAllocationData2D R a xoff yoff lod face w h (bptr c q) sizeBytes stride s = Some (a', s')
    \<and> drv_alloc_ok es b a' (dHeap s')
    \<and> (\<forall>cl. in_cells (aType a) cl \<longrightarrow> cell_bytes es a' (dHeap s') cl =
        (if in_rect (unat lod) face xoff yoff w h cl
         then h_get (dHeap s) (bptr c (q + (unat (cY cl) - unat yoff) * line_stride es w stride
                                         + (unat (cX cl) - unat xoff) * es)) es
         else cell_bytes es a (dHeap s) cl))"
proof -
  obtain d h' where run: "rsdAllocationData2D R a xoff yoff lod face w h (bptr c q) sizeBytes stride s
        = Some (a\<lparr>aDrv := Some d\<rparr>, s\<lparr>dHeap := h'\<rparr>)"
    and copied: "rows_copied (dHeap s) h' b
          (cell_off es (aType a) \<lparr>cFace = face, cLod = unat lod, cX = xoff, cY = yoff, cZ = 0\<rparr>)
          (row_bytes es (drv_dim (tDimX (aType a)) (unat lod))) c q (line_stride es w stride) (unat h) (unat w * es)"
    using Data2D_spec[OF assms] by blast
  have "drv_alloc_ok es b (a\<lparr>aDrv := Some d\<rparr>) h'"
    using assms(1) copied by (intro drv_alloc_ok_upd drv_alloc_ok_heap[OF assms(1)]) (simp add: rows_copied_def)
  then show ?thesis
    using run rect_written[OF assms(1,4,6) copied]
    by (intro exI[of _ "a\<lparr>aDrv := Some d\<rparr>"] exI[of _ "s\<lparr>dHeap := h'\<rparr>"]) simp
qed

text \<open>An allocation of three by two four-byte cells in block 0, with a source in block 1 and a
  buffer in block 2.\<close>

definition ex_env :: elem_env where
  "ex_env ob = Some (Element_new\<lparr>eBits := 32\<rparr>)"

definition ex_type :: rstype where
  "ex_type = the (Type_compute (Type_new\<lparr>tElement := Some 0, tDimX := 3, tDimY := 2\<rparr>))"

definition ex_alloc0 :: allocation where
  "ex_alloc0 = \<lparr>aType = ex_type, aTypeOb = None, aUsageFlags = 1, aMipmapControl = RS_ALLOCATION_MIPMAP_NONE,
     aYuv = 0, aElementSizeBytes = 4, aHasMipmaps = False, aHasFaces = False, aHasReferences = False,
     aUserProvidedPtr = nullp,
     aDrvState = \<lparr>dsLod = replicate 16 \<lparr>lMallocPtr = nullp, lStride = 0, lDimX = 0, lDimY = 0, lDimZ = 0\<rparr>,
        dsFaceOffset = 0, dsLodCount = 0, dsFaceCount = 0, dsYuvShift = 0, dsYuvStep = 0\<rparr>,
     aDrv = Some \<lparr>useUserProvidedPtr = False, uploadDeferred = False\<rparr>\<rparr>"

definition ex_alloc :: allocation where
  "ex_alloc = snd (the (AllocationBuildPointerTable ex_env ex_alloc0 ex_type (bptr 0 0)))"

definition ex_refenv :: "unit refenv" where
  "ex_refenv = \<lparr>reElem = ex_env, reInc = (\<lambda>ob st. Some st), reDec = (\<lambda>ob st. Some st), reFuel = 1\<rparr>"

definition ex_st :: "unit drvst" where
  "ex_st = \<lparr>dHeap = [Some (replicate 32 None), Some (map (Some \<circ> of_nat) [0..<16]), Some (replicate 16 None)],
     dRefs = (), dErrors = []\<rparr>"

lemma ex_alloc_ok: "drv_alloc_ok 4 0 ex_alloc (dHeap ex_st)"
proof -
  have "table_ok 4 (aType ex_alloc) (bptr 0 0) (aDrvState ex_alloc)" by code_simp
  moreover have "level_off 4 (aType ex_alloc) (unat (tLodCount (aType ex_alloc))) = 32"
    "unat (tLodCount (aType ex_alloc)) = 1" by code_simp+
  moreover have "unat (aElementSizeBytes ex_alloc) = 4" "blk_len (dHeap ex_st) 0 = Some (table_size 4 (aType ex_alloc))"
    "aDrv ex_alloc \<noteq> None" by code_simp+
  ultimately show ?thesis by (simp add: drv_alloc_ok_def fits_table_def MAX_LOD_def)
qed

lemma ex_alloc_facts: "\<not> aHasReferences ex_alloc" "aYuv ex_alloc = 0"
    "rect_ok (aType ex_alloc) (unat (0 :: u32)) 0 1 0 2 2"
  by code_simp+

lemma ex_rows: "rows_fit (dHeap ex_st) 1 0 (line_stride 4 2 0) (unat (2 :: u32)) (unat (2 :: u32) * 4)"
    "rows_fit (dHeap ex_st) 2 0 (line_stride 4 2 0) (unat (2 :: u32)) (unat (2 :: u32) * 4)"
proof -
  have "blk_len (dHeap ex_st) 1 = Some 16" "blk_len (dHeap ex_st) 2 = Some 16" by code_simp+
  then show "rows_fit (dHeap ex_st) 1 0 (line_stride 4 2 0) (unat (2 :: u32)) (unat (2 :: u32) * 4)"
    "rows_fit (dHeap ex_st) 2 0 (line_stride 4 2 0) (unat (2 :: u32)) (unat (2 :: u32) * 4)"
    by (auto simp: rows_fit_def line_stride_def)
qed

theorem Data2D_writes_cells_witness:
  "\<exists>a' s'. rsdAllocationData2D ex_refenv ex_alloc 1 0 0 0 2 2 (bptr 1 0) 16 0 ex_st = Some (a', s')
    \<and> cell_bytes 4 a' (dHeap s') \<lparr>cFace = 0, cLod = 0, cX = 2, cY = 1, cZ = 0\<rparr>
        = Some [Some 12, Some 13, Some 14, Some 15]
    \<and> cell_bytes 4 a' (dHeap s') \<lparr>cFace = 0, cLod = 0, cX = 0, cY = 1, cZ = 0\<rparr> = Some [None, None, None, None]"
proof -
  let ?c = "\<lparr>cFace = 0, cLod = 0, cX = 2, cY = 1, cZ = 0\<rparr>" and ?c' = "\<lparr>cFace = 0, cLod = 0, cX = 0, cY = 1, cZ = 0\<rparr>"
  have c: "in_cells (aType ex_alloc) ?c" "in_cells (aType ex_alloc) ?c'"
    "in_rect (unat (0 :: u32)) 0 1 0 2 2 ?c" "\<not> in_rect (unat (0 :: u32)) 0 1 0 2 2 ?c'"
    and src: "h_get (dHeap ex_st) (bptr 1 (0 + (unat (cY ?c) - unat (0 :: u32)) * line_stride 4 2 0
        + (unat (cX ?c) - unat (1 :: u32)) * 4)) 4 = Some [Some 12, Some 13, Some 14, Some 15]"
    and old: "cell_bytes 4 ex_alloc (dHeap ex_st) ?c' = Some [None, None, None, None]"
    by code_simp+
  obtain a' s' where run: "rsdAllocationData2D ex_refenv ex_alloc 1 0 0 0 2 2 (bptr 1 0) 16 0 ex_st = Some (a', s')"
    and cells: "\<forall>cl. in_cells (aType ex_alloc) cl \<longrightarrow> cell_bytes 4 a' (dHeap s') cl =
        (if in_rect (unat (0 :: u32)) 0 1 0 2 2 cl
         then h_get (dHeap ex_st) (bptr 1 (0 + (unat (cY cl) - unat (0 :: u32)) * line_stride 4 2 0
                                         + (unat (cX cl) - unat (1 :: u32)) * 4)) 4
         else cell_bytes 4 ex_alloc (dHeap ex_st) cl)"
    using Data2D_writes_cells[OF ex_alloc_ok ex_alloc_facts one_neq_zero ex_rows(1), of ex_refenv 16] by blast
  have "cell_bytes 4 a' (dHeap s') ?c = Some [Some 12, Some 13, Some 14, Some 15]"
    unfolding cells[rule_format, OF c(1)] if_P[OF c(3)] by (rule src)
  moreover have "cell_bytes 4 a' (dHeap s') ?c' = Some [None, None, None, None]"
    unfolding cells[rule_format, OF c(2)] if_not_P[OF c(4)] by (rule old)
  ultimately show ?thesis using run by blast
qed

text \<open>C12: What was written to a rectangle is read back from it, line by line.\<close>

theorem Data2D_Read2D_roundtrip:
  assumes "drv_alloc_ok es b a (dHeap s)" and "\<not> aHasReferences a" and "aYuv a = 0"
    and "rect_ok (aType a) (unat lod) face xoff yoff w h"
    and "c \<noteq> b" and "rows_fit (dHeap s) c q (line_stride es w stride) (unat h) (unat w * es)"
    and "e \<noteq> b" and "rows_fit (dHeap s) e r (line_stride es w stride') (unat h) (unat w * es)"
    and "unat w * es \<le> line_stride es w stride'"
  shows "\<exists>a' s1 s2. rsdAllocationData2D R a xoff yoff lod face w h (bptr c q) n stride s = Some (a', s1)
    \<and> rsdAllocationRead2D a' xoff yoff lod face w h (bptr e r) n' stride' s1 = Some s2
    \<and> (\<forall>i < unat h. h_get (dHeap s2) (bptr e (r + i * line_stride es w stride')) (unat w * es)
         = h_get (dHeap s) (bptr c (q + i * line_stride es w stride)) (unat w * es))"
proof -
  let ?off = "cell_off es (aType a) \<lparr>cFace = face, cLod = unat lod, cX = xoff, cY = yoff, cZ = 0\<rparr>"
  let ?row = "row_bytes es (drv_dim (tDimX (aType a)) (unat lod))"
  obtain d h1 where run: "rsdAllocationData2D R a xoff yoff lod face w h (bptr c q) n stride s
        = Some (a\<lparr>aDrv := Some d\<rparr>, s\<lparr>dHeap := h1\<rparr>)"
    and copied: "rows_copied (dHeap s) h1 b ?off ?row c q (line_stride es w stride) (unat h) (unat w * es)"
    using Data2D_spec[OF assms(1-6)] by blast
  let ?a = "a\<lparr>aDrv := Some d\<rparr>" and ?s = "s\<lparr>dHeap := h1\<rparr>"
  have len: "blk_len h1 x = blk_len (dHeap s) x" for x using copied by (simp add: rows_copied_def)
  have ok: "drv_alloc_ok es b ?a (dHeap ?s)"
    using len by (intro drv_alloc_ok_upd drv_alloc_ok_heap[OF assms(1)]) simp
  have fit: "rows_fit (dHeap ?s) e r (line_stride es w stride') (unat h) (unat w * es)"
    using assms(8) rows_fit_cong[of h1 "dHeap s"] len by simp
  have "rect_ok (aType ?a) (unat lod) face xoff yoff w h" using assms(4) by simp
  from Read2D_spec[OF ok this assms(7) fit assms(9)] obtain h2 where
    run2: "rsdAllocationRead2D ?a xoff yoff lod face w h (bptr e r) n' stride' ?s = Some (?s\<lparr>dHeap := h2\<rparr>)"
    and copied2: "rows_copied h1 h2 e r (line_stride es w stride') b ?off ?row (unat h) (unat w * es)"
    by auto
  have "h_get h2 (bptr e (r + i * line_stride es w stride')) (unat w * es)
      = h_get (dHeap s) (bptr c (q + i * line_stride es w stride)) (unat w * es)" if "i < unat h" for i
    using that copied copied2 by (simp add: rows_copied_def)
  then show ?thesis using run run2 by auto
qed

theorem Data2D_Read2D_roundtrip_witness:
  "\<exists>a' s1 s2. rsdAllocationData2D ex_refenv ex_alloc 1 0 0 0 2 2 (bptr 1 0) 16 0 ex_st = Some (a', s1)
    \<and> rsdAllocationRead2D a' 1 0 0 0 2 2 (bptr 2 0) 16 0 s1 = Some s2
    \<and> (\<forall>i < 2. h_get (dHeap s2) (bptr 2 (i * 8)) 8 = h_get (dHeap ex_st) (bptr 1 (i * 8)) 8)"
  using Data2D_Read2D_roundtrip[OF ex_alloc_ok ex_alloc_facts _ ex_rows(1) _ ex_rows(2), of ex_refenv 16 16]
  by (simp add: line_stride_def)

section \<open>Creation\<close>

definition plain_alloc :: "allocation \<Rightarrow> bool" where
  "plain_alloc a \<longleftrightarrow>
     length (dsLod (aDrvState a)) = MAX_LOD \<and> aUserProvidedPtr a = nullp
     \<and> \<not> has_usage a RS_ALLOCATION_USAGE_IO_OUTPUT \<and> \<not> has_usage a RS_ALLOCATION_USAGE_IO_INPUT
     \<and> (aYuv a = 0 \<or> 1 < tLodCount (aType a))"

lemma allocAlignedMemory_spec:
  assumes "avail (unat n)"
  shows "\<exists>h. allocAlignedMemory avail n z s = Some (bptr (length (dHeap s)) 0, s\<lparr>dHeap := h\<rparr>)
    \<and> blk_len h (length (dHeap s)) = Some (unat n)
    \<and> (\<forall>b < length (dHeap s). blk_len h b = blk_len (dHeap s) b)
    \<and> (\<forall>p k. fst p \<noteq> Some (length (dHeap s)) \<longrightarrow> h_get h p k = h_get (dHeap s) p k)"
proof -
  let ?b = "length (dHeap s)"
  obtain h where m: "h_malloc (dHeap s) (unat n) = ((Some ?b, 0), h)"
    by (simp add: h_malloc_def)
  have len: "blk_len h b = (if b = ?b then Some (unat n) else blk_len (dHeap s) b)" for b
    using h_malloc_blk_len[OF m] by simp
  have other: "fst p \<noteq> Some ?b \<Longrightarrow> h_get h p k = h_get (dHeap s) p k" for p k by (rule h_malloc_get[OF m])
  show ?thesis
  proof (cases z)
    case True
    obtain h1 where h1: "h_put h (Some ?b, 0) (replicate (unat n) (Some 0)) = Some h1"
      using h_put_fits[of h ?b "unat n" 0 "replicate (unat n) (Some 0)"] len by auto
    have "h_get h1 p k = h_get (dHeap s) p k" if "fst p \<noteq> Some ?b" for p k
      using h_get_put_disjoint[OF h1, of p k] other[OF that] that by (simp add: h_disjoint_def)
    then show ?thesis
      using assms True m h1 len h_put_blk_len[OF h1]
      by (auto simp: allocAlignedMemory_def h_memset_def bptr_def)
  next
    case False
    then show ?thesis using assms m len other by (auto simp: allocAlignedMemory_def bptr_def)
  qed
qed

lemma Init_spec:
  assumes "plain_alloc a" and "getElementSizeBytes (reElem R) (aType a) = Some es"
    and "fits_table (unat es) (aType a)" and "unat (aElementSizeBytes a) = unat es"
    and "avail (table_size (unat es) (aType a))"
  shows "\<exists>d dv h. rsdAllocationInit avail R a z s = Some (True, a\<lparr>aDrvState := d, aDrv := Some dv\<rparr>, s\<lparr>dHeap := h\<rparr>)
    \<and> drv_alloc_ok (unat es) (length (dHeap s)) (a\<lparr>aDrvState := d, aDrv := Some dv\<rparr>) h
    \<and> (\<forall>p k. fst p \<noteq> Some (length (dHeap s)) \<longrightarrow> h_get h p k = h_get (dHeap s) p k)"
proof -
  define drv where "drv = \<lparr>useUserProvidedPtr = False, uploadDeferred = False\<rparr>"
  define b where "b = length (dHeap s)"
  have len: "length (dsLod (aDrvState (a\<lparr>aDrv := Some drv\<rparr>))) = MAX_LOD" and
      yuv: "aYuv (a\<lparr>aDrv := Some drv\<rparr>) = 0 \<or> 1 < tLodCount (aType a)"
    using assms(1) by (simp_all add: plain_alloc_def)
  obtain sz d1 where t1: "AllocationBuildPointerTable (reElem R) (a\<lparr>aDrv := Some drv\<rparr>) (aType a) nullp
        = Some (sz, a\<lparr>aDrv := Some drv, aDrvState := d1\<rparr>)"
      "unat sz = table_size (unat es) (aType a)" "table_ok (unat es) (aType a) nullp d1"
    using pointer_table_spec[OF len assms(2,3) yuv, of nullp] by auto
  let ?a1 = "a\<lparr>aDrv := Some drv, aDrvState := d1\<rparr>"
  have len1: "length (dsLod (aDrvState ?a1)) = MAX_LOD" using t1(3) by (simp add: table_ok_def)
  have yuv1: "aYuv ?a1 = 0 \<or> 1 < tLodCount (aType a)" using yuv by simp
  obtain h where al: "allocAlignedMemory avail sz z s = Some (bptr b 0, s\<lparr>dHeap := h\<rparr>)"
    and h: "blk_len h b = Some (unat sz)" "\<forall>p k. fst p \<noteq> Some b \<longrightarrow> h_get h p k = h_get (dHeap s) p k"
    using allocAlignedMemory_spec[of avail sz z s] assms(5) t1(2) unfolding b_def by auto
  obtain sz2 d2 where t2: "AllocationBuildPointerTable (reElem R) ?a1 (aType a) (bptr b 0)
        = Some (sz2, ?a1\<lparr>aDrvState := d2\<rparr>)" "table_ok (unat es) (aType a) (bptr b 0) d2"
    using pointer_table_spec[OF len1 assms(2,3) yuv1, of "bptr b 0"] by blast
  define dv where "dv = (if aUsageFlags a AND NOT RS_ALLOCATION_USAGE_SCRIPT \<noteq> 0 then drv\<lparr>uploadDeferred := True\<rparr> else drv)"
  have "rsdAllocationInit avail R a z s = Some (True, a\<lparr>aDrvState := d2, aDrv := Some dv\<rparr>, s\<lparr>dHeap := h\<rparr>)"
    using assms(1,2) t1(1) t2(1) al
    by (simp add: rsdAllocationInit_def Let_def plain_alloc_def has_usage_def init_finish_def dv_def flip: drv_def)
  moreover have "drv_alloc_ok (unat es) b (a\<lparr>aDrvState := d2, aDrv := Some dv\<rparr>) h"
    using t2(2) assms(3,4) h(1) t1(2) by (simp add: drv_alloc_ok_def)
  ultimately show ?thesis using h(2) unfolding b_def by blast
qed

lemma Init_no_memory:
  assumes "plain_alloc a" and "getElementSizeBytes (reElem R) (aType a) = Some es"
    and "fits_table (unat es) (aType a)" and "\<not> avail (table_size (unat es) (aType a))"
  shows "\<exists>d. rsdAllocationInit avail R a z s = Some (False, a\<lparr>aDrvState := d, aDrv := None\<rparr>, s)
    \<and> table_ok (unat es) (aType a) nullp d"
proof -
  define drv where "drv = \<lparr>useUserProvidedPtr = False, uploadDeferred = False\<rparr>"
  have len: "length (dsLod (aDrvState (a\<lparr>aDrv := Some drv\<rparr>))) = MAX_LOD" and
      yuv: "aYuv (a\<lparr>aDrv := Some drv\<rparr>) = 0 \<or> 1 < tLodCount (aType a)"
    using assms(1) by (simp_all add: plain_alloc_def)
  obtain sz d1 where t1: "AllocationBuildPointerTable (reElem R) (a\<lparr>aDrv := Some drv\<rparr>) (aType a) nullp
        = Some (sz, a\<lparr>aDrv := Some drv, aDrvState := d1\<rparr>)"
      "unat sz = table_size (unat es) (aType a)" "table_ok (unat es) (aType a) nullp d1"
    using pointer_table_spec[OF len assms(2,3) yuv, of nullp] by auto
  then show ?thesis
    using assms(1,2,4)
    by (intro exI[of _ d1])
      (simp add: rsdAllocationInit_def Let_def plain_alloc_def has_usage_def allocAlignedMemory_def flip: drv_def)
qed

lemma cell_located:
  assumes ok: "drv_alloc_ok es b a h" and x: "in_cells (aType a) x"
  shows "cell_ptr a x = Some (bptr b (cell_off es (aType a) x)) \<and> h_get h (bptr b (cell_off es (aType a) x)) es \<noteq> None
    \<and> cell_off es (aType a) x + es \<le> table_size es (aType a) \<and> cell_off es (aType a) x < 2 ^ 64"
proof -
  let ?o = "cell_off es (aType a) x"
  have in_b: "?o + es \<le> table_size es (aType a)" by (rule cell_in_bounds[OF x])
  have small: "table_size es (aType a) < 2 ^ 64" using ok table_size_less[of es "aType a"] by (simp add: drv_alloc_ok_def)
  have lt: "?o < 2 ^ 64" using in_b small by linarith
  have "unat (of_nat ?o :: u64) = ?o" using lt by (simp add: unat_of_nat)
  then have "h_get h (bptr b ?o) es \<noteq> None"
    using h_get_fits[of h b "table_size es (aType a)" "of_nat ?o" es] in_b ok by (auto simp: drv_alloc_ok_def bptr_def)
  moreover have "cell_ptr a x = Some (bptr b ?o)"
    using cell_ptr_spec[of es "aType a" "bptr b 0" a x] ok x bptr_add[of b 0] by (simp add: drv_alloc_ok_def)
  ultimately show ?thesis using in_b lt by blast
qed

text \<open>C13: When memory can be had, \<open>rsdAllocationInit\<close> succeeds, and every cell of every level and
  face of the new allocation has an address inside the memory of the allocation; two different
  cells have no byte in common.\<close>

theorem Init_cells_separate:
  assumes "plain_alloc a" and "getElementSizeBytes (reElem R) (aType a) = Some es"
    and "fits_table (unat es) (aType a)" and "unat (aElementSizeBytes a) = unat es"
    and "avail (table_size (unat es) (aType a))"
    and "in_cells (aType a) c" and "in_cells (aType a) c'" and "c \<noteq> c'"
  shows "\<exists>a' s' p q. rsdAllocationInit avail R a z s = Some (True, a', s')
    \<and> cell_ptr a' c = Some p \<and> cell_ptr a' c' = Some q
    \<and> h_get (dHeap s') p (unat es) \<noteq> None \<and> h_get (dHeap s') q (unat es) \<noteq> None
    \<and> h_disjoint p (unat es) q (unat es)"
proof -
  let ?t = "aType a" and ?b = "length (dHeap s)"
  obtain a' h where run: "rsdAllocationInit avail R a z s = Some (True, a', s\<lparr>dHeap := h\<rparr>)"
    and t: "aType a' = ?t" and ok: "drv_alloc_ok (unat es) ?b a' h"
    using Init_spec[of a R es avail, OF assms(1-5), of z s] by auto
  note loc = cell_located[OF ok, unfolded t]
  have "h_disjoint (bptr ?b (cell_off (unat es) ?t c)) (unat es) (bptr ?b (cell_off (unat es) ?t c')) (unat es)"
    using cells_disjoint[OF assms(6-8), of "unat es"] loc[OF assms(6)] loc[OF assms(7)] by (simp add: bptr_disjoint)
  then show ?thesis
    using run loc[OF assms(6)] loc[OF assms(7)]
    by (intro exI[of _ a'] exI[of _ "s\<lparr>dHeap := h\<rparr>"] exI[of _ "bptr ?b (cell_off (unat es) ?t c)"]
        exI[of _ "bptr ?b (cell_off (unat es) ?t c')"]) (simp del: not_None_eq)
qed

theorem Init_cells_separate_witness:
  "\<exists>a' s' p q. rsdAllocationInit (\<lambda>n. True) ex_refenv ex_alloc0 True ex_st = Some (True, a', s')
    \<and> cell_ptr a' \<lparr>cFace = 0, cLod = 0, cX = 2, cY = 0, cZ = 0\<rparr> = Some p
    \<and> cell_ptr a' \<lparr>cFace = 0, cLod = 0, cX = 0, cY = 1, cZ = 0\<rparr> = Some q
    \<and> h_get (dHeap s') p 4 \<noteq> None \<and> h_get (dHeap s') q 4 \<noteq> None \<and> h_disjoint p 4 q 4"
proof -
  have "plain_alloc ex_alloc0" "getElementSizeBytes (reElem ex_refenv) (aType ex_alloc0) = Some 4"
    "unat (aElementSizeBytes ex_alloc0) = unat (4 :: u64)"
    "in_cells (aType ex_alloc0) \<lparr>cFace = 0, cLod = 0, cX = 2, cY = 0, cZ = 0\<rparr>"
    "in_cells (aType ex_alloc0) \<lparr>cFace = 0, cLod = 0, cX = 0, cY = 1, cZ = 0\<rparr>"
    "\<lparr>cFace = 0, cLod = 0, cX = 2, cY = 0, cZ = 0\<rparr> \<noteq> (\<lparr>cFace = 0, cLod = 0, cX = 0, cY = 1, cZ = 0\<rparr> :: cell)"
    by code_simp+
  moreover have "fits_table (unat (4 :: u64)) (aType ex_alloc0)"
  proof -
    have "level_off 4 (aType ex_alloc0) (unat (tLodCount (aType ex_alloc0))) = 32"
      "unat (tLodCount (aType ex_alloc0)) = 1" by code_simp+
    then show ?thesis by (simp add: fits_table_def MAX_LOD_def)
  qed
  ultimately show ?thesis
    using Init_cells_separate[of ex_alloc0 ex_refenv 4 "\<lambda>n. True"] by simp
qed

end
