(* ===== verification/Rs_Object.thy ===== *)
theory Rs_Object
  imports Rs_Utils "HOL-Library.Multiset"
begin

text \<open>
  The object system of \<open>rsObjectBase.h\<close> and \<open>rsObjectBase.cpp\<close>: the two reference counts of
  every object, the doubly linked list of all objects of a context, deletion with its
  cascade through the references an object holds, and the cleanup of a context.

  The objects of a context live in a list of cells, an address is an index, and a deleted
  cell is \<open>None\<close>; addresses are not used again. Using the address of a deleted object is the
  undefined outcome \<open>None\<close> of an operation. What a derived class adds is the table
  \<open>objvt\<close>: the references its destructor releases, in their order, its \<open>preDestroy\<close> and its
  \<open>freeChildren\<close>. Each operation is the body that runs under \<open>gObjectInitMutex\<close> or an
  atomic step; \<open>dumpLOGV\<close> and \<open>dumpAll\<close> only print.
\<close>

section \<open>State\<close>

record 'o objcell =
  mSysRefCount :: u32
  mUserRefCount :: u32
  mNext :: "nat option"
  mPrev :: "nat option"
  mName :: "mem option"
  obj_data :: 'o

record 'o rsc =
  mObjHead :: "nat option"
  mObjs :: "'o objcell option list"

text \<open>What a derived class overrides.\<close>

record ('o, 'st) objvt =
  vt_releases :: "'o \<Rightarrow> nat list"
  vt_preDestroy :: "nat \<Rightarrow> 'st \<Rightarrow> 'st option"
  vt_freeChildren :: "nat \<Rightarrow> 'st \<Rightarrow> (bool \<times> 'st) option"

definition ocell :: "('o, 'm) rsc_scheme \<Rightarrow> nat \<Rightarrow> 'o objcell option" where
  "ocell st ob = (if ob < length (mObjs st) then mObjs st ! ob else None)"

definition ocell_upd :: "nat \<Rightarrow> ('o objcell \<Rightarrow> 'o objcell) \<Rightarrow> ('o, 'm) rsc_scheme \<Rightarrow> ('o, 'm) rsc_scheme"
  where "ocell_upd ob f st = st\<lparr>mObjs := (mObjs st)[ob := map_option f (ocell st ob)]\<rparr>"

text \<open>A store through a pointer that may be null, as in \<open>if (p) { p->f = v; }\<close>.\<close>

definition optr_upd ::
    "nat option \<Rightarrow> ('o objcell \<Rightarrow> 'o objcell) \<Rightarrow> ('o, 'm) rsc_scheme \<Rightarrow> ('o, 'm) rsc_scheme option"
  where
  "optr_upd p f st =
     (case p of None \<Rightarrow> Some st
      | Some q \<Rightarrow> (if ocell st q = None then None else Some (ocell_upd q f st)))"

section \<open>Construction and the object list\<close>

definition ObjectBase_add :: "nat \<Rightarrow> ('o, 'm) rsc_scheme \<Rightarrow> ('o, 'm) rsc_scheme option" where
  "ObjectBase_add ob st =
     do { c \<leftarrow> ocell st ob;
          let st1 = ocell_upd ob (\<lambda>c. c\<lparr>mNext := mObjHead st\<rparr>) st;
          st2 \<leftarrow> optr_upd (mObjHead st1) (\<lambda>c. c\<lparr>mPrev := Some ob\<rparr>) st1;
          Some (st2\<lparr>mObjHead := Some ob\<rparr>) }"

text \<open>The constructor: a new cell with both counts zero, put at the head of the list.\<close>

definition ObjectBase_new :: "'o \<Rightarrow> ('o, 'm) rsc_scheme \<Rightarrow> (nat \<times> ('o, 'm) rsc_scheme) option" where
  "ObjectBase_new d st =
     do { let ob = length (mObjs st);
          let c = \<lparr>mSysRefCount = 0, mUserRefCount = 0, mNext = None, mPrev = None,
                   mName = None, obj_data = d\<rparr>;
          st' \<leftarrow> ObjectBase_add ob (st\<lparr>mObjs := mObjs st @ [Some c]\<rparr>);
          Some (ob, st') }"

definition ObjectBase_remove :: "nat \<Rightarrow> ('o, 'm) rsc_scheme \<Rightarrow> ('o, 'm) rsc_scheme option" where
  "ObjectBase_remove ob st =
     do { c \<leftarrow> ocell st ob;
          let st1 = (if mObjHead st = Some ob then st\<lparr>mObjHead := mNext c\<rparr> else st);
          st2 \<leftarrow> optr_upd (mPrev c) (\<lambda>d. d\<lparr>mNext := mNext c\<rparr>) st1;
          st3 \<leftarrow> optr_upd (mNext c) (\<lambda>d. d\<lparr>mPrev := mPrev c\<rparr>) st2;
          Some (ocell_upd ob (\<lambda>d. d\<lparr>mPrev := None, mNext := None\<rparr>) st3) }"

text \<open>The base destructor, after which the memory of the object is gone.\<close>

definition ObjectBase_destroy :: "nat \<Rightarrow> ('o, 'm) rsc_scheme \<Rightarrow> ('o, 'm) rsc_scheme option" where
  "ObjectBase_destroy ob st =
     do { c \<leftarrow> ocell st ob;
          st1 \<leftarrow> (if mPrev c \<noteq> None \<or> mNext c \<noteq> None then ObjectBase_remove ob st else Some st);
          Some (st1\<lparr>mObjs := (mObjs st1)[ob := None]\<rparr>) }"

section \<open>Names\<close>

definition setName :: "nat \<Rightarrow> u8 list \<Rightarrow> ('o, 'm) rsc_scheme \<Rightarrow> ('o, 'm) rsc_scheme option" where
  "setName ob name st =
     do { c \<leftarrow> ocell st ob;
          n \<leftarrow> c_strlen name;
          Some (ocell_upd ob (\<lambda>c. c\<lparr>mName := Some (map Some (take (n + 1) name))\<rparr>) st) }"

text \<open>\<open>calloc(len + 1)\<close>: the sum is a \<open>uint32_t\<close>.\<close>

definition setName_len ::
    "nat \<Rightarrow> mem \<Rightarrow> u32 \<Rightarrow> ('o, 'm) rsc_scheme \<Rightarrow> ('o, 'm) rsc_scheme option" where
  "setName_len ob name len st =
     do { c \<leftarrow> ocell st ob;
          bs \<leftarrow> mem_get name 0 (unat len);
          blk \<leftarrow> mem_put (replicate (unat (len + 1)) (Some 0)) 0 bs;
          Some (ocell_upd ob (\<lambda>c. c\<lparr>mName := Some blk\<rparr>) st) }"

section \<open>Reference counts and deletion\<close>

definition incUserRef :: "nat \<Rightarrow> ('o, 'm) rsc_scheme \<Rightarrow> ('o, 'm) rsc_scheme option" where
  "incUserRef ob st =
     do { c \<leftarrow> ocell st ob; Some (ocell_upd ob (\<lambda>c. c\<lparr>mUserRefCount := mUserRefCount c + 1\<rparr>) st) }"

definition incSysRef :: "nat \<Rightarrow> ('o, 'm) rsc_scheme \<Rightarrow> ('o, 'm) rsc_scheme option" where
  "incSysRef ob st =
     do { c \<leftarrow> ocell st ob; Some (ocell_upd ob (\<lambda>c. c\<lparr>mSysRefCount := mSysRefCount c + 1\<rparr>) st) }"

text \<open>The defaults of the base class.\<close>

definition ObjectBase_preDestroy :: "nat \<Rightarrow> 'st \<Rightarrow> 'st option" where
  "ObjectBase_preDestroy ob st = Some st"

definition ObjectBase_freeChildren :: "nat \<Rightarrow> 'st \<Rightarrow> (bool \<times> 'st) option" where
  "ObjectBase_freeChildren ob st = Some (False, st)"

text \<open>\<open>rel\<close> stands for \<open>decSysRef\<close>, through which the destructor of a derived class releases
  its references.\<close>

fun release_all ::
    "(nat \<Rightarrow> 'st \<Rightarrow> (bool \<times> 'st) option) \<Rightarrow> nat list \<Rightarrow> 'st \<Rightarrow> 'st option" where
  "release_all rel [] st = Some st"
| "release_all rel (k # ks) st = do { (b, st1) \<leftarrow> rel k st; release_all rel ks st1 }"

definition checkDelete_with ::
    "('o, ('o, 'm) rsc_scheme) objvt \<Rightarrow> (nat \<Rightarrow> ('o, 'm) rsc_scheme \<Rightarrow> (bool \<times> ('o, 'm) rsc_scheme) option)
     \<Rightarrow> nat option \<Rightarrow> ('o, 'm) rsc_scheme \<Rightarrow> (bool \<times> ('o, 'm) rsc_scheme) option" where
  "checkDelete_with vt rel ref st =
     (case ref of
        None \<Rightarrow> Some (False, st)
      | Some ob \<Rightarrow>
          do { c \<leftarrow> ocell st ob;
               if mUserRefCount c \<noteq> 0 \<or> mSysRefCount c \<noteq> 0 then Some (False, st)
               else do { st1 \<leftarrow> ObjectBase_remove ob st;
                         st2 \<leftarrow> vt_preDestroy vt ob st1;
                         st3 \<leftarrow> release_all rel (vt_releases vt (obj_data c)) st2;
                         st4 \<leftarrow> ObjectBase_destroy ob st3;
                         Some (True, st4) } })"

text \<open>The recursion of \<open>decSysRef\<close> through destructors, with the depth bounded by \<open>fuel\<close>.\<close>

primrec decSysRef_fuel ::
    "('o, ('o, 'm) rsc_scheme) objvt \<Rightarrow> nat \<Rightarrow> nat \<Rightarrow> ('o, 'm) rsc_scheme \<Rightarrow>
     (bool \<times> ('o, 'm) rsc_scheme) option" where
  "decSysRef_fuel vt 0 = (\<lambda>ob st. None)"
| "decSysRef_fuel vt (Suc fuel) = (\<lambda>ob st.
     do { c \<leftarrow> ocell st ob;
          let st1 = ocell_upd ob (\<lambda>c. c\<lparr>mSysRefCount := mSysRefCount c - 1\<rparr>) st;
          if sint (mSysRefCount c) \<le> 1 \<and> sint (mUserRefCount c) \<le> 0
          then checkDelete_with vt (decSysRef_fuel vt fuel) (Some ob) st1
          else Some (False, st1) })"

text \<open>A cascade deletes every object at most once, so its depth is bounded by their number.\<close>

definition decSysRef ::
    "('o, ('o, 'm) rsc_scheme) objvt \<Rightarrow> nat \<Rightarrow> ('o, 'm) rsc_scheme \<Rightarrow>
     (bool \<times> ('o, 'm) rsc_scheme) option" where
  "decSysRef vt ob st = decSysRef_fuel vt (Suc (length (mObjs st))) ob st"

definition checkDelete ::
    "('o, ('o, 'm) rsc_scheme) objvt \<Rightarrow> nat option \<Rightarrow> ('o, 'm) rsc_scheme \<Rightarrow>
     (bool \<times> ('o, 'm) rsc_scheme) option" where
  "checkDelete vt ref st = checkDelete_with vt (decSysRef vt) ref st"

definition decUserRef ::
    "('o, ('o, 'm) rsc_scheme) objvt \<Rightarrow> nat \<Rightarrow> ('o, 'm) rsc_scheme \<Rightarrow>
     (bool \<times> ('o, 'm) rsc_scheme) option" where
  "decUserRef vt ob st =
     do { c \<leftarrow> ocell st ob;
          let st1 = ocell_upd ob (\<lambda>c. c\<lparr>mUserRefCount := mUserRefCount c - 1\<rparr>) st;
          if sint (mUserRefCount c) \<le> 1 \<and> sint (mSysRefCount c) \<le> 0
          then checkDelete vt (Some ob) st1
          else Some (False, st1) }"

definition zeroUserRef ::
    "('o, ('o, 'm) rsc_scheme) objvt \<Rightarrow> nat \<Rightarrow> ('o, 'm) rsc_scheme \<Rightarrow>
     (bool \<times> ('o, 'm) rsc_scheme) option" where
  "zeroUserRef vt ob st =
     do { c \<leftarrow> ocell st ob;
          let st1 = ocell_upd ob (\<lambda>c. c\<lparr>mUserRefCount := 0\<rparr>) st;
          if sint (mSysRefCount c) \<le> 0 then checkDelete vt (Some ob) st1
          else Some (False, st1) }"

section \<open>Walks over the list of objects\<close>

partial_function (option) zeroAllUserRef_loop ::
    "('o, ('o, 'm) rsc_scheme) objvt \<Rightarrow> nat option \<Rightarrow> ('o, 'm) rsc_scheme \<Rightarrow>
     ('o, 'm) rsc_scheme option" where
  "zeroAllUserRef_loop vt p st =
     (case p of None \<Rightarrow> Some st
      | Some ob \<Rightarrow>
          Option.bind (zeroUserRef vt ob st) (\<lambda>r.
            if fst r then zeroAllUserRef_loop vt (mObjHead (snd r)) (snd r)
            else Option.bind (ocell (snd r) ob) (\<lambda>c. zeroAllUserRef_loop vt (mNext c) (snd r))))"

definition zeroAllUserRef ::
    "('o, ('o, 'm) rsc_scheme) objvt \<Rightarrow> ('o, 'm) rsc_scheme \<Rightarrow> ('o, 'm) rsc_scheme option" where
  "zeroAllUserRef vt st = zeroAllUserRef_loop vt (mObjHead st) st"

partial_function (option) freeAllChildren_loop ::
    "('o, ('o, 'm) rsc_scheme) objvt \<Rightarrow> nat option \<Rightarrow> ('o, 'm) rsc_scheme \<Rightarrow>
     ('o, 'm) rsc_scheme option" where
  "freeAllChildren_loop vt p st =
     (case p of None \<Rightarrow> Some st
      | Some ob \<Rightarrow>
          Option.bind (vt_freeChildren vt ob st) (\<lambda>r.
            if fst r then freeAllChildren_loop vt (mObjHead (snd r)) (snd r)
            else Option.bind (ocell (snd r) ob) (\<lambda>c. freeAllChildren_loop vt (mNext c) (snd r))))"

definition freeAllChildren ::
    "('o, ('o, 'm) rsc_scheme) objvt \<Rightarrow> ('o, 'm) rsc_scheme \<Rightarrow> ('o, 'm) rsc_scheme option" where
  "freeAllChildren vt st = freeAllChildren_loop vt (mObjHead st) st"

partial_function (option) isValid_loop ::
    "nat option \<Rightarrow> nat option \<Rightarrow> ('o, 'm) rsc_scheme \<Rightarrow> bool option" where
  "isValid_loop p obj st =
     (case p of None \<Rightarrow> Some False
      | Some ob \<Rightarrow>
          if p = obj then Some True
          else Option.bind (ocell st ob) (\<lambda>c. isValid_loop (mNext c) obj st))"

definition isValid :: "nat option \<Rightarrow> ('o, 'm) rsc_scheme \<Rightarrow> bool option" where
  "isValid obj st = isValid_loop (mObjHead st) obj st"

section \<open>References held by C++ objects\<close>

text \<open>\<open>ObjectBaseRef\<close>: the pointer is the first component of the result.\<close>

definition ObjectBaseRef_copy ::
    "nat option \<Rightarrow> ('o, 'm) rsc_scheme \<Rightarrow> (nat option \<times> ('o, 'm) rsc_scheme) option" where
  "ObjectBaseRef_copy ref st =
     (case ref of None \<Rightarrow> Some (None, st)
      | Some ob \<Rightarrow> do { st' \<leftarrow> incSysRef ob st; Some (Some ob, st') })"

definition ObjectBaseRef_clear ::
    "('o, ('o, 'm) rsc_scheme) objvt \<Rightarrow> nat option \<Rightarrow> ('o, 'm) rsc_scheme \<Rightarrow>
     (nat option \<times> ('o, 'm) rsc_scheme) option" where
  "ObjectBaseRef_clear vt mRef st =
     (case mRef of None \<Rightarrow> Some (None, st)
      | Some ob \<Rightarrow> do { (b, st') \<leftarrow> decSysRef vt ob st; Some (None, st') })"

definition ObjectBaseRef_set ::
    "('o, ('o, 'm) rsc_scheme) objvt \<Rightarrow> nat option \<Rightarrow> nat option \<Rightarrow> ('o, 'm) rsc_scheme \<Rightarrow>
     (nat option \<times> ('o, 'm) rsc_scheme) option" where
  "ObjectBaseRef_set vt mRef ref st =
     (if mRef \<noteq> ref
      then do { (r, st1) \<leftarrow> ObjectBaseRef_clear vt mRef st; ObjectBaseRef_copy ref st1 }
      else Some (mRef, st))"

section \<open>Cells\<close>

lemma ocell_upd_length [simp]: "length (mObjs (ocell_upd ob f st)) = length (mObjs st)"
  by (simp add: ocell_upd_def)

lemma ocell_upd_head [simp]: "mObjHead (ocell_upd ob f st) = mObjHead st"
  by (simp add: ocell_upd_def)

lemma ocell_head_upd [simp]: "ocell (st\<lparr>mObjHead := p\<rparr>) = ocell st"
  by (rule ext) (simp add: ocell_def)

lemma ocell_ocell_upd:
  "ocell (ocell_upd ob f st) x = (if x = ob then map_option f (ocell st ob) else ocell st x)"
  by (auto simp: ocell_def ocell_upd_def)

lemma optr_upd_None [simp]: "optr_upd None f st = Some st"
  by (simp add: optr_upd_def)

lemma optr_upd_Some: "ocell st q = Some c \<Longrightarrow> optr_upd (Some q) f st = Some (ocell_upd q f st)"
  by (simp add: optr_upd_def)

text \<open>The two parts of a cell: the links of the object list, and the rest.\<close>

definition olinks :: "'o objcell option \<Rightarrow> (nat option \<times> nat option) option" where
  "olinks = map_option (\<lambda>c. (mPrev c, mNext c))"

definition ostats :: "'o objcell option \<Rightarrow> (u32 \<times> u32 \<times> mem option \<times> 'o) option" where
  "ostats = map_option (\<lambda>c. (mSysRefCount c, mUserRefCount c, mName c, obj_data c))"

lemma olinks_simps [simp]:
  "olinks None = None" "olinks (Some c) = Some (mPrev c, mNext c)"
  "olinks (map_option (\<lambda>c. c\<lparr>mSysRefCount := f c\<rparr>) d) = olinks d"
  "olinks (map_option (\<lambda>c. c\<lparr>mUserRefCount := f c\<rparr>) d) = olinks d"
  "olinks (map_option (\<lambda>c. c\<lparr>mName := n c\<rparr>) d) = olinks d"
  by (simp_all add: olinks_def option.map_comp comp_def)

lemma ostats_simps [simp]:
  "ostats None = None"
  "ostats (Some c) = Some (mSysRefCount c, mUserRefCount c, mName c, obj_data c)"
  "ostats (map_option (\<lambda>c. c\<lparr>mNext := p c\<rparr>) d) = ostats d"
  "ostats (map_option (\<lambda>c. c\<lparr>mPrev := p c\<rparr>) d) = ostats d"
  "ostats (map_option (\<lambda>c. c\<lparr>mPrev := p c, mNext := q c\<rparr>) d) = ostats d"
  by (simp_all add: ostats_def option.map_comp comp_def)

lemma olinks_eq_Some: "olinks d = Some (p, n) \<longleftrightarrow> (\<exists>c. d = Some c \<and> mPrev c = p \<and> mNext c = n)"
  by (cases d) auto

section \<open>The doubly linked list\<close>

text \<open>\<open>dseg h pr p xs pr' p'\<close>: the cells \<open>xs\<close> form a segment of a doubly linked list that is
  entered at \<open>p\<close> with predecessor \<open>pr\<close> and left towards \<open>p'\<close> with last cell \<open>pr'\<close>.\<close>

fun dseg :: "(nat \<Rightarrow> 'o objcell option) \<Rightarrow> nat option \<Rightarrow> nat option \<Rightarrow> nat list \<Rightarrow>
    nat option \<Rightarrow> nat option \<Rightarrow> bool" where
  "dseg h pr p [] pr' p' \<longleftrightarrow> p = p' \<and> pr = pr'"
| "dseg h pr p (x # xs) pr' p' \<longleftrightarrow> p = Some x \<and>
     (case h x of None \<Rightarrow> False | Some c \<Rightarrow> mPrev c = pr \<and> dseg h (Some x) (mNext c) xs pr' p')"

definition dlist :: "('o, 'm) rsc_scheme \<Rightarrow> nat list \<Rightarrow> bool" where
  "dlist st xs \<longleftrightarrow> distinct xs \<and> (\<exists>l. dseg (ocell st) None (mObjHead st) xs l None)"

lemma dseg_append:
  "dseg h pr p (xs @ ys) pr' p' \<longleftrightarrow> (\<exists>q r. dseg h pr p xs q r \<and> dseg h q r ys pr' p')"
  by (induction xs arbitrary: pr p) (auto split: option.splits)

text \<open>Only the links of the segment's own cells matter.\<close>

lemma dseg_cong:
  assumes "\<And>x. x \<in> set xs \<Longrightarrow>
    olinks (h x) = olinks (h' x)"
  shows "dseg h pr p xs pr' p' = dseg h' pr p xs pr' p'"
  using assms
proof (induction xs arbitrary: pr p)
  case Nil
  then show ?case by simp
next
  case (Cons x xs)
  have "olinks (h x) = olinks (h' x)"
    using Cons.prems by simp
  with Cons show ?case by (cases "h x"; cases "h' x") auto
qed

lemma dseg_first:
  assumes "dseg h pr p (x # xs) pr' p'" and "x \<notin> set xs"
    and "h' x = map_option (\<lambda>c. c\<lparr>mPrev := q\<rparr>) (h x)"
    and "\<And>y. y \<in> set xs \<Longrightarrow>
      olinks (h' y) = olinks (h y)"
  shows "dseg h' q p (x # xs) pr' p'"
  using assms dseg_cong[of xs h' h] by (auto split: option.splits)

lemma dseg_last:
  assumes "dseg h pr p (xs @ [z]) l r" and "z \<notin> set xs"
    and "h' z = map_option (\<lambda>c. c\<lparr>mNext := q\<rparr>) (h z)"
    and "\<And>y. y \<in> set xs \<Longrightarrow>
      olinks (h' y) = olinks (h y)"
  shows "dseg h' pr p (xs @ [z]) l q"
  using assms dseg_cong[of xs h' h] by (fastforce simp: dseg_append split: option.splits)

lemma dseg_cell: "dseg h pr p xs l r \<Longrightarrow> x \<in> set xs \<Longrightarrow> \<exists>c. h x = Some c"
  by (induction xs arbitrary: pr p) (auto split: option.splits)

lemma dlist_cell: "dlist st xs \<Longrightarrow> x \<in> set xs \<Longrightarrow> \<exists>c. ocell st x = Some c"
  using dseg_cell by (fastforce simp: dlist_def)

lemma dlist_cong:
  assumes "dlist st xs" and "mObjHead st' = mObjHead st"
    and "\<And>x. x \<in> set xs \<Longrightarrow>
      olinks (ocell st' x) = olinks (ocell st x)"
  shows "dlist st' xs"
  using assms dseg_cong[of xs "ocell st'" "ocell st"] by (simp add: dlist_def)

text \<open>The constructor puts the new object in front.\<close>

lemma ObjectBase_new_spec:
  assumes "dlist st xs" and x: "\<And>x. x \<in> set xs \<Longrightarrow> x < length (mObjs st)"
  shows "\<exists>st'. ObjectBase_new d st = Some (length (mObjs st), st') \<and> dlist st' (length (mObjs st) # xs)
    \<and> (\<exists>c. ocell st' (length (mObjs st)) = Some c \<and> mSysRefCount c = 0 \<and> mUserRefCount c = 0 \<and> obj_data c = d)
    \<and> (\<forall>x. x \<noteq> length (mObjs st) \<longrightarrow>
        ostats (ocell st' x)
        = ostats (ocell st x))"
proof -
  let ?n = "length (mObjs st)"
  let ?c = "\<lparr>mSysRefCount = 0, mUserRefCount = 0, mNext = None, mPrev = None, mName = None, obj_data = d\<rparr>"
  define s0 where "s0 = st\<lparr>mObjs := mObjs st @ [Some ?c]\<rparr>"
  define s1 where "s1 = ocell_upd ?n (\<lambda>c. c\<lparr>mNext := mObjHead st\<rparr>) s0"
  have c0: "ocell s0 x = (if x = ?n then Some ?c else ocell st x)" for x
    by (simp add: s0_def ocell_def nth_append)
  have c1: "ocell s1 x = (if x = ?n then Some (?c\<lparr>mNext := mObjHead st\<rparr>) else ocell st x)" for x
    by (simp add: s1_def ocell_ocell_upd c0)
  have h: "mObjHead s0 = mObjHead st" "mObjHead s1 = mObjHead st" by (simp_all add: s0_def s1_def)
  have nin: "?n \<notin> set xs" using x by blast
  have "ocell s0 ?n = Some ?c" using c0 by simp
  then have new: "ObjectBase_new d st =
      do { s2 \<leftarrow> optr_upd (mObjHead s1) (\<lambda>c. c\<lparr>mPrev := Some ?n\<rparr>) s1; Some (?n, s2\<lparr>mObjHead := Some ?n\<rparr>) }"
    unfolding ObjectBase_new_def ObjectBase_add_def Let_def s0_def[symmetric] s1_def by (simp add: h(1))
  from assms(1) obtain l where l: "dseg (ocell st) None (mObjHead st) xs l None" and d: "distinct xs"
    by (auto simp: dlist_def)
  show ?thesis
  proof (cases xs)
    case Nil
    then have hd: "mObjHead st = None" using l by simp
    have "ObjectBase_new d st = Some (?n, s1\<lparr>mObjHead := Some ?n\<rparr>)"
      using h hd by (simp add: new)
    then show ?thesis using Nil hd by (simp add: dlist_def c1)
  next
    case (Cons y ys)
    then have hd: "mObjHead st = Some y" and cy: "ocell st y \<noteq> None"
      using l by (auto split: option.splits)
    have yn: "y \<noteq> ?n" using nin Cons by auto
    define s2 where "s2 = ocell_upd y (\<lambda>c. c\<lparr>mPrev := Some ?n\<rparr>) s1"
    have "optr_upd (mObjHead s1) (\<lambda>c. c\<lparr>mPrev := Some ?n\<rparr>) s1 = Some s2"
      using cy yn h hd by (simp add: optr_upd_def s2_def c1)
    then have eq: "ObjectBase_new d st = Some (?n, s2\<lparr>mObjHead := Some ?n\<rparr>)"
      by (simp add: new)
    have c2: "ocell s2 x = (if x = y then map_option (\<lambda>c. c\<lparr>mPrev := Some ?n\<rparr>) (ocell st y)
        else if x = ?n then Some (?c\<lparr>mNext := mObjHead st\<rparr>) else ocell st x)" for x
      using yn by (simp add: s2_def ocell_ocell_upd c1)
    have "dseg (ocell s2) (Some ?n) (Some y) (y # ys) l None"
    proof (rule dseg_first[of "ocell st" None])
      show "dseg (ocell st) None (Some y) (y # ys) l None" using l by (simp only: Cons hd)
      show yys: "y \<notin> set ys" using d Cons by simp
      show "ocell s2 y = map_option (\<lambda>c. c\<lparr>mPrev := Some ?n\<rparr>) (ocell st y)" by (simp add: c2)
      fix z assume "z \<in> set ys"
      then have "z \<noteq> y" "z \<noteq> ?n" using yys nin Cons by auto
      then show "olinks (ocell s2 z)
          = olinks (ocell st z)" by (simp add: c2)
    qed
    then have "dlist (s2\<lparr>mObjHead := Some ?n\<rparr>) (?n # xs)"
      using Cons d nin hd yn by (auto simp: dlist_def c2 split: option.splits)
    moreover have "ostats (ocell s2 x)
        = ostats (ocell st x)"
      if "x \<noteq> ?n" for x
      using that by (simp add: c2)
    ultimately show ?thesis using eq c2[of ?n] yn by simp
  qed
qed
lemma dseg_head: "dseg h pr p xs l r \<Longrightarrow> p = (if xs = [] then r else Some (hd xs))"
  by (cases xs) auto

lemma dseg_exit: "dseg h pr p xs l r \<Longrightarrow> l = (if xs = [] then pr else Some (last xs))"
  by (induction xs arbitrary: pr p) (auto split: option.splits if_splits)

text \<open>Unlinking one cell of a segment.\<close>

lemma dseg_remove:
  assumes seg: "dseg h None hd0 (xs @ x # ys) l None" and d: "distinct (xs @ x # ys)"
    and c: "h x = Some c"
    and h': "\<And>w. w \<noteq> x \<Longrightarrow> h' w =
      (if mPrev c = Some w then map_option (\<lambda>d. d\<lparr>mNext := mNext c\<rparr>) (h w)
       else if mNext c = Some w then map_option (\<lambda>d. d\<lparr>mPrev := mPrev c\<rparr>) (h w) else h w)"
  shows "\<exists>l'. dseg h' None (if hd0 = Some x then mNext c else hd0) (xs @ ys) l' None"
proof -
  obtain q where xs: "dseg h None hd0 xs q (Some x)" and q: "mPrev c = q"
    and ys: "dseg h (Some x) (mNext c) ys l None"
    using seg c by (auto simp: dseg_append)
  have qx: "q = (if xs = [] then None else Some (last xs))" by (rule dseg_exit[OF xs])
  have ny: "mNext c = (if ys = [] then None else Some (hd ys))" by (rule dseg_head[OF ys])
  have h0: "hd0 = (if xs = [] then Some x else Some (hd xs))" by (rule dseg_head[OF xs])
  have px: "w \<in> set xs" if "mPrev c = Some w" for w using that q qx by (auto split: if_splits)
  have nx: "w \<in> set ys" if "mNext c = Some w" for w using that ny by (auto split: if_splits)
  have left: "dseg h' None (if hd0 = Some x then mNext c else hd0) xs q (mNext c)"
  proof (cases xs rule: rev_cases)
    case Nil
    then show ?thesis using qx h0 by simp
  next
    case (snoc us z)
    have hx: "hd0 \<noteq> Some x" using h0 d snoc by (cases us) auto
    have "dseg h' None hd0 (us @ [z]) q (mNext c)"
    proof (rule dseg_last)
      show "dseg h None hd0 (us @ [z]) q (Some x)" using xs snoc by simp
      show "z \<notin> set us" using d snoc by simp
      show "h' z = map_option (\<lambda>d. d\<lparr>mNext := mNext c\<rparr>) (h z)"
        using h'[of z] d snoc q qx by simp
      fix w assume w: "w \<in> set us"
      then have "w \<noteq> x" "mPrev c \<noteq> Some w" "mNext c \<noteq> Some w"
        using d snoc q qx nx[of w] by (auto simp: disjoint_iff split: if_splits)
      then show "olinks (h' w) = olinks (h w)" by (simp add: h')
    qed
    then show ?thesis using hx snoc by simp
  qed
  have "\<exists>l'. dseg h' q (mNext c) ys l' None"
  proof (cases ys)
    case Nil
    then show ?thesis using ny by simp
  next
    case (Cons y vs)
    have "dseg h' q (mNext c) (y # vs) l None"
    proof (rule dseg_first)
      show "dseg h (Some x) (mNext c) (y # vs) l None" using ys Cons by simp
      show "y \<notin> set vs" using d Cons by simp
      have "y \<noteq> x" "mPrev c \<noteq> Some y" using d Cons px[of y] by auto
      then show "h' y = map_option (\<lambda>d. d\<lparr>mPrev := q\<rparr>) (h y)"
        using h'[of y] Cons q ny by simp
      fix w assume w: "w \<in> set vs"
      then have "w \<noteq> x" "mPrev c \<noteq> Some w" "mNext c \<noteq> Some w"
        using d Cons ny px[of w] by (auto simp: disjoint_iff)
      then show "olinks (h' w) = olinks (h w)" by (simp add: h')
    qed
    then show ?thesis using Cons by blast
  qed
  with left show ?thesis unfolding dseg_append by blast
qed

lemma ObjectBase_remove_spec:
  assumes dl: "dlist st zs" and x: "x \<in> set zs"
  shows "\<exists>st'. ObjectBase_remove x st = Some st' \<and> dlist st' (remove1 x zs)
    \<and> (\<forall>w. ostats (ocell st' w) = ostats (ocell st w)) \<and> olinks (ocell st' x) = Some (None, None)
    \<and> (\<forall>w. w \<notin> set zs \<longrightarrow> ocell st' w = ocell st w) \<and> length (mObjs st') = length (mObjs st)"
proof -
  obtain xs ys where zs: "zs = xs @ x # ys" and nx: "x \<notin> set xs"
    using x by (metis split_list_first)
  from dl obtain l where seg: "dseg (ocell st) None (mObjHead st) (xs @ x # ys) l None"
    and d: "distinct (xs @ x # ys)"
    by (auto simp: dlist_def zs)
  obtain c where c: "ocell st x = Some c" using dlist_cell[OF dl x] by blast
  obtain q where xs: "dseg (ocell st) None (mObjHead st) xs q (Some x)" and q: "mPrev c = q"
    and ys: "dseg (ocell st) (Some x) (mNext c) ys l None"
    using seg c by (auto simp: dseg_append)
  have qx: "q = (if xs = [] then None else Some (last xs))" by (rule dseg_exit[OF xs])
  have ny: "mNext c = (if ys = [] then None else Some (hd ys))" by (rule dseg_head[OF ys])
  define s1 where "s1 = (if mObjHead st = Some x then st\<lparr>mObjHead := mNext c\<rparr> else st)"
  define s2 where "s2 = (case mPrev c of None \<Rightarrow> s1 | Some z \<Rightarrow> ocell_upd z (\<lambda>d. d\<lparr>mNext := mNext c\<rparr>) s1)"
  define s3 where "s3 = (case mNext c of None \<Rightarrow> s2 | Some z \<Rightarrow> ocell_upd z (\<lambda>d. d\<lparr>mPrev := mPrev c\<rparr>) s2)"
  define s4 where "s4 = ocell_upd x (\<lambda>d. d\<lparr>mPrev := None, mNext := None\<rparr>) s3"
  have c1: "ocell s1 w = ocell st w" for w by (simp add: s1_def)
  have zin: "z \<in> set xs" if "mPrev c = Some z" for z
    using that q qx by (auto split: if_splits)
  have yin: "z \<in> set ys" if "mNext c = Some z" for z
    using that ny by (auto split: if_splits)
  have c2: "ocell s2 w = (if mPrev c = Some w then map_option (\<lambda>d. d\<lparr>mNext := mNext c\<rparr>) (ocell st w)
      else ocell st w)" for w
    by (auto simp: s2_def ocell_ocell_upd c1 split: option.split)
  have c3: "ocell s3 w = (if mPrev c = Some w then map_option (\<lambda>d. d\<lparr>mNext := mNext c\<rparr>) (ocell st w)
      else if mNext c = Some w then map_option (\<lambda>d. d\<lparr>mPrev := mPrev c\<rparr>) (ocell st w)
      else ocell st w)" for w
  proof (cases "mNext c")
    case None
    then show ?thesis by (simp add: s3_def c2)
  next
    case (Some z)
    then have "mPrev c \<noteq> Some z" using yin zin d by (auto simp: disjoint_iff)
    then show ?thesis using Some by (auto simp: s3_def ocell_ocell_upd c2)
  qed
  have u2: "optr_upd (mPrev c) (\<lambda>d. d\<lparr>mNext := mNext c\<rparr>) s1 = Some s2"
  proof (cases "mPrev c")
    case (Some z)
    then have "ocell s1 z \<noteq> None" using dlist_cell[OF dl, of z] zin zs c1 by auto
    then show ?thesis using Some by (simp add: s2_def optr_upd_def)
  qed (simp add: s2_def)
  have u3: "optr_upd (mNext c) (\<lambda>d. d\<lparr>mPrev := mPrev c\<rparr>) s2 = Some s3"
  proof (cases "mNext c")
    case (Some z)
    then have "ocell s2 z \<noteq> None" using dlist_cell[OF dl, of z] yin zs c2 by auto
    then show ?thesis using Some by (simp add: s3_def optr_upd_def)
  qed (simp add: s3_def)
  have eq: "ObjectBase_remove x st = Some s4"
    by (simp only: ObjectBase_remove_def c Option.bind.simps Let_def s1_def[symmetric] u2 u3 s4_def)
  have hd4: "mObjHead s4 = (if mObjHead st = Some x then mNext c else mObjHead st)"
    by (simp add: s4_def s3_def s2_def s1_def split: option.split)
  have c4: "ocell s4 w = ocell s3 w" if "w \<noteq> x" for w
    using that by (simp add: s4_def ocell_ocell_upd)
  have px: "mPrev c \<noteq> Some x" "mNext c \<noteq> Some x" using zin yin d by auto
  have c4x: "ocell s4 x = Some (c\<lparr>mPrev := None, mNext := None\<rparr>)"
    using px by (simp add: s4_def ocell_ocell_upd c3 c)
  have "\<exists>l'. dseg (ocell s4) None (mObjHead s4) (xs @ ys) l' None"
    unfolding hd4 by (rule dseg_remove[OF seg d c]) (simp add: c4 c3)
  then have "dlist s4 (remove1 x zs)" using d nx by (simp add: dlist_def zs remove1_append)
  moreover have "ostats (ocell s4 w) = ostats (ocell st w)" for w
    by (cases "w = x") (simp_all add: c4 c4x c3 c)
  moreover have "ocell s4 w = ocell st w" if "w \<notin> set zs" for w
    using that zin yin zs x by (cases "w = x") (auto simp: c4 c3)
  moreover have "length (mObjs s4) = length (mObjs st)"
    by (simp add: s4_def s3_def s2_def s1_def split: option.split)
  ultimately show ?thesis using eq c4x by auto
qed

section \<open>The reference count invariant\<close>

definition okids :: "('o, 'st) objvt \<Rightarrow> ('o, 'm) rsc_scheme \<Rightarrow> nat \<Rightarrow> nat list" where
  "okids vt st x = (case ocell st x of None \<Rightarrow> [] | Some c \<Rightarrow> vt_releases vt (obj_data c))"

text \<open>All references the objects \<open>xs\<close> hold.\<close>

definition held :: "('o, 'st) objvt \<Rightarrow> ('o, 'm) rsc_scheme \<Rightarrow> nat list \<Rightarrow> nat multiset" where
  "held vt st xs = mset (concat (map (okids vt st) xs))"

text \<open>\<open>R\<close> is the multiset of system references that code outside the objects holds (stack
  variables, members of the context, releases still to be done). The system count of every
  object is the number of references to it, and every reference is to an object of the
  list.\<close>

definition rc_inv :: "('o, 'st) objvt \<Rightarrow> nat multiset \<Rightarrow> nat list \<Rightarrow> ('o, 'm) rsc_scheme \<Rightarrow> bool" where
  "rc_inv vt R xs st \<longleftrightarrow> dlist st xs \<and> set_mset (held vt st xs + R) \<subseteq> set xs \<and>
     (\<forall>ob\<in>set xs. \<exists>c. ocell st ob = Some c \<and> 0 \<le> sint (mUserRefCount c) \<and>
        sint (mSysRefCount c) = int (count (held vt st xs + R) ob))"

definition no_garbage :: "nat list \<Rightarrow> ('o, 'm) rsc_scheme \<Rightarrow> bool" where
  "no_garbage xs st \<longleftrightarrow>
     (\<forall>ob\<in>set xs. \<forall>c. ocell st ob = Some c \<longrightarrow> mUserRefCount c \<noteq> 0 \<or> mSysRefCount c \<noteq> 0)"

text \<open>What a release leaves alone: objects that survive keep their user count, name and data;
  cells outside the list do not change; only objects without user references are deleted,
  and their cells are gone; no object without references is left behind.\<close>

definition omisc :: "'o objcell option \<Rightarrow> (u32 \<times> mem option \<times> 'o) option" where
  "omisc = map_option (\<lambda>c. (mUserRefCount c, mName c, obj_data c))"

definition rel_post ::
    "nat list \<Rightarrow> ('o, 'm) rsc_scheme \<Rightarrow> nat list \<Rightarrow> ('o, 'm) rsc_scheme \<Rightarrow> bool" where
  "rel_post xs st xs' st' \<longleftrightarrow> set xs' \<subseteq> set xs \<and> length xs' \<le> length xs
     \<and> (\<forall>w\<in>set xs'. omisc (ocell st' w) = omisc (ocell st w))
     \<and> (\<forall>w. w \<notin> set xs \<longrightarrow> ocell st' w = ocell st w)
     \<and> (\<forall>w\<in>set xs - set xs'. ocell st' w = None \<and>
          (\<exists>c. ocell st w = Some c \<and> mUserRefCount c = 0))
     \<and> length (mObjs st') = length (mObjs st)
     \<and> (no_garbage xs st \<longrightarrow> no_garbage xs' st')"

lemma rel_post_refl: "rel_post xs st xs st"
  by (simp add: rel_post_def)

lemma rel_post_trans:
  assumes "rel_post xs st xs1 st1" and "rel_post xs1 st1 xs2 st2"
  shows "rel_post xs st xs2 st2"
proof -
  have "ocell st2 w = None \<and> (\<exists>c. ocell st w = Some c \<and> mUserRefCount c = 0)"
    if w: "w \<in> set xs - set xs2" for w
  proof (cases "w \<in> set xs1")
    case True
    then have "w \<in> set xs1 - set xs2" using w by blast
    with assms(2) obtain c where "ocell st2 w = None" "ocell st1 w = Some c" "mUserRefCount c = 0"
      unfolding rel_post_def by blast
    moreover have "omisc (ocell st1 w) = omisc (ocell st w)"
      using assms(1) True by (simp add: rel_post_def)
    ultimately show ?thesis by (cases "ocell st w") (auto simp: omisc_def)
  next
    case False
    then have "ocell st2 w = ocell st1 w" using assms(2) by (simp add: rel_post_def)
    moreover have "ocell st1 w = None" "\<exists>c. ocell st w = Some c \<and> mUserRefCount c = 0"
      using assms(1) w False unfolding rel_post_def by blast+
    ultimately show ?thesis by simp
  qed
  moreover have "set xs2 \<subseteq> set xs" "length xs2 \<le> length xs"
    using assms by (auto simp: rel_post_def)
  moreover have "\<forall>w\<in>set xs2. omisc (ocell st2 w) = omisc (ocell st w)"
    using assms by (auto simp: rel_post_def)
  moreover have "\<forall>w. w \<notin> set xs \<longrightarrow> ocell st2 w = ocell st w"
    using assms unfolding rel_post_def by (metis subsetD)
  moreover have "length (mObjs st2) = length (mObjs st)" "no_garbage xs st \<longrightarrow> no_garbage xs2 st2"
    using assms by (auto simp: rel_post_def)
  ultimately show ?thesis by (simp add: rel_post_def)
qed

lemma okids_cong: "ostats (ocell st' x) = ostats (ocell st x) \<Longrightarrow> okids vt st' x = okids vt st x"
  by (cases "ocell st' x"; cases "ocell st x") (auto simp: okids_def)

lemma held_cong:
  "(\<And>x. x \<in> set xs \<Longrightarrow> okids vt st' x = okids vt st x) \<Longrightarrow> held vt st' xs = held vt st xs"
  unfolding held_def by (metis map_cong)

lemma held_remove1:
  "x \<in> set xs \<Longrightarrow> held vt st xs = held vt st (remove1 x xs) + mset (okids vt st x)"
  by (induction xs) (auto simp: held_def)

lemma rc_inv_cong:
  assumes "rc_inv vt R xs st" and "dlist st' xs"
    and "\<And>x. x \<in> set xs \<Longrightarrow> ostats (ocell st' x) = ostats (ocell st x)"
  shows "rc_inv vt R xs st'"
proof -
  have h: "held vt st' xs = held vt st xs"
    using assms(3) by (intro held_cong okids_cong)
  have "\<exists>c. ocell st' ob = Some c \<and> 0 \<le> sint (mUserRefCount c) \<and>
        sint (mSysRefCount c) = int (count (held vt st xs + R) ob)" if "ob \<in> set xs" for ob
    using assms(1) assms(3)[OF that] that
    by (cases "ocell st' ob"; cases "ocell st ob") (auto simp: rc_inv_def)
  with assms(1,2) h show ?thesis by (simp add: rc_inv_def)
qed

lemma rc_inv_cell:
  assumes "rc_inv vt R xs st" and "ob \<in> set xs"
  obtains c where "ocell st ob = Some c" "0 \<le> sint (mUserRefCount c)"
    "sint (mSysRefCount c) = int (count (held vt st xs + R) ob)"
  using assms by (auto simp: rc_inv_def)

lemma ocell_Some_less: "ocell st x = Some c \<Longrightarrow> x < length (mObjs st)"
  by (simp add: ocell_def split: if_splits)

lemma rc_inv_length:
  assumes "rc_inv vt R xs st"
  shows "length xs \<le> length (mObjs st)"
proof -
  have "x < length (mObjs st)" if "x \<in> set xs" for x
    using rc_inv_cell[OF assms that] ocell_Some_less by blast
  then have "set xs \<subseteq> {..<length (mObjs st)}" by blast
  then have "card (set xs) \<le> card {..<length (mObjs st)}" by (rule card_mono[rotated]) simp
  moreover have "distinct xs" using assms by (simp add: rc_inv_def dlist_def)
  ultimately show ?thesis by (simp only: distinct_card card_lessThan)
qed

lemma sint_minus_one: "1 \<le> sint (w :: u32) \<Longrightarrow> sint (w - 1) = sint w - 1"
proof -
  assume w: "1 \<le> sint w"
  have "sint (w - 1) = signed_take_bit 31 (sint w - 1)"
    by (simp add: sint_word_ariths)
  also have "\<dots> = sint w - 1"
    using w sint_lt[of w] by (intro signed_take_bit_int_eq_self) auto
  finally show ?thesis .
qed

lemma sint_plus_one: "sint (w :: u32) < 2 ^ 31 - 1 \<Longrightarrow> sint (w + 1) = sint w + 1"
proof -
  assume w: "sint w < 2 ^ 31 - 1"
  have "sint (w + 1) = signed_take_bit 31 (sint w + 1)"
    by (simp add: sint_word_ariths)
  also have "\<dots> = sint w + 1"
    using w sint_ge[of w] by (intro signed_take_bit_int_eq_self) auto
  finally show ?thesis .
qed

text \<open>Changing counts of one object.\<close>

lemma dlist_count_upd:
  assumes "dlist st xs" and "\<And>d. olinks (map_option f d) = olinks d"
  shows "dlist (ocell_upd ob f st) xs"
  using assms by (intro dlist_cong[OF assms(1)]) (auto simp: ocell_ocell_upd)

lemma held_count_upd:
  assumes "\<And>c. obj_data (f c) = obj_data c"
  shows "held vt (ocell_upd ob f st) xs = held vt st xs"
proof (rule held_cong)
  fix x
  show "okids vt (ocell_upd ob f st) x = okids vt st x"
    using assms by (cases "ocell st x") (auto simp: okids_def ocell_ocell_upd split: option.split)
qed

lemma rc_inv_dec:
  assumes "rc_inv vt (add_mset ob R) xs st"
  shows "rc_inv vt R xs (ocell_upd ob (\<lambda>c. c\<lparr>mSysRefCount := mSysRefCount c - 1\<rparr>) st)"
proof -
  let ?st = "ocell_upd ob (\<lambda>c. c\<lparr>mSysRefCount := mSysRefCount c - 1\<rparr>) st"
  have h: "held vt ?st xs = held vt st xs" by (rule held_count_upd) simp
  have "\<exists>c. ocell ?st w = Some c \<and> 0 \<le> sint (mUserRefCount c) \<and>
      sint (mSysRefCount c) = int (count (held vt st xs + R) w)" if w: "w \<in> set xs" for w
  proof -
    obtain c where "ocell st w = Some c" "0 \<le> sint (mUserRefCount c)"
      "sint (mSysRefCount c) = int (count (held vt st xs + add_mset ob R) w)"
      by (rule rc_inv_cell[OF assms w])
    then show ?thesis by (cases "w = ob") (simp_all add: ocell_ocell_upd sint_minus_one)
  qed
  moreover have "dlist ?st xs" using assms by (intro dlist_count_upd) (auto simp: rc_inv_def)
  ultimately show ?thesis using assms by (simp add: rc_inv_def h)
qed

lemma rc_inv_inc:
  assumes "rc_inv vt R xs st" and "ob \<in> set xs" and "count (held vt st xs + R) ob < 2 ^ 31 - 1"
  shows "rc_inv vt (add_mset ob R) xs (ocell_upd ob (\<lambda>c. c\<lparr>mSysRefCount := mSysRefCount c + 1\<rparr>) st)"
proof -
  let ?st = "ocell_upd ob (\<lambda>c. c\<lparr>mSysRefCount := mSysRefCount c + 1\<rparr>) st"
  have h: "held vt ?st xs = held vt st xs" by (rule held_count_upd) simp
  have "\<exists>c. ocell ?st w = Some c \<and> 0 \<le> sint (mUserRefCount c) \<and>
      sint (mSysRefCount c) = int (count (held vt st xs + add_mset ob R) w)" if w: "w \<in> set xs" for w
  proof -
    obtain c where "ocell st w = Some c" "0 \<le> sint (mUserRefCount c)"
      "sint (mSysRefCount c) = int (count (held vt st xs + R) w)"
      by (rule rc_inv_cell[OF assms(1) w])
    then show ?thesis using assms(3) by (cases "w = ob") (simp_all add: ocell_ocell_upd sint_plus_one)
  qed
  moreover have "dlist ?st xs" using assms by (intro dlist_count_upd) (auto simp: rc_inv_def)
  ultimately show ?thesis using assms by (simp add: rc_inv_def h)
qed

section \<open>Deletion\<close>

lemma rc_inv_remove:
  assumes inv: "rc_inv vt R xs st" and x: "ob \<in> set xs" and c: "ocell st ob = Some c"
    and z: "mSysRefCount c = 0"
  shows "\<exists>st'. ObjectBase_remove ob st = Some st'
    \<and> rc_inv vt (mset (vt_releases vt (obj_data c)) + R) (remove1 ob xs) st'
    \<and> (\<forall>w. ostats (ocell st' w) = ostats (ocell st w)) \<and> olinks (ocell st' ob) = Some (None, None)
    \<and> (\<forall>w. w \<notin> set xs \<longrightarrow> ocell st' w = ocell st w) \<and> length (mObjs st') = length (mObjs st)"
proof -
  let ?ks = "mset (vt_releases vt (obj_data c))" and ?ys = "remove1 ob xs"
  have dl: "dlist st xs" using inv by (simp add: rc_inv_def)
  obtain st' where st': "ObjectBase_remove ob st = Some st'" "dlist st' ?ys"
    "\<forall>w. ostats (ocell st' w) = ostats (ocell st w)" "olinks (ocell st' ob) = Some (None, None)"
    "\<forall>w. w \<notin> set xs \<longrightarrow> ocell st' w = ocell st w" "length (mObjs st') = length (mObjs st)"
    using ObjectBase_remove_spec[OF dl x] by blast
  have d: "distinct xs" using dl by (simp add: dlist_def)
  have h: "held vt st xs + R = held vt st ?ys + (?ks + R)"
    using held_remove1[OF x, of vt st] c by (simp add: okids_def)
  have "sint (mSysRefCount c) = int (count (held vt st xs + R) ob)"
    using rc_inv_cell[OF inv x] c by (metis option.inject)
  then have "count (held vt st xs + R) ob = 0" using z by simp
  then have "ob \<notin># held vt st xs + R" by (rule count_eq_zero_iff[THEN iffD1])
  then have sub: "set_mset (held vt st ?ys + (?ks + R)) \<subseteq> set ?ys"
    using inv h d unfolding rc_inv_def by auto
  have "rc_inv vt (?ks + R) ?ys st'"
  proof -
    have h': "held vt st' ?ys = held vt st ?ys" using st'(3) by (intro held_cong okids_cong) simp
    have "\<exists>c. ocell st' w = Some c \<and> 0 \<le> sint (mUserRefCount c) \<and>
        sint (mSysRefCount c) = int (count (held vt st ?ys + (?ks + R)) w)" if "w \<in> set ?ys" for w
    proof -
      have "w \<in> set xs" using that notin_set_remove1 by fastforce
      then obtain e where e: "ocell st w = Some e" "0 \<le> sint (mUserRefCount e)"
        "sint (mSysRefCount e) = int (count (held vt st xs + R) w)"
        by (rule rc_inv_cell[OF inv])
      have "ostats (ocell st' w) = ostats (ocell st w)" using st'(3) by simp
      with e(1) obtain e' where "ocell st' w = Some e'" "mUserRefCount e' = mUserRefCount e"
        "mSysRefCount e' = mSysRefCount e"
        by (cases "ocell st' w") auto
      with e(2,3) h show ?thesis by simp
    qed
    with sub st'(2) h' show ?thesis by (simp add: rc_inv_def)
  qed
  with st' show ?thesis by blast
qed

text \<open>What \<open>decSysRef\<close> has to do with fewer than \<open>n\<close> objects in the list.\<close>

definition releases_below :: "('o, 'st) objvt \<Rightarrow>
    (nat \<Rightarrow> ('o, 'm) rsc_scheme \<Rightarrow> (bool \<times> ('o, 'm) rsc_scheme) option) \<Rightarrow> nat \<Rightarrow> bool" where
  "releases_below vt rel n \<longleftrightarrow>
     (\<forall>ob R xs st. rc_inv vt (add_mset ob R) xs st \<and> length xs < n \<longrightarrow>
        (\<exists>b st' xs'. rel ob st = Some (b, st') \<and> rc_inv vt R xs' st' \<and> rel_post xs st xs' st'
           \<and> (b \<longleftrightarrow> ob \<notin> set xs')))"

lemma release_all_spec:
  assumes "releases_below vt rel n"
  shows "rc_inv vt (mset ks + R) xs st \<Longrightarrow> length xs < n \<Longrightarrow>
    \<exists>st' xs'. release_all rel ks st = Some st' \<and> rc_inv vt R xs' st' \<and> rel_post xs st xs' st'"
proof (induction ks arbitrary: xs st)
  case Nil
  then show ?case using rel_post_refl by auto
next
  case (Cons k ks)
  have "rc_inv vt (add_mset k (mset ks + R)) xs st" using Cons.prems(1) by simp
  then obtain b st1 xs1 where 1: "rel k st = Some (b, st1)" "rc_inv vt (mset ks + R) xs1 st1"
    "rel_post xs st xs1 st1"
    using assms Cons.prems(2) unfolding releases_below_def by blast
  have "length xs1 < n" using 1(3) Cons.prems(2) by (simp add: rel_post_def)
  then obtain st' xs' where "release_all rel ks st1 = Some st'" "rc_inv vt R xs' st'"
    "rel_post xs1 st1 xs' st'"
    using Cons.IH[OF 1(2)] by blast
  then show ?case using 1 rel_post_trans by (intro exI[of _ st'] exI[of _ xs']) auto
qed

lemma ocell_erase:
  "ocell (st\<lparr>mObjs := (mObjs st)[ob := None]\<rparr>) w = (if w = ob then None else ocell st w)"
  by (auto simp: ocell_def)

text \<open>The contract of a derived class: its \<open>preDestroy\<close> only manages lists of its own.\<close>

locale object_class =
  fixes vt :: "('o, ('o, 'm) rsc_scheme) objvt"
  assumes preDestroy_frame: "ocell st ob = Some c \<Longrightarrow>
    \<exists>st'. vt_preDestroy vt ob st = Some st' \<and> mObjs st' = mObjs st \<and> mObjHead st' = mObjHead st"
begin

lemma checkDelete_spec:
  assumes rel: "releases_below vt rel n" and inv: "rc_inv vt R xs st" and x: "ob \<in> set xs"
    and n: "length xs \<le> n"
    and c: "ocell st ob = Some c" "mSysRefCount c = 0" "mUserRefCount c = 0"
  shows "\<exists>st' xs'. checkDelete_with vt rel (Some ob) st = Some (True, st') \<and> rc_inv vt R xs' st'
    \<and> ob \<notin> set xs' \<and> length xs' < length xs \<and> set xs' \<subseteq> set xs
    \<and> (\<forall>w\<in>set xs'. omisc (ocell st' w) = omisc (ocell st w))
    \<and> (\<forall>w. w \<notin> set xs \<longrightarrow> ocell st' w = ocell st w)
    \<and> (\<forall>w\<in>set xs - set xs'. ocell st' w = None \<and> (\<exists>c. ocell st w = Some c \<and> mUserRefCount c = 0))
    \<and> length (mObjs st') = length (mObjs st)
    \<and> (no_garbage (remove1 ob xs) st \<longrightarrow> no_garbage xs' st')"
proof -
  let ?ks = "vt_releases vt (obj_data c)" and ?ys = "remove1 ob xs"
  have d: "distinct xs" using inv by (simp add: rc_inv_def dlist_def)
  have len: "length ?ys < length xs" using x length_pos_if_in_set[OF x] by (simp add: length_remove1)
  obtain s1 where s1: "ObjectBase_remove ob st = Some s1" "rc_inv vt (mset ?ks + R) ?ys s1"
    "\<forall>w. ostats (ocell s1 w) = ostats (ocell st w)" "olinks (ocell s1 ob) = Some (None, None)"
    "\<forall>w. w \<notin> set xs \<longrightarrow> ocell s1 w = ocell st w" "length (mObjs s1) = length (mObjs st)"
    using rc_inv_remove[OF inv x c(1,2)] by blast
  obtain c1 where c1: "ocell s1 ob = Some c1" using s1(4) by (auto simp: olinks_eq_Some)
  obtain s2 where s2: "vt_preDestroy vt ob s1 = Some s2" "mObjs s2 = mObjs s1" "mObjHead s2 = mObjHead s1"
    using preDestroy_frame[OF c1] by blast
  have o2: "ocell s2 w = ocell s1 w" for w using s2(2) by (simp add: ocell_def)
  have "dlist s1 ?ys" using s1(2) by (simp add: rc_inv_def)
  then have "dlist s2 ?ys" by (rule dlist_cong) (simp_all add: s2(3) o2)
  then have "rc_inv vt (mset ?ks + R) ?ys s2" by (rule rc_inv_cong[OF s1(2)]) (simp add: o2)
  then obtain s3 zs where s3: "release_all rel ?ks s2 = Some s3" "rc_inv vt R zs s3"
    "rel_post ?ys s2 zs s3"
    using release_all_spec[OF rel, of ?ks R ?ys s2] len n by auto
  have oy: "ob \<notin> set ?ys" using d by simp
  then have o3: "ocell s3 ob = ocell s1 ob" using s3(3) o2 by (simp add: rel_post_def)
  obtain e where e: "ocell s3 ob = Some e" "mPrev e = None" "mNext e = None"
    using s1(4) o3 by (auto simp: olinks_eq_Some)
  define s4 where "s4 = s3\<lparr>mObjs := (mObjs s3)[ob := None]\<rparr>"
  have o4: "ocell s4 w = (if w = ob then None else ocell s3 w)" for w
    unfolding s4_def by (rule ocell_erase)
  have "ObjectBase_destroy ob s3 = Some s4" using e by (simp add: ObjectBase_destroy_def s4_def)
  then have eq: "checkDelete_with vt rel (Some ob) st = Some (True, s4)"
    using c s1(1) s2(1) s3(1) by (simp add: checkDelete_with_def)
  have oz: "ob \<notin> set zs" using s3(3) oy by (auto simp: rel_post_def)
  have h4: "mObjHead s4 = mObjHead s3" by (simp add: s4_def)
  have o4z: "ocell s4 w = ocell s3 w" if "w \<in> set zs" for w using that oz by (auto simp: o4)
  have "dlist s3 zs" using s3(2) by (simp add: rc_inv_def)
  then have "dlist s4 zs" by (rule dlist_cong) (simp_all add: h4 o4z)
  then have inv4: "rc_inv vt R zs s4" by (rule rc_inv_cong[OF s3(2)]) (simp add: o4z)
  have sz: "set zs \<subseteq> set ?ys" "length zs \<le> length ?ys" using s3(3) by (auto simp: rel_post_def)
  have m1: "omisc (ocell s1 w) = omisc (ocell st w)" for w
  proof -
    have "ostats (ocell s1 w) = ostats (ocell st w)" using s1(3) by simp
    then show ?thesis by (cases "ocell s1 w"; cases "ocell st w") (auto simp: omisc_def)
  qed
  have surv: "omisc (ocell s4 w) = omisc (ocell st w)" if "w \<in> set zs" for w
    using that s3(3) oz m1 by (auto simp: rel_post_def o4 o2)
  have out: "ocell s4 w = ocell st w" if "w \<notin> set xs" for w
    using that s3(3) s1(5) x set_remove1_subset[of ob xs] by (auto simp: rel_post_def o4 o2)
  have del: "ocell s4 w = None \<and> (\<exists>c. ocell st w = Some c \<and> mUserRefCount c = 0)"
    if "w \<in> set xs - set zs" for w
  proof (cases "w = ob")
    case True
    then show ?thesis using c by (simp add: o4)
  next
    case False
    then have "w \<in> set ?ys - set zs" using that by simp
    then obtain f where f: "ocell s3 w = None" "ocell s2 w = Some f" "mUserRefCount f = 0"
      using s3(3) unfolding rel_post_def by blast
    then show ?thesis using m1[of w] False o2[of w] by (cases "ocell st w") (auto simp: o4 omisc_def)
  qed
  have ng: "no_garbage zs s4" if "no_garbage ?ys st"
  proof -
    have "no_garbage ?ys s2"
      unfolding no_garbage_def
    proof (intro ballI allI impI)
      fix w f assume w: "w \<in> set ?ys" "ocell s2 w = Some f"
      then have "ostats (ocell st w) = ostats (Some f)" using s1(3) o2 by metis
      then show "mUserRefCount f \<noteq> 0 \<or> mSysRefCount f \<noteq> 0"
        using that w(1) by (cases "ocell st w") (auto simp: no_garbage_def)
    qed
    then have "no_garbage zs s3" using s3(3) by (simp add: rel_post_def)
    then show ?thesis using oz by (auto simp: no_garbage_def o4)
  qed
  have "length (mObjs s4) = length (mObjs st)"
    using s1(6) s2(2) s3(3) by (simp add: s4_def rel_post_def)
  moreover have "length zs < length xs" "set zs \<subseteq> set xs"
    using sz len set_remove1_subset[of ob xs] by auto
  ultimately show ?thesis using eq inv4 oz surv out del ng by blast
qed

end
lemma sint_0_iff: "sint (w :: u32) = 0 \<longleftrightarrow> w = 0"
  by (rule signed_eq_0_iff)

lemma ostats_inject_counts:
  "ocell st w = Some c \<Longrightarrow> no_garbage xs st \<Longrightarrow> w \<in> set xs \<Longrightarrow>
   mUserRefCount c \<noteq> 0 \<or> mSysRefCount c \<noteq> 0"
  by (simp add: no_garbage_def)

lemma no_garbage_upd:
  assumes "no_garbage (remove1 ob xs) st" and "distinct xs"
    and "\<And>c. ocell st ob = Some c \<Longrightarrow> mUserRefCount (f c) \<noteq> 0 \<or> mSysRefCount (f c) \<noteq> 0"
  shows "no_garbage xs (ocell_upd ob f st)"
  using assms by (auto simp: no_garbage_def ocell_ocell_upd)

lemma no_garbage_remove1:
  assumes "no_garbage xs st" and "distinct xs"
  shows "no_garbage (remove1 ob xs) (ocell_upd ob f st)"
  using assms by (auto simp: no_garbage_def ocell_ocell_upd)

lemma no_garbage_subset: "no_garbage xs st \<Longrightarrow> set ys \<subseteq> set xs \<Longrightarrow> no_garbage ys st"
  by (auto simp: no_garbage_def)

context object_class
begin

lemma decSysRef_fuel_spec: "releases_below vt (decSysRef_fuel vt n) n"
proof (induction n)
  case 0
  show ?case by (simp add: releases_below_def)
next
  case (Suc n)
  show ?case
    unfolding releases_below_def
  proof (intro allI impI, elim conjE)
    fix ob R xs and st :: "('o, 'm) rsc_scheme"
    let ?f = "\<lambda>c :: 'o objcell. c\<lparr>mSysRefCount := mSysRefCount c - 1\<rparr>"
    assume inv: "rc_inv vt (add_mset ob R) xs st" and len: "length xs < Suc n"
    have x: "ob \<in> set xs" and d: "distinct xs"
      using inv by (auto simp: rc_inv_def dlist_def)
    obtain c where c: "ocell st ob = Some c" "0 \<le> sint (mUserRefCount c)"
      "sint (mSysRefCount c) = int (count (held vt st xs + add_mset ob R) ob)"
      by (rule rc_inv_cell[OF inv x])
    define s1 where "s1 = ocell_upd ob ?f st"
    have inv1: "rc_inv vt R xs s1" unfolding s1_def by (rule rc_inv_dec[OF inv])
    have o1: "ocell s1 w = (if w = ob then Some (?f c) else ocell st w)" for w
      by (simp add: s1_def ocell_ocell_upd c)
    have l1: "length (mObjs s1) = length (mObjs st)" by (simp add: s1_def)
    have dec: "sint (mSysRefCount c - 1) = sint (mSysRefCount c) - 1"
      using c(3) by (intro sint_minus_one) simp
    show "\<exists>b st' xs'. decSysRef_fuel vt (Suc n) ob st = Some (b, st') \<and> rc_inv vt R xs' st'
        \<and> rel_post xs st xs' st' \<and> b = (ob \<notin> set xs')"
    proof (cases "sint (mSysRefCount c) \<le> 1 \<and> sint (mUserRefCount c) \<le> 0")
      case True
      then have "sint (mUserRefCount c) = 0" "sint (mSysRefCount c - 1) = 0"
        using c(2,3) dec by auto
      then have z: "mUserRefCount c = 0" "mSysRefCount c - 1 = 0"
        by (simp_all only: sint_0_iff)
      have cc: "ocell s1 ob = Some (?f c)" "mSysRefCount (?f c) = 0" "mUserRefCount (?f c) = 0"
        using z by (simp_all add: o1)
      obtain s' xs' where s': "checkDelete_with vt (decSysRef_fuel vt n) (Some ob) s1 = Some (True, s')"
        "rc_inv vt R xs' s'" "ob \<notin> set xs'" "length xs' < length xs" "set xs' \<subseteq> set xs"
        "\<forall>w\<in>set xs'. omisc (ocell s' w) = omisc (ocell s1 w)"
        "\<forall>w. w \<notin> set xs \<longrightarrow> ocell s' w = ocell s1 w"
        "\<forall>w\<in>set xs - set xs'. ocell s' w = None \<and> (\<exists>c. ocell s1 w = Some c \<and> mUserRefCount c = 0)"
        "length (mObjs s') = length (mObjs s1)" "no_garbage (remove1 ob xs) s1 \<longrightarrow> no_garbage xs' s'"
        using checkDelete_spec[OF Suc.IH inv1 x _ cc] len by fastforce
      have "ocell s' w = None \<and> (\<exists>c. ocell st w = Some c \<and> mUserRefCount c = 0)"
        if "w \<in> set xs - set xs'" for w
      proof -
        have "ocell s' w = None" "\<exists>c. ocell s1 w = Some c \<and> mUserRefCount c = 0"
          using s'(8) that by blast+
        then show ?thesis using z c(1) o1[of w] by (cases "w = ob") auto
      qed
      moreover have "omisc (ocell s' w) = omisc (ocell st w)" if "w \<in> set xs'" for w
        using s'(3,6) that by (cases "w = ob") (auto simp: o1)
      moreover have "no_garbage xs' s'" if "no_garbage xs st"
        using s'(10) no_garbage_remove1[OF that d] by (simp add: s1_def)
      ultimately have "rel_post xs st xs' s'"
        using s'(4,5,7,9) x l1 unfolding rel_post_def by (auto simp: o1)
      moreover have "decSysRef_fuel vt (Suc n) ob st = Some (True, s')"
        using c(1) True s'(1) by (simp add: s1_def)
      ultimately show ?thesis using s'(2,3) by blast
    next
      case False
      then have "decSysRef_fuel vt (Suc n) ob st = Some (False, s1)"
        using c(1) by (auto simp: s1_def)
      moreover have nz: "mUserRefCount c \<noteq> 0 \<or> mSysRefCount c - 1 \<noteq> 0"
        using False c(2) dec sint_0_iff[of "mUserRefCount c"] sint_0_iff[of "mSysRefCount c - 1"]
        by linarith
      have "no_garbage xs s1" if "no_garbage xs st"
        unfolding s1_def
        by (rule no_garbage_upd[OF no_garbage_subset[OF that set_remove1_subset] d])
           (use nz c(1) in auto)
      then have "rel_post xs st xs s1"
        using x by (auto simp: rel_post_def o1 omisc_def c(1) l1)
      ultimately show ?thesis using inv1 x by blast
    qed
  qed
qed

end

lemma dlist_next:
  assumes "dlist st (pre @ x # rest)" and "ocell st x = Some c"
  shows "mNext c = (if rest = [] then None else Some (hd rest))"
  using assms dseg_head[of "ocell st" "Some x" "mNext c" rest] by (auto simp: dlist_def dseg_append)

lemma dlist_hd: "dlist st xs \<Longrightarrow> mObjHead st = (if xs = [] then None else Some (hd xs))"
  using dseg_head by (fastforce simp: dlist_def)

text \<open>A change of the user count.\<close>

lemma rc_inv_user:
  assumes "rc_inv vt R xs st" and "\<And>c. ocell st ob = Some c \<Longrightarrow> 0 \<le> sint (g c)"
  shows "rc_inv vt R xs (ocell_upd ob (\<lambda>c. c\<lparr>mUserRefCount := g c\<rparr>) st)"
proof -
  let ?st = "ocell_upd ob (\<lambda>c. c\<lparr>mUserRefCount := g c\<rparr>) st"
  have h: "held vt ?st xs = held vt st xs" by (rule held_count_upd) simp
  have "\<exists>c. ocell ?st w = Some c \<and> 0 \<le> sint (mUserRefCount c) \<and>
      sint (mSysRefCount c) = int (count (held vt st xs + R) w)" if w: "w \<in> set xs" for w
  proof -
    obtain c where "ocell st w = Some c" "0 \<le> sint (mUserRefCount c)"
      "sint (mSysRefCount c) = int (count (held vt st xs + R) w)"
      by (rule rc_inv_cell[OF assms(1) w])
    then show ?thesis using assms(2) by (cases "w = ob") (simp_all add: ocell_ocell_upd)
  qed
  moreover have "dlist ?st xs" using assms(1) by (intro dlist_count_upd) (auto simp: rc_inv_def)
  ultimately show ?thesis using assms(1) by (simp add: rc_inv_def h)
qed

lemma okids_omisc: "omisc (ocell st' w) = omisc (ocell st w) \<Longrightarrow> okids vt st' w = okids vt st w"
  by (cases "ocell st' w"; cases "ocell st w") (auto simp: okids_def omisc_def)

lemma okids_user_upd: "okids vt (ocell_upd ob (\<lambda>c. c\<lparr>mUserRefCount := g c\<rparr>) st) w = okids vt st w"
  by (cases "ocell st w") (auto simp: okids_def ocell_ocell_upd split: option.split)

lemma sys_count_0:
  assumes "rc_inv vt R xs st" and "ob \<in> set xs" and "ocell st ob = Some c"
  shows "sint (mSysRefCount c) \<le> 0 \<longleftrightarrow> mSysRefCount c = 0"
proof -
  have "0 \<le> sint (mSysRefCount c)" using rc_inv_cell[OF assms(1,2)] assms(3) by (metis of_nat_0_le_iff option.inject)
  then show ?thesis using sint_0_iff[of "mSysRefCount c"] by linarith
qed

context object_class
begin

lemma decSysRef_below: "releases_below vt (decSysRef vt) n"
  unfolding releases_below_def
proof (intro allI impI, elim conjE)
  fix ob R xs and st :: "('o, 'm) rsc_scheme"
  assume inv: "rc_inv vt (add_mset ob R) xs st"
  then have "length xs < Suc (length (mObjs st))" using rc_inv_length le_imp_less_Suc by blast
  then show "\<exists>b st' xs'. decSysRef vt ob st = Some (b, st') \<and> rc_inv vt R xs' st'
      \<and> rel_post xs st xs' st' \<and> b = (ob \<notin> set xs')"
    using decSysRef_fuel_spec[of "Suc (length (mObjs st))"] inv
    unfolding releases_below_def decSysRef_def by blast
qed

lemma decSysRef_spec:
  assumes "rc_inv vt (add_mset ob R) xs st"
  shows "\<exists>b st' xs'. decSysRef vt ob st = Some (b, st') \<and> rc_inv vt R xs' st'
    \<and> rel_post xs st xs' st' \<and> (b \<longleftrightarrow> ob \<notin> set xs')"
  using decSysRef_below[of "Suc (length xs)"] assms unfolding releases_below_def by blast

text \<open>Lowering the user count of an object to \<open>g c\<close> and deleting it if no reference is
  left.\<close>

lemma user_release:
  assumes inv: "rc_inv vt R xs st" and x: "ob \<in> set xs" and c: "ocell st ob = Some c"
    and g: "0 \<le> sint (g c)"
    and st1: "st1 = ocell_upd ob (\<lambda>c. c\<lparr>mUserRefCount := g c\<rparr>) st"
    and r: "r = (if g c = 0 \<and> mSysRefCount c = 0 then checkDelete vt (Some ob) st1 else Some (False, st1))"
  shows "\<exists>b st' xs'. r = Some (b, st') \<and> rc_inv vt R xs' st' \<and> (b \<longleftrightarrow> ob \<notin> set xs')
    \<and> (b \<longleftrightarrow> g c = 0 \<and> mSysRefCount c = 0) \<and> set xs' \<subseteq> set xs \<and> length xs' \<le> length xs
    \<and> (b \<longrightarrow> length xs' < length xs) \<and> (\<not> b \<longrightarrow> xs' = xs \<and> st' = st1)
    \<and> (\<forall>w\<in>set xs'. omisc (ocell st' w) = omisc (ocell st1 w))
    \<and> (\<forall>w\<in>set xs - set xs'. ocell st' w = None \<and> (\<exists>c. ocell st1 w = Some c \<and> mUserRefCount c = 0))
    \<and> (no_garbage xs st \<longrightarrow> no_garbage xs' st')"
proof -
  have inv1: "rc_inv vt R xs st1" unfolding st1 using inv g c by (intro rc_inv_user) auto
  have d: "distinct xs" using inv by (simp add: rc_inv_def dlist_def)
  have c1: "ocell st1 ob = Some (c\<lparr>mUserRefCount := g c\<rparr>)" by (simp add: st1 ocell_ocell_upd c)
  show ?thesis
  proof (cases "g c = 0 \<and> mSysRefCount c = 0")
    case True
    then have z: "mSysRefCount (c\<lparr>mUserRefCount := g c\<rparr>) = 0" "mUserRefCount (c\<lparr>mUserRefCount := g c\<rparr>) = 0"
      by simp_all
    from checkDelete_spec[OF decSysRef_below inv1 x order_refl c1 z] obtain s' xs' where
      s': "checkDelete vt (Some ob) st1 = Some (True, s')" "rc_inv vt R xs' s'" "ob \<notin> set xs'"
        "length xs' < length xs" "set xs' \<subseteq> set xs"
        "\<forall>w\<in>set xs'. omisc (ocell s' w) = omisc (ocell st1 w)"
        "\<forall>w\<in>set xs - set xs'. ocell s' w = None \<and> (\<exists>c. ocell st1 w = Some c \<and> mUserRefCount c = 0)"
        "no_garbage (remove1 ob xs) st1 \<longrightarrow> no_garbage xs' s'"
      unfolding checkDelete_def by blast
    moreover have "no_garbage (remove1 ob xs) st1" if "no_garbage xs st"
      unfolding st1 by (rule no_garbage_remove1[OF that d])
    moreover have "r = Some (True, s')" using True s'(1) by (simp add: r)
    ultimately show ?thesis using True by (intro exI[of _ True] exI[of _ s'] exI[of _ xs']) auto
  next
    case False
    have "no_garbage xs st1" if "no_garbage xs st"
      unfolding st1
      by (rule no_garbage_upd[OF no_garbage_subset[OF that set_remove1_subset] d])
         (use False c in auto)
    moreover have "r = Some (False, st1)" using False by (auto simp: r)
    ultimately show ?thesis using inv1 x False
      by (intro exI[of _ False] exI[of _ st1] exI[of _ xs]) auto
  qed
qed

lemmas decUserRef_lemma = user_release[where g = "\<lambda>c. mUserRefCount c - 1", OF _ _ _ _ refl refl]
lemmas zeroUserRef_lemma = user_release[where g = "\<lambda>c. 0", OF _ _ _ _ refl refl]

lemma decUserRef_eq:
  assumes inv: "rc_inv vt R xs st" and x: "ob \<in> set xs" and c: "ocell st ob = Some c"
    and p: "0 < sint (mUserRefCount c)"
  shows "decUserRef vt ob st =
    (if mUserRefCount c - 1 = 0 \<and> mSysRefCount c = 0
     then checkDelete vt (Some ob) (ocell_upd ob (\<lambda>c. c\<lparr>mUserRefCount := mUserRefCount c - 1\<rparr>) st)
     else Some (False, ocell_upd ob (\<lambda>c. c\<lparr>mUserRefCount := mUserRefCount c - 1\<rparr>) st))"
proof -
  have "sint (mUserRefCount c - 1) = sint (mUserRefCount c) - 1"
    using p by (intro sint_minus_one) simp
  then have "sint (mUserRefCount c) \<le> 1 \<longleftrightarrow> mUserRefCount c - 1 = 0"
    using p sint_0_iff[of "mUserRefCount c - 1"] by linarith
  then show ?thesis
    using sys_count_0[OF inv x c] c by (simp add: decUserRef_def Let_def)
qed

lemma zeroUserRef_eq:
  assumes inv: "rc_inv vt R xs st" and x: "ob \<in> set xs" and c: "ocell st ob = Some c"
  shows "zeroUserRef vt ob st =
    (if (0 :: u32) = 0 \<and> mSysRefCount c = 0
     then checkDelete vt (Some ob) (ocell_upd ob (\<lambda>c. c\<lparr>mUserRefCount := 0\<rparr>) st)
     else Some (False, ocell_upd ob (\<lambda>c. c\<lparr>mUserRefCount := 0\<rparr>) st))"
  using sys_count_0[OF inv x c] c by (simp add: zeroUserRef_def Let_def)

end
text \<open>A walk from any cell of the list sees the rest of the list.\<close>

lemma isValid_loop_spec:
  assumes "dlist st (pre @ rest)" and "p = (if rest = [] then None else Some (hd rest))"
  shows "isValid_loop p obj st = Some (\<exists>x\<in>set rest. obj = Some x)"
  using assms
proof (induction rest arbitrary: pre p)
  case Nil
  then show ?case by (simp add: isValid_loop.simps)
next
  case (Cons x rest)
  obtain c where c: "ocell st x = Some c" using dlist_cell[OF Cons.prems(1), of x] by auto
  have "mNext c = (if rest = [] then None else Some (hd rest))"
    by (rule dlist_next[OF Cons.prems(1) c])
  then have "isValid_loop (mNext c) obj st = Some (\<exists>x\<in>set rest. obj = Some x)"
    using Cons.IH[of "pre @ [x]"] Cons.prems(1) by simp
  then show ?case using Cons.prems(2) c by (subst isValid_loop.simps) auto
qed

lemma isValid_spec: "dlist st xs \<Longrightarrow> isValid obj st = Some (\<exists>x\<in>set xs. obj = Some x)"
  using isValid_loop_spec[of st "[]" xs "mObjHead st" obj] dlist_hd[of st xs]
  by (simp add: isValid_def)

definition user_zero :: "('o, 'm) rsc_scheme \<Rightarrow> nat \<Rightarrow> bool" where
  "user_zero st w \<longleftrightarrow> (\<exists>c. ocell st w = Some c \<and> mUserRefCount c = 0)"

context object_class
begin

lemma zeroAllUserRef_loop_spec:
  assumes "rc_inv vt R xs st" and "xs = pre @ rest"
    and "p = (if rest = [] then None else Some (hd rest))"
    and "\<forall>w\<in>set pre. user_zero st w" and "no_garbage xs st"
  shows "\<exists>st' xs'. zeroAllUserRef_loop vt p st = Some st' \<and> rc_inv vt R xs' st'
    \<and> set xs' \<subseteq> set xs \<and> (\<forall>w\<in>set xs'. user_zero st' w) \<and> no_garbage xs' st'
    \<and> (\<forall>w\<in>set xs'. okids vt st' w = okids vt st w)"
  using assms
proof (induction "length xs" arbitrary: xs st pre rest p rule: less_induct)
  case less
  show ?case
    using less.prems
  proof (induction rest arbitrary: pre st p)
    case Nil
    then show ?case
      by (intro exI[of _ st] exI[of _ xs]) (simp add: zeroAllUserRef_loop.simps)
  next
    case (Cons x rest)
    let ?f = "\<lambda>c :: 'o objcell. c\<lparr>mUserRefCount := 0\<rparr>"
    note inv = Cons.prems(1)
    have x: "x \<in> set xs" and p: "p = Some x" using Cons.prems(2,3) by simp_all
    obtain c where c: "ocell st x = Some c" by (rule rc_inv_cell[OF inv x])
    define s1 where "s1 = ocell_upd x ?f st"
    have g: "0 \<le> sint (0 :: u32)" by simp
    obtain b s2 ys where z: "zeroUserRef vt x st = Some (b, s2)" "rc_inv vt R ys s2" "b = (x \<notin> set ys)"
      "set ys \<subseteq> set xs" "b \<longrightarrow> length ys < length xs" "\<not> b \<longrightarrow> ys = xs \<and> s2 = s1"
      "\<forall>w\<in>set ys. omisc (ocell s2 w) = omisc (ocell s1 w)" "no_garbage xs st \<longrightarrow> no_garbage ys s2"
      using zeroUserRef_lemma[OF inv x c g] unfolding zeroUserRef_eq[OF inv x c] s1_def by blast
    have ng: "no_garbage ys s2" using z(8) Cons.prems(5) by simp
    have k: "okids vt s2 w = okids vt st w" if "w \<in> set ys" for w
      using okids_omisc[of s2 w s1 vt] z(7) that by (simp add: s1_def okids_user_upd)
    have "\<exists>st' xs'. (if b then zeroAllUserRef_loop vt (mObjHead s2) s2
        else Option.bind (ocell s2 x) (\<lambda>c. zeroAllUserRef_loop vt (mNext c) s2)) = Some st'
        \<and> rc_inv vt R xs' st' \<and> set xs' \<subseteq> set ys \<and> (\<forall>w\<in>set xs'. user_zero st' w)
        \<and> no_garbage xs' st' \<and> (\<forall>w\<in>set xs'. okids vt st' w = okids vt s2 w)"
    proof (cases b)
      case True
      have "dlist s2 ys" using z(2) by (simp add: rc_inv_def)
      then have "mObjHead s2 = (if ys = [] then None else Some (hd ys))" by (rule dlist_hd)
      then show ?thesis using less.hyps[of ys s2 "[]" ys "mObjHead s2"] z(2,5) ng True by simp
    next
      case False
      then have ys: "ys = xs" "s2 = s1" using z(6) by simp_all
      have c2: "ocell s2 x = Some (?f c)" by (simp add: ys s1_def ocell_ocell_upd c)
      have dl: "dlist s2 (pre @ x # rest)" using z(2) Cons.prems(2) ys by (simp add: rc_inv_def)
      have nx: "mNext (?f c) = (if rest = [] then None else Some (hd rest))"
        by (rule dlist_next[OF dl c2])
      have "\<forall>w\<in>set (pre @ [x]). user_zero s2 w"
        using Cons.prems(4) c by (auto simp: user_zero_def ys s1_def ocell_ocell_upd)
      then show ?thesis
        using Cons.IH[of s2 "pre @ [x]" "mNext (?f c)"] z(2) ys Cons.prems(2) nx ng c2 False by simp
    qed
    then obtain st' xs' where r: "(if b then zeroAllUserRef_loop vt (mObjHead s2) s2
        else Option.bind (ocell s2 x) (\<lambda>c. zeroAllUserRef_loop vt (mNext c) s2)) = Some st'"
      "rc_inv vt R xs' st'" "set xs' \<subseteq> set ys" "\<forall>w\<in>set xs'. user_zero st' w" "no_garbage xs' st'"
      "\<forall>w\<in>set xs'. okids vt st' w = okids vt s2 w"
      by blast
    have "zeroAllUserRef_loop vt p st = Some st'"
      using r(1) by (subst zeroAllUserRef_loop.simps) (simp add: p z(1) split: if_splits)
    then show ?case
      using r(2-6) z(4) k by (intro exI[of _ st'] exI[of _ xs']) auto
  qed
qed

lemma zeroAllUserRef_spec:
  assumes "rc_inv vt R xs st" and "no_garbage xs st"
  shows "\<exists>st' xs'. zeroAllUserRef vt st = Some st' \<and> rc_inv vt R xs' st'
    \<and> set xs' \<subseteq> set xs \<and> (\<forall>w\<in>set xs'. user_zero st' w) \<and> no_garbage xs' st'
    \<and> (\<forall>w\<in>set xs'. okids vt st' w = okids vt st w)"
proof -
  have "dlist st xs" using assms(1) by (simp add: rc_inv_def)
  then have "mObjHead st = (if xs = [] then None else Some (hd xs))" by (rule dlist_hd)
  from zeroAllUserRef_loop_spec[OF assms(1) _ this] assms(2) show ?thesis
    unfolding zeroAllUserRef_def by simp
qed

text \<open>With no reference from outside and no cycle among the objects, the cleanup deletes
  everything.\<close>

lemma zeroAllUserRef_empties:
  assumes inv: "rc_inv vt {#} xs st" and ng: "no_garbage xs st"
    and acyc: "\<And>x k. x \<in> set xs \<Longrightarrow> k \<in> set (okids vt st x) \<Longrightarrow> (rank k :: nat) < rank x"
  shows "\<exists>st'. zeroAllUserRef vt st = Some st' \<and> mObjHead st' = None"
proof -
  obtain st' xs' where r: "zeroAllUserRef vt st = Some st'" "rc_inv vt {#} xs' st'"
    "set xs' \<subseteq> set xs" "\<forall>w\<in>set xs'. user_zero st' w" "no_garbage xs' st'"
    "\<forall>w\<in>set xs'. okids vt st' w = okids vt st w"
    using zeroAllUserRef_spec[OF inv ng] by blast
  have holder: "\<exists>y\<in>set xs'. x \<in> set (okids vt st y)" if x: "x \<in> set xs'" for x
  proof -
    obtain c where c: "ocell st' x = Some c" "sint (mSysRefCount c) = int (count (held vt st' xs' + {#}) x)"
      by (rule rc_inv_cell[OF r(2) x])
    have "mUserRefCount c = 0" using r(4) x c(1) by (auto simp: user_zero_def)
    then have "mSysRefCount c \<noteq> 0" using r(5) x c(1) by (auto simp: no_garbage_def)
    then have "sint (mSysRefCount c) \<noteq> 0" using sint_0_iff by blast
    then have "x \<in># held vt st' xs'" using c(2) by (simp add: not_in_iff)
    then show ?thesis using r(6) by (auto simp: held_def)
  qed
  have "xs' = []"
  proof (rule ccontr)
    assume "xs' \<noteq> []"
    then have "Max (rank ` set xs') \<in> rank ` set xs'" by (intro Max_in) auto
    then obtain x where x: "x \<in> set xs'" "rank x = Max (rank ` set xs')" by auto
    obtain y where y: "y \<in> set xs'" "x \<in> set (okids vt st y)" using holder[OF x(1)] by blast
    have "rank x < rank y" using acyc[of y x] y r(3) by auto
    moreover have "rank y \<le> Max (rank ` set xs')" using y(1) by (intro Max_ge) auto
    ultimately show False using x(2) by simp
  qed
  moreover have "dlist st' xs'" using r(2) by (simp add: rc_inv_def)
  ultimately show ?thesis using r(1) dlist_hd[of st' xs'] by auto
qed

end

section \<open>New objects and references\<close>

text \<open>A new object takes over the references its constructor made.\<close>

lemma rc_inv_new:
  assumes inv: "rc_inv vt (mset (vt_releases vt d) + R) xs st"
  shows "\<exists>st'. ObjectBase_new d st = Some (length (mObjs st), st')
    \<and> rc_inv vt R (length (mObjs st) # xs) st'
    \<and> (\<exists>c. ocell st' (length (mObjs st)) = Some c \<and> mSysRefCount c = 0 \<and> mUserRefCount c = 0 \<and> obj_data c = d)
    \<and> (\<forall>x. x \<noteq> length (mObjs st) \<longrightarrow> ostats (ocell st' x) = ostats (ocell st x))"
proof -
  let ?n = "length (mObjs st)"
  have less: "x < ?n" if "x \<in> set xs" for x
    using rc_inv_cell[OF inv that] ocell_Some_less by blast
  have dl: "dlist st xs" using inv by (simp add: rc_inv_def)
  obtain st' c where st': "ObjectBase_new d st = Some (?n, st')" "dlist st' (?n # xs)"
    "ocell st' ?n = Some c" "mSysRefCount c = 0" "mUserRefCount c = 0" "obj_data c = d"
    "\<forall>x. x \<noteq> ?n \<longrightarrow> ostats (ocell st' x) = ostats (ocell st x)"
    using ObjectBase_new_spec[OF dl less] by blast
  have nx: "?n \<notin> set xs" using less by blast
  have "held vt st' xs = held vt st xs"
  proof (intro held_cong okids_cong)
    fix x assume "x \<in> set xs"
    then have "x \<noteq> ?n" using nx by blast
    then show "ostats (ocell st' x) = ostats (ocell st x)" using st'(7) by blast
  qed
  then have h: "held vt st' (?n # xs) + R = held vt st xs + (mset (vt_releases vt d) + R)"
    using st'(3,6) by (simp add: held_def okids_def)
  have sub: "set_mset (held vt st xs + (mset (vt_releases vt d) + R)) \<subseteq> set xs"
    using inv by (simp add: rc_inv_def)
  have "\<exists>c. ocell st' w = Some c \<and> 0 \<le> sint (mUserRefCount c) \<and>
      sint (mSysRefCount c) = int (count (held vt st xs + (mset (vt_releases vt d) + R)) w)"
    if "w \<in> set (?n # xs)" for w
  proof (cases "w = ?n")
    case True
    then have "count (held vt st xs + (mset (vt_releases vt d) + R)) w = 0"
      using sub nx by (auto simp only: count_eq_zero_iff)
    then show ?thesis using st'(3-5) True by simp
  next
    case False
    then have "w \<in> set xs" using that by simp
    then obtain e where e: "ocell st w = Some e" "0 \<le> sint (mUserRefCount e)"
      "sint (mSysRefCount e) = int (count (held vt st xs + (mset (vt_releases vt d) + R)) w)"
      by (rule rc_inv_cell[OF inv])
    moreover have "ostats (ocell st' w) = ostats (ocell st w)" using st'(7) False by simp
    ultimately show ?thesis by (cases "ocell st' w") auto
  qed
  then have "rc_inv vt R (?n # xs) st'"
    using st'(2) sub unfolding rc_inv_def h by auto
  then show ?thesis using st' by blast
qed

definition ObjectBase_vt :: "('o, 'st) objvt" where
  "ObjectBase_vt = \<lparr>vt_releases = \<lambda>d. [], vt_preDestroy = ObjectBase_preDestroy,
     vt_freeChildren = ObjectBase_freeChildren\<rparr>"

interpretation base: object_class ObjectBase_vt
  by unfold_locales (simp add: ObjectBase_vt_def ObjectBase_preDestroy_def)

context object_class
begin

text \<open>\<open>ObjectBaseRef::set\<close> releases the old reference before it takes the new one. The new
  object must not be deleted by that release: somebody else holds it.\<close>

lemma ObjectBaseRef_set_spec:
  assumes inv: "rc_inv vt ((case old of None \<Rightarrow> {#} | Some k \<Rightarrow> {#k#}) + R) xs st"
    and new: "\<forall>k. ref = Some k \<longrightarrow> k \<in># R"
    and small: "size (held vt st xs) + size R < 2 ^ 31 - 1"
  shows "\<exists>st' xs'. ObjectBaseRef_set vt old ref st = Some (ref, st')
    \<and> rc_inv vt ((case ref of None \<Rightarrow> {#} | Some k \<Rightarrow> {#k#}) + R) xs' st' \<and> set xs' \<subseteq> set xs"
proof (cases "old = ref")
  case True
  then show ?thesis using inv by (auto simp: ObjectBaseRef_set_def)
next
  case False
  obtain s1 ys where s1: "ObjectBaseRef_clear vt old st = Some (None, s1)" "rc_inv vt R ys s1"
    "rel_post xs st ys s1"
  proof (cases old)
    case None
    then show thesis using inv that[of st xs, OF _ _ rel_post_refl] by (simp add: ObjectBaseRef_clear_def)
  next
    case (Some k)
    then have "rc_inv vt (add_mset k R) xs st" using inv by simp
    from decSysRef_spec[OF this] obtain b s1 ys where
      "decSysRef vt k st = Some (b, s1)" "rc_inv vt R ys s1" "rel_post xs st ys s1" by blast
    then show thesis using that[of s1 ys] Some by (simp add: ObjectBaseRef_clear_def)
  qed
  have sub: "set ys \<subseteq> set xs" using s1(3) by (simp add: rel_post_def)
  show ?thesis
  proof (cases ref)
    case None
    then show ?thesis using s1 sub False
      by (intro exI[of _ s1] exI[of _ ys]) (simp add: ObjectBaseRef_set_def ObjectBaseRef_copy_def)
  next
    case (Some k)
    have kR: "k \<in># R" using new Some by simp
    then have ky: "k \<in> set ys" using s1(2) by (auto simp: rc_inv_def)
    obtain c where c: "ocell s1 k = Some c" by (rule rc_inv_cell[OF s1(2) ky])
    have "held vt s1 ys \<subseteq># held vt st xs"
    proof -
      have "okids vt s1 w = okids vt st w" if "w \<in> set ys" for w
        using s1(3) that by (intro okids_omisc) (simp add: rel_post_def)
      then have e: "held vt s1 ys = held vt st ys" by (rule held_cong)
      have "distinct ys" "distinct xs"
        using s1(2) inv by (auto simp: rc_inv_def dlist_def)
      then have "mset ys \<subseteq># mset xs"
        using sub by (simp add: subseteq_mset_def distinct_count_atmost_1 subset_iff)
      then obtain M where M: "mset xs = mset ys + M" by (auto simp: mset_subset_eq_exists_conv)
      have "held vt st zs = (\<Sum>z\<in>#mset zs. mset (okids vt st z))" for zs
        by (induction zs) (auto simp: held_def)
      then show ?thesis unfolding e by (simp add: M)
    qed
    then have "size (held vt s1 ys) \<le> size (held vt st xs)" by (rule size_mset_mono)
    then have "count (held vt s1 ys + R) k < 2 ^ 31 - 1"
      using small count_le_size[of "held vt s1 ys + R" k] by simp
    from rc_inv_inc[OF s1(2) ky this] show ?thesis
      using Some s1 sub False c
      by (auto simp: ObjectBaseRef_set_def ObjectBaseRef_copy_def incSysRef_def)
  qed
qed

end

end
