(* ===== verification/Rs_Context.thy ===== *)
theory Rs_Context
  imports Rs_Object Rs_Type
begin

text \<open>
  The parts of a context that own elements and types: the caches \<open>mStateElement.mElements\<close> and
  \<open>mStateType.mTypes\<close>, the operations of \<open>rsElement.cpp\<close> and \<open>rsType.cpp\<close> that look an object up
  in its cache or make a new one, and their destructors as the object system of
  \<open>Rs_Object\<close> runs them. Objects of all other classes are given by the references their
  destructors release.

  An operation that returns an \<open>ObjectBaseRef\<close> returns the address and leaves one system
  reference to it with the caller.
\<close>

section \<open>State\<close>

datatype rsobj = OElement element | OType rstype | OOther "nat list"

record rsctx = "rsobj rsc" +
  mElements :: "nat list"
  mTypes :: "nat list"

definition rsctx_empty :: rsctx where
  "rsctx_empty = \<lparr>mObjHead = None, mObjs = [], mElements = [], mTypes = []\<rparr>"

definition get_elem :: "rsctx \<Rightarrow> elem_env" where
  "get_elem st ob =
     (case ocell st ob of
        Some c \<Rightarrow> (case obj_data c of OElement e \<Rightarrow> Some e | OType t \<Rightarrow> None | OOther ks \<Rightarrow> None)
      | None \<Rightarrow> None)"

definition get_type :: "rsctx \<Rightarrow> nat \<Rightarrow> rstype option" where
  "get_type st ob =
     (case ocell st ob of
        Some c \<Rightarrow> (case obj_data c of OElement e \<Rightarrow> None | OType t \<Rightarrow> Some t | OOther ks \<Rightarrow> None)
      | None \<Rightarrow> None)"

text \<open>Names of objects as C strings.\<close>

definition get_name :: "rsctx \<Rightarrow> nat \<Rightarrow> u8 list option" where
  "get_name st ob = do { c \<leftarrow> ocell st ob; m \<leftarrow> mName c; those m }"

definition put_obj :: "nat \<Rightarrow> rsobj \<Rightarrow> rsctx \<Rightarrow> rsctx" where
  "put_obj ob d st = ocell_upd ob (\<lambda>c. c\<lparr>obj_data := d\<rparr>) st"

section \<open>Destruction\<close>

fun rs_releases :: "rsobj \<Rightarrow> nat list" where
  "rs_releases (OElement e) = Element_releases e"
| "rs_releases (OType t) = Type_releases t"
| "rs_releases (OOther ks) = ks"

text \<open>The loop \<open>if (v[ct] == this) { v.removeAt(ct); break; }\<close>.\<close>

fun removeAt_first :: "nat \<Rightarrow> nat list \<Rightarrow> nat list" where
  "removeAt_first x [] = []"
| "removeAt_first x (y # ys) = (if y = x then ys else y # removeAt_first x ys)"

definition Element_preDestroy :: "nat \<Rightarrow> rsctx \<Rightarrow> rsctx option" where
  "Element_preDestroy ob st = Some (st\<lparr>mElements := removeAt_first ob (mElements st)\<rparr>)"

definition Type_preDestroy :: "nat \<Rightarrow> rsctx \<Rightarrow> rsctx option" where
  "Type_preDestroy ob st = Some (st\<lparr>mTypes := removeAt_first ob (mTypes st)\<rparr>)"

definition rs_preDestroy :: "nat \<Rightarrow> rsctx \<Rightarrow> rsctx option" where
  "rs_preDestroy ob st =
     do { c \<leftarrow> ocell st ob;
          case obj_data c of
            OElement e \<Rightarrow> Element_preDestroy ob st
          | OType t \<Rightarrow> Type_preDestroy ob st
          | OOther ks \<Rightarrow> ObjectBase_preDestroy ob st }"

definition rs_vt :: "(rsobj, rsctx) objvt" where
  "rs_vt = \<lparr>vt_releases = rs_releases, vt_preDestroy = rs_preDestroy,
     vt_freeChildren = ObjectBase_freeChildren\<rparr>"

section \<open>Elements\<close>

text \<open>The first loop of \<open>createRef\<close> for a single component.\<close>

fun Element_find ::
    "rsctx \<Rightarrow> RsDataType \<Rightarrow> RsDataKind \<Rightarrow> bool \<Rightarrow> u32 \<Rightarrow> nat list \<Rightarrow> nat option option" where
  "Element_find st dt dk isNorm vecSize [] = Some None"
| "Element_find st dt dk isNorm vecSize (ob # obs) =
     do { ee \<leftarrow> get_elem st ob;
          if eFields ee = [] \<and> mType (eComponent ee) = dt \<and> mKind (eComponent ee) = dk
             \<and> mNormalized (eComponent ee) = isNorm \<and> mVectorSize (eComponent ee) = vecSize
          then Some (Some ob)
          else Element_find st dt dk isNorm vecSize obs }"

text \<open>\<open>returnRef.set(ee); return ee;\<close>: the returned reference is made from the pointer, then
  \<open>returnRef\<close> is destroyed.\<close>

definition return_pointer :: "nat \<Rightarrow> rsctx \<Rightarrow> (nat \<times> rsctx) option" where
  "return_pointer ob st =
     do { (r1, st1) \<leftarrow> ObjectBaseRef_set rs_vt None (Some ob) st;
          (r2, st2) \<leftarrow> ObjectBaseRef_copy (Some ob) st1;
          (r3, st3) \<leftarrow> ObjectBaseRef_clear rs_vt r1 st2;
          Some (ob, st3) }"

definition Element_createRef ::
    "RsDataType \<Rightarrow> RsDataKind \<Rightarrow> bool \<Rightarrow> u32 \<Rightarrow> rsctx \<Rightarrow> (nat \<times> rsctx) option" where
  "Element_createRef dt dk isNorm vecSize st =
     do { found \<leftarrow> Element_find st dt dk isNorm vecSize (mElements st);
          case found of
            Some ob \<Rightarrow> return_pointer ob st
          | None \<Rightarrow>
              do { (ob, st1) \<leftarrow> ObjectBase_new (OElement Element_new) st;
                   (r, st2) \<leftarrow> ObjectBaseRef_set rs_vt None (Some ob) st1;
                   c \<leftarrow> Component_set dt dk isNorm vecSize (eComponent Element_new);
                   e \<leftarrow> Element_compute (get_elem st2) (Element_new\<lparr>eComponent := c\<rparr>);
                   let st3 = put_obj ob (OElement e) st2;
                   Some (ob, st3\<lparr>mElements := mElements st3 @ [ob]\<rparr>) } }"

text \<open>\<open>strcmp(a, b) == 0\<close>.\<close>

definition c_streq :: "u8 list \<Rightarrow> u8 list \<Rightarrow> bool option" where
  "c_streq a b =
     do { na \<leftarrow> c_strlen a; nb \<leftarrow> c_strlen b; Some (take na a = take nb b) }"

text \<open>The arguments of field \<open>i\<close>: \<open>len\<close> from \<open>lengths\<close> or \<open>strlen\<close>, \<open>asize\<close> from \<open>asin\<close> or 1. An
  access past the end of an argument array is undefined.\<close>

definition arg_nth :: "'a list \<Rightarrow> nat \<Rightarrow> 'a option" where
  "arg_nth xs i = (if i < length xs then Some (xs ! i) else None)"

definition field_args ::
    "nat list \<Rightarrow> u8 list list \<Rightarrow> u64 list option \<Rightarrow> u32 list option \<Rightarrow> nat \<Rightarrow>
     (nat \<times> u8 list \<times> u64 \<times> u32) option" where
  "field_args ein nin lengths asin i =
     do { e \<leftarrow> arg_nth ein i;
          n \<leftarrow> arg_nth nin i;
          len \<leftarrow> (case lengths of Some ls \<Rightarrow> arg_nth ls i | None \<Rightarrow> map_option of_nat (c_strlen n));
          asize \<leftarrow> (case asin of Some as \<Rightarrow> arg_nth as i | None \<Rightarrow> Some 1);
          Some (e, n, len, asize) }"

text \<open>The inner loop: do the fields from \<open>i\<close> on match?\<close>

fun match_fields ::
    "element_field list \<Rightarrow> nat list \<Rightarrow> u8 list list \<Rightarrow> u64 list option \<Rightarrow> u32 list option \<Rightarrow> nat \<Rightarrow> bool option"
  where
  "match_fields [] ein nin lengths asin i = Some True"
| "match_fields (f # fs) ein nin lengths asin i =
     do { (e, n, len, asize) \<leftarrow> field_args ein nin lengths asin i;
          if fElem f \<noteq> e then Some False
          else do { l \<leftarrow> c_strlen (fName f);
                    if of_nat l \<noteq> len then Some False
                    else do { eq \<leftarrow> c_streq (fName f) n;
                              if \<not> eq \<or> fArraySize f \<noteq> asize then Some False
                              else match_fields fs ein nin lengths asin (i + 1) } } }"

fun Element_find_fields ::
    "rsctx \<Rightarrow> nat \<Rightarrow> nat list \<Rightarrow> u8 list list \<Rightarrow> u64 list option \<Rightarrow> u32 list option \<Rightarrow> nat list \<Rightarrow>
     nat option option" where
  "Element_find_fields st cnt ein nin lengths asin [] = Some None"
| "Element_find_fields st cnt ein nin lengths asin (ob # obs) =
     do { ee \<leftarrow> get_elem st ob;
          m \<leftarrow> (if length (eFields ee) = cnt then match_fields (eFields ee) ein nin lengths asin 0
                else Some False);
          if m then Some (Some ob) else Element_find_fields st cnt ein nin lengths asin obs }"

text \<open>The second loop: take a reference to each field element and copy its name.\<close>

fun make_fields ::
    "nat \<Rightarrow> nat \<Rightarrow> nat list \<Rightarrow> u8 list list \<Rightarrow> u64 list option \<Rightarrow> u32 list option \<Rightarrow> rsctx \<Rightarrow>
     (element_field list \<times> rsctx) option" where
  "make_fields 0 i ein nin lengths asin st = Some ([], st)"
| "make_fields (Suc n) i ein nin lengths asin st =
     do { (e, nm, len, asize) \<leftarrow> field_args ein nin lengths asin i;
          (r, st1) \<leftarrow> ObjectBaseRef_set rs_vt None (Some e) st;
          name \<leftarrow> rsuCopyString (map Some nm) 0 len;
          (fs, st2) \<leftarrow> make_fields n (i + 1) ein nin lengths asin st1;
          Some (\<lparr>fName = name, fElem = e, fOffsetBits = 0, fOffsetBitsUnpadded = 0, fArraySize = asize\<rparr> # fs,
                st2) }"

definition Element_createRef_fields ::
    "nat \<Rightarrow> nat list \<Rightarrow> u8 list list \<Rightarrow> u64 list option \<Rightarrow> u32 list option \<Rightarrow> rsctx \<Rightarrow>
     (nat \<times> rsctx) option" where
  "Element_createRef_fields cnt ein nin lengths asin st =
     do { found \<leftarrow> Element_find_fields st cnt ein nin lengths asin (mElements st);
          case found of
            Some ob \<Rightarrow>
              do { (r, st1) \<leftarrow> ObjectBaseRef_set rs_vt None (Some ob) st; Some (ob, st1) }
          | None \<Rightarrow>
              do { (ob, st1) \<leftarrow> ObjectBase_new (OElement Element_new) st;
                   (r, st2) \<leftarrow> ObjectBaseRef_set rs_vt None (Some ob) st1;
                   (fs, st3) \<leftarrow> make_fields cnt 0 ein nin lengths asin st2;
                   e \<leftarrow> Element_compute (get_elem st3) (Element_new\<lparr>eFields := fs\<rparr>);
                   let st4 = put_obj ob (OElement e) st3;
                   Some (ob, st4\<lparr>mElements := mElements st4 @ [ob]\<rparr>) } }"

text \<open>\<open>create\<close>: a user reference for the caller, and the local \<open>ObjectBaseRef\<close> goes out of scope.\<close>

definition ref_to_user :: "nat \<Rightarrow> rsctx \<Rightarrow> (nat \<times> rsctx) option" where
  "ref_to_user ob st =
     do { st1 \<leftarrow> incUserRef ob st;
          (r, st2) \<leftarrow> ObjectBaseRef_clear rs_vt (Some ob) st1;
          Some (ob, st2) }"

definition Element_create ::
    "RsDataType \<Rightarrow> RsDataKind \<Rightarrow> bool \<Rightarrow> u32 \<Rightarrow> rsctx \<Rightarrow> (nat \<times> rsctx) option" where
  "Element_create dt dk isNorm vecSize st =
     do { (ob, st1) \<leftarrow> Element_createRef dt dk isNorm vecSize st; ref_to_user ob st1 }"

definition Element_create_fields ::
    "nat \<Rightarrow> nat list \<Rightarrow> u8 list list \<Rightarrow> u64 list option \<Rightarrow> u32 list option \<Rightarrow> rsctx \<Rightarrow>
     (nat \<times> rsctx) option" where
  "Element_create_fields cnt ein nin lengths asin st =
     do { (ob, st1) \<leftarrow> Element_createRef_fields cnt ein nin lengths asin st; ref_to_user ob st1 }"

definition rsi_ElementCreate ::
    "RsDataType \<Rightarrow> RsDataKind \<Rightarrow> bool \<Rightarrow> u32 \<Rightarrow> rsctx \<Rightarrow> (nat \<times> rsctx) option" where
  "rsi_ElementCreate dt dk norm vecSize st = Element_create dt dk norm vecSize st"

definition rsi_ElementCreate2 ::
    "nat list \<Rightarrow> u8 list list \<Rightarrow> u64 list \<Rightarrow> u32 list \<Rightarrow> rsctx \<Rightarrow> (nat \<times> rsctx) option" where
  "rsi_ElementCreate2 ein names nameLengths arraySizes st =
     Element_create_fields (length ein) ein names (Some nameLengths) (Some arraySizes) st"

section \<open>Types\<close>

fun Type_find ::
    "rsctx \<Rightarrow> nat \<Rightarrow> u32 \<Rightarrow> u32 \<Rightarrow> u32 \<Rightarrow> bool \<Rightarrow> bool \<Rightarrow> u32 \<Rightarrow> nat list \<Rightarrow> nat option option" where
  "Type_find st e dimX dimY dimZ dimLOD dimFaces dimYuv [] = Some None"
| "Type_find st e dimX dimY dimZ dimLOD dimFaces dimYuv (ob # obs) =
     do { t \<leftarrow> get_type st ob;
          if tElement t = Some e \<and> tDimX t = dimX \<and> tDimY t = dimY \<and> tDimZ t = dimZ
             \<and> tDimLOD t = dimLOD \<and> tFaces t = dimFaces \<and> tDimYuv t = dimYuv
          then Some (Some ob)
          else Type_find st e dimX dimY dimZ dimLOD dimFaces dimYuv obs }"

definition Type_getTypeRef ::
    "nat \<Rightarrow> u32 \<Rightarrow> u32 \<Rightarrow> u32 \<Rightarrow> bool \<Rightarrow> bool \<Rightarrow> u32 \<Rightarrow> rsctx \<Rightarrow> (nat \<times> rsctx) option" where
  "Type_getTypeRef e dimX dimY dimZ dimLOD dimFaces dimYuv st =
     do { found \<leftarrow> Type_find st e dimX dimY dimZ dimLOD dimFaces dimYuv (mTypes st);
          case found of
            Some ob \<Rightarrow>
              do { (r, st1) \<leftarrow> ObjectBaseRef_set rs_vt None (Some ob) st; Some (ob, st1) }
          | None \<Rightarrow>
              do { (ob, st1) \<leftarrow> ObjectBase_new (OType (Type_new\<lparr>tDimLOD := dimLOD\<rparr>)) st;
                   (r, st2) \<leftarrow> ObjectBaseRef_set rs_vt None (Some ob) st1;
                   (r', st3) \<leftarrow> ObjectBaseRef_set rs_vt None (Some e) st2;
                   t \<leftarrow> Type_compute (Type_new\<lparr>tDimLOD := dimLOD, tElement := Some e, tDimX := dimX,
                          tDimY := dimY, tDimZ := dimZ, tFaces := dimFaces, tDimYuv := dimYuv\<rparr>);
                   let st4 = put_obj ob (OType t) st3;
                   Some (ob, st4\<lparr>mTypes := mTypes st4 @ [ob]\<rparr>) } }"

definition Type_getType ::
    "nat \<Rightarrow> u32 \<Rightarrow> u32 \<Rightarrow> u32 \<Rightarrow> bool \<Rightarrow> bool \<Rightarrow> u32 \<Rightarrow> rsctx \<Rightarrow> (nat \<times> rsctx) option" where
  "Type_getType e dimX dimY dimZ dimLOD dimFaces yuv st =
     do { (ob, st1) \<leftarrow> Type_getTypeRef e dimX dimY dimZ dimLOD dimFaces yuv st; ref_to_user ob st1 }"

definition Type_cloneAndResize1D :: "rstype \<Rightarrow> u32 \<Rightarrow> rsctx \<Rightarrow> (nat \<times> rsctx) option" where
  "Type_cloneAndResize1D t dimX st =
     do { e \<leftarrow> tElement t;
          Type_getTypeRef e dimX (tDimY t) (tDimZ t) (tDimLOD t) (tFaces t) (tDimYuv t) st }"

definition Type_cloneAndResize2D :: "rstype \<Rightarrow> u32 \<Rightarrow> u32 \<Rightarrow> rsctx \<Rightarrow> (nat \<times> rsctx) option" where
  "Type_cloneAndResize2D t dimX dimY st =
     do { e \<leftarrow> tElement t;
          Type_getTypeRef e dimX dimY (tDimZ t) (tDimLOD t) (tFaces t) (tDimYuv t) st }"

definition rsi_TypeCreate ::
    "nat \<Rightarrow> u32 \<Rightarrow> u32 \<Rightarrow> u32 \<Rightarrow> bool \<Rightarrow> bool \<Rightarrow> u32 \<Rightarrow> rsctx \<Rightarrow> (nat \<times> rsctx) option" where
  "rsi_TypeCreate e dimX dimY dimZ mipmaps faces yuv st =
     Type_getType e dimX dimY dimZ mipmaps faces yuv st"

section \<open>Loading from a stream\<close>

text \<open>The loop that loads the fields. A field whose element cannot be loaded leaves a null pointer,
  on which \<open>decUserRef\<close> is called below.\<close>

fun load_fields ::
    "(istream \<Rightarrow> rsctx \<Rightarrow> (nat option \<times> istream \<times> rsctx) option) \<Rightarrow> nat \<Rightarrow> istream \<Rightarrow> rsctx \<Rightarrow>
     ((nat option \<times> u8 list \<times> u64 \<times> u32) list \<times> istream \<times> rsctx) option" where
  "load_fields load 0 i st = Some ([], i, st)"
| "load_fields load (Suc n) i st =
     do { (nm, i1) \<leftarrow> loadString i;
          len \<leftarrow> c_strlen nm;
          (asize, i2) \<leftarrow> loadU32 i1;
          (sub, i3, st1) \<leftarrow> load i2 st;
          (rest, i4, st2) \<leftarrow> load_fields load n i3 st1;
          Some ((sub, nm, of_nat len, asize) # rest, i4, st2) }"

fun decUserRef_all :: "nat list \<Rightarrow> rsctx \<Rightarrow> rsctx option" where
  "decUserRef_all [] st = Some st"
| "decUserRef_all (ob # obs) st = do { (b, st1) \<leftarrow> decUserRef rs_vt ob st; decUserRef_all obs st1 }"

text \<open>The nesting of structures is bounded by \<open>fuel\<close>. The result is null when the class id is
  wrong.\<close>

primrec Element_createFromStream ::
    "nat \<Rightarrow> istream \<Rightarrow> rsctx \<Rightarrow> (nat option \<times> istream \<times> rsctx) option" where
  "Element_createFromStream 0 = (\<lambda>i st. None)"
| "Element_createFromStream (Suc fuel) = (\<lambda>i st.
     do { (classID, i1) \<leftarrow> loadU32 i;
          if classID \<noteq> RS_A3D_CLASS_ID_ELEMENT then Some (None, i1, st)
          else do {
            (name, i2) \<leftarrow> loadString i1;
            (c, i3) \<leftarrow> Component_loadFromStream Component_new i2;
            (fieldCount, i4) \<leftarrow> loadU32 i3;
            if fieldCount = 0
            then do { (ob, st1) \<leftarrow> Element_create (mType c) (mKind c) (mNormalized c) (mVectorSize c) st;
                      Some (Some ob, i4, st1) }
            else do {
              (args, i5, st1) \<leftarrow> load_fields (Element_createFromStream fuel) (unat fieldCount) i4 st;
              subs \<leftarrow> those (map fst args);
              (ob, st2) \<leftarrow> Element_create_fields (unat fieldCount) subs (map (fst \<circ> snd) args)
                 (Some (map (fst \<circ> snd \<circ> snd) args)) (Some (map (snd \<circ> snd \<circ> snd) args)) st1;
              st3 \<leftarrow> decUserRef_all subs st2;
              Some (Some ob, i5, st3) } } })"

definition Type_createFromStream ::
    "nat \<Rightarrow> istream \<Rightarrow> rsctx \<Rightarrow> (nat option \<times> istream \<times> rsctx) option" where
  "Type_createFromStream fuel i st =
     do { (classID, i1) \<leftarrow> loadU32 i;
          if classID \<noteq> RS_A3D_CLASS_ID_TYPE then Some (None, i1, st)
          else do {
            (name, i2) \<leftarrow> loadString i1;
            (elem, i3, st1) \<leftarrow> Element_createFromStream fuel i2 st;
            case elem of
              None \<Rightarrow> Some (None, i3, st1)
            | Some e \<Rightarrow> do {
                (x, i4) \<leftarrow> loadU32 i3;
                (y, i5) \<leftarrow> loadU32 i4;
                (z, i6) \<leftarrow> loadU32 i5;
                (lod, i7) \<leftarrow> loadU8 i6;
                (faces, i8) \<leftarrow> loadU8 i7;
                (t, st2) \<leftarrow> Type_getType e x y z (lod \<noteq> 0) (faces \<noteq> 0) 0 st1;
                (b, st3) \<leftarrow> decUserRef rs_vt e st2;
                Some (Some t, i8, st3) } } }"

section \<open>The object system of a context\<close>

interpretation rs: object_class rs_vt
proof
  fix st :: rsctx and ob c
  assume "ocell st ob = Some c"
  then show "\<exists>st'. vt_preDestroy rs_vt ob st = Some st' \<and> mObjs st' = mObjs st \<and> mObjHead st' = mObjHead st"
    by (auto simp: rs_vt_def rs_preDestroy_def Element_preDestroy_def Type_preDestroy_def
        ObjectBase_preDestroy_def split: rsobj.split)
qed

section \<open>The caches hold live objects\<close>

definition cache_ok :: "rsctx \<Rightarrow> bool" where
  "cache_ok st \<longleftrightarrow> distinct (mElements st) \<and> distinct (mTypes st)
     \<and> (\<forall>ob\<in>set (mElements st). get_elem st ob \<noteq> None) \<and> (\<forall>ob\<in>set (mTypes st). get_type st ob \<noteq> None)"

lemma removeAt_first_remove1 [simp]: "removeAt_first x xs = remove1 x xs"
  by (induction xs) auto

text \<open>The data of every object.\<close>

definition odata :: "rsctx \<Rightarrow> nat \<Rightarrow> rsobj option" where
  "odata st ob = map_option obj_data (ocell st ob)"

lemma get_elem_odata: "get_elem st ob = (case odata st ob of Some (OElement e) \<Rightarrow> Some e | _ \<Rightarrow> None)"
  by (auto simp: get_elem_def odata_def split: option.split rsobj.split)

lemma get_type_odata: "get_type st ob = (case odata st ob of Some (OType t) \<Rightarrow> Some t | _ \<Rightarrow> None)"
  by (auto simp: get_type_def odata_def split: option.split rsobj.split)

text \<open>\<open>st'\<close> has at most the cache entries of \<open>st\<close>, and the entries it kept still name the same
  data; nothing was created.\<close>

definition cache_shrinks :: "rsctx \<Rightarrow> rsctx \<Rightarrow> bool" where
  "cache_shrinks st st' \<longleftrightarrow> set (mElements st') \<subseteq> set (mElements st) \<and> set (mTypes st') \<subseteq> set (mTypes st)
     \<and> distinct (mElements st') \<and> distinct (mTypes st')
     \<and> (\<forall>ob\<in>set (mElements st') \<union> set (mTypes st'). odata st' ob = odata st ob)
     \<and> (\<forall>ob. odata st ob = None \<longrightarrow> odata st' ob = None)"

lemma cache_shrinks_ok: "cache_ok st \<Longrightarrow> cache_shrinks st st' \<Longrightarrow> cache_ok st'"
  by (auto simp: cache_ok_def cache_shrinks_def get_elem_odata get_type_odata)

lemma cache_shrinks_trans:
  "cache_shrinks st st1 \<Longrightarrow> cache_shrinks st1 st2 \<Longrightarrow> cache_shrinks st st2"
  by (auto simp: cache_shrinks_def)

lemma cache_shrinks_refl: "cache_ok st \<Longrightarrow> cache_shrinks st st"
  by (auto simp: cache_shrinks_def cache_ok_def)

lemma cache_shrinks_same:
  assumes "cache_ok st" and "mElements st' = mElements st" and "mTypes st' = mTypes st"
    and "\<And>ob. odata st' ob = odata st ob"
  shows "cache_shrinks st st'"
  using assms by (simp add: cache_shrinks_def cache_ok_def)

lemma caches_ocell_upd [simp]: "mElements (ocell_upd ob f st) = mElements st" "mTypes (ocell_upd ob f st) = mTypes st"
  by (simp_all add: ocell_upd_def)

lemma odata_ocell_upd:
  "(\<And>c. obj_data (f c) = obj_data c) \<Longrightarrow> odata (ocell_upd ob f st) x = odata st x"
  by (simp add: odata_def ocell_ocell_upd option.map_comp comp_def)

lemma optr_upd_same:
  assumes "optr_upd p f st = Some st'" and "\<And>c. obj_data (f c) = obj_data c"
  shows "mElements st' = mElements st \<and> mTypes st' = mTypes st \<and> (\<forall>x. odata st' x = odata st x)"
  using assms by (auto simp: optr_upd_def odata_ocell_upd split: option.splits if_splits)

lemma odata_head [simp]: "odata (st\<lparr>mObjHead := h\<rparr>) x = odata st x"
  by (simp add: odata_def)

lemma ObjectBase_remove_same:
  assumes "ObjectBase_remove ob st = Some st'"
  shows "mElements st' = mElements st \<and> mTypes st' = mTypes st \<and> (\<forall>x. odata st' x = odata st x)"
proof -
  from assms obtain c s2 s3 where "ocell st ob = Some c"
    and 2: "optr_upd (mPrev c) (\<lambda>d. d\<lparr>mNext := mNext c\<rparr>) (if mObjHead st = Some ob then st\<lparr>mObjHead := mNext c\<rparr> else st) = Some s2"
    and 3: "optr_upd (mNext c) (\<lambda>d. d\<lparr>mPrev := mPrev c\<rparr>) s2 = Some s3"
    and e: "ocell_upd ob (\<lambda>d. d\<lparr>mPrev := None, mNext := None\<rparr>) s3 = st'"
    unfolding ObjectBase_remove_def Let_def bind_Some_iff option.inject by blast
  show ?thesis
    using optr_upd_same[OF 2] optr_upd_same[OF 3] by (auto simp: e[symmetric] odata_ocell_upd)
qed

lemma odata_erase: "odata (st\<lparr>mObjs := (mObjs st)[ob := None]\<rparr>) x = (if x = ob then None else odata st x)"
  by (simp add: odata_def ocell_erase)

lemma ObjectBase_destroy_shrinks:
  assumes "ObjectBase_destroy ob st = Some st'" and "ob \<notin> set (mElements st)" and "ob \<notin> set (mTypes st)"
    and "distinct (mElements st)" and "distinct (mTypes st)"
  shows "cache_shrinks st st'"
proof -
  from assms(1) obtain c s1 where "ocell st ob = Some c" and s1: "(if mPrev c \<noteq> None \<or> mNext c \<noteq> None then ObjectBase_remove ob st else Some st) = Some s1"
    and st': "s1\<lparr>mObjs := (mObjs s1)[ob := None]\<rparr> = st'"
    unfolding ObjectBase_destroy_def bind_Some_iff option.inject by blast
  have same: "mElements s1 = mElements st \<and> mTypes s1 = mTypes st \<and> (\<forall>x. odata s1 x = odata st x)"
    using s1 ObjectBase_remove_same[of ob st s1] by (auto split: if_splits)
  have o: "odata st' x = (if x = ob then None else odata st x)" for x
    using same by (simp add: st'[symmetric] odata_erase)
  have m: "mElements st' = mElements st" "mTypes st' = mTypes st"
    using same by (simp_all add: st'[symmetric])
  show ?thesis using assms(2-5) by (auto simp: cache_shrinks_def m o)
qed

definition rel_shrinks :: "(nat \<Rightarrow> rsctx \<Rightarrow> (bool \<times> rsctx) option) \<Rightarrow> bool" where
  "rel_shrinks rel \<longleftrightarrow> (\<forall>ob st b st'. cache_ok st \<and> rel ob st = Some (b, st') \<longrightarrow> cache_shrinks st st')"

lemma release_all_shrinks:
  assumes "rel_shrinks rel"
  shows "cache_ok st \<Longrightarrow> release_all rel ks st = Some st' \<Longrightarrow> cache_shrinks st st'"
proof (induction ks arbitrary: st)
  case Nil
  then show ?case by (simp add: cache_shrinks_refl)
next
  case (Cons k ks)
  from Cons.prems(2) obtain b s1 where s1: "rel k st = Some (b, s1)" "release_all rel ks s1 = Some st'"
    by (auto simp: bind_Some_iff)
  have sh: "cache_shrinks st s1" using assms Cons.prems(1) s1(1) unfolding rel_shrinks_def by blast
  have "cache_shrinks s1 st'" by (rule Cons.IH[OF cache_shrinks_ok[OF Cons.prems(1) sh] s1(2)])
  then show ?case using sh cache_shrinks_trans by blast
qed

lemma rs_preDestroy_shrinks:
  assumes ok: "cache_ok st" and pd: "rs_preDestroy ob st = Some st'"
  shows "cache_shrinks st st' \<and> ob \<notin> set (mElements st') \<and> ob \<notin> set (mTypes st')"
proof -
  from pd obtain c where c: "ocell st ob = Some c" by (auto simp: rs_preDestroy_def bind_Some_iff)
  have e: "ob \<in> set (mElements st) \<Longrightarrow> \<exists>e. obj_data c = OElement e"
    using ok c by (auto simp: cache_ok_def get_elem_def split: rsobj.splits)
  have t: "ob \<in> set (mTypes st) \<Longrightarrow> \<exists>t. obj_data c = OType t"
    using ok c by (auto simp: cache_ok_def get_type_def split: rsobj.splits)
  have d: "distinct (mElements st)" "distinct (mTypes st)" using ok by (simp_all add: cache_ok_def)
  have o: "mObjs st' = mObjs st" using pd
    by (auto simp: rs_preDestroy_def c Element_preDestroy_def Type_preDestroy_def ObjectBase_preDestroy_def
        split: rsobj.splits)
  then have o': "odata st' x = odata st x" for x by (simp add: odata_def ocell_def)
  show ?thesis
  proof (cases "obj_data c")
    case (OElement x1)
    then have "st' = st\<lparr>mElements := remove1 ob (mElements st)\<rparr>"
      using pd c by (simp add: rs_preDestroy_def Element_preDestroy_def)
    then show ?thesis using d t OElement o' by (auto simp: cache_shrinks_def)
  next
    case (OType x2)
    then have "st' = st\<lparr>mTypes := remove1 ob (mTypes st)\<rparr>"
      using pd c by (simp add: rs_preDestroy_def Type_preDestroy_def)
    then show ?thesis using d e OType o' by (auto simp: cache_shrinks_def)
  next
    case (OOther x3)
    then have "st' = st" using pd c by (simp add: rs_preDestroy_def ObjectBase_preDestroy_def)
    then show ?thesis using d e t OOther by (auto simp: cache_shrinks_def)
  qed
qed

lemma checkDelete_shrinks:
  assumes rel: "rel_shrinks rel" and ok: "cache_ok st"
    and cd: "checkDelete_with rs_vt rel (Some ob) st = Some (b, st')"
  shows "cache_shrinks st st'"
proof -
  from cd obtain c where c: "ocell st ob = Some c" by (auto simp: checkDelete_with_def bind_Some_iff)
  show ?thesis
  proof (cases "mUserRefCount c \<noteq> 0 \<or> mSysRefCount c \<noteq> 0")
    case True
    then have "st' = st" using cd c by (simp add: checkDelete_with_def)
    then show ?thesis using ok cache_shrinks_refl by simp
  next
    case False
    with cd c obtain s1 s2 s3 where s: "ObjectBase_remove ob st = Some s1" "rs_preDestroy ob s1 = Some s2"
      "release_all rel (rs_releases (obj_data c)) s2 = Some s3" "ObjectBase_destroy ob s3 = Some st'"
      by (auto simp: checkDelete_with_def bind_Some_iff rs_vt_def)
    have 1: "cache_shrinks st s1" using ObjectBase_remove_same[OF s(1)] ok by (intro cache_shrinks_same) auto
    have ok1: "cache_ok s1" by (rule cache_shrinks_ok[OF ok 1])
    have 2: "cache_shrinks s1 s2" "ob \<notin> set (mElements s2)" "ob \<notin> set (mTypes s2)"
      using rs_preDestroy_shrinks[OF ok1 s(2)] by auto
    have ok2: "cache_ok s2" by (rule cache_shrinks_ok[OF ok1 2(1)])
    have 3: "cache_shrinks s2 s3" by (rule release_all_shrinks[OF rel ok2 s(3)])
    have "ob \<notin> set (mElements s3)" "ob \<notin> set (mTypes s3)" "distinct (mElements s3)" "distinct (mTypes s3)"
      using 2 3 by (auto simp: cache_shrinks_def)
    then have 4: "cache_shrinks s3 st'" by (rule ObjectBase_destroy_shrinks[OF s(4)])
    show ?thesis using 1 2(1) 3 4 cache_shrinks_trans by blast
  qed
qed

lemma decSysRef_fuel_shrinks: "rel_shrinks (decSysRef_fuel rs_vt n)"
proof (induction n)
  case 0
  show ?case by (simp add: rel_shrinks_def)
next
  case (Suc n)
  show ?case
    unfolding rel_shrinks_def
  proof (intro allI impI, elim conjE)
    fix ob st b st'
    assume ok: "cache_ok st" and d: "decSysRef_fuel rs_vt (Suc n) ob st = Some (b, st')"
    let ?s1 = "ocell_upd ob (\<lambda>c. c\<lparr>mSysRefCount := mSysRefCount c - 1\<rparr>) st"
    have 1: "cache_shrinks st ?s1" using ok by (intro cache_shrinks_same) (auto simp: odata_ocell_upd)
    have ok1: "cache_ok ?s1" by (rule cache_shrinks_ok[OF ok 1])
    from d have "checkDelete_with rs_vt (decSysRef_fuel rs_vt n) (Some ob) ?s1 = Some (b, st') \<or> st' = ?s1"
      by (auto simp: bind_Some_iff Let_def split: if_splits)
    then show "cache_shrinks st st'"
      using 1 checkDelete_shrinks[OF Suc.IH ok1] cache_shrinks_trans by blast
  qed
qed

lemma decSysRef_shrinks: "rel_shrinks (decSysRef rs_vt)"
  using decSysRef_fuel_shrinks unfolding rel_shrinks_def decSysRef_def by blast

lemma cache_ok_upd:
  assumes "cache_ok st" and "\<And>c. obj_data (f c) = obj_data c"
  shows "cache_ok (ocell_upd ob f st)"
proof -
  have "cache_shrinks st (ocell_upd ob f st)"
    using assms(1) by (intro cache_shrinks_same) (simp_all add: odata_ocell_upd assms(2))
  then show ?thesis by (rule cache_shrinks_ok[OF assms(1)])
qed

lemma decSysRef_cache_ok: "cache_ok st \<Longrightarrow> decSysRef rs_vt ob st = Some (b, st') \<Longrightarrow> cache_ok st'"
  using decSysRef_shrinks cache_shrinks_ok unfolding rel_shrinks_def by blast

lemma checkDelete_cache_ok: "cache_ok st \<Longrightarrow> checkDelete rs_vt (Some ob) st = Some (b, st') \<Longrightarrow> cache_ok st'"
  using checkDelete_shrinks[OF decSysRef_shrinks] cache_shrinks_ok unfolding checkDelete_def by blast

lemma decUserRef_cache_ok:
  assumes "cache_ok st" and "decUserRef rs_vt ob st = Some (b, st')"
  shows "cache_ok st'"
proof -
  let ?s1 = "ocell_upd ob (\<lambda>c. c\<lparr>mUserRefCount := mUserRefCount c - 1\<rparr>) st"
  have ok1: "cache_ok ?s1" using assms(1) by (rule cache_ok_upd) simp
  from assms(2) have "checkDelete rs_vt (Some ob) ?s1 = Some (b, st') \<or> st' = ?s1"
    by (auto simp: decUserRef_def bind_Some_iff Let_def split: if_splits)
  then show ?thesis using checkDelete_cache_ok[OF ok1] ok1 by blast
qed

lemma zeroUserRef_cache_ok:
  assumes "cache_ok st" and "zeroUserRef rs_vt ob st = Some (b, st')"
  shows "cache_ok st'"
proof -
  let ?s1 = "ocell_upd ob (\<lambda>c. c\<lparr>mUserRefCount := 0\<rparr>) st"
  have ok1: "cache_ok ?s1" using assms(1) by (rule cache_ok_upd) simp
  from assms(2) have "checkDelete rs_vt (Some ob) ?s1 = Some (b, st') \<or> st' = ?s1"
    by (auto simp: zeroUserRef_def bind_Some_iff Let_def split: if_splits)
  then show ?thesis using checkDelete_cache_ok[OF ok1] ok1 by blast
qed

lemma zeroAllUserRef_loop_cache_ok:
  assumes "zeroAllUserRef_loop rs_vt p st = Some st'"
  shows "cache_ok st \<longrightarrow> cache_ok st'"
proof -
  from assms have "rs_vt = rs_vt \<longrightarrow> cache_ok st \<longrightarrow> cache_ok st'"
  proof (rule zeroAllUserRef_loop.raw_induct[of "\<lambda>vt p st st'. vt = rs_vt \<longrightarrow> cache_ok st \<longrightarrow> cache_ok st'", rotated])
    fix f and vt :: "(rsobj, rsctx) objvt" and p st st'
    assume IH: "\<And>vt p st st'. f vt p st = Some st' \<Longrightarrow> vt = rs_vt \<longrightarrow> cache_ok st \<longrightarrow> cache_ok st'"
      and f: "(case p of None \<Rightarrow> Some st
        | Some ob \<Rightarrow> Option.bind (zeroUserRef vt ob st) (\<lambda>r. if fst r then f vt (mObjHead (snd r)) (snd r)
            else Option.bind (ocell (snd r) ob) (\<lambda>c. f vt (mNext c) (snd r)))) = Some st'"
    show "vt = rs_vt \<longrightarrow> cache_ok st \<longrightarrow> cache_ok st'"
    proof (intro impI)
      assume vt: "vt = rs_vt" and ok: "cache_ok st"
      show "cache_ok st'"
      proof (cases p)
        case None
        then show ?thesis using f ok by simp
      next
        case (Some ob)
        with f vt obtain r where z: "zeroUserRef rs_vt ob st = Some r"
          and r: "(if fst r then f rs_vt (mObjHead (snd r)) (snd r)
            else Option.bind (ocell (snd r) ob) (\<lambda>c. f rs_vt (mNext c) (snd r))) = Some st'"
          by (auto simp only: bind_Some_iff option.case)
        have ok1: "cache_ok (snd r)"
          using zeroUserRef_cache_ok[OF ok, of ob "fst r" "snd r"] z by simp
        from r obtain q where "f rs_vt q (snd r) = Some st'" by (auto simp: bind_Some_iff split: if_splits)
        then show ?thesis using IH ok1 by blast
      qed
    qed
  qed
  then show ?thesis by blast
qed

section \<open>Creating elements and types\<close>

lemma ocell_upd_twice: "ocell_upd ob f (ocell_upd ob g st) = ocell_upd ob (f \<circ> g) st"
  by (auto simp: ocell_upd_def ocell_def option.map_comp)

lemma ocell_upd_cong:
  "(\<And>c. ocell st ob = Some c \<Longrightarrow> f c = g c) \<Longrightarrow> ocell_upd ob f st = ocell_upd ob g st"
  by (cases "ocell st ob") (auto simp: ocell_upd_def)

lemma decSysRef_keeps:
  assumes "ocell st ob = Some c" and "1 < sint (mSysRefCount c) \<or> 0 < sint (mUserRefCount c)"
  shows "decSysRef vt ob st = Some (False, ocell_upd ob (\<lambda>c. c\<lparr>mSysRefCount := mSysRefCount c - 1\<rparr>) st)"
  using assms by (auto simp: decSysRef_def)

lemma ObjectBaseRef_set_None:
  "ocell st ob = Some c \<Longrightarrow> ObjectBaseRef_set vt None (Some ob) st
     = Some (Some ob, ocell_upd ob (\<lambda>c. c\<lparr>mSysRefCount := mSysRefCount c + 1\<rparr>) st)"
  by (simp add: ObjectBaseRef_set_def ObjectBaseRef_clear_def ObjectBaseRef_copy_def incSysRef_def)

lemma return_pointer_eq:
  assumes c: "ocell st ob = Some c" "0 \<le> sint (mSysRefCount c)" "sint (mSysRefCount c) < 2 ^ 31 - 2"
  shows "return_pointer ob st = Some (ob, ocell_upd ob (\<lambda>c. c\<lparr>mSysRefCount := mSysRefCount c + 1\<rparr>) st)"
proof -
  let ?inc = "\<lambda>c :: rsobj objcell. c\<lparr>mSysRefCount := mSysRefCount c + 1\<rparr>"
  let ?dec = "\<lambda>c :: rsobj objcell. c\<lparr>mSysRefCount := mSysRefCount c - 1\<rparr>"
  define s1 where "s1 = ocell_upd ob ?inc st"
  define s2 where "s2 = ocell_upd ob ?inc s1"
  have c1: "ocell s1 ob = Some (?inc c)" by (simp add: s1_def ocell_ocell_upd c)
  have c2: "ocell s2 ob = Some (?inc (?inc c))" by (simp add: s2_def ocell_ocell_upd c1)
  have "sint (mSysRefCount c + 1) = sint (mSysRefCount c) + 1" using c(3) by (intro sint_plus_one) simp
  moreover from this have "sint (mSysRefCount c + 1 + 1) = sint (mSysRefCount c) + 2"
    using c(3) sint_plus_one[of "mSysRefCount c + 1"] by simp
  ultimately have "1 < sint (mSysRefCount (?inc (?inc c)))" using c(2) by simp
  then have "decSysRef rs_vt ob s2 = Some (False, ocell_upd ob ?dec s2)"
    using c2 by (intro decSysRef_keeps) auto
  moreover have "ocell_upd ob ?dec s2 = s1"
  proof -
    have "ocell_upd ob ?dec s2 = ocell_upd ob (?dec \<circ> ?inc \<circ> ?inc) st"
      by (simp add: s2_def s1_def ocell_upd_twice comp_assoc)
    also have "\<dots> = s1" unfolding s1_def by (rule ocell_upd_cong) simp
    finally show ?thesis .
  qed
  ultimately show ?thesis
    using c(1) c1 by (simp add: return_pointer_def ObjectBaseRef_set_None ObjectBaseRef_copy_def
      incSysRef_def ObjectBaseRef_clear_def flip: s1_def s2_def)
qed

text \<open>\<open>ref_to_user\<close> turns the system reference of the caller into a user reference.\<close>

lemma ref_to_user_eq:
  assumes c: "ocell st ob = Some c" "0 \<le> sint (mUserRefCount c)" "sint (mUserRefCount c) < 2 ^ 31 - 1"
  shows "ref_to_user ob st = Some (ob, ocell_upd ob
    (\<lambda>c. c\<lparr>mUserRefCount := mUserRefCount c + 1, mSysRefCount := mSysRefCount c - 1\<rparr>) st)"
proof -
  define s1 where "s1 = ocell_upd ob (\<lambda>c. c\<lparr>mUserRefCount := mUserRefCount c + 1\<rparr>) st"
  have c1: "ocell s1 ob = Some (c\<lparr>mUserRefCount := mUserRefCount c + 1\<rparr>)"
    by (simp add: s1_def ocell_ocell_upd c)
  have "sint (mUserRefCount c + 1) = sint (mUserRefCount c) + 1" using c(3) by (intro sint_plus_one) simp
  then have "decSysRef rs_vt ob s1
      = Some (False, ocell_upd ob (\<lambda>c. c\<lparr>mSysRefCount := mSysRefCount c - 1\<rparr>) s1)"
    using c(2) by (intro decSysRef_keeps[OF c1]) simp
  moreover have "ocell_upd ob (\<lambda>c. c\<lparr>mSysRefCount := mSysRefCount c - 1\<rparr>) s1 = ocell_upd ob
    (\<lambda>c. c\<lparr>mUserRefCount := mUserRefCount c + 1, mSysRefCount := mSysRefCount c - 1\<rparr>) st"
    unfolding s1_def ocell_upd_twice by (rule ocell_upd_cong) simp
  ultimately show ?thesis
    using c(1) by (simp add: ref_to_user_def incUserRef_def ObjectBaseRef_clear_def flip: s1_def)
qed
text \<open>The invariant of a context between two operations.\<close>

definition ctx_inv :: "nat multiset \<Rightarrow> nat list \<Rightarrow> rsctx \<Rightarrow> bool" where
  "ctx_inv R xs st \<longleftrightarrow> rc_inv rs_vt R xs st \<and> cache_ok st \<and> no_garbage xs st
     \<and> (\<forall>ob. ocell st ob \<noteq> None \<longrightarrow> ob \<in> set xs)"

lemma rsctx_empty_inv: "ctx_inv {#} [] rsctx_empty"
  by (simp add: ctx_inv_def rc_inv_def held_def dlist_def cache_ok_def rsctx_empty_def ocell_def no_garbage_def)

lemma ocell_caches [simp]:
  "ocell (st\<lparr>mElements := es\<rparr>) x = ocell st x" "ocell (st\<lparr>mTypes := ts\<rparr>) x = ocell st x"
  by (simp_all add: ocell_def)

lemma rc_inv_caches [simp]:
  "rc_inv vt R xs (st\<lparr>mElements := es\<rparr>) = rc_inv vt R xs st"
  "rc_inv vt R xs (st\<lparr>mTypes := ts\<rparr>) = rc_inv vt R xs st"
proof -
  have "ocell (st\<lparr>mElements := es\<rparr>) = ocell st" "ocell (st\<lparr>mTypes := ts\<rparr>) = ocell st"
    "okids vt (st\<lparr>mElements := es\<rparr>) = okids vt st" "okids vt (st\<lparr>mTypes := ts\<rparr>) = okids vt st"
    by (simp_all add: fun_eq_iff okids_def)
  then show "rc_inv vt R xs (st\<lparr>mElements := es\<rparr>) = rc_inv vt R xs st"
    "rc_inv vt R xs (st\<lparr>mTypes := ts\<rparr>) = rc_inv vt R xs st"
    by (simp_all add: rc_inv_def dlist_def held_def)
qed

text \<open>Replacing the data of an object exchanges the references it holds.\<close>

lemma rc_inv_put:
  assumes inv: "rc_inv vt (mset (vt_releases vt d') + R) xs st" and ob: "ob \<in> set xs"
    and c: "ocell st ob = Some c"
  shows "rc_inv vt (mset (vt_releases vt (obj_data c)) + R) xs (ocell_upd ob (\<lambda>c. c\<lparr>obj_data := d'\<rparr>) st)"
proof -
  let ?st = "ocell_upd ob (\<lambda>c. c\<lparr>obj_data := d'\<rparr>) st"
  have d: "distinct xs" using inv by (simp add: rc_inv_def dlist_def)
  have ks: "okids vt ?st x = (if x = ob then vt_releases vt d' else okids vt st x)" for x
    by (simp add: okids_def ocell_ocell_upd c)
  have "held vt ?st (remove1 ob xs) = held vt st (remove1 ob xs)"
    using d by (intro held_cong) (auto simp: ks)
  then have h: "held vt ?st xs + (mset (vt_releases vt (obj_data c)) + R)
      = held vt st xs + (mset (vt_releases vt d') + R)"
    using held_remove1[OF ob, of vt ?st] held_remove1[OF ob, of vt st] by (simp add: ks) (simp add: okids_def c)
  have "dlist ?st xs"
    using inv by (intro dlist_count_upd) (auto simp: rc_inv_def olinks_def option.map_comp comp_def)
  moreover have "\<exists>e. ocell ?st w = Some e \<and> 0 \<le> sint (mUserRefCount e) \<and>
      sint (mSysRefCount e) = int (count (held vt st xs + (mset (vt_releases vt d') + R)) w)"
    if w: "w \<in> set xs" for w
  proof -
    obtain e where "ocell st w = Some e" "0 \<le> sint (mUserRefCount e)"
      "sint (mSysRefCount e) = int (count (held vt st xs + (mset (vt_releases vt d') + R)) w)"
      by (rule rc_inv_cell[OF inv w])
    then show ?thesis by (cases "w = ob") (simp_all add: ocell_ocell_upd)
  qed
  ultimately show ?thesis using inv unfolding rc_inv_def h by blast
qed

lemma ObjectBase_add_caches:
  "ObjectBase_add ob st = Some st' \<Longrightarrow> mElements st' = mElements st \<and> mTypes st' = mTypes st"
  by (auto simp: ObjectBase_add_def Let_def bind_Some_iff optr_upd_def split: option.splits if_splits)

lemma ObjectBase_new_caches:
  "ObjectBase_new d st = Some (ob, st') \<Longrightarrow> mElements st' = mElements st \<and> mTypes st' = mTypes st"
  by (auto simp: ObjectBase_new_def Let_def bind_Some_iff dest!: ObjectBase_add_caches)

text \<open>A new object without references, held by one local reference.\<close>

lemma new_object:
  assumes inv: "ctx_inv R xs st" and d: "rs_releases d = []"
  shows "\<exists>st1 st2 c. ObjectBase_new d st = Some (length (mObjs st), st1)
    \<and> ObjectBaseRef_set rs_vt None (Some (length (mObjs st))) st1 = Some (Some (length (mObjs st)), st2)
    \<and> ctx_inv (add_mset (length (mObjs st)) R) (length (mObjs st) # xs) st2
    \<and> ocell st2 (length (mObjs st)) = Some c \<and> mSysRefCount c = 1 \<and> mUserRefCount c = 0 \<and> obj_data c = d
    \<and> mElements st2 = mElements st \<and> mTypes st2 = mTypes st
    \<and> (\<forall>x. x \<noteq> length (mObjs st) \<longrightarrow> ostats (ocell st2 x) = ostats (ocell st x))"
proof -
  let ?n = "length (mObjs st)"
  have rc: "rc_inv rs_vt (mset (vt_releases rs_vt d) + R) xs st"
    using inv d by (simp add: ctx_inv_def rs_vt_def)
  obtain s1 c where s1: "ObjectBase_new d st = Some (?n, s1)" "rc_inv rs_vt R (?n # xs) s1"
    "ocell s1 ?n = Some c" "mSysRefCount c = 0" "mUserRefCount c = 0" "obj_data c = d"
    "\<forall>x. x \<noteq> ?n \<longrightarrow> ostats (ocell s1 x) = ostats (ocell st x)"
    using rc_inv_new[OF rc] by blast
  define s2 where "s2 = ocell_upd ?n (\<lambda>c. c\<lparr>mSysRefCount := mSysRefCount c + 1\<rparr>) s1"
  have set: "ObjectBaseRef_set rs_vt None (Some ?n) s1 = Some (Some ?n, s2)"
    unfolding s2_def by (rule ObjectBaseRef_set_None[OF s1(3)])
  have "sint (mSysRefCount c) = int (count (held rs_vt s1 (?n # xs) + R) ?n)"
    using rc_inv_cell[OF s1(2), of ?n] s1(3) by (metis list.set_intros(1) option.inject)
  then have "count (held rs_vt s1 (?n # xs) + R) ?n = 0" using s1(4) by simp
  then have rc2: "rc_inv rs_vt (add_mset ?n R) (?n # xs) s2"
    unfolding s2_def by (intro rc_inv_inc[OF s1(2)]) simp_all
  have c2: "ocell s2 x = (if x = ?n then Some (c\<lparr>mSysRefCount := 1\<rparr>) else ocell s1 x)" for x
    using s1(3,4) by (simp add: s2_def ocell_ocell_upd)
  have caches: "mElements s2 = mElements st" "mTypes s2 = mTypes st"
    using ObjectBase_new_caches[OF s1(1)] by (simp_all add: s2_def)
  have o: "odata s2 x = odata st x" if "x \<noteq> ?n" for x
  proof -
    have "ostats (ocell s1 x) = ostats (ocell st x)" using s1(7) that by blast
    then show ?thesis using that by (cases "ocell s1 x"; cases "ocell st x") (auto simp: odata_def c2)
  qed
  have nn: "odata st ?n = None" by (simp add: odata_def ocell_def)
  have ok2: "cache_ok s2"
  proof -
    have ne: "?n \<notin> set (mElements st)" "?n \<notin> set (mTypes st)"
      using inv nn by (auto simp: ctx_inv_def cache_ok_def get_elem_odata get_type_odata)
    have "get_elem s2 x = get_elem st x" if "x \<in> set (mElements st)" for x
      using that ne(1) o[of x] by (cases "x = ?n") (auto simp: get_elem_odata)
    moreover have "get_type s2 x = get_type st x" if "x \<in> set (mTypes st)" for x
      using that ne(2) o[of x] by (cases "x = ?n") (auto simp: get_type_odata)
    ultimately show ?thesis using inv by (simp add: ctx_inv_def cache_ok_def caches)
  qed
  have live: "ob \<in> set (?n # xs)" if "ocell s2 ob \<noteq> None" for ob
  proof (cases "ob = ?n")
    case False
    then have "odata s2 ob = odata st ob" by (rule o)
    then have "ocell st ob \<noteq> None" using that by (cases "ocell st ob") (auto simp: odata_def)
    then show ?thesis using inv by (simp add: ctx_inv_def)
  qed simp
  have st: "ostats (ocell s2 x) = ostats (ocell st x)" if "x \<noteq> ?n" for x
    using s1(7) that by (simp add: c2)
  have "no_garbage (?n # xs) s2"
    unfolding no_garbage_def
  proof (intro ballI allI impI)
    fix ob d
    assume ob: "ob \<in> set (?n # xs)" and d: "ocell s2 ob = Some d"
    show "mUserRefCount d \<noteq> 0 \<or> mSysRefCount d \<noteq> 0"
    proof (cases "ob = ?n")
      case True
      then show ?thesis using d by (auto simp: c2)
    next
      case False
      then show ?thesis using st[OF False] d ob inv
        by (cases "ocell st ob") (auto simp: ctx_inv_def no_garbage_def ostats_def)
    qed
  qed
  then have "ctx_inv (add_mset ?n R) (?n # xs) s2" using rc2 ok2 live unfolding ctx_inv_def by blast
  then show ?thesis using s1(1,5,6) set caches c2 st by auto
qed

lemma live_upd: "ocell (ocell_upd ob f st) x \<noteq> None \<longleftrightarrow> ocell st x \<noteq> None"
  by (simp add: ocell_ocell_upd)

lemma get_elem_upd [simp]:
  "(\<And>c. obj_data (f c) = obj_data c) \<Longrightarrow> get_elem (ocell_upd ob f st) = get_elem st"
  by (simp add: fun_eq_iff get_elem_odata odata_ocell_upd)

lemma get_type_upd [simp]:
  "(\<And>c. obj_data (f c) = obj_data c) \<Longrightarrow> get_type (ocell_upd ob f st) = get_type st"
  by (simp add: fun_eq_iff get_type_odata odata_ocell_upd)

lemma ctx_cell:
  assumes "ctx_inv R xs st" and "ocell st ob = Some c"
  shows "ob \<in> set xs" "0 \<le> sint (mUserRefCount c)" "0 \<le> sint (mSysRefCount c)"
    "sint (mSysRefCount c) = int (count (held rs_vt st xs + R) ob)"
proof -
  show x: "ob \<in> set xs" using assms by (simp add: ctx_inv_def)
  have "rc_inv rs_vt R xs st" using assms by (simp add: ctx_inv_def)
  then obtain d where "ocell st ob = Some d" "0 \<le> sint (mUserRefCount d)"
    "sint (mSysRefCount d) = int (count (held rs_vt st xs + R) ob)"
    using x by (rule rc_inv_cell)
  then show "0 \<le> sint (mUserRefCount c)" "0 \<le> sint (mSysRefCount c)"
    "sint (mSysRefCount c) = int (count (held rs_vt st xs + R) ob)"
    using assms(2) by simp_all
qed

lemma ctx_hold:
  assumes inv: "ctx_inv R xs st" and c: "ocell st ob = Some c" and small: "sint (mSysRefCount c) < 2 ^ 31 - 1"
  shows "ctx_inv (add_mset ob R) xs (ocell_upd ob (\<lambda>c. c\<lparr>mSysRefCount := mSysRefCount c + 1\<rparr>) st)"
proof -
  let ?st = "ocell_upd ob (\<lambda>c. c\<lparr>mSysRefCount := mSysRefCount c + 1\<rparr>) st"
  have "count (held rs_vt st xs + R) ob < 2 ^ 31 - 1" using ctx_cell(4)[OF inv c] small by simp
  then have "rc_inv rs_vt (add_mset ob R) xs ?st"
    using inv ctx_cell(1)[OF inv c] unfolding ctx_inv_def by (intro rc_inv_inc) blast+
  moreover have "mSysRefCount c + 1 \<noteq> 0"
    using sint_plus_one[of "mSysRefCount c"] small ctx_cell(3)[OF inv c] sint_0_iff[of "mSysRefCount c + 1"] by linarith
  then have "no_garbage xs ?st" using inv c by (auto simp: ctx_inv_def no_garbage_def ocell_ocell_upd)
  moreover have "cache_ok ?st" using inv by (intro cache_ok_upd) (auto simp: ctx_inv_def)
  ultimately show ?thesis using inv unfolding ctx_inv_def live_upd by blast
qed

lemma ctx_to_user:
  assumes inv: "ctx_inv (add_mset ob R) xs st" and c: "ocell st ob = Some c"
    and small: "sint (mUserRefCount c) < 2 ^ 31 - 1"
  shows "\<exists>st'. ref_to_user ob st = Some (ob, st') \<and> ctx_inv R xs st' \<and> st' = ocell_upd ob
    (\<lambda>c. c\<lparr>mUserRefCount := mUserRefCount c + 1, mSysRefCount := mSysRefCount c - 1\<rparr>) st"
proof -
  let ?f = "\<lambda>c :: rsobj objcell. c\<lparr>mUserRefCount := mUserRefCount c + 1, mSysRefCount := mSysRefCount c - 1\<rparr>"
  let ?st = "ocell_upd ob ?f st"
  have u: "sint (mUserRefCount c + 1) = sint (mUserRefCount c) + 1" using small by (intro sint_plus_one) simp
  have rc: "rc_inv rs_vt (add_mset ob R) xs st" using inv by (simp add: ctx_inv_def)
  have "ocell_upd ob (\<lambda>c. c\<lparr>mSysRefCount := mSysRefCount c - 1\<rparr>)
      (ocell_upd ob (\<lambda>c. c\<lparr>mUserRefCount := mUserRefCount c + 1\<rparr>) st) = ?st"
    unfolding ocell_upd_twice by (rule ocell_upd_cong) simp
  moreover have "rc_inv rs_vt (add_mset ob R) xs (ocell_upd ob (\<lambda>c. c\<lparr>mUserRefCount := mUserRefCount c + 1\<rparr>) st)"
    using c u ctx_cell(2)[OF inv c] by (intro rc_inv_user[OF rc]) simp
  ultimately have "rc_inv rs_vt R xs ?st" using rc_inv_dec by fastforce
  moreover have "mUserRefCount c + 1 \<noteq> 0"
    using u ctx_cell(2)[OF inv c] sint_0_iff[of "mUserRefCount c + 1"] by linarith
  then have "no_garbage xs ?st" using inv c by (auto simp: ctx_inv_def no_garbage_def ocell_ocell_upd)
  moreover have "cache_ok ?st" using inv by (intro cache_ok_upd) (auto simp: ctx_inv_def)
  ultimately have "ctx_inv R xs ?st" using inv unfolding ctx_inv_def live_upd by blast
  then show ?thesis using ref_to_user_eq[OF c ctx_cell(2)[OF inv c] small] by blast
qed

text \<open>Data of the same class replaces data.\<close>

fun same_class :: "rsobj \<Rightarrow> rsobj \<Rightarrow> bool" where
  "same_class (OElement a) (OElement b) = True"
| "same_class (OType a) (OType b) = True"
| "same_class (OOther a) (OOther b) = True"
| "same_class a b = False"

lemma ctx_put:
  assumes inv: "ctx_inv (mset (rs_releases d') + R) xs st" and c: "ocell st ob = Some c"
    and cl: "same_class (obj_data c) d'"
  shows "ctx_inv (mset (rs_releases (obj_data c)) + R) xs (put_obj ob d' st)"
proof -
  let ?st = "put_obj ob d' st"
  have x: "ob \<in> set xs" by (rule ctx_cell(1)[OF inv c])
  have rc: "rc_inv rs_vt (mset (vt_releases rs_vt d') + R) xs st"
    using inv by (simp add: ctx_inv_def rs_vt_def)
  have "rc_inv rs_vt (mset (rs_releases (obj_data c)) + R) xs ?st"
    using rc_inv_put[OF rc x c] by (simp add: rs_vt_def put_obj_def)
  moreover have "no_garbage xs ?st" using inv c
    by (auto simp: ctx_inv_def no_garbage_def ocell_ocell_upd put_obj_def)
  moreover have "cache_ok ?st"
  proof -
    have o: "odata ?st w = (if w = ob then Some d' else odata st w)" for w
      by (simp add: odata_def put_obj_def ocell_ocell_upd c)
    have ob: "odata st ob = Some (obj_data c)" by (simp add: odata_def c)
    have "get_elem ?st w \<noteq> None \<longleftrightarrow> get_elem st w \<noteq> None" for w
      using cl ob o[of w] by (cases "obj_data c"; cases d') (auto simp: get_elem_odata)
    moreover have "get_type ?st w \<noteq> None \<longleftrightarrow> get_type st w \<noteq> None" for w
      using cl ob o[of w] by (cases "obj_data c"; cases d') (auto simp: get_type_odata)
    moreover have "mElements ?st = mElements st" "mTypes ?st = mTypes st" by (simp_all add: put_obj_def)
    ultimately show ?thesis using inv unfolding ctx_inv_def cache_ok_def by simp
  qed
  ultimately show ?thesis using inv unfolding ctx_inv_def put_obj_def live_upd by blast
qed

lemma get_caches [simp]:
  "get_elem (st\<lparr>mElements := es\<rparr>) = get_elem st" "get_elem (st\<lparr>mTypes := ts\<rparr>) = get_elem st"
  "get_type (st\<lparr>mElements := es\<rparr>) = get_type st" "get_type (st\<lparr>mTypes := ts\<rparr>) = get_type st"
  by (simp_all add: fun_eq_iff get_elem_def get_type_def)

lemma no_garbage_caches [simp]:
  "no_garbage xs (st\<lparr>mElements := es\<rparr>) = no_garbage xs st" "no_garbage xs (st\<lparr>mTypes := ts\<rparr>) = no_garbage xs st"
  by (simp_all add: no_garbage_def)

lemma ctx_push_element:
  assumes "ctx_inv R xs st" and "get_elem st ob \<noteq> None" and "ob \<notin> set (mElements st)"
  shows "ctx_inv R xs (st\<lparr>mElements := mElements st @ [ob]\<rparr>)"
  using assms by (auto simp: ctx_inv_def cache_ok_def)

lemma ctx_push_type:
  assumes "ctx_inv R xs st" and "get_type st ob \<noteq> None" and "ob \<notin> set (mTypes st)"
  shows "ctx_inv R xs (st\<lparr>mTypes := mTypes st @ [ob]\<rparr>)"
  using assms by (auto simp: ctx_inv_def cache_ok_def)
text \<open>The condition of the search for a single component.\<close>

definition elem_match :: "RsDataType \<Rightarrow> RsDataKind \<Rightarrow> bool \<Rightarrow> u32 \<Rightarrow> element \<Rightarrow> bool" where
  "elem_match dt dk isNorm vecSize e \<longleftrightarrow> eFields e = [] \<and> mType (eComponent e) = dt \<and> mKind (eComponent e) = dk
     \<and> mNormalized (eComponent e) = isNorm \<and> mVectorSize (eComponent e) = vecSize"

lemma Element_find_eq:
  "(\<And>ob. ob \<in> set obs \<Longrightarrow> get_elem st ob \<noteq> None) \<Longrightarrow>
   Element_find st dt dk isNorm vecSize obs =
     Some (find (\<lambda>ob. elem_match dt dk isNorm vecSize (the (get_elem st ob))) obs)"
  by (induction obs) (force simp: elem_match_def)+

lemma find_append: "find P (xs @ ys) = (case find P xs of None \<Rightarrow> find P ys | Some x \<Rightarrow> Some x)"
  by (induction xs) auto

lemma Element_compute_single:
  "eFields e = [] \<Longrightarrow> \<exists>e'. Element_compute E e = Some e' \<and> eFields e' = [] \<and> eComponent e' = eComponent e"
  by (simp add: Element_compute_def Let_def getSizeBytes_def getSizeBits_def)

definition counts_below :: "int \<Rightarrow> rsctx \<Rightarrow> bool" where
  "counts_below n st \<longleftrightarrow> (\<forall>ob c. ocell st ob = Some c \<longrightarrow> sint (mSysRefCount c) < n \<and> sint (mUserRefCount c) < n)"

text \<open>\<open>createRef\<close> finds the element or makes it; in both cases the caller holds a reference and the
  next search finds the same element.\<close>

lemma Element_createRef_new:
  assumes inv: "ctx_inv R xs st" and cs: "Component_set dt dk isNorm vecSize Component_new = Some cp"
    and cp: "mType cp = dt" "mKind cp = dk" "mNormalized cp = isNorm" "mVectorSize cp = vecSize"
    and nf: "find (\<lambda>ob. elem_match dt dk isNorm vecSize (the (get_elem st ob))) (mElements st) = None"
  shows "\<exists>st' c. Element_createRef dt dk isNorm vecSize st = Some (length (mObjs st), st')
    \<and> ctx_inv (add_mset (length (mObjs st)) R) (length (mObjs st) # xs) st'
    \<and> find (\<lambda>ob. elem_match dt dk isNorm vecSize (the (get_elem st' ob))) (mElements st') = Some (length (mObjs st))
    \<and> ocell st' (length (mObjs st)) = Some c \<and> mSysRefCount c = 1 \<and> mUserRefCount c = 0
    \<and> (\<forall>x. x \<noteq> length (mObjs st) \<longrightarrow> ostats (ocell st' x) = ostats (ocell st x))
    \<and> mElements st' = mElements st @ [length (mObjs st)]
    \<and> (\<forall>x. x \<noteq> length (mObjs st) \<longrightarrow> get_elem st' x = get_elem st x)"
proof -
  let ?n = "length (mObjs st)" and ?P = "\<lambda>st ob. elem_match dt dk isNorm vecSize (the (get_elem st ob))"
  obtain s1 s2 c where n: "ObjectBase_new (OElement Element_new) st = Some (?n, s1)"
    "ObjectBaseRef_set rs_vt None (Some ?n) s1 = Some (Some ?n, s2)"
    "ctx_inv (add_mset ?n R) (?n # xs) s2" "ocell s2 ?n = Some c" "mSysRefCount c = 1" "mUserRefCount c = 0"
    "obj_data c = OElement Element_new" "mElements s2 = mElements st"
    "\<forall>x. x \<noteq> ?n \<longrightarrow> ostats (ocell s2 x) = ostats (ocell st x)"
    using new_object[OF inv, of "OElement Element_new"] by (auto simp: Element_releases_def Element_new_def)
  obtain e where e: "Element_compute (get_elem s2) (Element_new\<lparr>eComponent := cp\<rparr>) = Some e" "eFields e = []"
    "eComponent e = cp"
    using Element_compute_single[of "Element_new\<lparr>eComponent := cp\<rparr>" "get_elem s2"] by (auto simp: Element_new_def)
  define s3 where "s3 = put_obj ?n (OElement e) s2"
  have rel: "rs_releases (OElement e) = []" "rs_releases (obj_data c) = []"
    using e(2) n(7) by (simp_all add: Element_releases_def Element_new_def)
  have i3: "ctx_inv (add_mset ?n R) (?n # xs) s3"
    using ctx_put[of "OElement e" "add_mset ?n R" "?n # xs" s2 ?n c] n(3,4,7) rel by (simp add: s3_def)
  have g: "get_elem s3 ?n = Some e" by (simp add: s3_def put_obj_def get_elem_def ocell_ocell_upd n(4))
  have nin: "?n \<notin> set (mElements st)"
  proof
    assume "?n \<in> set (mElements st)"
    then have "get_elem st ?n \<noteq> None" using inv by (auto simp: ctx_inv_def cache_ok_def)
    then show False by (simp add: get_elem_def ocell_def)
  qed
  have m3: "mElements s3 = mElements st" using n(8) by (simp add: s3_def put_obj_def)
  define s4 where "s4 = s3\<lparr>mElements := mElements s3 @ [?n]\<rparr>"
  have i4: "ctx_inv (add_mset ?n R) (?n # xs) s4"
    unfolding s4_def using g nin m3 by (intro ctx_push_element[OF i3]) auto
  have same: "get_elem s4 x = get_elem st x" if "x \<noteq> ?n" for x
    using n(9) that by (cases "ocell st x"; cases "ocell s2 x")
      (auto simp: s4_def s3_def put_obj_def get_elem_def ocell_ocell_upd ostats_def split: rsobj.splits)
  have "find (?P s4) (mElements st) = find (?P st) (mElements st)"
    by (intro find_cong refl) (metis same nin)
  moreover have "?P s4 ?n" using g e cp by (simp add: s4_def elem_match_def)
  ultimately have f: "find (?P s4) (mElements s4) = Some ?n"
    using nf m3 by (simp add: s4_def find_append)
  have "Element_find st dt dk isNorm vecSize (mElements st) = Some None"
    using inv nf by (subst Element_find_eq) (auto simp: ctx_inv_def cache_ok_def)
  moreover have "eComponent Element_new = Component_new" by (simp add: Element_new_def)
  ultimately have "Element_createRef dt dk isNorm vecSize st = Some (?n, s4)"
    by (simp add: Element_createRef_def n(1,2) cs e(1) s4_def s3_def Let_def)
  moreover have "ocell s4 ?n = Some (c\<lparr>obj_data := OElement e\<rparr>)"
    by (simp add: s4_def s3_def put_obj_def ocell_ocell_upd n(4))
  moreover have "ostats (ocell s4 x) = ostats (ocell st x)" if "x \<noteq> ?n" for x
    using n(9) that by (simp add: s4_def s3_def put_obj_def ocell_ocell_upd)
  moreover have "mElements s4 = mElements st @ [?n]" using m3 by (simp add: s4_def)
  ultimately show ?thesis using i4 f n(5,6) same by auto
qed

lemma Component_set_keeps:
  assumes "Component_set dt dk isNorm vecSize c = Some c'"
  shows "mType c' = dt" "mKind c' = dk"
  using assms unfolding Component_set_def Let_def
  by (cases dt; auto simp: Component_set_sizes_def bind_Some_iff)+

lemma Element_createRef_found:
  assumes inv: "ctx_inv R xs st" and small: "counts_below (2 ^ 31 - 2) st"
    and f: "find (\<lambda>ob. elem_match dt dk isNorm vecSize (the (get_elem st ob))) (mElements st) = Some ob"
  shows "\<exists>c. ocell st ob = Some c \<and> Element_createRef dt dk isNorm vecSize st
      = Some (ob, ocell_upd ob (\<lambda>c. c\<lparr>mSysRefCount := mSysRefCount c + 1\<rparr>) st)
    \<and> ctx_inv (add_mset ob R) xs (ocell_upd ob (\<lambda>c. c\<lparr>mSysRefCount := mSysRefCount c + 1\<rparr>) st)"
proof -
  have "ob \<in> set (mElements st)" using f by (auto simp: find_Some_iff)
  then have "get_elem st ob \<noteq> None" using inv by (auto simp: ctx_inv_def cache_ok_def)
  then obtain c where c: "ocell st ob = Some c" by (auto simp: get_elem_def split: option.splits)
  have s: "sint (mSysRefCount c) < 2 ^ 31 - 2" using small c unfolding counts_below_def by blast
  have "Element_find st dt dk isNorm vecSize (mElements st) = Some (Some ob)"
    using inv f by (subst Element_find_eq) (auto simp: ctx_inv_def cache_ok_def)
  then have "Element_createRef dt dk isNorm vecSize st = return_pointer ob st"
    by (simp add: Element_createRef_def)
  also have "\<dots> = Some (ob, ocell_upd ob (\<lambda>c. c\<lparr>mSysRefCount := mSysRefCount c + 1\<rparr>) st)"
    by (rule return_pointer_eq[OF c ctx_cell(3)[OF inv c] s])
  finally show ?thesis using c ctx_hold[OF inv c] s by auto
qed

lemma ocell_upd_inc_dec_user:
  "ocell_upd ob (\<lambda>c. c\<lparr>mUserRefCount := mUserRefCount c + 1, mSysRefCount := mSysRefCount c - 1\<rparr>)
    (ocell_upd ob (\<lambda>c. c\<lparr>mSysRefCount := mSysRefCount c + 1\<rparr>) st)
   = ocell_upd ob (\<lambda>c. c\<lparr>mUserRefCount := mUserRefCount c + 1\<rparr>) st"
  unfolding ocell_upd_twice by (rule ocell_upd_cong) simp

text \<open>An element that is in the cache gets one more user reference, and nothing else changes.\<close>

lemma Element_create_found:
  assumes inv: "ctx_inv R xs st" and small: "counts_below (2 ^ 31 - 2) st"
    and f: "find (\<lambda>ob. elem_match dt dk isNorm vecSize (the (get_elem st ob))) (mElements st) = Some ob"
  shows "Element_create dt dk isNorm vecSize st = Some (ob, ocell_upd ob (\<lambda>c. c\<lparr>mUserRefCount := mUserRefCount c + 1\<rparr>) st)
    \<and> ctx_inv R xs (ocell_upd ob (\<lambda>c. c\<lparr>mUserRefCount := mUserRefCount c + 1\<rparr>) st)"
proof -
  let ?s1 = "ocell_upd ob (\<lambda>c. c\<lparr>mSysRefCount := mSysRefCount c + 1\<rparr>) st"
  obtain c where c: "ocell st ob = Some c" and r: "Element_createRef dt dk isNorm vecSize st = Some (ob, ?s1)"
    and i1: "ctx_inv (add_mset ob R) xs ?s1"
    using Element_createRef_found[OF assms] by blast
  have c1: "ocell ?s1 ob = Some (c\<lparr>mSysRefCount := mSysRefCount c + 1\<rparr>)" by (simp add: ocell_ocell_upd c)
  have "sint (mUserRefCount c) < 2 ^ 31 - 2" using small c unfolding counts_below_def by blast
  then show ?thesis
    using ctx_to_user[OF i1 c1] r by (simp add: Element_create_def ocell_upd_inc_dec_user)
qed

lemma counts_below_cell:
  assumes "counts_below n st" and "\<And>x. x \<noteq> ob \<Longrightarrow> ostats (ocell st' x) = ostats (ocell st x)"
    and "ocell st' ob = Some c" and "sint (mSysRefCount c) < m" and "sint (mUserRefCount c) < m" and "n \<le> m"
  shows "counts_below m st'"
  unfolding counts_below_def
proof (intro allI impI)
  fix x d
  assume d: "ocell st' x = Some d"
  show "sint (mSysRefCount d) < m \<and> sint (mUserRefCount d) < m"
  proof (cases "x = ob")
    case True
    then show ?thesis using assms d by simp
  next
    case False
    then have "ostats (ocell st x) = ostats (Some d)" using assms(2) d by metis
    then obtain e where "ocell st x = Some e" "mSysRefCount e = mSysRefCount d" "mUserRefCount e = mUserRefCount d"
      by (auto simp: ostats_def)
    then show ?thesis using assms(1,6) unfolding counts_below_def by fastforce
  qed
qed

lemma Element_create_first:
  assumes inv: "ctx_inv R xs st" and small: "counts_below (2 ^ 31 - 3) st"
    and cs: "Component_set dt dk isNorm vecSize Component_new = Some cp"
    and cp: "mNormalized cp = isNorm" "mVectorSize cp = vecSize"
  shows "\<exists>ob st1 ys c. Element_create dt dk isNorm vecSize st = Some (ob, st1) \<and> ctx_inv R ys st1
    \<and> (ys = xs \<or> ob = length (mObjs st) \<and> ys = ob # xs)
    \<and> find (\<lambda>ob. elem_match dt dk isNorm vecSize (the (get_elem st1 ob))) (mElements st1) = Some ob
    \<and> ocell st1 ob = Some c \<and> 0 < sint (mUserRefCount c) \<and> counts_below (2 ^ 31 - 2) st1"
proof (cases "find (\<lambda>ob. elem_match dt dk isNorm vecSize (the (get_elem st ob))) (mElements st)")
  case None
  let ?n = "length (mObjs st)"
  obtain s c where s: "Element_createRef dt dk isNorm vecSize st = Some (?n, s)" "ctx_inv (add_mset ?n R) (?n # xs) s"
    "find (\<lambda>ob. elem_match dt dk isNorm vecSize (the (get_elem s ob))) (mElements s) = Some ?n"
    "ocell s ?n = Some c" "mSysRefCount c = 1" "mUserRefCount c = 0"
    "\<forall>x. x \<noteq> ?n \<longrightarrow> ostats (ocell s x) = ostats (ocell st x)"
    using Element_createRef_new[OF inv cs Component_set_keeps[OF cs] cp None] by blast
  define st1 where "st1 = ocell_upd ?n (\<lambda>c. c\<lparr>mUserRefCount := mUserRefCount c + 1, mSysRefCount := mSysRefCount c - 1\<rparr>) s"
  have st1: "ref_to_user ?n s = Some (?n, st1)" "ctx_inv R (?n # xs) st1"
    using ctx_to_user[OF s(2,4)] s(6) unfolding st1_def by auto
  have c1: "ocell st1 ?n = Some (c\<lparr>mUserRefCount := 1, mSysRefCount := 0\<rparr>)"
    using s(4,5,6) by (simp add: st1_def ocell_ocell_upd)
  moreover have "counts_below (2 ^ 31 - 2) st1"
    using s(7) by (intro counts_below_cell[OF small _ c1]) (simp_all add: st1_def ocell_ocell_upd)
  moreover have "get_elem st1 = get_elem s" "mElements st1 = mElements s" by (simp_all add: st1_def)
  ultimately show ?thesis using st1 s(1,3)
    by (intro exI[of _ ?n] exI[of _ st1] exI[of _ "?n # xs"]) (simp add: Element_create_def)
next
  case (Some ob)
  have small': "counts_below (2 ^ 31 - 2) st" using small unfolding counts_below_def by fastforce
  define st1 where "st1 = ocell_upd ob (\<lambda>c. c\<lparr>mUserRefCount := mUserRefCount c + 1\<rparr>) st"
  have st1: "Element_create dt dk isNorm vecSize st = Some (ob, st1)" "ctx_inv R xs st1"
    using Element_create_found[OF inv small' Some] by (simp_all add: st1_def)
  obtain c where c: "ocell st ob = Some c" using Element_createRef_found[OF inv small' Some] by blast
  have b: "sint (mUserRefCount c) < 2 ^ 31 - 3" "sint (mSysRefCount c) < 2 ^ 31 - 3"
    using small c unfolding counts_below_def by blast+
  have c1: "ocell st1 ob = Some (c\<lparr>mUserRefCount := mUserRefCount c + 1\<rparr>)" by (simp add: st1_def ocell_ocell_upd c)
  have u: "sint (mUserRefCount c + 1) = sint (mUserRefCount c) + 1" using b by (intro sint_plus_one) simp
  have "counts_below (2 ^ 31 - 2) st1"
    using b u by (intro counts_below_cell[OF small _ c1]) (simp_all add: st1_def ocell_ocell_upd)
  moreover have "get_elem st1 = get_elem st" "mElements st1 = mElements st" by (simp_all add: st1_def)
  ultimately show ?thesis using st1 Some c1 u ctx_cell(2)[OF inv c]
    by (intro exI[of _ ob] exI[of _ st1] exI[of _ xs]) simp
qed

text \<open>C6: \<open>Element::create\<close> always returns an element with the requested type, kind, normalisation and
  vector size, with a user reference for the caller; at most one object is made. A second call
  with the same arguments returns the same element and only adds a user reference. Both calls
  keep the reference counts exact and the caches free of dangling pointers. This needs that
  \<open>Component::set\<close> leaves the normalisation and vector size as requested, which it does not do
  for the packed pixel types.\<close>

theorem Element_create_shares:
  assumes inv: "ctx_inv R xs st" and small: "counts_below (2 ^ 31 - 3) st"
    and cs: "Component_set dt dk isNorm vecSize Component_new = Some cp"
    and cp: "mNormalized cp = isNorm" "mVectorSize cp = vecSize"
  shows "\<exists>ob st1 st2 ys c e. Element_create dt dk isNorm vecSize st = Some (ob, st1) \<and> ctx_inv R ys st1
    \<and> (ys = xs \<or> ob = length (mObjs st) \<and> ys = ob # xs)
    \<and> get_elem st1 ob = Some e \<and> elem_match dt dk isNorm vecSize e
    \<and> ocell st1 ob = Some c \<and> 0 < sint (mUserRefCount c)
    \<and> Element_create dt dk isNorm vecSize st1 = Some (ob, st2) \<and> ctx_inv R ys st2
    \<and> st2 = ocell_upd ob (\<lambda>c. c\<lparr>mUserRefCount := mUserRefCount c + 1\<rparr>) st1"
proof -
  let ?f = "\<lambda>st. find (\<lambda>ob. elem_match dt dk isNorm vecSize (the (get_elem st ob))) (mElements st)"
  obtain ob st1 ys c where st1: "Element_create dt dk isNorm vecSize st = Some (ob, st1)" "ctx_inv R ys st1"
    "ys = xs \<or> ob = length (mObjs st) \<and> ys = ob # xs" "?f st1 = Some ob" "ocell st1 ob = Some c"
    "0 < sint (mUserRefCount c)" "counts_below (2 ^ 31 - 2) st1"
    using Element_create_first[OF inv small cs cp] by blast
  have in': "ob \<in> set (mElements st1)" "elem_match dt dk isNorm vecSize (the (get_elem st1 ob))"
    using st1(4) by (auto simp: find_Some_iff)
  have "get_elem st1 ob \<noteq> None" using st1(2) in'(1) unfolding ctx_inv_def cache_ok_def by blast
  then obtain e where e: "get_elem st1 ob = Some e" by blast
  then have "elem_match dt dk isNorm vecSize e" using in'(2) by simp
  then show ?thesis using st1 e Element_create_found[OF st1(2,7,4)] by blast
qed

theorem Element_create_shares_witness:
  "\<exists>ob st1 st2 ys c e. Element_create RS_TYPE_FLOAT_32 RS_KIND_USER False 3 rsctx_empty = Some (ob, st1)
    \<and> ctx_inv {#} ys st1 \<and> (ys = [] \<or> ob = length (mObjs rsctx_empty) \<and> ys = [ob])
    \<and> get_elem st1 ob = Some e \<and> elem_match RS_TYPE_FLOAT_32 RS_KIND_USER False 3 e
    \<and> ocell st1 ob = Some c \<and> 0 < sint (mUserRefCount c)
    \<and> Element_create RS_TYPE_FLOAT_32 RS_KIND_USER False 3 st1 = Some (ob, st2) \<and> ctx_inv {#} ys st2
    \<and> st2 = ocell_upd ob (\<lambda>c. c\<lparr>mUserRefCount := mUserRefCount c + 1\<rparr>) st1"
proof -
  have s: "counts_below (2 ^ 31 - 3) rsctx_empty"
    by (simp add: counts_below_def rsctx_empty_def ocell_def)
  have "Option.is_none (Component_set RS_TYPE_FLOAT_32 RS_KIND_USER False 3 Component_new) = False" by code_simp
  then obtain cp where cp: "Component_set RS_TYPE_FLOAT_32 RS_KIND_USER False 3 Component_new = Some cp"
    by (auto simp: Option.is_none_def)
  have "mNormalized (the (Component_set RS_TYPE_FLOAT_32 RS_KIND_USER False 3 Component_new)) = False"
    "mVectorSize (the (Component_set RS_TYPE_FLOAT_32 RS_KIND_USER False 3 Component_new)) = 3" by code_simp+
  then show ?thesis using Element_create_shares[OF rsctx_empty_inv s cp] by (simp add: cp)
qed
text \<open>The same for types.\<close>

definition type_match :: "nat \<Rightarrow> u32 \<Rightarrow> u32 \<Rightarrow> u32 \<Rightarrow> bool \<Rightarrow> bool \<Rightarrow> u32 \<Rightarrow> rstype \<Rightarrow> bool" where
  "type_match e dimX dimY dimZ dimLOD dimFaces dimYuv t \<longleftrightarrow> tElement t = Some e \<and> tDimX t = dimX \<and> tDimY t = dimY
     \<and> tDimZ t = dimZ \<and> tDimLOD t = dimLOD \<and> tFaces t = dimFaces \<and> tDimYuv t = dimYuv"

lemma Type_find_eq:
  "(\<And>ob. ob \<in> set obs \<Longrightarrow> get_type st ob \<noteq> None) \<Longrightarrow>
   Type_find st e dimX dimY dimZ dimLOD dimFaces dimYuv obs =
     Some (find (\<lambda>ob. type_match e dimX dimY dimZ dimLOD dimFaces dimYuv (the (get_type st ob))) obs)"
  by (induction obs) (force simp: type_match_def)+

lemma Type_lod_loop_keeps:
  "Type_lod_loop n lod tx ty tz t = Some t' \<Longrightarrow>
   type_match e x y z l f v t' = type_match e x y z l f v t"
  by (induction n lod tx ty tz t rule: Type_lod_loop.induct) (auto simp: bind_Some_iff type_match_def)

lemma Type_compute_keeps:
  assumes "Type_compute t = Some t'"
  shows "type_match e x y z l f v t' = type_match e x y z l f v t"
proof -
  have yuv: "Type_compute_yuv s = Some s' \<Longrightarrow> type_match e x y z l f v s' = type_match e x y z l f v s" for s s'
    by (auto simp: Type_compute_yuv_def Let_def bind_Some_iff type_match_def)
  show ?thesis using assms unfolding Type_compute_def Let_def
    by (auto simp: bind_Some_iff type_match_def[of _ _ _ _ _ _ _ "_\<lparr>tHalElement := _\<rparr>"]
      simp flip: type_match_def dest!: Type_lod_loop_keeps[of _ _ _ _ _ _ _ e x y z l f v] yuv
      split: if_splits) (auto simp: type_match_def)
qed

abbreviation type_init :: "nat \<Rightarrow> u32 \<Rightarrow> u32 \<Rightarrow> u32 \<Rightarrow> bool \<Rightarrow> bool \<Rightarrow> u32 \<Rightarrow> rstype" where
  "type_init e dimX dimY dimZ dimLOD dimFaces dimYuv \<equiv> Type_new\<lparr>tDimLOD := dimLOD, tElement := Some e,
     tDimX := dimX, tDimY := dimY, tDimZ := dimZ, tFaces := dimFaces, tDimYuv := dimYuv\<rparr>"

lemma Type_getTypeRef_new:
  assumes inv: "ctx_inv R xs st" and ce: "ocell st e = Some ce" "sint (mSysRefCount ce) < 2 ^ 31 - 1"
    and t: "Type_compute (type_init e dimX dimY dimZ dimLOD dimFaces dimYuv) = Some t"
    and nf: "find (\<lambda>ob. type_match e dimX dimY dimZ dimLOD dimFaces dimYuv (the (get_type st ob))) (mTypes st) = None"
  shows "\<exists>st' c. Type_getTypeRef e dimX dimY dimZ dimLOD dimFaces dimYuv st = Some (length (mObjs st), st')
    \<and> ctx_inv (add_mset (length (mObjs st)) R) (length (mObjs st) # xs) st'
    \<and> find (\<lambda>ob. type_match e dimX dimY dimZ dimLOD dimFaces dimYuv (the (get_type st' ob))) (mTypes st')
        = Some (length (mObjs st))
    \<and> get_type st' (length (mObjs st)) = Some t
    \<and> ocell st' (length (mObjs st)) = Some c \<and> mSysRefCount c = 1 \<and> mUserRefCount c = 0
    \<and> (\<forall>x. x \<noteq> length (mObjs st) \<longrightarrow> ostats (ocell st' x) =
         ostats (ocell (ocell_upd e (\<lambda>c. c\<lparr>mSysRefCount := mSysRefCount c + 1\<rparr>) st) x))"
proof -
  let ?n = "length (mObjs st)" and ?inc = "\<lambda>c :: rsobj objcell. c\<lparr>mSysRefCount := mSysRefCount c + 1\<rparr>"
  let ?P = "\<lambda>st ob. type_match e dimX dimY dimZ dimLOD dimFaces dimYuv (the (get_type st ob))"
  let ?t0 = "Type_new\<lparr>tDimLOD := dimLOD\<rparr>"
  obtain s1 s2 c where n: "ObjectBase_new (OType ?t0) st = Some (?n, s1)"
    "ObjectBaseRef_set rs_vt None (Some ?n) s1 = Some (Some ?n, s2)"
    "ctx_inv (add_mset ?n R) (?n # xs) s2" "ocell s2 ?n = Some c" "mSysRefCount c = 1" "mUserRefCount c = 0"
    "obj_data c = OType ?t0" "mTypes s2 = mTypes st"
    "\<forall>x. x \<noteq> ?n \<longrightarrow> ostats (ocell s2 x) = ostats (ocell st x)"
    using new_object[OF inv, of "OType ?t0"] by (auto simp: Type_releases_def Type_new_def)
  have en: "e \<noteq> ?n" using ce(1) ocell_Some_less[of st e] by auto
  obtain d where d: "ocell s2 e = Some d" "mSysRefCount d = mSysRefCount ce"
    using n(9) en ce(1) by (cases "ocell s2 e") (fastforce simp: ostats_def)+
  define s3 where "s3 = ocell_upd e ?inc s2"
  have set3: "ObjectBaseRef_set rs_vt None (Some e) s2 = Some (Some e, s3)"
    unfolding s3_def by (rule ObjectBaseRef_set_None[OF d(1)])
  have i3: "ctx_inv (add_mset e (add_mset ?n R)) (?n # xs) s3"
    unfolding s3_def using ce(2) d(2) by (intro ctx_hold[OF n(3) d(1)]) simp
  have c3: "ocell s3 ?n = Some c" using en n(4) by (simp add: s3_def ocell_ocell_upd)
  have m: "type_match e dimX dimY dimZ dimLOD dimFaces dimYuv t"
    using Type_compute_keeps[OF t] by (simp add: type_match_def)
  define s4 where "s4 = put_obj ?n (OType t) s3"
  have rel: "rs_releases (OType t) = [e]" "rs_releases (obj_data c) = []"
    using m n(7) by (simp_all add: type_match_def Type_releases_def Type_new_def)
  have i4: "ctx_inv (add_mset ?n R) (?n # xs) s4"
    using ctx_put[of "OType t" "add_mset ?n R" "?n # xs" s3 ?n c] i3 c3 n(7) rel
    by (simp add: s4_def add_mset_commute)
  have g: "get_type s4 ?n = Some t" by (simp add: s4_def put_obj_def get_type_def ocell_ocell_upd c3)
  have nin: "?n \<notin> set (mTypes st)"
  proof
    assume "?n \<in> set (mTypes st)"
    then have "get_type st ?n \<noteq> None" using inv by (auto simp: ctx_inv_def cache_ok_def)
    then show False by (simp add: get_type_def ocell_def)
  qed
  have m4: "mTypes s4 = mTypes st" using n(8) by (simp add: s4_def s3_def put_obj_def)
  define s5 where "s5 = s4\<lparr>mTypes := mTypes s4 @ [?n]\<rparr>"
  have i5: "ctx_inv (add_mset ?n R) (?n # xs) s5"
    unfolding s5_def using g nin m4 by (intro ctx_push_type[OF i4]) auto
  have same: "ostats (ocell s5 x) = ostats (ocell (ocell_upd e ?inc st) x)" if "x \<noteq> ?n" for x
    using n(9) that by (cases "ocell st x"; cases "ocell s2 x")
      (auto simp: s5_def s4_def s3_def put_obj_def ocell_ocell_upd ostats_def)
  have sty: "get_type s5 x = get_type st x" if "x \<noteq> ?n" for x
  proof -
    have "odata s5 x = odata (ocell_upd e ?inc st) x"
      using same[OF that] by (cases "ocell s5 x"; cases "ocell (ocell_upd e ?inc st) x") (auto simp: odata_def ostats_def)
    then show ?thesis by (simp add: get_type_odata odata_ocell_upd)
  qed
  have "find (?P s5) (mTypes st) = find (?P st) (mTypes st)"
    by (intro find_cong refl) (metis sty nin)
  then have f: "find (?P s5) (mTypes s5) = Some ?n" using nf m4 g m by (simp add: s5_def find_append)
  have "Type_find st e dimX dimY dimZ dimLOD dimFaces dimYuv (mTypes st) = Some None"
    using inv nf by (subst Type_find_eq) (auto simp: ctx_inv_def cache_ok_def)
  then have "Type_getTypeRef e dimX dimY dimZ dimLOD dimFaces dimYuv st = Some (?n, s5)"
    by (simp add: Type_getTypeRef_def n(1,2) set3 t s5_def s4_def Let_def)
  moreover have "ocell s5 ?n = Some (c\<lparr>obj_data := OType t\<rparr>)"
    by (simp add: s5_def s4_def put_obj_def ocell_ocell_upd c3)
  moreover have "get_type s5 ?n = Some t" using g by (simp add: s5_def)
  ultimately show ?thesis using i5 f n(5,6) same by (intro exI[of _ s5]) auto
qed

lemma Type_getType_found:
  assumes inv: "ctx_inv R xs st" and small: "counts_below (2 ^ 31 - 2) st"
    and f: "find (\<lambda>ob. type_match e dimX dimY dimZ dimLOD dimFaces dimYuv (the (get_type st ob))) (mTypes st) = Some ob"
  shows "\<exists>c. ocell st ob = Some c \<and> Type_getType e dimX dimY dimZ dimLOD dimFaces dimYuv st
      = Some (ob, ocell_upd ob (\<lambda>c. c\<lparr>mUserRefCount := mUserRefCount c + 1\<rparr>) st)
    \<and> ctx_inv R xs (ocell_upd ob (\<lambda>c. c\<lparr>mUserRefCount := mUserRefCount c + 1\<rparr>) st)"
proof -
  let ?s1 = "ocell_upd ob (\<lambda>c. c\<lparr>mSysRefCount := mSysRefCount c + 1\<rparr>) st"
  have "ob \<in> set (mTypes st)" using f by (auto simp: find_Some_iff)
  then have "get_type st ob \<noteq> None" using inv by (auto simp: ctx_inv_def cache_ok_def)
  then obtain c where c: "ocell st ob = Some c" by (auto simp: get_type_def split: option.splits)
  have s: "sint (mSysRefCount c) < 2 ^ 31 - 2" "sint (mUserRefCount c) < 2 ^ 31 - 2"
    using small c unfolding counts_below_def by blast+
  have "Type_find st e dimX dimY dimZ dimLOD dimFaces dimYuv (mTypes st) = Some (Some ob)"
    using inv f by (subst Type_find_eq) (auto simp: ctx_inv_def cache_ok_def)
  then have r: "Type_getTypeRef e dimX dimY dimZ dimLOD dimFaces dimYuv st = Some (ob, ?s1)"
    by (simp add: Type_getTypeRef_def ObjectBaseRef_set_None[OF c])
  have i1: "ctx_inv (add_mset ob R) xs ?s1" using s by (intro ctx_hold[OF inv c]) simp
  have c1: "ocell ?s1 ob = Some (c\<lparr>mSysRefCount := mSysRefCount c + 1\<rparr>)" by (simp add: ocell_ocell_upd c)
  show ?thesis
    using ctx_to_user[OF i1 c1] s(2) r c by (simp add: Type_getType_def ocell_upd_inc_dec_user)
qed
lemma Type_getType_first:
  assumes inv: "ctx_inv R xs st" and small: "counts_below (2 ^ 31 - 3) st" and ce: "get_elem st e \<noteq> None"
    and t: "Type_compute (type_init e dimX dimY dimZ dimLOD dimFaces dimYuv) = Some t"
  shows "\<exists>ob st1 ys c. Type_getType e dimX dimY dimZ dimLOD dimFaces dimYuv st = Some (ob, st1) \<and> ctx_inv R ys st1
    \<and> (ys = xs \<or> ob = length (mObjs st) \<and> ys = ob # xs)
    \<and> find (\<lambda>ob. type_match e dimX dimY dimZ dimLOD dimFaces dimYuv (the (get_type st1 ob))) (mTypes st1) = Some ob
    \<and> ocell st1 ob = Some c \<and> 0 < sint (mUserRefCount c) \<and> counts_below (2 ^ 31 - 2) st1"
proof (cases "find (\<lambda>ob. type_match e dimX dimY dimZ dimLOD dimFaces dimYuv (the (get_type st ob))) (mTypes st)")
  case None
  let ?n = "length (mObjs st)" and ?inc = "\<lambda>c :: rsobj objcell. c\<lparr>mSysRefCount := mSysRefCount c + 1\<rparr>"
  obtain d where d: "ocell st e = Some d" using ce by (auto simp: get_elem_def split: option.splits)
  have b: "sint (mSysRefCount d) < 2 ^ 31 - 3" "sint (mUserRefCount d) < 2 ^ 31 - 3"
    using small d unfolding counts_below_def by blast+
  obtain s c where s: "Type_getTypeRef e dimX dimY dimZ dimLOD dimFaces dimYuv st = Some (?n, s)"
    "ctx_inv (add_mset ?n R) (?n # xs) s"
    "find (\<lambda>ob. type_match e dimX dimY dimZ dimLOD dimFaces dimYuv (the (get_type s ob))) (mTypes s) = Some ?n"
    "ocell s ?n = Some c" "mSysRefCount c = 1" "mUserRefCount c = 0"
    "\<forall>x. x \<noteq> ?n \<longrightarrow> ostats (ocell s x) = ostats (ocell (ocell_upd e ?inc st) x)"
    using Type_getTypeRef_new[OF inv d _ t None] b by auto
  define st1 where "st1 = ocell_upd ?n (\<lambda>c. c\<lparr>mUserRefCount := mUserRefCount c + 1, mSysRefCount := mSysRefCount c - 1\<rparr>) s"
  have st1: "ref_to_user ?n s = Some (?n, st1)" "ctx_inv R (?n # xs) st1"
    using ctx_to_user[OF s(2,4)] s(6) unfolding st1_def by auto
  have c1: "ocell st1 ?n = Some (c\<lparr>mUserRefCount := 1, mSysRefCount := 0\<rparr>)"
    using s(4,5,6) by (simp add: st1_def ocell_ocell_upd)
  have "sint (mSysRefCount d + 1) = sint (mSysRefCount d) + 1" using b by (intro sint_plus_one) simp
  then have cb: "counts_below (2 ^ 31 - 2) (ocell_upd e ?inc st)"
    using b d by (intro counts_below_cell[OF small, of e _ "?inc d"]) (simp_all add: ocell_ocell_upd)
  have "counts_below (2 ^ 31 - 2) st1"
    using s(7) by (intro counts_below_cell[OF cb _ c1]) (simp_all add: st1_def ocell_ocell_upd[of ?n])
  moreover have "get_type st1 = get_type s" "mTypes st1 = mTypes s" by (simp_all add: st1_def)
  ultimately show ?thesis using st1 s(1,3) c1
    by (intro exI[of _ ?n] exI[of _ st1] exI[of _ "?n # xs"]) (simp add: Type_getType_def)
next
  case (Some ob)
  have small': "counts_below (2 ^ 31 - 2) st" using small unfolding counts_below_def by fastforce
  define st1 where "st1 = ocell_upd ob (\<lambda>c. c\<lparr>mUserRefCount := mUserRefCount c + 1\<rparr>) st"
  obtain c where c: "ocell st ob = Some c"
    and st1: "Type_getType e dimX dimY dimZ dimLOD dimFaces dimYuv st = Some (ob, st1)" "ctx_inv R xs st1"
    using Type_getType_found[OF inv small' Some] by (auto simp: st1_def)
  have b: "sint (mUserRefCount c) < 2 ^ 31 - 3" "sint (mSysRefCount c) < 2 ^ 31 - 3"
    using small c unfolding counts_below_def by blast+
  have c1: "ocell st1 ob = Some (c\<lparr>mUserRefCount := mUserRefCount c + 1\<rparr>)" by (simp add: st1_def ocell_ocell_upd c)
  have u: "sint (mUserRefCount c + 1) = sint (mUserRefCount c) + 1" using b by (intro sint_plus_one) simp
  have "counts_below (2 ^ 31 - 2) st1"
    using b u by (intro counts_below_cell[OF small _ c1]) (simp_all add: st1_def ocell_ocell_upd)
  moreover have "get_type st1 = get_type st" "mTypes st1 = mTypes st" by (simp_all add: st1_def)
  ultimately show ?thesis using st1 Some c1 u ctx_cell(2)[OF inv c]
    by (intro exI[of _ ob] exI[of _ st1] exI[of _ xs]) simp
qed

text \<open>C11: \<open>Type::getType\<close> on a live element returns a type with the requested element and
  dimensions, with a user reference for the caller and, through the type, a system reference to
  the element; at most one object is made, and a second call with the same arguments returns the
  same type and only adds a user reference. Both calls keep the reference counts exact and the
  caches free of dangling pointers.\<close>

theorem Type_getType_shares:
  assumes inv: "ctx_inv R xs st" and small: "counts_below (2 ^ 31 - 3) st" and ce: "get_elem st e \<noteq> None"
    and t: "Type_compute (type_init e dimX dimY dimZ dimLOD dimFaces dimYuv) = Some t"
  shows "\<exists>ob st1 st2 ys c t. Type_getType e dimX dimY dimZ dimLOD dimFaces dimYuv st = Some (ob, st1)
    \<and> ctx_inv R ys st1 \<and> (ys = xs \<or> ob = length (mObjs st) \<and> ys = ob # xs)
    \<and> get_type st1 ob = Some t \<and> type_match e dimX dimY dimZ dimLOD dimFaces dimYuv t
    \<and> ocell st1 ob = Some c \<and> 0 < sint (mUserRefCount c)
    \<and> Type_getType e dimX dimY dimZ dimLOD dimFaces dimYuv st1 = Some (ob, st2) \<and> ctx_inv R ys st2
    \<and> st2 = ocell_upd ob (\<lambda>c. c\<lparr>mUserRefCount := mUserRefCount c + 1\<rparr>) st1"
proof -
  let ?f = "\<lambda>st. find (\<lambda>ob. type_match e dimX dimY dimZ dimLOD dimFaces dimYuv (the (get_type st ob))) (mTypes st)"
  obtain ob st1 ys c where st1: "Type_getType e dimX dimY dimZ dimLOD dimFaces dimYuv st = Some (ob, st1)"
    "ctx_inv R ys st1" "ys = xs \<or> ob = length (mObjs st) \<and> ys = ob # xs" "?f st1 = Some ob"
    "ocell st1 ob = Some c" "0 < sint (mUserRefCount c)" "counts_below (2 ^ 31 - 2) st1"
    using Type_getType_first[OF inv small ce t] by blast
  have in': "ob \<in> set (mTypes st1)" "type_match e dimX dimY dimZ dimLOD dimFaces dimYuv (the (get_type st1 ob))"
    using st1(4) by (auto simp: find_Some_iff)
  have "get_type st1 ob \<noteq> None" using st1(2) in'(1) unfolding ctx_inv_def cache_ok_def by blast
  then obtain t where t: "get_type st1 ob = Some t" by blast
  then have "type_match e dimX dimY dimZ dimLOD dimFaces dimYuv t" using in'(2) by simp
  then show ?thesis using st1 t Type_getType_found[OF st1(2,7,4)] by blast
qed

text \<open>A context with one element, for the examples.\<close>

lemma sample_element:
  "\<exists>st0 c. Element_create RS_TYPE_FLOAT_32 RS_KIND_USER False 4 rsctx_empty = Some (0, st0) \<and> ctx_inv {#} [0] st0
    \<and> get_elem st0 0 \<noteq> None \<and> counts_below (2 ^ 31 - 3) st0 \<and> ocell st0 0 = Some c \<and> mUserRefCount c = 1
    \<and> mSysRefCount c = 0 \<and> okids rs_vt st0 0 = []"
proof -
  let ?C = "Component_set RS_TYPE_FLOAT_32 RS_KIND_USER False 4 Component_new"
  have s: "counts_below (2 ^ 31 - 3) rsctx_empty"
    by (simp add: counts_below_def rsctx_empty_def ocell_def)
  have "Option.is_none ?C = False" by code_simp
  then obtain cp where cp: "?C = Some cp" by (auto simp: Option.is_none_def)
  have n: "mNormalized (the ?C) = False" "mVectorSize (the ?C) = 4" by code_simp+
  have n': "mNormalized cp = False" "mVectorSize cp = 4" using n by (simp_all add: cp)
  have "map_option fst (Element_create RS_TYPE_FLOAT_32 RS_KIND_USER False 4 rsctx_empty) = Some 0" by code_simp
  then obtain st0 where st0: "Element_create RS_TYPE_FLOAT_32 RS_KIND_USER False 4 rsctx_empty = Some (0, st0)" by auto
  obtain ys c where f: "ctx_inv {#} ys st0" "ys = [] \<or> ys = [0]" "ocell st0 0 = Some c"
    "find (\<lambda>ob. elem_match RS_TYPE_FLOAT_32 RS_KIND_USER False 4 (the (get_elem st0 ob))) (mElements st0) = Some 0"
    using Element_create_first[OF rsctx_empty_inv s cp n'] st0 by auto
  have "0 \<in> set (mElements st0)" using f(4) by (metis find_Some_iff nth_mem)
  then have "get_elem st0 0 \<noteq> None" using f(1) unfolding ctx_inv_def cache_ok_def by blast
  note i = f(1-3) this
  have ys: "ys = [0]" using i(1-3) by (auto simp: ctx_inv_def)
  have b: "list_all (\<lambda>c. case c of None \<Rightarrow> True | Some c \<Rightarrow> sint (mSysRefCount c) < 2 ^ 31 - 3
       \<and> sint (mUserRefCount c) < 2 ^ 31 - 3)
      (mObjs (snd (the (Element_create RS_TYPE_FLOAT_32 RS_KIND_USER False 4 rsctx_empty))))" by code_simp
  have small: "counts_below (2 ^ 31 - 3) st0"
    using b unfolding st0 counts_below_def by (fastforce simp: ocell_def list_all_length split: if_splits)
  have o: "map_option (\<lambda>c. (mUserRefCount c, mSysRefCount c))
      (ocell (snd (the (Element_create RS_TYPE_FLOAT_32 RS_KIND_USER False 4 rsctx_empty))) 0) = Some (1, 0)"
    "okids rs_vt (snd (the (Element_create RS_TYPE_FLOAT_32 RS_KIND_USER False 4 rsctx_empty))) 0 = []"
    by code_simp+
  have "ocell st0 0 = Some c" "okids rs_vt st0 0 = []" "mUserRefCount c = 1 \<and> mSysRefCount c = 0"
    using o i(3) by (simp_all add: st0)
  then show ?thesis using st0 i small by (auto simp: ys)
qed

theorem Type_getType_shares_witness:
  "\<exists>st0. Element_create RS_TYPE_FLOAT_32 RS_KIND_USER False 4 rsctx_empty = Some (0, st0)
    \<and> (\<exists>ob st1 st2 ys c t. Type_getType 0 64 32 0 True False 0 st0 = Some (ob, st1)
    \<and> ctx_inv {#} ys st1 \<and> (ys = [0] \<or> ob = length (mObjs st0) \<and> ys = [ob, 0])
    \<and> get_type st1 ob = Some t \<and> type_match 0 64 32 0 True False 0 t
    \<and> ocell st1 ob = Some c \<and> 0 < sint (mUserRefCount c)
    \<and> Type_getType 0 64 32 0 True False 0 st1 = Some (ob, st2) \<and> ctx_inv {#} ys st2
    \<and> st2 = ocell_upd ob (\<lambda>c. c\<lparr>mUserRefCount := mUserRefCount c + 1\<rparr>) st1)"
proof -
  obtain st0 where st0: "Element_create RS_TYPE_FLOAT_32 RS_KIND_USER False 4 rsctx_empty = Some (0, st0)"
    and i: "ctx_inv {#} [0] st0" "get_elem st0 0 \<noteq> None" "counts_below (2 ^ 31 - 3) st0"
    using sample_element by blast
  have "Option.is_none (Type_compute (type_init 0 64 32 0 True False 0)) = False" by code_simp
  then obtain t where t: "Type_compute (type_init 0 64 32 0 True False 0) = Some t"
    by (auto simp: Option.is_none_def)
  show ?thesis using st0 Type_getType_shares[OF i(1) i(3) i(2) t] by auto
qed

section \<open>The life of a context\<close>

lemma checkDelete_keeps_free:
  assumes "cache_ok st" and "checkDelete rs_vt (Some ob) st = Some (b, st')" and "ocell st w = None"
  shows "ocell st' w = None"
proof -
  have "cache_shrinks st st'" using assms(1,2) checkDelete_shrinks[OF decSysRef_shrinks] unfolding checkDelete_def by blast
  moreover have "odata st w = None" using assms(3) by (simp add: odata_def)
  ultimately have "odata st' w = None" unfolding cache_shrinks_def by blast
  then show ?thesis by (simp add: odata_def)
qed

text \<open>C8: Giving up a user reference that exists always returns. The object is deleted exactly when
  this was the last reference of either kind, together with every object that was only kept
  alive through it; no object with a user reference of its own is deleted. The reference counts
  stay exact, no unreferenced object is left behind, and the caches hold no dangling pointer.\<close>

theorem decUserRef_safe:
  assumes inv: "ctx_inv R xs st" and c: "ocell st ob = Some c" and p: "0 < sint (mUserRefCount c)"
  shows "\<exists>b st' ys. decUserRef rs_vt ob st = Some (b, st') \<and> ctx_inv R ys st' \<and> set ys \<subseteq> set xs
    \<and> (b \<longleftrightarrow> mUserRefCount c = 1 \<and> mSysRefCount c = 0) \<and> (b \<longleftrightarrow> ocell st' ob = None)
    \<and> (\<forall>w\<in>set xs - set ys. \<exists>d. ocell st w = Some d \<and> (w = ob \<or> mUserRefCount d = 0))"
proof -
  define s1 where "s1 = ocell_upd ob (\<lambda>c. c\<lparr>mUserRefCount := mUserRefCount c - 1\<rparr>) st"
  have rc: "rc_inv rs_vt R xs st" and x: "ob \<in> set xs" and ok: "cache_ok st" and ng: "no_garbage xs st"
    using inv ctx_cell(1)[OF inv c] by (simp_all add: ctx_inv_def)
  have g: "0 \<le> sint (mUserRefCount c - 1)" using p sint_minus_one[of "mUserRefCount c"] by simp
  obtain b st' ys where r: "decUserRef rs_vt ob st = Some (b, st')" "rc_inv rs_vt R ys st'" "b \<longleftrightarrow> ob \<notin> set ys"
    "b \<longleftrightarrow> mUserRefCount c - 1 = 0 \<and> mSysRefCount c = 0" "set ys \<subseteq> set xs" "\<not> b \<longrightarrow> ys = xs \<and> st' = s1"
    "\<forall>w\<in>set xs - set ys. ocell st' w = None \<and> (\<exists>c. ocell s1 w = Some c \<and> mUserRefCount c = 0)"
    "no_garbage ys st'"
    using rs.decUserRef_lemma[OF rc x c g] ng unfolding rs.decUserRef_eq[OF rc x c p] s1_def by blast
  have ok': "cache_ok st'" by (rule decUserRef_cache_ok[OF ok r(1)])
  have free: "ocell st' w = None" if "ocell st w = None" for w
  proof -
    have n1: "ocell s1 w = None" using that live_upd unfolding s1_def by blast
    have ok1: "cache_ok s1" unfolding s1_def using ok by (rule cache_ok_upd) simp
    have "checkDelete rs_vt (Some ob) s1 = Some (b, st') \<or> st' = s1"
      using r(1,4) unfolding rs.decUserRef_eq[OF rc x c p] s1_def by (auto split: if_splits)
    then show ?thesis using checkDelete_keeps_free[OF ok1 _ n1] n1 by blast
  qed
  have live: "w \<in> set ys" if "ocell st' w \<noteq> None" for w
  proof -
    have "ocell st w \<noteq> None" using that free by (metis)
    then have "w \<in> set xs" using inv by (simp add: ctx_inv_def)
    then show ?thesis using that r(7) by (meson DiffI)
  qed
  have one: "mUserRefCount c - 1 = 0 \<longleftrightarrow> mUserRefCount c = 1" by (metis diff_add_cancel add_0 diff_self)
  have bn: "b \<longleftrightarrow> ocell st' ob = None"
  proof
    assume "b"
    then show "ocell st' ob = None" using r(3) live by blast
  next
    assume "ocell st' ob = None"
    then show b using r(6) c by (auto simp: s1_def ocell_ocell_upd)
  qed
  have "\<forall>w\<in>set xs - set ys. \<exists>d. ocell st w = Some d \<and> (w = ob \<or> mUserRefCount d = 0)"
  proof
    fix w
    assume "w \<in> set xs - set ys"
    then obtain d where "ocell s1 w = Some d" "mUserRefCount d = 0" using r(7) by meson
    then show "\<exists>d. ocell st w = Some d \<and> (w = ob \<or> mUserRefCount d = 0)"
      using c by (cases "w = ob") (auto simp: s1_def ocell_ocell_upd)
  qed
  moreover have "ctx_inv R ys st'" using r(2,8) ok' live unfolding ctx_inv_def by blast
  ultimately show ?thesis using r(1,4,5) one bn
    by (intro exI[of _ b] exI[of _ st'] exI[of _ ys] conjI) simp_all
qed

text \<open>\<open>isValid\<close> accepts exactly the pointers to live objects of the context.\<close>

theorem isValid_live:
  assumes "ctx_inv R xs st"
  shows "isValid obj st = Some (case obj of None \<Rightarrow> False | Some ob \<Rightarrow> ocell st ob \<noteq> None)"
proof -
  have "dlist st xs" using assms by (simp add: ctx_inv_def rc_inv_def)
  moreover have "x \<in> set xs \<longleftrightarrow> ocell st x \<noteq> None" for x
    using assms dlist_cell[OF calculation] unfolding ctx_inv_def by blast
  ultimately show ?thesis using isValid_spec[of st xs obj] by (auto split: option.split)
qed

theorem isValid_live_witness: "isValid (Some 0) rsctx_empty = Some False"
  using isValid_live[OF rsctx_empty_inv, of "Some 0"] by (simp add: rsctx_empty_def ocell_def)

text \<open>C17: Destroying a context: if nothing outside the object list holds a system reference and every
  object only refers to objects made before it, \<open>zeroAllUserRef\<close> returns and has deleted
  every object.\<close>

theorem zeroAllUserRef_deletes_all:
  assumes "ctx_inv {#} xs st" and "\<forall>x\<in>set xs. \<forall>k\<in>set (okids rs_vt st x). k < x"
  shows "\<exists>st'. zeroAllUserRef rs_vt st = Some st' \<and> mObjHead st' = None \<and> cache_ok st'"
proof -
  have "rc_inv rs_vt {#} xs st" "no_garbage xs st" "cache_ok st" using assms(1) by (simp_all add: ctx_inv_def)
  then obtain st' where st': "zeroAllUserRef rs_vt st = Some st'" "mObjHead st' = None"
    using rs.zeroAllUserRef_empties[of xs st id] assms(2) by fastforce
  then have "cache_ok st'" using zeroAllUserRef_loop_cache_ok \<open>cache_ok st\<close> unfolding zeroAllUserRef_def by blast
  then show ?thesis using st' by blast
qed

theorem decUserRef_safe_witness:
  "\<exists>st0 st' ys. Element_create RS_TYPE_FLOAT_32 RS_KIND_USER False 4 rsctx_empty = Some (0, st0)
     \<and> decUserRef rs_vt 0 st0 = Some (True, st') \<and> ctx_inv {#} ys st' \<and> ocell st' 0 = None"
proof -
  obtain st0 c where st0: "Element_create RS_TYPE_FLOAT_32 RS_KIND_USER False 4 rsctx_empty = Some (0, st0)"
    "ctx_inv {#} [0] st0" "ocell st0 0 = Some c" "mUserRefCount c = 1" "mSysRefCount c = 0"
    using sample_element by blast
  have "0 < sint (mUserRefCount c)" using st0(4) by simp
  from decUserRef_safe[OF st0(2,3) this] st0 show ?thesis by auto
qed

theorem zeroAllUserRef_deletes_all_witness:
  "\<exists>st0 st'. Element_create RS_TYPE_FLOAT_32 RS_KIND_USER False 4 rsctx_empty = Some (0, st0)
     \<and> zeroAllUserRef rs_vt st0 = Some st' \<and> mObjHead st' = None \<and> cache_ok st'"
proof -
  obtain st0 where st0: "Element_create RS_TYPE_FLOAT_32 RS_KIND_USER False 4 rsctx_empty = Some (0, st0)"
    "ctx_inv {#} [0] st0" "okids rs_vt st0 0 = []"
    using sample_element by blast
  have "\<forall>x\<in>set [0]. \<forall>k\<in>set (okids rs_vt st0 x). k < x" using st0(3) by simp
  from zeroAllUserRef_deletes_all[OF st0(2) this] st0(1) show ?thesis by auto
qed

end
