(* ===== verification/Rs_Allocation.thy ===== *)
theory Rs_Allocation
  imports Rs_DrvCopy Rs_Context
begin

unbundle bit_operations_syntax

text \<open>
  Allocations as the API has them (\<open>rsAllocation.cpp\<close>): the tests before a call of the driver, the
  packed form in streams, creation, destruction and resizing, and the \<open>rsi_\<close> entry points on the
  objects of a context. As in the driver, the build is the one with \<open>RS_COMPATIBILITY_LIB\<close>: the
  list of programs to mark dirty, surfaces and their buffers are not part of it.
\<close>

section \<open>Allocations\<close>

definition drvlod_zero :: drvlod where
  "drvlod_zero = \<lparr>lMallocPtr = nullp, lStride = 0, lDimX = 0, lDimY = 0, lDimZ = 0\<rparr>"

definition drvstate_zero :: drvstate where
  "drvstate_zero = \<lparr>dsLod = replicate MAX_LOD drvlod_zero, dsFaceOffset = 0, dsLodCount = 0, dsFaceCount = 0,
     dsYuvShift = 0, dsYuvStep = 0\<rparr>"

definition updateCache :: "elem_env \<Rightarrow> allocation \<Rightarrow> allocation option" where
  "updateCache E a =
     do { eSize \<leftarrow> getElementSizeBytes E (aType a);
          ob \<leftarrow> tElement (aType a);
          e \<leftarrow> E ob;
          Some (a\<lparr>aYuv := tDimYuv (aType a), aHasFaces := tFaces (aType a), aHasMipmaps := tDimLOD (aType a),
                  aElementSizeBytes := ucast eSize, aHasReferences := eHasReference e\<rparr>) }"

definition Allocation_new ::
    "elem_env \<Rightarrow> nat \<Rightarrow> rstype \<Rightarrow> u32 \<Rightarrow> RsAllocationMipmapControl \<Rightarrow> hptr \<Rightarrow> allocation option" where
  "Allocation_new E tob t usages mc p =
     updateCache E \<lparr>aType = t, aTypeOb = Some tob, aUsageFlags = usages, aMipmapControl = mc, aYuv = 0,
       aElementSizeBytes = 0, aHasMipmaps = False, aHasFaces = False, aHasReferences = False,
       aUserProvidedPtr = p, aDrvState = drvstate_zero, aDrv = None\<rparr>"

definition getPointer :: "allocation \<Rightarrow> u32 \<Rightarrow> u32 \<Rightarrow> u32 \<Rightarrow> u32 \<Rightarrow> (hptr \<times> u64 option) option" where
  "getPointer a lod face z array =
     (if dsLodCount (aDrvState a) \<le> lod then Some (nullp, None)
      else do { l \<leftarrow> lod_at (aDrvState a) (unat lod);
                l0 \<leftarrow> lod_at (aDrvState a) 0;
                if z \<noteq> 0 \<and> lDimZ l \<le> z \<or> face \<noteq> 0 \<and> \<not> aHasFaces a \<or> array \<noteq> 0
                then Some (nullp, None)
                else Some (lMallocPtr l, if lDimY l0 \<noteq> 0 then Some (lStride l) else None) })"

text \<open>\<open>sendDirty\<close> marks the allocation in the driver.\<close>

definition sendDirty :: "allocation \<Rightarrow> allocation option" where
  "sendDirty a = set_uploadDeferred a"

definition Allocation_data1 ::
    "'s refenv \<Rightarrow> allocation \<Rightarrow> u32 \<Rightarrow> u32 \<Rightarrow> u32 \<Rightarrow> hptr \<Rightarrow> u64 \<Rightarrow> 's drvst \<Rightarrow> (allocation \<times> 's drvst) option" where
  "Allocation_data1 R a xoff lod cnt data sizeBytes s =
     do { eSize \<leftarrow> getElementSizeBytes (reElem R) (aType a);
          if ucast cnt * eSize \<noteq> sizeBytes then Some (a, setError RS_ERROR_BAD_VALUE s)
          else do { (a1, s1) \<leftarrow> rsdAllocationData1D R a xoff lod (ucast cnt) data sizeBytes s;
                    a2 \<leftarrow> sendDirty a1;
                    Some (a2, s1) } }"

definition Allocation_data2 ::
    "'s refenv \<Rightarrow> allocation \<Rightarrow> u32 \<Rightarrow> u32 \<Rightarrow> u32 \<Rightarrow> u32 \<Rightarrow> u32 \<Rightarrow> u32 \<Rightarrow> hptr \<Rightarrow> u64 \<Rightarrow> u64 \<Rightarrow> 's drvst \<Rightarrow>
     (allocation \<times> 's drvst) option" where
  "Allocation_data2 R a xoff yoff lod face w h data sizeBytes stride s =
     do { (a1, s1) \<leftarrow> rsdAllocationData2D R a xoff yoff lod face w h data sizeBytes stride s;
          a2 \<leftarrow> sendDirty a1;
          Some (a2, s1) }"

definition Allocation_data3 ::
    "'s refenv \<Rightarrow> allocation \<Rightarrow> u32 \<Rightarrow> u32 \<Rightarrow> u32 \<Rightarrow> u32 \<Rightarrow> u32 \<Rightarrow> u32 \<Rightarrow> u32 \<Rightarrow> hptr \<Rightarrow> u64 \<Rightarrow> u64 \<Rightarrow> 's drvst \<Rightarrow>
     (allocation \<times> 's drvst) option" where
  "Allocation_data3 R a xoff yoff zoff lod w h d data sizeBytes stride s =
     do { (a1, s1) \<leftarrow> rsdAllocationData3D R a xoff yoff zoff lod w h d data sizeBytes stride s;
          a2 \<leftarrow> sendDirty a1;
          Some (a2, s1) }"

definition Allocation_read1 ::
    "'s refenv \<Rightarrow> allocation \<Rightarrow> u32 \<Rightarrow> u32 \<Rightarrow> u32 \<Rightarrow> hptr \<Rightarrow> u64 \<Rightarrow> 's drvst \<Rightarrow> 's drvst option" where
  "Allocation_read1 R a xoff lod cnt data sizeBytes s =
     do { eSize \<leftarrow> getElementSizeBytes (reElem R) (aType a);
          if ucast cnt * eSize \<noteq> sizeBytes then Some (setError RS_ERROR_BAD_VALUE s)
          else rsdAllocationRead1D R a xoff lod (ucast cnt) data sizeBytes s }"

definition Allocation_read2 ::
    "allocation \<Rightarrow> u32 \<Rightarrow> u32 \<Rightarrow> u32 \<Rightarrow> u32 \<Rightarrow> u32 \<Rightarrow> u32 \<Rightarrow> hptr \<Rightarrow> u64 \<Rightarrow> u64 \<Rightarrow> 's drvst \<Rightarrow> 's drvst option" where
  "Allocation_read2 a xoff yoff lod face w h data sizeBytes stride s =
     (let lineSize = ucast (aElementSizeBytes a) * ucast w
      in if stride = 0
         then rsdAllocationRead2D a xoff yoff lod face w h data sizeBytes lineSize s
         else if lineSize * ucast h \<noteq> sizeBytes then Some (setError RS_ERROR_BAD_VALUE s)
         else rsdAllocationRead2D a xoff yoff lod face w h data sizeBytes stride s)"

definition Allocation_read3 ::
    "allocation \<Rightarrow> u32 \<Rightarrow> u32 \<Rightarrow> u32 \<Rightarrow> u32 \<Rightarrow> u32 \<Rightarrow> u32 \<Rightarrow> u32 \<Rightarrow> hptr \<Rightarrow> u64 \<Rightarrow> u64 \<Rightarrow> 's drvst \<Rightarrow> 's drvst option" where
  "Allocation_read3 a xoff yoff zoff lod w h d data sizeBytes stride s =
     (let lineSize = ucast (aElementSizeBytes a) * ucast w
      in rsdAllocationRead3D a xoff yoff zoff lod w h d data sizeBytes (if stride = 0 then lineSize else stride) s)"

text \<open>The tests before a write to one field.\<close>

definition field_ok :: "elem_env \<Rightarrow> rstype \<Rightarrow> u32 \<Rightarrow> bool option" where
  "field_ok E t cIdx =
     do { ob \<leftarrow> tElement t; e \<leftarrow> E ob; Some (cIdx < of_nat (length (eFields e))) }"

definition field_size :: "elem_env \<Rightarrow> rstype \<Rightarrow> u32 \<Rightarrow> u64 option" where
  "field_size E t cIdx =
     do { (e, f, sub) \<leftarrow> type_field E t cIdx; n \<leftarrow> getSizeBytes E sub; Some (n * ucast (fArraySize f)) }"

definition Allocation_elementData1 ::
    "'s refenv \<Rightarrow> allocation \<Rightarrow> u32 \<Rightarrow> hptr \<Rightarrow> u32 \<Rightarrow> u64 \<Rightarrow> 's drvst \<Rightarrow> (allocation \<times> 's drvst) option" where
  "Allocation_elementData1 R a x data cIdx sizeBytes s =
     do { ok \<leftarrow> field_ok (reElem R) (aType a) cIdx;
          l0 \<leftarrow> lod_at (aDrvState a) 0;
          if \<not> ok then Some (a, setError RS_ERROR_BAD_VALUE s)
          else if lDimX l0 \<le> x then Some (a, setError RS_ERROR_BAD_VALUE s)
          else do { n \<leftarrow> field_size (reElem R) (aType a) cIdx;
                    if sizeBytes \<noteq> n then Some (a, setError RS_ERROR_BAD_VALUE s)
                    else do { (a1, s1) \<leftarrow> rsdAllocationElementData1D R a x data cIdx sizeBytes s;
                              a2 \<leftarrow> sendDirty a1;
                              Some (a2, s1) } } }"

definition Allocation_elementData2 ::
    "'s refenv \<Rightarrow> allocation \<Rightarrow> u32 \<Rightarrow> u32 \<Rightarrow> hptr \<Rightarrow> u32 \<Rightarrow> u64 \<Rightarrow> 's drvst \<Rightarrow> (allocation \<times> 's drvst) option" where
  "Allocation_elementData2 R a x y data cIdx sizeBytes s =
     do { ok \<leftarrow> field_ok (reElem R) (aType a) cIdx;
          l0 \<leftarrow> lod_at (aDrvState a) 0;
          if lDimX l0 \<le> x then Some (a, setError RS_ERROR_BAD_VALUE s)
          else if lDimY l0 \<le> y then Some (a, setError RS_ERROR_BAD_VALUE s)
          else if \<not> ok then Some (a, setError RS_ERROR_BAD_VALUE s)
          else do { n \<leftarrow> field_size (reElem R) (aType a) cIdx;
                    if sizeBytes \<noteq> n then Some (a, setError RS_ERROR_BAD_VALUE s)
                    else do { (a1, s1) \<leftarrow> rsdAllocationElementData2D R a x y data cIdx sizeBytes s;
                              a2 \<leftarrow> sendDirty a1;
                              Some (a2, s1) } } }"

definition freeChildrenUnlocked :: "'s refenv \<Rightarrow> allocation \<Rightarrow> 's drvst \<Rightarrow> 's drvst option" where
  "freeChildrenUnlocked R a s =
     do { p \<leftarrow> rsdAllocationLock1D a; Allocation_decRefs R a p (tCellCount (aType a)) 0 s }"

text \<open>The destructor, up to the release of the type.\<close>

definition Allocation_destroy :: "'s refenv \<Rightarrow> allocation \<Rightarrow> 's drvst \<Rightarrow> (allocation \<times> 's drvst) option" where
  "Allocation_destroy R a s = do { s1 \<leftarrow> freeChildrenUnlocked R a s; rsdAllocationDestroy a s1 }"

text \<open>\<open>createAllocation\<close>; \<open>objmem\<close> tells whether there is memory for the object itself, \<open>avail\<close> for
  its data. The result is null when one of them cannot be had.\<close>

definition createAllocation ::
    "(nat \<Rightarrow> bool) \<Rightarrow> bool \<Rightarrow> 's refenv \<Rightarrow> nat \<Rightarrow> rstype \<Rightarrow> u32 \<Rightarrow> RsAllocationMipmapControl \<Rightarrow> hptr \<Rightarrow> 's drvst \<Rightarrow>
     (allocation option \<times> 's drvst) option" where
  "createAllocation avail objmem R tob t usages mc p s =
     (if \<not> objmem then Some (None, setError RS_ERROR_FATAL_DRIVER s)
      else do { a \<leftarrow> Allocation_new (reElem R) tob t usages mc p;
                (ok, a1, s1) \<leftarrow> rsdAllocationInit avail R a (aHasReferences a) s;
                if ok then Some (Some a1, s1)
                else do { (a2, s2) \<leftarrow> Allocation_destroy R a1 (setError RS_ERROR_FATAL_DRIVER s1);
                          Some (None, s2) } })"

text \<open>\<open>resize1D\<close> with the resized type; \<open>setType\<close> and \<open>updateCache\<close> come last.\<close>

definition Allocation_resize1D ::
    "'s refenv \<Rightarrow> allocation \<Rightarrow> nat \<Rightarrow> rstype \<Rightarrow> u32 \<Rightarrow> 's drvst \<Rightarrow> (allocation \<times> 's drvst) option" where
  "Allocation_resize1D R a tob t dimX s =
     do { l0 \<leftarrow> lod_at (aDrvState a) 0;
          let oldDimX = lDimX l0;
          if dimX = oldDimX then Some (a, s)
          else do { s1 \<leftarrow> (if dimX < oldDimX
                           then do { p \<leftarrow> rsdAllocationLock1D a;
                                     Allocation_decRefs R a p (ucast (oldDimX - dimX)) (ucast dimX) s }
                           else Some s);
                    (a1, s2) \<leftarrow> rsdAllocationResize R a t (aHasReferences a) s1;
                    a2 \<leftarrow> updateCache (reElem R) (a1\<lparr>aType := t, aTypeOb := Some tob\<rparr>);
                    Some (a2, s2) } }"
section \<open>Synchronisation\<close>

definition rsdAllocationSyncAll ::
    "elem_env \<Rightarrow> allocation \<Rightarrow> u32 \<Rightarrow> 's drvst \<Rightarrow> (allocation \<times> 's drvst) option" where
  "rsdAllocationSyncAll E a src s =
     (if src = RS_ALLOCATION_USAGE_GRAPHICS_RENDER_TARGET
      then (if \<not> getIsRenderTarget a then Some (a, setError RS_ERROR_FATAL_DRIVER s)
            else do { ob \<leftarrow> tElement (aType a);
                      e \<leftarrow> E ob;
                      if mKind (eComponent e) \<noteq> RS_KIND_PIXEL_RGBA then Some (a, setError RS_ERROR_FATAL_DRIVER s)
                      else Some (a, s) })
      else do { d \<leftarrow> aDrv a; Some (a\<lparr>aDrv := Some (d\<lparr>uploadDeferred := False\<rparr>)\<rparr>, s) })"

section \<open>Packed data\<close>

definition getPackedSize :: "elem_env \<Rightarrow> rstype \<Rightarrow> u32 option" where
  "getPackedSize E t =
     do { ob \<leftarrow> tElement t; e \<leftarrow> E ob; n \<leftarrow> getSizeBytesUnpadded E e;
          Some (ucast (ucast (ucast (tCellCount t) :: u32) * n)) }"

text \<open>\<open>memcpy(dst + d, src + p, n)\<close> between two blocks.\<close>

definition blk_copy :: "mem \<Rightarrow> nat \<Rightarrow> mem \<Rightarrow> nat \<Rightarrow> nat \<Rightarrow> mem option" where
  "blk_copy dst d src p n = do { bs \<leftarrow> mem_get src p n; mem_put dst d bs }"

fun pack_items :: "nat \<Rightarrow> mem \<Rightarrow> nat \<Rightarrow> nat \<Rightarrow> mem \<Rightarrow> nat \<Rightarrow> nat \<Rightarrow> nat \<Rightarrow> mem option" where
  "pack_items 0 dst d dstInc src p srcInc n = Some dst"
| "pack_items (Suc k) dst d dstInc src p srcInc n =
     do { dst1 \<leftarrow> blk_copy dst d src p n; pack_items k dst1 (d + dstInc) dstInc src (p + srcInc) srcInc n }"

text \<open>The fields of one item: where each lies in the destination and in the source, and its
  size.\<close>

fun pack_fields :: "(u32 \<times> u32 \<times> u32) list \<Rightarrow> mem \<Rightarrow> nat \<Rightarrow> mem \<Rightarrow> nat \<Rightarrow> mem option" where
  "pack_fields [] dst d src p = Some dst"
| "pack_fields ((od, os, n) # fs) dst d src p =
     do { dst1 \<leftarrow> blk_copy dst (d + unat od) src (p + unat os) (unat n); pack_fields fs dst1 d src p }"

fun pack_structs ::
    "nat \<Rightarrow> (u32 \<times> u32 \<times> u32) list \<Rightarrow> mem \<Rightarrow> nat \<Rightarrow> nat \<Rightarrow> mem \<Rightarrow> nat \<Rightarrow> nat \<Rightarrow> mem option" where
  "pack_structs 0 fs dst d dstInc src p srcInc = Some dst"
| "pack_structs (Suc k) fs dst d dstInc src p srcInc =
     do { dst1 \<leftarrow> pack_fields fs dst d src p;
          pack_structs k fs dst1 (d + dstInc) dstInc src (p + srcInc) srcInc }"

text \<open>The cached offsets and sizes of the fields: padded, unpadded, size without padding.\<close>

fun field_offsets :: "elem_env \<Rightarrow> element \<Rightarrow> u32 list \<Rightarrow> (u32 \<times> u32 \<times> u32) list option" where
  "field_offsets E e [] = Some []"
| "field_offsets E e (i # is) =
     do { o1 \<leftarrow> getFieldOffsetBytes e i;
          o2 \<leftarrow> getFieldOffsetBytesUnpadded e i;
          f \<leftarrow> field_at e (unat i);
          sub \<leftarrow> E (fElem f);
          n \<leftarrow> getSizeBytesUnpadded E sub;
          rest \<leftarrow> field_offsets E e is;
          Some ((ucast o1, ucast o2, ucast n) # rest) }"

definition writePackedData ::
    "elem_env \<Rightarrow> rstype \<Rightarrow> mem \<Rightarrow> nat \<Rightarrow> mem \<Rightarrow> nat \<Rightarrow> bool \<Rightarrow> mem option" where
  "writePackedData E t dst d src p dstPadded =
     do { ob \<leftarrow> tElement t;
          e \<leftarrow> E ob;
          un \<leftarrow> getSizeBytesUnpadded E e;
          pn \<leftarrow> getSizeBytes E e;
          let unpaddedBytes = (ucast un :: u32);
          let paddedBytes = (ucast pn :: u32);
          total \<leftarrow> getPackedSizeBytes E t;
          if paddedBytes = 0 then None
          else do {
            let numItems = (ucast (total div ucast paddedBytes) :: u32);
            let srcInc = (if dstPadded then unpaddedBytes else paddedBytes);
            let dstInc = (if dstPadded then paddedBytes else unpaddedBytes);
            if eFields e = []
            then pack_items (unat numItems) dst d (unat dstInc) src p (unat srcInc) (unat unpaddedBytes)
            else do {
              offs \<leftarrow> field_offsets E e (map of_nat [0..<length (eFields e)]);
              let fs = map (\<lambda>(op, ou, n). if dstPadded then (op, ou, n) else (ou, op, n)) offs;
              pack_structs (unat numItems) fs dst d (unat dstInc) src p (unat srcInc) } } }"

definition unpackVec3Allocation ::
    "elem_env \<Rightarrow> allocation \<Rightarrow> hptr \<Rightarrow> u64 \<Rightarrow> 's drvst \<Rightarrow> 's drvst option" where
  "unpackVec3Allocation E a data dataSize s =
     do { p \<leftarrow> rsdAllocationLock1D a;
          dst \<leftarrow> h_block (dHeap s) p;
          src \<leftarrow> h_block (dHeap s) data;
          dst1 \<leftarrow> writePackedData E (aType a) dst (unat (snd p)) src (unat (snd data)) True;
          b \<leftarrow> fst p;
          Some (s\<lparr>dHeap := (dHeap s)[b := Some dst1]\<rparr>) }"

definition packVec3Allocation ::
    "elem_env \<Rightarrow> allocation \<Rightarrow> 's drvst \<Rightarrow> ostream \<Rightarrow> ostream option" where
  "packVec3Allocation E a s stream =
     do { ob \<leftarrow> tElement (aType a);
          e \<leftarrow> E ob;
          un \<leftarrow> getSizeBytesUnpadded E e;
          let numItems = (ucast (tCellCount (aType a)) :: u32);
          p \<leftarrow> rsdAllocationLock1D a;
          src \<leftarrow> h_block (dHeap s) p;
          dst \<leftarrow> writePackedData E (aType a) (replicate (unat (numItems * ucast un)) None) 0 src (unat (snd p)) False;
          n \<leftarrow> getPackedSize E (aType a);
          addByteArray dst (ucast n) stream }"

definition RS_A3D_CLASS_ID_ALLOCATION :: u32 where
  "RS_A3D_CLASS_ID_ALLOCATION = 4"

text \<open>\<open>name\<close> and \<open>tname\<close> are the names of the allocation and of its type, \<open>N\<close> those of elements.\<close>

definition Allocation_serialize ::
    "elem_env \<Rightarrow> (nat \<Rightarrow> u8 list option) \<Rightarrow> nat \<Rightarrow> u8 list option \<Rightarrow> u8 list option \<Rightarrow> allocation \<Rightarrow> 's drvst \<Rightarrow>
     ostream \<Rightarrow> ostream option" where
  "Allocation_serialize E N fuel name tname a s stream =
     do { s1 \<leftarrow> addU32 RS_A3D_CLASS_ID_ALLOCATION stream;
          nm \<leftarrow> name;
          s2 \<leftarrow> addString nm s1;
          s3 \<leftarrow> Type_serialize E N fuel tname (aType a) s2;
          total \<leftarrow> getPackedSizeBytes E (aType a);
          let dataSize = (ucast total :: u32);
          packedSize \<leftarrow> getPackedSize E (aType a);
          s4 \<leftarrow> addU32 packedSize s3;
          if dataSize = packedSize
          then do { p \<leftarrow> rsdAllocationLock1D a;
                    blk \<leftarrow> h_block (dHeap s) p;
                    addByteArray (drop (unat (snd p)) blk) (ucast dataSize) s4 }
          else packVec3Allocation E a s s4 }"
section \<open>Allocations of a context\<close>

text \<open>
  The objects of a context with their data: an allocation is an object that releases its type, and
  \<open>acAllocs\<close> gives the rest of its state. The references inside cells are counted in the context.
\<close>

record actx =
  acSt :: "rsctx drvst"
  acAllocs :: "nat \<Rightarrow> allocation option"

definition ctx_renv :: "nat \<Rightarrow> rsctx \<Rightarrow> rsctx refenv" where
  "ctx_renv fuel c =
     \<lparr>reElem = get_elem c, reInc = incSysRef, reDec = (\<lambda>ob st. map_option snd (decSysRef rs_vt ob st)),
      reFuel = fuel\<rparr>"

definition ac_renv :: "nat \<Rightarrow> actx \<Rightarrow> rsctx refenv" where
  "ac_renv fuel ac = ctx_renv fuel (dRefs (acSt ac))"

definition with_alloc ::
    "nat \<Rightarrow> (allocation \<Rightarrow> rsctx drvst \<Rightarrow> (allocation \<times> rsctx drvst) option) \<Rightarrow> actx \<Rightarrow> actx option" where
  "with_alloc va f ac =
     do { a \<leftarrow> acAllocs ac va;
          (a', s') \<leftarrow> f a (acSt ac);
          Some (ac\<lparr>acSt := s', acAllocs := (acAllocs ac)(va := Some a')\<rparr>) }"

definition read_alloc ::
    "nat \<Rightarrow> (allocation \<Rightarrow> rsctx drvst \<Rightarrow> rsctx drvst option) \<Rightarrow> actx \<Rightarrow> actx option" where
  "read_alloc va f ac = do { a \<leftarrow> acAllocs ac va; s' \<leftarrow> f a (acSt ac); Some (ac\<lparr>acSt := s'\<rparr>) }"

text \<open>The constructor makes the object and takes a reference to the type; \<open>delete\<close> gives both back.\<close>

definition Allocation_create ::
    "(nat \<Rightarrow> bool) \<Rightarrow> bool \<Rightarrow> nat \<Rightarrow> nat \<Rightarrow> u32 \<Rightarrow> RsAllocationMipmapControl \<Rightarrow> hptr \<Rightarrow> actx \<Rightarrow>
     (nat option \<times> actx) option" where
  "Allocation_create avail objmem fuel tob usages mc p ac =
     (if \<not> objmem then Some (None, ac\<lparr>acSt := setError RS_ERROR_FATAL_DRIVER (acSt ac)\<rparr>)
      else do { t \<leftarrow> get_type (dRefs (acSt ac)) tob;
                (ob, c1) \<leftarrow> ObjectBase_new (OOther []) (dRefs (acSt ac));
                (r, c2) \<leftarrow> ObjectBaseRef_set rs_vt None (Some tob) c1;
                let c3 = put_obj ob (OOther [tob]) c2;
                (res, s1) \<leftarrow> createAllocation avail True (ctx_renv fuel c3) tob t usages mc p ((acSt ac)\<lparr>dRefs := c3\<rparr>);
                case res of
                  Some a \<Rightarrow> Some (Some ob, ac\<lparr>acSt := s1, acAllocs := (acAllocs ac)(ob := Some a)\<rparr>)
                | None \<Rightarrow> do { (r', c4) \<leftarrow> ObjectBaseRef_clear rs_vt (Some tob) (dRefs s1);
                              c5 \<leftarrow> ObjectBase_destroy ob c4;
                              Some (None, ac\<lparr>acSt := s1\<lparr>dRefs := c5\<rparr>\<rparr>) } })"

definition rsi_AllocationCreateTyped ::
    "(nat \<Rightarrow> bool) \<Rightarrow> bool \<Rightarrow> nat \<Rightarrow> nat \<Rightarrow> RsAllocationMipmapControl \<Rightarrow> u32 \<Rightarrow> hptr \<Rightarrow> actx \<Rightarrow>
     (nat option \<times> actx) option" where
  "rsi_AllocationCreateTyped avail objmem fuel vtype mipmaps usages p ac =
     do { (alloc, ac1) \<leftarrow> Allocation_create avail objmem fuel vtype usages mipmaps p ac;
          case alloc of
            None \<Rightarrow> Some (None, ac1)
          | Some ob \<Rightarrow> do { c \<leftarrow> incUserRef ob (dRefs (acSt ac1));
                           Some (Some ob, ac1\<lparr>acSt := (acSt ac1)\<lparr>dRefs := c\<rparr>\<rparr>) } }"

definition Allocation_freeChildren :: "nat \<Rightarrow> nat \<Rightarrow> actx \<Rightarrow> (bool \<times> actx) option" where
  "Allocation_freeChildren fuel va ac =
     do { a \<leftarrow> acAllocs ac va;
          if aHasReferences a
          then do { c1 \<leftarrow> incSysRef va (dRefs (acSt ac));
                    s1 \<leftarrow> freeChildrenUnlocked (ctx_renv fuel c1) a ((acSt ac)\<lparr>dRefs := c1\<rparr>);
                    (b, c2) \<leftarrow> decSysRef rs_vt va (dRefs s1);
                    Some (b, ac\<lparr>acSt := s1\<lparr>dRefs := c2\<rparr>\<rparr>) }
          else Some (False, ac) }"

definition rsaAllocationGetType :: "nat \<Rightarrow> actx \<Rightarrow> (nat \<times> actx) option" where
  "rsaAllocationGetType va ac =
     do { a \<leftarrow> acAllocs ac va;
          tob \<leftarrow> aTypeOb a;
          c \<leftarrow> incUserRef tob (dRefs (acSt ac));
          Some (tob, ac\<lparr>acSt := (acSt ac)\<lparr>dRefs := c\<rparr>\<rparr>) }"

text \<open>The pointer is not passed on; what the caller gets is the stride, when one is written.\<close>

definition rsi_AllocationGetPointer :: "nat \<Rightarrow> u32 \<Rightarrow> u32 \<Rightarrow> u32 \<Rightarrow> u32 \<Rightarrow> actx \<Rightarrow> u64 option option" where
  "rsi_AllocationGetPointer va lod face z array ac =
     do { a \<leftarrow> acAllocs ac va; (p, stride) \<leftarrow> getPointer a lod face z array; Some stride }"

definition rsi_AllocationSyncAll :: "nat \<Rightarrow> nat \<Rightarrow> u32 \<Rightarrow> actx \<Rightarrow> actx option" where
  "rsi_AllocationSyncAll fuel va src ac =
     with_alloc va (\<lambda>a s. do { a1 \<leftarrow> sendDirty a; rsdAllocationSyncAll (reElem (ac_renv fuel ac)) a1 src s }) ac"

definition rsi_AllocationGenerateMipmaps :: "nat \<Rightarrow> nat \<Rightarrow> actx \<Rightarrow> actx option" where
  "rsi_AllocationGenerateMipmaps fuel va ac =
     read_alloc va (\<lambda>a s. rsdAllocationGenerateMipmaps (reElem (ac_renv fuel ac)) a s) ac"

definition rsi_AllocationCopyToBitmap :: "nat \<Rightarrow> hptr \<Rightarrow> u64 \<Rightarrow> actx \<Rightarrow> actx option" where
  "rsi_AllocationCopyToBitmap va data sizeBytes ac =
     read_alloc va (\<lambda>a s. Allocation_read2 a 0 0 0 0 (tDimX (aType a)) (tDimY (aType a)) data sizeBytes 0 s) ac"

definition rsi_Allocation1DData ::
    "nat \<Rightarrow> nat \<Rightarrow> u32 \<Rightarrow> u32 \<Rightarrow> u32 \<Rightarrow> hptr \<Rightarrow> u64 \<Rightarrow> actx \<Rightarrow> actx option" where
  "rsi_Allocation1DData fuel va xoff lod cnt data sizeBytes ac =
     with_alloc va (\<lambda>a s. Allocation_data1 (ac_renv fuel ac) a xoff lod cnt data sizeBytes s) ac"

definition rsi_Allocation2DElementData ::
    "nat \<Rightarrow> nat \<Rightarrow> u32 \<Rightarrow> u32 \<Rightarrow> hptr \<Rightarrow> u64 \<Rightarrow> u64 \<Rightarrow> actx \<Rightarrow> actx option" where
  "rsi_Allocation2DElementData fuel va x y data sizeBytes eoff ac =
     with_alloc va (\<lambda>a s. Allocation_elementData2 (ac_renv fuel ac) a x y data (ucast eoff) sizeBytes s) ac"

definition rsi_Allocation1DElementData ::
    "nat \<Rightarrow> nat \<Rightarrow> u32 \<Rightarrow> hptr \<Rightarrow> u64 \<Rightarrow> u64 \<Rightarrow> actx \<Rightarrow> actx option" where
  "rsi_Allocation1DElementData fuel va x data sizeBytes eoff ac =
     with_alloc va (\<lambda>a s. Allocation_elementData1 (ac_renv fuel ac) a x data (ucast eoff) sizeBytes s) ac"

definition rsi_Allocation2DData ::
    "nat \<Rightarrow> nat \<Rightarrow> u32 \<Rightarrow> u32 \<Rightarrow> u32 \<Rightarrow> u32 \<Rightarrow> u32 \<Rightarrow> u32 \<Rightarrow> hptr \<Rightarrow> u64 \<Rightarrow> u64 \<Rightarrow> actx \<Rightarrow> actx option" where
  "rsi_Allocation2DData fuel va xoff yoff lod face w h data sizeBytes stride ac =
     with_alloc va (\<lambda>a s. Allocation_data2 (ac_renv fuel ac) a xoff yoff lod face w h data sizeBytes stride s) ac"

definition rsi_Allocation3DData ::
    "nat \<Rightarrow> nat \<Rightarrow> u32 \<Rightarrow> u32 \<Rightarrow> u32 \<Rightarrow> u32 \<Rightarrow> u32 \<Rightarrow> u32 \<Rightarrow> u32 \<Rightarrow> hptr \<Rightarrow> u64 \<Rightarrow> u64 \<Rightarrow> actx \<Rightarrow> actx option" where
  "rsi_Allocation3DData fuel va xoff yoff zoff lod w h d data sizeBytes stride ac =
     with_alloc va (\<lambda>a s. Allocation_data3 (ac_renv fuel ac) a xoff yoff zoff lod w h d data sizeBytes stride s) ac"

definition rsi_AllocationRead :: "nat \<Rightarrow> nat \<Rightarrow> hptr \<Rightarrow> u64 \<Rightarrow> actx \<Rightarrow> actx option" where
  "rsi_AllocationRead fuel va data sizeBytes ac =
     read_alloc va (\<lambda>a s.
       if tDimY (aType a) \<noteq> 0
       then Allocation_read2 a 0 0 0 0 (tDimX (aType a)) (tDimY (aType a)) data sizeBytes 0 s
       else Allocation_read1 (ac_renv fuel ac) a 0 0 (tDimX (aType a)) data sizeBytes s) ac"

definition rsi_Allocation1DRead :: "nat \<Rightarrow> nat \<Rightarrow> u32 \<Rightarrow> u32 \<Rightarrow> u32 \<Rightarrow> hptr \<Rightarrow> u64 \<Rightarrow> actx \<Rightarrow> actx option" where
  "rsi_Allocation1DRead fuel va xoff lod cnt data sizeBytes ac =
     read_alloc va (\<lambda>a s. rsdAllocationRead1D (ac_renv fuel ac) a xoff lod (ucast cnt) data sizeBytes s) ac"

definition rsi_Allocation2DRead ::
    "nat \<Rightarrow> u32 \<Rightarrow> u32 \<Rightarrow> u32 \<Rightarrow> u32 \<Rightarrow> u32 \<Rightarrow> u32 \<Rightarrow> hptr \<Rightarrow> u64 \<Rightarrow> u64 \<Rightarrow> actx \<Rightarrow> actx option" where
  "rsi_Allocation2DRead va xoff yoff lod face w h data sizeBytes stride ac =
     read_alloc va (\<lambda>a s. Allocation_read2 a xoff yoff lod face w h data sizeBytes stride s) ac"

definition rsi_AllocationCopy2DRange ::
    "nat \<Rightarrow> nat \<Rightarrow> u32 \<Rightarrow> u32 \<Rightarrow> u32 \<Rightarrow> u32 \<Rightarrow> u32 \<Rightarrow> u32 \<Rightarrow> nat \<Rightarrow> u32 \<Rightarrow> u32 \<Rightarrow> u32 \<Rightarrow> u32 \<Rightarrow> actx \<Rightarrow> actx option" where
  "rsi_AllocationCopy2DRange fuel dstAlloc dstXoff dstYoff dstMip dstFace width height srcAlloc srcXoff srcYoff srcMip srcFace ac =
     do { dst \<leftarrow> acAllocs ac dstAlloc;
          src \<leftarrow> acAllocs ac srcAlloc;
          s' \<leftarrow> rsdAllocationData2D_alloc (reElem (ac_renv fuel ac)) dst dstXoff dstYoff dstMip dstFace width height
                  src srcXoff srcYoff srcMip srcFace (acSt ac);
          Some (ac\<lparr>acSt := s'\<rparr>) }"

definition rsi_AllocationCopy3DRange ::
    "nat \<Rightarrow> nat \<Rightarrow> u32 \<Rightarrow> u32 \<Rightarrow> u32 \<Rightarrow> u32 \<Rightarrow> u32 \<Rightarrow> u32 \<Rightarrow> u32 \<Rightarrow> nat \<Rightarrow> u32 \<Rightarrow> u32 \<Rightarrow> u32 \<Rightarrow> u32 \<Rightarrow> actx \<Rightarrow> actx option" where
  "rsi_AllocationCopy3DRange fuel dstAlloc dstXoff dstYoff dstZoff dstMip width height depth srcAlloc srcXoff srcYoff srcZoff srcMip ac =
     do { dst \<leftarrow> acAllocs ac dstAlloc;
          src \<leftarrow> acAllocs ac srcAlloc;
          s' \<leftarrow> rsdAllocationData3D_alloc (reElem (ac_renv fuel ac)) dst dstXoff dstYoff dstZoff dstMip width height depth
                  src srcXoff srcYoff srcZoff srcMip (acSt ac);
          Some (ac\<lparr>acSt := s'\<rparr>) }"

definition rsi_AllocationResize1D :: "nat \<Rightarrow> nat \<Rightarrow> u32 \<Rightarrow> actx \<Rightarrow> actx option" where
  "rsi_AllocationResize1D fuel va dimX ac =
     do { a \<leftarrow> acAllocs ac va;
          l0 \<leftarrow> lod_at (aDrvState a) 0;
          if dimX = lDimX l0 then Some ac
          else do { (tob, c1) \<leftarrow> Type_cloneAndResize1D (aType a) dimX (dRefs (acSt ac));
                    t \<leftarrow> get_type c1 tob;
                    (a2, s2) \<leftarrow> Allocation_resize1D (ctx_renv fuel c1) a tob t dimX ((acSt ac)\<lparr>dRefs := c1\<rparr>);
                    (r, c2) \<leftarrow> ObjectBaseRef_set rs_vt (aTypeOb a) (Some tob) (dRefs s2);
                    let c3 = put_obj va (OOther [tob]) c2;
                    (r', c4) \<leftarrow> ObjectBaseRef_clear rs_vt (Some tob) c3;
                    Some (ac\<lparr>acSt := s2\<lparr>dRefs := c4\<rparr>, acAllocs := (acAllocs ac)(va := Some a2)\<rparr>) } }"

definition rsi_AllocationResize2D :: "nat \<Rightarrow> u32 \<Rightarrow> u32 \<Rightarrow> actx \<Rightarrow> actx option" where
  "rsi_AllocationResize2D va dimX dimY ac = Some (ac\<lparr>acSt := setError RS_ERROR_FATAL_DRIVER (acSt ac)\<rparr>)"

definition rsi_AllocationCreateFromBitmap ::
    "(nat \<Rightarrow> bool) \<Rightarrow> bool \<Rightarrow> nat \<Rightarrow> nat \<Rightarrow> RsAllocationMipmapControl \<Rightarrow> hptr \<Rightarrow> u64 \<Rightarrow> u32 \<Rightarrow> actx \<Rightarrow>
     (nat option \<times> actx) option" where
  "rsi_AllocationCreateFromBitmap avail objmem fuel vtype mipmaps data sizeBytes usages ac =
     do { t \<leftarrow> get_type (dRefs (acSt ac)) vtype;
          (alloc, ac1) \<leftarrow> rsi_AllocationCreateTyped avail objmem fuel vtype mipmaps usages nullp ac;
          case alloc of
            None \<Rightarrow> Some (None, ac1)
          | Some ob \<Rightarrow>
              do { ac2 \<leftarrow> rsi_Allocation2DData fuel ob 0 0 0 0 (tDimX t) (tDimY t) data sizeBytes 0 ac1;
                   ac3 \<leftarrow> (if mipmaps = RS_ALLOCATION_MIPMAP_FULL then rsi_AllocationGenerateMipmaps fuel ob ac2
                           else Some ac2);
                   ac4 \<leftarrow> with_alloc ob (\<lambda>a s. do { a1 \<leftarrow> sendDirty a; Some (a1, s) }) ac3;
                   Some (Some ob, ac4) } }"

text \<open>The source of a cube map has the six faces side by side; \<open>strideBytes * dI\<close> is a \<open>uint32_t\<close>.\<close>

definition rsi_AllocationCubeCreateFromBitmap ::
    "(nat \<Rightarrow> bool) \<Rightarrow> bool \<Rightarrow> nat \<Rightarrow> nat \<Rightarrow> RsAllocationMipmapControl \<Rightarrow> hptr \<Rightarrow> u64 \<Rightarrow> u32 \<Rightarrow> actx \<Rightarrow>
     (nat option \<times> actx) option" where
  "rsi_AllocationCubeCreateFromBitmap avail objmem fuel vtype mipmaps data sizeBytes usages ac =
     do { t \<leftarrow> get_type (dRefs (acSt ac)) vtype;
          (alloc, ac1) \<leftarrow> rsi_AllocationCreateTyped avail objmem fuel vtype mipmaps usages nullp ac;
          case alloc of
            None \<Rightarrow> Some (None, ac1)
          | Some ob \<Rightarrow>
              do { eSize \<leftarrow> getElementSizeBytes (get_elem (dRefs (acSt ac1))) t;
                   let faceSize = tDimX t;
                   let strideBytes = (ucast (ucast (faceSize * 6) * eSize) :: u32);
                   let copySize = (ucast (ucast faceSize * eSize) :: u32);
                   ac2 \<leftarrow> for_upto 0 6 (\<lambda>face. for_upto 0 (unat faceSize) (\<lambda>dI.
                     rsi_Allocation2DData fuel ob 0 (of_nat dI) 0 (of_nat face) (tDimX t) 1
                       (ptr_add (ptr_add data (of_nat face * ucast copySize)) (ucast (strideBytes * of_nat dI)))
                       (ucast copySize) 0)) ac1;
                   ac3 \<leftarrow> (if mipmaps = RS_ALLOCATION_MIPMAP_FULL then rsi_AllocationGenerateMipmaps fuel ob ac2
                           else Some ac2);
                   ac4 \<leftarrow> with_alloc ob (\<lambda>a s. do { a1 \<leftarrow> sendDirty a; Some (a1, s) }) ac3;
                   Some (Some ob, ac4) } }"

text \<open>\<open>createFromStream\<close>; \<open>sb\<close> is the block that holds the buffer of the stream. A null result of
  \<open>createAllocation\<close> is dereferenced.\<close>

definition Allocation_createFromStream ::
    "(nat \<Rightarrow> bool) \<Rightarrow> bool \<Rightarrow> nat \<Rightarrow> nat \<Rightarrow> istream \<Rightarrow> actx \<Rightarrow> (nat option \<times> istream \<times> actx) option" where
  "Allocation_createFromStream avail objmem fuel sb i ac =
     do { (classID, i1) \<leftarrow> loadU32 i;
          if classID \<noteq> RS_A3D_CLASS_ID_ALLOCATION
          then Some (None, i1, ac\<lparr>acSt := setError RS_ERROR_FATAL_DRIVER (acSt ac)\<rparr>)
          else do {
            (name, i2) \<leftarrow> loadString i1;
            (ty, i3, c1) \<leftarrow> Type_createFromStream fuel i2 (dRefs (acSt ac));
            case ty of
              None \<Rightarrow> Some (None, i3, ac\<lparr>acSt := (acSt ac)\<lparr>dRefs := c1\<rparr>\<rparr>)
            | Some tob \<Rightarrow> do {
                t0 \<leftarrow> get_type c1 tob;
                t \<leftarrow> Type_compute t0;
                let c2 = put_obj tob (OType t) c1;
                (alloc, ac1) \<leftarrow> Allocation_create avail objmem fuel tob RS_ALLOCATION_USAGE_SCRIPT
                                 RS_ALLOCATION_MIPMAP_NONE nullp (ac\<lparr>acSt := (acSt ac)\<lparr>dRefs := c2\<rparr>\<rparr>);
                (b, c3) \<leftarrow> decUserRef rs_vt tob (dRefs (acSt ac1));
                let ac2 = ac1\<lparr>acSt := (acSt ac1)\<lparr>dRefs := c3\<rparr>\<rparr>;
                (dataSize, i4) \<leftarrow> loadU32 i3;
                ob \<leftarrow> alloc;
                a \<leftarrow> acAllocs ac2 ob;
                packedSize \<leftarrow> getPackedSize (get_elem c3) (aType a);
                total \<leftarrow> getPackedSizeBytes (get_elem c3) (aType a);
                if ucast dataSize \<noteq> total \<and> dataSize \<noteq> packedSize
                then do { (b1, c4) \<leftarrow> checkDelete rs_vt (Some ob) (dRefs (setError RS_ERROR_FATAL_DRIVER (acSt ac2)));
                          (b2, c5) \<leftarrow> checkDelete rs_vt (Some tob) c4;
                          Some (None, i4, ac2\<lparr>acSt := (setError RS_ERROR_FATAL_DRIVER (acSt ac2))\<lparr>dRefs := c5\<rparr>\<rparr>) }
                else do {
                  let c4 = ocell_upd ob (\<lambda>c. c\<lparr>mName := Some (map Some name)\<rparr>) c3;
                  let ac3 = ac2\<lparr>acSt := (acSt ac2)\<lparr>dRefs := c4\<rparr>\<rparr>;
                  eSize \<leftarrow> getElementSizeBytes (get_elem c4) (aType a);
                  ac4 \<leftarrow> (if ucast dataSize = total
                          then (if eSize = 0 then None
                                else rsi_Allocation1DData fuel ob 0 0 (ucast (ucast dataSize div eSize))
                                       (Some sb, iPos i4) (ucast dataSize) ac3)
                          else read_alloc ob (\<lambda>a s. unpackVec3Allocation (get_elem c4) a (Some sb, iPos i4)
                                                     (ucast dataSize) s) ac3);
                  Some (Some ob, IStream_reset (iPos i4 + ucast dataSize) i4, ac4) } } } }"

section \<open>What every operation keeps\<close>

text \<open>No operation of the driver changes the size of a block, and an allocation only changes in the
  flags of its driver part.\<close>

definition same_shape :: "'s drvst \<Rightarrow> 's drvst \<Rightarrow> bool" where
  "same_shape s s' \<longleftrightarrow> (\<forall>b. blk_len (dHeap s') b = blk_len (dHeap s) b)"

definition same_alloc :: "allocation \<Rightarrow> allocation \<Rightarrow> bool" where
  "same_alloc a a' \<longleftrightarrow> (\<exists>d. a' = a\<lparr>aDrv := d\<rparr> \<and> (aDrv a \<noteq> None \<longrightarrow> d \<noteq> None))"

named_theorems keeps

lemma same_shape_refl [simp]: "same_shape s s"
  by (simp add: same_shape_def)

lemma same_shape_trans: "same_shape s s1 \<Longrightarrow> same_shape s1 s2 \<Longrightarrow> same_shape s s2"
  by (simp add: same_shape_def)

lemma same_shape_heap [simp]: "same_shape s (s'\<lparr>dRefs := r\<rparr>) \<longleftrightarrow> same_shape s s'"
    "same_shape s (s'\<lparr>dErrors := e\<rparr>) \<longleftrightarrow> same_shape s s'"
  by (simp_all add: same_shape_def)

lemma same_shape_setError [simp]: "same_shape s (setError e s') \<longleftrightarrow> same_shape s s'"
  by (simp add: setError_def)

lemma same_alloc_refl [simp]: "same_alloc a a"
  by (auto simp: same_alloc_def intro: exI[of _ "aDrv a"])

lemma same_alloc_drv [simp]: "same_alloc a (a\<lparr>aDrv := Some d\<rparr>)"
  by (auto simp: same_alloc_def)

lemma same_alloc_trans: "same_alloc a a1 \<Longrightarrow> same_alloc a1 a2 \<Longrightarrow> same_alloc a a2"
  by (auto simp: same_alloc_def)

lemma st_memcpy_shape [keeps]: "st_memcpy dst src n s = Some s' \<Longrightarrow> same_shape s s'"
  by (auto simp: st_memcpy_def bind_Some_iff same_shape_def h_memcpy_blk_len)

lemma store_bytes_shape [keeps]: "store_bytes p bs s = Some s' \<Longrightarrow> same_shape s s'"
  by (auto simp: store_bytes_def bind_Some_iff same_shape_def h_put_blk_len)

lemma incRefs_shape [keeps]: "Allocation_incRefs R a p ct o' s = Some s' \<Longrightarrow> same_shape s s'"
  by (auto simp: Allocation_incRefs_def bind_Some_iff)

lemma decRefs_shape [keeps]: "Allocation_decRefs R a p ct o' s = Some s' \<Longrightarrow> same_shape s s'"
  by (auto simp: Allocation_decRefs_def bind_Some_iff split: if_splits)

lemma element_refs_shape [keeps]: "element_refs act R e p s = Some s' \<Longrightarrow> same_shape s s'"
  by (auto simp: element_refs_def bind_Some_iff)

lemma replace_refs_shape [keeps]: "replace_refs R a dst src ct s = Some s' \<Longrightarrow> same_shape s s'"
  by (auto simp: replace_refs_def bind_Some_iff split: if_splits dest!: keeps intro: same_shape_trans)

lemma set_uploadDeferred_same [keeps]: "set_uploadDeferred a = Some a' \<Longrightarrow> same_alloc a a'"
  by (auto simp: set_uploadDeferred_def bind_Some_iff same_alloc_def)

lemma sendDirty_same [keeps]: "sendDirty a = Some a' \<Longrightarrow> same_alloc a a'"
  by (simp add: sendDirty_def keeps)

lemma for_upto_shape:
  assumes "\<And>i s s'. f i s = Some s' \<Longrightarrow> same_shape s s'"
  shows "for_upto i n f s = Some s' \<Longrightarrow> same_shape s s'"
proof (induction n arbitrary: i s)
  case (Suc n)
  then show ?case by (auto simp: bind_Some_iff intro: same_shape_trans dest: assms)
qed simp

lemma write_rows_shape [keeps]: "write_rows R a n w len dst dS src sS s = Some (q, s') \<Longrightarrow> same_shape s s'"
proof (induction n arbitrary: dst src s)
  case (Suc n)
  show ?case
    using Suc.prems by (auto simp: bind_Some_iff dest!: keeps Suc.IH intro: same_shape_trans)
qed simp

lemma copy_rows_shape [keeps]: "copy_rows n len dst dS src sS s = Some (p, q, s') \<Longrightarrow> same_shape s s'"
proof (induction n arbitrary: dst src s)
  case (Suc n)
  show ?case
    using Suc.prems by (auto simp: bind_Some_iff dest!: keeps Suc.IH intro: same_shape_trans)
qed simp

lemma write_planes_shape [keeps]: "write_planes a x y f h len lods src s = Some s' \<Longrightarrow> same_shape s s'"
proof (induction lods arbitrary: src s)
  case (Cons l lods)
  show ?case
    using Cons.prems by (auto simp: bind_Some_iff dest!: keeps Cons.IH intro: same_shape_trans)
qed simp

lemma write_slices_shape [keeps]: "write_slices R a x y lod w h len st zs src s = Some s' \<Longrightarrow> same_shape s s'"
proof (induction zs arbitrary: src s)
  case (Cons z zs)
  show ?case
    using Cons.prems by (auto simp: bind_Some_iff split: if_splits dest!: keeps Cons.IH intro: same_shape_trans)
qed simp

lemma read_slices_shape [keeps]: "read_slices a x y lod h len st zs dst s = Some s' \<Longrightarrow> same_shape s s'"
proof (induction zs arbitrary: dst s)
  case (Cons z zs)
  show ?case
    using Cons.prems by (auto simp: bind_Some_iff split: if_splits dest!: keeps Cons.IH intro: same_shape_trans)
qed simp

lemma mip_line_shape [keeps]: "mip_line px k n o' i1 i2 s = Some s' \<Longrightarrow> same_shape s s'"
proof (induction n arbitrary: o' i1 i2 s)
  case (Suc n)
  show ?case
    using Suc.prems by (auto simp: bind_Some_iff dest!: keeps Suc.IH intro: same_shape_trans)
qed simp

lemma mip_shape [keeps]:
  "mip565 a lod face s = Some s' \<Longrightarrow> same_shape s s'" "mip8888 a lod face s = Some s' \<Longrightarrow> same_shape s s'"
  "mip8 a lod face s = Some s' \<Longrightarrow> same_shape s s'"
  by (auto simp: mip565_def mip8888_def mip8_def bind_Some_iff elim!: for_upto_shape[rotated] dest: mip_line_shape)

lemma mipmaps_shape [keeps]: "rsdAllocationGenerateMipmaps E a s = Some s' \<Longrightarrow> same_shape s s'"
  by (auto simp: rsdAllocationGenerateMipmaps_def bind_Some_iff split: if_splits
      elim!: for_upto_shape[rotated] dest: keeps)

lemma Data1D_keeps [keeps]:
  "rsdAllocationData1D R a x lod n data sz s = Some (a', s') \<Longrightarrow> same_alloc a a' \<and> same_shape s s'"
  by (auto simp: rsdAllocationData1D_def Let_def bind_Some_iff split: if_splits dest!: keeps intro: same_shape_trans)

lemma Data2D_keeps [keeps]:
  "rsdAllocationData2D R a x y lod face w h data sz st s = Some (a', s') \<Longrightarrow> same_alloc a a' \<and> same_shape s s'"
  by (auto simp: rsdAllocationData2D_def Let_def bind_Some_iff split: if_splits dest!: keeps intro: same_shape_trans)

lemma Data3D_keeps [keeps]:
  "rsdAllocationData3D R a x y z lod w h d data sz st s = Some (a', s') \<Longrightarrow> same_alloc a a' \<and> same_shape s s'"
  by (auto simp: rsdAllocationData3D_def Let_def bind_Some_iff split: if_splits dest!: keeps intro: same_shape_trans)

lemma ElementData_keeps [keeps]:
  "rsdAllocationElementData1D R a x data c sz s = Some (a', s') \<Longrightarrow> same_alloc a a' \<and> same_shape s s'"
  "rsdAllocationElementData2D R a x y data c sz s = Some (a', s') \<Longrightarrow> same_alloc a a' \<and> same_shape s s'"
  by (auto simp: rsdAllocationElementData1D_def rsdAllocationElementData2D_def Let_def bind_Some_iff
      split: if_splits dest!: keeps intro: same_shape_trans)

lemma Read_keeps [keeps]:
  "rsdAllocationRead1D R a x lod n data sz s = Some s' \<Longrightarrow> same_shape s s'"
  "rsdAllocationRead2D a x y lod face w h data sz st s = Some s' \<Longrightarrow> same_shape s s'"
  "rsdAllocationRead3D a x y z lod w h d data sz st s = Some s' \<Longrightarrow> same_shape s s'"
  by (auto simp: rsdAllocationRead1D_def rsdAllocationRead2D_def rsdAllocationRead3D_def Let_def bind_Some_iff
      split: if_splits dest!: keeps)

lemma alloc_copy_shape [keeps]:
  "rsdAllocationData2D_alloc E dst x y l f w h src x' y' l' f' s = Some s' \<Longrightarrow> same_shape s s'"
  "rsdAllocationData3D_alloc E dst x y z l w h d src x' y' z' l' s = Some s' \<Longrightarrow> same_shape s s'"
  by (auto simp: rsdAllocationData2D_alloc_def rsdAllocationData3D_alloc_def Data2D_alloc_script_def
      Data3D_alloc_script_def Let_def bind_Some_iff split: if_splits elim!: for_upto_shape[rotated] dest: keeps)

lemma API_keeps [keeps]:
  "Allocation_data1 R a x lod n data sz s = Some (a', s') \<Longrightarrow> same_alloc a a' \<and> same_shape s s'"
  "Allocation_data2 R a x y lod face w h data sz st s = Some (a', s') \<Longrightarrow> same_alloc a a' \<and> same_shape s s'"
  "Allocation_data3 R a x y z lod w h d data sz st s = Some (a', s') \<Longrightarrow> same_alloc a a' \<and> same_shape s s'"
  "Allocation_elementData1 R a x data c sz s = Some (a', s') \<Longrightarrow> same_alloc a a' \<and> same_shape s s'"
  "Allocation_elementData2 R a x y data c sz s = Some (a', s') \<Longrightarrow> same_alloc a a' \<and> same_shape s s'"
  by (auto simp: Allocation_data1_def Allocation_data2_def Allocation_data3_def Allocation_elementData1_def
      Allocation_elementData2_def bind_Some_iff split: if_splits dest!: keeps intro: same_alloc_trans)

lemma API_reads_keep [keeps]:
  "Allocation_read1 R a x lod n data sz s = Some s' \<Longrightarrow> same_shape s s'"
  "Allocation_read2 a x y lod face w h data sz st s = Some s' \<Longrightarrow> same_shape s s'"
  "Allocation_read3 a x y z lod w h d data sz st s = Some s' \<Longrightarrow> same_shape s s'"
  by (auto simp: Allocation_read1_def Allocation_read2_def Allocation_read3_def Let_def bind_Some_iff
      split: if_splits dest!: keeps)

lemma SyncAll_keeps [keeps]:
  "rsdAllocationSyncAll E a src s = Some (a', s') \<Longrightarrow> same_alloc a a' \<and> same_shape s s'"
  by (auto simp: rsdAllocationSyncAll_def bind_Some_iff split: if_splits)

lemma drv_alloc_ok_same:
  assumes "drv_alloc_ok es b a (dHeap s)" and "same_alloc a a'" and "same_shape s s'"
  shows "drv_alloc_ok es b a' (dHeap s')"
  using assms by (auto simp: drv_alloc_ok_def same_alloc_def same_shape_def)
lemma lt32_lt64:
  fixes n :: nat
  assumes "n < 2 ^ 32" shows "n < 2 ^ 64"
  using assms by simp

section \<open>Resizing\<close>

lemma realloc_spec:
  assumes "blk_len h b = Some len"
  shows "\<exists>h'. h_realloc h (bptr b 0) n = Some (bptr (length h) 0, h')
    \<and> blk_len h' (length h) = Some n
    \<and> (\<forall>x k. x + k \<le> len \<and> x + k \<le> n \<and> x < 2 ^ 64 \<longrightarrow> h_get h' (bptr (length h) x) k = h_get h (bptr b x) k)
    \<and> (\<forall>c. c \<noteq> b \<and> c \<noteq> length h \<longrightarrow> blk_len h' c = blk_len h c)"
proof -
  obtain m where m: "b < length h" "h ! b = Some m" "length m = len"
    using assms by (auto simp: blk_len_def split: if_splits)
  define h' where "h' = h[b := None] @ [Some (take n m @ replicate (n - length m) None)]"
  have "h_realloc h (bptr b 0) n = Some (bptr (length h) 0, h')"
    using m by (simp add: bptr_def h_realloc_Some_iff h'_def)
  moreover have "blk_len h' (length h) = Some n"
    by (simp add: blk_len_def h'_def nth_append min_def)
  moreover have "h_get h' (bptr (length h) x) k = h_get h (bptr b x) k"
    if "x + k \<le> len" "x + k \<le> n" "x < 2 ^ 64" for x k
  proof -
    have "take k (drop x (take n m @ replicate (n - length m) None)) = take k (drop x m)"
      using that m by (auto simp: drop_take min_def)
    then show ?thesis
      using that m by (simp add: h_get_def h_block_def h'_def nth_append unat_snd_bptr mem_get_def min_def)
  qed
  moreover have "blk_len h' c = blk_len h c" if "c \<noteq> b" "c \<noteq> length h" for c
    using that by (auto simp: blk_len_def h'_def nth_append)
  ultimately show ?thesis by blast
qed

lemma table_level0:
  assumes "table_ok es t (bptr b 0) d" and "fits_table es t"
  shows "\<exists>l. lod_at d 0 = Some l \<and> lDimX l = tDimX t \<and> lMallocPtr l = bptr b 0"
proof -
  have "0 < unat (tLodCount t)" "length (dsLod d) = 16"
    using assms by (auto simp: table_ok_def fits_table_def MAX_LOD_def)
  then have "level_ok es t 0 (dsLod d ! 0)" "lMallocPtr (dsLod d ! 0) = bptr b 0" "lod_at d 0 = Some (dsLod d ! 0)"
    using assms(1) by (auto simp: table_ok_def level_off_def lod_at_def)
  then show ?thesis by (auto simp: level_ok_def drv_dim_def word_unat_eq_iff)
qed

lemma row_in_table:
  assumes "fits_table es t" shows "es * unat (tDimX t) \<le> table_size es t"
proof -
  have "level_bytes es t 0 \<le> level_off es t (unat (tLodCount t))"
    using level_in_face[of 0 "unat (tLodCount t)" es t] assms by (simp add: fits_table_def level_off_def)
  moreover have "unat (tDimX t) * es \<le> level_bytes es t 0"
    using row_bytes_ge[of "drv_dim (tDimX t) 0" es] row_bytes_level[of es t 0] by (simp add: drv_dim_def)
  moreover have "level_off es t (unat (tLodCount t)) \<le> table_size es t" by (simp add: table_size_def)
  ultimately show ?thesis by (simp add: mult.commute)
qed

text \<open>The zeroing of the new cells of the first row.\<close>

lemma memset_new_cells:
  fixes old new :: u32 and es64 :: u64
  assumes len: "blk_len h b = Some n" and n: "es * unat new \<le> n" "n < 2 ^ 32" and lt: "old < new"
    and es: "unat es64 = es"
  shows "\<exists>h'. h_memset h (ptr_add (bptr b 0) (es64 * ucast old)) 0 (unat (es64 * ucast (new - old))) = Some h'
    \<and> (\<forall>x. blk_len h' x = blk_len h x)
    \<and> h_get h' (bptr b (es * unat old)) (es * (unat new - unat old)) = Some (replicate (es * (unat new - unat old)) (Some 0))
    \<and> (\<forall>p k. h_disjoint (bptr b (es * unat old)) (es * (unat new - unat old)) p k \<longrightarrow> h_get h' p k = h_get h p k)"
proof -
  let ?o = "es * unat old" and ?k = "es * (unat new - unat old)"
  have lt': "unat old < unat new" using lt by (simp add: word_less_nat_alt)
  have sub: "unat (new - old) = unat new - unat old" using lt by (simp add: unat_sub word_le_nat_alt word_less_nat_alt)
  have sum: "?o + ?k = es * unat new" using lt' by (simp add: diff_mult_distrib2)
  have "?k \<le> es * unat new" by (simp add: sum[symmetric])
  then have "?k < 2 ^ 64" using n by (intro lt32_lt64) linarith
  then have "unat es64 * unat (new - old) < 2 ^ 64" using sub es by simp
  then have k: "unat (es64 * ucast (new - old)) = ?k" using unat_mult_u64_u32[of es64 "new - old"] sub es by simp
  have "es64 = of_nat es" using es unat_inverse_u64[of es64] by simp
  then have p: "ptr_add (bptr b 0) (es64 * ucast old) = bptr b ?o"
    using bptr_add[of b 0 ?o] by (simp only: u32_of_nat of_nat_mult) simp
  have o: "?o < 2 ^ 64" using n sum by (intro lt32_lt64) linarith
  have "unat (of_nat ?o :: u64) = ?o" using o by (simp only: unat_of_nat) simp
  then obtain h' where put: "h_put h (bptr b ?o) (replicate ?k (Some 0)) = Some h'"
    using h_put_fits[OF len, of "of_nat ?o" "replicate ?k (Some 0)"] sum n by (auto simp: bptr_def)
  have "h_get h' (bptr b ?o) ?k = Some (replicate ?k (Some 0))" using h_get_put_same[OF put] by simp
  moreover have "h_get h' p k = h_get h p k" if "h_disjoint (bptr b ?o) ?k p k" for p k
    using h_get_put_disjoint[OF put] that by simp
  ultimately show ?thesis using put h_put_blk_len[OF put] by (auto simp: h_memset_def p k)
qed

lemma Resize_spec:
  assumes ok: "drv_alloc_ok es b a (dHeap s)" and shared: "\<not> has_usage a RS_ALLOCATION_USAGE_SHARED"
    and e: "getElementSizeBytes (reElem R) t' = Some e'" "unat e' = es" and fits: "fits_table es t'"
    and yuv: "aYuv a = 0 \<or> 1 < tLodCount t'"
  shows "\<exists>d h'. rsdAllocationResize R a t' z s = Some (a\<lparr>aDrvState := d\<rparr>, s\<lparr>dHeap := h'\<rparr>)
    \<and> table_ok es t' (bptr (length (dHeap s)) 0) d
    \<and> blk_len h' (length (dHeap s)) = Some (table_size es t')
    \<and> (\<forall>c. c \<noteq> b \<and> c \<noteq> length (dHeap s) \<longrightarrow> blk_len h' c = blk_len (dHeap s) c)
    \<and> (\<forall>x k. x + k \<le> table_size es (aType a) \<and> x + k \<le> table_size es t'
         \<and> (x + k \<le> es * unat (tDimX (aType a)) \<or> tDimX t' \<le> tDimX (aType a)) \<longrightarrow>
         h_get h' (bptr (length (dHeap s)) x) k = h_get (dHeap s) (bptr b x) k)
    \<and> (tDimX (aType a) < tDimX t' \<longrightarrow>
         h_get h' (bptr (length (dHeap s)) (es * unat (tDimX (aType a)))) (es * (unat (tDimX t') - unat (tDimX (aType a))))
           = Some (replicate (es * (unat (tDimX t') - unat (tDimX (aType a)))) (Some 0)))"
proof -
  let ?t = "aType a" and ?b = "length (dHeap s)" and ?old = "tDimX (aType a)" and ?new = "tDimX t'"
  have a: "table_ok es ?t (bptr b 0) (aDrvState a)" "fits_table es ?t" "unat (aElementSizeBytes a) = es"
      "blk_len (dHeap s) b = Some (table_size es ?t)"
    using ok by (simp_all add: drv_alloc_ok_def)
  obtain l0 where l0: "lod_at (aDrvState a) 0 = Some l0" "lDimX l0 = ?old" "lMallocPtr l0 = bptr b 0"
    using table_level0[OF a(1,2)] by blast
  have len: "length (dsLod (aDrvState a)) = MAX_LOD" using a(1) by (simp add: table_ok_def)
  have fe: "fits_table (unat e') t'" using fits e(2) by simp
  obtain n d1 where t1: "AllocationBuildPointerTable (reElem R) a t' nullp = Some (n, a\<lparr>aDrvState := d1\<rparr>)"
      "unat n = table_size es t'" "table_ok es t' nullp d1"
    using pointer_table_spec[OF len e(1) fe yuv, of nullp] e(2) by auto
  have len1: "length (dsLod (aDrvState (a\<lparr>aDrvState := d1\<rparr>))) = MAX_LOD" using t1(3) by (simp add: table_ok_def)
  have yuv1: "aYuv (a\<lparr>aDrvState := d1\<rparr>) = 0 \<or> 1 < tLodCount t'" using yuv by simp
  obtain h1 where re: "h_realloc (dHeap s) (bptr b 0) (table_size es t') = Some (bptr ?b 0, h1)"
    and r: "blk_len h1 ?b = Some (table_size es t')"
      "\<forall>x k. x + k \<le> table_size es ?t \<and> x + k \<le> table_size es t' \<and> x < 2 ^ 64 \<longrightarrow>
         h_get h1 (bptr ?b x) k = h_get (dHeap s) (bptr b x) k"
      "\<forall>c. c \<noteq> b \<and> c \<noteq> ?b \<longrightarrow> blk_len h1 c = blk_len (dHeap s) c"
    using realloc_spec[OF a(4), of "table_size es t'"] by blast
  obtain n2 d2 where t2: "AllocationBuildPointerTable (reElem R) (a\<lparr>aDrvState := d1\<rparr>) t' (bptr ?b 0)
        = Some (n2, a\<lparr>aDrvState := d2\<rparr>)" "table_ok es t' (bptr ?b 0) d2"
    using pointer_table_spec[OF len1 e(1) fe yuv1, of "bptr ?b 0"] e(2) by auto
  obtain l2 where l2: "lod_at d2 0 = Some l2" "lMallocPtr l2 = bptr ?b 0"
    using table_level0[OF t2(2) fits] by blast
  have small: "table_size es t' < 2 ^ 32" by (rule table_size_less[OF fits])
  have lt64: "x < 2 ^ 64" if "x + k \<le> table_size es t'" for x k using that small by simp
  show ?thesis
  proof (cases "?old < ?new")
    case True
    have es: "unat (ucast (aElementSizeBytes a) :: u64) = es" using a(3) by simp
    obtain h' where ms: "h_memset h1 (ptr_add (bptr ?b 0) (ucast (aElementSizeBytes a) * ucast ?old)) 0
          (unat (ucast (aElementSizeBytes a) * ucast (?new - ?old) :: u64)) = Some h'"
      and h': "\<forall>x. blk_len h' x = blk_len h1 x"
        "h_get h' (bptr ?b (es * unat ?old)) (es * (unat ?new - unat ?old)) = Some (replicate (es * (unat ?new - unat ?old)) (Some 0))"
        "\<forall>p k. h_disjoint (bptr ?b (es * unat ?old)) (es * (unat ?new - unat ?old)) p k \<longrightarrow> h_get h' p k = h_get h1 p k"
      using memset_new_cells[OF r(1) row_in_table[OF fits] small True es] by blast
    have run: "rsdAllocationResize R a t' z s = Some (a\<lparr>aDrvState := d2\<rparr>, s\<lparr>dHeap := h'\<rparr>)"
      using l0 shared t1(1,2) re t2(1) True l2 ms by (simp add: rsdAllocationResize_def)
    have old: "es * unat ?old < 2 ^ 64" using row_in_table[OF a(2)] table_size_less[OF a(2)] by (intro lt32_lt64) linarith
    have "h_get h' (bptr ?b x) k = h_get (dHeap s) (bptr b x) k"
      if x: "x + k \<le> table_size es ?t" "x + k \<le> table_size es t'" "x + k \<le> es * unat ?old" for x k
    proof -
      have "h_disjoint (bptr ?b (es * unat ?old)) (es * (unat ?new - unat ?old)) (bptr ?b x) k"
        using x old lt64[OF x(2)] by (simp add: bptr_disjoint)
      then have "h_get h' (bptr ?b x) k = h_get h1 (bptr ?b x) k" by (rule h'(3)[rule_format])
      then show ?thesis using r(2) x lt64[OF x(2)] by simp
    qed
    then show ?thesis using run t2(2) h' r(1,3) True by (intro exI[of _ d2] exI[of _ h']) auto
  next
    case False
    have "rsdAllocationResize R a t' z s = Some (a\<lparr>aDrvState := d2\<rparr>, s\<lparr>dHeap := h1\<rparr>)"
      using l0 shared t1(1,2) re t2(1) False by (simp add: rsdAllocationResize_def)
    then show ?thesis using t2(2) r lt64 False by (intro exI[of _ d2] exI[of _ h1]) auto
  qed
qed

end
