(* ===== verification/Rs_Storage.thy ===== *)
theory Rs_Storage
  imports Rs_Allocation
begin

unbundle bit_operations_syntax

text \<open>
  The memory of all allocations of a context. The invariant \<open>store_ok\<close> says that every allocation
  has a table that the driver built for its type over a block of its own; the calls of the API
  (\<open>rsAllocation.cpp\<close>) are the steps of \<open>rsi_step\<close>, and each of them keeps the invariant. On top of
  it: resizing keeps cells, and three places at which the driver does not do what it should.
\<close>

section \<open>Elements and types of a context while an object is made\<close>

lemma new_odata:
  assumes "ObjectBase_new d c = Some (ob, c1)"
  shows "ob = length (mObjs c) \<and> (\<forall>x. odata c1 x = (if x = ob then Some d else odata c x))"
proof -
  let ?cell = "\<lparr>mSysRefCount = 0, mUserRefCount = 0, mNext = None, mPrev = None, mName = None, obj_data = d\<rparr>"
  let ?c0 = "c\<lparr>mObjs := mObjs c @ [Some ?cell]\<rparr>"
  from assms obtain s1 where ob: "ob = length (mObjs c)"
    and s1: "optr_upd (mObjHead (ocell_upd ob (\<lambda>c. c\<lparr>mNext := mObjHead ?c0\<rparr>) ?c0)) (\<lambda>c. c\<lparr>mPrev := Some ob\<rparr>)
        (ocell_upd ob (\<lambda>c. c\<lparr>mNext := mObjHead ?c0\<rparr>) ?c0) = Some s1"
    and c1: "c1 = s1\<lparr>mObjHead := Some ob\<rparr>"
    by (auto simp: ObjectBase_new_def ObjectBase_add_def Let_def bind_Some_iff)
  have "odata c1 x = odata ?c0 x" for x
    using optr_upd_same[OF s1] by (simp add: c1 odata_ocell_upd)
  then show ?thesis using ob by (auto simp: odata_def ocell_def nth_append)
qed

lemma ref_set_odata:
  assumes "ObjectBaseRef_set rs_vt None (Some x) c = Some (r, c1)" shows "odata c1 y = odata c y"
  using assms by (auto simp: ObjectBaseRef_set_def ObjectBaseRef_clear_def ObjectBaseRef_copy_def incSysRef_def
      bind_Some_iff odata_ocell_upd)

lemma put_odata: "odata (put_obj ob d c) x = (if x = ob \<and> odata c x \<noteq> None then Some d else odata c x)"
  by (auto simp: put_obj_def odata_def ocell_ocell_upd)

text \<open>The object of an allocation is neither an element nor a type.\<close>

lemma new_alloc_elems:
  assumes "ObjectBase_new (OOther []) c = Some (ob, c1)" and "ObjectBaseRef_set rs_vt None (Some tob) c1 = Some (r, c2)"
  shows "get_elem (put_obj ob (OOther [tob]) c2) = get_elem c"
proof
  fix x
  have "odata c ob = None" using new_odata[OF assms(1)] by (simp add: odata_def ocell_def)
  then show "get_elem (put_obj ob (OOther [tob]) c2) x = get_elem c x"
    using new_odata[OF assms(1)] ref_set_odata[OF assms(2)] by (auto simp: get_elem_odata put_odata)
qed

section \<open>The storage of all allocations\<close>

text \<open>Every allocation has a well-formed table over a block of its own.\<close>

definition store_ok :: "(nat \<Rightarrow> nat) \<Rightarrow> actx \<Rightarrow> bool" where
  "store_ok B ac \<longleftrightarrow>
     (\<forall>va a. acAllocs ac va = Some a \<longrightarrow> drv_alloc_ok (unat (aElementSizeBytes a)) (B va) a (dHeap (acSt ac)))
     \<and> inj_on B (dom (acAllocs ac))"

lemma store_okD: "store_ok B ac \<Longrightarrow> acAllocs ac va = Some a \<Longrightarrow> drv_alloc_ok (unat (aElementSizeBytes a)) (B va) a (dHeap (acSt ac))"
  by (simp add: store_ok_def)

lemma store_ok_shape:
  assumes "store_ok B ac" and "acAllocs ac' = acAllocs ac" and "same_shape (acSt ac) (acSt ac')"
  shows "store_ok B ac'"
  using assms by (auto simp: store_ok_def same_shape_def drv_alloc_ok_def)

lemma store_ok_put:
  assumes "store_ok B ac" and "acAllocs ac va = Some a" and "same_alloc a a'" and "same_shape (acSt ac) s'"
  shows "store_ok B (ac\<lparr>acSt := s', acAllocs := (acAllocs ac)(va := Some a')\<rparr>)"
proof -
  have "aElementSizeBytes a' = aElementSizeBytes a" using assms(3) by (auto simp: same_alloc_def)
  moreover have "drv_alloc_ok es b x (dHeap s')" if "drv_alloc_ok es b x (dHeap (acSt ac))" for es b x
    using drv_alloc_ok_same[OF that same_alloc_refl assms(4)] .
  moreover have "insert va (dom (acAllocs ac)) = dom (acAllocs ac)" using assms(2) by auto
  ultimately show ?thesis
    using assms drv_alloc_ok_same[OF store_okD[OF assms(1,2)] assms(3,4)] by (auto simp: store_ok_def)
qed

text \<open>An operation that keeps the storage as it is.\<close>

definition keeps_store :: "(actx \<Rightarrow> actx option) \<Rightarrow> bool" where
  "keeps_store f \<longleftrightarrow> (\<forall>B ac ac'. store_ok B ac \<longrightarrow> f ac = Some ac' \<longrightarrow> store_ok B ac')"

named_theorems stores

lemma keeps_storeD: "keeps_store f \<Longrightarrow> store_ok B ac \<Longrightarrow> f ac = Some ac' \<Longrightarrow> store_ok B ac'"
  by (auto simp: keeps_store_def)

lemma with_alloc_store:
  assumes "\<And>ac a s a' s'. f ac a s = Some (a', s') \<Longrightarrow> same_alloc a a' \<and> same_shape s s'"
  shows "keeps_store (\<lambda>ac. with_alloc va (f ac) ac)"
  by (auto simp: keeps_store_def with_alloc_def bind_Some_iff intro!: store_ok_put dest!: assms)

lemma read_alloc_store:
  assumes "\<And>ac a s s'. f ac a s = Some s' \<Longrightarrow> same_shape s s'"
  shows "keeps_store (\<lambda>ac. read_alloc va (f ac) ac)"
  by (auto simp: keeps_store_def read_alloc_def bind_Some_iff intro: store_ok_shape dest!: assms)

lemma for_upto_store:
  assumes "\<And>i. keeps_store (f i)"
  shows "keeps_store (for_upto i n f)"
proof -
  have "store_ok B ac'" if "store_ok B ac" "for_upto i n f ac = Some ac'" for B ac ac'
    using that
  proof (induction n arbitrary: i ac)
    case (Suc n)
    show ?case using Suc.prems Suc.IH assms by (auto simp: bind_Some_iff dest: keeps_storeD)
  qed simp
  then show ?thesis by (auto simp: keeps_store_def)
qed

lemma rsi_writes_store [stores]:
  "keeps_store (rsi_Allocation1DData fuel va x lod n data sz)"
  "keeps_store (rsi_Allocation2DData fuel va x y lod face w h data sz st)"
  "keeps_store (rsi_Allocation3DData fuel va x y z lod w h d data sz st)"
  "keeps_store (rsi_Allocation1DElementData fuel va x data sz eoff)"
  "keeps_store (rsi_Allocation2DElementData fuel va x y data sz eoff)"
  unfolding rsi_Allocation1DData_def rsi_Allocation2DData_def rsi_Allocation3DData_def rsi_Allocation1DElementData_def
    rsi_Allocation2DElementData_def
  by (rule with_alloc_store; blast dest: keeps)+

lemma rsi_sync_store [stores]: "keeps_store (rsi_AllocationSyncAll fuel va src)"
  unfolding rsi_AllocationSyncAll_def
  by (rule with_alloc_store) (auto simp: bind_Some_iff dest!: keeps intro: same_alloc_trans)

lemma sendDirty_store [stores]: "keeps_store (with_alloc ob (\<lambda>a s. do { a1 \<leftarrow> sendDirty a; Some (a1, s) }))"
  by (rule with_alloc_store[of "\<lambda>ac a s. do { a1 \<leftarrow> sendDirty a; Some (a1, s) }"]) (auto simp: bind_Some_iff dest!: keeps)

lemma rsi_reads_store [stores]:
  "keeps_store (rsi_AllocationGenerateMipmaps fuel va)"
  "keeps_store (rsi_AllocationCopyToBitmap va data sz)"
  "keeps_store (rsi_AllocationRead fuel va data sz)"
  "keeps_store (rsi_Allocation1DRead fuel va x lod n data sz)"
  "keeps_store (rsi_Allocation2DRead va x y lod face w h data sz st)"
  unfolding rsi_AllocationGenerateMipmaps_def rsi_AllocationCopyToBitmap_def rsi_AllocationRead_def
    rsi_Allocation1DRead_def rsi_Allocation2DRead_def
  by (rule read_alloc_store; auto dest: keeps split: if_splits)+

lemma rsi_copies_store [stores]:
  "keeps_store (rsi_AllocationCopy2DRange fuel d x y m f w h va x' y' m' f')"
  "keeps_store (rsi_AllocationCopy3DRange fuel d x y z m w h dp va x' y' z' m')"
  by (auto simp: keeps_store_def rsi_AllocationCopy2DRange_def rsi_AllocationCopy3DRange_def bind_Some_iff
      intro: store_ok_shape dest!: keeps)

lemma rsi_resize2_store [stores]: "keeps_store (rsi_AllocationResize2D va x y)"
  by (auto simp: keeps_store_def rsi_AllocationResize2D_def intro: store_ok_shape)
section \<open>New, moved and removed blocks\<close>

lemma ok_block: "drv_alloc_ok es b a h \<Longrightarrow> b < length h"
  by (auto simp: drv_alloc_ok_def blk_len_def split: if_splits)

lemma drv_alloc_ok_block:
  "drv_alloc_ok es b a h \<Longrightarrow> blk_len h' b = blk_len h b \<Longrightarrow> drv_alloc_ok es b a h'"
  by (simp add: drv_alloc_ok_def)

text \<open>One allocation gets a new block; the blocks of the others stay.\<close>

lemma store_ok_move:
  assumes ok: "store_ok B ac" and a: "drv_alloc_ok (unat (aElementSizeBytes a')) b' a' (dHeap s')"
    and new: "length (dHeap (acSt ac)) \<le> b'"
    and keep: "\<And>v x. acAllocs ac v = Some x \<Longrightarrow> v \<noteq> va \<Longrightarrow> blk_len (dHeap s') (B v) = blk_len (dHeap (acSt ac)) (B v)"
  shows "store_ok (B(va := b')) (ac\<lparr>acSt := s', acAllocs := (acAllocs ac)(va := Some a')\<rparr>)"
proof -
  have lt: "B v < b'" if "acAllocs ac v = Some x" for v x
    using ok_block[OF store_okD[OF ok that]] new by simp
  have "inj_on (B(va := b')) (insert va (dom (acAllocs ac)))"
  proof (rule inj_onI)
    fix x y assume "x \<in> insert va (dom (acAllocs ac))" "y \<in> insert va (dom (acAllocs ac))"
      and e: "(B(va := b')) x = (B(va := b')) y"
    then show "x = y" using ok lt unfolding store_ok_def inj_on_def by (auto split: if_splits dest: less_imp_neq)
  qed
  moreover have "drv_alloc_ok (unat (aElementSizeBytes x)) (B v) x (dHeap s')" if "acAllocs ac v = Some x" "v \<noteq> va" for v x
    using drv_alloc_ok_block[OF store_okD[OF ok that(1)] keep[OF that]] .
  ultimately show ?thesis using a by (auto simp: store_ok_def)
qed

lemma destroy_store:
  assumes ok: "store_ok B ac" and a: "acAllocs ac va = Some a"
    and run: "Allocation_destroy R a (acSt ac) = Some (a', s')"
  shows "store_ok B (ac\<lparr>acSt := s', acAllocs := (acAllocs ac)(va := None)\<rparr>)"
proof -
  from run obtain s1 where s1: "freeChildrenUnlocked R a (acSt ac) = Some s1"
    and d: "rsdAllocationDestroy a s1 = Some (a', s')" by (auto simp: Allocation_destroy_def bind_Some_iff)
  have sh: "same_shape (acSt ac) s1"
    using s1 by (auto simp: freeChildrenUnlocked_def bind_Some_iff dest: keeps)
  have t: "table_ok (unat (aElementSizeBytes a)) (aType a) (bptr (B va) 0) (aDrvState a)"
      "fits_table (unat (aElementSizeBytes a)) (aType a)"
    using store_okD[OF ok a] by (simp_all add: drv_alloc_ok_def)
  have b0: "bptr (B va) 0 = (Some (B va), 0)" by (simp add: bptr_def)
  have h: "blk_len (dHeap s') c = blk_len (dHeap s1) c" if "c \<noteq> B va" for c
    using d that table_level0[OF t] h_free_blk_len[of "dHeap s1" "B va" _ c]
    by (auto simp: rsdAllocationDestroy_def bind_Some_iff b0 split: if_splits)
  have ne: "B v \<noteq> B va" if "acAllocs ac v = Some x" "v \<noteq> va" for v x
    using ok that a by (auto simp: store_ok_def inj_on_def dom_def)
  have "drv_alloc_ok (unat (aElementSizeBytes x)) (B v) x (dHeap s')" if "acAllocs ac v = Some x" "v \<noteq> va" for v x
    using drv_alloc_ok_block[OF store_okD[OF ok that(1)]] h[OF ne[OF that]] sh by (simp add: same_shape_def)
  then show ?thesis using ok by (auto simp: store_ok_def inj_on_diff)
qed

text \<open>The conditions on the type of a new allocation and on its usage.\<close>

definition creatable :: "elem_env \<Rightarrow> rstype \<Rightarrow> u32 \<Rightarrow> bool" where
  "creatable E t usages \<longleftrightarrow>
     (case getElementSizeBytes E t of None \<Rightarrow> False | Some es \<Rightarrow> unat es < 2 ^ 32 \<and> fits_table (unat es) t)
     \<and> usages AND RS_ALLOCATION_USAGE_IO_INPUT = 0 \<and> usages AND RS_ALLOCATION_USAGE_IO_OUTPUT = 0
     \<and> (tDimYuv t = 0 \<or> 1 < tLodCount t)"
lemma blk_len_get:
  "blk_len h b = Some n \<longleftrightarrow> h_get h (Some b, 0) n \<noteq> None \<and> h_get h (Some b, 0) (Suc n) = None"
  by (auto simp: blk_len_def h_get_def h_block_def mem_get_def bind_Some_iff split: option.splits if_splits)

lemma blk_len_cong:
  assumes "\<And>k. h_get h' (Some b, 0) k = h_get h (Some b, 0) k" shows "blk_len h' b = blk_len h b"
proof -
  have "blk_len h' b = Some n \<longleftrightarrow> blk_len h b = Some n" for n by (simp only: blk_len_get assms)
  then show ?thesis by (metis not_None_eq)
qed

lemma same_shape_setError1 [simp]: "same_shape (setError e s) s' \<longleftrightarrow> same_shape s s'"
  by (simp add: setError_def same_shape_def)

lemma Allocation_new_spec:
  assumes "creatable E t usages"
  shows "\<exists>a es. Allocation_new E tob t usages mc nullp = Some a \<and> getElementSizeBytes E t = Some es
    \<and> plain_alloc a \<and> aType a = t \<and> fits_table (unat es) t \<and> unat (aElementSizeBytes a) = unat es"
proof -
  obtain es where es: "getElementSizeBytes E t = Some es" "unat es < 2 ^ 32" "fits_table (unat es) t"
    using assms by (auto simp: creatable_def split: option.splits)
  then obtain ob e where e: "tElement t = Some ob" "E ob = Some e" by (auto simp: getElementSizeBytes_def bind_Some_iff)
  have "unat (ucast es :: u32) = unat es" using es(2) by (simp add: unsigned_ucast_eq take_bit_nat_eq_self)
  then show ?thesis
    using assms es e by (auto simp: Allocation_new_def updateCache_def plain_alloc_def has_usage_def creatable_def
        drvstate_zero_def)
qed

text \<open>\<open>createAllocation\<close> on such a type: a new block for the allocation, or null and nothing changed
  in memory.\<close>

lemma createAllocation_spec:
  assumes ok: "creatable (reElem R) t usages" and run: "createAllocation avail objmem R tob t usages mc nullp s = Some (res, s')"
  shows "(case res of
      Some a \<Rightarrow> drv_alloc_ok (unat (aElementSizeBytes a)) (length (dHeap s)) a (dHeap s')
        \<and> (\<forall>c. c \<noteq> length (dHeap s) \<longrightarrow> blk_len (dHeap s') c = blk_len (dHeap s) c)
    | None \<Rightarrow> same_shape s s')"
proof (cases objmem)
  case True
  obtain a es where a: "Allocation_new (reElem R) tob t usages mc nullp = Some a" "getElementSizeBytes (reElem R) (aType a) = Some es"
      "plain_alloc a" "fits_table (unat es) (aType a)" "unat (aElementSizeBytes a) = unat es"
    using Allocation_new_spec[OF ok] by metis
  show ?thesis
  proof (cases "avail (table_size (unat es) (aType a))")
    case av: True
    obtain d dv h where i: "rsdAllocationInit avail R a (aHasReferences a) s
          = Some (True, a\<lparr>aDrvState := d, aDrv := Some dv\<rparr>, s\<lparr>dHeap := h\<rparr>)"
        "drv_alloc_ok (unat es) (length (dHeap s)) (a\<lparr>aDrvState := d, aDrv := Some dv\<rparr>) h"
        "\<forall>p k. fst p \<noteq> Some (length (dHeap s)) \<longrightarrow> h_get h p k = h_get (dHeap s) p k"
      using Init_spec[of a R es avail, OF a(3,2,4,5) av] by blast
    have "blk_len h c = blk_len (dHeap s) c" if "c \<noteq> length (dHeap s)" for c
      using i(3) that by (intro blk_len_cong) auto
    then show ?thesis using run True a i(1,2) by (auto simp: createAllocation_def)
  next
    case False
    obtain d where i: "rsdAllocationInit avail R a (aHasReferences a) s = Some (False, a\<lparr>aDrvState := d, aDrv := None\<rparr>, s)"
        "table_ok (unat es) (aType a) nullp d"
      using Init_no_memory[of a R es avail, OF a(3,2,4) False] by blast
    have l: "lod_at d 0 = Some l \<Longrightarrow> lMallocPtr l = nullp" for l
      using i(2) a(4) by (auto simp: table_ok_def lod_at_def level_off_def fits_table_def split: if_splits)
    show ?thesis using run True a(1) i(1)
      by (auto simp: createAllocation_def Allocation_destroy_def rsdAllocationDestroy_def freeChildrenUnlocked_def bind_Some_iff
          dest!: l keeps)
  qed
qed (use run in \<open>auto simp: createAllocation_def\<close>)

lemma Allocation_create_store:
  assumes ok: "store_ok B ac" and t: "get_type (dRefs (acSt ac)) tob = Some t" "creatable (get_elem (dRefs (acSt ac))) t usages"
    and run: "Allocation_create avail objmem fuel tob usages mc nullp ac = Some (r, ac')"
  shows "\<exists>B'. store_ok B' ac'"
proof (cases objmem)
  case True
  from run True t(1) obtain ob c1 r1 c2 res s1 where c1: "ObjectBase_new (OOther []) (dRefs (acSt ac)) = Some (ob, c1)"
    and c2: "ObjectBaseRef_set rs_vt None (Some tob) c1 = Some (r1, c2)"
    and cr: "createAllocation avail True (ctx_renv fuel (put_obj ob (OOther [tob]) c2)) tob t usages mc nullp
        ((acSt ac)\<lparr>dRefs := put_obj ob (OOther [tob]) c2\<rparr>) = Some (res, s1)"
    and fin: "(case res of
                  Some a \<Rightarrow> Some (Some ob, ac\<lparr>acSt := s1, acAllocs := (acAllocs ac)(ob := Some a)\<rparr>)
                | None \<Rightarrow> do { (r', c4) \<leftarrow> ObjectBaseRef_clear rs_vt (Some tob) (dRefs s1);
                              c5 \<leftarrow> ObjectBase_destroy ob c4;
                              Some (None, ac\<lparr>acSt := s1\<lparr>dRefs := c5\<rparr>\<rparr>) }) = Some (r, ac')"
    by (auto simp: Allocation_create_def Let_def bind_Some_iff)
  have "creatable (reElem (ctx_renv fuel (put_obj ob (OOther [tob]) c2))) t usages"
    using t(2) new_alloc_elems[OF c1 c2] by (simp add: ctx_renv_def)
  note spec = createAllocation_spec[OF this cr]
  show ?thesis
  proof (cases res)
    case (Some a)
    have "B v \<noteq> length (dHeap (acSt ac))" if "acAllocs ac v = Some x" for v x
      using ok_block[OF store_okD[OF ok that]] by simp
    then have "store_ok (B(ob := length (dHeap (acSt ac)))) ac'"
      using spec fin Some by (auto intro!: store_ok_move[OF ok])
    then show ?thesis by blast
  next
    case None
    then have "store_ok B ac'"
      using spec fin by (auto simp: bind_Some_iff same_shape_def intro: store_ok_shape[OF ok])
    then show ?thesis by blast
  qed
next
  case False
  have "store_ok B ac'" using run False by (auto simp: Allocation_create_def intro: store_ok_shape[OF ok])
  then show ?thesis by blast
qed

lemma store_ok_refs: "store_ok B (ac\<lparr>acSt := (acSt ac)\<lparr>dRefs := c\<rparr>\<rparr>) = store_ok B ac"
  by (simp add: store_ok_def)

lemma CreateTyped_store:
  assumes "store_ok B ac" and "get_type (dRefs (acSt ac)) tob = Some t" "creatable (get_elem (dRefs (acSt ac))) t usages"
    and "rsi_AllocationCreateTyped avail objmem fuel tob mc usages nullp ac = Some (r, ac')"
  shows "\<exists>B'. store_ok B' ac'"
  using assms(4) Allocation_create_store[OF assms(1-3)]
  by (auto simp: rsi_AllocationCreateTyped_def bind_Some_iff store_ok_refs split: option.splits; blast)

text \<open>Creation from a bitmap: the cells are filled, then the mipmaps.\<close>

lemma fill_store:
  assumes "keeps_store g" and "store_ok B ac1" and "g ac1 = Some ac2"
    and "(if m then rsi_AllocationGenerateMipmaps fuel ob ac2 else Some ac2) = Some ac3"
    and "with_alloc ob (\<lambda>a s. do { a1 \<leftarrow> sendDirty a; Some (a1, s) }) ac3 = Some ac'"
  shows "\<exists>B. store_ok B ac'"
proof -
  have "store_ok B ac2" by (rule keeps_storeD[OF assms(1-3)])
  then have "store_ok B ac3"
    using assms(4) keeps_storeD[OF rsi_reads_store(1)] by (auto split: if_splits)
  then show ?thesis using keeps_storeD[OF sendDirty_store _ assms(5)] by blast
qed

lemma CreateFromBitmap_store:
  assumes "store_ok B ac" and "get_type (dRefs (acSt ac)) tob = Some t" "creatable (get_elem (dRefs (acSt ac))) t usages"
    and "rsi_AllocationCreateFromBitmap avail objmem fuel tob mc data sz usages ac = Some (r, ac')"
  shows "\<exists>B'. store_ok B' ac'"
proof -
  from assms(2,4) obtain r1 ac1 where 1: "rsi_AllocationCreateTyped avail objmem fuel tob mc usages nullp ac = Some (r1, ac1)"
    and 2: "r1 = None \<Longrightarrow> ac' = ac1"
    and 3: "\<And>ob. r1 = Some ob \<Longrightarrow> \<exists>ac2 ac3. rsi_Allocation2DData fuel ob 0 0 0 0 (tDimX t) (tDimY t) data sz 0 ac1 = Some ac2
        \<and> (if mc = RS_ALLOCATION_MIPMAP_FULL then rsi_AllocationGenerateMipmaps fuel ob ac2 else Some ac2) = Some ac3
        \<and> with_alloc ob (\<lambda>a s. do { a1 \<leftarrow> sendDirty a; Some (a1, s) }) ac3 = Some ac'"
    by (auto simp: rsi_AllocationCreateFromBitmap_def bind_Some_iff split: option.splits)
  obtain B' where B: "store_ok B' ac1" using CreateTyped_store[OF assms(1-3) 1] by blast
  show ?thesis
  proof (cases r1)
    case (Some ob)
    show ?thesis using 3[OF Some] fill_store[OF rsi_writes_store(2) B] by blast
  qed (use B 2 in auto)
qed
lemma CubeCreateFromBitmap_store:
  assumes "store_ok B ac" and "get_type (dRefs (acSt ac)) tob = Some t" "creatable (get_elem (dRefs (acSt ac))) t usages"
    and "rsi_AllocationCubeCreateFromBitmap avail objmem fuel tob mc data sz usages ac = Some (r, ac')"
  shows "\<exists>B'. store_ok B' ac'"
proof -
  let ?f = "\<lambda>ob cs ss face. for_upto 0 (unat (tDimX t)) (\<lambda>dI.
       rsi_Allocation2DData fuel ob 0 (of_nat dI) 0 (of_nat face) (tDimX t) 1
         (ptr_add (ptr_add data (of_nat face * ucast (cs :: u32))) (ucast (ss * of_nat dI :: u32))) (ucast cs) 0)"
  from assms(2,4) obtain r1 ac1 where 1: "rsi_AllocationCreateTyped avail objmem fuel tob mc usages nullp ac = Some (r1, ac1)"
    and 2: "r1 = None \<Longrightarrow> ac' = ac1"
    and 3: "\<And>ob. r1 = Some ob \<Longrightarrow> \<exists>cs ss ac2 ac3. for_upto 0 6 (?f ob cs ss) ac1 = Some ac2
        \<and> (if mc = RS_ALLOCATION_MIPMAP_FULL then rsi_AllocationGenerateMipmaps fuel ob ac2 else Some ac2) = Some ac3
        \<and> with_alloc ob (\<lambda>a s. do { a1 \<leftarrow> sendDirty a; Some (a1, s) }) ac3 = Some ac'"
    by (auto simp: rsi_AllocationCubeCreateFromBitmap_def Let_def bind_Some_iff split: option.splits) blast
  obtain B' where B: "store_ok B' ac1" using CreateTyped_store[OF assms(1-3) 1] by blast
  show ?thesis
  proof (cases r1)
    case (Some ob)
    have "keeps_store (for_upto 0 6 (?f ob cs ss))" for cs ss
      by (intro for_upto_store rsi_writes_store)
    then show ?thesis using 3[OF Some] fill_store[OF _ B] by blast
  qed (use B 2 in auto)
qed

text \<open>The conditions under which a resize keeps the cells: memory of the driver's own, and a resized
  type with the same element that fits the table.\<close>

definition resizable :: "elem_env \<Rightarrow> allocation \<Rightarrow> rstype \<Rightarrow> bool" where
  "resizable E a t \<longleftrightarrow>
     \<not> has_usage a RS_ALLOCATION_USAGE_SHARED \<and> aYuv a = 0 \<and> fits_table (unat (aElementSizeBytes a)) t
     \<and> getElementSizeBytes E t = Some (ucast (aElementSizeBytes a))"

lemma ucast_u32_u64_back [simp]: "(ucast (ucast (x :: u32) :: u64) :: u32) = x"
  by (rule bit_word_eqI) (auto simp: bit_simps)

lemma decRefs_heap: "Allocation_decRefs R a p ct o' s = Some s' \<Longrightarrow> dHeap s' = dHeap s"
  by (auto simp: Allocation_decRefs_def bind_Some_iff split: if_splits)

lemma resize1D_runs:
  assumes ok: "drv_alloc_ok (unat (aElementSizeBytes a)) b a (dHeap s)" and re: "resizable (reElem R) a t"
    and run: "Allocation_resize1D R a tob t dimX s = Some (a', s')" and ne: "dimX \<noteq> tDimX (aType a)"
  shows "aType a' = t \<and> aElementSizeBytes a' = aElementSizeBytes a
    \<and> drv_alloc_ok (unat (aElementSizeBytes a)) (length (dHeap s)) a' (dHeap s')
    \<and> (\<forall>c. c \<noteq> b \<and> c \<noteq> length (dHeap s) \<longrightarrow> blk_len (dHeap s') c = blk_len (dHeap s) c)
    \<and> (\<forall>x k. x + k \<le> table_size (unat (aElementSizeBytes a)) (aType a) \<and> x + k \<le> table_size (unat (aElementSizeBytes a)) t
         \<and> (x + k \<le> unat (aElementSizeBytes a) * unat (tDimX (aType a)) \<or> tDimX t \<le> tDimX (aType a)) \<longrightarrow>
         h_get (dHeap s') (bptr (length (dHeap s)) x) k = h_get (dHeap s) (bptr b x) k)
    \<and> (tDimX (aType a) < tDimX t \<longrightarrow>
         h_get (dHeap s') (bptr (length (dHeap s)) (unat (aElementSizeBytes a) * unat (tDimX (aType a))))
             (unat (aElementSizeBytes a) * (unat (tDimX t) - unat (tDimX (aType a))))
           = Some (replicate (unat (aElementSizeBytes a) * (unat (tDimX t) - unat (tDimX (aType a)))) (Some 0)))"
proof -
  let ?es = "unat (aElementSizeBytes a)"
  have t: "table_ok ?es (aType a) (bptr b 0) (aDrvState a)" "fits_table ?es (aType a)"
    using ok by (simp_all add: drv_alloc_ok_def)
  from table_level0[OF t] run ne obtain s1 a1 where s1: "dHeap s1 = dHeap s"
    and r: "rsdAllocationResize R a t (aHasReferences a) s1 = Some (a1, s')"
    and u: "updateCache (reElem R) (a1\<lparr>aType := t, aTypeOb := Some tob\<rparr>) = Some a'"
    by (auto simp: Allocation_resize1D_def Let_def bind_Some_iff split: if_splits dest!: decRefs_heap)
  have ok1: "drv_alloc_ok ?es b a (dHeap s1)" using ok s1 by simp
  have shared: "\<not> has_usage a RS_ALLOCATION_USAGE_SHARED" and yuv: "aYuv a = 0 \<or> 1 < tLodCount t"
    and e: "getElementSizeBytes (reElem R) t = Some (ucast (aElementSizeBytes a))" and fits: "fits_table ?es t"
    using re by (simp_all add: resizable_def)
  have es: "unat (ucast (aElementSizeBytes a) :: u64) = ?es" by simp
  from Resize_spec[OF ok1 shared e es fits yuv, of "aHasReferences a", unfolded s1] obtain d h' where
    d: "a1 = a\<lparr>aDrvState := d\<rparr>" "s' = s1\<lparr>dHeap := h'\<rparr>" and rest:
      "table_ok ?es t (bptr (length (dHeap s)) 0) d" "blk_len h' (length (dHeap s)) = Some (table_size ?es t)"
      "\<forall>c. c \<noteq> b \<and> c \<noteq> length (dHeap s) \<longrightarrow> blk_len h' c = blk_len (dHeap s) c"
      "\<forall>x k. x + k \<le> table_size ?es (aType a) \<and> x + k \<le> table_size ?es t
         \<and> (x + k \<le> ?es * unat (tDimX (aType a)) \<or> tDimX t \<le> tDimX (aType a)) \<longrightarrow>
         h_get h' (bptr (length (dHeap s)) x) k = h_get (dHeap s) (bptr b x) k"
      "tDimX (aType a) < tDimX t \<longrightarrow>
         h_get h' (bptr (length (dHeap s)) (?es * unat (tDimX (aType a)))) (?es * (unat (tDimX t) - unat (tDimX (aType a))))
           = Some (replicate (?es * (unat (tDimX t) - unat (tDimX (aType a)))) (Some 0))"
    using r by auto
  have "aType a' = t \<and> aElementSizeBytes a' = aElementSizeBytes a \<and> aDrvState a' = d \<and> aDrv a' = aDrv a"
    using u d(1) e by (auto simp: updateCache_def bind_Some_iff)
  then show ?thesis using rest d(2) ok fits by (simp add: drv_alloc_ok_def)
qed

lemma resize_store:
  assumes ok: "store_ok B ac" and a: "acAllocs ac va = Some a"
    and c: "Type_cloneAndResize1D (aType a) dimX (dRefs (acSt ac)) = Some (tob, c1)" "get_type c1 tob = Some t"
    and re: "resizable (get_elem c1) a t"
    and run: "rsi_AllocationResize1D fuel va dimX ac = Some ac'"
  shows "\<exists>B'. store_ok B' ac'"
proof -
  note aok = store_okD[OF ok a]
  obtain l0 where l0: "lod_at (aDrvState a) 0 = Some l0" "lDimX l0 = tDimX (aType a)"
    using table_level0[of "unat (aElementSizeBytes a)" "aType a"] aok by (auto simp: drv_alloc_ok_def)
  show ?thesis
  proof (cases "dimX = tDimX (aType a)")
    case False
    let ?s = "(acSt ac)\<lparr>dRefs := c1\<rparr>" and ?R = "ctx_renv fuel c1" and ?b' = "length (dHeap (acSt ac))"
    from run a l0 c False obtain a2 s2 c4 where r: "Allocation_resize1D ?R a tob t dimX ?s = Some (a2, s2)"
      and ac': "ac' = ac\<lparr>acSt := s2\<lparr>dRefs := c4\<rparr>, acAllocs := (acAllocs ac)(va := Some a2)\<rparr>"
      by (auto simp: rsi_AllocationResize1D_def Let_def bind_Some_iff)
    have aok': "drv_alloc_ok (unat (aElementSizeBytes a)) (B va) a (dHeap ?s)" and re': "resizable (reElem ?R) a t"
      using aok re by (simp_all add: ctx_renv_def)
    have new: "drv_alloc_ok (unat (aElementSizeBytes a2)) ?b' a2 (dHeap s2)"
      and keep: "\<forall>c. c \<noteq> B va \<and> c \<noteq> ?b' \<longrightarrow> blk_len (dHeap s2) c = blk_len (dHeap (acSt ac)) c"
      using resize1D_runs[OF aok' re' r False] by simp_all
    have "B v \<noteq> B va \<and> B v \<noteq> ?b'" if "acAllocs ac v = Some x" "v \<noteq> va" for v x
      using ok_block[OF store_okD[OF ok that(1)]] ok that a by (auto simp: store_ok_def inj_on_def dom_def)
    then have "store_ok (B(va := ?b')) ac'" using new keep unfolding ac' by (intro store_ok_move[OF ok]) auto
    then show ?thesis by blast
  qed (use run a l0 ok in \<open>auto simp: rsi_AllocationResize1D_def\<close>)
qed
section \<open>The entry points as steps\<close>

text \<open>The calls a client can make, for the allocations it holds. A new allocation must be
  \<open>creatable\<close>, which leaves out user pointers, IO usages and YUV planes, and a resized one \<open>resizable\<close>,
  which leaves out shared memory and YUV planes; every other call is taken with whatever arguments it has,
  as far as it returns.\<close>

inductive rsi_step :: "(nat \<Rightarrow> bool) \<Rightarrow> nat \<Rightarrow> actx \<Rightarrow> actx \<Rightarrow> bool" for avail fuel where
  create_typed: "get_type (dRefs (acSt ac)) vt = Some t \<Longrightarrow> creatable (get_elem (dRefs (acSt ac))) t usages \<Longrightarrow>
    rsi_AllocationCreateTyped avail objmem fuel vt mc usages nullp ac = Some (r, ac') \<Longrightarrow> rsi_step avail fuel ac ac'"
| create_bitmap: "get_type (dRefs (acSt ac)) vt = Some t \<Longrightarrow> creatable (get_elem (dRefs (acSt ac))) t usages \<Longrightarrow>
    rsi_AllocationCreateFromBitmap avail objmem fuel vt mc data sz usages ac = Some (r, ac') \<Longrightarrow> rsi_step avail fuel ac ac'"
| create_cube: "get_type (dRefs (acSt ac)) vt = Some t \<Longrightarrow> creatable (get_elem (dRefs (acSt ac))) t usages \<Longrightarrow>
    rsi_AllocationCubeCreateFromBitmap avail objmem fuel vt mc data sz usages ac = Some (r, ac') \<Longrightarrow> rsi_step avail fuel ac ac'"
| data1: "rsi_Allocation1DData fuel va x lod n data sz ac = Some ac' \<Longrightarrow> rsi_step avail fuel ac ac'"
| data2: "rsi_Allocation2DData fuel va x y lod face w h data sz st ac = Some ac' \<Longrightarrow> rsi_step avail fuel ac ac'"
| data3: "rsi_Allocation3DData fuel va x y z lod w h d data sz st ac = Some ac' \<Longrightarrow> rsi_step avail fuel ac ac'"
| element1: "rsi_Allocation1DElementData fuel va x data sz eoff ac = Some ac' \<Longrightarrow> rsi_step avail fuel ac ac'"
| element2: "rsi_Allocation2DElementData fuel va x y data sz eoff ac = Some ac' \<Longrightarrow> rsi_step avail fuel ac ac'"
| sync: "rsi_AllocationSyncAll fuel va src ac = Some ac' \<Longrightarrow> rsi_step avail fuel ac ac'"
| mipmaps: "rsi_AllocationGenerateMipmaps fuel va ac = Some ac' \<Longrightarrow> rsi_step avail fuel ac ac'"
| to_bitmap: "rsi_AllocationCopyToBitmap va data sz ac = Some ac' \<Longrightarrow> rsi_step avail fuel ac ac'"
| read: "rsi_AllocationRead fuel va data sz ac = Some ac' \<Longrightarrow> rsi_step avail fuel ac ac'"
| read1: "rsi_Allocation1DRead fuel va x lod n data sz ac = Some ac' \<Longrightarrow> rsi_step avail fuel ac ac'"
| read2: "rsi_Allocation2DRead va x y lod face w h data sz st ac = Some ac' \<Longrightarrow> rsi_step avail fuel ac ac'"
| copy2: "rsi_AllocationCopy2DRange fuel dst x y m f w h src x' y' m' f' ac = Some ac' \<Longrightarrow> rsi_step avail fuel ac ac'"
| copy3: "rsi_AllocationCopy3DRange fuel dst x y z m w h d src x' y' z' m' ac = Some ac' \<Longrightarrow> rsi_step avail fuel ac ac'"
| resize1: "acAllocs ac va = Some a \<Longrightarrow> Type_cloneAndResize1D (aType a) dimX (dRefs (acSt ac)) = Some (tob, c1) \<Longrightarrow>
    get_type c1 tob = Some t \<Longrightarrow> resizable (get_elem c1) a t \<Longrightarrow>
    rsi_AllocationResize1D fuel va dimX ac = Some ac' \<Longrightarrow> rsi_step avail fuel ac ac'"
| resize2: "rsi_AllocationResize2D va x y ac = Some ac' \<Longrightarrow> rsi_step avail fuel ac ac'"
| destroy: "acAllocs ac va = Some a \<Longrightarrow> Allocation_destroy (ac_renv fuel ac) a (acSt ac) = Some (a', s') \<Longrightarrow>
    rsi_step avail fuel ac (ac\<lparr>acSt := s', acAllocs := (acAllocs ac)(va := None)\<rparr>)"

lemma step_store:
  assumes "rsi_step avail fuel ac ac'" and "store_ok B ac" shows "\<exists>B'. store_ok B' ac'"
  using assms
proof (induction rule: rsi_step.induct)
  case (create_typed ac vt t usages objmem mc r ac')
  show ?case by (rule CreateTyped_store[OF create_typed.prems create_typed.hyps])
next
  case (create_bitmap ac vt t usages objmem mc data sz r ac')
  show ?case by (rule CreateFromBitmap_store[OF create_bitmap.prems create_bitmap.hyps])
next
  case (create_cube ac vt t usages objmem mc data sz r ac')
  show ?case by (rule CubeCreateFromBitmap_store[OF create_cube.prems create_cube.hyps])
next
  case (resize1 ac va a dimX tob c1 t ac')
  show ?case by (rule resize_store[OF resize1.prems resize1.hyps])
next
  case (destroy ac va a a' s')
  show ?case using destroy_store[OF destroy.prems destroy.hyps] by blast
qed (rule exI, erule (1) stores[THEN keeps_storeD, rotated])+

lemma steps_store:
  assumes "(rsi_step avail fuel)\<^sup>*\<^sup>* ac ac'" and "store_ok B ac" shows "\<exists>B'. store_ok B' ac'"
  using assms by (induction rule: rtranclp_induct) (blast dest: step_store)+

lemma store_cells:
  assumes "store_ok B ac" and "acAllocs ac va = Some a" and "acAllocs ac vb = Some a'"
    and "in_cells (aType a) c" and "in_cells (aType a') c'" and "(va, c) \<noteq> (vb, c')"
  shows "\<exists>p q. cell_ptr a c = Some p \<and> cell_ptr a' c' = Some q
    \<and> h_get (dHeap (acSt ac)) p (unat (aElementSizeBytes a)) \<noteq> None
    \<and> h_get (dHeap (acSt ac)) q (unat (aElementSizeBytes a')) \<noteq> None
    \<and> h_disjoint p (unat (aElementSizeBytes a)) q (unat (aElementSizeBytes a'))"
proof -
  let ?p = "bptr (B va) (cell_off (unat (aElementSizeBytes a)) (aType a) c)"
  let ?q = "bptr (B vb) (cell_off (unat (aElementSizeBytes a')) (aType a') c')"
  note la = cell_located[OF store_okD[OF assms(1,2)] assms(4)]
  note lb = cell_located[OF store_okD[OF assms(1,3)] assms(5)]
  have "h_disjoint ?p (unat (aElementSizeBytes a)) ?q (unat (aElementSizeBytes a'))"
  proof (cases "va = vb")
    case True
    then have "c \<noteq> c'" "a' = a" using assms(2,3,6) by auto
    then show ?thesis
      using cells_disjoint[OF assms(4) _ \<open>c \<noteq> c'\<close>, of "unat (aElementSizeBytes a)"] assms(5) la lb True
      by (simp add: bptr_disjoint)
  next
    case False
    then have "B va \<noteq> B vb" using assms(1-3) by (auto simp: store_ok_def inj_on_def dom_def)
    then show ?thesis by (simp add: h_disjoint_def)
  qed
  then show ?thesis using la lb by (intro exI[of _ ?p] exI[of _ ?q]) blast
qed

text \<open>C2: From a context without allocations, after any sequence of the calls of \<open>rsi_step\<close>, every cell of every
  allocation has an address inside live memory, and cells of different allocations, or different cells of one,
  have no byte in common. The calls are creation, writes, copies, reads, mipmaps, synchronisation,
  resizing and destruction. Two of them are taken with a restriction: a new allocation has its memory
  from the driver (no user pointer, no IO usage, no YUV format without mipmaps) and is small enough
  (\<open>creatable\<close>: at most sixteen levels, and six times their size below 4 GiB), and a resized one is not of
  shared memory, has no YUV format and is small enough in its new size (\<open>resizable\<close>). The restriction on resizing is
  needed: shared memory is not reallocated, and its new cells have no memory, as shown below. All other calls are taken with any arguments.\<close>

theorem allocations_stay_separate:
  assumes "(rsi_step avail fuel)\<^sup>*\<^sup>* ac ac'" and "acAllocs ac = (\<lambda>va. None)"
    and "acAllocs ac' va = Some a" and "acAllocs ac' vb = Some a'"
    and "in_cells (aType a) c" and "in_cells (aType a') c'" and "(va, c) \<noteq> (vb, c')"
  shows "\<exists>p q. cell_ptr a c = Some p \<and> cell_ptr a' c' = Some q
    \<and> h_get (dHeap (acSt ac')) p (unat (aElementSizeBytes a)) \<noteq> None
    \<and> h_get (dHeap (acSt ac')) q (unat (aElementSizeBytes a')) \<noteq> None
    \<and> h_disjoint p (unat (aElementSizeBytes a)) q (unat (aElementSizeBytes a'))"
proof -
  have "store_ok id ac" using assms(2) by (simp add: store_ok_def)
  then obtain B where "store_ok B ac'" using steps_store[OF assms(1)] by blast
  then show ?thesis by (rule store_cells[OF _ assms(3-7)])
qed

text \<open>The cells of an allocation of one dimension.\<close>

definition is_1D :: "rstype \<Rightarrow> bool" where
  "is_1D t \<longleftrightarrow> tDimY t = 0 \<and> tDimZ t = 0 \<and> \<not> tFaces t \<and> tLodCount t = 1"

definition cell1 :: "u32 \<Rightarrow> cell" where
  "cell1 x = \<lparr>cFace = 0, cLod = 0, cX = x, cY = 0, cZ = 0\<rparr>"

lemma cell1_in: "is_1D t \<Longrightarrow> in_cells t (cell1 x) \<longleftrightarrow> x < tDimX t"
  by (auto simp: is_1D_def cell1_def in_cells_def drv_dim_def word_less_nat_alt)

lemma cell1_off: "cell_off es t (cell1 x) = es * unat x"
  by (simp add: cell1_def cell_off_def cell_row_def level_off_def mult.commute)

text \<open>C10: Resizing a one-dimensional allocation whose memory is the driver's own (not of shared memory, no YUV
  format) to a type with the same element that is small enough (\<open>fits_table\<close>) keeps the bytes of every cell
  that is in both the old and the new range, and the cells that are new hold zeros. An allocation of shared
  memory is not reallocated by a resize and has no memory for new cells, as shown below.\<close>

theorem resize1D_keeps_cells:
  assumes ok: "drv_alloc_ok (unat (aElementSizeBytes a)) b a (dHeap s)" and re: "resizable (reElem R) a t"
    and "is_1D (aType a)" and "is_1D t" and ne: "tDimX t \<noteq> tDimX (aType a)"
    and run: "Allocation_resize1D R a tob t (tDimX t) s = Some (a', s')" and x: "x < tDimX t"
  shows "cell_bytes (unat (aElementSizeBytes a)) a' (dHeap s') (cell1 x) =
    (if x < tDimX (aType a) then cell_bytes (unat (aElementSizeBytes a)) a (dHeap s) (cell1 x)
     else Some (replicate (unat (aElementSizeBytes a)) (Some 0)))"
proof -
  let ?es = "unat (aElementSizeBytes a)" and ?b = "length (dHeap s)"
  note r = resize1D_runs[OF ok re run ne]
  have t': "aType a' = t" and ok': "drv_alloc_ok ?es ?b a' (dHeap s')" using r by blast+
  have in': "in_cells (aType a') (cell1 x)" using t' x assms(4) by (simp add: cell1_in)
  have new: "cell_bytes ?es a' (dHeap s') (cell1 x) = h_get (dHeap s') (bptr ?b (?es * unat x)) ?es"
    using cell_bytes_ok[OF ok' in', of "dHeap s'"] by (simp add: cell1_off)
  have inb: "?es * unat x + ?es \<le> table_size ?es t"
    using cell_in_bounds[OF in', of ?es] t' by (simp add: cell1_off)
  show ?thesis
  proof (cases "x < tDimX (aType a)")
    case True
    then have inx: "in_cells (aType a) (cell1 x)" using assms(3) by (simp add: cell1_in)
    have "?es * unat x + ?es = ?es * Suc (unat x)" by simp
    also have "\<dots> \<le> ?es * unat (tDimX (aType a))" using True by (intro mult_le_mono2) (simp add: word_less_nat_alt)
    finally have "h_get (dHeap s') (bptr ?b (?es * unat x)) ?es = h_get (dHeap s) (bptr b (?es * unat x)) ?es"
      using r inb cell_in_bounds[OF inx, of ?es] by (simp add: cell1_off)
    then show ?thesis using True new cell_bytes_ok[OF ok inx, of "dHeap s"] by (simp add: cell1_off)
  next
    case False
    let ?n = "unat (tDimX t)" and ?o = "unat (tDimX (aType a))"
    have lt: "tDimX (aType a) < tDimX t" and o: "?o \<le> unat x" "Suc (unat x) \<le> ?n" using False x by (auto simp: word_less_nat_alt)
    have z: "h_get (dHeap s') (bptr ?b (?es * ?o)) (?es * (?n - ?o)) = Some (replicate (?es * (?n - ?o)) (Some 0))"
      using r lt by blast
    have pos: "?es * ?o + ?es * (unat x - ?o) = ?es * unat x" using o by (simp add: diff_mult_distrib2)
    have "?es * (unat x - ?o) + ?es = ?es * Suc (unat x - ?o)" by simp
    also have "\<dots> \<le> ?es * (?n - ?o)" using o by (intro mult_le_mono2) arith
    finally have fit: "?es * (unat x - ?o) + ?es \<le> ?es * (?n - ?o)" .
    have "?es * unat x < 2 ^ 64" using cell_located[OF ok' in'] by (simp add: cell1_off)
    then have "h_get (dHeap s') (bptr ?b (?es * unat x)) ?es
        = Some (take ?es (drop (?es * (unat x - ?o)) (replicate (?es * (?n - ?o)) (Some 0))))"
      using h_get_sub[OF z fit] unfolding pos by simp
    then show ?thesis using False new fit by (simp add: min_def)
  qed
qed
section \<open>Concrete runs\<close>

text \<open>A context with an element of four bytes and a type of three by two cells of it, and no allocation.\<close>

definition ex_ctx :: rsctx where
  "ex_ctx = put_obj 1 (OType ex_type)
     (snd (the (ObjectBase_new (OOther []) (snd (the (ObjectBase_new (OElement (Element_new\<lparr>eBits := 32\<rparr>)) rsctx_empty))))))"

definition ex_ac0 :: actx where
  "ex_ac0 = \<lparr>acSt = \<lparr>dHeap = [], dRefs = ex_ctx, dErrors = []\<rparr>, acAllocs = (\<lambda>va. None)\<rparr>"

definition ex_create :: "actx \<Rightarrow> (nat option \<times> actx) option" where
  "ex_create = rsi_AllocationCreateTyped (\<lambda>n. True) True 1 1 RS_ALLOCATION_MIPMAP_NONE 1 nullp"

definition ex_ac1 :: actx where
  "ex_ac1 = snd (the (ex_create ex_ac0))"

definition ex_ac2 :: actx where
  "ex_ac2 = snd (the (ex_create ex_ac1))"

lemma ex_creatable:
  assumes "getElementSizeBytes E ex_type = Some 4" shows "creatable E ex_type 1"
proof -
  have "level_off 4 ex_type (unat (tLodCount ex_type)) = 32" "unat (tLodCount ex_type) = 1" "tDimYuv ex_type = 0"
    "1 AND RS_ALLOCATION_USAGE_IO_INPUT = 0" "1 AND RS_ALLOCATION_USAGE_IO_OUTPUT = 0" by code_simp+
  then show ?thesis using assms by (simp add: creatable_def fits_table_def MAX_LOD_def)
qed

lemma ex_steps: "(rsi_step (\<lambda>n. True) 1)\<^sup>*\<^sup>* ex_ac0 ex_ac2"
proof -
  have t: "get_type (dRefs (acSt ex_ac0)) 1 = Some ex_type" "get_type (dRefs (acSt ex_ac1)) 1 = Some ex_type" by code_simp+
  have e: "getElementSizeBytes (get_elem (dRefs (acSt ex_ac0))) ex_type = Some 4"
      "getElementSizeBytes (get_elem (dRefs (acSt ex_ac1))) ex_type = Some 4" by code_simp+
  have "map_option fst (ex_create ex_ac0) = Some (Some 2)" "map_option fst (ex_create ex_ac1) = Some (Some 3)" by code_simp+
  then have r: "ex_create ex_ac0 = Some (Some 2, ex_ac1)" "ex_create ex_ac1 = Some (Some 3, ex_ac2)"
    by (auto simp: ex_ac1_def ex_ac2_def)
  have "rsi_step (\<lambda>n. True) 1 ex_ac0 ex_ac1" "rsi_step (\<lambda>n. True) 1 ex_ac1 ex_ac2"
    using r unfolding ex_create_def
    by (blast intro: rsi_step.create_typed[OF t(1) ex_creatable[OF e(1)]] rsi_step.create_typed[OF t(2) ex_creatable[OF e(2)]])+
  then show ?thesis by simp
qed

theorem allocations_stay_separate_witness:
  "\<exists>a a' p q. acAllocs ex_ac2 2 = Some a \<and> acAllocs ex_ac2 3 = Some a'
    \<and> cell_ptr a \<lparr>cFace = 0, cLod = 0, cX = 2, cY = 1, cZ = 0\<rparr> = Some p
    \<and> cell_ptr a' \<lparr>cFace = 0, cLod = 0, cX = 2, cY = 1, cZ = 0\<rparr> = Some q
    \<and> h_disjoint p (unat (aElementSizeBytes a)) q (unat (aElementSizeBytes a'))"
proof -
  let ?c = "\<lparr>cFace = 0, cLod = 0, cX = 2, cY = 1, cZ = 0\<rparr>"
  have "map_option (\<lambda>a. in_cells (aType a) ?c) (acAllocs ex_ac2 2) = Some True"
    "map_option (\<lambda>a. in_cells (aType a) ?c) (acAllocs ex_ac2 3) = Some True" by code_simp+
  then obtain a a' where a: "acAllocs ex_ac2 2 = Some a" "acAllocs ex_ac2 3 = Some a'"
      "in_cells (aType a) ?c" "in_cells (aType a') ?c" by auto
  have "acAllocs ex_ac0 = (\<lambda>va. None)" by (simp add: ex_ac0_def)
  from allocations_stay_separate[OF ex_steps this a(1,2,3,4)] a show ?thesis by auto
qed

definition ex1_type :: "u32 \<Rightarrow> rstype" where
  "ex1_type n = the (Type_compute (Type_new\<lparr>tElement := Some 0, tDimX := n\<rparr>))"

definition ex1_alloc :: allocation where
  "ex1_alloc = snd (the (AllocationBuildPointerTable ex_env (ex_alloc0\<lparr>aType := ex1_type 3\<rparr>) (ex1_type 3) (bptr 0 0)))"

definition ex1_st :: "unit drvst" where
  "ex1_st = \<lparr>dHeap = [Some (map (Some \<circ> of_nat) [0..<16])], dRefs = (), dErrors = []\<rparr>"

lemma ex1_fits:
  "fits_table 4 (ex1_type 3)" "fits_table 4 (ex1_type 5)"
proof -
  have "level_off 4 (ex1_type 3) (unat (tLodCount (ex1_type 3))) = 16" "unat (tLodCount (ex1_type 3)) = 1"
    "level_off 4 (ex1_type 5) (unat (tLodCount (ex1_type 5))) = 32" "unat (tLodCount (ex1_type 5)) = 1" by code_simp+
  then show "fits_table 4 (ex1_type 3)" "fits_table 4 (ex1_type 5)" by (simp_all add: fits_table_def MAX_LOD_def)
qed

lemma ex1_ok: "drv_alloc_ok (unat (aElementSizeBytes ex1_alloc)) 0 ex1_alloc (dHeap ex1_st)"
proof -
  have "table_ok 4 (aType ex1_alloc) (bptr 0 0) (aDrvState ex1_alloc)" "aType ex1_alloc = ex1_type 3"
    "unat (aElementSizeBytes ex1_alloc) = 4" "blk_len (dHeap ex1_st) 0 = Some (table_size 4 (ex1_type 3))"
    "aDrv ex1_alloc \<noteq> None" by code_simp+
  then show ?thesis using ex1_fits by (simp add: drv_alloc_ok_def)
qed

lemma ex1_resizable: "resizable (reElem ex_refenv) ex1_alloc (ex1_type 5)"
proof -
  have "\<not> has_usage ex1_alloc RS_ALLOCATION_USAGE_SHARED" "aYuv ex1_alloc = 0" "unat (aElementSizeBytes ex1_alloc) = 4"
    "getElementSizeBytes (reElem ex_refenv) (ex1_type 5) = Some (ucast (aElementSizeBytes ex1_alloc))" by code_simp+
  then show ?thesis using ex1_fits by (simp add: resizable_def)
qed

theorem resize1D_keeps_cells_witness:
  "\<exists>a' s'. Allocation_resize1D ex_refenv ex1_alloc 0 (ex1_type 5) 5 ex1_st = Some (a', s')
    \<and> cell_bytes 4 a' (dHeap s') (cell1 2) = Some [Some 8, Some 9, Some 10, Some 11]
    \<and> cell_bytes 4 a' (dHeap s') (cell1 4) = Some [Some 0, Some 0, Some 0, Some 0]"
proof -
  have t: "is_1D (aType ex1_alloc)" "is_1D (ex1_type 5)" "tDimX (ex1_type 5) \<noteq> tDimX (aType ex1_alloc)"
    "tDimX (ex1_type 5) = 5" "(2 :: u32) < tDimX (aType ex1_alloc)" "\<not> (4 :: u32) < tDimX (aType ex1_alloc)"
    "unat (aElementSizeBytes ex1_alloc) = 4"
    "cell_bytes 4 ex1_alloc (dHeap ex1_st) (cell1 2) = Some [Some 8, Some 9, Some 10, Some 11]" by code_simp+
  have "Allocation_resize1D ex_refenv ex1_alloc 0 (ex1_type 5) (tDimX (ex1_type 5)) ex1_st \<noteq> None" by code_simp
  then obtain a' s' where run: "Allocation_resize1D ex_refenv ex1_alloc 0 (ex1_type 5) (tDimX (ex1_type 5)) ex1_st = Some (a', s')"
    by auto
  note r = resize1D_keeps_cells[OF ex1_ok ex1_resizable t(1-3) run]
  have lt: "(2 :: u32) < tDimX (ex1_type 5)" "(4 :: u32) < tDimX (ex1_type 5)" by code_simp+
  have z: "replicate 4 (Some 0) = [Some 0, Some 0, Some 0, Some (0 :: u8)]" by (simp add: numeral_eq_Suc)
  show ?thesis using run r[OF lt(1)] r[OF lt(2)] t z by simp
qed
section \<open>Where the driver goes wrong\<close>

lemma Type_compute_dims:
  assumes "Type_compute t = Some t'" and "tElement t' = Some e"
  shows "tDimX t' = tDimX t \<and> tDimY t' = tDimY t \<and> tDimZ t' = tDimZ t"
  using Type_compute_keeps[OF assms(1), of e "tDimX t'" "tDimY t'" "tDimZ t'" "tDimLOD t'" "tFaces t'" "tDimYuv t'"] assms(2)
  by (simp add: type_match_def)

text \<open>C29: In an allocation with mipmaps, level 1 of the driver's table and every later one has the
  dimensions that the type gives to the level before it: the loop that builds the table halves the
  dimensions after the first level is entered a second time, so level 1 is as large as level 0.\<close>

theorem Init_levels_shifted:
  assumes "plain_alloc a" and "getElementSizeBytes (reElem R) (aType a) = Some es"
    and "fits_table (unat es) (aType a)" and "unat (aElementSizeBytes a) = unat es"
    and "avail (table_size (unat es) (aType a))"
    and t: "type_wf t" "tDimYuv t = 0" "tDimLOD t" "Type_compute t = Some (aType a)"
      "unat (tDimX t) * max (unat (tDimY t)) 1 * max (unat (tDimZ t)) 1 < 2 ^ 32"
    and l: "Suc l < unat (tLodCount (aType a))"
  shows "\<exists>a' s' e. rsdAllocationInit avail R a z s = Some (True, a', s') \<and> lod_at (aDrvState a') (Suc l) = Some e
    \<and> lod_entry (tLodDimX (aType a)) l (unat (lDimX e)) \<and> lod_entry (tLodDimY (aType a)) l (unat (lDimY e))
    \<and> lod_entry (tLodDimZ (aType a)) l (unat (lDimZ e))"
proof -
  obtain d dv h where run: "rsdAllocationInit avail R a z s = Some (True, a\<lparr>aDrvState := d, aDrv := Some dv\<rparr>, s\<lparr>dHeap := h\<rparr>)"
    and ok: "drv_alloc_ok (unat es) (length (dHeap s)) (a\<lparr>aDrvState := d, aDrv := Some dv\<rparr>) h"
    using Init_spec[of a R es avail, OF assms(1-5)] by blast
  have lv: "level_ok (unat es) (aType a) (Suc l) (dsLod d ! Suc l)" "length (dsLod d) = MAX_LOD"
    using ok l by (auto simp: drv_alloc_ok_def table_ok_def)
  have "Suc l < MAX_LOD" using l assms(3) by (simp add: fits_table_def)
  then have at: "lod_at d (Suc l) = Some (dsLod d ! Suc l)" using lv(2) by (simp add: lod_at_def)
  have "lod_entry (tLodDimX (aType a)) l (lod_dim (unat (tDimX t)) l)
      \<and> lod_entry (tLodDimY (aType a)) l (lod_dim (unat (tDimY t)) l)
      \<and> lod_entry (tLodDimZ (aType a)) l (lod_dim (unat (tDimZ t)) l)"
    using Type_compute_spec[OF t(1,2,5)] t(4) l by auto
  moreover have "tDimX (aType a) = tDimX t" "tDimY (aType a) = tDimY t" "tDimZ (aType a) = tDimZ t"
    using Type_compute_dims[OF t(4)] assms(2) by (auto simp: getElementSizeBytes_def bind_Some_iff)
  ultimately show ?thesis using run at lv(1) by (auto simp: level_ok_def drv_dim_def)
qed

text \<open>C30: The driver does not resize memory it shares with the client, but the allocation takes the new type all
  the same: the cells beyond the old memory are cells of the type without memory behind them.\<close>

theorem resize_shared_loses_cells:
  assumes ok: "drv_alloc_ok (unat (aElementSizeBytes a)) b a (dHeap s)" and sh: "has_usage a RS_ALLOCATION_USAGE_SHARED"
    and ref: "\<not> aHasReferences a" and e: "getElementSizeBytes (reElem R) t = Some (ucast (aElementSizeBytes a))"
    and d: "is_1D (aType a)" "is_1D t" "tDimX (aType a) < tDimX t" and x: "x < tDimX t"
    and out: "table_size (unat (aElementSizeBytes a)) (aType a) < unat (aElementSizeBytes a) * unat x + unat (aElementSizeBytes a)"
    and wrap: "unat (aElementSizeBytes a) * unat x < 2 ^ 32"
  shows "\<exists>a'. Allocation_resize1D R a tob t (tDimX t) s = Some (a', s) \<and> aType a' = t \<and> in_cells (aType a') (cell1 x)
    \<and> cell_bytes (unat (aElementSizeBytes a)) a' (dHeap s) (cell1 x) = None"
proof -
  let ?es = "unat (aElementSizeBytes a)"
  have tb: "table_ok ?es (aType a) (bptr b 0) (aDrvState a)" "fits_table ?es (aType a)"
      "blk_len (dHeap s) b = Some (table_size ?es (aType a))"
    using ok by (simp_all add: drv_alloc_ok_def)
  obtain l0 where l0: "lod_at (aDrvState a) 0 = Some l0" "lDimX l0 = tDimX (aType a)" "lMallocPtr l0 = bptr b 0"
    using table_level0[OF tb(1,2)] by blast
  obtain ob el where el: "tElement t = Some ob" "reElem R ob = Some el" using e by (auto simp: getElementSizeBytes_def bind_Some_iff)
  obtain a' where run: "Allocation_resize1D R a tob t (tDimX t) s = Some (a', s)" and a': "aType a' = t" "aDrvState a' = aDrvState a"
      "aElementSizeBytes a' = aElementSizeBytes a"
  proof -
    have "\<not> tDimX t < lDimX l0" "tDimX t \<noteq> lDimX l0" using d(3) l0(2) by auto
    moreover have "rsdAllocationResize R a t (aHasReferences a) s = Some (a, s)"
      using l0(1) sh by (simp add: rsdAllocationResize_def)
    ultimately show ?thesis
      using that l0(1) e el by (simp add: Allocation_resize1D_def updateCache_def Let_def)
  qed
  have "cell_bytes ?es a' (dHeap s) (cell1 x) = h_get (dHeap s) (bptr b (?es * unat x)) ?es"
  proof -
    have "unat (x * aElementSizeBytes a) = ?es * unat x"
      using wrap unat_mult_lem[of x "aElementSizeBytes a"] by (simp add: mult.commute)
    then have "(ucast (x * aElementSizeBytes a) :: u64) = of_nat (?es * unat x)"
      using u32_of_nat[of "x * aElementSizeBytes a"] by simp
    then show ?thesis
      using a'(2,3) l0(1,3) bptr_add[of b 0 "?es * unat x"]
      by (simp add: cell_bytes_def cell_ptr_def GetOffsetPtr_def cell1_def Let_def del: of_nat_mult)
  qed
  also have "\<dots> = None"
    using out tb(3) wrap
    by (auto simp: h_get_def h_block_def unat_snd_bptr mem_get_def blk_len_def split: if_splits)
  finally show ?thesis using run a'(1) x d(2) by (auto simp: cell1_in)
qed


text \<open>A type with mipmaps of four by two cells, an allocation of shared memory, and an element with a
  reference.\<close>

definition ex_mip_type0 :: rstype where
  "ex_mip_type0 = Type_new\<lparr>tElement := Some 0, tDimX := 4, tDimY := 2, tDimLOD := True\<rparr>"

definition ex_mip :: allocation where
  "ex_mip = ex_alloc0\<lparr>aType := the (Type_compute ex_mip_type0), aHasMipmaps := True\<rparr>"

theorem Init_levels_shifted_witness:
  "\<exists>a' s' e. rsdAllocationInit (\<lambda>n. True) ex_refenv ex_mip True ex_st = Some (True, a', s')
    \<and> lod_at (aDrvState a') 1 = Some e \<and> unat (lDimX e) = 4"
proof -
  have "plain_alloc ex_mip" "getElementSizeBytes (reElem ex_refenv) (aType ex_mip) = Some 4"
    "unat (aElementSizeBytes ex_mip) = unat (4 :: u64)" by code_simp+
  moreover have "fits_table (unat (4 :: u64)) (aType ex_mip)"
  proof -
    have "level_off 4 (aType ex_mip) (unat (tLodCount (aType ex_mip))) = 80"
      "unat (tLodCount (aType ex_mip)) = 3" by code_simp+
    then show ?thesis by (simp add: fits_table_def MAX_LOD_def)
  qed
  moreover have "type_wf ex_mip_type0" "tDimYuv ex_mip_type0 = 0" "tDimLOD ex_mip_type0"
    "Type_compute ex_mip_type0 = Some (aType ex_mip)" "Suc 0 < unat (tLodCount (aType ex_mip))" by code_simp+
  moreover have "unat (tDimX ex_mip_type0) * max (unat (tDimY ex_mip_type0)) 1 * max (unat (tDimZ ex_mip_type0)) 1 < 2 ^ 32"
    by (simp add: ex_mip_type0_def Type_new_def)
  ultimately obtain a' s' e where "rsdAllocationInit (\<lambda>n. True) ex_refenv ex_mip True ex_st = Some (True, a', s')"
      "lod_at (aDrvState a') (Suc 0) = Some e" and x: "lod_entry (tLodDimX (aType ex_mip)) 0 (unat (lDimX e))"
    using Init_levels_shifted[of ex_mip ex_refenv 4 "\<lambda>n. True" ex_mip_type0 0] by blast
  moreover have "tLodDimX (aType ex_mip) ! 0 = Some 4" by code_simp
  ultimately show ?thesis using x by (auto simp: lod_entry_def)
qed

theorem resize_shared_loses_cells_witness:
  "\<exists>a'. Allocation_resize1D ex_refenv (ex1_alloc\<lparr>aUsageFlags := 129\<rparr>) 0 (ex1_type 5) 5 ex1_st = Some (a', ex1_st)
    \<and> in_cells (aType a') (cell1 4) \<and> cell_bytes 4 a' (dHeap ex1_st) (cell1 4) = None"
proof -
  let ?a = "ex1_alloc\<lparr>aUsageFlags := 129\<rparr>"
  have "drv_alloc_ok (unat (aElementSizeBytes ?a)) 0 ?a (dHeap ex1_st)" using ex1_ok by (simp add: drv_alloc_ok_def)
  moreover have "has_usage ?a RS_ALLOCATION_USAGE_SHARED" "\<not> aHasReferences ?a"
    "getElementSizeBytes (reElem ex_refenv) (ex1_type 5) = Some (ucast (aElementSizeBytes ?a))"
    "is_1D (aType ?a)" "is_1D (ex1_type 5)" "tDimX (aType ?a) < tDimX (ex1_type 5)" "4 < tDimX (ex1_type 5)"
    "unat (aElementSizeBytes ?a) = 4" "table_size 4 (aType ?a) = 16" "tDimX (ex1_type 5) = 5" by code_simp+
  ultimately show ?thesis using resize_shared_loses_cells[of ?a 0 ex1_st ex_refenv "ex1_type 5" 4 0] by auto
qed



end
