(* ===== verification/Rs_ElementStream.thy ===== *)
theory Rs_ElementStream
  imports Rs_Context
begin

text \<open>
  The stream format of elements, written by \<open>Element::serialize\<close> and read by
  \<open>Element::createFromStream\<close> (\<open>rsElement.cpp\<close>), for single elements and for structures of any
  nesting. Reading looks every element up in the cache of the context, so the round trip rests
  on three groups of lemmas: the searches of \<open>createRef\<close> find an element in a cache without
  duplicates; the user references that the loop over the fields takes are given back after it;
  and creating elements and giving up references keep the cache free of duplicates.
\<close>

section \<open>The cache has no duplicates\<close>

text \<open>Two fields, and two elements, that the searches of \<open>createRef\<close> take for the same.\<close>

definition field_eq :: "element_field \<Rightarrow> element_field \<Rightarrow> bool" where
  "field_eq f g \<longleftrightarrow> fElem f = fElem g \<and> c_string (fName f) = c_string (fName g) \<and> fArraySize f = fArraySize g"

definition elem_same :: "element \<Rightarrow> element \<Rightarrow> bool" where
  "elem_same e g \<longleftrightarrow> list_all2 field_eq (eFields e) (eFields g) \<and>
     (eFields e = [] \<longrightarrow> mType (eComponent e) = mType (eComponent g) \<and> mKind (eComponent e) = mKind (eComponent g)
        \<and> mNormalized (eComponent e) = mNormalized (eComponent g) \<and> mVectorSize (eComponent e) = mVectorSize (eComponent g))"

text \<open>What the searches rely on: the cached elements exist, the names of their fields are C strings, and no
  two of them are the same.\<close>

definition cache_canonical :: "elem_env \<Rightarrow> nat list \<Rightarrow> bool" where
  "cache_canonical E M \<longleftrightarrow> (\<forall>w\<in>set M. \<exists>e. E w = Some e \<and> (\<forall>f\<in>set (eFields e). 0 \<in> set (fName f)))
     \<and> (\<forall>w\<in>set M. \<forall>v\<in>set M. elem_same (the (E w)) (the (E v)) \<longrightarrow> w = v)"

lemma elem_same_refl: "elem_same e e"
  by (simp add: elem_same_def list.rel_refl field_eq_def)

lemma canonical_find:
  assumes "cache_canonical E M" and "ob \<in> set M" and "\<And>w. w \<in> set M \<Longrightarrow> P w \<longleftrightarrow> elem_same (the (E w)) (the (E ob))"
  shows "find P M = Some ob"
proof -
  have "P ob" using assms elem_same_refl by blast
  then obtain w where w: "find P M = Some w" using assms(2) by (cases "find P M") (auto simp: find_None_iff)
  then have "w \<in> set M" "P w" by (auto simp: find_Some_iff)
  then have "w = ob" using assms unfolding cache_canonical_def by blast
  then show ?thesis using w by simp
qed

text \<open>The search for a single component.\<close>

lemma canonical_single:
  assumes "cache_canonical E M" and "ob \<in> set M" and e: "E ob = Some e" "eFields e = []"
  shows "find (\<lambda>w. elem_match (mType (eComponent e)) (mKind (eComponent e)) (mNormalized (eComponent e))
    (mVectorSize (eComponent e)) (the (E w))) M = Some ob"
  using e by (intro canonical_find[OF assms(1,2)]) (auto simp: elem_match_def elem_same_def)

text \<open>The search for a structure. The arguments are those that \<open>createFromStream\<close> passes.\<close>

abbreviation "name_len f \<equiv> length (takeWhile (\<lambda>b. b \<noteq> 0) (fName f))"

lemma c_strlen_c_string [simp]: "c_strlen (c_string s) = Some (length (takeWhile (\<lambda>b. b \<noteq> 0) s))"
  by (simp add: c_strlen_def c_string_def takeWhile_append)

lemma c_streq_c_string: "0 \<in> set a \<Longrightarrow> c_streq a (c_string b) = Some (c_string a = c_string b)"
  by (simp add: c_streq_def c_strlen_def takeWhile_zero_prefix) (simp add: c_string_def takeWhile_append)

lemma match_fields_eq:
  assumes "length fs = length gs" and "\<forall>f\<in>set fs. 0 \<in> set (fName f)"
  shows "match_fields fs (map fElem (hs @ gs)) (map (\<lambda>f. c_string (fName f)) (hs @ gs)) (Some (map (\<lambda>f. of_nat (name_len f)) (hs @ gs)))
     (Some (map fArraySize (hs @ gs))) (length hs) = Some (list_all2 field_eq fs gs)"
  using assms
proof (induction fs gs arbitrary: hs rule: list_induct2)
  case (Cons f fs g gs)
  have ih: "match_fields fs (map fElem (hs @ g # gs)) (map (\<lambda>f. c_string (fName f)) (hs @ g # gs))
      (Some (map (\<lambda>f. of_nat (name_len f)) (hs @ g # gs))) (Some (map fArraySize (hs @ g # gs))) (length hs + 1)
      = Some (list_all2 field_eq fs gs)"
    using Cons.IH[of "hs @ [g]"] Cons.prems by simp
  have a: "field_args (map fElem (hs @ g # gs)) (map (\<lambda>f. c_string (fName f)) (hs @ g # gs))
      (Some (map (\<lambda>f. of_nat (name_len f)) (hs @ g # gs))) (Some (map fArraySize (hs @ g # gs))) (length hs)
      = Some (fElem g, c_string (fName g), of_nat (name_len g), fArraySize g)"
    by (simp add: field_args_def arg_nth_def nth_append)
  have z: "0 \<in> set (fName f)" using Cons.prems by simp
  then have l: "c_strlen (fName f) = Some (name_len f)" by (simp add: c_strlen_def)
  have ln: "name_len f = name_len g" if "c_string (fName f) = c_string (fName g)"
    using that by (simp add: c_string_def)
  show ?case
  proof (cases "fElem f = fElem g \<and> (of_nat (name_len f) :: u64) = of_nat (name_len g)
      \<and> c_string (fName f) = c_string (fName g) \<and> fArraySize f = fArraySize g")
    case True
    then have "field_eq f g" by (simp add: field_eq_def)
    then show ?thesis
      using ih True by (simp only: match_fields.simps a bind.simps prod.case l c_streq_c_string[OF z] if_False simp_thms list_all2_Cons)
  next
    case False
    then have "\<not> field_eq f g" using ln by (auto simp: field_eq_def)
    then show ?thesis
      using False by (simp only: match_fields.simps a bind.simps prod.case l c_streq_c_string[OF z] list_all2_Cons) auto
  qed
qed simp

lemma Element_find_fields_eq:
  assumes "\<And>w. w \<in> set obs \<Longrightarrow> \<exists>e. get_elem st w = Some e \<and> (\<forall>f\<in>set (eFields e). 0 \<in> set (fName f))"
  shows "Element_find_fields st (length gs) (map fElem gs) (map (\<lambda>f. c_string (fName f)) gs)
      (Some (map (\<lambda>f. of_nat (name_len f)) gs)) (Some (map fArraySize gs)) obs
    = Some (find (\<lambda>w. list_all2 field_eq (eFields (the (get_elem st w))) gs) obs)"
  using assms
proof (induction obs)
  case (Cons w obs)
  obtain e where e: "get_elem st w = Some e" "\<forall>f\<in>set (eFields e). 0 \<in> set (fName f)" using Cons.prems[of w] by auto
  have "(if length (eFields e) = length gs then match_fields (eFields e) (map fElem gs) (map (\<lambda>f. c_string (fName f)) gs)
      (Some (map (\<lambda>f. of_nat (name_len f)) gs)) (Some (map fArraySize gs)) 0 else Some False)
    = Some (list_all2 field_eq (eFields e) gs)"
    using match_fields_eq[of "eFields e" gs "[]"] e(2) by (auto dest: list_all2_lengthD)
  then show ?case using Cons e(1) by simp
qed simp

lemma canonical_fields:
  assumes "cache_canonical (get_elem st) M" and "ob \<in> set M" and e: "get_elem st ob = Some e" "eFields e \<noteq> []"
  shows "Element_find_fields st (length (eFields e)) (map fElem (eFields e)) (map (\<lambda>f. c_string (fName f)) (eFields e))
      (Some (map (\<lambda>f. of_nat (name_len f)) (eFields e))) (Some (map fArraySize (eFields e))) M = Some (Some ob)"
proof -
  have "find (\<lambda>w. list_all2 field_eq (eFields (the (get_elem st w))) (eFields e)) M = Some ob"
    using e by (intro canonical_find[OF assms(1,2)]) (auto simp: elem_same_def)
  then show ?thesis using assms(1) by (subst Element_find_fields_eq) (auto simp: cache_canonical_def)
qed

section \<open>User references\<close>

definition user_inc :: "nat \<Rightarrow> rsctx \<Rightarrow> rsctx" where
  "user_inc ob st = ocell_upd ob (\<lambda>c. c\<lparr>mUserRefCount := mUserRefCount c + 1\<rparr>) st"

abbreviation users :: "nat list \<Rightarrow> rsctx \<Rightarrow> rsctx" where
  "users ws st \<equiv> fold user_inc ws st"

lemma user_inc_same [simp]:
  "get_elem (user_inc w st) = get_elem st" "mElements (user_inc w st) = mElements st" "get_name (user_inc w st) = get_name st"
  by (simp_all add: user_inc_def fun_eq_iff get_name_def ocell_ocell_upd map_option_case split: option.split)

lemma users_same [simp]:
  "get_elem (users ws st) = get_elem st" "mElements (users ws st) = mElements st" "get_name (users ws st) = get_name st"
  by (induction ws arbitrary: st) simp_all

lemma ocell_upd_id: "ocell_upd ob id st = st"
proof -
  have "(mObjs st)[ob := map_option id (ocell st ob)] = mObjs st"
    by (cases "ob < length (mObjs st)") (simp_all add: ocell_def option.map_id list_update_beyond)
  then show ?thesis by (simp add: ocell_upd_def)
qed

lemma user_inc_commute: "user_inc a (user_inc b st) = user_inc b (user_inc a st)"
proof (cases "a = b")
  case False
  then show ?thesis
    by (auto simp: user_inc_def ocell_upd_def ocell_def list_update_swap split: option.splits)
qed simp

lemma users_commute: "users ws (user_inc a st) = user_inc a (users ws st)"
proof (induction ws arbitrary: st)
  case (Cons w ws)
  show ?case using Cons[of "user_inc w st"] by (simp only: fold_simps user_inc_commute[of w a])
qed simp

lemma user_inc_live: "ocell (user_inc w st) x \<noteq> None \<longleftrightarrow> ocell st x \<noteq> None"
  unfolding user_inc_def by (rule live_upd)

lemma users_live: "ocell (users ws st) x \<noteq> None \<longleftrightarrow> ocell st x \<noteq> None"
  by (induction ws arbitrary: st) (simp_all add: user_inc_live del: not_None_eq)

lemma counts_below_mono: "counts_below n st \<Longrightarrow> n \<le> m \<Longrightarrow> counts_below m st"
  unfolding counts_below_def by (meson less_le_trans)

lemma user_inc_counts:
  assumes "counts_below n st" and "n < 2 ^ 31" shows "counts_below (n + 1) (user_inc w st)"
  unfolding counts_below_def
proof (intro allI impI)
  fix x d
  assume d: "ocell (user_inc w st) x = Some d"
  then obtain c where c: "ocell st x = Some c"
    and e: "d = (if x = w then c\<lparr>mUserRefCount := mUserRefCount c + 1\<rparr> else c)"
    by (auto simp: user_inc_def ocell_ocell_upd split: if_splits)
  have b: "sint (mSysRefCount c) < n" "sint (mUserRefCount c) < n" using assms(1) c unfolding counts_below_def by blast+
  then have "sint (mUserRefCount c + 1) = sint (mUserRefCount c) + 1" using assms(2) by (intro sint_plus_one) simp
  then show "sint (mSysRefCount d) < n + 1 \<and> sint (mUserRefCount d) < n + 1" using b e by simp
qed

lemma user_inc_inv:
  assumes inv: "ctx_inv R xs st" and b: "counts_below n st" "n < 2 ^ 31"
  shows "ctx_inv R xs (user_inc w st)"
proof -
  let ?st = "user_inc w st"
  have u: "0 \<le> sint (mUserRefCount c + 1) \<and> mUserRefCount c + 1 \<noteq> 0" if c: "ocell st w = Some c" for c
  proof -
    have "sint (mUserRefCount c) < n" using b(1) c unfolding counts_below_def by blast
    then have "sint (mUserRefCount c + 1) = sint (mUserRefCount c) + 1" using b(2) by (intro sint_plus_one) simp
    then show ?thesis using ctx_cell(2)[OF inv c] sint_0_iff[of "mUserRefCount c + 1"] by linarith
  qed
  have "rc_inv rs_vt R xs ?st"
    unfolding user_inc_def using inv u by (intro rc_inv_user) (simp_all add: ctx_inv_def)
  moreover have "no_garbage xs ?st"
    using inv u by (auto simp: user_inc_def ctx_inv_def no_garbage_def ocell_ocell_upd split: if_splits)
  moreover have "cache_ok ?st" unfolding user_inc_def using inv by (intro cache_ok_upd) (auto simp: ctx_inv_def)
  ultimately show ?thesis using inv unfolding ctx_inv_def user_inc_live by blast
qed

lemma users_inv:
  assumes "ctx_inv R xs st" and "counts_below n st" and "n + int (length ws) \<le> 2 ^ 31"
  shows "ctx_inv R xs (users ws st) \<and> counts_below (n + int (length ws)) (users ws st)"
  using assms
proof (induction ws arbitrary: st n)
  case (Cons w ws)
  have n: "n < 2 ^ 31" using Cons.prems(3) by simp
  note s = user_inc_inv[OF Cons.prems(1,2) n] user_inc_counts[OF Cons.prems(2) n]
  show ?case using Cons.IH[OF s] Cons.prems(3) by (simp add: ac_simps)
qed simp

text \<open>Giving a user reference back undoes taking it, since the object was referenced before.\<close>

lemma decUserRef_user_inc:
  assumes inv: "ctx_inv R xs st" and b: "counts_below n st" "n < 2 ^ 31" and c: "ocell st w = Some c"
  shows "decUserRef rs_vt w (user_inc w st) = Some (False, st)"
proof -
  let ?i = "\<lambda>c :: rsobj objcell. c\<lparr>mUserRefCount := mUserRefCount c + 1\<rparr>"
    and ?d = "\<lambda>c :: rsobj objcell. c\<lparr>mUserRefCount := mUserRefCount c - 1\<rparr>"
  have "sint (mUserRefCount c) < n" using b(1) c unfolding counts_below_def by blast
  then have u: "sint (mUserRefCount c + 1) = sint (mUserRefCount c) + 1" using b(2) by (intro sint_plus_one) simp
  have "mUserRefCount c \<noteq> 0 \<or> mSysRefCount c \<noteq> 0" using inv c by (auto simp: ctx_inv_def no_garbage_def)
  then have "\<not> (sint (mUserRefCount c + 1) \<le> 1 \<and> sint (mSysRefCount c) \<le> 0)"
    using u ctx_cell(2,3)[OF inv c] sint_0_iff[of "mUserRefCount c"] sint_0_iff[of "mSysRefCount c"] by linarith
  then have "decUserRef rs_vt w (user_inc w st) = Some (False, ocell_upd w ?d (user_inc w st))"
    using c by (auto simp: decUserRef_def user_inc_def ocell_ocell_upd Let_def)
  moreover have "ocell_upd w ?d (user_inc w st) = st"
  proof -
    have "ocell_upd w ?d (user_inc w st) = ocell_upd w id st"
      unfolding user_inc_def ocell_upd_twice by (rule ocell_upd_cong) simp
    also have "\<dots> = st" by (rule ocell_upd_id)
    finally show ?thesis .
  qed
  ultimately show ?thesis by simp
qed

lemma decUserRef_all_users:
  assumes "ctx_inv R xs st" and "counts_below n st" and "n + int (length ws) \<le> 2 ^ 31"
    and "\<forall>w\<in>set ws. ocell st w \<noteq> None"
  shows "decUserRef_all ws (users ws st) = Some st"
  using assms(3,4)
proof (induction ws)
  case (Cons w ws)
  have l: "n + int (length ws) \<le> 2 ^ 31" "n + int (length ws) < 2 ^ 31" using Cons.prems(1) by simp_all
  note s = users_inv[OF assms(1,2) l(1)]
  have "ocell (users ws st) w \<noteq> None" using Cons.prems(2) users_live by simp
  then obtain c where c: "ocell (users ws st) w = Some c" by blast
  have "users (w # ws) st = user_inc w (users ws st)" by (simp add: users_commute)
  then show ?case using decUserRef_user_inc[OF conjunct1[OF s] conjunct2[OF s] l(2) c] Cons l by simp
qed simp

text \<open>\<open>create\<close> for a structure that is in the cache.\<close>

lemma Element_create_fields_found:
  assumes inv: "ctx_inv R xs st" and small: "counts_below (2 ^ 31 - 1) st" and c: "ocell st ob = Some c"
    and f: "Element_find_fields st cnt ein nin lengths asin (mElements st) = Some (Some ob)"
  shows "Element_create_fields cnt ein nin lengths asin st = Some (ob, user_inc ob st)"
proof -
  let ?s1 = "ocell_upd ob (\<lambda>c. c\<lparr>mSysRefCount := mSysRefCount c + 1\<rparr>) st"
  have b: "sint (mSysRefCount c) < 2 ^ 31 - 1" "sint (mUserRefCount c) < 2 ^ 31 - 1"
    using small c unfolding counts_below_def by blast+
  have c1: "ocell ?s1 ob = Some (c\<lparr>mSysRefCount := mSysRefCount c + 1\<rparr>)" by (simp add: ocell_ocell_upd c)
  have "ref_to_user ob ?s1 = Some (ob, user_inc ob st)"
    using ctx_to_user[OF ctx_hold[OF inv c b(1)] c1] b(2) by (simp add: user_inc_def ocell_upd_inc_dec_user)
  then show ?thesis by (simp add: Element_create_fields_def Element_createRef_fields_def f ObjectBaseRef_set_None[OF c])
qed

section \<open>Writing\<close>

lemma fields_serialize_keeps:
  assumes "\<And>ob s s'. ostream_wf s \<Longrightarrow> ser ob s = Some s' \<Longrightarrow> ostream_wf s' \<and> extends s s'"
    and "ostream_wf s" and "fields_serialize ser fs s = Some s'"
  shows "ostream_wf s' \<and> extends s s'"
  using assms(2,3)
proof (induction fs arbitrary: s)
  case (Cons f fs)
  from Cons.prems(2) obtain s1 s2 s3 where s: "addString (fName f) s = Some s1" "addU32 (fArraySize f) s1 = Some s2"
    "ser (fElem f) s2 = Some s3" "fields_serialize ser fs s3 = Some s'"
    by (auto simp: bind_Some_iff)
  note k1 = c_str.add_keeps[OF Cons.prems(1) s(1)]
  note k2 = c_u32.add_keeps[OF k1[THEN conjunct1] s(2)]
  note k3 = assms(1)[OF k2[THEN conjunct1] s(3)]
  show ?case using Cons.IH[OF k3[THEN conjunct1] s(4)] k1 k2 k3 extends_trans by blast
qed simp

text \<open>The parts of what \<open>serialize\<close> writes.\<close>

lemma Element_serialize_parts:
  assumes "Element_serialize E N (Suc n) ob s = Some s'"
  obtains e nm s1 s2 s3 s4 where "E ob = Some e" "N ob = Some nm" "addU32 RS_A3D_CLASS_ID_ELEMENT s = Some s1"
    "addString nm s1 = Some s2" "Component_serialize (eComponent e) s2 = Some s3"
    "addU32 (of_nat (length (eFields e))) s3 = Some s4" "fields_serialize (Element_serialize E N n) (eFields e) s4 = Some s'"
  using assms by (auto simp: bind_Some_iff)

lemma Element_serialize_keeps:
  "ostream_wf s \<Longrightarrow> Element_serialize E N n ob s = Some s' \<Longrightarrow> ostream_wf s' \<and> extends s s'"
proof (induction n arbitrary: ob s s')
  case (Suc n)
  obtain e nm s1 s2 s3 s4 where "E ob = Some e" "N ob = Some nm" and s: "addU32 RS_A3D_CLASS_ID_ELEMENT s = Some s1"
    "addString nm s1 = Some s2" "Component_serialize (eComponent e) s2 = Some s3"
    "addU32 (of_nat (length (eFields e))) s3 = Some s4" "fields_serialize (Element_serialize E N n) (eFields e) s4 = Some s'"
    by (rule Element_serialize_parts[OF Suc.prems(2)])
  note k1 = c_u32.add_keeps[OF Suc.prems(1) s(1)]
  note k2 = c_str.add_keeps[OF k1[THEN conjunct1] s(2)]
  note k3 = c_comp.add_keeps[OF k2[THEN conjunct1] s(3)]
  note k4 = c_u32.add_keeps[OF k3[THEN conjunct1] s(4)]
  have kf: "ostream_wf s' \<and> extends s4 s'" by (rule fields_serialize_keeps[OF _ k4[THEN conjunct1] s(5)]) (rule Suc.IH)
  have "extends s s2" "extends s2 s4" using k1 k2 k3 k4 extends_trans by blast+
  then show ?case using kf extends_trans by blast
qed simp

section \<open>Reading\<close>

text \<open>An element that the format can hold: it and the elements of its fields, to any depth below \<open>n\<close>, are in
  the cache and have names, the names of objects and fields are C strings that a \<open>uint32_t\<close> can count, and
  the components are as \<open>set\<close> makes them, with type and kind in a byte.\<close>

primrec elem_storable :: "elem_env \<Rightarrow> (nat \<Rightarrow> u8 list option) \<Rightarrow> nat list \<Rightarrow> nat \<Rightarrow> nat \<Rightarrow> bool" where
  "elem_storable E N M 0 = (\<lambda>ob. False)"
| "elem_storable E N M (Suc n) = (\<lambda>ob. ob \<in> set M \<and>
     (case N ob of None \<Rightarrow> False | Some nm \<Rightarrow> 0 \<in> set nm \<and> int (length nm) < 2 ^ 32) \<and>
     (case E ob of None \<Rightarrow> False | Some e \<Rightarrow> component_storable (eComponent e) \<and> int (length (eFields e)) < 2 ^ 32 \<and>
        (\<forall>f\<in>set (eFields e). 0 \<in> set (fName f) \<and> int (length (fName f)) < 2 ^ 32 \<and> elem_storable E N M n (fElem f))))"

text \<open>The number of elements written, which is the number of user references taken while reading.\<close>

primrec elem_nodes :: "elem_env \<Rightarrow> nat \<Rightarrow> nat \<Rightarrow> nat" where
  "elem_nodes E 0 = (\<lambda>ob. 1)"
| "elem_nodes E (Suc n) = (\<lambda>ob. case E ob of None \<Rightarrow> 1
     | Some e \<Rightarrow> 1 + sum_list (map (\<lambda>f. elem_nodes E n (fElem f)) (eFields e)))"

lemma elem_nodes_pos: "1 \<le> elem_nodes E n ob"
  by (cases n) (auto split: option.split)

definition field_arg :: "element_field \<Rightarrow> nat option \<times> u8 list \<times> u64 \<times> u32" where
  "field_arg f = (Some (fElem f), c_string (fName f), of_nat (name_len f), fArraySize f)"

text \<open>What reading back one element does: \<open>load\<close> is \<open>createFromStream\<close>, \<open>ser\<close> is \<open>serialize\<close>, and \<open>nodes\<close>
  bounds the references taken meanwhile.\<close>

definition elem_reads_back ::
    "(istream \<Rightarrow> rsctx \<Rightarrow> (nat option \<times> istream \<times> rsctx) option) \<Rightarrow> (nat \<Rightarrow> ostream \<Rightarrow> ostream option) \<Rightarrow>
     nat multiset \<Rightarrow> nat list \<Rightarrow> rsctx \<Rightarrow> nat \<Rightarrow> nat \<Rightarrow> bool" where
  "elem_reads_back load ser R xs st nodes ob \<longleftrightarrow> (\<forall>ws s s' S i. ctx_inv R xs (users ws st) \<longrightarrow>
     counts_below (2 ^ 31 - 1 - int nodes) (users ws st) \<longrightarrow> ostream_wf s \<longrightarrow> ser ob s = Some s' \<longrightarrow>
     extends s' S \<longrightarrow> reads_from i S \<longrightarrow> iPos i = oPos s \<longrightarrow>
     load i (users ws st) = Some (Some ob, i\<lparr>iPos := oPos s'\<rparr>, user_inc ob (users ws st)))"

lemma elem_reads_backD:
  assumes "elem_reads_back load ser R xs st nodes ob" and "ctx_inv R xs (users ws st)"
    and "counts_below (2 ^ 31 - 1 - int nodes) (users ws st)" and "ostream_wf s" and "ser ob s = Some s'"
    and "extends s' S" and "reads_from i S" and "iPos i = oPos s"
  shows "load i (users ws st) = Some (Some ob, i\<lparr>iPos := oPos s'\<rparr>, user_inc ob (users ws st))"
  using assms unfolding elem_reads_back_def by blast

lemma load_fields_back:
  assumes sub: "\<And>f. f \<in> set fs \<Longrightarrow> elem_reads_back load ser R xs st (nodes (fElem f)) (fElem f)"
    and keep: "\<And>ob s s'. ostream_wf s \<Longrightarrow> ser ob s = Some s' \<Longrightarrow> ostream_wf s' \<and> extends s s'"
    and nm: "\<forall>f\<in>set fs. 0 \<in> set (fName f) \<and> length (fName f) < 2 ^ 32" and pos: "\<And>ob. 1 \<le> nodes ob"
    and "ctx_inv R xs (users ws st)" and "counts_below (2 ^ 31 - 1 - int (sum_list (map (\<lambda>f. nodes (fElem f)) fs))) (users ws st)"
    and "ostream_wf s" and "fields_serialize ser fs s = Some s'" and "reads_from i s'" and "iPos i = oPos s"
  shows "load_fields load (length fs) i (users ws st)
    = Some (map field_arg fs, i\<lparr>iPos := oPos s'\<rparr>, users (map fElem fs) (users ws st))"
  using sub nm assms(5-)
proof (induction fs arbitrary: ws s i)
  case (Cons f fs)
  let ?n = "nodes (fElem f)" and ?r = "sum_list (map (\<lambda>f. nodes (fElem f)) fs)"
  from Cons.prems(6) obtain s1 s2 s3 where s: "addString (fName f) s = Some s1" "addU32 (fArraySize f) s1 = Some s2"
    "ser (fElem f) s2 = Some s3" "fields_serialize ser fs s3 = Some s'"
    by (auto simp: bind_Some_iff)
  note k1 = c_str.add_keeps[OF Cons.prems(5) s(1)]
  note k2 = c_u32.add_keeps[OF k1[THEN conjunct1] s(2)]
  note k3 = keep[OF k2[THEN conjunct1] s(3)]
  have x3: "extends s3 s'" using fields_serialize_keeps[OF _ k3[THEN conjunct1] s(4)] keep by blast
  have x2: "extends s2 s'" and x1: "extends s1 s'" using x3 k2 k3 extends_trans by blast+
  have r: "reads_from (i\<lparr>iPos := p\<rparr>) s'" for p using Cons.prems(7) by (simp add: reads_from_def)
  have l1: "loadString i = Some (c_string (fName f), i\<lparr>iPos := oPos s1\<rparr>)"
    using c_str.load_add_later[OF Cons.prems(5) _ s(1) x1 Cons.prems(7,8)] Cons.prems(2) by simp
  have l2: "loadU32 (i\<lparr>iPos := oPos s1\<rparr>) = Some (fArraySize f, i\<lparr>iPos := oPos s2\<rparr>)"
    using c_u32.load_add_later[OF k1[THEN conjunct1] _ s(2) x2 r] by simp
  have b: "counts_below (2 ^ 31 - 1 - int (?n + ?r)) (users ws st)" using Cons.prems(4) by simp
  have cb: "counts_below (2 ^ 31 - 1 - int ?n) (users ws st)" by (rule counts_below_mono[OF b]) simp
  have rb: "elem_reads_back load ser R xs st ?n (fElem f)" using Cons.prems(1) by simp
  have l3: "load (i\<lparr>iPos := oPos s2\<rparr>) (users ws st)
      = Some (Some (fElem f), i\<lparr>iPos := oPos s3\<rparr>, user_inc (fElem f) (users ws st))"
    using elem_reads_backD[OF rb Cons.prems(3) cb k2[THEN conjunct1] s(3) x3 r] by simp
  let ?ws = "ws @ [fElem f]"
  have u: "users ?ws st = user_inc (fElem f) (users ws st)" by simp
  have lt: "2 ^ 31 - 1 - int (?n + ?r) < 2 ^ 31" by linarith
  have i1: "ctx_inv R xs (users ?ws st)" unfolding u by (rule user_inc_inv[OF Cons.prems(3) b lt])
  have "counts_below (2 ^ 31 - 1 - int (?n + ?r) + 1) (users ?ws st)" unfolding u by (rule user_inc_counts[OF b lt])
  then have b1: "counts_below (2 ^ 31 - 1 - int ?r) (users ?ws st)"
    by (rule counts_below_mono) (use pos[of "fElem f"] in simp)
  have "load_fields load (length fs) (i\<lparr>iPos := oPos s3\<rparr>) (users ?ws st)
      = Some (map field_arg fs, i\<lparr>iPos := oPos s'\<rparr>, users (map fElem fs) (users ?ws st))"
    using Cons.IH[OF _ _ i1 b1 k3[THEN conjunct1] s(4) r] Cons.prems(1,2) by simp
  then show ?case using l1 l2 l3 unfolding u by (simp add: field_arg_def)
qed simp

text \<open>The head of an element, up to the number of its fields.\<close>

lemma Element_head_wf:
  assumes "ostream_wf s" and "addU32 RS_A3D_CLASS_ID_ELEMENT s = Some s1" and "addString nm s1 = Some s2"
    and "Component_serialize c s2 = Some s3" and "addU32 n s3 = Some s4"
  shows "ostream_wf s4"
  using assms c_u32.add_wf c_str.add_wf c_comp.add_wf by blast

lemma Element_head_back:
  assumes wf: "ostream_wf s" and s: "addU32 RS_A3D_CLASS_ID_ELEMENT s = Some s1" "addString nm s1 = Some s2"
      "Component_serialize c s2 = Some s3" "addU32 n s3 = Some s4" and x: "extends s4 s'"
    and nm: "0 \<in> set nm" "length nm < 2 ^ 32" and c: "component_storable c"
    and i: "reads_from i s'" "iPos i = oPos s"
  shows "Element_createFromStream (Suc fuel) i st =
    (if n = 0 then do { (ob, st1) \<leftarrow> Element_create (mType c) (mKind c) (mNormalized c) (mVectorSize c) st;
        Some (Some ob, i\<lparr>iPos := oPos s4\<rparr>, st1) }
     else do { (args, i5, st1) \<leftarrow> load_fields (Element_createFromStream fuel) (unat n) (i\<lparr>iPos := oPos s4\<rparr>) st;
        subs \<leftarrow> those (map fst args);
        (ob, st2) \<leftarrow> Element_create_fields (unat n) subs (map (fst \<circ> snd) args)
           (Some (map (fst \<circ> snd \<circ> snd) args)) (Some (map (snd \<circ> snd \<circ> snd) args)) st1;
        st3 \<leftarrow> decUserRef_all subs st2;
        Some (Some ob, i5, st3) })"
proof -
  note k1 = c_u32.add_keeps[OF wf s(1)]
  note k2 = c_str.add_keeps[OF k1[THEN conjunct1] s(2)]
  note k3 = c_comp.add_keeps[OF k2[THEN conjunct1] s(3)]
  note k4 = c_u32.add_keeps[OF k3[THEN conjunct1] s(4)]
  have x3: "extends s3 s'" using k4 x extends_trans by blast
  have x2: "extends s2 s'" using k3 x3 extends_trans by blast
  have x1: "extends s1 s'" using k2 x2 extends_trans by blast
  have r: "reads_from (i\<lparr>iPos := p\<rparr>) s'" for p using i(1) by (simp add: reads_from_def)
  have l1: "loadU32 i = Some (RS_A3D_CLASS_ID_ELEMENT, i\<lparr>iPos := oPos s1\<rparr>)"
    using c_u32.load_add_later[OF wf _ s(1) x1 i] by simp
  have l2: "loadString (i\<lparr>iPos := oPos s1\<rparr>) = Some (c_string nm, i\<lparr>iPos := oPos s2\<rparr>)"
    using c_str.load_add_later[OF k1[THEN conjunct1] _ s(2) x2 r] nm by simp
  have l3: "Component_loadFromStream Component_new (i\<lparr>iPos := oPos s2\<rparr>) = Some (c, i\<lparr>iPos := oPos s3\<rparr>)"
    using c_comp.load_add_later[OF k2[THEN conjunct1] c s(3) x3 r] by simp
  have l4: "loadU32 (i\<lparr>iPos := oPos s3\<rparr>) = Some (n, i\<lparr>iPos := oPos s4\<rparr>)"
    using c_u32.load_add_later[OF k3[THEN conjunct1] _ s(4) x r] by simp
  show ?thesis using l1 l2 l3 l4 by simp
qed

text \<open>The loop over the fields and what follows it.\<close>

lemma Element_fields_back:
  assumes inv: "ctx_inv R xs st" and b: "counts_below (2 ^ 31 - 1 - int (Suc (length (eFields e)))) st"
    and can: "cache_canonical (get_elem st) (mElements st)" and ob: "ob \<in> set (mElements st)" "get_elem st ob = Some e"
    and ne: "eFields e \<noteq> []" and live: "\<forall>f\<in>set (eFields e). get_elem st (fElem f) \<noteq> None"
  shows "\<exists>st2. Element_create_fields (length (eFields e)) (map fElem (eFields e)) (map (\<lambda>f. c_string (fName f)) (eFields e))
      (Some (map (\<lambda>f. of_nat (name_len f)) (eFields e))) (Some (map fArraySize (eFields e))) (users (map fElem (eFields e)) st)
      = Some (ob, st2) \<and> decUserRef_all (map fElem (eFields e)) st2 = Some (user_inc ob st)"
proof -
  let ?ws = "map fElem (eFields e)" and ?k = "int (length (eFields e))"
  have cell: "ocell st w \<noteq> None" if "get_elem st w \<noteq> None" for w using that by (auto simp: get_elem_def split: option.splits)
  have "2 ^ 31 - 1 - int (Suc (length (eFields e))) + int (length ?ws) \<le> 2 ^ 31" by simp
  from users_inv[OF inv b this] have i1: "ctx_inv R xs (users ?ws st)" and b1: "counts_below (2 ^ 31 - 2) (users ?ws st)"
    by simp_all
  have "ocell (users ?ws st) ob \<noteq> None" using ob(2) cell users_live by simp
  then obtain c where c: "ocell (users ?ws st) ob = Some c" by blast
  have f: "Element_find_fields (users ?ws st) (length (eFields e)) ?ws (map (\<lambda>f. c_string (fName f)) (eFields e))
      (Some (map (\<lambda>f. of_nat (name_len f)) (eFields e))) (Some (map fArraySize (eFields e))) (mElements (users ?ws st)) = Some (Some ob)"
    using can ob ne by (intro canonical_fields) simp_all
  have "Element_create_fields (length (eFields e)) ?ws (map (\<lambda>f. c_string (fName f)) (eFields e))
      (Some (map (\<lambda>f. of_nat (name_len f)) (eFields e))) (Some (map fArraySize (eFields e))) (users ?ws st)
      = Some (ob, user_inc ob (users ?ws st))"
    by (rule Element_create_fields_found[OF i1 counts_below_mono[OF b1] c f]) simp
  moreover have "decUserRef_all ?ws (users ?ws (user_inc ob st)) = Some (user_inc ob st)"
  proof (rule decUserRef_all_users)
    have lt: "2 ^ 31 - 1 - int (Suc (length (eFields e))) < 2 ^ 31" by linarith
    show "ctx_inv R xs (user_inc ob st)" by (rule user_inc_inv[OF inv b lt])
    show "counts_below (2 ^ 31 - 1 - int (Suc (length (eFields e))) + 1) (user_inc ob st)" by (rule user_inc_counts[OF b lt])
    show "\<forall>w\<in>set ?ws. ocell (user_inc ob st) w \<noteq> None" using live cell user_inc_live by simp
  qed simp
  ultimately show ?thesis unfolding users_commute by blast
qed

lemma elem_storable_live: "elem_storable E N M n ob \<Longrightarrow> E ob \<noteq> None"
  by (cases n) (auto split: option.splits)

lemma sum_list_ge_length: "(\<And>x. x \<in> set xs \<Longrightarrow> 1 \<le> g x) \<Longrightarrow> length xs \<le> sum_list (map (g :: 'a \<Rightarrow> nat) xs)"
  by (induction xs) force+

text \<open>The whole branch for a structure, once the elements of its fields are read back.\<close>

lemma Element_struct_back:
  assumes can: "cache_canonical (get_elem st) (mElements st)" and ob: "ob \<in> set (mElements st)" "get_elem st ob = Some e"
    and ne: "eFields e \<noteq> []" and nm: "\<forall>f\<in>set (eFields e). 0 \<in> set (fName f) \<and> length (fName f) < 2 ^ 32"
    and live: "\<forall>f\<in>set (eFields e). get_elem st (fElem f) \<noteq> None"
    and sub: "\<And>f. f \<in> set (eFields e) \<Longrightarrow> elem_reads_back load ser R xs st (nodes (fElem f)) (fElem f)" and pos: "\<And>ob. 1 \<le> nodes ob"
    and keep: "\<And>ob s s'. ostream_wf s \<Longrightarrow> ser ob s = Some s' \<Longrightarrow> ostream_wf s' \<and> extends s s'"
    and inv: "ctx_inv R xs (users ws st)"
    and b: "counts_below (2 ^ 31 - 1 - int (Suc (sum_list (map (\<lambda>f. nodes (fElem f)) (eFields e))))) (users ws st)"
    and ser: "ostream_wf s" "fields_serialize ser (eFields e) s = Some s'" and i: "reads_from i s'" "iPos i = oPos s"
  shows "do { (args, i5, st1) \<leftarrow> load_fields load (length (eFields e)) i (users ws st);
        subs \<leftarrow> those (map fst args);
        (ob, st2) \<leftarrow> Element_create_fields (length (eFields e)) subs (map (fst \<circ> snd) args)
           (Some (map (fst \<circ> snd \<circ> snd) args)) (Some (map (snd \<circ> snd \<circ> snd) args)) st1;
        st3 \<leftarrow> decUserRef_all subs st2;
        Some (Some ob, i5, st3) } = Some (Some ob, i\<lparr>iPos := oPos s'\<rparr>, user_inc ob (users ws st))"
proof -
  let ?fs = "eFields e" and ?T = "users ws st"
  let ?m = "sum_list (map (\<lambda>f. nodes (fElem f)) ?fs)"
  have bm: "counts_below (2 ^ 31 - 1 - int ?m) ?T" by (rule counts_below_mono[OF b]) simp
  have "length ?fs \<le> ?m" by (rule sum_list_ge_length) (rule pos)
  then have bl: "counts_below (2 ^ 31 - 1 - int (Suc (length ?fs))) ?T" by (intro counts_below_mono[OF b]) simp
  have lf: "load_fields load (length ?fs) i ?T = Some (map field_arg ?fs, i\<lparr>iPos := oPos s'\<rparr>, users (map fElem ?fs) ?T)"
    by (rule load_fields_back[OF sub keep nm pos inv bm ser i])
  obtain st2 where "Element_create_fields (length ?fs) (map fElem ?fs) (map (\<lambda>f. c_string (fName f)) ?fs)
      (Some (map (\<lambda>f. of_nat (name_len f)) ?fs)) (Some (map fArraySize ?fs)) (users (map fElem ?fs) ?T)
      = Some (ob, st2)" "decUserRef_all (map fElem ?fs) st2 = Some (user_inc ob ?T)"
    using Element_fields_back[OF inv bl _ _ _ ne] can ob live by auto
  moreover have "map fst (map field_arg ?fs) = map Some (map fElem ?fs)"
    "map (fst \<circ> snd) (map field_arg ?fs) = map (\<lambda>f. c_string (fName f)) ?fs"
    "map (fst \<circ> snd \<circ> snd) (map field_arg ?fs) = map (\<lambda>f. of_nat (name_len f)) ?fs"
    "map (snd \<circ> snd \<circ> snd) (map field_arg ?fs) = map fArraySize ?fs"
    by (simp_all add: field_arg_def)
  ultimately show ?thesis unfolding lf by (simp only: bind.simps prod.case those_map_Some)
qed

lemma Element_reads_back:
  assumes can: "cache_canonical (get_elem st) (mElements st)"
    and "elem_storable (get_elem st) (get_name st) (mElements st) n ob"
  shows "elem_reads_back (Element_createFromStream n) (Element_serialize (get_elem st) (get_name st) n) R xs st
    (elem_nodes (get_elem st) n ob) ob"
  using assms(2)
proof (induction n arbitrary: ob)
  case (Suc n)
  let ?E = "get_elem st" and ?N = "get_name st"
  show ?case unfolding elem_reads_back_def
  proof (intro allI impI)
    fix ws s s' S i
    let ?T = "users ws st"
    assume inv: "ctx_inv R xs ?T" and b: "counts_below (2 ^ 31 - 1 - int (elem_nodes ?E (Suc n) ob)) ?T" and wf: "ostream_wf s"
      and ser: "Element_serialize ?E ?N (Suc n) ob s = Some s'" and "extends s' S" "reads_from i S" and i: "iPos i = oPos s"
    then have r: "reads_from i s'" using reads_from_extends by blast
    obtain e nm s1 s2 s3 s4 where e: "?E ob = Some e" and nm: "?N ob = Some nm" and s: "addU32 RS_A3D_CLASS_ID_ELEMENT s = Some s1"
      "addString nm s1 = Some s2" "Component_serialize (eComponent e) s2 = Some s3"
      "addU32 (of_nat (length (eFields e))) s3 = Some s4" "fields_serialize (Element_serialize ?E ?N n) (eFields e) s4 = Some s'"
      by (rule Element_serialize_parts[OF ser])
    have st: "ob \<in> set (mElements st)" "0 \<in> set nm" "length nm < 2 ^ 32" "component_storable (eComponent e)"
      "length (eFields e) < 2 ^ 32"
      and fs: "\<forall>f\<in>set (eFields e). 0 \<in> set (fName f) \<and> length (fName f) < 2 ^ 32 \<and> elem_storable ?E ?N (mElements st) n (fElem f)"
      using Suc.prems e nm by simp_all
    note head = Element_head_back[OF wf s(1-4) _ st(2-4) r i]
    have wf4: "ostream_wf s4" by (rule Element_head_wf[OF wf s(1-4)])
    have x: "extends s4 s'" by (rule fields_serialize_keeps[OF Element_serialize_keeps wf4 s(5), THEN conjunct2])
    show "Element_createFromStream (Suc n) i ?T = Some (Some ob, i\<lparr>iPos := oPos s'\<rparr>, user_inc ob ?T)"
    proof (cases "eFields e = []")
      case True
      have "counts_below (2 ^ 31 - 2) ?T" using b e True by simp
      from Element_create_found[OF inv this] have "Element_create (mType (eComponent e)) (mKind (eComponent e))
          (mNormalized (eComponent e)) (mVectorSize (eComponent e)) ?T = Some (ob, user_inc ob ?T)"
        using canonical_single[OF can st(1) e True] by (simp add: user_inc_def)
      then show ?thesis using head[OF x] s(5) True by simp
    next
      case False
      have un: "unat (of_nat (length (eFields e)) :: u32) = length (eFields e)" using st(5) by (simp add: unat_of_nat)
      then have nz: "(of_nat (length (eFields e)) :: u32) \<noteq> 0" using False by (metis length_0_conv unat_0)
      have "reads_from (i\<lparr>iPos := oPos s4\<rparr>) s'" using r by (simp add: reads_from_def)
      then show ?thesis unfolding head[OF x] un using nz fs Suc.IH b e
        by (subst Element_struct_back[OF can st(1) e False _ _ _ elem_nodes_pos Element_serialize_keeps inv _ wf4 s(5)])
          (auto dest: elem_storable_live)
    qed
  qed
qed simp

section \<open>Creation keeps the cache canonical\<close>

lemma canonical_push:
  assumes can: "cache_canonical E M" and same: "\<And>w. w \<in> set M \<Longrightarrow> E' w = E w" and e: "E' n = Some e" "n \<notin> set M"
    and nm: "\<forall>f\<in>set (eFields e). 0 \<in> set (fName f)" and nf: "\<And>w. w \<in> set M \<Longrightarrow> \<not> elem_same (the (E w)) e"
  shows "cache_canonical E' (M @ [n])"
proof -
  have "elem_same a b \<Longrightarrow> elem_same b a" for a b
    by (auto simp: elem_same_def field_eq_def list_all2_conv_all_nth)
  then have "\<not> elem_same e (the (E w))" if "w \<in> set M" for w using nf that by blast
  then show ?thesis using can same e nm nf unfolding cache_canonical_def by (auto simp: elem_same_refl)
qed

lemma canonical_shrinks:
  assumes "cache_canonical (get_elem st) (mElements st)" and "cache_shrinks st st'"
  shows "cache_canonical (get_elem st') (mElements st')"
proof -
  have "w \<in> set (mElements st)" "get_elem st' w = get_elem st w" if "w \<in> set (mElements st')" for w
    using assms(2) that by (auto simp: cache_shrinks_def get_elem_odata)
  then show ?thesis using assms(1) unfolding cache_canonical_def by simp
qed

text \<open>Deleting objects keeps it.\<close>

lemma decUserRef_canonical:
  assumes "cache_canonical (get_elem st) (mElements st)" and "cache_ok st" and "decUserRef rs_vt ob st = Some (b, st')"
  shows "cache_canonical (get_elem st') (mElements st')"
proof -
  define s1 where "s1 = ocell_upd ob (\<lambda>c. c\<lparr>mUserRefCount := mUserRefCount c - 1\<rparr>) st"
  have s1: "cache_canonical (get_elem s1) (mElements s1)" "cache_ok s1"
    using assms(1,2) by (simp_all add: s1_def cache_ok_upd)
  have "checkDelete rs_vt (Some ob) s1 = Some (b, st') \<or> st' = s1"
    using assms(3) by (auto simp: decUserRef_def s1_def bind_Some_iff Let_def split: if_splits)
  moreover have "cache_shrinks s1 st'" if "checkDelete rs_vt (Some ob) s1 = Some (b, st')"
    using that s1(2) checkDelete_shrinks[OF decSysRef_shrinks] unfolding checkDelete_def by blast
  ultimately show ?thesis using s1(1) canonical_shrinks by blast
qed

definition sys_inc :: "nat \<Rightarrow> rsctx \<Rightarrow> rsctx" where
  "sys_inc ob st = ocell_upd ob (\<lambda>c. c\<lparr>mSysRefCount := mSysRefCount c + 1\<rparr>) st"

lemma sys_inc_same [simp]:
  "get_elem (sys_inc w st) = get_elem st" "mElements (sys_inc w st) = mElements st"
  by (simp_all add: sys_inc_def)

lemma holds_same [simp]:
  "get_elem (fold sys_inc ws st) = get_elem st" "mElements (fold sys_inc ws st) = mElements st"
  by (induction ws arbitrary: st) simp_all

lemma sys_inc_counts:
  assumes "counts_below n st" and "n < 2 ^ 31" shows "counts_below (n + 1) (sys_inc w st)"
  unfolding counts_below_def
proof (intro allI impI)
  fix x d
  assume d: "ocell (sys_inc w st) x = Some d"
  then obtain c where c: "ocell st x = Some c"
    and e: "d = (if x = w then c\<lparr>mSysRefCount := mSysRefCount c + 1\<rparr> else c)"
    by (auto simp: sys_inc_def ocell_ocell_upd split: if_splits)
  have b: "sint (mSysRefCount c) < n" "sint (mUserRefCount c) < n" using assms(1) c unfolding counts_below_def by blast+
  then have "sint (mSysRefCount c + 1) = sint (mSysRefCount c) + 1" using assms(2) by (intro sint_plus_one) simp
  then show "sint (mSysRefCount d) < n + 1 \<and> sint (mUserRefCount d) < n + 1" using b e by simp
qed

text \<open>The loop that makes the fields: each takes a reference to its element and a copy of its name.\<close>

definition made_field :: "element_field \<Rightarrow> element_field" where
  "made_field g = \<lparr>fName = c_string (fName g), fElem = fElem g, fOffsetBits = 0, fOffsetBitsUnpadded = 0, fArraySize = fArraySize g\<rparr>"

lemma rsuCopyString_c_string:
  assumes "length (takeWhile (\<lambda>b. b \<noteq> 0) s) < 2 ^ 64"
  shows "rsuCopyString (map Some (c_string s)) 0 (of_nat (length (takeWhile (\<lambda>b. b \<noteq> 0) s))) = Some (c_string s)"
proof -
  have "unat (of_nat (length (takeWhile (\<lambda>b. b \<noteq> 0) s)) :: u64) = length (takeWhile (\<lambda>b. b \<noteq> 0) s)"
    using assms by (simp add: unat_of_nat)
  then show ?thesis by (simp add: rsuCopyString_def mem_read_def mem_get_def c_string_def take_map)
qed

lemma make_fields_eq:
  assumes inv: "ctx_inv R xs st" and "counts_below (2 ^ 31 - 1 - int (length gs)) st"
    and "\<forall>g\<in>set gs. ocell st (fElem g) \<noteq> None \<and> name_len g < 2 ^ 64"
  shows "make_fields (length gs) (length hs) (map fElem (hs @ gs)) (map (\<lambda>f. c_string (fName f)) (hs @ gs))
      (Some (map (\<lambda>f. of_nat (name_len f)) (hs @ gs))) (Some (map fArraySize (hs @ gs))) st
    = Some (map made_field gs, fold sys_inc (map fElem gs) st)
    \<and> ctx_inv (mset (map fElem gs) + R) xs (fold sys_inc (map fElem gs) st)
    \<and> counts_below (2 ^ 31 - 1) (fold sys_inc (map fElem gs) st)"
  using assms
proof (induction gs arbitrary: hs R st)
  case (Cons g gs)
  let ?s = "sys_inc (fElem g) st" and ?as = "hs @ g # gs"
  obtain c where c: "ocell st (fElem g) = Some c" using Cons.prems(3) by auto
  have lt: "2 ^ 31 - 1 - int (length (g # gs)) < 2 ^ 31" by linarith
  have "sint (mSysRefCount c) < 2 ^ 31 - 1 - int (length (g # gs))" using Cons.prems(2) c unfolding counts_below_def by blast
  then have i: "ctx_inv (add_mset (fElem g) R) xs ?s" unfolding sys_inc_def by (intro ctx_hold[OF Cons.prems(1) c]) simp
  have b: "counts_below (2 ^ 31 - 1 - int (length gs)) ?s" using sys_inc_counts[OF Cons.prems(2) lt] by simp
  have l: "\<forall>g\<in>set gs. ocell ?s (fElem g) \<noteq> None \<and> name_len g < 2 ^ 64"
    using Cons.prems(3) unfolding sys_inc_def live_upd by simp
  have a: "field_args (map fElem ?as) (map (\<lambda>f. c_string (fName f)) ?as)
      (Some (map (\<lambda>f. of_nat (name_len f)) ?as)) (Some (map fArraySize ?as)) (length hs)
      = Some (fElem g, c_string (fName g), of_nat (name_len g), fArraySize g)"
    by (simp add: field_args_def arg_nth_def nth_append)
  have n: "rsuCopyString (map Some (c_string (fName g))) 0 (of_nat (name_len g)) = Some (c_string (fName g))"
    using Cons.prems(3) by (intro rsuCopyString_c_string) simp
  have r: "ObjectBaseRef_set rs_vt None (Some (fElem g)) st = Some (Some (fElem g), ?s)"
    unfolding sys_inc_def by (rule ObjectBaseRef_set_None[OF c])
  show ?case using Cons.IH[OF i b l, of "hs @ [g]"] a n r by (simp add: made_field_def)
qed simp

lemma Element_compute_keeps_fields:
  assumes "Element_compute E e = Some e'" and "eFields e \<noteq> []"
  shows "list_all2 same_field (eFields e') (eFields e)"
proof -
  obtain cnt e1 e2 n where c: "noPaddingFieldCount (eFields e) 0 = Some cnt"
    "eFields e1 = []" "hFields (eHal e1) = []" "hFieldArraySizes (eHal e1) = []"
    "hFieldNames (eHal e1) = []" "hFieldNameLengths (eHal e1) = []" "hFieldOffsetBytes (eHal e1) = []"
    "hFieldsCount (eHal e1) = cnt" "eBits e1 = eBits e" "eHasReference e1 = eHasReference e"
    "Element_compute_loop E (eFields e) 0 0 e1 = Some e2" "getSizeBytes E e2 = Some n"
    "e' = e2\<lparr>eHal := (eHal e2)\<lparr>hElementSizeBytes := ucast n\<rparr>\<rparr>"
    by (rule Element_compute_struct[OF assms])
  then show ?thesis using Element_compute_loop_view[OF c(11)] by auto
qed

lemma made_fields_same:
  assumes "list_all2 same_field fs (map made_field gs)"
  shows "map fElem fs = map fElem gs" and "list_all2 field_eq fs gs" and "\<forall>f\<in>set fs. 0 \<in> set (fName f)"
proof -
  have "fElem (fs ! k) = fElem (gs ! k) \<and> fName (fs ! k) = c_string (fName (gs ! k)) \<and> fArraySize (fs ! k) = fArraySize (gs ! k)"
    if "k < length fs" for k
    using assms that by (auto simp: list_all2_conv_all_nth same_field_def made_field_def)
  moreover have "length fs = length gs" using assms by (auto dest: list_all2_lengthD)
  moreover have "c_string (c_string s) = c_string s" "0 \<in> set (c_string s)" for s
    by (simp_all add: c_string_def takeWhile_append)
  ultimately show "map fElem fs = map fElem gs" "list_all2 field_eq fs gs" "\<forall>f\<in>set fs. 0 \<in> set (fName f)"
    by (auto simp: list_all2_conv_all_nth field_eq_def in_set_conv_nth intro!: nth_equalityI)
qed

text \<open>The arguments \<open>gs\<close> describe are the names, lengths, elements and array sizes of the fields \<open>gs\<close>.\<close>

abbreviation create_struct :: "element_field list \<Rightarrow> rsctx \<Rightarrow> (nat \<times> rsctx) option" where
  "create_struct gs st \<equiv> Element_create_fields (length gs) (map fElem gs) (map (\<lambda>f. c_string (fName f)) gs)
     (Some (map (\<lambda>f. of_nat (name_len f)) gs)) (Some (map fArraySize gs)) st"

lemma create_struct_steps:
  assumes inv: "ctx_inv R xs st" and can: "cache_canonical (get_elem st) (mElements st)"
    and b: "counts_below (2 ^ 31 - 3 - int (length gs)) st" and ne: "gs \<noteq> []"
    and live: "\<forall>g\<in>set gs. ocell st (fElem g) \<noteq> None \<and> name_len g < 2 ^ 64"
    and nf: "find (\<lambda>w. list_all2 field_eq (eFields (the (get_elem st w))) gs) (mElements st) = None"
    and run: "create_struct gs st = Some (ob, st')"
  shows "\<exists>e s3 c. ctx_inv (mset (map fElem gs) + add_mset (length (mObjs st)) R) (length (mObjs st) # xs) s3
    \<and> ocell s3 (length (mObjs st)) = Some c \<and> obj_data c = OElement Element_new \<and> sint (mUserRefCount c) < 2 ^ 31 - 1
    \<and> mElements s3 = mElements st \<and> (\<forall>x. x \<noteq> length (mObjs st) \<longrightarrow> get_elem s3 x = get_elem st x)
    \<and> list_all2 same_field (eFields e) (map made_field gs)
    \<and> ref_to_user (length (mObjs st)) ((put_obj (length (mObjs st)) (OElement e) s3)\<lparr>mElements := mElements st @ [length (mObjs st)]\<rparr>)
      = Some (ob, st')"
proof -
  let ?n = "length (mObjs st)"
  obtain s1 s2 c where n: "ObjectBase_new (OElement Element_new) st = Some (?n, s1)"
    "ObjectBaseRef_set rs_vt None (Some ?n) s1 = Some (Some ?n, s2)"
    "ctx_inv (add_mset ?n R) (?n # xs) s2" "ocell s2 ?n = Some c" "mSysRefCount c = 1" "mUserRefCount c = 0"
    "obj_data c = OElement Element_new" "mElements s2 = mElements st"
    "\<And>x. x \<noteq> ?n \<Longrightarrow> ostats (ocell s2 x) = ostats (ocell st x)"
    using new_object[OF inv, of "OElement Element_new"] by (auto simp: Element_releases_def Element_new_def)
  obtain g d where g: "g \<in> set gs" "ocell st (fElem g) = Some d" using ne live by (cases gs) auto
  have "sint (mSysRefCount d) < 2 ^ 31 - 3 - int (length gs)" using b g(2) unfolding counts_below_def by blast
  then have "2 \<le> 2 ^ 31 - 1 - int (length gs)" using ctx_cell(3)[OF inv g(2)] by linarith
  then have b2: "counts_below (2 ^ 31 - 1 - int (length gs)) s2"
    using n(5,6) by (intro counts_below_cell[OF b n(9) n(4)]) simp_all
  have "ocell s2 (fElem g) \<noteq> None \<and> name_len g < 2 ^ 64" if "g \<in> set gs" for g
    using live that n(4) n(9)[of "fElem g"] by (cases "fElem g = ?n") (fastforce simp: ostats_def)+
  from make_fields_eq[OF n(3) b2, of "[]"] this obtain s3 where
    mk: "make_fields (length gs) 0 (map fElem gs) (map (\<lambda>f. c_string (fName f)) gs)
        (Some (map (\<lambda>f. of_nat (name_len f)) gs)) (Some (map fArraySize gs)) s2 = Some (map made_field gs, s3)"
    and s3: "s3 = fold sys_inc (map fElem gs) s2" "ctx_inv (mset (map fElem gs) + add_mset ?n R) (?n # xs) s3"
      "counts_below (2 ^ 31 - 1) s3"
    by auto
  have "Element_find_fields st (length gs) (map fElem gs) (map (\<lambda>f. c_string (fName f)) gs)
      (Some (map (\<lambda>f. of_nat (name_len f)) gs)) (Some (map fArraySize gs)) (mElements st) = Some None"
    using can nf by (subst Element_find_fields_eq) (auto simp: cache_canonical_def)
  with run mk n(1,2) s3(1) n(8) obtain e where e: "Element_compute (get_elem s3) (Element_new\<lparr>eFields := map made_field gs\<rparr>) = Some e"
    and rt: "ref_to_user ?n ((put_obj ?n (OElement e) s3)\<lparr>mElements := mElements st @ [?n]\<rparr>) = Some (ob, st')"
    by (auto simp: Element_create_fields_def Element_createRef_fields_def Let_def bind_Some_iff put_obj_def)
  have g3: "get_elem s3 = get_elem s2" "mElements s3 = mElements st" using s3(1) n(8) by simp_all
  have "get_elem s3 x = get_elem st x" if "x \<noteq> ?n" for x
    using n(9)[OF that] g3(1) by (cases "ocell st x"; cases "ocell s2 x") (auto simp: get_elem_def ostats_def)
  moreover have "get_elem s3 ?n = Some Element_new" using g3 n(4,7) by (simp add: get_elem_def)
  then obtain c3 where c3: "ocell s3 ?n = Some c3" "obj_data c3 = OElement Element_new"
    by (auto simp: get_elem_def split: option.splits rsobj.splits)
  moreover have "sint (mUserRefCount c3) < 2 ^ 31 - 1" using s3(3) c3(1) unfolding counts_below_def by blast
  moreover have "list_all2 same_field (eFields e) (map made_field gs)"
    using Element_compute_keeps_fields[OF e] ne by simp
  ultimately show ?thesis using s3(2) g3(2) rt by blast
qed

lemma create_struct_new:
  assumes inv: "ctx_inv R xs st" and can: "cache_canonical (get_elem st) (mElements st)"
    and b: "counts_below (2 ^ 31 - 3 - int (length gs)) st" and ne: "gs \<noteq> []"
    and live: "\<forall>g\<in>set gs. ocell st (fElem g) \<noteq> None \<and> name_len g < 2 ^ 64"
    and nf: "find (\<lambda>w. list_all2 field_eq (eFields (the (get_elem st w))) gs) (mElements st) = None"
    and run: "create_struct gs st = Some (ob, st')"
  shows "ctx_inv R (length (mObjs st) # xs) st' \<and> cache_canonical (get_elem st') (mElements st') \<and> ob \<in> set (mElements st')"
proof -
  let ?n = "length (mObjs st)"
  obtain e s3 c where s3: "ctx_inv (mset (map fElem gs) + add_mset ?n R) (?n # xs) s3" "ocell s3 ?n = Some c"
      "obj_data c = OElement Element_new" "sint (mUserRefCount c) < 2 ^ 31 - 1" "mElements s3 = mElements st"
      "\<forall>x. x \<noteq> ?n \<longrightarrow> get_elem s3 x = get_elem st x"
    and fs: "list_all2 same_field (eFields e) (map made_field gs)"
    and rt: "ref_to_user ?n ((put_obj ?n (OElement e) s3)\<lparr>mElements := mElements st @ [?n]\<rparr>) = Some (ob, st')"
    using create_struct_steps[OF assms] by blast
  note ef = made_fields_same[OF fs]
  have nin: "?n \<notin> set (mElements st)" using inv by (auto simp: ctx_inv_def cache_ok_def get_elem_def ocell_def)
  define s4 where "s4 = put_obj ?n (OElement e) s3"
  define s5 where "s5 = s4\<lparr>mElements := mElements s4 @ [?n]\<rparr>"
  have rel: "mset (rs_releases (OElement e)) = mset (map fElem gs)" "rs_releases (obj_data c) = []"
    using ef(1) s3(3) by (simp_all add: Element_releases_def Element_new_def)
  have i4: "ctx_inv (add_mset ?n R) (?n # xs) s4"
    using ctx_put[of "OElement e" "add_mset ?n R" "?n # xs" s3 ?n c] s3(1-3) rel by (simp add: s4_def)
  have g4: "get_elem s4 x = (if x = ?n then Some e else get_elem s3 x)" "mElements s4 = mElements st" for x
    using s3(2,5) by (auto simp: s4_def put_obj_def get_elem_def ocell_ocell_upd fun_eq_iff)
  have i5: "ctx_inv (add_mset ?n R) (?n # xs) s5"
    unfolding s5_def using g4 nin by (intro ctx_push_element[OF i4]) simp_all
  have c5: "ocell s5 ?n = Some (c\<lparr>obj_data := OElement e\<rparr>)" by (simp add: s5_def s4_def put_obj_def ocell_ocell_upd s3(2))
  obtain st2 where st2: "ref_to_user ?n s5 = Some (?n, st2)" "ctx_inv R (?n # xs) st2"
    "get_elem st2 = get_elem s5" "mElements st2 = mElements s5"
    using ctx_to_user[OF i5 c5] s3(4) by auto
  have "ref_to_user ?n s5 = Some (ob, st')" using rt g4(2) by (simp add: s5_def s4_def)
  then have eq: "ob = ?n" "st' = st2" using st2(1) by simp_all
  have "cache_canonical (get_elem s5) (mElements st @ [?n])"
  proof (rule canonical_push[OF can _ _ nin ef(3)])
    show "get_elem s5 w = get_elem st w" if "w \<in> set (mElements st)" for w
      using that nin s3(6) by (auto simp: s5_def g4)
    show "get_elem s5 ?n = Some e" by (simp add: s5_def g4)
    have "list_all2 field_eq a gs" if "list_all2 field_eq a (eFields e)" for a
      using that ef(2) by (auto simp: field_eq_def list_all2_conv_all_nth)
    then show "\<not> elem_same (the (get_elem st w)) e" if "w \<in> set (mElements st)" for w
      using nf that by (auto simp: elem_same_def find_None_iff)
  qed
  then show ?thesis using eq st2(2-4) by (simp add: s5_def g4)
qed

text \<open>\<open>Element::create\<close> for a structure: whether it finds the structure or makes it, the reference counts stay
  exact and the cache stays canonical.\<close>

lemma create_struct_keeps:
  assumes inv: "ctx_inv R xs st" and can: "cache_canonical (get_elem st) (mElements st)"
    and b: "counts_below (2 ^ 31 - 3 - int (length gs)) st" and ne: "gs \<noteq> []"
    and live: "\<forall>g\<in>set gs. ocell st (fElem g) \<noteq> None \<and> name_len g < 2 ^ 64"
    and run: "create_struct gs st = Some (ob, st')"
  shows "\<exists>ys. ctx_inv R ys st' \<and> cache_canonical (get_elem st') (mElements st') \<and> ob \<in> set (mElements st')"
proof (cases "find (\<lambda>w. list_all2 field_eq (eFields (the (get_elem st w))) gs) (mElements st)")
  case None
  then show ?thesis using create_struct_new[OF inv can b ne live None run] by blast
next
  case (Some w)
  have w: "w \<in> set (mElements st)" using Some by (auto simp: find_Some_iff)
  then have "get_elem st w \<noteq> None" using inv by (auto simp: ctx_inv_def cache_ok_def)
  then obtain c where c: "ocell st w = Some c" by (auto simp: get_elem_def split: option.splits)
  have f: "Element_find_fields st (length gs) (map fElem gs) (map (\<lambda>f. c_string (fName f)) gs)
      (Some (map (\<lambda>f. of_nat (name_len f)) gs)) (Some (map fArraySize gs)) (mElements st) = Some (Some w)"
    using can Some by (subst Element_find_fields_eq) (auto simp: cache_canonical_def)
  have b1: "counts_below (2 ^ 31 - 1) st" by (rule counts_below_mono[OF b]) simp
  have "ob = w" "st' = user_inc w st" using run Element_create_fields_found[OF inv b1 c f] by auto
  then show ?thesis using user_inc_inv[OF inv b1] can w by auto
qed

text \<open>The same for a single component, where \<open>Component::set\<close> leaves the arguments as they are.\<close>

lemma Element_create_canonical:
  assumes inv: "ctx_inv R xs st" and can: "cache_canonical (get_elem st) (mElements st)" and small: "counts_below (2 ^ 31 - 3) st"
    and cs: "Component_set dt dk isNorm vecSize Component_new = Some cp"
    and cp: "mNormalized cp = isNorm" "mVectorSize cp = vecSize"
    and run: "Element_create dt dk isNorm vecSize st = Some (ob, st')"
  shows "cache_canonical (get_elem st') (mElements st') \<and> ob \<in> set (mElements st')"
proof (cases "find (\<lambda>ob. elem_match dt dk isNorm vecSize (the (get_elem st ob))) (mElements st)")
  case None
  let ?n = "length (mObjs st)"
  obtain s c where s: "Element_createRef dt dk isNorm vecSize st = Some (?n, s)" "ctx_inv (add_mset ?n R) (?n # xs) s"
    "find (\<lambda>ob. elem_match dt dk isNorm vecSize (the (get_elem s ob))) (mElements s) = Some ?n"
    "ocell s ?n = Some c" "mUserRefCount c = 0" "mElements s = mElements st @ [?n]"
    "\<forall>x. x \<noteq> ?n \<longrightarrow> get_elem s x = get_elem st x"
    using Element_createRef_new[OF inv cs Component_set_keeps[OF cs] cp None] by blast
  obtain st2 where st2: "ref_to_user ?n s = Some (?n, st2)" "get_elem st2 = get_elem s" "mElements st2 = mElements s"
    using ctx_to_user[OF s(2,4)] s(5) by auto
  have eq: "ob = ?n" "st' = st2" using run s(1) st2(1) by (simp_all add: Element_create_def)
  have nin: "?n \<notin> set (mElements st)" using inv by (auto simp: ctx_inv_def cache_ok_def get_elem_def ocell_def)
  have "get_elem s ?n \<noteq> None" using s(2,6) by (auto simp: ctx_inv_def cache_ok_def)
  then obtain e where e: "get_elem s ?n = Some e" by blast
  have m: "elem_match dt dk isNorm vecSize e" using s(3) e by (auto simp: find_Some_iff)
  have "cache_canonical (get_elem s) (mElements st @ [?n])"
  proof (rule canonical_push[OF can _ _ nin])
    show "get_elem s ?n = Some e" by (fact e)
    show "get_elem s w = get_elem st w" if "w \<in> set (mElements st)" for w using that nin s(7) by metis
    show "\<forall>f\<in>set (eFields e). 0 \<in> set (fName f)" using m by (simp add: elem_match_def)
    show "\<not> elem_same (the (get_elem st w)) e" if "w \<in> set (mElements st)" for w
      using None that m by (auto simp: find_None_iff elem_match_def elem_same_def)
  qed
  then show ?thesis using eq st2(2,3) s(6) by simp
next
  case (Some w)
  have small': "counts_below (2 ^ 31 - 2) st" by (rule counts_below_mono[OF small]) simp
  have "ob = w" "st' = user_inc w st" using run Element_create_found[OF inv small' Some] by (auto simp: user_inc_def)
  then show ?thesis using can Some by (auto simp: find_Some_iff)
qed

lemma rc_inv_name:
  assumes "rc_inv vt R xs st"
  shows "rc_inv vt R xs (ocell_upd ob (\<lambda>c. c\<lparr>mName := n\<rparr>) st)"
proof -
  let ?st = "ocell_upd ob (\<lambda>c. c\<lparr>mName := n\<rparr>) st"
  have h: "held vt ?st xs = held vt st xs" by (rule held_count_upd) simp
  have "dlist ?st xs"
    using assms by (intro dlist_count_upd) (auto simp: rc_inv_def olinks_def option.map_comp comp_def)
  moreover have "\<exists>c. ocell ?st w = Some c \<and> 0 \<le> sint (mUserRefCount c)
      \<and> sint (mSysRefCount c) = int (count (held vt st xs + R) w)" if w: "w \<in> set xs" for w
  proof -
    obtain c where "ocell st w = Some c" "0 \<le> sint (mUserRefCount c)"
      "sint (mSysRefCount c) = int (count (held vt st xs + R) w)"
      by (rule rc_inv_cell[OF assms(1) w])
    then show ?thesis by (cases "w = ob") (simp_all add: ocell_ocell_upd)
  qed
  ultimately show ?thesis using assms(1) by (simp add: rc_inv_def h)
qed

text \<open>\<open>setName\<close> keeps the context.\<close>

lemma ctx_name:
  assumes "ctx_inv R xs st"
  shows "ctx_inv R xs (ocell_upd ob (\<lambda>c. c\<lparr>mName := n\<rparr>) st)"
proof -
  let ?st = "ocell_upd ob (\<lambda>c. c\<lparr>mName := n\<rparr>) st"
  have "rc_inv rs_vt R xs ?st" using assms by (intro rc_inv_name) (simp add: ctx_inv_def)
  moreover have "no_garbage xs ?st"
    using assms by (auto simp: ctx_inv_def no_garbage_def ocell_ocell_upd split: if_splits)
  moreover have "cache_ok ?st" using assms by (intro cache_ok_upd) (auto simp: ctx_inv_def)
  ultimately show ?thesis using assms unfolding ctx_inv_def live_upd by blast
qed

section \<open>Reading back what was written\<close>

text \<open>C24: What \<open>serialize\<close> writes for an element, single or a structure of any nesting, \<open>createFromStream\<close> reads back to its
  end and returns the element itself: nothing is created, every reference taken on the way is given back, and
  the only change is one more user reference for the caller. This is for elements the format can hold
  (\<open>elem_storable\<close>: the element and the elements of its fields are named and in the cache, and their type and
  kind fit in a byte), in a cache without duplicates, which creation and deletion keep it to be
  (\<open>Element_create_canonical\<close>, \<open>create_struct_keeps\<close>, \<open>decUserRef_canonical\<close>), with room in the
  reference counts for the references taken.\<close>

theorem Element_stream_roundtrip:
  assumes inv: "ctx_inv R xs st" and can: "cache_canonical (get_elem st) (mElements st)"
    and ok: "elem_storable (get_elem st) (get_name st) (mElements st) n ob"
    and room: "counts_below (2 ^ 31 - 1 - int (elem_nodes (get_elem st) n ob)) st"
    and wf: "ostream_wf s" and ser: "Element_serialize (get_elem st) (get_name st) n ob s = Some s'"
    and i: "reads_from i s'" "iPos i = oPos s"
  shows "Element_createFromStream n i st = Some (Some ob, i\<lparr>iPos := oPos s'\<rparr>,
    ocell_upd ob (\<lambda>c. c\<lparr>mUserRefCount := mUserRefCount c + 1\<rparr>) st)"
  using elem_reads_backD[OF Element_reads_back[OF can ok], of R xs "[]", unfolded fold_simps id_apply, OF inv room wf ser extends_refl i]
  by (simp add: user_inc_def)

text \<open>A context with the element \<open>f\<close> of four floats and the structure \<open>s\<close> with the fields \<open>a\<close>, one \<open>f\<close>, and \<open>b\<close>,
  three \<open>f\<close>.\<close>

definition ex_fields :: "element_field list" where
  "ex_fields = [\<lparr>fName = [97, 0], fElem = 0, fOffsetBits = 0, fOffsetBitsUnpadded = 0, fArraySize = 1\<rparr>,
     \<lparr>fName = [98, 0], fElem = 0, fOffsetBits = 0, fOffsetBitsUnpadded = 0, fArraySize = 3\<rparr>]"

definition plain_st :: rsctx where
  "plain_st = snd (the (Element_create RS_TYPE_FLOAT_32 RS_KIND_USER False 4 rsctx_empty))"

definition struct_st :: rsctx where
  "struct_st = snd (the (create_struct ex_fields plain_st))"

definition named_st :: rsctx where
  "named_st = ocell_upd 0 (\<lambda>c. c\<lparr>mName := Some [Some 102, Some 0]\<rparr>)
     (ocell_upd 1 (\<lambda>c. c\<lparr>mName := Some [Some 115, Some 0]\<rparr>) struct_st)"

definition named_stream :: ostream where
  "named_stream = the (Element_serialize (get_elem named_st) (get_name named_st) 2 1 (OStream_new 256 False))"

lemma counts_below_list:
  assumes "list_all (\<lambda>c. case c of None \<Rightarrow> True | Some c \<Rightarrow> sint (mSysRefCount c) < n \<and> sint (mUserRefCount c) < n) (mObjs st)"
  shows "counts_below n st"
  using assms unfolding counts_below_def by (fastforce simp: ocell_def list_all_length split: if_splits)

lemma named_st_ok: "\<exists>ys. ctx_inv {#} ys named_st \<and> cache_canonical (get_elem named_st) (mElements named_st)"
proof -
  let ?C = "Component_set RS_TYPE_FLOAT_32 RS_KIND_USER False 4 Component_new"
  obtain st0 where st0: "Element_create RS_TYPE_FLOAT_32 RS_KIND_USER False 4 rsctx_empty = Some (0, st0)" "ctx_inv {#} [0] st0"
    "counts_below (2 ^ 31 - 3) st0" using sample_element by blast
  have eq0: "st0 = plain_st" by (simp add: plain_st_def st0(1))
  have "Option.is_none ?C = False" "mNormalized (the ?C) = False" "mVectorSize (the ?C) = 4" by code_simp+
  then obtain cp where cp: "?C = Some cp" "mNormalized cp = False" "mVectorSize cp = 4" by (auto simp: Option.is_none_def)
  have e: "counts_below (2 ^ 31 - 3) rsctx_empty" "cache_canonical (get_elem rsctx_empty) (mElements rsctx_empty)"
    by (simp_all add: counts_below_def rsctx_empty_def ocell_def cache_canonical_def)
  have c0: "cache_canonical (get_elem plain_st) (mElements plain_st)"
    using Element_create_canonical[OF rsctx_empty_inv e(2,1) cp st0(1)] eq0 by simp
  have "list_all (\<lambda>c. case c of None \<Rightarrow> True | Some c \<Rightarrow> sint (mSysRefCount c) < 2 ^ 31 - 3 - int (length ex_fields)
      \<and> sint (mUserRefCount c) < 2 ^ 31 - 3 - int (length ex_fields)) (mObjs plain_st)" by code_simp
  note b = counts_below_list[OF this]
  have "Option.is_none (ocell plain_st 0) = False" by code_simp
  then have l: "\<forall>g\<in>set ex_fields. ocell plain_st (fElem g) \<noteq> None \<and> name_len g < 2 ^ 64"
    by (auto simp: ex_fields_def Option.is_none_def)
  have "Option.is_none (create_struct ex_fields plain_st) = False" by code_simp
  then obtain ob where r: "create_struct ex_fields plain_st = Some (ob, struct_st)" by (auto simp: struct_st_def Option.is_none_def)
  have "ex_fields \<noteq> []" by (simp add: ex_fields_def)
  from create_struct_keeps[OF st0(2)[unfolded eq0] c0 b this l r] obtain ys where
    "ctx_inv {#} ys struct_st" "cache_canonical (get_elem struct_st) (mElements struct_st)" by blast
  then show ?thesis by (auto simp: named_st_def intro!: exI[of _ ys] ctx_name)
qed

theorem Element_stream_roundtrip_witness:
  "Element_serialize (get_elem named_st) (get_name named_st) 2 1 (OStream_new 256 False) = Some named_stream
    \<and> Element_createFromStream 2 (IStream_new (oData named_stream) False) named_st
      = Some (Some 1, (IStream_new (oData named_stream) False)\<lparr>iPos := oPos named_stream\<rparr>,
              ocell_upd 1 (\<lambda>c. c\<lparr>mUserRefCount := mUserRefCount c + 1\<rparr>) named_st)"
proof -
  obtain ys where i: "ctx_inv {#} ys named_st" "cache_canonical (get_elem named_st) (mElements named_st)" using named_st_ok by blast
  have ok: "elem_storable (get_elem named_st) (get_name named_st) (mElements named_st) 2 1" by code_simp
  have "list_all (\<lambda>c. case c of None \<Rightarrow> True | Some c \<Rightarrow> sint (mSysRefCount c) < 2 ^ 31 - 1 - int (elem_nodes (get_elem named_st) 2 1)
      \<and> sint (mUserRefCount c) < 2 ^ 31 - 1 - int (elem_nodes (get_elem named_st) 2 1)) (mObjs named_st)" by code_simp
  note b = counts_below_list[OF this]
  have "Option.is_none (Element_serialize (get_elem named_st) (get_name named_st) 2 1 (OStream_new 256 False)) = False" by code_simp
  then have ser: "Element_serialize (get_elem named_st) (get_name named_st) 2 1 (OStream_new 256 False) = Some named_stream"
    by (auto simp: named_stream_def Option.is_none_def)
  have "oUse64 named_stream = False \<and> unat (oPos named_stream) \<le> length (oData named_stream)" by code_simp
  then have r: "reads_from (IStream_new (oData named_stream) False) named_stream" by (simp add: reads_from_def IStream_new_def)
  have wf: "ostream_wf (OStream_new 256 False)" by (rule OStream_new_wf) simp_all
  show ?thesis
    using Element_stream_roundtrip[OF i ok b wf ser r] ser by (simp add: IStream_new_def OStream_new_def)
qed

end
