(* ===== verification/Rs_Idct.thy ===== *)
theory Rs_Idct
  imports Rs_Runtime
begin

unbundle bit_operations_syntax

text \<open>
  The inverse discrete cosine transforms of \<open>driver/runtime/rs_idct.c\<close>. A one-dimensional transform
  maps a list of coefficients to a list; an array that the code indexes only with constants is a
  group of variables (\<open>step1[5]\<close> is \<open>step1_5\<close>), and the assignments are a \<open>let\<close> chain in the order of
  the code. The two long transforms are cut at the comments that name their stages. An \<open>int16_t\<close>
  operand is promoted with \<open>sx\<close>, and a result is stored with \<open>tr\<close>.

  A two-dimensional transform reads its block, transforms the rows and then the columns, and
  adds the result to the pixels of \<open>dest\<close>. For blocks with few coefficients the code has shorter
  versions; the theorems show that they agree with \<open>idct2d\<close>, the full transform.
\<close>

section \<open>Constants\<close>


text \<open>The constants \<open>cospi_1_64\<close> to \<open>cospi_31_64\<close>, as one table.\<close>

definition cospi_64 :: "int \<Rightarrow> i32" where
  "cospi_64 k =
     [16364, 16305, 16207, 16069, 15893, 15679, 15426, 15137,
      14811, 14449, 14053, 13623, 13160, 12665, 12140, 11585,
      11003, 10394, 9760, 9102, 8423, 7723, 7005, 6270,
      5520, 4756, 3981, 3196, 2404, 1606, 804] ! nat (k - 1)"

abbreviation "cospi_1_64 \<equiv> cospi_64 1"
abbreviation "cospi_2_64 \<equiv> cospi_64 2"
abbreviation "cospi_3_64 \<equiv> cospi_64 3"
abbreviation "cospi_4_64 \<equiv> cospi_64 4"
abbreviation "cospi_5_64 \<equiv> cospi_64 5"
abbreviation "cospi_6_64 \<equiv> cospi_64 6"
abbreviation "cospi_7_64 \<equiv> cospi_64 7"
abbreviation "cospi_8_64 \<equiv> cospi_64 8"
abbreviation "cospi_9_64 \<equiv> cospi_64 9"
abbreviation "cospi_10_64 \<equiv> cospi_64 10"
abbreviation "cospi_11_64 \<equiv> cospi_64 11"
abbreviation "cospi_12_64 \<equiv> cospi_64 12"
abbreviation "cospi_13_64 \<equiv> cospi_64 13"
abbreviation "cospi_14_64 \<equiv> cospi_64 14"
abbreviation "cospi_15_64 \<equiv> cospi_64 15"
abbreviation "cospi_16_64 \<equiv> cospi_64 16"
abbreviation "cospi_17_64 \<equiv> cospi_64 17"
abbreviation "cospi_18_64 \<equiv> cospi_64 18"
abbreviation "cospi_19_64 \<equiv> cospi_64 19"
abbreviation "cospi_20_64 \<equiv> cospi_64 20"
abbreviation "cospi_21_64 \<equiv> cospi_64 21"
abbreviation "cospi_22_64 \<equiv> cospi_64 22"
abbreviation "cospi_23_64 \<equiv> cospi_64 23"
abbreviation "cospi_24_64 \<equiv> cospi_64 24"
abbreviation "cospi_25_64 \<equiv> cospi_64 25"
abbreviation "cospi_26_64 \<equiv> cospi_64 26"
abbreviation "cospi_27_64 \<equiv> cospi_64 27"
abbreviation "cospi_28_64 \<equiv> cospi_64 28"
abbreviation "cospi_29_64 \<equiv> cospi_64 29"
abbreviation "cospi_30_64 \<equiv> cospi_64 30"
abbreviation "cospi_31_64 \<equiv> cospi_64 31"

definition dct_const_round_shift :: "i32 \<Rightarrow> i32" where
  "dct_const_round_shift input = sx (tr (ROUND_POWER_OF_TWO input 14))"

section \<open>One-dimensional transforms\<close>


definition idct4_1d :: "i16 list \<Rightarrow> i16 list" where
  "idct4_1d input =
     (let temp1 = (sx (input ! 0) + sx (input ! 2)) * cospi_16_64;
          temp2 = (sx (input ! 0) - sx (input ! 2)) * cospi_16_64;
          step_0 = tr (dct_const_round_shift temp1);
          step_1 = tr (dct_const_round_shift temp2);
          temp1 = sx (input ! 1) * cospi_24_64 - sx (input ! 3) * cospi_8_64;
          temp2 = sx (input ! 1) * cospi_8_64 + sx (input ! 3) * cospi_24_64;
          step_2 = tr (dct_const_round_shift temp1);
          step_3 = tr (dct_const_round_shift temp2);
          output_0 = tr (sx step_0 + sx step_3);
          output_1 = tr (sx step_1 + sx step_2);
          output_2 = tr (sx step_1 - sx step_2);
          output_3 = tr (sx step_0 - sx step_3)
      in [output_0, output_1, output_2, output_3])"

definition idct8_1d :: "i16 list \<Rightarrow> i16 list" where
  "idct8_1d input =
     (let step1_0 = input ! 0;
          step1_2 = input ! 4;
          step1_1 = input ! 2;
          step1_3 = input ! 6;
          temp1 = sx (input ! 1) * cospi_28_64 - sx (input ! 7) * cospi_4_64;
          temp2 = sx (input ! 1) * cospi_4_64 + sx (input ! 7) * cospi_28_64;
          step1_4 = tr (dct_const_round_shift temp1);
          step1_7 = tr (dct_const_round_shift temp2);
          temp1 = sx (input ! 5) * cospi_12_64 - sx (input ! 3) * cospi_20_64;
          temp2 = sx (input ! 5) * cospi_20_64 + sx (input ! 3) * cospi_12_64;
          step1_5 = tr (dct_const_round_shift temp1);
          step1_6 = tr (dct_const_round_shift temp2);
          r = idct4_1d [step1_0, step1_1, step1_2, step1_3];
          step1_0 = r ! 0;
          step1_1 = r ! 1;
          step1_2 = r ! 2;
          step1_3 = r ! 3;
          step2_4 = tr (sx step1_4 + sx step1_5);
          step2_5 = tr (sx step1_4 - sx step1_5);
          step2_6 = tr (- (sx step1_6) + sx step1_7);
          step2_7 = tr (sx step1_6 + sx step1_7);
          step1_4 = step2_4;
          temp1 = (sx step2_6 - sx step2_5) * cospi_16_64;
          temp2 = (sx step2_5 + sx step2_6) * cospi_16_64;
          step1_5 = tr (dct_const_round_shift temp1);
          step1_6 = tr (dct_const_round_shift temp2);
          step1_7 = step2_7;
          output_0 = tr (sx step1_0 + sx step1_7);
          output_1 = tr (sx step1_1 + sx step1_6);
          output_2 = tr (sx step1_2 + sx step1_5);
          output_3 = tr (sx step1_3 + sx step1_4);
          output_4 = tr (sx step1_3 - sx step1_4);
          output_5 = tr (sx step1_2 - sx step1_5);
          output_6 = tr (sx step1_1 - sx step1_6);
          output_7 = tr (sx step1_0 - sx step1_7)
      in [output_0, output_1, output_2, output_3, output_4, output_5, output_6, output_7])"

definition idct16_1d_stage1 :: "i16 list \<Rightarrow> i16 list" where
  "idct16_1d_stage1 input =
     (let step1_0 = input ! 0;
          step1_1 = input ! 8;
          step1_2 = input ! 4;
          step1_3 = input ! 12;
          step1_4 = input ! 2;
          step1_5 = input ! 10;
          step1_6 = input ! 6;
          step1_7 = input ! 14;
          step1_8 = input ! 1;
          step1_9 = input ! 9;
          step1_10 = input ! 5;
          step1_11 = input ! 13;
          step1_12 = input ! 3;
          step1_13 = input ! 11;
          step1_14 = input ! 7;
          step1_15 = input ! 15
      in [step1_0, step1_1, step1_2, step1_3, step1_4, step1_5, step1_6, step1_7, step1_8, step1_9,
           step1_10, step1_11, step1_12, step1_13, step1_14, step1_15])"

definition idct16_1d_stage2 :: "i16 list \<Rightarrow> i16 list" where
  "idct16_1d_stage2 step1 =
     (let step2_0 = step1 ! 0;
          step2_1 = step1 ! 1;
          step2_2 = step1 ! 2;
          step2_3 = step1 ! 3;
          step2_4 = step1 ! 4;
          step2_5 = step1 ! 5;
          step2_6 = step1 ! 6;
          step2_7 = step1 ! 7;
          temp1 = sx (step1 ! 8) * cospi_30_64 - sx (step1 ! 15) * cospi_2_64;
          temp2 = sx (step1 ! 8) * cospi_2_64 + sx (step1 ! 15) * cospi_30_64;
          step2_8 = tr (dct_const_round_shift temp1);
          step2_15 = tr (dct_const_round_shift temp2);
          temp1 = sx (step1 ! 9) * cospi_14_64 - sx (step1 ! 14) * cospi_18_64;
          temp2 = sx (step1 ! 9) * cospi_18_64 + sx (step1 ! 14) * cospi_14_64;
          step2_9 = tr (dct_const_round_shift temp1);
          step2_14 = tr (dct_const_round_shift temp2);
          temp1 = sx (step1 ! 10) * cospi_22_64 - sx (step1 ! 13) * cospi_10_64;
          temp2 = sx (step1 ! 10) * cospi_10_64 + sx (step1 ! 13) * cospi_22_64;
          step2_10 = tr (dct_const_round_shift temp1);
          step2_13 = tr (dct_const_round_shift temp2);
          temp1 = sx (step1 ! 11) * cospi_6_64 - sx (step1 ! 12) * cospi_26_64;
          temp2 = sx (step1 ! 11) * cospi_26_64 + sx (step1 ! 12) * cospi_6_64;
          step2_11 = tr (dct_const_round_shift temp1);
          step2_12 = tr (dct_const_round_shift temp2)
      in [step2_0, step2_1, step2_2, step2_3, step2_4, step2_5, step2_6, step2_7, step2_8, step2_9,
           step2_10, step2_11, step2_12, step2_13, step2_14, step2_15])"

definition idct16_1d_stage3 :: "i16 list \<Rightarrow> i16 list" where
  "idct16_1d_stage3 step2 =
     (let step1_0 = step2 ! 0;
          step1_1 = step2 ! 1;
          step1_2 = step2 ! 2;
          step1_3 = step2 ! 3;
          temp1 = sx (step2 ! 4) * cospi_28_64 - sx (step2 ! 7) * cospi_4_64;
          temp2 = sx (step2 ! 4) * cospi_4_64 + sx (step2 ! 7) * cospi_28_64;
          step1_4 = tr (dct_const_round_shift temp1);
          step1_7 = tr (dct_const_round_shift temp2);
          temp1 = sx (step2 ! 5) * cospi_12_64 - sx (step2 ! 6) * cospi_20_64;
          temp2 = sx (step2 ! 5) * cospi_20_64 + sx (step2 ! 6) * cospi_12_64;
          step1_5 = tr (dct_const_round_shift temp1);
          step1_6 = tr (dct_const_round_shift temp2);
          step1_8 = tr (sx (step2 ! 8) + sx (step2 ! 9));
          step1_9 = tr (sx (step2 ! 8) - sx (step2 ! 9));
          step1_10 = tr (- (sx (step2 ! 10)) + sx (step2 ! 11));
          step1_11 = tr (sx (step2 ! 10) + sx (step2 ! 11));
          step1_12 = tr (sx (step2 ! 12) + sx (step2 ! 13));
          step1_13 = tr (sx (step2 ! 12) - sx (step2 ! 13));
          step1_14 = tr (- (sx (step2 ! 14)) + sx (step2 ! 15));
          step1_15 = tr (sx (step2 ! 14) + sx (step2 ! 15))
      in [step1_0, step1_1, step1_2, step1_3, step1_4, step1_5, step1_6, step1_7, step1_8, step1_9,
           step1_10, step1_11, step1_12, step1_13, step1_14, step1_15])"

definition idct16_1d_stage4 :: "i16 list \<Rightarrow> i16 list" where
  "idct16_1d_stage4 step1 =
     (let temp1 = (sx (step1 ! 0) + sx (step1 ! 1)) * cospi_16_64;
          temp2 = (sx (step1 ! 0) - sx (step1 ! 1)) * cospi_16_64;
          step2_0 = tr (dct_const_round_shift temp1);
          step2_1 = tr (dct_const_round_shift temp2);
          temp1 = sx (step1 ! 2) * cospi_24_64 - sx (step1 ! 3) * cospi_8_64;
          temp2 = sx (step1 ! 2) * cospi_8_64 + sx (step1 ! 3) * cospi_24_64;
          step2_2 = tr (dct_const_round_shift temp1);
          step2_3 = tr (dct_const_round_shift temp2);
          step2_4 = tr (sx (step1 ! 4) + sx (step1 ! 5));
          step2_5 = tr (sx (step1 ! 4) - sx (step1 ! 5));
          step2_6 = tr (- (sx (step1 ! 6)) + sx (step1 ! 7));
          step2_7 = tr (sx (step1 ! 6) + sx (step1 ! 7));
          step2_8 = step1 ! 8;
          step2_15 = step1 ! 15;
          temp1 = (- (sx (step1 ! 9))) * cospi_8_64 + sx (step1 ! 14) * cospi_24_64;
          temp2 = sx (step1 ! 9) * cospi_24_64 + sx (step1 ! 14) * cospi_8_64;
          step2_9 = tr (dct_const_round_shift temp1);
          step2_14 = tr (dct_const_round_shift temp2);
          temp1 = (- (sx (step1 ! 10))) * cospi_24_64 - sx (step1 ! 13) * cospi_8_64;
          temp2 = (- (sx (step1 ! 10))) * cospi_8_64 + sx (step1 ! 13) * cospi_24_64;
          step2_10 = tr (dct_const_round_shift temp1);
          step2_13 = tr (dct_const_round_shift temp2);
          step2_11 = step1 ! 11;
          step2_12 = step1 ! 12
      in [step2_0, step2_1, step2_2, step2_3, step2_4, step2_5, step2_6, step2_7, step2_8, step2_9,
           step2_10, step2_11, step2_12, step2_13, step2_14, step2_15])"

definition idct16_1d_stage5 :: "i16 list \<Rightarrow> i16 list" where
  "idct16_1d_stage5 step2 =
     (let step1_0 = tr (sx (step2 ! 0) + sx (step2 ! 3));
          step1_1 = tr (sx (step2 ! 1) + sx (step2 ! 2));
          step1_2 = tr (sx (step2 ! 1) - sx (step2 ! 2));
          step1_3 = tr (sx (step2 ! 0) - sx (step2 ! 3));
          step1_4 = step2 ! 4;
          temp1 = (sx (step2 ! 6) - sx (step2 ! 5)) * cospi_16_64;
          temp2 = (sx (step2 ! 5) + sx (step2 ! 6)) * cospi_16_64;
          step1_5 = tr (dct_const_round_shift temp1);
          step1_6 = tr (dct_const_round_shift temp2);
          step1_7 = step2 ! 7;
          step1_8 = tr (sx (step2 ! 8) + sx (step2 ! 11));
          step1_9 = tr (sx (step2 ! 9) + sx (step2 ! 10));
          step1_10 = tr (sx (step2 ! 9) - sx (step2 ! 10));
          step1_11 = tr (sx (step2 ! 8) - sx (step2 ! 11));
          step1_12 = tr (- (sx (step2 ! 12)) + sx (step2 ! 15));
          step1_13 = tr (- (sx (step2 ! 13)) + sx (step2 ! 14));
          step1_14 = tr (sx (step2 ! 13) + sx (step2 ! 14));
          step1_15 = tr (sx (step2 ! 12) + sx (step2 ! 15))
      in [step1_0, step1_1, step1_2, step1_3, step1_4, step1_5, step1_6, step1_7, step1_8, step1_9,
           step1_10, step1_11, step1_12, step1_13, step1_14, step1_15])"

definition idct16_1d_stage6 :: "i16 list \<Rightarrow> i16 list" where
  "idct16_1d_stage6 step1 =
     (let step2_0 = tr (sx (step1 ! 0) + sx (step1 ! 7));
          step2_1 = tr (sx (step1 ! 1) + sx (step1 ! 6));
          step2_2 = tr (sx (step1 ! 2) + sx (step1 ! 5));
          step2_3 = tr (sx (step1 ! 3) + sx (step1 ! 4));
          step2_4 = tr (sx (step1 ! 3) - sx (step1 ! 4));
          step2_5 = tr (sx (step1 ! 2) - sx (step1 ! 5));
          step2_6 = tr (sx (step1 ! 1) - sx (step1 ! 6));
          step2_7 = tr (sx (step1 ! 0) - sx (step1 ! 7));
          step2_8 = step1 ! 8;
          step2_9 = step1 ! 9;
          temp1 = (- (sx (step1 ! 10)) + sx (step1 ! 13)) * cospi_16_64;
          temp2 = (sx (step1 ! 10) + sx (step1 ! 13)) * cospi_16_64;
          step2_10 = tr (dct_const_round_shift temp1);
          step2_13 = tr (dct_const_round_shift temp2);
          temp1 = (- (sx (step1 ! 11)) + sx (step1 ! 12)) * cospi_16_64;
          temp2 = (sx (step1 ! 11) + sx (step1 ! 12)) * cospi_16_64;
          step2_11 = tr (dct_const_round_shift temp1);
          step2_12 = tr (dct_const_round_shift temp2);
          step2_14 = step1 ! 14;
          step2_15 = step1 ! 15
      in [step2_0, step2_1, step2_2, step2_3, step2_4, step2_5, step2_6, step2_7, step2_8, step2_9,
           step2_10, step2_11, step2_12, step2_13, step2_14, step2_15])"

definition idct16_1d_stage7 :: "i16 list \<Rightarrow> i16 list" where
  "idct16_1d_stage7 step2 =
     (let output_0 = tr (sx (step2 ! 0) + sx (step2 ! 15));
          output_1 = tr (sx (step2 ! 1) + sx (step2 ! 14));
          output_2 = tr (sx (step2 ! 2) + sx (step2 ! 13));
          output_3 = tr (sx (step2 ! 3) + sx (step2 ! 12));
          output_4 = tr (sx (step2 ! 4) + sx (step2 ! 11));
          output_5 = tr (sx (step2 ! 5) + sx (step2 ! 10));
          output_6 = tr (sx (step2 ! 6) + sx (step2 ! 9));
          output_7 = tr (sx (step2 ! 7) + sx (step2 ! 8));
          output_8 = tr (sx (step2 ! 7) - sx (step2 ! 8));
          output_9 = tr (sx (step2 ! 6) - sx (step2 ! 9));
          output_10 = tr (sx (step2 ! 5) - sx (step2 ! 10));
          output_11 = tr (sx (step2 ! 4) - sx (step2 ! 11));
          output_12 = tr (sx (step2 ! 3) - sx (step2 ! 12));
          output_13 = tr (sx (step2 ! 2) - sx (step2 ! 13));
          output_14 = tr (sx (step2 ! 1) - sx (step2 ! 14));
          output_15 = tr (sx (step2 ! 0) - sx (step2 ! 15))
      in [output_0, output_1, output_2, output_3, output_4, output_5, output_6, output_7, output_8,
           output_9, output_10, output_11, output_12, output_13, output_14, output_15])"

definition idct16_1d :: "i16 list \<Rightarrow> i16 list" where
  "idct16_1d input =
     idct16_1d_stage7 (idct16_1d_stage6 (idct16_1d_stage5 (idct16_1d_stage4 (idct16_1d_stage3 (idct16_1d_stage2 (idct16_1d_stage1 input))))))"

definition idct32_1d_stage1 :: "i16 list \<Rightarrow> i16 list" where
  "idct32_1d_stage1 input =
     (let step1_0 = input ! 0;
          step1_1 = input ! 16;
          step1_2 = input ! 8;
          step1_3 = input ! 24;
          step1_4 = input ! 4;
          step1_5 = input ! 20;
          step1_6 = input ! 12;
          step1_7 = input ! 28;
          step1_8 = input ! 2;
          step1_9 = input ! 18;
          step1_10 = input ! 10;
          step1_11 = input ! 26;
          step1_12 = input ! 6;
          step1_13 = input ! 22;
          step1_14 = input ! 14;
          step1_15 = input ! 30;
          temp1 = sx (input ! 1) * cospi_31_64 - sx (input ! 31) * cospi_1_64;
          temp2 = sx (input ! 1) * cospi_1_64 + sx (input ! 31) * cospi_31_64;
          step1_16 = tr (dct_const_round_shift temp1);
          step1_31 = tr (dct_const_round_shift temp2);
          temp1 = sx (input ! 17) * cospi_15_64 - sx (input ! 15) * cospi_17_64;
          temp2 = sx (input ! 17) * cospi_17_64 + sx (input ! 15) * cospi_15_64;
          step1_17 = tr (dct_const_round_shift temp1);
          step1_30 = tr (dct_const_round_shift temp2);
          temp1 = sx (input ! 9) * cospi_23_64 - sx (input ! 23) * cospi_9_64;
          temp2 = sx (input ! 9) * cospi_9_64 + sx (input ! 23) * cospi_23_64;
          step1_18 = tr (dct_const_round_shift temp1);
          step1_29 = tr (dct_const_round_shift temp2);
          temp1 = sx (input ! 25) * cospi_7_64 - sx (input ! 7) * cospi_25_64;
          temp2 = sx (input ! 25) * cospi_25_64 + sx (input ! 7) * cospi_7_64;
          step1_19 = tr (dct_const_round_shift temp1);
          step1_28 = tr (dct_const_round_shift temp2);
          temp1 = sx (input ! 5) * cospi_27_64 - sx (input ! 27) * cospi_5_64;
          temp2 = sx (input ! 5) * cospi_5_64 + sx (input ! 27) * cospi_27_64;
          step1_20 = tr (dct_const_round_shift temp1);
          step1_27 = tr (dct_const_round_shift temp2);
          temp1 = sx (input ! 21) * cospi_11_64 - sx (input ! 11) * cospi_21_64;
          temp2 = sx (input ! 21) * cospi_21_64 + sx (input ! 11) * cospi_11_64;
          step1_21 = tr (dct_const_round_shift temp1);
          step1_26 = tr (dct_const_round_shift temp2);
          temp1 = sx (input ! 13) * cospi_19_64 - sx (input ! 19) * cospi_13_64;
          temp2 = sx (input ! 13) * cospi_13_64 + sx (input ! 19) * cospi_19_64;
          step1_22 = tr (dct_const_round_shift temp1);
          step1_25 = tr (dct_const_round_shift temp2);
          temp1 = sx (input ! 29) * cospi_3_64 - sx (input ! 3) * cospi_29_64;
          temp2 = sx (input ! 29) * cospi_29_64 + sx (input ! 3) * cospi_3_64;
          step1_23 = tr (dct_const_round_shift temp1);
          step1_24 = tr (dct_const_round_shift temp2)
      in [step1_0, step1_1, step1_2, step1_3, step1_4, step1_5, step1_6, step1_7, step1_8, step1_9,
           step1_10, step1_11, step1_12, step1_13, step1_14, step1_15, step1_16, step1_17, step1_18,
           step1_19, step1_20, step1_21, step1_22, step1_23, step1_24, step1_25, step1_26, step1_27,
           step1_28, step1_29, step1_30, step1_31])"

definition idct32_1d_stage2 :: "i16 list \<Rightarrow> i16 list" where
  "idct32_1d_stage2 step1 =
     (let step2_0 = step1 ! 0;
          step2_1 = step1 ! 1;
          step2_2 = step1 ! 2;
          step2_3 = step1 ! 3;
          step2_4 = step1 ! 4;
          step2_5 = step1 ! 5;
          step2_6 = step1 ! 6;
          step2_7 = step1 ! 7;
          temp1 = sx (step1 ! 8) * cospi_30_64 - sx (step1 ! 15) * cospi_2_64;
          temp2 = sx (step1 ! 8) * cospi_2_64 + sx (step1 ! 15) * cospi_30_64;
          step2_8 = tr (dct_const_round_shift temp1);
          step2_15 = tr (dct_const_round_shift temp2);
          temp1 = sx (step1 ! 9) * cospi_14_64 - sx (step1 ! 14) * cospi_18_64;
          temp2 = sx (step1 ! 9) * cospi_18_64 + sx (step1 ! 14) * cospi_14_64;
          step2_9 = tr (dct_const_round_shift temp1);
          step2_14 = tr (dct_const_round_shift temp2);
          temp1 = sx (step1 ! 10) * cospi_22_64 - sx (step1 ! 13) * cospi_10_64;
          temp2 = sx (step1 ! 10) * cospi_10_64 + sx (step1 ! 13) * cospi_22_64;
          step2_10 = tr (dct_const_round_shift temp1);
          step2_13 = tr (dct_const_round_shift temp2);
          temp1 = sx (step1 ! 11) * cospi_6_64 - sx (step1 ! 12) * cospi_26_64;
          temp2 = sx (step1 ! 11) * cospi_26_64 + sx (step1 ! 12) * cospi_6_64;
          step2_11 = tr (dct_const_round_shift temp1);
          step2_12 = tr (dct_const_round_shift temp2);
          step2_16 = tr (sx (step1 ! 16) + sx (step1 ! 17));
          step2_17 = tr (sx (step1 ! 16) - sx (step1 ! 17));
          step2_18 = tr (- (sx (step1 ! 18)) + sx (step1 ! 19));
          step2_19 = tr (sx (step1 ! 18) + sx (step1 ! 19));
          step2_20 = tr (sx (step1 ! 20) + sx (step1 ! 21));
          step2_21 = tr (sx (step1 ! 20) - sx (step1 ! 21));
          step2_22 = tr (- (sx (step1 ! 22)) + sx (step1 ! 23));
          step2_23 = tr (sx (step1 ! 22) + sx (step1 ! 23));
          step2_24 = tr (sx (step1 ! 24) + sx (step1 ! 25));
          step2_25 = tr (sx (step1 ! 24) - sx (step1 ! 25));
          step2_26 = tr (- (sx (step1 ! 26)) + sx (step1 ! 27));
          step2_27 = tr (sx (step1 ! 26) + sx (step1 ! 27));
          step2_28 = tr (sx (step1 ! 28) + sx (step1 ! 29));
          step2_29 = tr (sx (step1 ! 28) - sx (step1 ! 29));
          step2_30 = tr (- (sx (step1 ! 30)) + sx (step1 ! 31));
          step2_31 = tr (sx (step1 ! 30) + sx (step1 ! 31))
      in [step2_0, step2_1, step2_2, step2_3, step2_4, step2_5, step2_6, step2_7, step2_8, step2_9,
           step2_10, step2_11, step2_12, step2_13, step2_14, step2_15, step2_16, step2_17, step2_18,
           step2_19, step2_20, step2_21, step2_22, step2_23, step2_24, step2_25, step2_26, step2_27,
           step2_28, step2_29, step2_30, step2_31])"

definition idct32_1d_stage3 :: "i16 list \<Rightarrow> i16 list" where
  "idct32_1d_stage3 step2 =
     (let step1_0 = step2 ! 0;
          step1_1 = step2 ! 1;
          step1_2 = step2 ! 2;
          step1_3 = step2 ! 3;
          temp1 = sx (step2 ! 4) * cospi_28_64 - sx (step2 ! 7) * cospi_4_64;
          temp2 = sx (step2 ! 4) * cospi_4_64 + sx (step2 ! 7) * cospi_28_64;
          step1_4 = tr (dct_const_round_shift temp1);
          step1_7 = tr (dct_const_round_shift temp2);
          temp1 = sx (step2 ! 5) * cospi_12_64 - sx (step2 ! 6) * cospi_20_64;
          temp2 = sx (step2 ! 5) * cospi_20_64 + sx (step2 ! 6) * cospi_12_64;
          step1_5 = tr (dct_const_round_shift temp1);
          step1_6 = tr (dct_const_round_shift temp2);
          step1_8 = tr (sx (step2 ! 8) + sx (step2 ! 9));
          step1_9 = tr (sx (step2 ! 8) - sx (step2 ! 9));
          step1_10 = tr (- (sx (step2 ! 10)) + sx (step2 ! 11));
          step1_11 = tr (sx (step2 ! 10) + sx (step2 ! 11));
          step1_12 = tr (sx (step2 ! 12) + sx (step2 ! 13));
          step1_13 = tr (sx (step2 ! 12) - sx (step2 ! 13));
          step1_14 = tr (- (sx (step2 ! 14)) + sx (step2 ! 15));
          step1_15 = tr (sx (step2 ! 14) + sx (step2 ! 15));
          step1_16 = step2 ! 16;
          step1_31 = step2 ! 31;
          temp1 = (- (sx (step2 ! 17))) * cospi_4_64 + sx (step2 ! 30) * cospi_28_64;
          temp2 = sx (step2 ! 17) * cospi_28_64 + sx (step2 ! 30) * cospi_4_64;
          step1_17 = tr (dct_const_round_shift temp1);
          step1_30 = tr (dct_const_round_shift temp2);
          temp1 = (- (sx (step2 ! 18))) * cospi_28_64 - sx (step2 ! 29) * cospi_4_64;
          temp2 = (- (sx (step2 ! 18))) * cospi_4_64 + sx (step2 ! 29) * cospi_28_64;
          step1_18 = tr (dct_const_round_shift temp1);
          step1_29 = tr (dct_const_round_shift temp2);
          step1_19 = step2 ! 19;
          step1_20 = step2 ! 20;
          temp1 = (- (sx (step2 ! 21))) * cospi_20_64 + sx (step2 ! 26) * cospi_12_64;
          temp2 = sx (step2 ! 21) * cospi_12_64 + sx (step2 ! 26) * cospi_20_64;
          step1_21 = tr (dct_const_round_shift temp1);
          step1_26 = tr (dct_const_round_shift temp2);
          temp1 = (- (sx (step2 ! 22))) * cospi_12_64 - sx (step2 ! 25) * cospi_20_64;
          temp2 = (- (sx (step2 ! 22))) * cospi_20_64 + sx (step2 ! 25) * cospi_12_64;
          step1_22 = tr (dct_const_round_shift temp1);
          step1_25 = tr (dct_const_round_shift temp2);
          step1_23 = step2 ! 23;
          step1_24 = step2 ! 24;
          step1_27 = step2 ! 27;
          step1_28 = step2 ! 28
      in [step1_0, step1_1, step1_2, step1_3, step1_4, step1_5, step1_6, step1_7, step1_8, step1_9,
           step1_10, step1_11, step1_12, step1_13, step1_14, step1_15, step1_16, step1_17, step1_18,
           step1_19, step1_20, step1_21, step1_22, step1_23, step1_24, step1_25, step1_26, step1_27,
           step1_28, step1_29, step1_30, step1_31])"

definition idct32_1d_stage4 :: "i16 list \<Rightarrow> i16 list" where
  "idct32_1d_stage4 step1 =
     (let temp1 = (sx (step1 ! 0) + sx (step1 ! 1)) * cospi_16_64;
          temp2 = (sx (step1 ! 0) - sx (step1 ! 1)) * cospi_16_64;
          step2_0 = tr (dct_const_round_shift temp1);
          step2_1 = tr (dct_const_round_shift temp2);
          temp1 = sx (step1 ! 2) * cospi_24_64 - sx (step1 ! 3) * cospi_8_64;
          temp2 = sx (step1 ! 2) * cospi_8_64 + sx (step1 ! 3) * cospi_24_64;
          step2_2 = tr (dct_const_round_shift temp1);
          step2_3 = tr (dct_const_round_shift temp2);
          step2_4 = tr (sx (step1 ! 4) + sx (step1 ! 5));
          step2_5 = tr (sx (step1 ! 4) - sx (step1 ! 5));
          step2_6 = tr (- (sx (step1 ! 6)) + sx (step1 ! 7));
          step2_7 = tr (sx (step1 ! 6) + sx (step1 ! 7));
          step2_8 = step1 ! 8;
          step2_15 = step1 ! 15;
          temp1 = (- (sx (step1 ! 9))) * cospi_8_64 + sx (step1 ! 14) * cospi_24_64;
          temp2 = sx (step1 ! 9) * cospi_24_64 + sx (step1 ! 14) * cospi_8_64;
          step2_9 = tr (dct_const_round_shift temp1);
          step2_14 = tr (dct_const_round_shift temp2);
          temp1 = (- (sx (step1 ! 10))) * cospi_24_64 - sx (step1 ! 13) * cospi_8_64;
          temp2 = (- (sx (step1 ! 10))) * cospi_8_64 + sx (step1 ! 13) * cospi_24_64;
          step2_10 = tr (dct_const_round_shift temp1);
          step2_13 = tr (dct_const_round_shift temp2);
          step2_11 = step1 ! 11;
          step2_12 = step1 ! 12;
          step2_16 = tr (sx (step1 ! 16) + sx (step1 ! 19));
          step2_17 = tr (sx (step1 ! 17) + sx (step1 ! 18));
          step2_18 = tr (sx (step1 ! 17) - sx (step1 ! 18));
          step2_19 = tr (sx (step1 ! 16) - sx (step1 ! 19));
          step2_20 = tr (- (sx (step1 ! 20)) + sx (step1 ! 23));
          step2_21 = tr (- (sx (step1 ! 21)) + sx (step1 ! 22));
          step2_22 = tr (sx (step1 ! 21) + sx (step1 ! 22));
          step2_23 = tr (sx (step1 ! 20) + sx (step1 ! 23));
          step2_24 = tr (sx (step1 ! 24) + sx (step1 ! 27));
          step2_25 = tr (sx (step1 ! 25) + sx (step1 ! 26));
          step2_26 = tr (sx (step1 ! 25) - sx (step1 ! 26));
          step2_27 = tr (sx (step1 ! 24) - sx (step1 ! 27));
          step2_28 = tr (- (sx (step1 ! 28)) + sx (step1 ! 31));
          step2_29 = tr (- (sx (step1 ! 29)) + sx (step1 ! 30));
          step2_30 = tr (sx (step1 ! 29) + sx (step1 ! 30));
          step2_31 = tr (sx (step1 ! 28) + sx (step1 ! 31))
      in [step2_0, step2_1, step2_2, step2_3, step2_4, step2_5, step2_6, step2_7, step2_8, step2_9,
           step2_10, step2_11, step2_12, step2_13, step2_14, step2_15, step2_16, step2_17, step2_18,
           step2_19, step2_20, step2_21, step2_22, step2_23, step2_24, step2_25, step2_26, step2_27,
           step2_28, step2_29, step2_30, step2_31])"

definition idct32_1d_stage5 :: "i16 list \<Rightarrow> i16 list" where
  "idct32_1d_stage5 step2 =
     (let step1_0 = tr (sx (step2 ! 0) + sx (step2 ! 3));
          step1_1 = tr (sx (step2 ! 1) + sx (step2 ! 2));
          step1_2 = tr (sx (step2 ! 1) - sx (step2 ! 2));
          step1_3 = tr (sx (step2 ! 0) - sx (step2 ! 3));
          step1_4 = step2 ! 4;
          temp1 = (sx (step2 ! 6) - sx (step2 ! 5)) * cospi_16_64;
          temp2 = (sx (step2 ! 5) + sx (step2 ! 6)) * cospi_16_64;
          step1_5 = tr (dct_const_round_shift temp1);
          step1_6 = tr (dct_const_round_shift temp2);
          step1_7 = step2 ! 7;
          step1_8 = tr (sx (step2 ! 8) + sx (step2 ! 11));
          step1_9 = tr (sx (step2 ! 9) + sx (step2 ! 10));
          step1_10 = tr (sx (step2 ! 9) - sx (step2 ! 10));
          step1_11 = tr (sx (step2 ! 8) - sx (step2 ! 11));
          step1_12 = tr (- (sx (step2 ! 12)) + sx (step2 ! 15));
          step1_13 = tr (- (sx (step2 ! 13)) + sx (step2 ! 14));
          step1_14 = tr (sx (step2 ! 13) + sx (step2 ! 14));
          step1_15 = tr (sx (step2 ! 12) + sx (step2 ! 15));
          step1_16 = step2 ! 16;
          step1_17 = step2 ! 17;
          temp1 = (- (sx (step2 ! 18))) * cospi_8_64 + sx (step2 ! 29) * cospi_24_64;
          temp2 = sx (step2 ! 18) * cospi_24_64 + sx (step2 ! 29) * cospi_8_64;
          step1_18 = tr (dct_const_round_shift temp1);
          step1_29 = tr (dct_const_round_shift temp2);
          temp1 = (- (sx (step2 ! 19))) * cospi_8_64 + sx (step2 ! 28) * cospi_24_64;
          temp2 = sx (step2 ! 19) * cospi_24_64 + sx (step2 ! 28) * cospi_8_64;
          step1_19 = tr (dct_const_round_shift temp1);
          step1_28 = tr (dct_const_round_shift temp2);
          temp1 = (- (sx (step2 ! 20))) * cospi_24_64 - sx (step2 ! 27) * cospi_8_64;
          temp2 = (- (sx (step2 ! 20))) * cospi_8_64 + sx (step2 ! 27) * cospi_24_64;
          step1_20 = tr (dct_const_round_shift temp1);
          step1_27 = tr (dct_const_round_shift temp2);
          temp1 = (- (sx (step2 ! 21))) * cospi_24_64 - sx (step2 ! 26) * cospi_8_64;
          temp2 = (- (sx (step2 ! 21))) * cospi_8_64 + sx (step2 ! 26) * cospi_24_64;
          step1_21 = tr (dct_const_round_shift temp1);
          step1_26 = tr (dct_const_round_shift temp2);
          step1_22 = step2 ! 22;
          step1_23 = step2 ! 23;
          step1_24 = step2 ! 24;
          step1_25 = step2 ! 25;
          step1_30 = step2 ! 30;
          step1_31 = step2 ! 31
      in [step1_0, step1_1, step1_2, step1_3, step1_4, step1_5, step1_6, step1_7, step1_8, step1_9,
           step1_10, step1_11, step1_12, step1_13, step1_14, step1_15, step1_16, step1_17, step1_18,
           step1_19, step1_20, step1_21, step1_22, step1_23, step1_24, step1_25, step1_26, step1_27,
           step1_28, step1_29, step1_30, step1_31])"

definition idct32_1d_stage6 :: "i16 list \<Rightarrow> i16 list" where
  "idct32_1d_stage6 step1 =
     (let step2_0 = tr (sx (step1 ! 0) + sx (step1 ! 7));
          step2_1 = tr (sx (step1 ! 1) + sx (step1 ! 6));
          step2_2 = tr (sx (step1 ! 2) + sx (step1 ! 5));
          step2_3 = tr (sx (step1 ! 3) + sx (step1 ! 4));
          step2_4 = tr (sx (step1 ! 3) - sx (step1 ! 4));
          step2_5 = tr (sx (step1 ! 2) - sx (step1 ! 5));
          step2_6 = tr (sx (step1 ! 1) - sx (step1 ! 6));
          step2_7 = tr (sx (step1 ! 0) - sx (step1 ! 7));
          step2_8 = step1 ! 8;
          step2_9 = step1 ! 9;
          temp1 = (- (sx (step1 ! 10)) + sx (step1 ! 13)) * cospi_16_64;
          temp2 = (sx (step1 ! 10) + sx (step1 ! 13)) * cospi_16_64;
          step2_10 = tr (dct_const_round_shift temp1);
          step2_13 = tr (dct_const_round_shift temp2);
          temp1 = (- (sx (step1 ! 11)) + sx (step1 ! 12)) * cospi_16_64;
          temp2 = (sx (step1 ! 11) + sx (step1 ! 12)) * cospi_16_64;
          step2_11 = tr (dct_const_round_shift temp1);
          step2_12 = tr (dct_const_round_shift temp2);
          step2_14 = step1 ! 14;
          step2_15 = step1 ! 15;
          step2_16 = tr (sx (step1 ! 16) + sx (step1 ! 23));
          step2_17 = tr (sx (step1 ! 17) + sx (step1 ! 22));
          step2_18 = tr (sx (step1 ! 18) + sx (step1 ! 21));
          step2_19 = tr (sx (step1 ! 19) + sx (step1 ! 20));
          step2_20 = tr (sx (step1 ! 19) - sx (step1 ! 20));
          step2_21 = tr (sx (step1 ! 18) - sx (step1 ! 21));
          step2_22 = tr (sx (step1 ! 17) - sx (step1 ! 22));
          step2_23 = tr (sx (step1 ! 16) - sx (step1 ! 23));
          step2_24 = tr (- (sx (step1 ! 24)) + sx (step1 ! 31));
          step2_25 = tr (- (sx (step1 ! 25)) + sx (step1 ! 30));
          step2_26 = tr (- (sx (step1 ! 26)) + sx (step1 ! 29));
          step2_27 = tr (- (sx (step1 ! 27)) + sx (step1 ! 28));
          step2_28 = tr (sx (step1 ! 27) + sx (step1 ! 28));
          step2_29 = tr (sx (step1 ! 26) + sx (step1 ! 29));
          step2_30 = tr (sx (step1 ! 25) + sx (step1 ! 30));
          step2_31 = tr (sx (step1 ! 24) + sx (step1 ! 31))
      in [step2_0, step2_1, step2_2, step2_3, step2_4, step2_5, step2_6, step2_7, step2_8, step2_9,
           step2_10, step2_11, step2_12, step2_13, step2_14, step2_15, step2_16, step2_17, step2_18,
           step2_19, step2_20, step2_21, step2_22, step2_23, step2_24, step2_25, step2_26, step2_27,
           step2_28, step2_29, step2_30, step2_31])"

definition idct32_1d_stage7 :: "i16 list \<Rightarrow> i16 list" where
  "idct32_1d_stage7 step2 =
     (let step1_0 = tr (sx (step2 ! 0) + sx (step2 ! 15));
          step1_1 = tr (sx (step2 ! 1) + sx (step2 ! 14));
          step1_2 = tr (sx (step2 ! 2) + sx (step2 ! 13));
          step1_3 = tr (sx (step2 ! 3) + sx (step2 ! 12));
          step1_4 = tr (sx (step2 ! 4) + sx (step2 ! 11));
          step1_5 = tr (sx (step2 ! 5) + sx (step2 ! 10));
          step1_6 = tr (sx (step2 ! 6) + sx (step2 ! 9));
          step1_7 = tr (sx (step2 ! 7) + sx (step2 ! 8));
          step1_8 = tr (sx (step2 ! 7) - sx (step2 ! 8));
          step1_9 = tr (sx (step2 ! 6) - sx (step2 ! 9));
          step1_10 = tr (sx (step2 ! 5) - sx (step2 ! 10));
          step1_11 = tr (sx (step2 ! 4) - sx (step2 ! 11));
          step1_12 = tr (sx (step2 ! 3) - sx (step2 ! 12));
          step1_13 = tr (sx (step2 ! 2) - sx (step2 ! 13));
          step1_14 = tr (sx (step2 ! 1) - sx (step2 ! 14));
          step1_15 = tr (sx (step2 ! 0) - sx (step2 ! 15));
          step1_16 = step2 ! 16;
          step1_17 = step2 ! 17;
          step1_18 = step2 ! 18;
          step1_19 = step2 ! 19;
          temp1 = (- (sx (step2 ! 20)) + sx (step2 ! 27)) * cospi_16_64;
          temp2 = (sx (step2 ! 20) + sx (step2 ! 27)) * cospi_16_64;
          step1_20 = tr (dct_const_round_shift temp1);
          step1_27 = tr (dct_const_round_shift temp2);
          temp1 = (- (sx (step2 ! 21)) + sx (step2 ! 26)) * cospi_16_64;
          temp2 = (sx (step2 ! 21) + sx (step2 ! 26)) * cospi_16_64;
          step1_21 = tr (dct_const_round_shift temp1);
          step1_26 = tr (dct_const_round_shift temp2);
          temp1 = (- (sx (step2 ! 22)) + sx (step2 ! 25)) * cospi_16_64;
          temp2 = (sx (step2 ! 22) + sx (step2 ! 25)) * cospi_16_64;
          step1_22 = tr (dct_const_round_shift temp1);
          step1_25 = tr (dct_const_round_shift temp2);
          temp1 = (- (sx (step2 ! 23)) + sx (step2 ! 24)) * cospi_16_64;
          temp2 = (sx (step2 ! 23) + sx (step2 ! 24)) * cospi_16_64;
          step1_23 = tr (dct_const_round_shift temp1);
          step1_24 = tr (dct_const_round_shift temp2);
          step1_28 = step2 ! 28;
          step1_29 = step2 ! 29;
          step1_30 = step2 ! 30;
          step1_31 = step2 ! 31
      in [step1_0, step1_1, step1_2, step1_3, step1_4, step1_5, step1_6, step1_7, step1_8, step1_9,
           step1_10, step1_11, step1_12, step1_13, step1_14, step1_15, step1_16, step1_17, step1_18,
           step1_19, step1_20, step1_21, step1_22, step1_23, step1_24, step1_25, step1_26, step1_27,
           step1_28, step1_29, step1_30, step1_31])"

definition idct32_1d_stage8 :: "i16 list \<Rightarrow> i16 list" where
  "idct32_1d_stage8 step1 =
     (let output_0 = tr (sx (step1 ! 0) + sx (step1 ! 31));
          output_1 = tr (sx (step1 ! 1) + sx (step1 ! 30));
          output_2 = tr (sx (step1 ! 2) + sx (step1 ! 29));
          output_3 = tr (sx (step1 ! 3) + sx (step1 ! 28));
          output_4 = tr (sx (step1 ! 4) + sx (step1 ! 27));
          output_5 = tr (sx (step1 ! 5) + sx (step1 ! 26));
          output_6 = tr (sx (step1 ! 6) + sx (step1 ! 25));
          output_7 = tr (sx (step1 ! 7) + sx (step1 ! 24));
          output_8 = tr (sx (step1 ! 8) + sx (step1 ! 23));
          output_9 = tr (sx (step1 ! 9) + sx (step1 ! 22));
          output_10 = tr (sx (step1 ! 10) + sx (step1 ! 21));
          output_11 = tr (sx (step1 ! 11) + sx (step1 ! 20));
          output_12 = tr (sx (step1 ! 12) + sx (step1 ! 19));
          output_13 = tr (sx (step1 ! 13) + sx (step1 ! 18));
          output_14 = tr (sx (step1 ! 14) + sx (step1 ! 17));
          output_15 = tr (sx (step1 ! 15) + sx (step1 ! 16));
          output_16 = tr (sx (step1 ! 15) - sx (step1 ! 16));
          output_17 = tr (sx (step1 ! 14) - sx (step1 ! 17));
          output_18 = tr (sx (step1 ! 13) - sx (step1 ! 18));
          output_19 = tr (sx (step1 ! 12) - sx (step1 ! 19));
          output_20 = tr (sx (step1 ! 11) - sx (step1 ! 20));
          output_21 = tr (sx (step1 ! 10) - sx (step1 ! 21));
          output_22 = tr (sx (step1 ! 9) - sx (step1 ! 22));
          output_23 = tr (sx (step1 ! 8) - sx (step1 ! 23));
          output_24 = tr (sx (step1 ! 7) - sx (step1 ! 24));
          output_25 = tr (sx (step1 ! 6) - sx (step1 ! 25));
          output_26 = tr (sx (step1 ! 5) - sx (step1 ! 26));
          output_27 = tr (sx (step1 ! 4) - sx (step1 ! 27));
          output_28 = tr (sx (step1 ! 3) - sx (step1 ! 28));
          output_29 = tr (sx (step1 ! 2) - sx (step1 ! 29));
          output_30 = tr (sx (step1 ! 1) - sx (step1 ! 30));
          output_31 = tr (sx (step1 ! 0) - sx (step1 ! 31))
      in [output_0, output_1, output_2, output_3, output_4, output_5, output_6, output_7, output_8,
           output_9, output_10, output_11, output_12, output_13, output_14, output_15, output_16,
           output_17, output_18, output_19, output_20, output_21, output_22, output_23, output_24,
           output_25, output_26, output_27, output_28, output_29, output_30, output_31])"

definition idct32_1d :: "i16 list \<Rightarrow> i16 list" where
  "idct32_1d input =
     idct32_1d_stage8 (idct32_1d_stage7 (idct32_1d_stage6 (idct32_1d_stage5 (idct32_1d_stage4 (idct32_1d_stage3 (idct32_1d_stage2 (idct32_1d_stage1 input)))))))"

section \<open>Two-dimensional transforms\<close>

text \<open>The loop over the columns: each is transformed and added to the pixels of \<open>dest\<close>.\<close>

definition idct_columns ::
    "nat \<Rightarrow> (i16 list \<Rightarrow> i16 list) \<Rightarrow> nat \<Rightarrow> i16 list \<Rightarrow> rtalloc \<Rightarrow> u32 \<Rightarrow> u32 \<Rightarrow> rtalloc option" where
  "idct_columns n f sh out dest xoff yoff =
     for_upto 0 n (\<lambda>i. let temp_out = f (blk_col n i out)
       in for_upto 0 n (\<lambda>j dest.
            do { v \<leftarrow> rsGetElementAt_uchar dest (of_nat i + xoff) (of_nat j + yoff);
                 rsSetElementAt_uchar dest (clip_pixel (ROUND_POWER_OF_TWO (sx (temp_out ! j)) sh + ucast v))
                   (of_nat i + xoff) (of_nat j + yoff) })) dest"

text \<open>The loop over the first \<open>rows\<close> rows of a block; the other rows of \<open>out\<close> stay zero.\<close>

definition idct_rows :: "nat \<Rightarrow> nat \<Rightarrow> (i16 list \<Rightarrow> i16 list) \<Rightarrow> i16 list \<Rightarrow> i16 list" where
  "idct_rows n rows f b = concat (map (\<lambda>i. f (blk_row n i b)) [0..<rows]) @ replicate ((n - rows) * n) 0"

text \<open>The versions for a block whose only coefficient is the first.\<close>

definition idct_dc :: "nat \<Rightarrow> nat \<Rightarrow> rtalloc \<Rightarrow> rtalloc \<Rightarrow> u32 \<Rightarrow> u32 \<Rightarrow> rtalloc option" where
  "idct_dc n sh input dest xoff yoff =
     do { v \<leftarrow> rsGetElementAt_short input xoff yoff;
          let out = tr (dct_const_round_shift (sx v * cospi_16_64));
          let out = tr (dct_const_round_shift (sx out * cospi_16_64));
          let a1 = ROUND_POWER_OF_TWO (sx out) sh;
          for_upto 0 n (\<lambda>i. for_upto 0 n (\<lambda>j dest.
            do { v \<leftarrow> rsGetElementAt_uchar dest (of_nat j + xoff) (of_nat i + yoff);
                 rsSetElementAt_uchar dest (clip_pixel (ucast v + a1)) (of_nat j + xoff) (of_nat i + yoff) })) dest }"

definition idct4x4_1 :: "rtalloc \<Rightarrow> rtalloc \<Rightarrow> u32 \<Rightarrow> u32 \<Rightarrow> rtalloc option" where
  "idct4x4_1 input dest xoff yoff = idct_dc 4 4 input dest xoff yoff"

definition idct4x4_16 :: "rtalloc \<Rightarrow> rtalloc \<Rightarrow> u32 \<Rightarrow> u32 \<Rightarrow> rtalloc option" where
  "idct4x4_16 input dest xoff yoff =
     do { b \<leftarrow> read_block 4 input xoff yoff;
          idct_columns 4 idct4_1d 4 (idct_rows 4 4 idct4_1d b) dest xoff yoff }"

definition idct8x8_1 :: "rtalloc \<Rightarrow> rtalloc \<Rightarrow> u32 \<Rightarrow> u32 \<Rightarrow> rtalloc option" where
  "idct8x8_1 input dest xoff yoff = idct_dc 8 5 input dest xoff yoff"

definition idct8x8_10 :: "rtalloc \<Rightarrow> rtalloc \<Rightarrow> u32 \<Rightarrow> u32 \<Rightarrow> rtalloc option" where
  "idct8x8_10 input dest xoff yoff =
     do { b \<leftarrow> read_block 8 input xoff yoff;
          idct_columns 8 idct8_1d 5 (idct_rows 8 4 idct8_1d b) dest xoff yoff }"

definition idct8x8_64 :: "rtalloc \<Rightarrow> rtalloc \<Rightarrow> u32 \<Rightarrow> u32 \<Rightarrow> rtalloc option" where
  "idct8x8_64 input dest xoff yoff =
     do { b \<leftarrow> read_block 8 input xoff yoff;
          idct_columns 8 idct8_1d 5 (idct_rows 8 8 idct8_1d b) dest xoff yoff }"

definition idct16x16_1 :: "rtalloc \<Rightarrow> rtalloc \<Rightarrow> u32 \<Rightarrow> u32 \<Rightarrow> rtalloc option" where
  "idct16x16_1 input dest xoff yoff = idct_dc 16 6 input dest xoff yoff"

definition idct16x16_10 :: "rtalloc \<Rightarrow> rtalloc \<Rightarrow> u32 \<Rightarrow> u32 \<Rightarrow> rtalloc option" where
  "idct16x16_10 input dest xoff yoff =
     do { b \<leftarrow> read_block 16 input xoff yoff;
          idct_columns 16 idct16_1d 6 (idct_rows 16 4 idct16_1d b) dest xoff yoff }"

definition idct16x16_256 :: "rtalloc \<Rightarrow> rtalloc \<Rightarrow> u32 \<Rightarrow> u32 \<Rightarrow> rtalloc option" where
  "idct16x16_256 input dest xoff yoff =
     do { b \<leftarrow> read_block 16 input xoff yoff;
          idct_columns 16 idct16_1d 6 (idct_rows 16 16 idct16_1d b) dest xoff yoff }"

definition idct32x32_1 :: "rtalloc \<Rightarrow> rtalloc \<Rightarrow> u32 \<Rightarrow> u32 \<Rightarrow> rtalloc option" where
  "idct32x32_1 input dest xoff yoff = idct_dc 32 6 input dest xoff yoff"

definition idct32x32_34 :: "rtalloc \<Rightarrow> rtalloc \<Rightarrow> u32 \<Rightarrow> u32 \<Rightarrow> rtalloc option" where
  "idct32x32_34 input dest xoff yoff =
     do { b \<leftarrow> read_block 32 input xoff yoff;
          idct_columns 32 idct32_1d 6 (idct_rows 32 8 idct32_1d b) dest xoff yoff }"

text \<open>\<open>zero_coeff\<close> is halved in place: round \<open>j\<close> reads the entries \<open>2 * j\<close> and \<open>2 * j + 1\<close>.\<close>

definition or16 :: "i16 \<Rightarrow> i16 \<Rightarrow> i16" where
  "or16 a b = tr (sx a OR sx b)"

definition zero_coeff_halve :: "nat \<Rightarrow> i16 list \<Rightarrow> i16 list" where
  "zero_coeff_halve n zc = fold (\<lambda>j zc. zc[j := or16 (zc ! (2 * j)) (zc ! (2 * j + 1))]) [0..<n] zc"

definition row_has_coeff :: "i16 list \<Rightarrow> bool" where
  "row_has_coeff r =
     (let zero_coeff = map (\<lambda>j. or16 (r ! (2 * j)) (r ! (2 * j + 1))) [0..<16];
          zero_coeff = zero_coeff_halve 8 zero_coeff;
          zero_coeff = zero_coeff_halve 4 zero_coeff;
          zero_coeff = zero_coeff_halve 2 zero_coeff
      in (sx (zero_coeff ! 0) OR sx (zero_coeff ! 1)) \<noteq> 0)"

definition idct32x32_1024 :: "rtalloc \<Rightarrow> rtalloc \<Rightarrow> u32 \<Rightarrow> u32 \<Rightarrow> rtalloc option" where
  "idct32x32_1024 input dest xoff yoff =
     do { b \<leftarrow> read_block 32 input xoff yoff;
          let out = concat (map (\<lambda>i. let r = blk_row 32 i b
                in if row_has_coeff r then idct32_1d r else replicate 32 0) [0..<32]);
          idct_columns 32 idct32_1d 6 out dest xoff yoff }"

definition rsIdct4x4 :: "rtalloc \<Rightarrow> rtalloc \<Rightarrow> i32 \<Rightarrow> u32 \<Rightarrow> u32 \<Rightarrow> rtalloc option" where
  "rsIdct4x4 input dest eob xoff yoff =
     (if 1 <s eob then idct4x4_16 input dest xoff yoff else idct4x4_1 input dest xoff yoff)"

definition rsIdct8x8 :: "rtalloc \<Rightarrow> rtalloc \<Rightarrow> i32 \<Rightarrow> u32 \<Rightarrow> u32 \<Rightarrow> rtalloc option" where
  "rsIdct8x8 input dest eob xoff yoff =
     (if eob = 1 then idct8x8_1 input dest xoff yoff
      else if eob \<le>s 10 then idct8x8_10 input dest xoff yoff
      else idct8x8_64 input dest xoff yoff)"

definition rsIdct16x16 :: "rtalloc \<Rightarrow> rtalloc \<Rightarrow> i32 \<Rightarrow> u32 \<Rightarrow> u32 \<Rightarrow> rtalloc option" where
  "rsIdct16x16 input dest eob xoff yoff =
     (if eob = 1 then idct16x16_1 input dest xoff yoff
      else if eob \<le>s 10 then idct16x16_10 input dest xoff yoff
      else idct16x16_256 input dest xoff yoff)"

definition rsIdct32x32 :: "rtalloc \<Rightarrow> rtalloc \<Rightarrow> i32 \<Rightarrow> u32 \<Rightarrow> u32 \<Rightarrow> rtalloc option" where
  "rsIdct32x32 input dest eob xoff yoff =
     (if eob = 1 then idct32x32_1 input dest xoff yoff
      else if eob \<le>s 34 then idct32x32_34 input dest xoff yoff
      else idct32x32_1024 input dest xoff yoff)"

section \<open>The one-dimensional transforms on special inputs\<close>

text \<open>The value of every sample when the first coefficient is the only one.\<close>

definition dc_value :: "i16 \<Rightarrow> i16" where
  "dc_value x = tr (dct_const_round_shift (sx x * cospi_16_64))"

lemma round_shift_0 [simp]: "dct_const_round_shift 0 = 0"
  by (simp add: dct_const_round_shift_def ROUND_POWER_OF_TWO_def)

lemma dc_value_0 [simp]: "dc_value 0 = 0"
  by (simp add: dc_value_def)

lemma dc_value_eq: "tr (dct_const_round_shift (sx x * cospi_16_64)) = dc_value x"
  by (simp add: dc_value_def)

lemma idct4_1d_dc: "idct4_1d [x, 0, 0, 0] = [dc_value x, dc_value x, dc_value x, dc_value x]"
  by (simp add: idct4_1d_def Let_def dc_value_eq)

lemma idct8_1d_dc: "idct8_1d (x # replicate 7 0) = replicate 8 (dc_value x)"
  by (simp add: idct8_1d_def Let_def idct4_1d_dc numeral_eq_Suc)

lemmas idct16_stages = idct16_1d_stage1_def idct16_1d_stage2_def idct16_1d_stage3_def idct16_1d_stage4_def
  idct16_1d_stage5_def idct16_1d_stage6_def idct16_1d_stage7_def

lemmas idct32_stages = idct32_1d_stage1_def idct32_1d_stage2_def idct32_1d_stage3_def idct32_1d_stage4_def
  idct32_1d_stage5_def idct32_1d_stage6_def idct32_1d_stage7_def idct32_1d_stage8_def

lemma idct16_1d_dc: "idct16_1d (x # replicate 15 0) = replicate 16 (dc_value x)"
  by (simp add: idct16_1d_def idct16_stages Let_def dc_value_eq numeral_eq_Suc)

lemma idct32_1d_dc: "idct32_1d (x # replicate 31 0) = replicate 32 (dc_value x)"
  by (simp add: idct32_1d_def idct32_stages Let_def dc_value_eq numeral_eq_Suc)
section \<open>The full transform as the specification\<close>

text \<open>All rows, then all columns.\<close>

definition idct2d ::
    "nat \<Rightarrow> (i16 list \<Rightarrow> i16 list) \<Rightarrow> nat \<Rightarrow> rtalloc \<Rightarrow> rtalloc \<Rightarrow> u32 \<Rightarrow> u32 \<Rightarrow> rtalloc option" where
  "idct2d n f sh input dest xoff yoff =
     do { b \<leftarrow> read_block n input xoff yoff;
          idct_columns n f sh (concat (map (\<lambda>i. f (blk_row n i b)) [0..<n])) dest xoff yoff }"

lemma idct_rows_all: "idct_rows n n f b = concat (map (\<lambda>i. f (blk_row n i b)) [0..<n])"
  by (simp add: idct_rows_def)

lemma blk_row_zero:
  assumes "length b = n * n" and "\<forall>k. r * n \<le> k \<and> k < n * n \<longrightarrow> b ! k = 0" and "r \<le> i" and "i < n"
  shows "blk_row n i b = replicate n (0 :: i16)"
proof -
  have le: "i * n + n \<le> n * n" using assms(4) by (metis Suc_leI add.commute mult_Suc mult_le_mono1)
  have "r * n \<le> i * n" using assms(3) by simp
  then have "b ! (i * n + j) = 0" if "j < n" for j using assms(2) le that by (auto simp: trans_le_add1)
  moreover have "i * n \<le> length b" using assms(1) le by linarith
  ultimately show ?thesis using assms(1) le by (intro nth_equalityI) (auto simp: blk_row_def)
qed

lemma concat_replicate_replicate: "concat (replicate m (replicate n x)) = replicate (m * n) x"
  by (induction m) (simp_all add: replicate_add)

text \<open>Rows without coefficients need not be transformed.\<close>

lemma idct_rows_some:
  assumes f: "f (replicate n 0) = replicate n 0" and b: "length b = n * n" and r: "r \<le> n"
    and z: "\<forall>k. r * n \<le> k \<and> k < n * n \<longrightarrow> b ! k = 0"
  shows "idct_rows n r f b = idct_rows n n f b"
proof -
  have zr: "f (blk_row n i b) = replicate n 0" if "r \<le> i" "i < n" for i
    using blk_row_zero[OF b z that] f by simp
  have "map (\<lambda>i. f (blk_row n i b)) [r..<n] = replicate (n - r) (replicate n 0)"
    using zr by (intro nth_equalityI) auto
  then have "concat (map (\<lambda>i. f (blk_row n i b)) [r..<n]) = replicate ((n - r) * n) 0"
    by (simp add: concat_replicate_replicate)
  moreover have "[0..<n] = [0..<r] @ [r..<n]" using r by (metis le0 upt_add_eq_append le_add_diff_inverse)
  ultimately show ?thesis by (simp add: idct_rows_def)
qed

lemma nth_replicate_append:
  "k < m + l \<Longrightarrow> (replicate m x @ replicate l y) ! k = (if k < m then x else y)"
  by (simp add: nth_append)

lemma Cons_replicate_0: "0 < n \<Longrightarrow> replicate n x = x # replicate (n - 1) x"
  by (cases n) simp_all

text \<open>A block whose only coefficient is the first.\<close>

lemma idct2d_dc:
  assumes f: "\<And>x. f (x # replicate (n - 1) 0) = replicate n (dc_value x)" and n: "0 < n"
    and b: "read_block n input xoff yoff = Some (d # replicate (n * n - 1) 0)"
    and fits: "block_fits n 1 dest xoff yoff"
  shows "idct_dc n sh input dest xoff yoff = idct2d n f sh input dest xoff yoff"
proof -
  let ?b = "d # replicate (n * n - 1) (0 :: i16)" and ?c = "dc_value (dc_value d)"
  have len: "length ?b = n * n" using n by (cases n) simp_all
  have z: "\<forall>k. 1 * n \<le> k \<and> k < n * n \<longrightarrow> ?b ! k = 0" using n by (auto simp: nth_Cons')
  have f0: "f (replicate n 0) = replicate n 0" using f[of 0] n by (simp add: Cons_replicate_0)
  have row0: "blk_row n 0 ?b = d # replicate (n - 1) 0"
  proof -
    have "n - 1 \<le> n * n - 1" using n by (intro diff_le_mono) simp
    then show ?thesis using n by (cases n) (simp_all add: blk_row_def min_def)
  qed
  have "idct_rows n n f ?b = idct_rows n 1 f ?b"
    using idct_rows_some[of f n ?b 1, OF f0 len _ z] n by simp
  then have out: "concat (map (\<lambda>i. f (blk_row n i ?b)) [0..<n])
      = replicate n (dc_value d) @ replicate ((n - 1) * n) 0"
    by (simp add: idct_rows_all idct_rows_def row0[simplified] f[simplified])
  have col: "blk_col n i (replicate n (dc_value d) @ replicate ((n - 1) * n) 0) = dc_value d # replicate (n - 1) 0"
    if "i < n" for i
  proof (rule nth_equalityI)
    show "length (blk_col n i (replicate n (dc_value d) @ replicate ((n - 1) * n) 0)) =
        length (dc_value d # replicate (n - 1) 0)"
      using n by (simp add: blk_col_def)
    fix j
    assume "j < length (blk_col n i (replicate n (dc_value d) @ replicate ((n - 1) * n) 0))"
    then have j: "j < n" by (simp add: blk_col_def)
    have "j * n + i < n + (n - 1) * n"
    proof -
      have "j * n + n \<le> n * n" using j by (metis Suc_leI add.commute mult_Suc mult_le_mono1)
      moreover have "n + (n - 1) * n = n * n" using n by (cases n) simp_all
      ultimately show ?thesis using that by linarith
    qed
    then show "blk_col n i (replicate n (dc_value d) @ replicate ((n - 1) * n) 0) ! j = (dc_value d # replicate (n - 1) 0) ! j"
      using j that by (cases j) (simp_all add: blk_col_def nth_replicate_append)
  qed
  have cols: "f (blk_col n i (replicate n (dc_value d) @ replicate ((n - 1) * n) 0)) = replicate n ?c" if "i < n" for i
    using col[OF that] f by simp
  have "idct2d n f sh input dest xoff yoff =
      for_upto 0 n (\<lambda>i. for_upto 0 n (\<lambda>j dest.
        do { v \<leftarrow> rsGetElementAt_uchar dest (of_nat i + xoff) (of_nat j + yoff);
             rsSetElementAt_uchar dest (clip_pixel (ROUND_POWER_OF_TWO (sx ?c) sh + ucast v))
               (of_nat i + xoff) (of_nat j + yoff) })) dest"
    unfolding idct2d_def b Option.bind_lunit out idct_columns_def Let_def
    by (intro for_upto_cong) (simp add: cols[simplified])
  also have "\<dots> = for_upto 0 n (\<lambda>i. for_upto 0 n (\<lambda>j dest.
        do { v \<leftarrow> rsGetElementAt_uchar dest (of_nat j + xoff) (of_nat i + yoff);
             rsSetElementAt_uchar dest (clip_pixel (ROUND_POWER_OF_TWO (sx ?c) sh + ucast v))
               (of_nat j + xoff) (of_nat i + yoff) })) dest"
    by (rule pixels_transposed[OF fits])
  moreover have "rsGetElementAt_short input xoff yoff = Some d"
    using read_block_nth[OF b n n] by simp
  ultimately show ?thesis
    by (simp add: idct_dc_def dc_value_eq add.commute)
qed
section \<open>Every version computes the full transform\<close>

lemma idct4_1d_0: "idct4_1d (replicate 4 0) = replicate 4 0"
  using idct4_1d_dc[of 0] by (simp add: numeral_eq_Suc)

lemma idct8_1d_0: "idct8_1d (replicate 8 0) = replicate 8 0"
  using idct8_1d_dc[of 0] by (simp add: numeral_eq_Suc)

lemma idct16_1d_0: "idct16_1d (replicate 16 0) = replicate 16 0"
  using idct16_1d_dc[of 0] by (simp add: numeral_eq_Suc)

lemma idct32_1d_0: "idct32_1d (replicate 32 0) = replicate 32 0"
  using idct32_1d_dc[of 0] by (simp add: numeral_eq_Suc)

lemma dc_block:
  assumes "length b = m" and "0 < m" and "\<forall>k. 1 \<le> k \<and> k < m \<longrightarrow> b ! k = (0 :: i16)"
  shows "b = b ! 0 # replicate (m - 1) 0"
  using assms by (intro nth_equalityI) (auto simp: nth_Cons')

text \<open>The contract of a version of a transform for blocks with the coefficients \<open>b\<close>.\<close>

lemma idct_some_rows_eq:
  assumes "read_block n input xoff yoff = Some b" and "f (replicate n 0) = replicate n 0" and "r \<le> n"
    and "\<forall>k. r * n \<le> k \<and> k < n * n \<longrightarrow> b ! k = 0"
  shows "do { b \<leftarrow> read_block n input xoff yoff; idct_columns n f sh (idct_rows n r f b) dest xoff yoff }
    = idct2d n f sh input dest xoff yoff"
  using idct_rows_some[of f n b r, OF assms(2) read_block_length[OF assms(1)] assms(3,4)]
  by (simp add: assms(1) idct2d_def idct_rows_all)

lemma or16_0 [simp]: "or16 a b = 0 \<longleftrightarrow> a = 0 \<and> b = 0"
proof -
  have "or16 a b = a OR b"
    unfolding or16_def tr_def sx_def by (rule bit_word_eqI) (auto simp: bit_simps less_Suc_eq numeral_eq_Suc)
  then show ?thesis by (simp add: or_eq_0_iff)
qed

lemma row_has_coeff_iff:
  assumes "length r = 32"
  shows "row_has_coeff r \<longleftrightarrow> r \<noteq> replicate 32 0"
proof -
  have "r = map (\<lambda>i. r ! i) [0..<32]" using assms by (metis map_nth)
  then obtain r0 r1 r2 r3 r4 r5 r6 r7 r8 r9 r10 r11 r12 r13 r14 r15 r16 r17 r18 r19 r20 r21 r22 r23 r24
      r25 r26 r27 r28 r29 r30 r31 where
    r: "r = [r0, r1, r2, r3, r4, r5, r6, r7, r8, r9, r10, r11, r12, r13, r14, r15, r16, r17, r18, r19, r20,
      r21, r22, r23, r24, r25, r26, r27, r28, r29, r30, r31]"
    by (simp add: upt_rec)
  show ?thesis
    by (simp add: r row_has_coeff_def zero_coeff_halve_def Let_def upt_rec numeral_eq_Suc or_eq_0_iff) blast
qed
text \<open>Allocations for the examples: one level with the given stride and bytes.\<close>

definition sample_alloc :: "u64 \<Rightarrow> mem \<Rightarrow> rtalloc" where
  "sample_alloc stride m =
     \<lparr>raElementSizeBytes = 1, raHasMipmaps = False, raHasFaces = False,
      raLod = (\<lambda>_. \<lparr>lodData = m, lodStride = stride, lodDimX = 0, lodDimY = 0, lodDimZ = 0\<rparr>),
      raYuvShift = 0, raYuvStep = 0\<rparr>"

definition short_bytes :: "i16 list \<Rightarrow> mem" where
  "short_bytes b = concat (map (\<lambda>v. [Some (ucast (v AND 0xff)), Some (ucast (drop_bit 8 v))]) b)"

definition sample_block :: "nat \<Rightarrow> i16 list \<Rightarrow> rtalloc" where
  "sample_block n b = sample_alloc (of_nat (2 * n)) (short_bytes b)"

definition sample_dest :: "nat \<Rightarrow> rtalloc" where
  "sample_dest n = sample_alloc (of_nat n) (replicate (n * n) (Some 7))"

lemma short_bytes_length: "length (short_bytes b) = 2 * length b"
  by (induction b) (simp_all add: short_bytes_def)

lemma short_bytes_read: "k < length b \<Longrightarrow> mem_read (short_bytes b) (2 * k) 2
    = Some [ucast (b ! k AND 0xff), ucast (drop_bit 8 (b ! k))]"
proof (induction b arbitrary: k)
  case (Cons v b)
  show ?case
  proof (cases k)
    case 0
    then show ?thesis by (simp add: mem_read_def mem_get_def short_bytes_def numeral_2_eq_2)
  next
    case (Suc k')
    then have "mem_read (short_bytes (v # b)) (2 * k) 2 = mem_read (short_bytes b) (2 * k') 2"
      by (simp add: mem_read_def mem_get_def short_bytes_def)
    then show ?thesis using Cons Suc by simp
  qed
qed simp

lemma sample_block_fits:
  assumes n: "0 < n" "n \<le> 32"
  shows "block_fits n 2 (sample_block n b) 0 0" and "unat (ucast (of_nat (2 * n) :: u64) :: u32) = 2 * n"
proof -
  show S: "unat (ucast (of_nat (2 * n) :: u64) :: u32) = 2 * n"
  proof -
    have "unat (of_nat (2 * n) :: u64) = 2 * n" using n by (simp only: unat_of_nat) simp
    then show ?thesis using n by (simp add: unsigned_ucast_eq take_bit_nat_eq_self)
  qed
  have "n * (n * 2) \<le> 32 * (32 * 2)" using n by (intro mult_le_mono) simp_all
  then show "block_fits n 2 (sample_block n b) 0 0"
    using S n by (simp add: block_fits_def sample_block_def sample_alloc_def)
qed

lemma sample_block_read:
  assumes n: "0 < n" "n \<le> 32" and b: "length b = n * n"
  shows "read_block n (sample_block n b) 0 0 = Some b"
proof -
  have "rsGetElementAt_short (sample_block n b) (of_nat (k mod n) + 0) (of_nat (k div n) + 0) = Some (b ! k)"
    if k: "k < n * n" for k
  proof -
    have kn: "k mod n < n" "k div n < n" using n k by (simp_all add: less_mult_imp_div_less)
    have "rsOffset (sample_block n b) 2 (of_nat (k mod n) + 0) (of_nat (k div n) + 0) 0
        = 2 * (k mod n) + k div n * (2 * n)"
      using rsOffset_block[OF sample_block_fits(1)[OF n] kn] sample_block_fits(2)[OF n]
      by (simp add: sample_block_def sample_alloc_def)
    also have "\<dots> = 2 * (k div n * n + k mod n)" by (simp only: algebra_simps)
    also have "\<dots> = 2 * k" by (simp only: div_mult_mod_eq)
    finally have off: "rsOffset (sample_block n b) 2 (of_nat (k mod n)) (of_nat (k div n)) 0 = 2 * k" by simp
    have "lodData (raLod (sample_block n b) 0) = short_bytes b" by (simp add: sample_block_def sample_alloc_def)
    then show ?thesis using short_bytes_read[of k b] k b
      by (simp add: rsGetElementAt_short_def rsGetElementAtImpl_short_def off le16_split)
  qed
  then have "map (\<lambda>k. rsGetElementAt_short (sample_block n b) (of_nat (k mod n) + 0) (of_nat (k div n) + 0)) [0..<n * n]
      = map Some b"
    using b by (intro nth_equalityI) auto
  then show ?thesis unfolding read_block_def by (metis those_map_Some)
qed

definition sample_dc :: "nat \<Rightarrow> rtalloc" where
  "sample_dc n = sample_block n (100 # replicate (n * n - 1) 0)"

lemma sample_dc_block:
  assumes "0 < n" and "n \<le> 32"
  shows "read_block n (sample_dc n) 0 0 = Some (100 # replicate (n * n - 1) 0)"
  unfolding sample_dc_def using assms by (intro sample_block_read) simp_all

text \<open>\<open>rsIdct4x4\<close> computes the full transform whenever the end-of-block position it is given is true of
  the block: at most one coefficient if \<open>eob <= 1\<close>.\<close>

theorem rsIdct4x4_full:
  assumes b: "read_block 4 input xoff yoff = Some b" and fits: "block_fits 4 1 dest xoff yoff"
    and eob: "\<not> 1 <s eob \<longrightarrow> (\<forall>k. 1 \<le> k \<and> k < 16 \<longrightarrow> b ! k = 0)"
  shows "rsIdct4x4 input dest eob xoff yoff = idct2d 4 idct4_1d 4 input dest xoff yoff"
proof (cases "1 <s eob")
  case True
  then show ?thesis by (simp add: rsIdct4x4_def idct4x4_16_def idct2d_def idct_rows_all)
next
  case False
  have "b = b ! 0 # replicate (4 * 4 - 1) 0"
    using dc_block[of b 16] read_block_length[OF b] eob False by simp
  then have b': "read_block 4 input xoff yoff = Some (b ! 0 # replicate (4 * 4 - 1) 0)" using b by simp
  have "idct_dc 4 4 input dest xoff yoff = idct2d 4 idct4_1d 4 input dest xoff yoff"
    by (rule idct2d_dc[OF _ _ b' fits]) (simp_all add: idct4_1d_dc numeral_eq_Suc)
  then show ?thesis using False by (simp add: rsIdct4x4_def idct4x4_1_def)
qed

theorem rsIdct4x4_full_witness:
  "rsIdct4x4 (sample_dc 4) (sample_dest 4) 1 0 0 = idct2d 4 idct4_1d 4 (sample_dc 4) (sample_dest 4) 0 0"
proof -
  have b: "read_block 4 (sample_dc 4) 0 0 = Some (100 # replicate 15 0)" using sample_dc_block[of 4] by simp
  have f: "block_fits 4 1 (sample_dest 4) 0 0" by (simp add: block_fits_def sample_dest_def sample_alloc_def)
  show ?thesis by (rule rsIdct4x4_full[OF b f]) (auto simp: nth_Cons')
qed

text \<open>\<open>rsIdct8x8\<close> computes the full transform whenever its end-of-block position is true of the block:
  one coefficient if \<open>eob == 1\<close>, none below the fourth row if \<open>eob <= 10\<close>.\<close>

theorem rsIdct8x8_full:
  assumes b: "read_block 8 input xoff yoff = Some b" and fits: "block_fits 8 1 dest xoff yoff"
    and e1: "eob = 1 \<longrightarrow> (\<forall>k. 1 \<le> k \<and> k < 64 \<longrightarrow> b ! k = 0)"
    and e10: "eob \<le>s 10 \<longrightarrow> (\<forall>k. 32 \<le> k \<and> k < 64 \<longrightarrow> b ! k = 0)"
  shows "rsIdct8x8 input dest eob xoff yoff = idct2d 8 idct8_1d 5 input dest xoff yoff"
proof -
  have "idct_dc 8 5 input dest xoff yoff = idct2d 8 idct8_1d 5 input dest xoff yoff" if "eob = 1"
  proof -
    have "b = b ! 0 # replicate (8 * 8 - 1) 0" using dc_block[of b 64] read_block_length[OF b] e1 that by simp
    then have b': "read_block 8 input xoff yoff = Some (b ! 0 # replicate (8 * 8 - 1) 0)" using b by simp
    show ?thesis by (rule idct2d_dc[OF _ _ b' fits]) (simp_all add: idct8_1d_dc)
  qed
  moreover have "idct8x8_10 input dest xoff yoff = idct2d 8 idct8_1d 5 input dest xoff yoff" if "eob \<le>s 10"
    unfolding idct8x8_10_def by (rule idct_some_rows_eq[where f = idct8_1d, OF b idct8_1d_0]) (use e10 that in simp_all)
  ultimately show ?thesis
    by (auto simp: rsIdct8x8_def idct8x8_1_def idct8x8_64_def idct2d_def idct_rows_all)
qed

theorem rsIdct8x8_full_witness:
  "rsIdct8x8 (sample_dc 8) (sample_dest 8) 1 0 0 = idct2d 8 idct8_1d 5 (sample_dc 8) (sample_dest 8) 0 0"
proof -
  have b: "read_block 8 (sample_dc 8) 0 0 = Some (100 # replicate 63 0)" using sample_dc_block[of 8] by simp
  have f: "block_fits 8 1 (sample_dest 8) 0 0" by (simp add: block_fits_def sample_dest_def sample_alloc_def)
  show ?thesis by (rule rsIdct8x8_full[OF b f]) (auto simp: nth_Cons')
qed

text \<open>C25: \<open>rsIdct16x16\<close> computes the full transform whenever its end-of-block position is true of the block:
  one coefficient if \<open>eob == 1\<close>, none below the fourth row if \<open>eob <= 10\<close>.\<close>

theorem rsIdct16x16_full:
  assumes b: "read_block 16 input xoff yoff = Some b" and fits: "block_fits 16 1 dest xoff yoff"
    and e1: "eob = 1 \<longrightarrow> (\<forall>k. 1 \<le> k \<and> k < 256 \<longrightarrow> b ! k = 0)"
    and e10: "eob \<le>s 10 \<longrightarrow> (\<forall>k. 64 \<le> k \<and> k < 256 \<longrightarrow> b ! k = 0)"
  shows "rsIdct16x16 input dest eob xoff yoff = idct2d 16 idct16_1d 6 input dest xoff yoff"
proof -
  have "idct_dc 16 6 input dest xoff yoff = idct2d 16 idct16_1d 6 input dest xoff yoff" if "eob = 1"
  proof -
    have "b = b ! 0 # replicate (16 * 16 - 1) 0" using dc_block[of b 256] read_block_length[OF b] e1 that by simp
    then have b': "read_block 16 input xoff yoff = Some (b ! 0 # replicate (16 * 16 - 1) 0)" using b by simp
    show ?thesis by (rule idct2d_dc[OF _ _ b' fits]) (simp_all add: idct16_1d_dc)
  qed
  moreover have "idct16x16_10 input dest xoff yoff = idct2d 16 idct16_1d 6 input dest xoff yoff" if "eob \<le>s 10"
    unfolding idct16x16_10_def by (rule idct_some_rows_eq[where f = idct16_1d, OF b idct16_1d_0]) (use e10 that in simp_all)
  ultimately show ?thesis
    by (auto simp: rsIdct16x16_def idct16x16_1_def idct16x16_256_def idct2d_def idct_rows_all)
qed

theorem rsIdct16x16_full_witness:
  "rsIdct16x16 (sample_dc 16) (sample_dest 16) 1 0 0 = idct2d 16 idct16_1d 6 (sample_dc 16) (sample_dest 16) 0 0"
proof -
  have b: "read_block 16 (sample_dc 16) 0 0 = Some (100 # replicate 255 0)" using sample_dc_block[of 16] by simp
  have f: "block_fits 16 1 (sample_dest 16) 0 0" by (simp add: block_fits_def sample_dest_def sample_alloc_def)
  show ?thesis by (rule rsIdct16x16_full[OF b f]) (auto simp: nth_Cons')
qed

text \<open>C9: \<open>rsIdct32x32\<close> computes the full transform whenever its end-of-block position is true of the block:
  one coefficient if \<open>eob == 1\<close>, none below the eighth row if \<open>eob <= 34\<close>; and the test for empty
  rows in the version for all other blocks changes nothing.\<close>

theorem rsIdct32x32_full:
  assumes b: "read_block 32 input xoff yoff = Some b" and fits: "block_fits 32 1 dest xoff yoff"
    and e1: "eob = 1 \<longrightarrow> (\<forall>k. 1 \<le> k \<and> k < 1024 \<longrightarrow> b ! k = 0)"
    and e34: "eob \<le>s 34 \<longrightarrow> (\<forall>k. 256 \<le> k \<and> k < 1024 \<longrightarrow> b ! k = 0)"
  shows "rsIdct32x32 input dest eob xoff yoff = idct2d 32 idct32_1d 6 input dest xoff yoff"
proof -
  have "idct_dc 32 6 input dest xoff yoff = idct2d 32 idct32_1d 6 input dest xoff yoff" if "eob = 1"
  proof -
    have "b = b ! 0 # replicate (32 * 32 - 1) 0" using dc_block[of b 1024] read_block_length[OF b] e1 that by simp
    then have b': "read_block 32 input xoff yoff = Some (b ! 0 # replicate (32 * 32 - 1) 0)" using b by simp
    show ?thesis by (rule idct2d_dc[OF _ _ b' fits]) (simp_all add: idct32_1d_dc)
  qed
  moreover have "idct32x32_34 input dest xoff yoff = idct2d 32 idct32_1d 6 input dest xoff yoff" if "eob \<le>s 34"
    unfolding idct32x32_34_def by (rule idct_some_rows_eq[where f = idct32_1d, OF b idct32_1d_0]) (use e34 that in simp_all)
  moreover have "idct32x32_1024 input dest xoff yoff = idct2d 32 idct32_1d 6 input dest xoff yoff"
  proof -
    have len: "length (blk_row 32 i b) = 32" if "i < 32" for i
      using that read_block_length[OF b] by (simp add: blk_row_def)
    have "(if row_has_coeff (blk_row 32 i b) then idct32_1d (blk_row 32 i b) else replicate 32 0) = idct32_1d (blk_row 32 i b)"
      if "i < 32" for i
      using row_has_coeff_iff[OF len[OF that]] idct32_1d_0 by auto
    then have "map (\<lambda>i. if row_has_coeff (blk_row 32 i b) then idct32_1d (blk_row 32 i b) else replicate 32 0) [0..<32]
        = map (\<lambda>i. idct32_1d (blk_row 32 i b)) [0..<32]"
      by (intro map_cong refl) simp
    then show ?thesis by (simp only: idct32x32_1024_def idct2d_def b Let_def Option.bind_lunit)
  qed
  ultimately show ?thesis by (auto simp: rsIdct32x32_def idct32x32_1_def)
qed

theorem rsIdct32x32_full_witness:
  "rsIdct32x32 (sample_dc 32) (sample_dest 32) 1 0 0 = idct2d 32 idct32_1d 6 (sample_dc 32) (sample_dest 32) 0 0"
proof -
  have b: "read_block 32 (sample_dc 32) 0 0 = Some (100 # replicate 1023 0)" using sample_dc_block[of 32] by simp
  have f: "block_fits 32 1 (sample_dest 32) 0 0" by (simp add: block_fits_def sample_dest_def sample_alloc_def)
  show ?thesis by (rule rsIdct32x32_full[OF b f]) (auto simp: nth_Cons')
qed

end
