(* ===== verification/Rs_Dct.thy ===== *)
theory Rs_Dct
  imports Rs_Idct
begin

unbundle bit_operations_syntax

text \<open>
  The forward discrete cosine transforms of \<open>driver/runtime/rs_dct.c\<close>, in the form of \<open>Rs_Idct\<close>: a
  one-dimensional transform is a \<open>let\<close> chain over the assignments of the code, and \<open>dct32_1d\<close> is
  cut at its stage comments. The two-dimensional transforms read the block of \<open>input\<close> and of \<open>output\<close>,
  run two passes over sixteen-bit buffers, and write the coefficients to \<open>output\<close>.

  The round-trip theorems send a flat residual through the forward transform and the inverse
  transform of \<open>Rs_Idct\<close>: every pixel of the block changes by exactly the residual.
\<close>

section \<open>Rounding\<close>


definition fdct_round_shift :: "i32 \<Rightarrow> i32" where
  "fdct_round_shift input = ROUND_POWER_OF_TWO input 14"

definition dct_32_round :: "i32 \<Rightarrow> i32" where
  "dct_32_round input = ROUND_POWER_OF_TWO input 14"

definition half_round_shift :: "i32 \<Rightarrow> i32" where
  "half_round_shift input = signed_drop_bit 2 (input + 1 + (if input <s 0 then 1 else 0))"

section \<open>One-dimensional transforms\<close>


definition fdct8 :: "i16 list \<Rightarrow> i16 list" where
  "fdct8 input =
     (let s0 = sx (input ! 0) + sx (input ! 7);
          s1 = sx (input ! 1) + sx (input ! 6);
          s2 = sx (input ! 2) + sx (input ! 5);
          s3 = sx (input ! 3) + sx (input ! 4);
          s4 = sx (input ! 3) - sx (input ! 4);
          s5 = sx (input ! 2) - sx (input ! 5);
          s6 = sx (input ! 1) - sx (input ! 6);
          s7 = sx (input ! 0) - sx (input ! 7);
          x0 = s0 + s3;
          x1 = s1 + s2;
          x2 = s1 - s2;
          x3 = s0 - s3;
          t0 = (x0 + x1) * cospi_16_64;
          t1 = (x0 - x1) * cospi_16_64;
          t2 = x2 * cospi_24_64 + x3 * cospi_8_64;
          t3 = (- x2) * cospi_8_64 + x3 * cospi_24_64;
          output_0 = tr (fdct_round_shift t0);
          output_2 = tr (fdct_round_shift t2);
          output_4 = tr (fdct_round_shift t1);
          output_6 = tr (fdct_round_shift t3);
          t0 = (s6 - s5) * cospi_16_64;
          t1 = (s6 + s5) * cospi_16_64;
          t2 = fdct_round_shift t0;
          t3 = fdct_round_shift t1;
          x0 = s4 + t2;
          x1 = s4 - t2;
          x2 = s7 - t3;
          x3 = s7 + t3;
          t0 = x0 * cospi_28_64 + x3 * cospi_4_64;
          t1 = x1 * cospi_12_64 + x2 * cospi_20_64;
          t2 = x2 * cospi_12_64 + x1 * (- cospi_20_64);
          t3 = x3 * cospi_28_64 + x0 * (- cospi_4_64);
          output_1 = tr (fdct_round_shift t0);
          output_3 = tr (fdct_round_shift t2);
          output_5 = tr (fdct_round_shift t1);
          output_7 = tr (fdct_round_shift t3)
      in [output_0, output_1, output_2, output_3, output_4, output_5, output_6, output_7])"

definition dct4_transform :: "i32 list \<Rightarrow> i16 list" where
  "dct4_transform input =
     (let step_0 = input ! 0 + input ! 3;
          step_1 = input ! 1 + input ! 2;
          step_2 = input ! 1 - input ! 2;
          step_3 = input ! 0 - input ! 3;
          temp1 = (step_0 + step_1) * cospi_16_64;
          temp2 = (step_0 - step_1) * cospi_16_64;
          out_0 = tr (fdct_round_shift temp1);
          out_2 = tr (fdct_round_shift temp2);
          temp1 = step_2 * cospi_24_64 + step_3 * cospi_8_64;
          temp2 = (- step_2) * cospi_8_64 + step_3 * cospi_24_64;
          out_1 = tr (fdct_round_shift temp1);
          out_3 = tr (fdct_round_shift temp2)
      in [out_0, out_1, out_2, out_3])"

definition dct8_column :: "i16 list \<Rightarrow> i16 list" where
  "dct8_column inp =
     (let s0 = (sx (inp ! 0) + sx (inp ! 7)) * 4;
          s1 = (sx (inp ! 1) + sx (inp ! 6)) * 4;
          s2 = (sx (inp ! 2) + sx (inp ! 5)) * 4;
          s3 = (sx (inp ! 3) + sx (inp ! 4)) * 4;
          s4 = (sx (inp ! 3) - sx (inp ! 4)) * 4;
          s5 = (sx (inp ! 2) - sx (inp ! 5)) * 4;
          s6 = (sx (inp ! 1) - sx (inp ! 6)) * 4;
          s7 = (sx (inp ! 0) - sx (inp ! 7)) * 4;
          x0 = s0 + s3;
          x1 = s1 + s2;
          x2 = s1 - s2;
          x3 = s0 - s3;
          t0 = (x0 + x1) * cospi_16_64;
          t1 = (x0 - x1) * cospi_16_64;
          t2 = x2 * cospi_24_64 + x3 * cospi_8_64;
          t3 = (- x2) * cospi_8_64 + x3 * cospi_24_64;
          output_0 = tr (fdct_round_shift t0);
          output_2 = tr (fdct_round_shift t2);
          output_4 = tr (fdct_round_shift t1);
          output_6 = tr (fdct_round_shift t3);
          t0 = (s6 - s5) * cospi_16_64;
          t1 = (s6 + s5) * cospi_16_64;
          t2 = fdct_round_shift t0;
          t3 = fdct_round_shift t1;
          x0 = s4 + t2;
          x1 = s4 - t2;
          x2 = s7 - t3;
          x3 = s7 + t3;
          t0 = x0 * cospi_28_64 + x3 * cospi_4_64;
          t1 = x1 * cospi_12_64 + x2 * cospi_20_64;
          t2 = x2 * cospi_12_64 + x1 * (- cospi_20_64);
          t3 = x3 * cospi_28_64 + x0 * (- cospi_4_64);
          output_1 = tr (fdct_round_shift t0);
          output_3 = tr (fdct_round_shift t2);
          output_5 = tr (fdct_round_shift t1);
          output_7 = tr (fdct_round_shift t3)
      in [output_0, output_1, output_2, output_3, output_4, output_5, output_6, output_7])"

definition dct16_load0 :: "i16 list \<Rightarrow> i32 list \<times> i32 list" where
  "dct16_load0 inp =
     (let input_0 = (sx (inp ! 0) + sx (inp ! 15)) * 4;
          input_1 = (sx (inp ! 1) + sx (inp ! 14)) * 4;
          input_2 = (sx (inp ! 2) + sx (inp ! 13)) * 4;
          input_3 = (sx (inp ! 3) + sx (inp ! 12)) * 4;
          input_4 = (sx (inp ! 4) + sx (inp ! 11)) * 4;
          input_5 = (sx (inp ! 5) + sx (inp ! 10)) * 4;
          input_6 = (sx (inp ! 6) + sx (inp ! 9)) * 4;
          input_7 = (sx (inp ! 7) + sx (inp ! 8)) * 4;
          step1_0 = (sx (inp ! 7) - sx (inp ! 8)) * 4;
          step1_1 = (sx (inp ! 6) - sx (inp ! 9)) * 4;
          step1_2 = (sx (inp ! 5) - sx (inp ! 10)) * 4;
          step1_3 = (sx (inp ! 4) - sx (inp ! 11)) * 4;
          step1_4 = (sx (inp ! 3) - sx (inp ! 12)) * 4;
          step1_5 = (sx (inp ! 2) - sx (inp ! 13)) * 4;
          step1_6 = (sx (inp ! 1) - sx (inp ! 14)) * 4;
          step1_7 = (sx (inp ! 0) - sx (inp ! 15)) * 4
      in ([input_0, input_1, input_2, input_3, input_4, input_5, input_6, input_7],
          [step1_0, step1_1, step1_2, step1_3, step1_4, step1_5, step1_6, step1_7]))"

definition dct16_load1 :: "i16 list \<Rightarrow> i32 list \<times> i32 list" where
  "dct16_load1 inp =
     (let input_0 = signed_drop_bit 2 (sx (inp ! 0) + 1) + signed_drop_bit 2 (sx (inp ! 15) + 1);
          input_1 = signed_drop_bit 2 (sx (inp ! 1) + 1) + signed_drop_bit 2 (sx (inp ! 14) + 1);
          input_2 = signed_drop_bit 2 (sx (inp ! 2) + 1) + signed_drop_bit 2 (sx (inp ! 13) + 1);
          input_3 = signed_drop_bit 2 (sx (inp ! 3) + 1) + signed_drop_bit 2 (sx (inp ! 12) + 1);
          input_4 = signed_drop_bit 2 (sx (inp ! 4) + 1) + signed_drop_bit 2 (sx (inp ! 11) + 1);
          input_5 = signed_drop_bit 2 (sx (inp ! 5) + 1) + signed_drop_bit 2 (sx (inp ! 10) + 1);
          input_6 = signed_drop_bit 2 (sx (inp ! 6) + 1) + signed_drop_bit 2 (sx (inp ! 9) + 1);
          input_7 = signed_drop_bit 2 (sx (inp ! 7) + 1) + signed_drop_bit 2 (sx (inp ! 8) + 1);
          step1_0 = signed_drop_bit 2 (sx (inp ! 7) + 1) - signed_drop_bit 2 (sx (inp ! 8) + 1);
          step1_1 = signed_drop_bit 2 (sx (inp ! 6) + 1) - signed_drop_bit 2 (sx (inp ! 9) + 1);
          step1_2 = signed_drop_bit 2 (sx (inp ! 5) + 1) - signed_drop_bit 2 (sx (inp ! 10) + 1);
          step1_3 = signed_drop_bit 2 (sx (inp ! 4) + 1) - signed_drop_bit 2 (sx (inp ! 11) + 1);
          step1_4 = signed_drop_bit 2 (sx (inp ! 3) + 1) - signed_drop_bit 2 (sx (inp ! 12) + 1);
          step1_5 = signed_drop_bit 2 (sx (inp ! 2) + 1) - signed_drop_bit 2 (sx (inp ! 13) + 1);
          step1_6 = signed_drop_bit 2 (sx (inp ! 1) + 1) - signed_drop_bit 2 (sx (inp ! 14) + 1);
          step1_7 = signed_drop_bit 2 (sx (inp ! 0) + 1) - signed_drop_bit 2 (sx (inp ! 15) + 1)
      in ([input_0, input_1, input_2, input_3, input_4, input_5, input_6, input_7],
          [step1_0, step1_1, step1_2, step1_3, step1_4, step1_5, step1_6, step1_7]))"

definition dct16_even :: "i32 list \<Rightarrow> i16 list" where
  "dct16_even input =
     (let s0 = input ! 0 + input ! 7;
          s1 = input ! 1 + input ! 6;
          s2 = input ! 2 + input ! 5;
          s3 = input ! 3 + input ! 4;
          s4 = input ! 3 - input ! 4;
          s5 = input ! 2 - input ! 5;
          s6 = input ! 1 - input ! 6;
          s7 = input ! 0 - input ! 7;
          x0 = s0 + s3;
          x1 = s1 + s2;
          x2 = s1 - s2;
          x3 = s0 - s3;
          t0 = (x0 + x1) * cospi_16_64;
          t1 = (x0 - x1) * cospi_16_64;
          t2 = x3 * cospi_8_64 + x2 * cospi_24_64;
          t3 = x3 * cospi_24_64 - x2 * cospi_8_64;
          out_0 = tr (fdct_round_shift t0);
          out_4 = tr (fdct_round_shift t2);
          out_8 = tr (fdct_round_shift t1);
          out_12 = tr (fdct_round_shift t3);
          t0 = (s6 - s5) * cospi_16_64;
          t1 = (s6 + s5) * cospi_16_64;
          t2 = fdct_round_shift t0;
          t3 = fdct_round_shift t1;
          x0 = s4 + t2;
          x1 = s4 - t2;
          x2 = s7 - t3;
          x3 = s7 + t3;
          t0 = x0 * cospi_28_64 + x3 * cospi_4_64;
          t1 = x1 * cospi_12_64 + x2 * cospi_20_64;
          t2 = x2 * cospi_12_64 + x1 * (- cospi_20_64);
          t3 = x3 * cospi_28_64 + x0 * (- cospi_4_64);
          out_2 = tr (fdct_round_shift t0);
          out_6 = tr (fdct_round_shift t2);
          out_10 = tr (fdct_round_shift t1);
          out_14 = tr (fdct_round_shift t3)
      in [out_0, out_2, out_4, out_6, out_8, out_10, out_12, out_14])"

definition dct16_odd :: "i32 list \<Rightarrow> i16 list" where
  "dct16_odd step1 =
     (let temp1 = (step1 ! 5 - step1 ! 2) * cospi_16_64;
          temp2 = (step1 ! 4 - step1 ! 3) * cospi_16_64;
          step2_2 = fdct_round_shift temp1;
          step2_3 = fdct_round_shift temp2;
          temp1 = (step1 ! 4 + step1 ! 3) * cospi_16_64;
          temp2 = (step1 ! 5 + step1 ! 2) * cospi_16_64;
          step2_4 = fdct_round_shift temp1;
          step2_5 = fdct_round_shift temp2;
          step3_0 = step1 ! 0 + step2_3;
          step3_1 = step1 ! 1 + step2_2;
          step3_2 = step1 ! 1 - step2_2;
          step3_3 = step1 ! 0 - step2_3;
          step3_4 = step1 ! 7 - step2_4;
          step3_5 = step1 ! 6 - step2_5;
          step3_6 = step1 ! 6 + step2_5;
          step3_7 = step1 ! 7 + step2_4;
          temp1 = step3_1 * (- cospi_8_64) + step3_6 * cospi_24_64;
          temp2 = step3_2 * (- cospi_24_64) - step3_5 * cospi_8_64;
          step2_1 = fdct_round_shift temp1;
          step2_2 = fdct_round_shift temp2;
          temp1 = step3_2 * (- cospi_8_64) + step3_5 * cospi_24_64;
          temp2 = step3_1 * cospi_24_64 + step3_6 * cospi_8_64;
          step2_5 = fdct_round_shift temp1;
          step2_6 = fdct_round_shift temp2;
          step1_0 = step3_0 + step2_1;
          step1_1 = step3_0 - step2_1;
          step1_2 = step3_3 - step2_2;
          step1_3 = step3_3 + step2_2;
          step1_4 = step3_4 + step2_5;
          step1_5 = step3_4 - step2_5;
          step1_6 = step3_7 - step2_6;
          step1_7 = step3_7 + step2_6;
          temp1 = step1_0 * cospi_30_64 + step1_7 * cospi_2_64;
          temp2 = step1_1 * cospi_14_64 + step1_6 * cospi_18_64;
          out_1 = tr (fdct_round_shift temp1);
          out_9 = tr (fdct_round_shift temp2);
          temp1 = step1_2 * cospi_22_64 + step1_5 * cospi_10_64;
          temp2 = step1_3 * cospi_6_64 + step1_4 * cospi_26_64;
          out_5 = tr (fdct_round_shift temp1);
          out_13 = tr (fdct_round_shift temp2);
          temp1 = step1_3 * (- cospi_26_64) + step1_4 * cospi_6_64;
          temp2 = step1_2 * (- cospi_10_64) + step1_5 * cospi_22_64;
          out_3 = tr (fdct_round_shift temp1);
          out_11 = tr (fdct_round_shift temp2);
          temp1 = step1_1 * (- cospi_18_64) + step1_6 * cospi_14_64;
          temp2 = step1_0 * (- cospi_2_64) + step1_7 * cospi_30_64;
          out_7 = tr (fdct_round_shift temp1);
          out_15 = tr (fdct_round_shift temp2)
      in [out_1, out_3, out_5, out_7, out_9, out_11, out_13, out_15])"

definition dct32_1d_stage1 :: "i32 list \<Rightarrow> i32 list" where
  "dct32_1d_stage1 input =
     (let step_0 = input ! 0 + input ! 31;
          step_1 = input ! 1 + input ! 30;
          step_2 = input ! 2 + input ! 29;
          step_3 = input ! 3 + input ! 28;
          step_4 = input ! 4 + input ! 27;
          step_5 = input ! 5 + input ! 26;
          step_6 = input ! 6 + input ! 25;
          step_7 = input ! 7 + input ! 24;
          step_8 = input ! 8 + input ! 23;
          step_9 = input ! 9 + input ! 22;
          step_10 = input ! 10 + input ! 21;
          step_11 = input ! 11 + input ! 20;
          step_12 = input ! 12 + input ! 19;
          step_13 = input ! 13 + input ! 18;
          step_14 = input ! 14 + input ! 17;
          step_15 = input ! 15 + input ! 16;
          step_16 = - (input ! 16) + input ! 15;
          step_17 = - (input ! 17) + input ! 14;
          step_18 = - (input ! 18) + input ! 13;
          step_19 = - (input ! 19) + input ! 12;
          step_20 = - (input ! 20) + input ! 11;
          step_21 = - (input ! 21) + input ! 10;
          step_22 = - (input ! 22) + input ! 9;
          step_23 = - (input ! 23) + input ! 8;
          step_24 = - (input ! 24) + input ! 7;
          step_25 = - (input ! 25) + input ! 6;
          step_26 = - (input ! 26) + input ! 5;
          step_27 = - (input ! 27) + input ! 4;
          step_28 = - (input ! 28) + input ! 3;
          step_29 = - (input ! 29) + input ! 2;
          step_30 = - (input ! 30) + input ! 1;
          step_31 = - (input ! 31) + input ! 0
      in [step_0, step_1, step_2, step_3, step_4, step_5, step_6, step_7, step_8, step_9, step_10,
           step_11, step_12, step_13, step_14, step_15, step_16, step_17, step_18, step_19, step_20,
           step_21, step_22, step_23, step_24, step_25, step_26, step_27, step_28, step_29, step_30,
           step_31])"

definition dct32_1d_stage2 :: "i32 list \<Rightarrow> i32 list" where
  "dct32_1d_stage2 step =
     (let output_0 = step ! 0 + step ! 15;
          output_1 = step ! 1 + step ! 14;
          output_2 = step ! 2 + step ! 13;
          output_3 = step ! 3 + step ! 12;
          output_4 = step ! 4 + step ! 11;
          output_5 = step ! 5 + step ! 10;
          output_6 = step ! 6 + step ! 9;
          output_7 = step ! 7 + step ! 8;
          output_8 = - (step ! 8) + step ! 7;
          output_9 = - (step ! 9) + step ! 6;
          output_10 = - (step ! 10) + step ! 5;
          output_11 = - (step ! 11) + step ! 4;
          output_12 = - (step ! 12) + step ! 3;
          output_13 = - (step ! 13) + step ! 2;
          output_14 = - (step ! 14) + step ! 1;
          output_15 = - (step ! 15) + step ! 0;
          output_16 = step ! 16;
          output_17 = step ! 17;
          output_18 = step ! 18;
          output_19 = step ! 19;
          output_20 = dct_32_round ((- (step ! 20) + step ! 27) * cospi_16_64);
          output_21 = dct_32_round ((- (step ! 21) + step ! 26) * cospi_16_64);
          output_22 = dct_32_round ((- (step ! 22) + step ! 25) * cospi_16_64);
          output_23 = dct_32_round ((- (step ! 23) + step ! 24) * cospi_16_64);
          output_24 = dct_32_round ((step ! 24 + step ! 23) * cospi_16_64);
          output_25 = dct_32_round ((step ! 25 + step ! 22) * cospi_16_64);
          output_26 = dct_32_round ((step ! 26 + step ! 21) * cospi_16_64);
          output_27 = dct_32_round ((step ! 27 + step ! 20) * cospi_16_64);
          output_28 = step ! 28;
          output_29 = step ! 29;
          output_30 = step ! 30;
          output_31 = step ! 31
      in [output_0, output_1, output_2, output_3, output_4, output_5, output_6, output_7, output_8,
           output_9, output_10, output_11, output_12, output_13, output_14, output_15, output_16,
           output_17, output_18, output_19, output_20, output_21, output_22, output_23, output_24,
           output_25, output_26, output_27, output_28, output_29, output_30, output_31])"

definition dct32_1d_dump :: "i32 list \<Rightarrow> i32 list" where
  "dct32_1d_dump output =
     (let output_0 = half_round_shift (output ! 0);
          output_1 = half_round_shift (output ! 1);
          output_2 = half_round_shift (output ! 2);
          output_3 = half_round_shift (output ! 3);
          output_4 = half_round_shift (output ! 4);
          output_5 = half_round_shift (output ! 5);
          output_6 = half_round_shift (output ! 6);
          output_7 = half_round_shift (output ! 7);
          output_8 = half_round_shift (output ! 8);
          output_9 = half_round_shift (output ! 9);
          output_10 = half_round_shift (output ! 10);
          output_11 = half_round_shift (output ! 11);
          output_12 = half_round_shift (output ! 12);
          output_13 = half_round_shift (output ! 13);
          output_14 = half_round_shift (output ! 14);
          output_15 = half_round_shift (output ! 15);
          output_16 = half_round_shift (output ! 16);
          output_17 = half_round_shift (output ! 17);
          output_18 = half_round_shift (output ! 18);
          output_19 = half_round_shift (output ! 19);
          output_20 = half_round_shift (output ! 20);
          output_21 = half_round_shift (output ! 21);
          output_22 = half_round_shift (output ! 22);
          output_23 = half_round_shift (output ! 23);
          output_24 = half_round_shift (output ! 24);
          output_25 = half_round_shift (output ! 25);
          output_26 = half_round_shift (output ! 26);
          output_27 = half_round_shift (output ! 27);
          output_28 = half_round_shift (output ! 28);
          output_29 = half_round_shift (output ! 29);
          output_30 = half_round_shift (output ! 30);
          output_31 = half_round_shift (output ! 31)
      in [output_0, output_1, output_2, output_3, output_4, output_5, output_6, output_7, output_8,
           output_9, output_10, output_11, output_12, output_13, output_14, output_15, output_16,
           output_17, output_18, output_19, output_20, output_21, output_22, output_23, output_24,
           output_25, output_26, output_27, output_28, output_29, output_30, output_31])"

definition dct32_1d_stage3 :: "i32 list \<Rightarrow> i32 list" where
  "dct32_1d_stage3 output =
     (let step_0 = output ! 0 + output ! 7;
          step_1 = output ! 1 + output ! 6;
          step_2 = output ! 2 + output ! 5;
          step_3 = output ! 3 + output ! 4;
          step_4 = - (output ! 4) + output ! 3;
          step_5 = - (output ! 5) + output ! 2;
          step_6 = - (output ! 6) + output ! 1;
          step_7 = - (output ! 7) + output ! 0;
          step_8 = output ! 8;
          step_9 = output ! 9;
          step_10 = dct_32_round ((- (output ! 10) + output ! 13) * cospi_16_64);
          step_11 = dct_32_round ((- (output ! 11) + output ! 12) * cospi_16_64);
          step_12 = dct_32_round ((output ! 12 + output ! 11) * cospi_16_64);
          step_13 = dct_32_round ((output ! 13 + output ! 10) * cospi_16_64);
          step_14 = output ! 14;
          step_15 = output ! 15;
          step_16 = output ! 16 + output ! 23;
          step_17 = output ! 17 + output ! 22;
          step_18 = output ! 18 + output ! 21;
          step_19 = output ! 19 + output ! 20;
          step_20 = - (output ! 20) + output ! 19;
          step_21 = - (output ! 21) + output ! 18;
          step_22 = - (output ! 22) + output ! 17;
          step_23 = - (output ! 23) + output ! 16;
          step_24 = - (output ! 24) + output ! 31;
          step_25 = - (output ! 25) + output ! 30;
          step_26 = - (output ! 26) + output ! 29;
          step_27 = - (output ! 27) + output ! 28;
          step_28 = output ! 28 + output ! 27;
          step_29 = output ! 29 + output ! 26;
          step_30 = output ! 30 + output ! 25;
          step_31 = output ! 31 + output ! 24
      in [step_0, step_1, step_2, step_3, step_4, step_5, step_6, step_7, step_8, step_9, step_10,
           step_11, step_12, step_13, step_14, step_15, step_16, step_17, step_18, step_19, step_20,
           step_21, step_22, step_23, step_24, step_25, step_26, step_27, step_28, step_29, step_30,
           step_31])"

definition dct32_1d_stage4 :: "i32 list \<Rightarrow> i32 list" where
  "dct32_1d_stage4 step =
     (let output_0 = step ! 0 + step ! 3;
          output_1 = step ! 1 + step ! 2;
          output_2 = - (step ! 2) + step ! 1;
          output_3 = - (step ! 3) + step ! 0;
          output_4 = step ! 4;
          output_5 = dct_32_round ((- (step ! 5) + step ! 6) * cospi_16_64);
          output_6 = dct_32_round ((step ! 6 + step ! 5) * cospi_16_64);
          output_7 = step ! 7;
          output_8 = step ! 8 + step ! 11;
          output_9 = step ! 9 + step ! 10;
          output_10 = - (step ! 10) + step ! 9;
          output_11 = - (step ! 11) + step ! 8;
          output_12 = - (step ! 12) + step ! 15;
          output_13 = - (step ! 13) + step ! 14;
          output_14 = step ! 14 + step ! 13;
          output_15 = step ! 15 + step ! 12;
          output_16 = step ! 16;
          output_17 = step ! 17;
          output_18 = dct_32_round ((step ! 18) * (- cospi_8_64) + (step ! 29) * cospi_24_64);
          output_19 = dct_32_round ((step ! 19) * (- cospi_8_64) + (step ! 28) * cospi_24_64);
          output_20 = dct_32_round ((step ! 20) * (- cospi_24_64) + (step ! 27) * (- cospi_8_64));
          output_21 = dct_32_round ((step ! 21) * (- cospi_24_64) + (step ! 26) * (- cospi_8_64));
          output_22 = step ! 22;
          output_23 = step ! 23;
          output_24 = step ! 24;
          output_25 = step ! 25;
          output_26 = dct_32_round ((step ! 26) * cospi_24_64 + (step ! 21) * (- cospi_8_64));
          output_27 = dct_32_round ((step ! 27) * cospi_24_64 + (step ! 20) * (- cospi_8_64));
          output_28 = dct_32_round ((step ! 28) * cospi_8_64 + (step ! 19) * cospi_24_64);
          output_29 = dct_32_round ((step ! 29) * cospi_8_64 + (step ! 18) * cospi_24_64);
          output_30 = step ! 30;
          output_31 = step ! 31
      in [output_0, output_1, output_2, output_3, output_4, output_5, output_6, output_7, output_8,
           output_9, output_10, output_11, output_12, output_13, output_14, output_15, output_16,
           output_17, output_18, output_19, output_20, output_21, output_22, output_23, output_24,
           output_25, output_26, output_27, output_28, output_29, output_30, output_31])"

definition dct32_1d_stage5 :: "i32 list \<Rightarrow> i32 list" where
  "dct32_1d_stage5 output =
     (let step_0 = dct_32_round ((output ! 0 + output ! 1) * cospi_16_64);
          step_1 = dct_32_round ((- (output ! 1) + output ! 0) * cospi_16_64);
          step_2 = dct_32_round ((output ! 2) * cospi_24_64 + (output ! 3) * cospi_8_64);
          step_3 = dct_32_round ((output ! 3) * cospi_24_64 - (output ! 2) * cospi_8_64);
          step_4 = output ! 4 + output ! 5;
          step_5 = - (output ! 5) + output ! 4;
          step_6 = - (output ! 6) + output ! 7;
          step_7 = output ! 7 + output ! 6;
          step_8 = output ! 8;
          step_9 = dct_32_round ((output ! 9) * (- cospi_8_64) + (output ! 14) * cospi_24_64);
          step_10 = dct_32_round ((output ! 10) * (- cospi_24_64) + (output ! 13) * (- cospi_8_64));
          step_11 = output ! 11;
          step_12 = output ! 12;
          step_13 = dct_32_round ((output ! 13) * cospi_24_64 + (output ! 10) * (- cospi_8_64));
          step_14 = dct_32_round ((output ! 14) * cospi_8_64 + (output ! 9) * cospi_24_64);
          step_15 = output ! 15;
          step_16 = output ! 16 + output ! 19;
          step_17 = output ! 17 + output ! 18;
          step_18 = - (output ! 18) + output ! 17;
          step_19 = - (output ! 19) + output ! 16;
          step_20 = - (output ! 20) + output ! 23;
          step_21 = - (output ! 21) + output ! 22;
          step_22 = output ! 22 + output ! 21;
          step_23 = output ! 23 + output ! 20;
          step_24 = output ! 24 + output ! 27;
          step_25 = output ! 25 + output ! 26;
          step_26 = - (output ! 26) + output ! 25;
          step_27 = - (output ! 27) + output ! 24;
          step_28 = - (output ! 28) + output ! 31;
          step_29 = - (output ! 29) + output ! 30;
          step_30 = output ! 30 + output ! 29;
          step_31 = output ! 31 + output ! 28
      in [step_0, step_1, step_2, step_3, step_4, step_5, step_6, step_7, step_8, step_9, step_10,
           step_11, step_12, step_13, step_14, step_15, step_16, step_17, step_18, step_19, step_20,
           step_21, step_22, step_23, step_24, step_25, step_26, step_27, step_28, step_29, step_30,
           step_31])"

definition dct32_1d_stage6 :: "i32 list \<Rightarrow> i32 list" where
  "dct32_1d_stage6 step =
     (let output_0 = step ! 0;
          output_1 = step ! 1;
          output_2 = step ! 2;
          output_3 = step ! 3;
          output_4 = dct_32_round ((step ! 4) * cospi_28_64 + (step ! 7) * cospi_4_64);
          output_5 = dct_32_round ((step ! 5) * cospi_12_64 + (step ! 6) * cospi_20_64);
          output_6 = dct_32_round ((step ! 6) * cospi_12_64 + (step ! 5) * (- cospi_20_64));
          output_7 = dct_32_round ((step ! 7) * cospi_28_64 + (step ! 4) * (- cospi_4_64));
          output_8 = step ! 8 + step ! 9;
          output_9 = - (step ! 9) + step ! 8;
          output_10 = - (step ! 10) + step ! 11;
          output_11 = step ! 11 + step ! 10;
          output_12 = step ! 12 + step ! 13;
          output_13 = - (step ! 13) + step ! 12;
          output_14 = - (step ! 14) + step ! 15;
          output_15 = step ! 15 + step ! 14;
          output_16 = step ! 16;
          output_17 = dct_32_round ((step ! 17) * (- cospi_4_64) + (step ! 30) * cospi_28_64);
          output_18 = dct_32_round ((step ! 18) * (- cospi_28_64) + (step ! 29) * (- cospi_4_64));
          output_19 = step ! 19;
          output_20 = step ! 20;
          output_21 = dct_32_round ((step ! 21) * (- cospi_20_64) + (step ! 26) * cospi_12_64);
          output_22 = dct_32_round ((step ! 22) * (- cospi_12_64) + (step ! 25) * (- cospi_20_64));
          output_23 = step ! 23;
          output_24 = step ! 24;
          output_25 = dct_32_round ((step ! 25) * cospi_12_64 + (step ! 22) * (- cospi_20_64));
          output_26 = dct_32_round ((step ! 26) * cospi_20_64 + (step ! 21) * cospi_12_64);
          output_27 = step ! 27;
          output_28 = step ! 28;
          output_29 = dct_32_round ((step ! 29) * cospi_28_64 + (step ! 18) * (- cospi_4_64));
          output_30 = dct_32_round ((step ! 30) * cospi_4_64 + (step ! 17) * cospi_28_64);
          output_31 = step ! 31
      in [output_0, output_1, output_2, output_3, output_4, output_5, output_6, output_7, output_8,
           output_9, output_10, output_11, output_12, output_13, output_14, output_15, output_16,
           output_17, output_18, output_19, output_20, output_21, output_22, output_23, output_24,
           output_25, output_26, output_27, output_28, output_29, output_30, output_31])"

definition dct32_1d_stage7 :: "i32 list \<Rightarrow> i32 list" where
  "dct32_1d_stage7 output =
     (let step_0 = output ! 0;
          step_1 = output ! 1;
          step_2 = output ! 2;
          step_3 = output ! 3;
          step_4 = output ! 4;
          step_5 = output ! 5;
          step_6 = output ! 6;
          step_7 = output ! 7;
          step_8 = dct_32_round ((output ! 8) * cospi_30_64 + (output ! 15) * cospi_2_64);
          step_9 = dct_32_round ((output ! 9) * cospi_14_64 + (output ! 14) * cospi_18_64);
          step_10 = dct_32_round ((output ! 10) * cospi_22_64 + (output ! 13) * cospi_10_64);
          step_11 = dct_32_round ((output ! 11) * cospi_6_64 + (output ! 12) * cospi_26_64);
          step_12 = dct_32_round ((output ! 12) * cospi_6_64 + (output ! 11) * (- cospi_26_64));
          step_13 = dct_32_round ((output ! 13) * cospi_22_64 + (output ! 10) * (- cospi_10_64));
          step_14 = dct_32_round ((output ! 14) * cospi_14_64 + (output ! 9) * (- cospi_18_64));
          step_15 = dct_32_round ((output ! 15) * cospi_30_64 + (output ! 8) * (- cospi_2_64));
          step_16 = output ! 16 + output ! 17;
          step_17 = - (output ! 17) + output ! 16;
          step_18 = - (output ! 18) + output ! 19;
          step_19 = output ! 19 + output ! 18;
          step_20 = output ! 20 + output ! 21;
          step_21 = - (output ! 21) + output ! 20;
          step_22 = - (output ! 22) + output ! 23;
          step_23 = output ! 23 + output ! 22;
          step_24 = output ! 24 + output ! 25;
          step_25 = - (output ! 25) + output ! 24;
          step_26 = - (output ! 26) + output ! 27;
          step_27 = output ! 27 + output ! 26;
          step_28 = output ! 28 + output ! 29;
          step_29 = - (output ! 29) + output ! 28;
          step_30 = - (output ! 30) + output ! 31;
          step_31 = output ! 31 + output ! 30
      in [step_0, step_1, step_2, step_3, step_4, step_5, step_6, step_7, step_8, step_9, step_10,
           step_11, step_12, step_13, step_14, step_15, step_16, step_17, step_18, step_19, step_20,
           step_21, step_22, step_23, step_24, step_25, step_26, step_27, step_28, step_29, step_30,
           step_31])"

definition dct32_1d_stage8 :: "i32 list \<Rightarrow> i32 list" where
  "dct32_1d_stage8 step =
     (let output_0 = step ! 0;
          output_16 = step ! 1;
          output_8 = step ! 2;
          output_24 = step ! 3;
          output_4 = step ! 4;
          output_20 = step ! 5;
          output_12 = step ! 6;
          output_28 = step ! 7;
          output_2 = step ! 8;
          output_18 = step ! 9;
          output_10 = step ! 10;
          output_26 = step ! 11;
          output_6 = step ! 12;
          output_22 = step ! 13;
          output_14 = step ! 14;
          output_30 = step ! 15;
          output_1 = dct_32_round ((step ! 16) * cospi_31_64 + (step ! 31) * cospi_1_64);
          output_17 = dct_32_round ((step ! 17) * cospi_15_64 + (step ! 30) * cospi_17_64);
          output_9 = dct_32_round ((step ! 18) * cospi_23_64 + (step ! 29) * cospi_9_64);
          output_25 = dct_32_round ((step ! 19) * cospi_7_64 + (step ! 28) * cospi_25_64);
          output_5 = dct_32_round ((step ! 20) * cospi_27_64 + (step ! 27) * cospi_5_64);
          output_21 = dct_32_round ((step ! 21) * cospi_11_64 + (step ! 26) * cospi_21_64);
          output_13 = dct_32_round ((step ! 22) * cospi_19_64 + (step ! 25) * cospi_13_64);
          output_29 = dct_32_round ((step ! 23) * cospi_3_64 + (step ! 24) * cospi_29_64);
          output_3 = dct_32_round ((step ! 24) * cospi_3_64 + (step ! 23) * (- cospi_29_64));
          output_19 = dct_32_round ((step ! 25) * cospi_19_64 + (step ! 22) * (- cospi_13_64));
          output_11 = dct_32_round ((step ! 26) * cospi_11_64 + (step ! 21) * (- cospi_21_64));
          output_27 = dct_32_round ((step ! 27) * cospi_27_64 + (step ! 20) * (- cospi_5_64));
          output_7 = dct_32_round ((step ! 28) * cospi_7_64 + (step ! 19) * (- cospi_25_64));
          output_23 = dct_32_round ((step ! 29) * cospi_23_64 + (step ! 18) * (- cospi_9_64));
          output_15 = dct_32_round ((step ! 30) * cospi_15_64 + (step ! 17) * (- cospi_17_64));
          output_31 = dct_32_round ((step ! 31) * cospi_31_64 + (step ! 16) * (- cospi_1_64))
      in [output_0, output_1, output_2, output_3, output_4, output_5, output_6, output_7, output_8,
           output_9, output_10, output_11, output_12, output_13, output_14, output_15, output_16,
           output_17, output_18, output_19, output_20, output_21, output_22, output_23, output_24,
           output_25, output_26, output_27, output_28, output_29, output_30, output_31])"

definition dct32_1d :: "i32 list \<Rightarrow> i32 \<Rightarrow> i32 list" where
  "dct32_1d input round =
     (let output = dct32_1d_stage2 (dct32_1d_stage1 input);
          output = (if round \<noteq> 0 then dct32_1d_dump output else output)
      in dct32_1d_stage8 (dct32_1d_stage7 (dct32_1d_stage6 (dct32_1d_stage5 (dct32_1d_stage4
           (dct32_1d_stage3 output))))))"
section \<open>Two-dimensional transforms\<close>

text \<open>The final loops: entry \<open>i + j * n\<close> of the buffer goes to \<open>(xoff + i, yoff + j)\<close>.\<close>

definition write_block :: "nat \<Rightarrow> i16 list \<Rightarrow> rtalloc \<Rightarrow> u32 \<Rightarrow> u32 \<Rightarrow> rtalloc option" where
  "write_block n b a xoff yoff =
     for_upto 0 n (\<lambda>i. for_upto 0 n (\<lambda>j a.
       rsSetElementAt_short a (b ! (i + j * n)) (of_nat i + xoff) (of_nat j + yoff))) a"

text \<open>A block given by its columns.\<close>

definition blk_of_cols :: "nat \<Rightarrow> (nat \<Rightarrow> 'a list) \<Rightarrow> 'a list" where
  "blk_of_cols n col = map (\<lambda>k. col (k mod n) ! (k div n)) [0..<n * n]"

text \<open>The inputs of column \<open>i\<close> in a pass of the \<open>4x4\<close> transform.\<close>

definition dct4_load :: "nat \<Rightarrow> nat \<Rightarrow> i16 list \<Rightarrow> i32 list" where
  "dct4_load pass i c =
     (if pass = 0 then
        let input_0 = sx (c ! 0) * 16;
            input_1 = sx (c ! 1) * 16;
            input_2 = sx (c ! 2) * 16;
            input_3 = sx (c ! 3) * 16;
            input_0 = (if i = 0 \<and> input_0 \<noteq> 0 then input_0 + 1 else input_0)
        in [input_0, input_1, input_2, input_3]
      else [sx (c ! 0), sx (c ! 1), sx (c ! 2), sx (c ! 3)])"

definition dct4_pass :: "nat \<Rightarrow> i16 list \<Rightarrow> i16 list" where
  "dct4_pass pass b = concat (map (\<lambda>i. dct4_transform (dct4_load pass i (blk_col 4 i b))) [0..<4])"

definition rsDct4x4 :: "rtalloc \<Rightarrow> rtalloc \<Rightarrow> u32 \<Rightarrow> u32 \<Rightarrow> rtalloc option" where
  "rsDct4x4 input output xoff yoff =
     do { inptr \<leftarrow> read_block 4 input xoff yoff;
          outptr \<leftarrow> read_block 4 output xoff yoff;
          let output_1 = dct4_pass 1 (dct4_pass 0 inptr);
          write_block 4 (map (\<lambda>v. tr (signed_drop_bit 2 (sx v + 1))) output_1) output xoff yoff }"

text \<open>Division by two in C rounds towards zero.\<close>

definition half_toward_zero :: "i16 \<Rightarrow> i16" where
  "half_toward_zero v = tr (if sx v <s 0 then - (signed_drop_bit 1 (- sx v)) else signed_drop_bit 1 (sx v))"

definition rsDct8x8 :: "rtalloc \<Rightarrow> rtalloc \<Rightarrow> u32 \<Rightarrow> u32 \<Rightarrow> rtalloc option" where
  "rsDct8x8 input output xoff yoff =
     do { inptr \<leftarrow> read_block 8 input xoff yoff;
          outptr \<leftarrow> read_block 8 output xoff yoff;
          let intermediate = blk_of_cols 8 (\<lambda>i. dct8_column (blk_col 8 i inptr));
          let output_1 = concat (map (\<lambda>i. fdct8 (blk_row 8 i intermediate)) [0..<8]);
          write_block 8 (map half_toward_zero output_1) output xoff yoff }"

definition dct16_transform :: "nat \<Rightarrow> i16 list \<Rightarrow> i16 list" where
  "dct16_transform pass c =
     (let (input, step1) = (if pass = 0 then dct16_load0 c else dct16_load1 c);
          even = dct16_even input;
          odd = dct16_odd step1
      in [even ! 0, odd ! 0, even ! 1, odd ! 1, even ! 2, odd ! 2, even ! 3, odd ! 3,
          even ! 4, odd ! 4, even ! 5, odd ! 5, even ! 6, odd ! 6, even ! 7, odd ! 7])"

definition dct16_pass :: "nat \<Rightarrow> i16 list \<Rightarrow> i16 list" where
  "dct16_pass pass b = concat (map (\<lambda>i. dct16_transform pass (blk_col 16 i b)) [0..<16])"

definition rsDct16x16 :: "rtalloc \<Rightarrow> rtalloc \<Rightarrow> u32 \<Rightarrow> u32 \<Rightarrow> rtalloc option" where
  "rsDct16x16 input output xoff yoff =
     do { inptr \<leftarrow> read_block 16 input xoff yoff;
          outptr \<leftarrow> read_block 16 output xoff yoff;
          write_block 16 (dct16_pass 1 (dct16_pass 0 inptr)) output xoff yoff }"

text \<open>The columns of both \<open>32x32\<close> transforms; the intermediate block has \<open>int\<close> entries.\<close>

definition dct32_columns :: "i16 list \<Rightarrow> i32 list" where
  "dct32_columns b =
     blk_of_cols 32 (\<lambda>i.
       let temp_in = map (\<lambda>v. sx v * 4) (blk_col 32 i b);
           temp_out = dct32_1d temp_in 0
       in map (\<lambda>t. signed_drop_bit 2 (t + 1 + (if 0 <s t then 1 else 0))) temp_out)"

definition rsDct32x32 :: "rtalloc \<Rightarrow> rtalloc \<Rightarrow> u32 \<Rightarrow> u32 \<Rightarrow> rtalloc option" where
  "rsDct32x32 input out xoff yoff =
     do { inptr \<leftarrow> read_block 32 input xoff yoff;
          outptr \<leftarrow> read_block 32 out xoff yoff;
          let output = dct32_columns inptr;
          let output_1 = concat (map (\<lambda>i. let temp_out = dct32_1d (blk_row 32 i output) 0
                in map (\<lambda>t. tr (signed_drop_bit 2 (t + 1 + (if t <s 0 then 1 else 0)))) temp_out) [0..<32]);
          write_block 32 output_1 out xoff yoff }"

definition rsDct32x32_rd :: "rtalloc \<Rightarrow> rtalloc \<Rightarrow> u32 \<Rightarrow> u32 \<Rightarrow> rtalloc option" where
  "rsDct32x32_rd input out xoff yoff =
     do { inptr \<leftarrow> read_block 32 input xoff yoff;
          outptr \<leftarrow> read_block 32 out xoff yoff;
          let output = dct32_columns inptr;
          let output_1 = concat (map (\<lambda>i. map tr (dct32_1d (blk_row 32 i output) 1)) [0..<32]);
          write_block 32 output_1 out xoff yoff }"

section \<open>Flat blocks\<close>

lemma fdct_round_shift_0 [simp]: "fdct_round_shift 0 = 0"
  by (simp add: fdct_round_shift_def ROUND_POWER_OF_TWO_def)

lemma dct_32_round_0 [simp]: "dct_32_round 0 = 0"
  by (simp add: dct_32_round_def ROUND_POWER_OF_TWO_def)

lemma half_round_shift_0 [simp]: "half_round_shift 0 = 0"
  by (simp add: half_round_shift_def)

lemma half_toward_zero_0 [simp]: "half_toward_zero 0 = 0"
  by (simp add: half_toward_zero_def)

text \<open>The first coefficient of a flat column: \<open>m\<close> times the sample, scaled by \<open>cospi_16_64\<close>.\<close>

definition flat_dc :: "i32 \<Rightarrow> i32 \<Rightarrow> i32" where
  "flat_dc m v = fdct_round_shift (v * m * cospi_16_64)"

lemma dct8_column_flat: "dct8_column (replicate 8 d) = tr (flat_dc 32 (sx d)) # replicate 7 0"
  by (simp add: dct8_column_def Let_def numeral_eq_Suc flat_dc_def ac_simps)

lemma fdct8_flat: "fdct8 (replicate 8 d) = tr (flat_dc 8 (sx d)) # replicate 7 0"
  by (simp add: fdct8_def Let_def numeral_eq_Suc flat_dc_def ac_simps)

lemma dct16_flat0: "dct16_transform 0 (replicate 16 d) = tr (flat_dc 64 (sx d)) # replicate 15 0"
  by (simp add: dct16_transform_def dct16_load0_def dct16_even_def dct16_odd_def Let_def numeral_eq_Suc flat_dc_def ac_simps)

lemma dct16_flat1: "dct16_transform 1 (replicate 16 d) = tr (flat_dc 16 (signed_drop_bit 2 (sx d + 1))) # replicate 15 0"
  by (simp add: dct16_transform_def dct16_load1_def dct16_even_def dct16_odd_def Let_def numeral_eq_Suc flat_dc_def ac_simps)
lemmas dct32_stages = dct32_1d_stage1_def dct32_1d_stage2_def dct32_1d_dump_def dct32_1d_stage3_def
  dct32_1d_stage4_def dct32_1d_stage5_def dct32_1d_stage6_def dct32_1d_stage7_def dct32_1d_stage8_def

lemma dct_32_round_eq: "dct_32_round = fdct_round_shift"
  by (simp add: fun_eq_iff dct_32_round_def fdct_round_shift_def)

lemma dct32_1d_flat: "dct32_1d (replicate 32 v) 0 = flat_dc 32 v # replicate 31 0"
  by (simp add: dct32_1d_def dct32_stages Let_def numeral_eq_Suc flat_dc_def ac_simps dct_32_round_eq)

lemma blk_col_flat: "i < n \<Longrightarrow> blk_col n i (replicate (n * n) d) = replicate n d"
proof -
  assume i: "i < n"
  have "j * n + i < n * n" if "j < n" for j
  proof -
    have "j * n + n \<le> n * n" using that by (metis Suc_leI add.commute mult_Suc mult_le_mono1)
    then show ?thesis using i by linarith
  qed
  then show ?thesis by (intro nth_equalityI) (simp_all add: blk_col_def)
qed

text \<open>Flat columns give a block whose first row is flat.\<close>

lemma blk_of_flat_cols:
  assumes "0 < n" and "\<And>i. i < n \<Longrightarrow> col i = c # replicate (n - 1) z"
  shows "blk_of_cols n col = replicate n c @ replicate ((n - 1) * n) z"
proof (rule nth_equalityI)
  have "n * n = n + (n - 1) * n" using assms(1) by (cases n) simp_all
  then show len: "length (blk_of_cols n col) = length (replicate n c @ replicate ((n - 1) * n) z)"
    by (simp add: blk_of_cols_def)
  fix k
  assume "k < length (blk_of_cols n col)"
  then have k: "k < n * n" by (simp add: blk_of_cols_def)
  then have "k div n < n" "k mod n < n" using assms(1) by (simp_all add: less_mult_imp_div_less)
  moreover have "replicate (n - 1) z ! (k div n - 1) = z" if "\<not> k < n"
  proof -
    have "k div n \<noteq> 0" using that assms(1) by (simp add: div_eq_0_iff)
    then show ?thesis using \<open>k div n < n\<close> by simp
  qed
  ultimately show "blk_of_cols n col ! k = (replicate n c @ replicate ((n - 1) * n) z) ! k"
    using k len assms by (auto simp: blk_of_cols_def nth_append nth_Cons' div_eq_0_iff)
qed

lemma blk_row_flat_first:
  assumes "i < n"
  shows "blk_row n i (replicate n c @ replicate ((n - 1) * n) z) = replicate n (if i = 0 then c else z)"
proof (cases i)
  case 0
  then show ?thesis by (simp add: blk_row_def)
next
  case (Suc m)
  then have "m + 1 \<le> n - 1" using assms by simp
  then have "m * n + n \<le> (n - 1) * n" by (metis add_mult_distrib mult_1 mult_le_mono1)
  then show ?thesis using Suc by (simp add: blk_row_def)
qed

text \<open>Transposed: the flat columns are rows, and the next pass reads the columns.\<close>

lemma blk_col_flat_rows:
  assumes "i < n" and "\<And>i. i < n \<Longrightarrow> row i = c # replicate (n - 1) z"
  shows "blk_col n i (concat (map row [0..<n])) = replicate n (if i = 0 then c else z)"
proof -
  have "map row [0..<n] = replicate n (c # replicate (n - 1) z)"
    using assms(2) by (intro nth_equalityI) simp_all
  moreover have "concat (replicate m (c # replicate (n - 1) z)) ! (j * n + i) = (if i = 0 then c else z)"
    if "j < m" for j m
    using that
  proof (induction m arbitrary: j)
    case (Suc m)
    then show ?case using assms(1) by (cases j) (auto simp: nth_append nth_Cons')
  qed simp
  ultimately show ?thesis by (intro nth_equalityI) (simp_all add: blk_col_def)
qed

lemma concat_dc_rows:
  assumes "0 < n" and "\<And>i. i < n \<Longrightarrow> row i = (if i = 0 then c else z) # replicate (n - 1) z"
  shows "concat (map row [0..<n]) = c # replicate (n * n - 1) z"
proof -
  have *: "map row [0..<n] = (c # replicate (n - 1) z) # replicate (n - 1) (replicate n z)"
    using assms by (intro nth_equalityI) (auto simp: nth_Cons' simp flip: replicate_Suc)
  have "n - 1 + (n - 1) * n = n * n - 1" using assms(1) by (cases n) simp_all
  then show ?thesis unfolding * by (simp add: concat_replicate_replicate replicate_add[symmetric])
qed
text \<open>The coefficient that a flat residual becomes.\<close>

definition flat8 :: "i16 \<Rightarrow> i16" where
  "flat8 d = half_toward_zero (tr (flat_dc 8 (sx (tr (flat_dc 32 (sx d))))))"

definition flat16 :: "i16 \<Rightarrow> i16" where
  "flat16 d = tr (flat_dc 16 (signed_drop_bit 2 (sx (tr (flat_dc 64 (sx d))) + 1)))"

definition flat32 :: "i16 \<Rightarrow> i16" where
  "flat32 d =
     (let t = flat_dc 32 (sx d * 4);
          t = flat_dc 32 (signed_drop_bit 2 (t + 1 + (if 0 <s t then 1 else 0)))
      in tr (signed_drop_bit 2 (t + 1 + (if t <s 0 then 1 else 0))))"

text \<open>On values that fit, the arithmetic is that of the integers.\<close>

lemma sint_word_of_int_32: "- (2 ^ 31) \<le> x \<Longrightarrow> x < 2 ^ 31 \<Longrightarrow> sint (word_of_int x :: i32) = x"
  by (simp add: sint_sbintrunc' signed_take_bit_int_eq_self)

lemma sx_word_of_int: "- 32768 \<le> x \<Longrightarrow> x < 32768 \<Longrightarrow> sx (word_of_int x) = word_of_int x"
  by (simp add: sx_def signed_ucast_eq scast_eq sint_sbintrunc' signed_take_bit_int_eq_self)

lemma tr_word_of_int: "tr (word_of_int x) = word_of_int x"
  by (simp add: tr_def, rule bit_word_eqI) (simp add: bit_simps)

lemma signed_drop_bit_word_of_int:
  assumes "- (2 ^ 31) \<le> x" and "x < 2 ^ 31"
  shows "signed_drop_bit n (word_of_int x :: i32) = word_of_int (x div 2 ^ n)"
proof -
  have "sint (signed_drop_bit n (word_of_int x :: i32)) = x div 2 ^ n"
    using assms by (simp add: sint_signed_drop_bit_eq sint_word_of_int_32 drop_bit_eq_div)
  then have "word_of_int (sint (signed_drop_bit n (word_of_int x :: i32))) = (word_of_int (x div 2 ^ n) :: i32)" by (rule arg_cong)
  then show ?thesis by simp
qed

lemma ROUND_word_of_int:
  assumes "- 2147483648 \<le> x" and "x + 2 ^ (n - 1) < 2147483648"
  shows "ROUND_POWER_OF_TWO (word_of_int x) n = word_of_int ((x + 2 ^ (n - 1)) div 2 ^ n)"
proof -
  have "0 \<le> (2 :: int) ^ (n - 1)" by simp
  then have "- 2147483648 \<le> x + 2 ^ (n - 1)" using assms(1) by linarith
  then have "signed_drop_bit n (word_of_int (x + 2 ^ (n - 1)) :: i32) = word_of_int ((x + 2 ^ (n - 1)) div 2 ^ n)"
    using assms(2) by (intro signed_drop_bit_word_of_int) simp_all
  moreover have "word_of_int (x + 2 ^ (n - 1)) = (word_of_int x + push_bit (n - 1) 1 :: i32)"
    by (simp add: push_bit_eq_mult)
  ultimately show ?thesis by (simp only: ROUND_POWER_OF_TWO_def)
qed
lemma flat_dc_word_of_int:
  assumes "- 185000 \<le> v * m" and "v * m \<le> 185000"
  shows "flat_dc (word_of_int m) (word_of_int v) = word_of_int ((v * m * 11585 + 8192) div 16384)"
proof -
  have "word_of_int v * word_of_int m * cospi_16_64 = (word_of_int (v * m * 11585) :: i32)"
    by (simp add: cospi_64_def)
  moreover have "- 2147483648 \<le> v * m * 11585" "v * m * 11585 + 8192 < 2147483648"
    using assms by linarith+
  ultimately show ?thesis
    using ROUND_word_of_int[of "v * m * 11585" 14] by (simp add: flat_dc_def fdct_round_shift_def)
qed

lemma dc_value_word_of_int:
  assumes "- 32768 \<le> v" and "v < 32768"
  shows "dc_value (word_of_int v) = word_of_int ((v * 11585 + 8192) div 16384)"
proof -
  have "sx (word_of_int v) * cospi_16_64 = word_of_int (v * 11585)"
    using assms by (simp add: sx_word_of_int cospi_64_def)
  moreover have "- 32768 \<le> (v * 11585 + 8192) div 16384" "(v * 11585 + 8192) div 16384 < 32768"
    using assms by linarith+
  ultimately show ?thesis
    using ROUND_word_of_int[of "v * 11585" 14] assms
    by (simp add: dc_value_def dct_const_round_shift_def tr_word_of_int sx_word_of_int)
qed
lemma half_toward_zero_word_of_int:
  assumes "- 32768 < v" and "v < 32768"
  shows "half_toward_zero (word_of_int v) = word_of_int (if v < 0 then - ((- v) div 2) else v div 2)"
proof -
  have "word_sless (word_of_int v :: i32) 0 \<longleftrightarrow> v < 0"
    using sint_word_of_int_32[of v] assms by (simp add: word_sless_alt)
  moreover have "- word_of_int v = (word_of_int (- v) :: i32)" by simp
  ultimately show ?thesis
    using assms signed_drop_bit_word_of_int[of v 1] signed_drop_bit_word_of_int[of "- v" 1]
    by (simp add: half_toward_zero_def sx_word_of_int tr_word_of_int del: of_int_minus flip: of_int_minus)
qed

lemma flat8_exact:
  assumes "- 255 \<le> D" and "D \<le> 255"
  shows "ROUND_POWER_OF_TWO (sx (dc_value (dc_value (flat8 (word_of_int D))))) 5 = word_of_int D"
proof -
  define a where "a = (D * 32 * 11585 + 8192) div 16384"
  define b where "b = (a * 8 * 11585 + 8192) div 16384"
  define h where "h = (if b < 0 then - ((- b) div 2) else b div 2)"
  define p where "p = (h * 11585 + 8192) div 16384"
  define q where "q = (p * 11585 + 8192) div 16384"
  have a: "16384 * a \<le> D * 370720 + 8192" "D * 370720 + 8192 < 16384 * a + 16384"
    unfolding a_def by linarith+
  have b: "16384 * b \<le> a * 92680 + 8192" "a * 92680 + 8192 < 16384 * b + 16384"
    unfolding b_def by linarith+
  have h: "2 * h \<le> b + 1" "b - 1 \<le> 2 * h" unfolding h_def by (auto; linarith)+
  have p: "16384 * p \<le> h * 11585 + 8192" "h * 11585 + 8192 < 16384 * p + 16384"
    unfolding p_def by linarith+
  have q: "16384 * q \<le> p * 11585 + 8192" "p * 11585 + 8192 < 16384 * q + 16384"
    unfolding q_def by linarith+
  have "32 * D \<le> q + 16" "q + 16 < 32 * D + 32" using a b h p q assms by linarith+
  then have r: "(q + 16) div 32 = D" by linarith
  have 1: "sx (word_of_int D) = word_of_int D" using assms by (simp add: sx_word_of_int)
  have 2: "flat_dc 32 (word_of_int D) = word_of_int a"
    using flat_dc_word_of_int[of D 32] assms by (simp add: a_def)
  have 3: "sx (word_of_int a) = word_of_int a" using a assms by (intro sx_word_of_int) linarith+
  have 4: "flat_dc 8 (word_of_int a) = word_of_int b"
    using flat_dc_word_of_int[of a 8] a assms by (simp add: b_def)
  have 5: "half_toward_zero (word_of_int b) = word_of_int h"
    unfolding h_def using a b assms by (intro half_toward_zero_word_of_int) linarith+
  have 6: "dc_value (word_of_int h) = word_of_int p"
    unfolding p_def using a b h assms by (intro dc_value_word_of_int) linarith+
  have 7: "dc_value (word_of_int p) = word_of_int q"
    unfolding q_def using a b h p assms by (intro dc_value_word_of_int) linarith+
  have 8: "sx (word_of_int q) = word_of_int q" using a b h p q assms by (intro sx_word_of_int) linarith+
  have 9: "ROUND_POWER_OF_TWO (word_of_int q) 5 = word_of_int D"
    using ROUND_word_of_int[of q 5] r a b h p q assms by simp
  show ?thesis by (simp add: flat8_def 1 2 3 4 5 6 7 8 9 tr_word_of_int)
qed
lemma flat16_exact:
  assumes "- 255 \<le> D" and "D \<le> 255"
  shows "ROUND_POWER_OF_TWO (sx (dc_value (dc_value (flat16 (word_of_int D))))) 6 = word_of_int D"
proof -
  define a where "a = (D * 64 * 11585 + 8192) div 16384"
  define c where "c = (a + 1) div 4"
  define b where "b = (c * 16 * 11585 + 8192) div 16384"
  define p where "p = (b * 11585 + 8192) div 16384"
  define q where "q = (p * 11585 + 8192) div 16384"
  have a: "16384 * a \<le> D * 741440 + 8192" "D * 741440 + 8192 < 16384 * a + 16384"
    unfolding a_def by linarith+
  have c: "4 * c \<le> a + 1" "a + 1 < 4 * c + 4" unfolding c_def by linarith+
  have b: "16384 * b \<le> c * 185360 + 8192" "c * 185360 + 8192 < 16384 * b + 16384"
    unfolding b_def by linarith+
  have p: "16384 * p \<le> b * 11585 + 8192" "b * 11585 + 8192 < 16384 * p + 16384"
    unfolding p_def by linarith+
  have q: "16384 * q \<le> p * 11585 + 8192" "p * 11585 + 8192 < 16384 * q + 16384"
    unfolding q_def by linarith+
  have "64 * D \<le> q + 32" "q + 32 < 64 * D + 64" using a b c p q assms by linarith+
  then have r: "(q + 32) div 64 = D" by linarith
  have 1: "sx (word_of_int D) = word_of_int D" using assms by (simp add: sx_word_of_int)
  have 2: "flat_dc 64 (word_of_int D) = word_of_int a"
    using flat_dc_word_of_int[of D 64] assms by (simp add: a_def)
  have 3: "sx (word_of_int a) = word_of_int a" using a assms by (intro sx_word_of_int) linarith+
  have 4: "signed_drop_bit 2 (word_of_int a + 1 :: i32) = word_of_int c"
    using signed_drop_bit_word_of_int[of "a + 1" 2] a assms by (simp add: c_def)
  have 5: "flat_dc 16 (word_of_int c) = word_of_int b"
    using flat_dc_word_of_int[of c 16] a c assms by (simp add: b_def)
  have 6: "dc_value (word_of_int b) = word_of_int p"
    unfolding p_def using a b c assms by (intro dc_value_word_of_int) linarith+
  have 7: "dc_value (word_of_int p) = word_of_int q"
    unfolding q_def using a b c p assms by (intro dc_value_word_of_int) linarith+
  have 8: "sx (word_of_int q) = word_of_int q" using a b c p q assms by (intro sx_word_of_int) linarith+
  have 9: "ROUND_POWER_OF_TWO (word_of_int q) 6 = word_of_int D"
    using ROUND_word_of_int[of q 6] r a b c p q assms by simp
  show ?thesis by (simp add: flat16_def 1 2 3 4 5 6 7 8 9 tr_word_of_int)
qed

lemma sless_word_of_int:
  assumes "- 2147483648 \<le> t" and "t < 2147483648"
  shows "(word_of_int t :: i32) <s 0 \<longleftrightarrow> t < 0" and "0 <s (word_of_int t :: i32) \<longleftrightarrow> 0 < t"
  using sint_word_of_int_32[of t] assms by (simp_all add: word_sless_alt)

lemma round_quarter_word_of_int:
  assumes "- 2147483648 \<le> t" and "t < 2147483646"
  shows "signed_drop_bit 2 (word_of_int t + 1 + (if P then 1 else 0) :: i32)
    = word_of_int ((t + 1 + (if P then 1 else 0)) div 4)"
  using signed_drop_bit_word_of_int[of "t + 1" 2] signed_drop_bit_word_of_int[of "t + 2" 2] assms
  by (cases P) (simp_all add: add.commute)

lemma flat32_exact:
  assumes "- 255 \<le> D" and "D \<le> 255"
  shows "ROUND_POWER_OF_TWO (sx (dc_value (dc_value (flat32 (word_of_int D))))) 6 = word_of_int D"
proof -
  define a where "a = (D * 4 * 32 * 11585 + 8192) div 16384"
  define c where "c = (a + 1 + (if 0 < a then 1 else 0)) div 4"
  define e where "e = (c * 32 * 11585 + 8192) div 16384"
  define b where "b = (e + 1 + (if e < 0 then 1 else 0)) div 4"
  define p where "p = (b * 11585 + 8192) div 16384"
  define q where "q = (p * 11585 + 8192) div 16384"
  have a: "16384 * a \<le> D * 1482880 + 8192" "D * 1482880 + 8192 < 16384 * a + 16384"
    unfolding a_def by linarith+
  have c: "4 * c \<le> a + 2" "a + 1 < 4 * c + 4" unfolding c_def by (simp_all split: if_split; linarith)+
  have e: "16384 * e \<le> c * 370720 + 8192" "c * 370720 + 8192 < 16384 * e + 16384"
    unfolding e_def by linarith+
  have b: "4 * b \<le> e + 2" "e + 1 < 4 * b + 4" unfolding b_def by (simp_all split: if_split; linarith)+
  have p: "16384 * p \<le> b * 11585 + 8192" "b * 11585 + 8192 < 16384 * p + 16384"
    unfolding p_def by linarith+
  have q: "16384 * q \<le> p * 11585 + 8192" "p * 11585 + 8192 < 16384 * q + 16384"
    unfolding q_def by linarith+
  have "64 * D \<le> q + 32" "q + 32 < 64 * D + 64" using a b c e p q assms by linarith+
  then have r: "(q + 32) div 64 = D" by linarith
  have 1: "sx (word_of_int D) = word_of_int D" using assms by (simp add: sx_word_of_int)
  have 2: "flat_dc 32 (word_of_int D * 4) = word_of_int a"
    using flat_dc_word_of_int[of "D * 4" 32] assms by (simp add: a_def)
  have ab: "- 2147483648 \<le> a" "a < 2147483646" and eb: "- 2147483648 \<le> e" "e < 2147483646"
    using a c e assms by linarith+
  have 3: "signed_drop_bit 2 (word_of_int a + 1 + (if 0 <s (word_of_int a :: i32) then 1 else 0) :: i32) = word_of_int c"
    using round_quarter_word_of_int[OF ab, of "0 < a"] sless_word_of_int(2)[OF ab(1)] ab(2) by (simp add: c_def)
  have 4: "flat_dc 32 (word_of_int c) = word_of_int e"
    using flat_dc_word_of_int[of c 32] a c assms by (simp add: e_def)
  have 5: "signed_drop_bit 2 (word_of_int e + 1 + (if (word_of_int e :: i32) <s 0 then 1 else 0) :: i32) = word_of_int b"
    using round_quarter_word_of_int[OF eb, of "e < 0"] sless_word_of_int(1)[OF eb(1)] eb(2) by (simp add: b_def)
  have 6: "dc_value (word_of_int b) = word_of_int p"
    unfolding p_def using a b c e assms by (intro dc_value_word_of_int) linarith+
  have 7: "dc_value (word_of_int p) = word_of_int q"
    unfolding q_def using a b c e p assms by (intro dc_value_word_of_int) linarith+
  have 8: "sx (word_of_int q) = word_of_int q" using a b c e p q assms by (intro sx_word_of_int) linarith+
  have 9: "ROUND_POWER_OF_TWO (word_of_int q) 6 = word_of_int D"
    using ROUND_word_of_int[of q 6] r a b c e p q assms by simp
  show ?thesis by (simp add: flat32_def Let_def 1 2 3 4 5 6 7 8 9 tr_word_of_int)
qed
section \<open>Round trips\<close>

text \<open>Adding the residual \<open>d\<close> to every pixel of a block.\<close>

definition add_flat :: "nat \<Rightarrow> i16 \<Rightarrow> rtalloc \<Rightarrow> u32 \<Rightarrow> u32 \<Rightarrow> rtalloc option" where
  "add_flat n d dest xoff yoff =
     for_upto 0 n (\<lambda>i. for_upto 0 n (\<lambda>j dest.
       do { v \<leftarrow> rsGetElementAt_uchar dest (of_nat j + xoff) (of_nat i + yoff);
            rsSetElementAt_uchar dest (clip_pixel (ucast v + sx d)) (of_nat j + xoff) (of_nat i + yoff) })) dest"

lemma add_flat_idct_dc:
  assumes "read_block n coeffs xoff yoff = Some (c # replicate (n * n - 1) 0)" and "0 < n"
    and "ROUND_POWER_OF_TWO (sx (dc_value (dc_value c))) sh = sx d"
  shows "idct_dc n sh coeffs dest xoff yoff = add_flat n d dest xoff yoff"
proof -
  have "rsGetElementAt_short coeffs xoff yoff = Some c"
    using read_block_nth[OF assms(1) assms(2) assms(2)] by simp
  then show ?thesis by (simp add: idct_dc_def add_flat_def dc_value_eq assms(3))
qed

lemma write_block_read:
  assumes "write_block n b a xoff yoff = Some a'" and "block_fits n 2 a xoff yoff" and "length b = n * n"
  shows "read_block n a' xoff yoff = Some b"
  using read_block_written[OF assms(1)[unfolded write_block_def] assms(2,3)] .

text \<open>The forward transforms of a flat block leave one coefficient.\<close>

lemma rsDct8x8_flat:
  assumes "read_block 8 input xoff yoff = Some (replicate 64 d)"
    and "rsDct8x8 input output xoff yoff = Some output'" and "block_fits 8 2 output xoff yoff"
  shows "read_block 8 output' xoff yoff = Some (flat8 d # replicate 63 0)"
proof -
  let ?c = "tr (flat_dc 32 (sx d))"
  have 1: "blk_of_cols 8 (\<lambda>i. dct8_column (blk_col 8 i (replicate 64 d))) = replicate 8 ?c @ replicate ((8 - 1) * 8) 0"
    using blk_col_flat[of _ 8 d] dct8_column_flat[of d] by (intro blk_of_flat_cols) simp_all
  have 2: "concat (map (\<lambda>i. fdct8 (blk_row 8 i (replicate 8 ?c @ replicate ((8 - 1) * 8) 0))) [0..<8])
      = tr (flat_dc 8 (sx ?c)) # replicate (8 * 8 - 1) 0"
    using blk_row_flat_first[of _ 8 ?c "0 :: i16"] fdct8_flat[of ?c] fdct8_flat[of 0]
    by (intro concat_dc_rows) (simp_all add: flat_dc_def)
  from assms(1,2) have "write_block 8 (flat8 d # replicate 63 0) output xoff yoff = Some output'"
    by (auto simp: rsDct8x8_def Let_def 1[simplified] 2[simplified] flat8_def bind_Some_iff)
  then show ?thesis by (rule write_block_read) (simp_all add: assms(3))
qed

lemma rsDct16x16_flat:
  assumes "read_block 16 input xoff yoff = Some (replicate 256 d)"
    and "rsDct16x16 input output xoff yoff = Some output'" and "block_fits 16 2 output xoff yoff"
  shows "read_block 16 output' xoff yoff = Some (flat16 d # replicate 255 0)"
proof -
  let ?c = "tr (flat_dc 64 (sx d))" and ?b = "replicate 256 d"
  have 1: "dct16_transform 0 (blk_col 16 i ?b) = ?c # replicate (16 - 1) 0" if "i < 16" for i
    using blk_col_flat[OF that, of d] dct16_flat0[of d] by simp
  have 2: "blk_col 16 i (dct16_pass 0 ?b) = replicate 16 (if i = 0 then ?c else 0)" if "i < 16" for i
    unfolding dct16_pass_def by (rule blk_col_flat_rows[OF that 1])
  have 3: "dct16_pass 1 (dct16_pass 0 ?b) = flat16 d # replicate (16 * 16 - 1) 0"
    unfolding dct16_pass_def[of 1] using dct16_flat1[of ?c] dct16_flat1[of 0]
    by (intro concat_dc_rows) (simp_all add: 2 flat16_def flat_dc_def)
  from assms(1,2) have "write_block 16 (flat16 d # replicate 255 0) output xoff yoff = Some output'"
    by (auto simp: rsDct16x16_def 3[simplified] bind_Some_iff)
  then show ?thesis by (rule write_block_read) (simp_all add: assms(3))
qed

lemma rsDct32x32_flat:
  assumes "read_block 32 input xoff yoff = Some (replicate 1024 d)"
    and "rsDct32x32 input output xoff yoff = Some output'" and "block_fits 32 2 output xoff yoff"
  shows "read_block 32 output' xoff yoff = Some (flat32 d # replicate 1023 0)"
proof -
  let ?r = "\<lambda>t :: i32. signed_drop_bit 2 (t + 1 + (if 0 <s t then 1 else 0))"
  let ?s = "\<lambda>t :: i32. tr (signed_drop_bit 2 (t + 1 + (if t <s 0 then 1 else 0)))"
  let ?c = "?r (flat_dc 32 (sx d * 4))"
  have 1: "dct32_columns (replicate 1024 d) = replicate 32 ?c @ replicate ((32 - 1) * 32) 0"
    unfolding dct32_columns_def Let_def using blk_col_flat[of _ 32 d] dct32_1d_flat[of "sx d * 4"]
    by (intro blk_of_flat_cols) simp_all
  have 2: "concat (map (\<lambda>i. map ?s (dct32_1d (blk_row 32 i (replicate 32 ?c @ replicate ((32 - 1) * 32) 0)) 0)) [0..<32])
      = ?s (flat_dc 32 ?c) # replicate (32 * 32 - 1) 0"
    using blk_row_flat_first[of _ 32 ?c "0 :: i32"] dct32_1d_flat[of ?c] dct32_1d_flat[of 0]
    by (intro concat_dc_rows) (simp_all add: flat_dc_def del: One_nat_def)
  from assms(1,2) have "write_block 32 (flat32 d # replicate 1023 0) output xoff yoff = Some output'"
    by (auto simp: rsDct32x32_def Let_def 1[simplified] 2[simplified] flat32_def bind_Some_iff)
  then show ?thesis by (rule write_block_read) (simp_all add: assms(3))
qed

lemma write_block_some:
  assumes "read_block n a xoff yoff = Some b" and "block_fits n 2 a xoff yoff"
  shows "\<exists>a'. write_block n b' a xoff yoff = Some a'"
  unfolding write_block_def
  using read_block_nth[OF assms(1)] by (intro short_store.block_writable[OF _ assms(2)]) blast

lemma residual_fits: "- 255 \<le> sint d \<Longrightarrow> sint d \<le> 255 \<Longrightarrow> sx d = word_of_int (sint d)"
  using sx_word_of_int[of "sint d"] by simp

text \<open>A flat residual survives the \<open>8x8\<close> transforms: \<open>rsDct8x8\<close> returns, and \<open>rsIdct8x8\<close> on its output
  adds exactly the residual \<open>d\<close> to every pixel, for any \<open>d\<close> between -255 and 255.\<close>

theorem rsDct8x8_roundtrip:
  assumes inp: "read_block 8 input xoff yoff = Some (replicate 64 d)" and d: "- 255 \<le> sint d" "sint d \<le> 255"
    and outp: "read_block 8 output xoff yoff = Some ob" and fits: "block_fits 8 2 output xoff yoff"
  shows "\<exists>output'. rsDct8x8 input output xoff yoff = Some output'
    \<and> (\<forall>dest. rsIdct8x8 output' dest 1 xoff yoff = add_flat 8 d dest xoff yoff)"
proof -
  obtain output' where o: "rsDct8x8 input output xoff yoff = Some output'"
    using write_block_some[OF outp fits] by (auto simp: rsDct8x8_def inp outp Let_def)
  have r: "read_block 8 output' xoff yoff = Some (flat8 d # replicate (8 * 8 - 1) 0)"
    using rsDct8x8_flat[OF inp o fits] by simp
  have "ROUND_POWER_OF_TWO (sx (dc_value (dc_value (flat8 d)))) 5 = sx d"
    using flat8_exact[OF d] residual_fits[OF d] by simp
  then show ?thesis using o add_flat_idct_dc[OF r] by (auto simp: rsIdct8x8_def idct8x8_1_def)
qed

theorem rsDct8x8_roundtrip_witness:
  "\<exists>output'. rsDct8x8 (sample_block 8 (replicate 64 (- 200))) (sample_dc 8) 0 0 = Some output'
    \<and> (\<forall>dest. rsIdct8x8 output' dest 1 0 0 = add_flat 8 (- 200) dest 0 0)"
  using rsDct8x8_roundtrip[OF sample_block_read[of 8 "replicate 64 (- 200)"] _ _ sample_dc_block[of 8]]
    sample_block_fits(1)[of 8] by (simp add: sample_dc_def)

text \<open>A flat residual survives the \<open>16x16\<close> transforms.\<close>

theorem rsDct16x16_roundtrip:
  assumes inp: "read_block 16 input xoff yoff = Some (replicate 256 d)" and d: "- 255 \<le> sint d" "sint d \<le> 255"
    and outp: "read_block 16 output xoff yoff = Some ob" and fits: "block_fits 16 2 output xoff yoff"
  shows "\<exists>output'. rsDct16x16 input output xoff yoff = Some output'
    \<and> (\<forall>dest. rsIdct16x16 output' dest 1 xoff yoff = add_flat 16 d dest xoff yoff)"
proof -
  obtain output' where o: "rsDct16x16 input output xoff yoff = Some output'"
    using write_block_some[OF outp fits] by (auto simp: rsDct16x16_def inp outp)
  have r: "read_block 16 output' xoff yoff = Some (flat16 d # replicate (16 * 16 - 1) 0)"
    using rsDct16x16_flat[OF inp o fits] by simp
  have "ROUND_POWER_OF_TWO (sx (dc_value (dc_value (flat16 d)))) 6 = sx d"
    using flat16_exact[OF d] residual_fits[OF d] by simp
  then show ?thesis using o add_flat_idct_dc[OF r] by (auto simp: rsIdct16x16_def idct16x16_1_def)
qed

theorem rsDct16x16_roundtrip_witness:
  "\<exists>output'. rsDct16x16 (sample_block 16 (replicate 256 255)) (sample_dc 16) 0 0 = Some output'
    \<and> (\<forall>dest. rsIdct16x16 output' dest 1 0 0 = add_flat 16 255 dest 0 0)"
  using rsDct16x16_roundtrip[OF sample_block_read[of 16 "replicate 256 255"] _ _ sample_dc_block[of 16]]
    sample_block_fits(1)[of 16] by (simp add: sample_dc_def)

text \<open>C14: A flat residual survives the \<open>32x32\<close> transforms.\<close>

theorem rsDct32x32_roundtrip:
  assumes inp: "read_block 32 input xoff yoff = Some (replicate 1024 d)" and d: "- 255 \<le> sint d" "sint d \<le> 255"
    and outp: "read_block 32 out xoff yoff = Some ob" and fits: "block_fits 32 2 out xoff yoff"
  shows "\<exists>out'. rsDct32x32 input out xoff yoff = Some out'
    \<and> (\<forall>dest. rsIdct32x32 out' dest 1 xoff yoff = add_flat 32 d dest xoff yoff)"
proof -
  obtain out' where o: "rsDct32x32 input out xoff yoff = Some out'"
    using write_block_some[OF outp fits] by (auto simp: rsDct32x32_def inp outp Let_def)
  have r: "read_block 32 out' xoff yoff = Some (flat32 d # replicate (32 * 32 - 1) 0)"
    using rsDct32x32_flat[OF inp o fits] by simp
  have "ROUND_POWER_OF_TWO (sx (dc_value (dc_value (flat32 d)))) 6 = sx d"
    using flat32_exact[OF d] residual_fits[OF d] by simp
  then show ?thesis using o add_flat_idct_dc[OF r] by (auto simp: rsIdct32x32_def idct32x32_1_def)
qed

theorem rsDct32x32_roundtrip_witness:
  "\<exists>out'. rsDct32x32 (sample_block 32 (replicate 1024 (- 255))) (sample_dc 32) 0 0 = Some out'
    \<and> (\<forall>dest. rsIdct32x32 out' dest 1 0 0 = add_flat 32 (- 255) dest 0 0)"
  using rsDct32x32_roundtrip[OF sample_block_read[of 32 "replicate 1024 (- 255)"] _ _ sample_dc_block[of 32]]
    sample_block_fits(1)[of 32] by (simp add: sample_dc_def)

end
