(* ===== verification/Rs_Adst.thy ===== *)
theory Rs_Adst
  imports Rs_Dct
begin

unbundle bit_operations_syntax

text \<open>
  The asymmetric discrete sine transforms of \<open>driver/runtime/rs_iadst.c\<close> and \<open>rs_fadst.c\<close>. They
  work on a line of a one-dimensional allocation: the elements are loaded in the order of the code,
  the variables \<open>x0\<close>, \<open>x1\<close>, ... are a list that each stage maps to a list, and the result is written
  to the same positions of \<open>output\<close>.

  The inverse transforms skip an all-zero line, which changes nothing. The forward and the inverse
  transform of the same size differ only in how they round: the inverse one keeps sixteen bits of
  every rounded value. They agree on every line whose elements are small enough.
\<close>

section \<open>Constants\<close>

definition sinpi_1_9 :: i32 where
  "sinpi_1_9 = 5283"

definition sinpi_2_9 :: i32 where
  "sinpi_2_9 = 9929"

definition sinpi_3_9 :: i32 where
  "sinpi_3_9 = 13377"

definition sinpi_4_9 :: i32 where
  "sinpi_4_9 = 15212"

section \<open>Inverse transforms\<close>

definition iadst4_load :: "i16 list \<Rightarrow> i32 list" where
  "iadst4_load b =
     [sx (b ! 0), sx (b ! 1), sx (b ! 2), sx (b ! 3)]"

definition iadst4_1d :: "i16 list \<Rightarrow> i16 list" where
  "iadst4_1d b =
     (let x = iadst4_load b;
          x0 = x ! 0;
          x1 = x ! 1;
          x2 = x ! 2;
          x3 = x ! 3;
          s0 = sinpi_1_9 * x0;
          s1 = sinpi_2_9 * x0;
          s2 = sinpi_3_9 * x1;
          s3 = sinpi_4_9 * x2;
          s4 = sinpi_1_9 * x2;
          s5 = sinpi_2_9 * x3;
          s6 = sinpi_4_9 * x3;
          s7 = x0 - x2 + x3;
          x0 = s0 + s3 + s5;
          x1 = s1 - s4 - s6;
          x2 = sinpi_3_9 * s7;
          x3 = s2;
          s0 = x0 + x3;
          s1 = x1 + x3;
          s2 = x2;
          s3 = x0 + x1 - x3
      in [tr (dct_const_round_shift s0), tr (dct_const_round_shift s1),
           tr (dct_const_round_shift s2), tr (dct_const_round_shift s3)])"

definition iadst8_load :: "i16 list \<Rightarrow> i32 list" where
  "iadst8_load b =
     [sx (b ! 7), sx (b ! 0), sx (b ! 5), sx (b ! 2), sx (b ! 3), sx (b ! 4), sx (b ! 1), sx (b ! 6)]"

definition iadst8_stage1 :: "i32 list \<Rightarrow> i32 list" where
  "iadst8_stage1 x =
     (let x0 = x ! 0;
          x1 = x ! 1;
          x2 = x ! 2;
          x3 = x ! 3;
          x4 = x ! 4;
          x5 = x ! 5;
          x6 = x ! 6;
          x7 = x ! 7;
          s0 = cospi_2_64 * x0 + cospi_30_64 * x1;
          s1 = cospi_30_64 * x0 - cospi_2_64 * x1;
          s2 = cospi_10_64 * x2 + cospi_22_64 * x3;
          s3 = cospi_22_64 * x2 - cospi_10_64 * x3;
          s4 = cospi_18_64 * x4 + cospi_14_64 * x5;
          s5 = cospi_14_64 * x4 - cospi_18_64 * x5;
          s6 = cospi_26_64 * x6 + cospi_6_64 * x7;
          s7 = cospi_6_64 * x6 - cospi_26_64 * x7;
          x0 = dct_const_round_shift (s0 + s4);
          x1 = dct_const_round_shift (s1 + s5);
          x2 = dct_const_round_shift (s2 + s6);
          x3 = dct_const_round_shift (s3 + s7);
          x4 = dct_const_round_shift (s0 - s4);
          x5 = dct_const_round_shift (s1 - s5);
          x6 = dct_const_round_shift (s2 - s6);
          x7 = dct_const_round_shift (s3 - s7)
      in [x0, x1, x2, x3, x4, x5, x6, x7])"

definition iadst8_stage2 :: "i32 list \<Rightarrow> i32 list" where
  "iadst8_stage2 x =
     (let x0 = x ! 0;
          x1 = x ! 1;
          x2 = x ! 2;
          x3 = x ! 3;
          x4 = x ! 4;
          x5 = x ! 5;
          x6 = x ! 6;
          x7 = x ! 7;
          s0 = x0;
          s1 = x1;
          s2 = x2;
          s3 = x3;
          s4 = cospi_8_64 * x4 + cospi_24_64 * x5;
          s5 = cospi_24_64 * x4 - cospi_8_64 * x5;
          s6 = (- cospi_24_64) * x6 + cospi_8_64 * x7;
          s7 = cospi_8_64 * x6 + cospi_24_64 * x7;
          x0 = s0 + s2;
          x1 = s1 + s3;
          x2 = s0 - s2;
          x3 = s1 - s3;
          x4 = dct_const_round_shift (s4 + s6);
          x5 = dct_const_round_shift (s5 + s7);
          x6 = dct_const_round_shift (s4 - s6);
          x7 = dct_const_round_shift (s5 - s7)
      in [x0, x1, x2, x3, x4, x5, x6, x7])"

definition iadst8_stage3 :: "i32 list \<Rightarrow> i32 list" where
  "iadst8_stage3 x =
     (let x0 = x ! 0;
          x1 = x ! 1;
          x2 = x ! 2;
          x3 = x ! 3;
          x4 = x ! 4;
          x5 = x ! 5;
          x6 = x ! 6;
          x7 = x ! 7;
          s2 = cospi_16_64 * (x2 + x3);
          s3 = cospi_16_64 * (x2 - x3);
          s6 = cospi_16_64 * (x6 + x7);
          s7 = cospi_16_64 * (x6 - x7);
          x2 = dct_const_round_shift s2;
          x3 = dct_const_round_shift s3;
          x6 = dct_const_round_shift s6;
          x7 = dct_const_round_shift s7
      in [x0, x1, x2, x3, x4, x5, x6, x7])"

definition iadst8_out :: "i32 list \<Rightarrow> i16 list" where
  "iadst8_out x =
     [tr (x ! 0), tr (- (x ! 4)), tr (x ! 6), tr (- (x ! 2)), tr (x ! 3), tr (- (x ! 7)),
      tr (x ! 5), tr (- (x ! 1))]"

definition iadst8_1d :: "i16 list \<Rightarrow> i16 list" where
  "iadst8_1d b = iadst8_out (iadst8_stage3 (iadst8_stage2 (iadst8_stage1 (iadst8_load b))))"

definition iadst16_load :: "i16 list \<Rightarrow> i32 list" where
  "iadst16_load b =
     [sx (b ! 15), sx (b ! 0), sx (b ! 13), sx (b ! 2), sx (b ! 11), sx (b ! 4), sx (b ! 9),
      sx (b ! 6), sx (b ! 7), sx (b ! 8), sx (b ! 5), sx (b ! 10), sx (b ! 3), sx (b ! 12),
      sx (b ! 1), sx (b ! 14)]"

definition iadst16_stage1 :: "i32 list \<Rightarrow> i32 list" where
  "iadst16_stage1 x =
     (let x0 = x ! 0;
          x1 = x ! 1;
          x2 = x ! 2;
          x3 = x ! 3;
          x4 = x ! 4;
          x5 = x ! 5;
          x6 = x ! 6;
          x7 = x ! 7;
          x8 = x ! 8;
          x9 = x ! 9;
          x10 = x ! 10;
          x11 = x ! 11;
          x12 = x ! 12;
          x13 = x ! 13;
          x14 = x ! 14;
          x15 = x ! 15;
          s0 = x0 * cospi_1_64 + x1 * cospi_31_64;
          s1 = x0 * cospi_31_64 - x1 * cospi_1_64;
          s2 = x2 * cospi_5_64 + x3 * cospi_27_64;
          s3 = x2 * cospi_27_64 - x3 * cospi_5_64;
          s4 = x4 * cospi_9_64 + x5 * cospi_23_64;
          s5 = x4 * cospi_23_64 - x5 * cospi_9_64;
          s6 = x6 * cospi_13_64 + x7 * cospi_19_64;
          s7 = x6 * cospi_19_64 - x7 * cospi_13_64;
          s8 = x8 * cospi_17_64 + x9 * cospi_15_64;
          s9 = x8 * cospi_15_64 - x9 * cospi_17_64;
          s10 = x10 * cospi_21_64 + x11 * cospi_11_64;
          s11 = x10 * cospi_11_64 - x11 * cospi_21_64;
          s12 = x12 * cospi_25_64 + x13 * cospi_7_64;
          s13 = x12 * cospi_7_64 - x13 * cospi_25_64;
          s14 = x14 * cospi_29_64 + x15 * cospi_3_64;
          s15 = x14 * cospi_3_64 - x15 * cospi_29_64;
          x0 = dct_const_round_shift (s0 + s8);
          x1 = dct_const_round_shift (s1 + s9);
          x2 = dct_const_round_shift (s2 + s10);
          x3 = dct_const_round_shift (s3 + s11);
          x4 = dct_const_round_shift (s4 + s12);
          x5 = dct_const_round_shift (s5 + s13);
          x6 = dct_const_round_shift (s6 + s14);
          x7 = dct_const_round_shift (s7 + s15);
          x8 = dct_const_round_shift (s0 - s8);
          x9 = dct_const_round_shift (s1 - s9);
          x10 = dct_const_round_shift (s2 - s10);
          x11 = dct_const_round_shift (s3 - s11);
          x12 = dct_const_round_shift (s4 - s12);
          x13 = dct_const_round_shift (s5 - s13);
          x14 = dct_const_round_shift (s6 - s14);
          x15 = dct_const_round_shift (s7 - s15)
      in [x0, x1, x2, x3, x4, x5, x6, x7, x8, x9, x10, x11, x12, x13, x14, x15])"

definition iadst16_stage2 :: "i32 list \<Rightarrow> i32 list" where
  "iadst16_stage2 x =
     (let x0 = x ! 0;
          x1 = x ! 1;
          x2 = x ! 2;
          x3 = x ! 3;
          x4 = x ! 4;
          x5 = x ! 5;
          x6 = x ! 6;
          x7 = x ! 7;
          x8 = x ! 8;
          x9 = x ! 9;
          x10 = x ! 10;
          x11 = x ! 11;
          x12 = x ! 12;
          x13 = x ! 13;
          x14 = x ! 14;
          x15 = x ! 15;
          s0 = x0;
          s1 = x1;
          s2 = x2;
          s3 = x3;
          s4 = x4;
          s5 = x5;
          s6 = x6;
          s7 = x7;
          s8 = x8 * cospi_4_64 + x9 * cospi_28_64;
          s9 = x8 * cospi_28_64 - x9 * cospi_4_64;
          s10 = x10 * cospi_20_64 + x11 * cospi_12_64;
          s11 = x10 * cospi_12_64 - x11 * cospi_20_64;
          s12 = (- x12) * cospi_28_64 + x13 * cospi_4_64;
          s13 = x12 * cospi_4_64 + x13 * cospi_28_64;
          s14 = (- x14) * cospi_12_64 + x15 * cospi_20_64;
          s15 = x14 * cospi_20_64 + x15 * cospi_12_64;
          x0 = s0 + s4;
          x1 = s1 + s5;
          x2 = s2 + s6;
          x3 = s3 + s7;
          x4 = s0 - s4;
          x5 = s1 - s5;
          x6 = s2 - s6;
          x7 = s3 - s7;
          x8 = dct_const_round_shift (s8 + s12);
          x9 = dct_const_round_shift (s9 + s13);
          x10 = dct_const_round_shift (s10 + s14);
          x11 = dct_const_round_shift (s11 + s15);
          x12 = dct_const_round_shift (s8 - s12);
          x13 = dct_const_round_shift (s9 - s13);
          x14 = dct_const_round_shift (s10 - s14);
          x15 = dct_const_round_shift (s11 - s15)
      in [x0, x1, x2, x3, x4, x5, x6, x7, x8, x9, x10, x11, x12, x13, x14, x15])"

definition iadst16_stage3 :: "i32 list \<Rightarrow> i32 list" where
  "iadst16_stage3 x =
     (let x0 = x ! 0;
          x1 = x ! 1;
          x2 = x ! 2;
          x3 = x ! 3;
          x4 = x ! 4;
          x5 = x ! 5;
          x6 = x ! 6;
          x7 = x ! 7;
          x8 = x ! 8;
          x9 = x ! 9;
          x10 = x ! 10;
          x11 = x ! 11;
          x12 = x ! 12;
          x13 = x ! 13;
          x14 = x ! 14;
          x15 = x ! 15;
          s0 = x0;
          s1 = x1;
          s2 = x2;
          s3 = x3;
          s4 = x4 * cospi_8_64 + x5 * cospi_24_64;
          s5 = x4 * cospi_24_64 - x5 * cospi_8_64;
          s6 = (- x6) * cospi_24_64 + x7 * cospi_8_64;
          s7 = x6 * cospi_8_64 + x7 * cospi_24_64;
          s8 = x8;
          s9 = x9;
          s10 = x10;
          s11 = x11;
          s12 = x12 * cospi_8_64 + x13 * cospi_24_64;
          s13 = x12 * cospi_24_64 - x13 * cospi_8_64;
          s14 = (- x14) * cospi_24_64 + x15 * cospi_8_64;
          s15 = x14 * cospi_8_64 + x15 * cospi_24_64;
          x0 = s0 + s2;
          x1 = s1 + s3;
          x2 = s0 - s2;
          x3 = s1 - s3;
          x4 = dct_const_round_shift (s4 + s6);
          x5 = dct_const_round_shift (s5 + s7);
          x6 = dct_const_round_shift (s4 - s6);
          x7 = dct_const_round_shift (s5 - s7);
          x8 = s8 + s10;
          x9 = s9 + s11;
          x10 = s8 - s10;
          x11 = s9 - s11;
          x12 = dct_const_round_shift (s12 + s14);
          x13 = dct_const_round_shift (s13 + s15);
          x14 = dct_const_round_shift (s12 - s14);
          x15 = dct_const_round_shift (s13 - s15)
      in [x0, x1, x2, x3, x4, x5, x6, x7, x8, x9, x10, x11, x12, x13, x14, x15])"

definition iadst16_stage4 :: "i32 list \<Rightarrow> i32 list" where
  "iadst16_stage4 x =
     (let x0 = x ! 0;
          x1 = x ! 1;
          x2 = x ! 2;
          x3 = x ! 3;
          x4 = x ! 4;
          x5 = x ! 5;
          x6 = x ! 6;
          x7 = x ! 7;
          x8 = x ! 8;
          x9 = x ! 9;
          x10 = x ! 10;
          x11 = x ! 11;
          x12 = x ! 12;
          x13 = x ! 13;
          x14 = x ! 14;
          x15 = x ! 15;
          s2 = (- cospi_16_64) * (x2 + x3);
          s3 = cospi_16_64 * (x2 - x3);
          s6 = cospi_16_64 * (x6 + x7);
          s7 = cospi_16_64 * (- x6 + x7);
          s10 = cospi_16_64 * (x10 + x11);
          s11 = cospi_16_64 * (- x10 + x11);
          s14 = (- cospi_16_64) * (x14 + x15);
          s15 = cospi_16_64 * (x14 - x15);
          x2 = dct_const_round_shift s2;
          x3 = dct_const_round_shift s3;
          x6 = dct_const_round_shift s6;
          x7 = dct_const_round_shift s7;
          x10 = dct_const_round_shift s10;
          x11 = dct_const_round_shift s11;
          x14 = dct_const_round_shift s14;
          x15 = dct_const_round_shift s15
      in [x0, x1, x2, x3, x4, x5, x6, x7, x8, x9, x10, x11, x12, x13, x14, x15])"

definition iadst16_out :: "i32 list \<Rightarrow> i16 list" where
  "iadst16_out x =
     [tr (x ! 0), tr (- (x ! 8)), tr (x ! 12), tr (- (x ! 4)), tr (x ! 6), tr (x ! 14), tr (x ! 10),
      tr (x ! 2), tr (x ! 3), tr (x ! 11), tr (x ! 15), tr (x ! 7), tr (x ! 5), tr (- (x ! 13)),
      tr (x ! 9), tr (- (x ! 1))]"

definition iadst16_1d :: "i16 list \<Rightarrow> i16 list" where
  "iadst16_1d b = iadst16_out (iadst16_stage4 (iadst16_stage3 (iadst16_stage2 (iadst16_stage1 (iadst16_load b)))))"

section \<open>Forward transforms\<close>

definition fadst4_load :: "i16 list \<Rightarrow> i32 list" where
  "fadst4_load b =
     [sx (b ! 0), sx (b ! 1), sx (b ! 2), sx (b ! 3)]"

definition fadst4_1d :: "i16 list \<Rightarrow> i16 list" where
  "fadst4_1d b =
     (let x = fadst4_load b;
          x0 = x ! 0;
          x1 = x ! 1;
          x2 = x ! 2;
          x3 = x ! 3;
          s0 = sinpi_1_9 * x0;
          s1 = sinpi_4_9 * x0;
          s2 = sinpi_2_9 * x1;
          s3 = sinpi_1_9 * x1;
          s4 = sinpi_3_9 * x2;
          s5 = sinpi_4_9 * x3;
          s6 = sinpi_2_9 * x3;
          s7 = x0 + x1 - x3;
          x0 = s0 + s2 + s5;
          x1 = sinpi_3_9 * s7;
          x2 = s1 - s3 + s6;
          x3 = s4;
          s0 = x0 + x3;
          s1 = x1;
          s2 = x2 - x3;
          s3 = x2 - x0 + x3
      in [tr (fdct_round_shift s0), tr (fdct_round_shift s1), tr (fdct_round_shift s2),
           tr (fdct_round_shift s3)])"

definition fadst8_load :: "i16 list \<Rightarrow> i32 list" where
  "fadst8_load b =
     [sx (b ! 7), sx (b ! 0), sx (b ! 5), sx (b ! 2), sx (b ! 3), sx (b ! 4), sx (b ! 1), sx (b ! 6)]"

definition fadst8_stage1 :: "i32 list \<Rightarrow> i32 list" where
  "fadst8_stage1 x =
     (let x0 = x ! 0;
          x1 = x ! 1;
          x2 = x ! 2;
          x3 = x ! 3;
          x4 = x ! 4;
          x5 = x ! 5;
          x6 = x ! 6;
          x7 = x ! 7;
          s0 = cospi_2_64 * x0 + cospi_30_64 * x1;
          s1 = cospi_30_64 * x0 - cospi_2_64 * x1;
          s2 = cospi_10_64 * x2 + cospi_22_64 * x3;
          s3 = cospi_22_64 * x2 - cospi_10_64 * x3;
          s4 = cospi_18_64 * x4 + cospi_14_64 * x5;
          s5 = cospi_14_64 * x4 - cospi_18_64 * x5;
          s6 = cospi_26_64 * x6 + cospi_6_64 * x7;
          s7 = cospi_6_64 * x6 - cospi_26_64 * x7;
          x0 = fdct_round_shift (s0 + s4);
          x1 = fdct_round_shift (s1 + s5);
          x2 = fdct_round_shift (s2 + s6);
          x3 = fdct_round_shift (s3 + s7);
          x4 = fdct_round_shift (s0 - s4);
          x5 = fdct_round_shift (s1 - s5);
          x6 = fdct_round_shift (s2 - s6);
          x7 = fdct_round_shift (s3 - s7)
      in [x0, x1, x2, x3, x4, x5, x6, x7])"

definition fadst8_stage2 :: "i32 list \<Rightarrow> i32 list" where
  "fadst8_stage2 x =
     (let x0 = x ! 0;
          x1 = x ! 1;
          x2 = x ! 2;
          x3 = x ! 3;
          x4 = x ! 4;
          x5 = x ! 5;
          x6 = x ! 6;
          x7 = x ! 7;
          s0 = x0;
          s1 = x1;
          s2 = x2;
          s3 = x3;
          s4 = cospi_8_64 * x4 + cospi_24_64 * x5;
          s5 = cospi_24_64 * x4 - cospi_8_64 * x5;
          s6 = (- cospi_24_64) * x6 + cospi_8_64 * x7;
          s7 = cospi_8_64 * x6 + cospi_24_64 * x7;
          x0 = s0 + s2;
          x1 = s1 + s3;
          x2 = s0 - s2;
          x3 = s1 - s3;
          x4 = fdct_round_shift (s4 + s6);
          x5 = fdct_round_shift (s5 + s7);
          x6 = fdct_round_shift (s4 - s6);
          x7 = fdct_round_shift (s5 - s7)
      in [x0, x1, x2, x3, x4, x5, x6, x7])"

definition fadst8_stage3 :: "i32 list \<Rightarrow> i32 list" where
  "fadst8_stage3 x =
     (let x0 = x ! 0;
          x1 = x ! 1;
          x2 = x ! 2;
          x3 = x ! 3;
          x4 = x ! 4;
          x5 = x ! 5;
          x6 = x ! 6;
          x7 = x ! 7;
          s2 = cospi_16_64 * (x2 + x3);
          s3 = cospi_16_64 * (x2 - x3);
          s6 = cospi_16_64 * (x6 + x7);
          s7 = cospi_16_64 * (x6 - x7);
          x2 = fdct_round_shift s2;
          x3 = fdct_round_shift s3;
          x6 = fdct_round_shift s6;
          x7 = fdct_round_shift s7
      in [x0, x1, x2, x3, x4, x5, x6, x7])"

definition fadst8_out :: "i32 list \<Rightarrow> i16 list" where
  "fadst8_out x =
     [tr (x ! 0), tr (- (x ! 4)), tr (x ! 6), tr (- (x ! 2)), tr (x ! 3), tr (- (x ! 7)),
      tr (x ! 5), tr (- (x ! 1))]"

definition fadst8_1d :: "i16 list \<Rightarrow> i16 list" where
  "fadst8_1d b = fadst8_out (fadst8_stage3 (fadst8_stage2 (fadst8_stage1 (fadst8_load b))))"

definition fadst16_load :: "i16 list \<Rightarrow> i32 list" where
  "fadst16_load b =
     [sx (b ! 15), sx (b ! 0), sx (b ! 13), sx (b ! 2), sx (b ! 11), sx (b ! 4), sx (b ! 9),
      sx (b ! 6), sx (b ! 7), sx (b ! 8), sx (b ! 5), sx (b ! 10), sx (b ! 3), sx (b ! 12),
      sx (b ! 1), sx (b ! 14)]"

definition fadst16_stage1 :: "i32 list \<Rightarrow> i32 list" where
  "fadst16_stage1 x =
     (let x0 = x ! 0;
          x1 = x ! 1;
          x2 = x ! 2;
          x3 = x ! 3;
          x4 = x ! 4;
          x5 = x ! 5;
          x6 = x ! 6;
          x7 = x ! 7;
          x8 = x ! 8;
          x9 = x ! 9;
          x10 = x ! 10;
          x11 = x ! 11;
          x12 = x ! 12;
          x13 = x ! 13;
          x14 = x ! 14;
          x15 = x ! 15;
          s0 = x0 * cospi_1_64 + x1 * cospi_31_64;
          s1 = x0 * cospi_31_64 - x1 * cospi_1_64;
          s2 = x2 * cospi_5_64 + x3 * cospi_27_64;
          s3 = x2 * cospi_27_64 - x3 * cospi_5_64;
          s4 = x4 * cospi_9_64 + x5 * cospi_23_64;
          s5 = x4 * cospi_23_64 - x5 * cospi_9_64;
          s6 = x6 * cospi_13_64 + x7 * cospi_19_64;
          s7 = x6 * cospi_19_64 - x7 * cospi_13_64;
          s8 = x8 * cospi_17_64 + x9 * cospi_15_64;
          s9 = x8 * cospi_15_64 - x9 * cospi_17_64;
          s10 = x10 * cospi_21_64 + x11 * cospi_11_64;
          s11 = x10 * cospi_11_64 - x11 * cospi_21_64;
          s12 = x12 * cospi_25_64 + x13 * cospi_7_64;
          s13 = x12 * cospi_7_64 - x13 * cospi_25_64;
          s14 = x14 * cospi_29_64 + x15 * cospi_3_64;
          s15 = x14 * cospi_3_64 - x15 * cospi_29_64;
          x0 = fdct_round_shift (s0 + s8);
          x1 = fdct_round_shift (s1 + s9);
          x2 = fdct_round_shift (s2 + s10);
          x3 = fdct_round_shift (s3 + s11);
          x4 = fdct_round_shift (s4 + s12);
          x5 = fdct_round_shift (s5 + s13);
          x6 = fdct_round_shift (s6 + s14);
          x7 = fdct_round_shift (s7 + s15);
          x8 = fdct_round_shift (s0 - s8);
          x9 = fdct_round_shift (s1 - s9);
          x10 = fdct_round_shift (s2 - s10);
          x11 = fdct_round_shift (s3 - s11);
          x12 = fdct_round_shift (s4 - s12);
          x13 = fdct_round_shift (s5 - s13);
          x14 = fdct_round_shift (s6 - s14);
          x15 = fdct_round_shift (s7 - s15)
      in [x0, x1, x2, x3, x4, x5, x6, x7, x8, x9, x10, x11, x12, x13, x14, x15])"

definition fadst16_stage2 :: "i32 list \<Rightarrow> i32 list" where
  "fadst16_stage2 x =
     (let x0 = x ! 0;
          x1 = x ! 1;
          x2 = x ! 2;
          x3 = x ! 3;
          x4 = x ! 4;
          x5 = x ! 5;
          x6 = x ! 6;
          x7 = x ! 7;
          x8 = x ! 8;
          x9 = x ! 9;
          x10 = x ! 10;
          x11 = x ! 11;
          x12 = x ! 12;
          x13 = x ! 13;
          x14 = x ! 14;
          x15 = x ! 15;
          s0 = x0;
          s1 = x1;
          s2 = x2;
          s3 = x3;
          s4 = x4;
          s5 = x5;
          s6 = x6;
          s7 = x7;
          s8 = x8 * cospi_4_64 + x9 * cospi_28_64;
          s9 = x8 * cospi_28_64 - x9 * cospi_4_64;
          s10 = x10 * cospi_20_64 + x11 * cospi_12_64;
          s11 = x10 * cospi_12_64 - x11 * cospi_20_64;
          s12 = (- x12) * cospi_28_64 + x13 * cospi_4_64;
          s13 = x12 * cospi_4_64 + x13 * cospi_28_64;
          s14 = (- x14) * cospi_12_64 + x15 * cospi_20_64;
          s15 = x14 * cospi_20_64 + x15 * cospi_12_64;
          x0 = s0 + s4;
          x1 = s1 + s5;
          x2 = s2 + s6;
          x3 = s3 + s7;
          x4 = s0 - s4;
          x5 = s1 - s5;
          x6 = s2 - s6;
          x7 = s3 - s7;
          x8 = fdct_round_shift (s8 + s12);
          x9 = fdct_round_shift (s9 + s13);
          x10 = fdct_round_shift (s10 + s14);
          x11 = fdct_round_shift (s11 + s15);
          x12 = fdct_round_shift (s8 - s12);
          x13 = fdct_round_shift (s9 - s13);
          x14 = fdct_round_shift (s10 - s14);
          x15 = fdct_round_shift (s11 - s15)
      in [x0, x1, x2, x3, x4, x5, x6, x7, x8, x9, x10, x11, x12, x13, x14, x15])"

definition fadst16_stage3 :: "i32 list \<Rightarrow> i32 list" where
  "fadst16_stage3 x =
     (let x0 = x ! 0;
          x1 = x ! 1;
          x2 = x ! 2;
          x3 = x ! 3;
          x4 = x ! 4;
          x5 = x ! 5;
          x6 = x ! 6;
          x7 = x ! 7;
          x8 = x ! 8;
          x9 = x ! 9;
          x10 = x ! 10;
          x11 = x ! 11;
          x12 = x ! 12;
          x13 = x ! 13;
          x14 = x ! 14;
          x15 = x ! 15;
          s0 = x0;
          s1 = x1;
          s2 = x2;
          s3 = x3;
          s4 = x4 * cospi_8_64 + x5 * cospi_24_64;
          s5 = x4 * cospi_24_64 - x5 * cospi_8_64;
          s6 = (- x6) * cospi_24_64 + x7 * cospi_8_64;
          s7 = x6 * cospi_8_64 + x7 * cospi_24_64;
          s8 = x8;
          s9 = x9;
          s10 = x10;
          s11 = x11;
          s12 = x12 * cospi_8_64 + x13 * cospi_24_64;
          s13 = x12 * cospi_24_64 - x13 * cospi_8_64;
          s14 = (- x14) * cospi_24_64 + x15 * cospi_8_64;
          s15 = x14 * cospi_8_64 + x15 * cospi_24_64;
          x0 = s0 + s2;
          x1 = s1 + s3;
          x2 = s0 - s2;
          x3 = s1 - s3;
          x4 = fdct_round_shift (s4 + s6);
          x5 = fdct_round_shift (s5 + s7);
          x6 = fdct_round_shift (s4 - s6);
          x7 = fdct_round_shift (s5 - s7);
          x8 = s8 + s10;
          x9 = s9 + s11;
          x10 = s8 - s10;
          x11 = s9 - s11;
          x12 = fdct_round_shift (s12 + s14);
          x13 = fdct_round_shift (s13 + s15);
          x14 = fdct_round_shift (s12 - s14);
          x15 = fdct_round_shift (s13 - s15)
      in [x0, x1, x2, x3, x4, x5, x6, x7, x8, x9, x10, x11, x12, x13, x14, x15])"

definition fadst16_stage4 :: "i32 list \<Rightarrow> i32 list" where
  "fadst16_stage4 x =
     (let x0 = x ! 0;
          x1 = x ! 1;
          x2 = x ! 2;
          x3 = x ! 3;
          x4 = x ! 4;
          x5 = x ! 5;
          x6 = x ! 6;
          x7 = x ! 7;
          x8 = x ! 8;
          x9 = x ! 9;
          x10 = x ! 10;
          x11 = x ! 11;
          x12 = x ! 12;
          x13 = x ! 13;
          x14 = x ! 14;
          x15 = x ! 15;
          s2 = (- cospi_16_64) * (x2 + x3);
          s3 = cospi_16_64 * (x2 - x3);
          s6 = cospi_16_64 * (x6 + x7);
          s7 = cospi_16_64 * (- x6 + x7);
          s10 = cospi_16_64 * (x10 + x11);
          s11 = cospi_16_64 * (- x10 + x11);
          s14 = (- cospi_16_64) * (x14 + x15);
          s15 = cospi_16_64 * (x14 - x15);
          x2 = fdct_round_shift s2;
          x3 = fdct_round_shift s3;
          x6 = fdct_round_shift s6;
          x7 = fdct_round_shift s7;
          x10 = fdct_round_shift s10;
          x11 = fdct_round_shift s11;
          x14 = fdct_round_shift s14;
          x15 = fdct_round_shift s15
      in [x0, x1, x2, x3, x4, x5, x6, x7, x8, x9, x10, x11, x12, x13, x14, x15])"

definition fadst16_out :: "i32 list \<Rightarrow> i16 list" where
  "fadst16_out x =
     [tr (x ! 0), tr (- (x ! 8)), tr (x ! 12), tr (- (x ! 4)), tr (x ! 6), tr (x ! 14), tr (x ! 10),
      tr (x ! 2), tr (x ! 3), tr (x ! 11), tr (x ! 15), tr (x ! 7), tr (x ! 5), tr (- (x ! 13)),
      tr (x ! 9), tr (- (x ! 1))]"

definition fadst16_1d :: "i16 list \<Rightarrow> i16 list" where
  "fadst16_1d b = fadst16_out (fadst16_stage4 (fadst16_stage3 (fadst16_stage2 (fadst16_stage1 (fadst16_load b)))))"
section \<open>Transforms of a line\<close>

text \<open>Reading and writing the elements \<open>xoff\<close> to \<open>xoff + n - 1\<close>.\<close>

definition read_line :: "nat \<Rightarrow> rtalloc \<Rightarrow> u32 \<Rightarrow> i16 list option" where
  "read_line n a xoff = those (map (\<lambda>i. rsGetElementAt_short1 a (of_nat i + xoff)) [0..<n])"

definition write_line :: "nat \<Rightarrow> i16 list \<Rightarrow> rtalloc \<Rightarrow> u32 \<Rightarrow> rtalloc option" where
  "write_line n v a xoff = for_upto 0 n (\<lambda>i a. rsSetElementAt_short1 a (v ! i) (of_nat i + xoff)) a"

text \<open>The bitwise or of all the loaded values.\<close>

definition or_all :: "i32 list \<Rightarrow> i32" where
  "or_all xs = foldl (OR) 0 xs"

definition rsIadst4 :: "rtalloc \<Rightarrow> rtalloc \<Rightarrow> u32 \<Rightarrow> rtalloc option" where
  "rsIadst4 input output xoff =
     do { b \<leftarrow> read_line 4 input xoff;
          if or_all (iadst4_load b) = 0 then write_line 4 (replicate 4 0) output xoff
          else write_line 4 (iadst4_1d b) output xoff }"

definition rsIadst8 :: "rtalloc \<Rightarrow> rtalloc \<Rightarrow> u32 \<Rightarrow> rtalloc option" where
  "rsIadst8 input output xoff =
     do { b \<leftarrow> read_line 8 input xoff;
          if or_all (iadst8_load b) = 0 then write_line 8 (replicate 8 0) output xoff
          else write_line 8 (iadst8_1d b) output xoff }"

definition rsIadst16 :: "rtalloc \<Rightarrow> rtalloc \<Rightarrow> u32 \<Rightarrow> rtalloc option" where
  "rsIadst16 input output xoff =
     do { b \<leftarrow> read_line 16 input xoff;
          if or_all (iadst16_load b) = 0 then write_line 16 (replicate 16 0) output xoff
          else write_line 16 (iadst16_1d b) output xoff }"

definition rsFadst4 :: "rtalloc \<Rightarrow> rtalloc \<Rightarrow> u32 \<Rightarrow> rtalloc option" where
  "rsFadst4 input output xoff =
     do { b \<leftarrow> read_line 4 input xoff;
          if or_all (fadst4_load b) = 0 then write_line 4 (replicate 4 0) output xoff
          else write_line 4 (fadst4_1d b) output xoff }"

definition rsFadst8 :: "rtalloc \<Rightarrow> rtalloc \<Rightarrow> u32 \<Rightarrow> rtalloc option" where
  "rsFadst8 input output xoff =
     do { b \<leftarrow> read_line 8 input xoff; write_line 8 (fadst8_1d b) output xoff }"

definition rsFadst16 :: "rtalloc \<Rightarrow> rtalloc \<Rightarrow> u32 \<Rightarrow> rtalloc option" where
  "rsFadst16 input output xoff =
     do { b \<leftarrow> read_line 16 input xoff; write_line 16 (fadst16_1d b) output xoff }"

section \<open>Bounds\<close>

text \<open>Values of at most \<open>B\<close>, the constants, and sums of two scaled values.\<close>

definition bnd :: "int \<Rightarrow> i32 \<Rightarrow> bool" where
  "bnd B w \<longleftrightarrow> \<bar>sint w\<bar> \<le> B"

definition scale :: "i32 \<Rightarrow> bool" where
  "scale c \<longleftrightarrow> \<bar>sint c\<bar> \<le> 16384"

definition rot :: "int \<Rightarrow> i32 \<Rightarrow> bool" where
  "rot B s \<longleftrightarrow> bnd (32768 * B) s"

lemma sint_fits_32: "- 2147483648 \<le> k \<Longrightarrow> k < 2147483648 \<Longrightarrow> sint (word_of_int k :: i32) = k"
  using sint_word_of_int_32[of k] by simp

lemma sint_add_fits: "\<bar>sint x + sint y\<bar> < 2147483648 \<Longrightarrow> sint (x + y :: i32) = sint x + sint y"
  using sint_fits_32[of "sint x + sint y"] by (simp add: abs_less_iff)

lemma sint_diff_fits: "\<bar>sint x - sint y\<bar> < 2147483648 \<Longrightarrow> sint (x - y :: i32) = sint x - sint y"
  using sint_fits_32[of "sint x - sint y"] by (simp add: abs_less_iff)

lemma sint_mult_fits: "\<bar>sint x * sint y\<bar> < 2147483648 \<Longrightarrow> sint (x * y :: i32) = sint x * sint y"
  using sint_fits_32[of "sint x * sint y"] by (simp add: abs_less_iff)

lemma sint_uminus_fits: "\<bar>sint x\<bar> < 2147483648 \<Longrightarrow> sint (- x :: i32) = - sint x"
  using sint_fits_32[of "- sint x"] by (simp add: abs_less_iff)

lemma bnd_add: "bnd A x \<Longrightarrow> bnd B y \<Longrightarrow> A + B < 2147483648 \<Longrightarrow> bnd (A + B) (x + y)"
  unfolding bnd_def by (subst sint_add_fits) linarith+

lemma bnd_diff: "bnd A x \<Longrightarrow> bnd B y \<Longrightarrow> A + B < 2147483648 \<Longrightarrow> bnd (A + B) (x - y)"
  unfolding bnd_def by (subst sint_diff_fits) linarith+

lemma bnd_uminus: "bnd A x \<Longrightarrow> A < 2147483648 \<Longrightarrow> bnd A (- x)"
  unfolding bnd_def by (subst sint_uminus_fits) linarith+

lemma bnd_scale: "scale c \<Longrightarrow> bnd B x \<Longrightarrow> B < 131072 \<Longrightarrow> bnd (16384 * B) (c * x)"
proof -
  assume c: "scale c" and x: "bnd B x" and B: "B < 131072"
  have "\<bar>sint c * sint x\<bar> \<le> 16384 * B"
    unfolding abs_mult using c x by (intro mult_mono) (auto simp: scale_def bnd_def)
  then show ?thesis using B unfolding bnd_def by (subst sint_mult_fits) linarith+
qed

lemma bnd_round: "bnd (16384 * A) s \<Longrightarrow> A < 131000 \<Longrightarrow> bnd A (fdct_round_shift s)"
proof -
  assume s: "bnd (16384 * A) s" and A: "A < 131000"
  have "fdct_round_shift s = word_of_int ((sint s + 8192) div 16384)"
    using ROUND_word_of_int[of "sint s" 14] s A by (simp add: fdct_round_shift_def bnd_def abs_le_iff)
  moreover have "\<bar>(sint s + 8192) div 16384\<bar> \<le> A" using s unfolding bnd_def by linarith
  ultimately show ?thesis using sint_fits_32[of "(sint s + 8192) div 16384"] A by (simp add: bnd_def abs_le_iff)
qed

lemma round_same: "bnd (16384 * A) s \<Longrightarrow> A < 32768 \<Longrightarrow> dct_const_round_shift s = fdct_round_shift s"
proof -
  assume s: "bnd (16384 * A) s" and A: "A < 32768"
  then have "bnd A (fdct_round_shift s)" by (intro bnd_round) simp_all
  then have "\<bar>sint (fdct_round_shift s)\<bar> < 32768" using A by (simp add: bnd_def)
  then have "sx (tr (word_of_int (sint (fdct_round_shift s)))) = word_of_int (sint (fdct_round_shift s))"
    by (simp only: tr_word_of_int) (simp only: sx_word_of_int abs_less_iff minus_less_iff less_imp_le)
  then have "sx (tr (fdct_round_shift s)) = fdct_round_shift s" by simp
  then show ?thesis by (simp add: dct_const_round_shift_def fdct_round_shift_def)
qed
lemma scale_cospi [simp]:
  "scale cospi_1_64" "scale cospi_2_64" "scale cospi_4_64" "scale cospi_5_64" "scale cospi_6_64"
  "scale cospi_8_64" "scale cospi_9_64" "scale cospi_10_64" "scale cospi_13_64" "scale cospi_14_64"
  "scale cospi_16_64" "scale cospi_17_64" "scale cospi_18_64" "scale cospi_20_64" "scale cospi_21_64"
  "scale cospi_22_64" "scale cospi_24_64" "scale cospi_25_64" "scale cospi_26_64" "scale cospi_27_64"
  "scale cospi_28_64" "scale cospi_29_64" "scale cospi_30_64" "scale cospi_31_64" "scale cospi_3_64"
  "scale cospi_7_64" "scale cospi_11_64" "scale cospi_12_64" "scale cospi_15_64" "scale cospi_19_64" "scale cospi_23_64"
  by (simp_all add: scale_def cospi_64_def)

lemma rot_cases:
  assumes "scale c" and "scale d" and "bnd B x" and "bnd B y" and "B < 16384"
  shows "rot B (c * x + d * y)" "rot B (c * x - d * y)" "rot B (d * y - c * x)"
    "rot B (x * c + y * d)" "rot B (x * c - y * d)" "rot B (y * d - x * c)"
proof -
  have c: "bnd (16384 * B) (c * x)" and d: "bnd (16384 * B) (d * y)" using assms by (simp_all add: bnd_scale)
  have B: "16384 * B + 16384 * B < 2147483648" using assms(5) by simp
  show "rot B (c * x + d * y)" "rot B (c * x - d * y)" "rot B (d * y - c * x)"
    "rot B (x * c + y * d)" "rot B (x * c - y * d)" "rot B (y * d - x * c)"
    using bnd_add[OF c d B] bnd_diff[OF c d B] bnd_diff[OF d c B] by (simp_all add: rot_def mult.commute)
qed

lemma round_rot:
  assumes "rot B s" and "rot B t" and "4 * B < 32768"
  shows "dct_const_round_shift (s + t) = fdct_round_shift (s + t)"
    "dct_const_round_shift (s - t) = fdct_round_shift (s - t)"
    "bnd (4 * B) (fdct_round_shift (s + t))" "bnd (4 * B) (fdct_round_shift (s - t))"
proof -
  have B: "32768 * B + 32768 * B < 2147483648" using assms(3) by simp
  have *: "bnd (16384 * (4 * B)) (s + t)" "bnd (16384 * (4 * B)) (s - t)"
    using bnd_add[OF assms(1,2)[unfolded rot_def] B] bnd_diff[OF assms(1,2)[unfolded rot_def] B] by simp_all
  show "dct_const_round_shift (s + t) = fdct_round_shift (s + t)"
    "dct_const_round_shift (s - t) = fdct_round_shift (s - t)"
    using *[THEN round_same] assms(3) by simp_all
  show "bnd (4 * B) (fdct_round_shift (s + t))" "bnd (4 * B) (fdct_round_shift (s - t))"
    using *[THEN bnd_round] assms(3) by simp_all
qed

lemma round_scaled:
  assumes "scale c" and "bnd B x" and "bnd B y" and "2 * B < 32768"
  shows "dct_const_round_shift (c * (x + y)) = fdct_round_shift (c * (x + y))"
    "dct_const_round_shift (c * (x - y)) = fdct_round_shift (c * (x - y))"
    "dct_const_round_shift (- (c * (x + y))) = fdct_round_shift (- (c * (x + y)))"
    "bnd (2 * B) (fdct_round_shift (c * (x + y)))" "bnd (2 * B) (fdct_round_shift (c * (x - y)))"
proof -
  have B: "B + B < 2147483648" "2 * B < 131072" "2 * B < 131000" using assms(4) by simp_all
  have *: "bnd (16384 * (2 * B)) (c * (x + y))" "bnd (16384 * (2 * B)) (c * (x - y))"
    using bnd_add[OF assms(2,3) B(1)] bnd_diff[OF assms(2,3) B(1)] B(2) assms(1) by (simp_all only: bnd_scale mult_2)
  then have "bnd (16384 * (2 * B)) (- (c * (x + y)))" using assms(4) by (intro bnd_uminus) simp_all
  from round_same[OF this] assms(4)
  show "dct_const_round_shift (- (c * (x + y))) = fdct_round_shift (- (c * (x + y)))" by simp
  show "dct_const_round_shift (c * (x + y)) = fdct_round_shift (c * (x + y))"
    "dct_const_round_shift (c * (x - y)) = fdct_round_shift (c * (x - y))"
    "bnd (2 * B) (fdct_round_shift (c * (x + y)))" "bnd (2 * B) (fdct_round_shift (c * (x - y)))"
    using *[THEN round_same] *[THEN bnd_round] assms(4) B(3) by simp_all
qed

lemma bnd_sum:
  assumes "bnd B x" and "bnd B y" and "4 * B < 131072"
  shows "bnd (4 * B) (x + y)" "bnd (4 * B) (x - y)"
proof -
  have "0 \<le> B" using assms(1) by (simp add: bnd_def)
  then show "bnd (4 * B) (x + y)" "bnd (4 * B) (x - y)"
    using bnd_add[OF assms(1,2)] bnd_diff[OF assms(1,2)] assms(3) by (simp_all add: bnd_def)
qed
text \<open>The stages, with the bound of the values they pass on.\<close>

definition line_bnd :: "nat \<Rightarrow> int \<Rightarrow> i32 list \<Rightarrow> bool" where
  "line_bnd n B x \<longleftrightarrow> length x = n \<and> list_all (bnd B) x"

lemma line_bnd_nth: "line_bnd n B x \<Longrightarrow> i < n \<Longrightarrow> bnd B (x ! i)"
  by (simp add: line_bnd_def list_all_length)

lemma adst8_stage1:
  assumes "line_bnd 8 1000 x"
  shows "iadst8_stage1 x = fadst8_stage1 x" and "line_bnd 8 4000 (fadst8_stage1 x)"
  using line_bnd_nth[OF assms] round_rot[of 1000] rot_cases[of _ _ 1000]
  by (simp_all add: iadst8_stage1_def fadst8_stage1_def Let_def line_bnd_def)

lemma adst8_stage2:
  assumes "line_bnd 8 4000 x"
  shows "iadst8_stage2 x = fadst8_stage2 x" and "line_bnd 8 16000 (fadst8_stage2 x)"
  using line_bnd_nth[OF assms] round_rot[of 4000] rot_cases[of _ _ 4000] bnd_sum[of 4000]
  by (simp_all add: iadst8_stage2_def fadst8_stage2_def Let_def line_bnd_def)

lemma adst8_stage3:
  assumes "line_bnd 8 16000 x"
  shows "iadst8_stage3 x = fadst8_stage3 x"
  using line_bnd_nth[OF assms] round_scaled[of _ 16000]
  by (simp add: iadst8_stage3_def fadst8_stage3_def Let_def)
lemma adst16_stage1:
  assumes "line_bnd 16 255 x"
  shows "iadst16_stage1 x = fadst16_stage1 x" and "line_bnd 16 1020 (fadst16_stage1 x)"
  using line_bnd_nth[OF assms] round_rot[of 255] rot_cases[of _ _ 255]
  by (simp_all add: iadst16_stage1_def fadst16_stage1_def Let_def line_bnd_def)

lemma adst16_stage2:
  assumes "line_bnd 16 1020 x"
  shows "iadst16_stage2 x = fadst16_stage2 x" and "line_bnd 16 4080 (fadst16_stage2 x)"
  using line_bnd_nth[OF assms] round_rot[of 1020] rot_cases[of _ _ 1020] bnd_sum[of 1020]
  by (simp_all add: iadst16_stage2_def fadst16_stage2_def Let_def line_bnd_def)

lemma adst16_stage3:
  assumes "line_bnd 16 4080 x"
  shows "iadst16_stage3 x = fadst16_stage3 x" and "line_bnd 16 16320 (fadst16_stage3 x)"
  using line_bnd_nth[OF assms] round_rot[of 4080] rot_cases[of _ _ 4080] bnd_sum[of 4080]
  by (simp_all add: iadst16_stage3_def fadst16_stage3_def Let_def line_bnd_def)

lemma adst16_stage4:
  assumes "line_bnd 16 16320 x"
  shows "iadst16_stage4 x = fadst16_stage4 x"
  using line_bnd_nth[OF assms] round_scaled[of _ 16320]
  by (simp add: iadst16_stage4_def fadst16_stage4_def Let_def)

section \<open>Properties\<close>

lemma bnd_sx: "\<bar>sint v\<bar> \<le> B \<Longrightarrow> B < 32768 \<Longrightarrow> bnd B (sx v)"
  using sx_word_of_int[of "sint v"] sint_fits_32[of "sint v"] by (simp add: bnd_def abs_le_iff)

lemma read_line_length: "read_line n a xoff = Some b \<Longrightarrow> length b = n"
  by (auto simp: read_line_def those_Some_iff dest: map_eq_imp_length_eq)

lemma or_all_0: "or_all xs = 0 \<longleftrightarrow> (\<forall>x\<in>set xs. x = 0)"
proof -
  have "foldl (OR) a xs = 0 \<longleftrightarrow> a = 0 \<and> (\<forall>x\<in>set xs. x = 0)" for a :: i32
    by (induction xs arbitrary: a) (auto simp: or_eq_0_iff)
  then show ?thesis by (simp add: or_all_def)
qed

lemma iadst4_zero: "or_all (iadst4_load b) = 0 \<Longrightarrow> iadst4_1d b = replicate 4 0"
  by (simp add: or_all_0 iadst4_load_def iadst4_1d_def Let_def numeral_eq_Suc)

lemma fadst4_zero: "or_all (fadst4_load b) = 0 \<Longrightarrow> fadst4_1d b = replicate 4 0"
  by (simp add: or_all_0 fadst4_load_def fadst4_1d_def Let_def numeral_eq_Suc)

lemma iadst8_zero: "or_all (iadst8_load b) = 0 \<Longrightarrow> iadst8_1d b = replicate 8 0"
  by (simp add: or_all_0 iadst8_load_def iadst8_1d_def iadst8_stage1_def iadst8_stage2_def iadst8_stage3_def
    iadst8_out_def Let_def numeral_eq_Suc)

lemma iadst16_zero: "or_all (iadst16_load b) = 0 \<Longrightarrow> iadst16_1d b = replicate 16 0"
  by (simp add: or_all_0 iadst16_load_def iadst16_1d_def iadst16_stage1_def iadst16_stage2_def iadst16_stage3_def
    iadst16_stage4_def iadst16_out_def Let_def numeral_eq_Suc)

text \<open>The shortcut of the inverse transforms, and of the forward four-point one, for a line of zeros changes
  nothing: each of them writes the transform of the line it read.\<close>

theorem zero_line_shortcut:
  "rsIadst4 input output xoff = do { b \<leftarrow> read_line 4 input xoff; write_line 4 (iadst4_1d b) output xoff }
    \<and> rsIadst8 input output xoff = do { b \<leftarrow> read_line 8 input xoff; write_line 8 (iadst8_1d b) output xoff }
    \<and> rsIadst16 input output xoff = do { b \<leftarrow> read_line 16 input xoff; write_line 16 (iadst16_1d b) output xoff }
    \<and> rsFadst4 input output xoff = do { b \<leftarrow> read_line 4 input xoff; write_line 4 (fadst4_1d b) output xoff }"
  unfolding rsIadst4_def rsIadst8_def rsIadst16_def rsFadst4_def
  by (intro conjI Option.bind_cong) (simp_all add: iadst4_zero iadst8_zero iadst16_zero fadst4_zero)

text \<open>A line for the examples.\<close>

definition sample_line :: "i16 list \<Rightarrow> rtalloc" where
  "sample_line b = sample_alloc 64 (short_bytes b)"

lemma sample_line_8: "read_line 8 (sample_line [255, - 255, 3, 0, 1000, - 1000, 7, 1]) 0 =
    Some [255, - 255, 3, 0, 1000, - 1000, 7, 1]"
  by code_simp

lemma sample_line_16: "read_line 16 (sample_line [255, - 255, 3, 0, 100, - 100, 7, 1, 9, 9, 9, 9, - 1, 2, 3, 4]) 0 =
    Some [255, - 255, 3, 0, 100, - 100, 7, 1, 9, 9, 9, 9, - 1, 2, 3, 4]"
  by code_simp

text \<open>The forward and the inverse eight-point transform are the same transform: on a line whose elements
  are between -1000 and 1000 \<open>rsFadst8\<close> and \<open>rsIadst8\<close> write the same result, although one of
  them cuts every rounded value to sixteen bits and skips a line of zeros.\<close>

theorem rsFadst8_eq_rsIadst8:
  assumes b: "read_line 8 input xoff = Some b" and small: "\<forall>v\<in>set b. \<bar>sint v\<bar> \<le> 1000"
  shows "rsFadst8 input output xoff = rsIadst8 input output xoff"
proof -
  have len: "length b = 8" using read_line_length[OF b] .
  then have 0: "line_bnd 8 1000 (fadst8_load b)"
    using small by (auto simp: line_bnd_def fadst8_load_def intro!: bnd_sx)
  note 1 = adst8_stage1[OF 0]
  note 2 = adst8_stage2[OF 1(2)]
  have "iadst8_load b = fadst8_load b" by (simp add: iadst8_load_def fadst8_load_def)
  then have eq: "iadst8_1d b = fadst8_1d b"
    using 1 2 adst8_stage3[OF 2(2)] by (simp add: iadst8_1d_def fadst8_1d_def iadst8_out_def fadst8_out_def)
  show ?thesis using iadst8_zero[of b] eq by (simp add: rsFadst8_def rsIadst8_def b)
qed

theorem rsFadst8_eq_rsIadst8_witness:
  "rsFadst8 (sample_line [255, - 255, 3, 0, 1000, - 1000, 7, 1]) (sample_line (replicate 8 0)) 0
    = rsIadst8 (sample_line [255, - 255, 3, 0, 1000, - 1000, 7, 1]) (sample_line (replicate 8 0)) 0"
  by (rule rsFadst8_eq_rsIadst8[OF sample_line_8]) simp

text \<open>C23: The forward and the inverse sixteen-point transform agree on a line of residuals, which are between -255
  and 255.\<close>

theorem rsFadst16_eq_rsIadst16:
  assumes b: "read_line 16 input xoff = Some b" and small: "\<forall>v\<in>set b. \<bar>sint v\<bar> \<le> 255"
  shows "rsFadst16 input output xoff = rsIadst16 input output xoff"
proof -
  have len: "length b = 16" using read_line_length[OF b] .
  then have 0: "line_bnd 16 255 (fadst16_load b)"
    using small by (auto simp: line_bnd_def fadst16_load_def intro!: bnd_sx)
  note 1 = adst16_stage1[OF 0]
  note 2 = adst16_stage2[OF 1(2)]
  note 3 = adst16_stage3[OF 2(2)]
  have "iadst16_load b = fadst16_load b" by (simp add: iadst16_load_def fadst16_load_def)
  then have eq: "iadst16_1d b = fadst16_1d b"
    using 1 2 3 adst16_stage4[OF 3(2)] by (simp add: iadst16_1d_def fadst16_1d_def iadst16_out_def fadst16_out_def)
  show ?thesis using iadst16_zero[of b] eq by (simp add: rsFadst16_def rsIadst16_def b)
qed


theorem rsFadst16_eq_rsIadst16_witness:
  "rsFadst16 (sample_line [255, - 255, 3, 0, 100, - 100, 7, 1, 9, 9, 9, 9, - 1, 2, 3, 4]) (sample_line (replicate 16 0)) 0
    = rsIadst16 (sample_line [255, - 255, 3, 0, 100, - 100, 7, 1, 9, 9, 9, 9, - 1, 2, 3, 4]) (sample_line (replicate 16 0)) 0"
  by (rule rsFadst16_eq_rsIadst16[OF sample_line_16]) simp

end
