(* ===== verification/Rs_Walsh.thy ===== *)
theory Rs_Walsh
  imports Rs_Idct
begin

unbundle bit_operations_syntax

text \<open>
  The inverse Walsh-Hadamard transform of \<open>driver/runtime/rs_walsh.c\<close>. It reads sixteen elements of a row
  of \<open>input\<close> and writes sixteen elements of a column of \<open>dest\<close>. The version for a block whose only coefficient is the
  first agrees with the full transform.
\<close>

section \<open>The transform\<close>

text \<open>One column of the first loop, and one row of the second.\<close>

definition walsh_column :: "i16 list \<Rightarrow> i16 list" where
  "walsh_column c =
     (let a1 = sx (c ! 0) + sx (c ! 3);
          b1 = sx (c ! 1) + sx (c ! 2);
          c1 = sx (c ! 1) - sx (c ! 2);
          d1 = sx (c ! 0) - sx (c ! 3)
      in [tr (a1 + b1), tr (c1 + d1), tr (a1 - b1), tr (d1 - c1)])"

definition walsh_row :: "i16 list \<Rightarrow> i16 list" where
  "walsh_row r =
     (let a1 = sx (r ! 0) + sx (r ! 3);
          b1 = sx (r ! 1) + sx (r ! 2);
          c1 = sx (r ! 1) - sx (r ! 2);
          d1 = sx (r ! 0) - sx (r ! 3);
          a2 = a1 + b1;
          b2 = c1 + d1;
          c2 = a1 - b1;
          d2 = d1 - c1
      in [tr (signed_drop_bit 3 (a2 + 3)), tr (signed_drop_bit 3 (b2 + 3)),
          tr (signed_drop_bit 3 (c2 + 3)), tr (signed_drop_bit 3 (d2 + 3))])"

text \<open>The elements \<open>(xoff + i, yoff)\<close> are read; the elements \<open>(xoff, yoff + i)\<close> are written.\<close>

definition walsh_read :: "rtalloc \<Rightarrow> u32 \<Rightarrow> u32 \<Rightarrow> i16 list option" where
  "walsh_read input xoff yoff = those (map (\<lambda>i. rsGetElementAt_short input (xoff + of_nat i) yoff) [0..<16])"

definition walsh_write :: "i16 list \<Rightarrow> rtalloc \<Rightarrow> u32 \<Rightarrow> u32 \<Rightarrow> rtalloc option" where
  "walsh_write output dest xoff yoff =
     for_upto 0 16 (\<lambda>i dest. rsSetElementAt_short dest (output ! i) xoff (yoff + of_nat i)) dest"

definition walsh_columns :: "i16 list \<Rightarrow> i16 list" where
  "walsh_columns b = map (\<lambda>k. walsh_column (blk_col 4 (k mod 4) b) ! (k div 4)) [0..<16]"

definition walsh_rows :: "i16 list \<Rightarrow> i16 list" where
  "walsh_rows b = concat (map (\<lambda>i. walsh_row (blk_row 4 i b)) [0..<4])"

definition rsWalsh4x4 :: "rtalloc \<Rightarrow> rtalloc \<Rightarrow> u32 \<Rightarrow> u32 \<Rightarrow> rtalloc option" where
  "rsWalsh4x4 input dest xoff yoff =
     do { b \<leftarrow> walsh_read input xoff yoff;
          walsh_write (walsh_rows (walsh_columns b)) dest xoff yoff }"

definition rsWalsh4x4_1 :: "rtalloc \<Rightarrow> rtalloc \<Rightarrow> u32 \<Rightarrow> u32 \<Rightarrow> rtalloc option" where
  "rsWalsh4x4_1 input dest xoff yoff =
     do { b \<leftarrow> walsh_read input xoff yoff;
          let a1 = signed_drop_bit 3 (sx (b ! 0) + 3);
          for_upto 0 16 (\<lambda>i dest. rsSetElementAt_short dest (tr a1) xoff (yoff + of_nat i)) dest }"

section \<open>The version for one coefficient\<close>

lemma upt_16: "[0..<16] = [0, 1, 2, 3, 4, 5, 6, 7, 8, 9, 10, 11, 12, 13, 14, 15 :: nat]"
  by (simp add: upt_rec)

lemma walsh_column_dc: "walsh_column [x, 0, 0, 0] = [x, x, x, x]"
  by (simp add: walsh_column_def)

lemma walsh_row_dc: "walsh_row [x, 0, 0, 0] = replicate 4 (tr (signed_drop_bit 3 (sx x + 3)))"
  by (simp add: walsh_row_def Let_def numeral_eq_Suc)

lemma walsh_dc: "walsh_rows (walsh_columns (d # replicate 15 0)) = replicate 16 (tr (signed_drop_bit 3 (sx d + 3)))"
proof -
  have "blk_col 4 i (d # replicate 15 0) = [if i = 0 then d else 0, 0, 0, 0]" if "i < 4" for i
    using that by (simp add: blk_col_def upt_rec nth_Cons')
  then have "walsh_columns (d # replicate 15 0) = [d, 0, 0, 0, d, 0, 0, 0, d, 0, 0, 0, d, 0, 0, 0]"
    by (simp add: walsh_columns_def upt_16 walsh_column_dc)
  then have "walsh_rows (walsh_columns (d # replicate 15 0)) = concat (replicate (Suc (Suc (Suc (Suc 0)))) (walsh_row [d, 0, 0, 0]))"
    by (simp add: walsh_rows_def blk_row_def upt_rec numeral_2_eq_2 numeral_3_eq_3)
  then show ?thesis by (simp only: walsh_row_dc concat_replicate_replicate) simp
qed

text \<open>\<open>rsWalsh4x4_1\<close> computes the same result as \<open>rsWalsh4x4\<close> on a block whose only coefficient is the first.\<close>

theorem rsWalsh4x4_1_full:
  assumes b: "walsh_read input xoff yoff = Some b" and dc: "\<forall>k. 1 \<le> k \<and> k < 16 \<longrightarrow> b ! k = 0"
  shows "rsWalsh4x4_1 input dest xoff yoff = rsWalsh4x4 input dest xoff yoff"
proof -
  have "length b = 16" using b by (auto simp: walsh_read_def those_Some_iff dest: map_eq_imp_length_eq)
  then have "b = b ! 0 # replicate 15 0" using dc_block[of b 16] dc by simp
  then have "walsh_rows (walsh_columns b) = replicate 16 (tr (signed_drop_bit 3 (sx (b ! 0) + 3)))"
    using walsh_dc by metis
  then show ?thesis
    unfolding rsWalsh4x4_1_def rsWalsh4x4_def b Option.bind_lunit walsh_write_def Let_def
    by (intro for_upto_cong) simp
qed

lemma sample_walsh: "walsh_read (sample_alloc 32 (short_bytes (- 77 # replicate 15 0))) 0 0 = Some (- 77 # replicate 15 0)"
  by code_simp

theorem rsWalsh4x4_1_full_witness:
  "rsWalsh4x4_1 (sample_alloc 32 (short_bytes (- 77 # replicate 15 0))) (sample_dest 32) 0 0
    = rsWalsh4x4 (sample_alloc 32 (short_bytes (- 77 # replicate 15 0))) (sample_dest 32) 0 0"
  by (rule rsWalsh4x4_1_full[OF sample_walsh]) (auto simp: nth_Cons')

end
