(* ===== verification/Rs_CpuCore.thy ===== *)
theory Rs_CpuCore
  imports Rs_Utils "HOL-Library.Multiset"
begin

text \<open>
  The worker threads of the CPU driver: \<open>cpu_ref/rsCpuCore.cpp\<close>, the launch parameters that
  \<open>cpu_ref/rsCpuScript.cpp\<close> sets up, and the signals of \<open>rsSignal.cpp\<close>.

  A kernel launch is run by the calling thread and \<open>mCount\<close> helper threads. Every thread is a program
  counter, and a step of the system is a step of one thread, so that the theorems cover every
  interleaving. The kernel calls of a launch are recorded in the order they happen. A signal is a flag; \<open>wait\<close>
  is blocked while the flag is clear. The parameter \<open>sp\<close> of the steps allows a wait to return
  without the flag, as the condition variables of POSIX may.

  The theorems: a launch always returns; when it has returned, the kernel was called for every row exactly once,
  with the arguments of the serial loop; and neither holds if waits may return without the flag.
\<close>

section \<open>Launch parameters\<close>

record mtls =
  mtPtrIn :: u64
  mtPtrOut :: u64
  mtEStrideIn :: u32
  mtEStrideOut :: u32
  mtYStrideIn :: u32
  mtYStrideOut :: u32
  mtDimX :: u32
  mtDimY :: u32
  mtDimZ :: u32
  mtSliceSize :: u32
  mtSliceNum :: u32
  mtIsThreadable :: bool
  mtXStart :: u32
  mtXEnd :: u32
  mtYStart :: u32
  mtYEnd :: u32
  mtZStart :: u32
  mtZEnd :: u32
  mtArrayStart :: u32
  mtArrayEnd :: u32

definition mtls_zero :: mtls where
  "mtls_zero =
     \<lparr>mtPtrIn = 0, mtPtrOut = 0, mtEStrideIn = 0, mtEStrideOut = 0, mtYStrideIn = 0, mtYStrideOut = 0,
      mtDimX = 0, mtDimY = 0, mtDimZ = 0, mtSliceSize = 0, mtSliceNum = 0, mtIsThreadable = False,
      mtXStart = 0, mtXEnd = 0, mtYStart = 0, mtYEnd = 0, mtZStart = 0, mtZEnd = 0,
      mtArrayStart = 0, mtArrayEnd = 0\<rparr>"

text \<open>A call of the kernel: the fields of the parameter structure that vary, and the range of \<open>x\<close>.\<close>

record kcall =
  kLid :: u32
  kAr :: u32
  kZ :: u32
  kY :: u32
  kIn :: u64
  kOut :: u64
  kX1 :: u32
  kX2 :: u32

section \<open>Signals\<close>

definition Signal_new :: bool where
  "Signal_new = True"

definition Signal_set :: "bool \<Rightarrow> bool" where
  "Signal_set mSet = True"

definition Signal_wait :: "bool \<Rightarrow> bool \<Rightarrow> bool option" where
  "Signal_wait sp mSet = (if mSet \<or> sp then Some False else None)"

section \<open>The workers\<close>

text \<open>\<open>WFetch\<close> is the top of the loop; \<open>WRange\<close> holds the slice that the worker has taken: the rows that are left, or
  the range of \<open>x\<close>.\<close>

datatype wpc = WFetch | WRange u32 u32

datatype wcb = wc_xy | wc_x

definition xy_call :: "mtls \<Rightarrow> u32 \<Rightarrow> u32 \<Rightarrow> kcall" where
  "xy_call m idx y =
     \<lparr>kLid = idx, kAr = 0, kZ = 0, kY = y,
      kIn = mtPtrIn m + ucast (mtYStrideIn m * y) + ucast (mtEStrideIn m * mtXStart m),
      kOut = mtPtrOut m + ucast (mtYStrideOut m * y) + ucast (mtEStrideOut m * mtXStart m),
      kX1 = mtXStart m, kX2 = mtXEnd m\<rparr>"

definition x_call :: "mtls \<Rightarrow> u32 \<Rightarrow> u32 \<Rightarrow> u32 \<Rightarrow> kcall" where
  "x_call m idx xStart xEnd =
     \<lparr>kLid = idx, kAr = 0, kZ = 0, kY = 0,
      kIn = mtPtrIn m + ucast (mtEStrideIn m * xStart),
      kOut = mtPtrOut m + ucast (mtEStrideOut m * xStart),
      kX1 = xStart, kX2 = xEnd\<rparr>"

text \<open>The next slice: the atomic increment of \<open>mSliceNum\<close> and the bounds; an empty slice ends the worker.\<close>

definition fetch_slice :: "u32 \<Rightarrow> u32 \<Rightarrow> mtls \<Rightarrow> wpc option \<times> mtls" where
  "fetch_slice lo hi m =
     (let slice = mtSliceNum m;
          start = lo + slice * mtSliceSize m;
          end = rsMin (start + mtSliceSize m) hi
      in (if end \<le> start then None else Some (WRange start end), m\<lparr>mtSliceNum := slice + 1\<rparr>))"

fun wc_xy_step :: "u32 \<Rightarrow> wpc \<Rightarrow> mtls \<Rightarrow> wpc option \<times> mtls \<times> kcall list" where
  "wc_xy_step idx WFetch m = (case fetch_slice (mtYStart m) (mtYEnd m) m of (w, m) \<Rightarrow> (w, m, []))"
| "wc_xy_step idx (WRange y yEnd) m =
     (if y < yEnd then (Some (WRange (y + 1) yEnd), m, [xy_call m idx y]) else (Some WFetch, m, []))"

fun wc_x_step :: "u32 \<Rightarrow> wpc \<Rightarrow> mtls \<Rightarrow> wpc option \<times> mtls \<times> kcall list" where
  "wc_x_step idx WFetch m = (case fetch_slice (mtXStart m) (mtXEnd m) m of (w, m) \<Rightarrow> (w, m, []))"
| "wc_x_step idx (WRange xStart xEnd) m = (Some WFetch, m, [x_call m idx xStart xEnd])"

definition worker_step :: "wcb \<Rightarrow> u32 \<Rightarrow> wpc \<Rightarrow> mtls \<Rightarrow> wpc option \<times> mtls \<times> kcall list" where
  "worker_step cb = (case cb of wc_xy \<Rightarrow> wc_xy_step | wc_x \<Rightarrow> wc_x_step)"

section \<open>The threads\<close>

text \<open>A helper: at the test of \<open>mExit\<close>, waiting for its signal, in the callback, before the decrement of
  \<open>mRunningCount\<close>, before \<open>mCompleteSignal.set()\<close>, or gone.\<close>

datatype hpc = HTop | HWait | HWork wpc | HDec | HSet | HGone

record helper =
  hPc :: hpc
  hSignal :: bool

text \<open>The thread that owns the context: in \<open>init\<close>, between calls, in \<open>launchThreads\<close> (the signals set so far, the
  callback, the test of \<open>mRunningCount\<close>, the wait), or in the destructor.\<close>

datatype mpc = MInit | MIdle | MSignal nat | MWork wpc | MCheck | MWait | MFast wpc
  | MExitSignal nat | MJoin | MGone

record cpu =
  cData :: mtls
  cCallback :: "wcb option"
  cRunning :: int
  cComplete :: bool
  cExit :: bool
  cMain :: mpc
  cHelpers :: "helper list"
  cLog :: "kcall list"

text \<open>The context after \<open>init\<close> has created \<open>n\<close> helpers. The launch signals are set by their constructor; the
  constructor of the context clears \<open>mWorkers\<close> with the completion signal in it.\<close>

definition cpu_init :: "nat \<Rightarrow> cpu" where
  "cpu_init n =
     \<lparr>cData = mtls_zero,
      cCallback = None, cRunning = int n, cComplete = False, cExit = False, cMain = MInit,
      cHelpers = replicate n \<lparr>hPc = HTop, hSignal = Signal_new\<rparr>, cLog = []\<rparr>"

text \<open>\<open>launchThreads(cbk, data)\<close> up to the first signal, or into the fast path for small launches.\<close>

definition launch_begin :: "wcb \<Rightarrow> mtls \<Rightarrow> cpu \<Rightarrow> cpu" where
  "launch_begin cbk m s =
     (let s = s\<lparr>cData := m, cCallback := Some cbk, cLog := []\<rparr>
      in if mtDimY m \<le> 1 \<and> mtXEnd m \<le> mtXStart m + mtSliceSize m then s\<lparr>cMain := MFast WFetch\<rparr>
         else s\<lparr>cRunning := int (length (cHelpers s)), cMain := MSignal 0\<rparr>)"

text \<open>The destructor up to the first signal.\<close>

definition exit_begin :: "cpu \<Rightarrow> cpu" where
  "exit_begin s = s\<lparr>cExit := True, cCallback := None, cRunning := int (length (cHelpers s)), cMain := MExitSignal 0\<rparr>"

definition set_launch_signal :: "nat \<Rightarrow> cpu \<Rightarrow> cpu" where
  "set_launch_signal ct s =
     s\<lparr>cHelpers := (cHelpers s)[ct := (cHelpers s ! ct)\<lparr>hSignal := Signal_set (hSignal (cHelpers s ! ct))\<rparr>]\<rparr>"

text \<open>A worker of the current launch advances.\<close>

definition run_worker :: "u32 \<Rightarrow> wpc \<Rightarrow> cpu \<Rightarrow> wpc option \<times> cpu" where
  "run_worker idx w s =
     (case cCallback s of
        None \<Rightarrow> (None, s)
      | Some cb \<Rightarrow> (case worker_step cb idx w (cData s) of
          (w', m, calls) \<Rightarrow> (w', s\<lparr>cData := m, cLog := cLog s @ calls\<rparr>)))"

definition main_step :: "bool \<Rightarrow> cpu \<Rightarrow> cpu option" where
  "main_step sp s =
     (case cMain s of
        MInit \<Rightarrow> if cRunning s = 0 then Some (s\<lparr>cMain := MIdle\<rparr>) else None
      | MIdle \<Rightarrow> None
      | MSignal ct \<Rightarrow>
          Some (if ct < length (cHelpers s) then (set_launch_signal ct s)\<lparr>cMain := MSignal (ct + 1)\<rparr>
                else s\<lparr>cMain := MWork WFetch\<rparr>)
      | MWork w \<Rightarrow>
          (case run_worker 0 w s of (w', s) \<Rightarrow>
             Some (s\<lparr>cMain := (case w' of None \<Rightarrow> MCheck | Some w \<Rightarrow> MWork w)\<rparr>))
      | MCheck \<Rightarrow> Some (if cRunning s \<noteq> 0 then s\<lparr>cMain := MWait\<rparr> else s\<lparr>cMain := MIdle\<rparr>)
      | MWait \<Rightarrow> map_option (\<lambda>f. s\<lparr>cComplete := f, cMain := MCheck\<rparr>) (Signal_wait sp (cComplete s))
      | MFast w \<Rightarrow>
          (case run_worker 0 w s of (w', s) \<Rightarrow>
             Some (s\<lparr>cMain := (case w' of None \<Rightarrow> MIdle | Some w \<Rightarrow> MFast w)\<rparr>))
      | MExitSignal ct \<Rightarrow>
          Some (if ct < length (cHelpers s) then (set_launch_signal ct s)\<lparr>cMain := MExitSignal (ct + 1)\<rparr>
                else s\<lparr>cMain := MJoin\<rparr>)
      | MJoin \<Rightarrow> if list_all (\<lambda>h. hPc h = HGone) (cHelpers s) then Some (s\<lparr>cMain := MGone\<rparr>) else None
      | MGone \<Rightarrow> None)"

text \<open>The loop of \<open>helperThreadProc\<close> for the helper \<open>i\<close>.\<close>

definition helper_step :: "bool \<Rightarrow> nat \<Rightarrow> cpu \<Rightarrow> cpu option" where
  "helper_step sp i s =
     (let h = cHelpers s ! i; upd = (\<lambda>h s. s\<lparr>cHelpers := (cHelpers s)[i := h]\<rparr>)
      in case hPc h of
           HTop \<Rightarrow> Some (upd (h\<lparr>hPc := (if cExit s then HGone else HWait)\<rparr>) s)
         | HWait \<Rightarrow>
             map_option (\<lambda>f. upd (h\<lparr>hSignal := f,
                 hPc := (if cCallback s = None then HDec else HWork WFetch)\<rparr>) s) (Signal_wait sp (hSignal h))
         | HWork w \<Rightarrow>
             (case run_worker (of_nat i + 1) w s of (w', s) \<Rightarrow>
                Some (upd (h\<lparr>hPc := (case w' of None \<Rightarrow> HDec | Some w \<Rightarrow> HWork w)\<rparr>) s))
         | HDec \<Rightarrow> Some (upd (h\<lparr>hPc := HSet\<rparr>) (s\<lparr>cRunning := cRunning s - 1\<rparr>))
         | HSet \<Rightarrow> Some (upd (h\<lparr>hPc := HTop\<rparr>) (s\<lparr>cComplete := Signal_set (cComplete s)\<rparr>))
         | HGone \<Rightarrow> None)"

text \<open>A step of the system.\<close>

inductive cstep :: "bool \<Rightarrow> cpu \<Rightarrow> cpu \<Rightarrow> bool" for sp where
  main: "main_step b s = Some s' \<Longrightarrow> b \<longrightarrow> sp \<Longrightarrow> cstep sp s s'"
| helper: "i < length (cHelpers s) \<Longrightarrow> helper_step b i s = Some s' \<Longrightarrow> b \<longrightarrow> sp \<Longrightarrow> cstep sp s s'"

section \<open>The launch of a script\<close>

text \<open>The counters of a \<open>for\<close> loop from \<open>a\<close> to below \<open>b\<close>.\<close>

definition u32_range :: "u32 \<Rightarrow> u32 \<Rightarrow> u32 list" where
  "u32_range a b = map of_nat [unat a..<unat b]"

definition serial_call :: "mtls \<Rightarrow> u32 \<Rightarrow> u32 \<Rightarrow> u32 \<Rightarrow> kcall" where
  "serial_call m ar z y =
     (let offset = mtDimY m * mtDimZ m * ar + mtDimY m * z + y
      in \<lparr>kLid = 0, kAr = ar, kZ = z, kY = y,
          kIn = mtPtrIn m + ucast (mtYStrideIn m * offset) + ucast (mtEStrideIn m * mtXStart m),
          kOut = mtPtrOut m + ucast (mtYStrideOut m * offset) + ucast (mtEStrideOut m * mtXStart m),
          kX1 = mtXStart m, kX2 = mtXEnd m\<rparr>)"

definition serial_calls :: "mtls \<Rightarrow> kcall list" where
  "serial_calls m =
     concat (map (\<lambda>ar. concat (map (\<lambda>z. map (serial_call m ar z) (u32_range (mtYStart m) (mtYEnd m)))
       (u32_range (mtZStart m) (mtZEnd m)))) (u32_range (mtArrayStart m) (mtArrayEnd m)))"

datatype plan = Serial | Threads wcb mtls

text \<open>The slice size for \<open>dim\<close> rows or columns of \<open>out\<close> or \<open>in\<close> bytes; a division by zero is undefined.\<close>

definition slice_size :: "u32 \<Rightarrow> u32 \<Rightarrow> u32 \<Rightarrow> u32 \<Rightarrow> u32 option" where
  "slice_size mCount dim strideOut strideIn =
     (let parts = (mCount + 1) * 4; stride = (if strideOut \<noteq> 0 then strideOut else strideIn)
      in if parts = 0 \<or> stride = 0 then None
         else let s1 = dim div parts; s2 = 16384 div stride; sz = rsMin s1 s2
              in Some (if sz < 1 then 1 else sz))"

definition launch_plan :: "u32 \<Rightarrow> bool \<Rightarrow> mtls \<Rightarrow> plan option" where
  "launch_plan mCount mInForEach m =
     (if 1 \<le> mCount \<and> mtIsThreadable m \<and> \<not> mInForEach
      then if 1 < mtDimY m
           then do { sz \<leftarrow> slice_size mCount (mtDimY m) (mtYStrideOut m) (mtYStrideIn m);
                     Some (Threads wc_xy (m\<lparr>mtSliceSize := sz\<rparr>)) }
           else do { sz \<leftarrow> slice_size mCount (mtDimX m) (mtEStrideOut m) (mtEStrideIn m);
                     Some (Threads wc_x (m\<lparr>mtSliceSize := sz\<rparr>)) }
      else Some Serial)"

text \<open>What the setup reads of an allocation, and the range of a script call.\<close>

record falloc =
  faMallocPtr :: u64
  faDimX :: u32
  faDimY :: u32
  faDimZ :: u32
  faElementSizeBytes :: u32
  faStride :: u64

record script_call =
  scXStart :: u32
  scXEnd :: u32
  scYStart :: u32
  scYEnd :: u32
  scZStart :: u32
  scZEnd :: u32

datatype setup_error = NullIn | NullOut | NullAllocations

text \<open>One dimension: the new range, or \<open>None\<close> for an empty one, where the setup returns.\<close>

definition clip_range :: "u32 \<Rightarrow> bool \<Rightarrow> u32 \<Rightarrow> u32 \<Rightarrow> (u32 \<times> u32) option" where
  "clip_range dim nosc start end =
     (if nosc \<or> end = 0 then Some (0, dim)
      else let s = rsMin dim start; e = rsMin dim end in if e \<le> s then None else Some (s, e))"

definition mtls_finish :: "bool \<Rightarrow> falloc option \<Rightarrow> falloc option \<Rightarrow> mtls \<Rightarrow> mtls" where
  "mtls_finish threadable ain aout m =
     (let m = m\<lparr>mtXEnd := rsMax 1 (mtXEnd m), mtYEnd := rsMax 1 (mtYEnd m), mtZEnd := rsMax 1 (mtZEnd m),
                mtArrayEnd := rsMax 1 (mtArrayEnd m), mtSliceSize := 1, mtSliceNum := 0,
                mtPtrIn := 0, mtEStrideIn := 0, mtIsThreadable := threadable\<rparr>;
          m = (case ain of None \<Rightarrow> m
               | Some a \<Rightarrow> m\<lparr>mtPtrIn := faMallocPtr a, mtEStrideIn := faElementSizeBytes a, mtYStrideIn := ucast (faStride a)\<rparr>);
          m = m\<lparr>mtPtrOut := 0, mtEStrideOut := 0\<rparr>
      in case aout of None \<Rightarrow> m
         | Some a \<Rightarrow> m\<lparr>mtPtrOut := faMallocPtr a, mtEStrideOut := faElementSizeBytes a, mtYStrideOut := ucast (faStride a)\<rparr>)"

definition mtls_ranges :: "bool \<Rightarrow> falloc option \<Rightarrow> falloc option \<Rightarrow> script_call option \<Rightarrow> mtls \<Rightarrow> mtls" where
  "mtls_ranges threadable ain aout sc m =
     (let c = (case sc of None \<Rightarrow> \<lparr>scXStart = 0, scXEnd = 0, scYStart = 0, scYEnd = 0, scZStart = 0, scZEnd = 0\<rparr> | Some c \<Rightarrow> c)
      in case clip_range (mtDimX m) (sc = None) (scXStart c) (scXEnd c) of
           None \<Rightarrow> m\<lparr>mtXStart := rsMin (mtDimX m) (scXStart c), mtXEnd := rsMin (mtDimX m) (scXEnd c)\<rparr>
         | Some (xs, xe) \<Rightarrow> let m = m\<lparr>mtXStart := xs, mtXEnd := xe\<rparr>
      in case clip_range (mtDimY m) (sc = None) (scYStart c) (scYEnd c) of
           None \<Rightarrow> m\<lparr>mtYStart := rsMin (mtDimY m) (scYStart c), mtYEnd := rsMin (mtDimY m) (scYEnd c)\<rparr>
         | Some (ys, ye) \<Rightarrow> let m = m\<lparr>mtYStart := ys, mtYEnd := ye\<rparr>
      in case clip_range (mtDimZ m) (sc = None) (scZStart c) (scZEnd c) of
           None \<Rightarrow> m\<lparr>mtZStart := rsMin (mtDimZ m) (scZStart c), mtZEnd := rsMin (mtDimZ m) (scZEnd c)\<rparr>
         | Some (zs, ze) \<Rightarrow> mtls_finish threadable ain aout (m\<lparr>mtZStart := zs, mtZEnd := ze\<rparr>))"

definition forEachMtlsSetup ::
    "bool \<Rightarrow> falloc option \<Rightarrow> falloc option \<Rightarrow> script_call option \<Rightarrow> setup_error option \<times> mtls" where
  "forEachMtlsSetup threadable ain aout sc =
     (let m = mtls_zero
      in if (\<exists>a\<in>set_option ain. faMallocPtr a = 0) then (Some NullIn, m)
         else if (\<exists>a\<in>set_option aout. faMallocPtr a = 0) then (Some NullOut, m)
         else case (if ain \<noteq> None then ain else aout) of
           None \<Rightarrow> (Some NullAllocations, m)
         | Some a \<Rightarrow> (None, mtls_ranges threadable ain aout sc
             (m\<lparr>mtDimX := faDimX a, mtDimY := faDimY a, mtDimZ := faDimZ a\<rparr>)))"

section \<open>Slices\<close>

text \<open>The range that the slices of a launch divide, as natural numbers.\<close>

definition range_lo :: "wcb \<Rightarrow> mtls \<Rightarrow> nat" where
  "range_lo cb m = unat (case cb of wc_xy \<Rightarrow> mtYStart m | wc_x \<Rightarrow> mtXStart m)"

definition range_hi :: "wcb \<Rightarrow> mtls \<Rightarrow> nat" where
  "range_hi cb m = unat (case cb of wc_xy \<Rightarrow> mtYEnd m | wc_x \<Rightarrow> mtXEnd m)"

text \<open>The position after the slices that were taken, and its largest value with \<open>n\<close> helpers.\<close>

definition slice_pos :: "wcb \<Rightarrow> mtls \<Rightarrow> nat" where
  "slice_pos cb m = range_lo cb m + unat (mtSliceNum m) * unat (mtSliceSize m)"

definition slice_max :: "nat \<Rightarrow> wcb \<Rightarrow> mtls \<Rightarrow> nat" where
  "slice_max n cb m = max (range_lo cb m) (range_hi cb m) + (n + 2) * unat (mtSliceSize m)"

text \<open>A launch whose slice numbers do not overflow: every thread goes past the end at most once.\<close>

definition slices_fit :: "nat \<Rightarrow> wcb \<Rightarrow> mtls \<Rightarrow> bool" where
  "slices_fit n cb m \<longleftrightarrow> 0 < mtSliceSize m \<and> slice_max n cb m < 2 ^ 32"

definition taken :: "wcb \<Rightarrow> mtls \<Rightarrow> nat list" where
  "taken cb m = [range_lo cb m..<min (slice_pos cb m) (range_hi cb m)]"

fun wrem :: "wpc \<Rightarrow> nat list" where
  "wrem WFetch = []"
| "wrem (WRange a b) = [unat a..<unat b]"

fun wrank :: "wpc \<Rightarrow> nat" where
  "wrank WFetch = 0"
| "wrank (WRange a b) = unat b - unat a + 1"

definition cells :: "wcb \<Rightarrow> kcall \<Rightarrow> nat list" where
  "cells cb c = (case cb of wc_xy \<Rightarrow> [unat (kY c)] | wc_x \<Rightarrow> [unat (kX1 c)..<unat (kX2 c)])"

definition call_ok :: "wcb \<Rightarrow> mtls \<Rightarrow> kcall \<Rightarrow> bool" where
  "call_ok cb m c =
     (case cb of wc_xy \<Rightarrow> c = xy_call m (kLid c) (kY c) | wc_x \<Rightarrow> c = x_call m (kLid c) (kX1 c) (kX2 c))"

lemma range_num [simp]:
  "range_lo cb (m\<lparr>mtSliceNum := k\<rparr>) = range_lo cb m" "range_hi cb (m\<lparr>mtSliceNum := k\<rparr>) = range_hi cb m"
  "slice_max n cb (m\<lparr>mtSliceNum := k\<rparr>) = slice_max n cb m" "slices_fit n cb (m\<lparr>mtSliceNum := k\<rparr>) = slices_fit n cb m"
  "call_ok cb (m\<lparr>mtSliceNum := k\<rparr>) = call_ok cb m"
  by (simp_all add: fun_eq_iff range_lo_def range_hi_def slice_max_def slices_fit_def call_ok_def xy_call_def x_call_def split: wcb.split)

lemma unat_add_u32: "unat a + unat b < 2 ^ 32 \<Longrightarrow> unat (a + b :: u32) = unat a + unat b"
  by (rule unat_plus_if_fits) simp

lemma unat_mult_u32: "unat a * unat b < 2 ^ 32 \<Longrightarrow> unat (a * b :: u32) = unat a * unat b"
  by (rule unat_mult_if_fits) simp

text \<open>Taking a slice, without the word arithmetic.\<close>

lemma fetch_slice_nat:
  assumes z: "0 < mtSliceSize m" and fit: "unat lo + unat (mtSliceNum m) * unat (mtSliceSize m) + unat (mtSliceSize m) < 2 ^ 32"
  defines "p \<equiv> unat lo + unat (mtSliceNum m) * unat (mtSliceSize m)"
  obtains k where "unat k = unat (mtSliceNum m) + 1" and
    "unat hi \<le> p \<Longrightarrow> fetch_slice lo hi m = (None, m\<lparr>mtSliceNum := k\<rparr>)" and
    "p < unat hi \<Longrightarrow> \<exists>a b. fetch_slice lo hi m = (Some (WRange a b), m\<lparr>mtSliceNum := k\<rparr>)
      \<and> unat a = p \<and> unat b = min (p + unat (mtSliceSize m)) (unat hi)"
proof -
  let ?z = "unat (mtSliceSize m)" and ?n = "unat (mtSliceNum m)"
  have zpos: "0 < ?z" using z by (simp add: word_gt_0 unat_gt_0)
  have "?n * 1 \<le> ?n * ?z" using zpos by (intro mult_le_mono2) simp
  then have "?n + 1 < 2 ^ 32" using fit zpos by linarith
  then have k: "unat (mtSliceNum m + 1) = ?n + 1" using unat_add_u32[of "mtSliceNum m" 1] by simp
  have s: "unat (lo + mtSliceNum m * mtSliceSize m) = p"
  proof -
    have "unat (mtSliceNum m * mtSliceSize m) = ?n * ?z" using fit by (intro unat_mult_u32) linarith
    then show ?thesis using fit unat_add_u32[of lo "mtSliceNum m * mtSliceSize m"] by (simp add: p_def)
  qed
  have e: "unat (lo + mtSliceNum m * mtSliceSize m + mtSliceSize m) = p + ?z"
    using fit unat_add_u32[of "lo + mtSliceNum m * mtSliceSize m" "mtSliceSize m"] by (simp add: s p_def)
  have mn: "unat (min x y) = min (unat x) (unat y)" for x y :: u32 by (simp add: min_def word_le_nat_alt)
  show thesis
  proof (rule that[of "mtSliceNum m + 1"])
    show "unat (mtSliceNum m + 1) = ?n + 1" by (rule k)
    show "fetch_slice lo hi m = (None, m\<lparr>mtSliceNum := mtSliceNum m + 1\<rparr>)" if "unat hi \<le> p"
      using that s e by (simp add: fetch_slice_def Let_def word_le_nat_alt mn)
    show "\<exists>a b. fetch_slice lo hi m = (Some (WRange a b), m\<lparr>mtSliceNum := mtSliceNum m + 1\<rparr>)
      \<and> unat a = p \<and> unat b = min (p + ?z) (unat hi)" if "p < unat hi"
      using that s e zpos by (simp add: fetch_slice_def Let_def word_le_nat_alt mn)
  qed
qed
text \<open>One step of a worker: what it takes from the range and what it hands to the kernel.\<close>

lemma fetch_spec:
  assumes fit: "slices_fit n cb m" and pos: "slice_pos cb m + unat (mtSliceSize m) \<le> slice_max n cb m"
    and lo: "unat lo = range_lo cb m" and hi: "unat hi = range_hi cb m"
    and st: "fetch_slice lo hi m = (w', m')"
  shows "\<exists>k. m' = m\<lparr>mtSliceNum := k\<rparr> \<and> slice_pos cb m' = slice_pos cb m + unat (mtSliceSize m)
    \<and> (w' = None \<longleftrightarrow> range_hi cb m \<le> slice_pos cb m)
    \<and> mset (case w' of None \<Rightarrow> [] | Some w \<Rightarrow> wrem w) + mset (taken cb m) = mset (taken cb m')
    \<and> (case w' of None \<Rightarrow> 0 | Some w \<Rightarrow> wrank w) \<le> unat (mtSliceSize m) + 1"
proof -
  let ?z = "unat (mtSliceSize m)"
  have z: "0 < mtSliceSize m" using fit by (simp add: slices_fit_def)
  have p: "unat lo + unat (mtSliceNum m) * ?z = slice_pos cb m" by (simp add: slice_pos_def lo)
  have "slice_pos cb m + ?z < 2 ^ 32" using fit pos by (simp add: slices_fit_def)
  then obtain k where k: "unat k = unat (mtSliceNum m) + 1"
    and none: "unat hi \<le> slice_pos cb m \<Longrightarrow> fetch_slice lo hi m = (None, m\<lparr>mtSliceNum := k\<rparr>)"
    and some: "slice_pos cb m < unat hi \<Longrightarrow> \<exists>a b. fetch_slice lo hi m = (Some (WRange a b), m\<lparr>mtSliceNum := k\<rparr>)
      \<and> unat a = slice_pos cb m \<and> unat b = min (slice_pos cb m + ?z) (unat hi)"
    using fetch_slice_nat[OF z, of lo hi] p by metis
  have pos': "slice_pos cb (m\<lparr>mtSliceNum := k\<rparr>) = slice_pos cb m + ?z" by (simp add: slice_pos_def k)
  have lp: "range_lo cb m \<le> slice_pos cb m" by (simp add: slice_pos_def)
  show ?thesis
  proof (cases "unat hi \<le> slice_pos cb m")
    case True
    then have "taken cb (m\<lparr>mtSliceNum := k\<rparr>) = taken cb m" using hi by (simp add: taken_def pos' min_def)
    then show ?thesis using none[OF True] st True hi pos' by auto
  next
    case False
    then obtain a b where ab: "fetch_slice lo hi m = (Some (WRange a b), m\<lparr>mtSliceNum := k\<rparr>)"
      "unat a = slice_pos cb m" "unat b = min (slice_pos cb m + ?z) (unat hi)" using some by auto
    have "[range_lo cb m..<slice_pos cb m] @ [slice_pos cb m..<min (slice_pos cb m + ?z) (range_hi cb m)]
        = [range_lo cb m..<min (slice_pos cb m + ?z) (range_hi cb m)]"
      using lp False hi by (metis le_add_diff_inverse le_add1 min.bounded_iff nat_le_linear upt_add_eq_append)
    then have "taken cb (m\<lparr>mtSliceNum := k\<rparr>) = taken cb m @ wrem (WRange a b)"
      using False hi ab by (simp add: taken_def pos' min_absorb1)
    then show ?thesis using ab st False hi pos' by (auto simp: add.commute)
  qed
qed

definition step_effect :: "nat \<Rightarrow> wcb \<Rightarrow> wpc \<Rightarrow> mtls \<Rightarrow> wpc option \<Rightarrow> mtls \<Rightarrow> kcall list \<Rightarrow> bool" where
  "step_effect n cb w m w' m' calls \<longleftrightarrow>
     (\<exists>k. m' = m\<lparr>mtSliceNum := k\<rparr>) \<and>
     (w' = None \<longrightarrow> range_hi cb m \<le> slice_pos cb m \<and> slice_pos cb m' = slice_pos cb m + unat (mtSliceSize m)) \<and>
     (w' \<noteq> None \<longrightarrow> slice_pos cb m' = slice_pos cb m
       \<or> slice_pos cb m < range_hi cb m \<and> slice_pos cb m' = slice_pos cb m + unat (mtSliceSize m)) \<and>
     mset (concat (map (cells cb) calls)) + mset (case w' of None \<Rightarrow> [] | Some w \<Rightarrow> wrem w) + mset (taken cb m)
       = mset (wrem w) + mset (taken cb m') \<and>
     (case w' of None \<Rightarrow> 0 | Some w \<Rightarrow> wrank w) + 3 * (slice_max n cb m - slice_pos cb m')
       < wrank w + 3 * (slice_max n cb m - slice_pos cb m) \<and>
     list_all (call_ok cb m) calls"

lemma worker_fetch_effect:
  assumes fit: "slices_fit n cb m" and pos: "slice_pos cb m + unat (mtSliceSize m) \<le> slice_max n cb m"
    and st: "worker_step cb idx WFetch m = (w', m', calls)"
  shows "step_effect n cb WFetch m w' m' calls"
proof -
  define lo where "lo = (case cb of wc_xy \<Rightarrow> mtYStart m | wc_x \<Rightarrow> mtXStart m)"
  define hi where "hi = (case cb of wc_xy \<Rightarrow> mtYEnd m | wc_x \<Rightarrow> mtXEnd m)"
  have zpos: "0 < unat (mtSliceSize m)" using fit by (simp add: slices_fit_def word_gt_0 unat_gt_0)
  have f: "fetch_slice lo hi m = (w', m')" "calls = []"
    using st by (auto simp: worker_step_def lo_def hi_def split: wcb.splits prod.splits)
  have "unat lo = range_lo cb m" "unat hi = range_hi cb m" by (simp_all add: lo_def hi_def range_lo_def range_hi_def)
  from fetch_spec[OF fit pos this f(1)] have r: "\<exists>k. m' = m\<lparr>mtSliceNum := k\<rparr>"
    "slice_pos cb m' = slice_pos cb m + unat (mtSliceSize m)" "w' = None \<longleftrightarrow> range_hi cb m \<le> slice_pos cb m"
    "mset (case w' of None \<Rightarrow> [] | Some w \<Rightarrow> wrem w) + mset (taken cb m) = mset (taken cb m')"
    "(case w' of None \<Rightarrow> 0 | Some w \<Rightarrow> wrank w) \<le> unat (mtSliceSize m) + 1" by auto
  have "(case w' of None \<Rightarrow> 0 | Some w \<Rightarrow> wrank w) + 3 * (slice_max n cb m - slice_pos cb m')
      < 3 * (slice_max n cb m - slice_pos cb m)"
    using r(2,5) pos zpos by linarith
  then show ?thesis using r f(2) by (simp add: step_effect_def not_le)
qed

lemma worker_range_effect:
  assumes st: "worker_step cb idx (WRange a b) m = (w', m', calls)"
  shows "step_effect n cb (WRange a b) m w' m' calls"
proof -
  have same: "\<exists>k. m = m\<lparr>mtSliceNum := k\<rparr>" by (rule exI[of _ "mtSliceNum m"]) simp
  show ?thesis
  proof (cases cb)
    case wc_xy
    show ?thesis
    proof (cases "a < b")
      case True
      then have ab: "unat a < unat b" by (simp add: word_less_nat_alt)
      then have "unat a + 1 < 2 ^ 32" using unat_less_exp[of b] by simp
      then have s: "unat (a + 1) = unat a + 1" using unat_add_u32[of a 1] by simp
      have "[unat a..<unat b] = unat a # [unat a + 1..<unat b]" using ab by (simp add: upt_conv_Cons)
      then show ?thesis
        using st wc_xy True ab s same
        by (auto simp: step_effect_def worker_step_def cells_def call_ok_def xy_call_def)
    next
      case False
      then show ?thesis using st wc_xy same by (auto simp: step_effect_def worker_step_def word_less_nat_alt not_less)
    qed
  next
    case wc_x
    then show ?thesis using st same by (auto simp: step_effect_def worker_step_def cells_def call_ok_def x_call_def)
  qed
qed

lemma worker_step_effect:
  assumes "slices_fit n cb m" and "slice_pos cb m + unat (mtSliceSize m) \<le> slice_max n cb m"
    and "worker_step cb idx w m = (w', m', calls)"
  shows "step_effect n cb w m w' m' calls"
  using assms worker_fetch_effect worker_range_effect by (cases w) auto
section \<open>The invariant\<close>

definition working :: "hpc \<Rightarrow> bool" where
  "working p \<longleftrightarrow> (case p of HWork _ \<Rightarrow> True | _ \<Rightarrow> False)"

text \<open>Helpers that still have to decrement \<open>mRunningCount\<close>, and helpers that may still take slices.\<close>

definition pending :: "helper \<Rightarrow> nat" where
  "pending h = (if hSignal h \<or> working (hPc h) \<or> hPc h = HDec then 1 else 0)"

definition unfinished :: "helper \<Rightarrow> nat" where
  "unfinished h = (if hSignal h \<or> working (hPc h) then 1 else 0)"

definition helper_rem :: "helper \<Rightarrow> nat multiset" where
  "helper_rem h = (case hPc h of HWork w \<Rightarrow> mset (wrem w) | _ \<Rightarrow> {#})"

definition over_helpers :: "(helper \<Rightarrow> 'a :: comm_monoid_add) \<Rightarrow> cpu \<Rightarrow> 'a" where
  "over_helpers f s = sum_list (map f (cHelpers s))"

fun to_signal :: "nat \<Rightarrow> mpc \<Rightarrow> nat" where
  "to_signal n (MSignal ct) = n - ct"
| "to_signal n _ = 0"

fun main_unfinished :: "nat \<Rightarrow> mpc \<Rightarrow> nat" where
  "main_unfinished n (MSignal ct) = 1 + (n - ct)"
| "main_unfinished n (MWork _) = 1"
| "main_unfinished n (MFast _) = 1"
| "main_unfinished n _ = 0"

fun main_rem :: "mpc \<Rightarrow> nat multiset" where
  "main_rem (MWork w) = mset (wrem w)"
| "main_rem (MFast w) = mset (wrem w)"
| "main_rem _ = {#}"

definition exiting :: "mpc \<Rightarrow> bool" where
  "exiting p \<longleftrightarrow> (case p of MExitSignal _ \<Rightarrow> True | MJoin \<Rightarrow> True | MGone \<Rightarrow> True | _ \<Rightarrow> False)"

definition alone :: "mpc \<Rightarrow> bool" where
  "alone p \<longleftrightarrow> (case p of MIdle \<Rightarrow> True | MFast _ \<Rightarrow> True | _ \<Rightarrow> False)"

definition helper_ok :: "helper \<Rightarrow> bool" where
  "helper_ok h \<longleftrightarrow> hPc h \<noteq> HGone \<and> (hSignal h \<longrightarrow> \<not> working (hPc h) \<and> hPc h \<noteq> HDec)"

definition inv_count :: "nat \<Rightarrow> cpu \<Rightarrow> bool" where
  "inv_count n s \<longleftrightarrow>
     length (cHelpers s) = n \<and> \<not> cExit s \<and> \<not> exiting (cMain s) \<and> list_all helper_ok (cHelpers s) \<and>
     cRunning s = int (to_signal n (cMain s) + over_helpers pending s) \<and>
     (alone (cMain s) \<longrightarrow> over_helpers pending s = 0) \<and>
     (\<forall>ct. cMain s = MSignal ct \<longrightarrow> ct \<le> n \<and> (\<forall>i. ct \<le> i \<and> i < n \<longrightarrow> pending (cHelpers s ! i) = 0)) \<and>
     (cMain s = MWait \<and> cRunning s = 0 \<longrightarrow> cComplete s \<or> (\<exists>h\<in>set (cHelpers s). hPc h = HSet)) \<and>
     (cCallback s = None \<longrightarrow> cMain s \<in> {MInit, MIdle} \<and> (\<forall>h\<in>set (cHelpers s). \<not> working (hPc h))) \<and>
     (cMain s = MInit \<longrightarrow> cCallback s = None)"

text \<open>The cells of the calls so far and of the slices in work, \<open>R\<close>, are the cells of the slices that were taken; with
  \<open>U\<close> threads that may still take a slice, the position cannot pass its largest value.\<close>

definition work_core :: "nat \<Rightarrow> wcb \<Rightarrow> mtls \<Rightarrow> kcall list \<Rightarrow> nat multiset \<Rightarrow> nat \<Rightarrow> bool" where
  "work_core n cb m log R U \<longleftrightarrow>
     slices_fit n cb m \<and> mset (concat (map (cells cb) log)) + R = mset (taken cb m) \<and>
     slice_pos cb m + unat (mtSliceSize m) * U \<le> slice_max n cb m \<and> list_all (call_ok cb m) log"

definition inv_work :: "nat \<Rightarrow> cpu \<Rightarrow> bool" where
  "inv_work n s \<longleftrightarrow> (\<forall>cb. cCallback s = Some cb \<longrightarrow>
     work_core n cb (cData s) (cLog s) (main_rem (cMain s) + over_helpers helper_rem s)
       (main_unfinished n (cMain s) + over_helpers unfinished s) \<and>
     (cMain s \<in> {MCheck, MWait, MIdle} \<longrightarrow> range_hi cb (cData s) \<le> slice_pos cb (cData s)))"

lemma sum_list_update:
  "i < length xs \<Longrightarrow> f (xs ! i) + sum_list (map f (xs[i := x])) = f x + sum_list (map f xs)"
  for f :: "'b \<Rightarrow> 'a :: comm_monoid_add"
proof (induction xs arbitrary: i)
  case (Cons y xs)
  then show ?case
  proof (cases i)
    case (Suc k)
    then have "f (xs ! k) + sum_list (map f (xs[k := x])) = f x + sum_list (map f xs)" using Cons by simp
    then have "f y + (f (xs ! k) + sum_list (map f (xs[k := x]))) = f y + (f x + sum_list (map f xs))" by simp
    then show ?thesis using Suc by (simp add: add.left_commute)
  qed (simp add: add.left_commute)
qed simp

lemma over_update:
  assumes "cHelpers s' = (cHelpers s)[i := h]" and "i < length (cHelpers s)"
  shows "f (cHelpers s ! i) + over_helpers f s' = f h + over_helpers f s"
  using sum_list_update[OF assms(2), of f h] by (simp add: over_helpers_def assms(1))

lemma over_helpers_0: "over_helpers f s = (0 :: nat) \<longleftrightarrow> (\<forall>h\<in>set (cHelpers s). f h = 0)"
  by (simp add: over_helpers_def)

text \<open>A helper changes its state.\<close>

lemma inv_count_update:
  assumes inv: "inv_count n s" and i: "i < n" and h: "helper_ok h"
    and s': "cHelpers s' = (cHelpers s)[i := h]" "cExit s' = cExit s" "cMain s' = cMain s" "cCallback s' = cCallback s"
    and run: "cRunning s' = cRunning s - int (pending (cHelpers s ! i)) + int (pending h)"
    and le: "pending h \<le> pending (cHelpers s ! i)" and cb: "cCallback s = None \<Longrightarrow> \<not> working (hPc h)"
    and wake: "pending h < pending (cHelpers s ! i) \<Longrightarrow> hPc h = HSet"
      "cComplete s \<or> hPc (cHelpers s ! i) = HSet \<Longrightarrow> cComplete s'"
  shows "inv_count n s'"
proof -
  have len: "length (cHelpers s) = n" using inv by (simp add: inv_count_def)
  have il: "i < length (cHelpers s)" using i len by simp
  have sum: "pending (cHelpers s ! i) + over_helpers pending s' = pending h + over_helpers pending s"
    by (rule over_update[OF s'(1) il])
  have "cComplete s' \<or> (\<exists>h\<in>set (cHelpers s'). hPc h = HSet)" if mw: "cMain s = MWait" and r0: "cRunning s' = 0"
  proof (cases "pending h < pending (cHelpers s ! i)")
    case True
    moreover have "h \<in> set (cHelpers s')" using il by (simp add: s'(1) set_update_memI)
    ultimately show ?thesis using wake(1) by blast
  next
    case False
    then have "cRunning s = 0" using run le r0 by simp
    then consider "cComplete s" | g where "g \<in> set (cHelpers s)" "hPc g = HSet" using inv mw by (auto simp: inv_count_def)
    then show ?thesis
    proof cases
      case 2
      then obtain j where j: "j < n" "cHelpers s ! j = g" using len by (metis in_set_conv_nth)
      show ?thesis
      proof (cases "j = i")
        case False
        then have "g \<in> set (cHelpers s')" using j il len
          by (metis length_list_update nth_list_update_neq nth_mem s'(1))
        then show ?thesis using 2 by blast
      qed (use wake(2) 2 j in auto)
    qed (use wake(2) in auto)
  qed
  moreover have "list_all helper_ok (cHelpers s')"
    using inv h set_update_subset_insert[of "cHelpers s" i h] by (auto simp: inv_count_def s'(1) list_all_iff)
  moreover have "ct \<le> n \<and> (\<forall>j. ct \<le> j \<and> j < n \<longrightarrow> pending (cHelpers s' ! j) = 0)" if "cMain s = MSignal ct" for ct
  proof -
    have "pending (cHelpers s' ! j) \<le> pending (cHelpers s ! j)" for j
      using le il by (cases "j = i") (simp_all add: s'(1))
    then show ?thesis using inv that unfolding inv_count_def by (metis le_zero_eq)
  qed
  moreover have "\<forall>g\<in>set (cHelpers s'). \<not> working (hPc g)" if "cCallback s = None"
    using inv cb that set_update_subset_insert[of "cHelpers s" i h] by (auto simp: inv_count_def s'(1))
  moreover have "cRunning s' = int (to_signal n (cMain s) + over_helpers pending s')"
    using inv run sum by (auto simp: inv_count_def)
  moreover have "over_helpers pending s' = 0" if "alone (cMain s)"
    using inv sum le that by (auto simp: inv_count_def)
  ultimately show ?thesis
    using inv unfolding inv_count_def s'(2,3,4) by (simp add: s'(1))
qed
lemma work_core_step:
  assumes core: "work_core n cb m log (R + mset (wrem w)) (Suc U)" and U: "U \<le> n"
    and st: "worker_step cb idx w m = (w', m', calls)"
  shows "work_core n cb m' (log @ calls) (R + mset (case w' of None \<Rightarrow> [] | Some w \<Rightarrow> wrem w))
      (case w' of None \<Rightarrow> U | Some _ \<Rightarrow> Suc U)"
    and "w' = None \<Longrightarrow> range_hi cb m' \<le> slice_pos cb m'" and "slice_pos cb m \<le> slice_pos cb m'"
    and "step_effect n cb w m w' m' calls"
proof -
  have fit: "slices_fit n cb m" and sum: "mset (concat (map (cells cb) log)) + (R + mset (wrem w)) = mset (taken cb m)"
    and pos: "slice_pos cb m + (unat (mtSliceSize m) + unat (mtSliceSize m) * U) \<le> slice_max n cb m"
    and ok: "list_all (call_ok cb m) log"
    using core by (simp_all add: work_core_def)
  show eff: "step_effect n cb w m w' m' calls"
    by (rule worker_step_effect[OF fit _ st]) (use pos in linarith)
  have okc: "list_all (call_ok cb m) calls" using eff by (simp add: step_effect_def)
  obtain k where m': "m' = m\<lparr>mtSliceNum := k\<rparr>" using eff by (auto simp: step_effect_def)
  have "mset (concat (map (cells cb) log)) + (R + mset (wrem w)) + (mset (concat (map (cells cb) calls))
      + mset (case w' of None \<Rightarrow> [] | Some w \<Rightarrow> wrem w)) = mset (wrem w) + mset (taken cb m')"
    using eff unfolding sum by (simp add: step_effect_def ac_simps)
  then have "mset (concat (map (cells cb) (log @ calls))) + (R + mset (case w' of None \<Rightarrow> [] | Some w \<Rightarrow> wrem w))
      = mset (taken cb m')"
    by (simp add: ac_simps)
  moreover have "slice_pos cb m' + unat (mtSliceSize m) * (case w' of None \<Rightarrow> U | Some _ \<Rightarrow> Suc U) \<le> slice_max n cb m"
  proof (cases w')
    case None
    then show ?thesis using eff pos by (simp add: step_effect_def)
  next
    case (Some v)
    have "unat (mtSliceSize m) * U \<le> unat (mtSliceSize m) * n" using U by simp
    moreover have "slice_max n cb m = max (range_lo cb m) (range_hi cb m) + unat (mtSliceSize m) * n + 2 * unat (mtSliceSize m)"
      by (simp add: slice_max_def algebra_simps)
    ultimately have "slice_pos cb m < range_hi cb m \<Longrightarrow>
        slice_pos cb m + unat (mtSliceSize m) + (unat (mtSliceSize m) + unat (mtSliceSize m) * U) \<le> slice_max n cb m"
      by linarith
    then show ?thesis using Some eff pos by (auto simp: step_effect_def)
  qed
  ultimately show "work_core n cb m' (log @ calls) (R + mset (case w' of None \<Rightarrow> [] | Some w \<Rightarrow> wrem w))
      (case w' of None \<Rightarrow> U | Some _ \<Rightarrow> Suc U)"
    using fit ok okc by (simp add: work_core_def m')
  show "w' = None \<Longrightarrow> range_hi cb m' \<le> slice_pos cb m'" and "slice_pos cb m \<le> slice_pos cb m'"
    using eff by (auto simp: step_effect_def m')
qed

lemma unfinished_le: "unfinished h \<le> pending h" and pending_le: "pending h \<le> 1"
  by (simp_all add: unfinished_def pending_def)

lemma over_le: "(\<And>h. f h \<le> g h) \<Longrightarrow> over_helpers f s \<le> (over_helpers g s :: nat)"
  unfolding over_helpers_def by (rule sum_list_mono)

lemma sum_list_prefix:
  "(\<And>x. f x \<le> 1) \<Longrightarrow> (\<And>j. k \<le> j \<Longrightarrow> j < length xs \<Longrightarrow> f (xs ! j) = 0) \<Longrightarrow> sum_list (map f xs) \<le> (k :: nat)"
proof (induction xs arbitrary: k)
  case (Cons x xs)
  show ?case
  proof (cases k)
    case 0
    then have "\<forall>y\<in>set (x # xs). f y = 0" using Cons.prems(2) by (metis in_set_conv_nth le0)
    then show ?thesis using 0 by simp
  next
    case (Suc k')
    have "sum_list (map f xs) \<le> k'"
    proof (rule Cons.IH[OF Cons.prems(1)])
      fix j
      assume "k' \<le> j" "j < length xs"
      then show "f (xs ! j) = 0" using Cons.prems(2)[of "Suc j"] Suc by simp
    qed
    then show ?thesis using Suc Cons.prems(1)[of x] by simp
  qed
qed simp

lemma unfinished_bound: "inv_count n s \<Longrightarrow> main_unfinished n (cMain s) + over_helpers unfinished s \<le> n + 1"
proof -
  assume inv: "inv_count n s"
  have p: "over_helpers unfinished s \<le> over_helpers pending s" by (rule over_le) (rule unfinished_le)
  have "over_helpers pending s \<le> n"
    unfolding over_helpers_def by (rule sum_list_prefix[OF pending_le]) (use inv in \<open>simp add: inv_count_def\<close>)
  moreover have "over_helpers pending s \<le> ct" if "cMain s = MSignal ct" for ct
    unfolding over_helpers_def by (rule sum_list_prefix[OF pending_le]) (use inv that in \<open>simp add: inv_count_def\<close>)
  moreover have "ct \<le> n" if "cMain s = MSignal ct" for ct using inv that by (auto simp: inv_count_def)
  moreover have "over_helpers pending s = 0" if "cMain s = MFast w" for w
    using inv that by (auto simp: inv_count_def alone_def)
  ultimately show ?thesis using p by (cases "cMain s") fastforce+
qed
section \<open>Every step keeps the invariant and comes closer to the end\<close>

definition helper_rank :: "helper \<Rightarrow> nat" where
  "helper_rank h =
     (case hPc h of HWork _ \<Rightarrow> 5 | HDec \<Rightarrow> 4 | HSet \<Rightarrow> 3 | HTop \<Rightarrow> 2 | HWait \<Rightarrow> 1 | HGone \<Rightarrow> 0) + (if hSignal h then 5 else 0)"

definition helper_wrank :: "helper \<Rightarrow> nat" where
  "helper_wrank h = (case hPc h of HWork w \<Rightarrow> wrank w | _ \<Rightarrow> 0)"

fun main_rank :: "nat \<Rightarrow> mpc \<Rightarrow> nat" where
  "main_rank n (MSignal ct) = (n - ct) * 16 + 4"
| "main_rank n (MWork _) = 3"
| "main_rank n (MFast _) = 3"
| "main_rank n MCheck = 2"
| "main_rank n MWait = 1"
| "main_rank n MInit = 1"
| "main_rank n _ = 0"

fun main_wrank :: "mpc \<Rightarrow> nat" where
  "main_wrank (MWork w) = wrank w"
| "main_wrank (MFast w) = wrank w"
| "main_wrank _ = 0"

text \<open>An upper bound for the number of steps that are left.\<close>

definition steps_left :: "nat \<Rightarrow> cpu \<Rightarrow> nat" where
  "steps_left n s =
     3 * over_helpers helper_rank s + (if cComplete s then 2 else 0) + main_rank n (cMain s) +
     (case cCallback s of None \<Rightarrow> 0
      | Some cb \<Rightarrow> main_wrank (cMain s) + over_helpers helper_wrank s + 3 * (slice_max n cb (cData s) - slice_pos cb (cData s)))"

definition cpu_inv :: "nat \<Rightarrow> cpu \<Rightarrow> bool" where
  "cpu_inv n s \<longleftrightarrow> inv_count n s \<and> inv_work n s"

lemmas inv_work_defs = inv_work_def work_core_def

text \<open>Steps of a helper outside the callback.\<close>

lemma inv_work_update:
  assumes inv: "inv_work n s" and i: "i < length (cHelpers s)"
    and s': "cHelpers s' = (cHelpers s)[i := h]" "cMain s' = cMain s" "cCallback s' = cCallback s" "cData s' = cData s"
      "cLog s' = cLog s"
    and le: "unfinished h \<le> unfinished (cHelpers s ! i)" and rem: "helper_rem h = helper_rem (cHelpers s ! i)"
  shows "inv_work n s'"
proof -
  have "over_helpers unfinished s' \<le> over_helpers unfinished s" using over_update[OF s'(1) i, of unfinished] le by linarith
  then have mono: "p + z * (u + over_helpers unfinished s) \<le> k \<Longrightarrow> p + z * (u + over_helpers unfinished s') \<le> k" for p z u k :: nat
    by (meson add_le_mono le_refl le_trans mult_le_mono)
  have rem': "over_helpers helper_rem s' = over_helpers helper_rem s"
    using over_update[OF s'(1) i, of helper_rem] rem by simp
  show ?thesis using inv unfolding inv_work_defs s'(2-5) rem' by (auto intro: mono)
qed

lemma steps_left_update:
  assumes i: "i < length (cHelpers s)"
    and s': "cHelpers s' = (cHelpers s)[i := h]" "cMain s' = cMain s" "cCallback s' = cCallback s" "cData s' = cData s"
    and lt: "helper_rank h < helper_rank (cHelpers s ! i)" and w: "helper_wrank h = helper_wrank (cHelpers s ! i)"
  shows "steps_left n s' < steps_left n s"
proof -
  have "over_helpers helper_rank s' < over_helpers helper_rank s" using over_update[OF s'(1) i, of helper_rank] lt by linarith
  moreover have "over_helpers helper_wrank s' = over_helpers helper_wrank s"
    using over_update[OF s'(1) i, of helper_wrank] w by simp
  ultimately show ?thesis by (simp add: steps_left_def s' split: option.split)
qed

lemma cpu_inv_update:
  assumes inv: "cpu_inv n s" and i: "i < n" and ok: "helper_ok h"
    and s': "s' = s\<lparr>cRunning := r, cComplete := c, cHelpers := (cHelpers s)[i := h]\<rparr>"
    and run: "r = cRunning s - int (pending (cHelpers s ! i)) + int (pending h)"
    and le: "pending h \<le> pending (cHelpers s ! i)" "unfinished h \<le> unfinished (cHelpers s ! i)"
    and cb: "cCallback s = None \<Longrightarrow> \<not> working (hPc h)"
    and wake: "pending h < pending (cHelpers s ! i) \<Longrightarrow> hPc h = HSet" "cComplete s \<or> hPc (cHelpers s ! i) = HSet \<Longrightarrow> c"
    and rem: "helper_rem h = helper_rem (cHelpers s ! i)" "helper_wrank h = helper_wrank (cHelpers s ! i)"
    and lt: "helper_rank h < helper_rank (cHelpers s ! i)"
  shows "cpu_inv n s' \<and> steps_left n s' < steps_left n s"
proof -
  have il: "i < length (cHelpers s)" using inv i by (simp add: cpu_inv_def inv_count_def)
  have "inv_count n s'" using inv i ok run le cb wake by (intro inv_count_update[of n s i h s']) (auto simp: cpu_inv_def s')
  moreover have "inv_work n s'" using inv il le rem by (intro inv_work_update[of n s i s' h]) (auto simp: cpu_inv_def s')
  moreover have "steps_left n s' < steps_left n s" using il lt rem by (intro steps_left_update[of i s s' h]) (auto simp: s')
  ultimately show ?thesis by (simp add: cpu_inv_def)
qed
definition gone :: helper where
  "gone = \<lparr>hPc = HGone, hSignal = False\<rparr>"

lemma gone_0 [simp]: "pending gone = 0" "unfinished gone = 0" "helper_rem gone = {#}" "helper_rank gone = 0" "helper_wrank gone = 0"
  by (simp_all add: gone_def pending_def unfinished_def helper_rem_def helper_rank_def helper_wrank_def working_def)

text \<open>The sum over the helpers other than \<open>i\<close>.\<close>

definition over_others :: "nat \<Rightarrow> (helper \<Rightarrow> 'a :: comm_monoid_add) \<Rightarrow> cpu \<Rightarrow> 'a" where
  "over_others i f s = over_helpers f (s\<lparr>cHelpers := (cHelpers s)[i := gone]\<rparr>)"

lemma over_split:
  "i < length (cHelpers s) \<Longrightarrow> f gone = 0 \<Longrightarrow> over_helpers f s = f (cHelpers s ! i) + over_others i f s"
  using over_update[of "s\<lparr>cHelpers := (cHelpers s)[i := gone]\<rparr>" s i gone f] by (simp add: over_others_def)

lemma over_others_update:
  "cHelpers s' = (cHelpers s)[i := h] \<Longrightarrow> over_others i f s' = over_others i f s"
  by (simp add: over_others_def over_helpers_def)

lemma helper_work:
  assumes inv: "cpu_inv n s" and i: "i < n" and pc: "hPc (cHelpers s ! i) = HWork w" and st: "helper_step b i s = Some s'"
  shows "cpu_inv n s' \<and> steps_left n s' < steps_left n s"
proof -
  have len: "length (cHelpers s) = n" using inv by (simp add: cpu_inv_def inv_count_def)
  then have il: "i < length (cHelpers s)" using i by simp
  have work: "working (hPc (cHelpers s ! i))" by (simp add: pc working_def)
  then obtain cb where cb: "cCallback s = Some cb"
    using inv i len by (cases "cCallback s") (auto simp: cpu_inv_def inv_count_def)
  obtain w' m' calls where ws: "worker_step cb (of_nat i + 1) w (cData s) = (w', m', calls)" by (cases "worker_step cb (of_nat i + 1) w (cData s)")
  define h where "h = (cHelpers s ! i)\<lparr>hPc := (case w' of None \<Rightarrow> HDec | Some w \<Rightarrow> HWork w)\<rparr>"
  have s': "s' = s\<lparr>cData := m', cLog := cLog s @ calls, cHelpers := (cHelpers s)[i := h]\<rparr>"
    using st by (simp add: helper_step_def pc run_worker_def cb ws h_def Let_def)
  have sig: "\<not> hSignal (cHelpers s ! i)" using inv work il by (auto simp: cpu_inv_def inv_count_def helper_ok_def list_all_length)
  have p: "pending (cHelpers s ! i) = 1" "unfinished (cHelpers s ! i) = 1" "helper_rem (cHelpers s ! i) = mset (wrem w)"
    "helper_rank (cHelpers s ! i) = 5" "helper_wrank (cHelpers s ! i) = wrank w"
    using work sig by (simp_all add: pending_def unfinished_def helper_rem_def helper_rank_def helper_wrank_def pc)
  have p': "pending h = 1" "unfinished h = (case w' of None \<Rightarrow> 0 | Some _ \<Rightarrow> 1)"
    "helper_rem h = mset (case w' of None \<Rightarrow> [] | Some w \<Rightarrow> wrem w)"
    "helper_rank h \<le> 5" "helper_wrank h = (case w' of None \<Rightarrow> 0 | Some w \<Rightarrow> wrank w)" "helper_ok h"
    using sig by (simp_all add: h_def pending_def unfinished_def helper_rem_def helper_rank_def helper_wrank_def
      helper_ok_def working_def split: option.split)
  let ?R = "main_rem (cMain s) + over_others i helper_rem s" and ?U = "main_unfinished n (cMain s) + over_others i unfinished s"
  have o: "over_helpers f s = f (cHelpers s ! i) + over_others i f s" "over_helpers f s' = f h + over_others i f s"
    if "f gone = 0" for f :: "helper \<Rightarrow> 'a :: comm_monoid_add"
    using over_split[of i s f, OF il that] over_split[of i s' f] that il over_others_update[of s' s i h f] by (simp_all add: s')
  have core: "work_core n cb (cData s) (cLog s) (?R + mset (wrem w)) (Suc ?U)"
    using inv cb by (simp add: cpu_inv_def inv_work_def o p ac_simps)
  have "Suc ?U \<le> n + 1" using unfinished_bound[of n s] inv by (simp add: cpu_inv_def o p)
  then have U: "?U \<le> n" by simp
  note step = work_core_step[OF core U ws]
  have eq: "range_hi cb m' = range_hi cb (cData s)" "slice_max n cb m' = slice_max n cb (cData s)"
    using step(4) by (auto simp: step_effect_def)
  have "work_core n cb m' (cLog s @ calls) (main_rem (cMain s) + over_helpers helper_rem s')
      (main_unfinished n (cMain s) + over_helpers unfinished s')"
    using step(1) by (cases w') (simp_all add: o p' ac_simps)
  then have "inv_work n s'"
    using inv cb step(3) eq by (auto simp: cpu_inv_def inv_work_def s')
  moreover have "inv_count n s'"
    using inv i p p' cb by (intro inv_count_update[of n s i h s']) (auto simp: cpu_inv_def s' pc)
  moreover have "steps_left n s' < steps_left n s"
  proof -
    have "over_helpers helper_rank s' \<le> over_helpers helper_rank s" using p(4) p'(4) by (simp add: o)
    moreover have "over_helpers helper_wrank s' + wrank w = helper_wrank h + over_helpers helper_wrank s"
      by (simp add: o p)
    moreover have "helper_wrank h + 3 * (slice_max n cb (cData s) - slice_pos cb m')
        < wrank w + 3 * (slice_max n cb (cData s) - slice_pos cb (cData s))"
      using step(4) p'(5) by (simp add: step_effect_def)
    moreover have "cComplete s' = cComplete s" "cMain s' = cMain s" "cCallback s' = Some cb" "cData s' = m'"
      by (simp_all add: s' cb)
    ultimately show ?thesis by (simp add: steps_left_def cb eq)
  qed
  ultimately show ?thesis by (simp add: cpu_inv_def)
qed

lemmas helper_defs = helper_ok_def pending_def unfinished_def helper_rem_def helper_rank_def helper_wrank_def working_def

lemma helper_step_inv:
  assumes inv: "cpu_inv n s" and i: "i < n" and st: "helper_step False i s = Some s'"
  shows "cpu_inv n s' \<and> steps_left n s' < steps_left n s"
proof (cases "hPc (cHelpers s ! i)")
  case (HWork w)
  then show ?thesis using helper_work[OF inv i _ st] by blast
next
  case HGone
  then show ?thesis using st by (simp add: helper_step_def)
next
  case HTop
  let ?h = "(cHelpers s ! i)\<lparr>hPc := HWait\<rparr>"
  have "\<not> cExit s" using inv by (simp add: cpu_inv_def inv_count_def)
  then have eq: "s' = s\<lparr>cRunning := cRunning s, cComplete := cComplete s, cHelpers := (cHelpers s)[i := ?h]\<rparr>"
    using st HTop by (simp add: helper_step_def Let_def)
  show ?thesis
    by (rule cpu_inv_update[OF inv i _ eq]) (use HTop in \<open>auto simp: helper_defs\<close>)
next
  case HWait
  let ?h = "(cHelpers s ! i)\<lparr>hSignal := False, hPc := (if cCallback s = None then HDec else HWork WFetch)\<rparr>"
  have sig: "hSignal (cHelpers s ! i)" using st HWait by (auto simp: helper_step_def Signal_wait_def Let_def split: if_splits)
  then have eq: "s' = s\<lparr>cRunning := cRunning s, cComplete := cComplete s, cHelpers := (cHelpers s)[i := ?h]\<rparr>"
    using st HWait by (auto simp: helper_step_def Let_def Signal_wait_def)
  show ?thesis
    by (rule cpu_inv_update[OF inv i _ eq]) (use HWait sig in \<open>auto simp: helper_defs split: if_splits\<close>)
next
  case HDec
  let ?h = "(cHelpers s ! i)\<lparr>hPc := HSet\<rparr>"
  have "helper_ok (cHelpers s ! i)" using inv i by (simp add: cpu_inv_def inv_count_def list_all_length)
  then have sig: "\<not> hSignal (cHelpers s ! i)" using HDec by (simp add: helper_ok_def)
  have eq: "s' = s\<lparr>cRunning := cRunning s - 1, cComplete := cComplete s, cHelpers := (cHelpers s)[i := ?h]\<rparr>"
    using st HDec by (simp add: helper_step_def Let_def)
  show ?thesis
    by (rule cpu_inv_update[OF inv i _ eq]) (use HDec sig in \<open>auto simp: helper_defs\<close>)
next
  case HSet
  let ?h = "(cHelpers s ! i)\<lparr>hPc := HTop\<rparr>"
  have eq: "s' = s\<lparr>cRunning := cRunning s, cComplete := True, cHelpers := (cHelpers s)[i := ?h]\<rparr>"
    using st HSet by (simp add: helper_step_def Let_def Signal_set_def)
  show ?thesis
    by (rule cpu_inv_update[OF inv i _ eq]) (use HSet in \<open>auto simp: helper_defs\<close>)
qed

text \<open>The calling thread as a worker; \<open>back\<close> is where it goes when it runs out of slices.\<close>

lemma main_work:
  assumes inv: "cpu_inv n s" and pc: "(cMain s = MWork w \<and> work = MWork \<and> back = MCheck) \<or> (cMain s = MFast w \<and> work = MFast \<and> back = MIdle)"
    and st: "run_worker 0 w s = (w', t)" and s': "s' = t\<lparr>cMain := (case w' of None \<Rightarrow> back | Some w \<Rightarrow> work w)\<rparr>"
  shows "cpu_inv n s' \<and> steps_left n s' < steps_left n s"
proof -
  obtain cb where cb: "cCallback s = Some cb" using inv pc by (cases "cCallback s") (auto simp: cpu_inv_def inv_count_def)
  obtain m' calls where ws: "worker_step cb 0 w (cData s) = (w', m', calls)" and t: "t = s\<lparr>cData := m', cLog := cLog s @ calls\<rparr>"
    using st by (auto simp: run_worker_def cb split: prod.splits)
  define p where "p = (case w' of None \<Rightarrow> back | Some w \<Rightarrow> work w)"
  have s'': "s' = s\<lparr>cData := m', cLog := cLog s @ calls, cMain := p\<rparr>" using s' t by (simp add: p_def)
  have f: "over_helpers f s' = over_helpers f s" for f :: "helper \<Rightarrow> 'a :: comm_monoid_add"
    by (simp add: over_helpers_def s'')
  let ?U = "over_helpers unfinished s"
  have core: "work_core n cb (cData s) (cLog s) (over_helpers helper_rem s + mset (wrem w)) (Suc ?U)"
    using inv cb pc by (auto simp: cpu_inv_def inv_work_def ac_simps)
  have U: "?U \<le> n" using unfinished_bound[of n s] inv pc by (auto simp: cpu_inv_def)
  note step = work_core_step[OF core U ws]
  have eq: "slice_max n cb m' = slice_max n cb (cData s)" using step(4) by (auto simp: step_effect_def)
  have "inv_work n s'"
    using step(1,2) cb pc by (cases w') (auto simp: inv_work_def s'' p_def f ac_simps over_helpers_def)
  moreover have "inv_count n s'"
    using inv pc cb by (cases w') (auto simp: cpu_inv_def inv_count_def s'' p_def over_helpers_def exiting_def alone_def)
  moreover have "steps_left n s' < steps_left n s"
  proof -
    have "(case w' of None \<Rightarrow> 0 | Some w \<Rightarrow> wrank w) + 3 * (slice_max n cb (cData s) - slice_pos cb m')
        < wrank w + 3 * (slice_max n cb (cData s) - slice_pos cb (cData s))"
      using step(4) by (simp add: step_effect_def)
    moreover have "main_wrank p = (case w' of None \<Rightarrow> 0 | Some w \<Rightarrow> wrank w)" "main_rank n p \<le> main_rank n (cMain s)"
      "main_wrank (cMain s) = wrank w"
      using pc by (auto simp: p_def split: option.split)
    ultimately show ?thesis by (simp add: steps_left_def s'' cb eq over_helpers_def)
  qed
  ultimately show ?thesis by (simp add: cpu_inv_def)
qed
lemma main_signal:
  assumes inv: "cpu_inv n s" and pc: "cMain s = MSignal ct" and ct: "ct < n"
    and s': "s' = (set_launch_signal ct s)\<lparr>cMain := MSignal (ct + 1)\<rparr>"
  shows "cpu_inv n s' \<and> steps_left n s' < steps_left n s"
proof -
  let ?g = "cHelpers s ! ct" and ?h = "(cHelpers s ! ct)\<lparr>hSignal := True\<rparr>"
  have len: "length (cHelpers s) = n" using inv by (simp add: cpu_inv_def inv_count_def)
  then have il: "ct < length (cHelpers s)" using ct by simp
  have s'': "s' = s\<lparr>cHelpers := (cHelpers s)[ct := ?h], cMain := MSignal (ct + 1)\<rparr>"
    by (simp add: s' set_launch_signal_def Signal_set_def)
  obtain cb where cb: "cCallback s = Some cb" using inv pc by (cases "cCallback s") (auto simp: cpu_inv_def inv_count_def)
  have p: "pending ?g = 0" using inv pc ct by (auto simp: cpu_inv_def inv_count_def)
  have gok: "helper_ok ?g" using inv il by (simp add: cpu_inv_def inv_count_def list_all_length)
  have h: "helper_ok ?h" "pending ?h = 1" "unfinished ?g = 0" "unfinished ?h = 1" "helper_rem ?h = helper_rem ?g"
    "helper_rank ?h = helper_rank ?g + 5" "helper_wrank ?h = helper_wrank ?g"
    using p gok by (auto simp: helper_defs split: if_splits)
  have up: "cHelpers s' = (cHelpers s)[ct := ?h]" by (simp add: s'')
  have o: "over_helpers pending s' = Suc (over_helpers pending s)" "over_helpers unfinished s' = Suc (over_helpers unfinished s)"
    "over_helpers helper_rank s' = over_helpers helper_rank s + 5"
    "over_helpers helper_wrank s' = over_helpers helper_wrank s" "over_helpers helper_rem s' = over_helpers helper_rem s"
    using over_update[OF up il, of pending] over_update[OF up il, of unfinished] over_update[OF up il, of helper_rank]
      over_update[OF up il, of helper_wrank] over_update[OF up il, of helper_rem] p h by auto
  have "list_all helper_ok (cHelpers s')"
    using inv h(1) set_update_subset_insert[of "cHelpers s" ct ?h] by (auto simp: cpu_inv_def inv_count_def s'' list_all_iff)
  moreover have "\<forall>i. ct + 1 \<le> i \<and> i < n \<longrightarrow> pending (cHelpers s' ! i) = 0"
    using inv pc by (auto simp: cpu_inv_def inv_count_def s'')
  ultimately have "inv_count n s'"
    using inv pc ct o(1) cb by (auto simp: cpu_inv_def inv_count_def s'' exiting_def alone_def)
  moreover have "inv_work n s'"
    using inv pc ct o cb by (simp add: cpu_inv_def inv_work_def s'' Suc_diff_Suc)
  moreover have "steps_left n s' < steps_left n s"
  proof -
    have "n - ct = Suc (n - Suc ct)" using ct by simp
    then show ?thesis using pc o cb by (simp add: steps_left_def s'')
  qed
  ultimately show ?thesis by (simp add: cpu_inv_def)
qed

text \<open>Steps of the calling thread that only move its program counter.\<close>

lemma main_move:
  assumes inv: "cpu_inv n s" and s': "s' = s\<lparr>cComplete := c, cMain := p\<rparr>"
    and count: "to_signal n p = to_signal n (cMain s)" "alone p \<Longrightarrow> over_helpers pending s = 0"
      "p = MWait \<Longrightarrow> cRunning s \<noteq> 0" "\<not> exiting p" "p \<noteq> MInit" "\<And>ct. p \<noteq> MSignal ct"
      "cCallback s = None \<Longrightarrow> p \<in> {MInit, MIdle}"
    and work: "main_rem p = main_rem (cMain s)" "main_unfinished n p = main_unfinished n (cMain s)"
      "main_wrank p = main_wrank (cMain s)" "p \<in> {MCheck, MWait, MIdle} \<Longrightarrow> cCallback s \<noteq> None \<Longrightarrow> cMain s \<in> {MCheck, MWait, MIdle}"
    and lt: "(if c then 2 else 0) + main_rank n p < (if cComplete s then 2 else 0) + main_rank n (cMain s)"
  shows "cpu_inv n s' \<and> steps_left n s' < steps_left n s"
proof -
  have o: "over_helpers f s' = over_helpers f s" for f :: "helper \<Rightarrow> 'a :: comm_monoid_add"
    by (simp add: over_helpers_def s')
  have "inv_count n s'" using inv count by (auto simp: cpu_inv_def inv_count_def s' over_helpers_def)
  moreover have "inv_work n s'" using inv work unfolding cpu_inv_def inv_work_def o by (auto simp: s')
  moreover have "steps_left n s' < steps_left n s" 
    using lt work(3) by (cases "cCallback s") (simp_all add: steps_left_def s' over_helpers_def)
  ultimately show ?thesis by (simp add: cpu_inv_def)
qed
lemma main_step_inv:
  assumes inv: "cpu_inv n s" and st: "main_step False s = Some s'"
  shows "cpu_inv n s' \<and> steps_left n s' < steps_left n s"
proof -
  have len: "length (cHelpers s) = n" and run: "cRunning s = int (to_signal n (cMain s) + over_helpers pending s)"
    and ex: "\<not> exiting (cMain s)" and cb: "cCallback s = None \<Longrightarrow> cMain s \<in> {MInit, MIdle}"
    using inv by (simp_all add: cpu_inv_def inv_count_def)
  show ?thesis
  proof (cases "cMain s")
    case MInit
    have "cRunning s = 0" and eq: "s' = s\<lparr>cComplete := cComplete s, cMain := MIdle\<rparr>"
      using st MInit by (auto simp: main_step_def split: if_splits)
    moreover have "cCallback s = None" using inv MInit by (simp add: cpu_inv_def inv_count_def)
    ultimately show ?thesis by (intro main_move[OF inv eq]) (use MInit run in \<open>auto simp: alone_def exiting_def\<close>)
  next
    case (MSignal ct)
    show ?thesis
    proof (cases "ct < n")
      case True
      then show ?thesis using main_signal[OF inv MSignal True] st MSignal len by (simp add: main_step_def)
    next
      case False
      have "ct \<le> n" using inv MSignal by (auto simp: cpu_inv_def inv_count_def)
      then have "ct = n" using False by simp
      moreover have eq: "s' = s\<lparr>cComplete := cComplete s, cMain := MWork WFetch\<rparr>"
        using st MSignal False len by (simp add: main_step_def)
      ultimately show ?thesis by (intro main_move[OF inv eq]) (use MSignal cb in \<open>auto simp: alone_def exiting_def\<close>)
    qed
  next
    case (MWork w)
    obtain w' t where r: "run_worker 0 w s = (w', t)" by fastforce
    show ?thesis by (rule main_work[OF inv _ r, of MWork MCheck]) (use MWork st r in \<open>auto simp: main_step_def\<close>)
  next
    case (MFast w)
    obtain w' t where r: "run_worker 0 w s = (w', t)" by fastforce
    show ?thesis by (rule main_work[OF inv _ r, of MFast MIdle]) (use MFast st r in \<open>auto simp: main_step_def\<close>)
  next
    case MCheck
    show ?thesis
    proof (cases "cRunning s = 0")
      case True
      then have eq: "s' = s\<lparr>cComplete := cComplete s, cMain := MIdle\<rparr>" using st MCheck by (simp add: main_step_def)
      show ?thesis by (rule main_move[OF inv eq]) (use MCheck True run cb in \<open>auto simp: alone_def exiting_def\<close>)
    next
      case False
      then have eq: "s' = s\<lparr>cComplete := cComplete s, cMain := MWait\<rparr>" using st MCheck by (simp add: main_step_def)
      show ?thesis by (rule main_move[OF inv eq]) (use MCheck False cb in \<open>auto simp: alone_def exiting_def\<close>)
    qed
  next
    case MWait
    then have eq: "s' = s\<lparr>cComplete := False, cMain := MCheck\<rparr>" and "cComplete s"
      using st by (auto simp: main_step_def Signal_wait_def split: if_splits)
    then show ?thesis by (intro main_move[OF inv eq]) (use MWait cb in \<open>auto simp: alone_def exiting_def\<close>)
  qed (use st ex in \<open>auto simp: main_step_def exiting_def\<close>)
qed

section \<open>Reachable states\<close>

text \<open>The states of a context with \<open>n\<close> helpers: from \<open>init\<close>, by steps of the threads and by calls of \<open>launchThreads\<close> whose
  slices fit.\<close>

inductive creach :: "bool \<Rightarrow> nat \<Rightarrow> cpu \<Rightarrow> bool" for sp n where
  init: "creach sp n (cpu_init n)"
| step: "creach sp n s \<Longrightarrow> cstep sp s s' \<Longrightarrow> creach sp n s'"
| launch: "creach sp n s \<Longrightarrow> cMain s = MIdle \<Longrightarrow> slices_fit n cb m \<Longrightarrow> mtSliceNum m = 0
    \<Longrightarrow> creach sp n (launch_begin cb m s)"

lemma over_helpers_replicate: "over_helpers f (s\<lparr>cHelpers := replicate n h\<rparr>) = n * (f h :: nat)"
  by (simp add: over_helpers_def sum_list_replicate)

lemma cpu_inv_init: "cpu_inv n (cpu_init n)"
  by (simp add: cpu_inv_def inv_count_def inv_work_def cpu_init_def over_helpers_def sum_list_replicate helper_defs
    list_all_iff exiting_def alone_def Signal_new_def)

lemma cpu_inv_step:
  assumes inv: "cpu_inv n s" and st: "cstep False s s'"
  shows "cpu_inv n s' \<and> steps_left n s' < steps_left n s"
  using st
proof cases
  case (main b)
  then show ?thesis using main_step_inv[OF inv] by simp
next
  case (helper i b)
  then show ?thesis using helper_step_inv[OF inv, of i s'] inv by (simp add: cpu_inv_def inv_count_def)
qed

lemma no_pending:
  assumes "cpu_inv n s" and "cMain s = MIdle"
  shows "\<forall>h\<in>set (cHelpers s). pending h = 0" and "over_helpers helper_rem s = {#}" and "over_helpers unfinished s = 0"
proof -
  show p: "\<forall>h\<in>set (cHelpers s). pending h = 0"
    using assms by (simp add: cpu_inv_def inv_count_def alone_def over_helpers_0)
  then have "\<forall>h\<in>set (cHelpers s). helper_rem h = {#} \<and> unfinished h = 0"
    by (auto simp: helper_defs split: if_splits hpc.splits)
  then have "map helper_rem (cHelpers s) = map (\<lambda>_. {#}) (cHelpers s)" "over_helpers unfinished s = 0"
    by (simp_all add: over_helpers_0)
  then show "over_helpers helper_rem s = {#}" "over_helpers unfinished s = 0"
    unfolding over_helpers_def by (simp_all only: sum_list_0)
qed

lemma cpu_inv_launch:
  assumes inv: "cpu_inv n s" and idle: "cMain s = MIdle" and fit: "slices_fit n cb m" and num: "mtSliceNum m = 0"
  shows "cpu_inv n (launch_begin cb m s)"
proof -
  define p where "p = (if mtDimY m \<le> 1 \<and> mtXEnd m \<le> mtXStart m + mtSliceSize m then MFast WFetch else MSignal 0)"
  obtain r where s': "launch_begin cb m s = s\<lparr>cData := m, cCallback := Some cb, cLog := [], cRunning := r, cMain := p\<rparr>"
    and r: "r = (case p of MFast _ \<Rightarrow> cRunning s | _ \<Rightarrow> int (length (cHelpers s)))"
    by (auto simp: launch_begin_def Let_def p_def)
  have p: "p = MFast WFetch \<or> p = MSignal 0" by (simp add: p_def)
  have o: "over_helpers f (launch_begin cb m s) = over_helpers f s" for f :: "helper \<Rightarrow> 'a :: comm_monoid_add"
    by (simp add: over_helpers_def s')
  have t: "cData (launch_begin cb m s) = m" "cCallback (launch_begin cb m s) = Some cb" "cLog (launch_begin cb m s) = []"
    "cMain (launch_begin cb m s) = p" by (simp_all add: s')
  have pos: "slice_pos cb m = range_lo cb m" using num by (simp add: slice_pos_def)
  note np = no_pending[OF inv idle]
  have z: "over_helpers pending s = 0" using np(1) by (simp add: over_helpers_0)
  have "inv_count n (launch_begin cb m s)"
    using inv idle p z np(1) by (auto simp: cpu_inv_def inv_count_def s' r over_helpers_def exiting_def alone_def)
  moreover have "slice_pos cb m + unat (mtSliceSize m) * (n + 1) \<le> slice_max n cb m"
    using num by (simp add: slice_pos_def slice_max_def)
  then have "slice_pos cb m + unat (mtSliceSize m) * main_unfinished n p \<le> slice_max n cb m"
    using p by (auto simp: trans_le_add1)
  then have "inv_work n (launch_begin cb m s)"
    using p fit unfolding inv_work_defs t o np(2,3) by (auto simp: taken_def pos)
  ultimately show ?thesis by (simp add: cpu_inv_def)
qed

lemma creach_inv: "creach False n s \<Longrightarrow> cpu_inv n s"
  by (induction rule: creach.induct) (auto simp: cpu_inv_init cpu_inv_step cpu_inv_launch)

section \<open>Launches return\<close>

lemma helper_enabled:
  assumes "cpu_inv n s" and "i < n" and "hPc (cHelpers s ! i) \<noteq> HWait \<or> hSignal (cHelpers s ! i)"
  shows "\<exists>s'. cstep False s s'"
proof -
  have "helper_ok (cHelpers s ! i)" and len: "length (cHelpers s) = n"
    using assms(1,2) by (simp_all add: cpu_inv_def inv_count_def list_all_length)
  then have "\<exists>s'. helper_step False i s = Some s'"
    using assms(3) by (cases "hPc (cHelpers s ! i)")
      (auto simp: helper_step_def Let_def Signal_wait_def helper_ok_def split: prod.splits)
  then show ?thesis using assms(2) len cstep.helper[of i s False] by blast
qed

lemma pending_enabled:
  assumes inv: "cpu_inv n s" and "0 < over_helpers pending s"
  shows "\<exists>s'. cstep False s s'"
proof -
  obtain h where h: "h \<in> set (cHelpers s)" "pending h \<noteq> 0" using assms(2) over_helpers_0[of pending s] by fastforce
  have "length (cHelpers s) = n" using inv by (simp add: cpu_inv_def inv_count_def)
  then obtain i where i: "i < n" "cHelpers s ! i = h" using h(1) by (auto simp: in_set_conv_nth)
  have "hPc h \<noteq> HWait \<or> hSignal h" using h(2) by (auto simp: pending_def working_def split: if_splits hpc.splits)
  then show ?thesis using helper_enabled[OF inv i(1)] i(2) by simp
qed

text \<open>No deadlock: some thread can move until the launch is over.\<close>

lemma not_stuck:
  assumes inv: "cpu_inv n s" and busy: "cMain s \<noteq> MIdle"
  shows "\<exists>s'. cstep False s s'"
proof (cases "\<exists>s'. main_step False s = Some s'")
  case True
  then show ?thesis using cstep.main by blast
next
  case False
  have ex: "\<not> exiting (cMain s)" and run: "cRunning s = int (to_signal n (cMain s) + over_helpers pending s)"
    using inv by (simp_all add: cpu_inv_def inv_count_def)
  from False have "cMain s = MInit \<and> cRunning s \<noteq> 0 \<or> cMain s = MWait \<and> \<not> cComplete s"
    using busy ex by (cases "cMain s") (auto simp: main_step_def exiting_def Signal_wait_def split: if_splits prod.splits)
  then consider "0 < over_helpers pending s" | "cMain s = MWait" "cRunning s = 0" "\<not> cComplete s"
    using run by fastforce
  then show ?thesis
  proof cases
    case 1
    then show ?thesis by (rule pending_enabled[OF inv])
  next
    case 2
    then obtain i where "i < n" "hPc (cHelpers s ! i) = HSet"
      using inv by (auto simp: cpu_inv_def inv_count_def in_set_conv_nth)
    then show ?thesis using helper_enabled[OF inv] by simp
  qed
qed

lemma run_bound: "cpu_inv n s \<Longrightarrow> (cstep False ^^ k) s s' \<Longrightarrow> cpu_inv n s' \<and> k + steps_left n s' \<le> steps_left n s"
proof (induction k arbitrary: s')
  case (Suc k)
  then obtain t where t: "(cstep False ^^ k) s t" "cstep False t s'" by auto
  then show ?case using Suc.IH[OF Suc.prems(1) t(1)] cpu_inv_step[of n t s'] by auto
qed simp

lemma reaches_idle: "cpu_inv n s \<Longrightarrow> \<exists>s'. (cstep False)\<^sup>*\<^sup>* s s' \<and> cMain s' = MIdle"
proof (induction "steps_left n s" arbitrary: s rule: less_induct)
  case less
  show ?case
  proof (cases "cMain s = MIdle")
    case False
    then obtain t where t: "cstep False s t" using not_stuck[OF less.prems] by blast
    then have "cpu_inv n t" "steps_left n t < steps_left n s" using cpu_inv_step[OF less.prems t] by simp_all
    then obtain s' where "(cstep False)\<^sup>*\<^sup>* t s'" "cMain s' = MIdle" using less.hyps by blast
    then show ?thesis using t by (meson converse_rtranclp_into_rtranclp)
  qed auto
qed

text \<open>C4: A launch always returns. From every reachable state, in every interleaving of the threads, at most
  \<open>steps_left\<close> steps are possible; as long as the launch is not over some thread can move; and the
  end is reached.\<close>

theorem launch_returns:
  assumes "creach False n s"
  shows "(\<forall>k s'. (cstep False ^^ k) s s' \<longrightarrow> k \<le> steps_left n s)
    \<and> (\<forall>s'. (cstep False)\<^sup>*\<^sup>* s s' \<and> cMain s' \<noteq> MIdle \<longrightarrow> (\<exists>t. cstep False s' t))
    \<and> (\<exists>s'. (cstep False)\<^sup>*\<^sup>* s s' \<and> cMain s' = MIdle)"
proof -
  have inv: "cpu_inv n s" using creach_inv[OF assms] .
  have "cpu_inv n s'" if "(cstep False)\<^sup>*\<^sup>* s s'" for s'
    using that inv by (metis rtranclp_power run_bound)
  then show ?thesis using run_bound[OF inv] not_stuck reaches_idle[OF inv] by fastforce
qed

theorem launch_returns_witness:
  "creach False 2 (cpu_init 2) \<and> (\<exists>s'. (cstep False)\<^sup>*\<^sup>* (cpu_init 2) s' \<and> cMain s' = MIdle)"
  using launch_returns[OF creach.init[of False 2]] creach.init[of False 2] by blast

section \<open>The kernel is called as in the serial loop\<close>

lemma idle_cells:
  assumes "creach False n s" and "cMain s = MIdle" and "cCallback s = Some cb"
  shows "mset (concat (map (cells cb) (cLog s))) = mset [range_lo cb (cData s)..<range_hi cb (cData s)]"
    and "list_all (call_ok cb (cData s)) (cLog s)"
proof -
  have inv: "cpu_inv n s" by (rule creach_inv[OF assms(1)])
  then have w: "work_core n cb (cData s) (cLog s) {#} 0" "range_hi cb (cData s) \<le> slice_pos cb (cData s)"
    using assms(2,3) no_pending[OF inv assms(2)] by (simp_all add: cpu_inv_def inv_work_def)
  then show "mset (concat (map (cells cb) (cLog s))) = mset [range_lo cb (cData s)..<range_hi cb (cData s)]"
    by (simp add: work_core_def taken_def min_absorb2)
  show "list_all (call_ok cb (cData s)) (cLog s)" using w(1) by (simp add: work_core_def)
qed

lemma serial_calls_plane:
  assumes "mtArrayStart m = 0" "mtArrayEnd m = 1" "mtZStart m = 0" "mtZEnd m = 1"
  shows "serial_calls m = map (serial_call m 0 0) (u32_range (mtYStart m) (mtYEnd m))"
  using assms by (simp add: serial_calls_def u32_range_def)

text \<open>C1: A launch over rows calls the kernel exactly as the serial loop does, in some order: when \<open>launchThreads\<close> has
  returned, the calls of all threads, up to the number of the thread, are the calls of the serial
  loop over the rows of the plane, each exactly once.\<close>

theorem launch_xy_serial:
  assumes r: "creach False n s" and idle: "cMain s = MIdle" and cb: "cCallback s = Some wc_xy"
    and plane: "mtArrayStart (cData s) = 0" "mtArrayEnd (cData s) = 1" "mtZStart (cData s) = 0" "mtZEnd (cData s) = 1"
  shows "mset (map (\<lambda>c. c\<lparr>kLid := 0\<rparr>) (cLog s)) = mset (serial_calls (cData s))"
proof -
  let ?m = "cData s" and ?f = "\<lambda>y. serial_call (cData s) 0 0 (of_nat y)"
  have "c\<lparr>kLid := 0\<rparr> = ?f (unat (kY c))" if "c \<in> set (cLog s)" for c
  proof -
    have "c = xy_call ?m (kLid c) (kY c)" using idle_cells(2)[OF r idle cb] that by (simp add: list_all_iff call_ok_def)
    then have "c\<lparr>kLid := 0\<rparr> = (xy_call ?m (kLid c) (kY c))\<lparr>kLid := 0\<rparr>" by simp
    then show ?thesis by (simp add: xy_call_def serial_call_def Let_def)
  qed
  then have "map (\<lambda>c. c\<lparr>kLid := 0\<rparr>) (cLog s) = map ?f (map (\<lambda>c. unat (kY c)) (cLog s))" by simp
  then have "mset (map (\<lambda>c. c\<lparr>kLid := 0\<rparr>) (cLog s)) = image_mset ?f (mset (map (\<lambda>c. unat (kY c)) (cLog s)))" by (simp only: mset_map)
  moreover have "concat (map (cells wc_xy) l) = map (\<lambda>c. unat (kY c)) l" for l by (induction l) (simp_all add: cells_def)
  then have "mset (map (\<lambda>c. unat (kY c)) (cLog s)) = mset [unat (mtYStart ?m)..<unat (mtYEnd ?m)]"
    using idle_cells(1)[OF r idle cb] by (simp add: range_lo_def range_hi_def)
  moreover have "serial_calls ?m = map ?f [unat (mtYStart ?m)..<unat (mtYEnd ?m)]"
    by (simp add: serial_calls_plane[OF plane] u32_range_def)
  ultimately show ?thesis by (simp only: mset_map)
qed

text \<open>C18: A launch over columns covers every column from \<open>xStart\<close> to below \<open>xEnd\<close> exactly once, and each call gets the
  addresses of its first column.\<close>

theorem launch_x_covers:
  assumes "creach False n s" and "cMain s = MIdle" and "cCallback s = Some wc_x"
  shows "mset (concat (map (\<lambda>c. [unat (kX1 c)..<unat (kX2 c)]) (cLog s)))
      = mset [unat (mtXStart (cData s))..<unat (mtXEnd (cData s))]
    \<and> list_all (\<lambda>c. kOut c = mtPtrOut (cData s) + ucast (mtEStrideOut (cData s) * kX1 c)
        \<and> kIn c = mtPtrIn (cData s) + ucast (mtEStrideIn (cData s) * kX1 c)) (cLog s)"
proof -
  have "cells wc_x = (\<lambda>c. [unat (kX1 c)..<unat (kX2 c)])" by (simp add: cells_def fun_eq_iff)
  moreover have "kOut c = mtPtrOut (cData s) + ucast (mtEStrideOut (cData s) * kX1 c)
      \<and> kIn c = mtPtrIn (cData s) + ucast (mtEStrideIn (cData s) * kX1 c)" if "c \<in> set (cLog s)" for c
  proof -
    have "c = x_call (cData s) (kLid c) (kX1 c) (kX2 c)"
      using idle_cells(2)[OF assms] that by (simp add: list_all_iff call_ok_def)
    then show ?thesis by (metis kcall.select_convs(5,6) x_call_def)
  qed
  ultimately show ?thesis using idle_cells(1)[OF assms] by (simp add: range_lo_def range_hi_def list_all_iff)
qed

section \<open>Schedules\<close>

text \<open>A run for a given schedule: which thread moves, and whether its wait returns without the flag.\<close>

fun run :: "(nat option \<times> bool) list \<Rightarrow> cpu \<Rightarrow> cpu option" where
  "run [] s = Some s"
| "run ((None, b) # as) s = Option.bind (main_step b s) (run as)"
| "run ((Some i, b) # as) s = (if i < length (cHelpers s) then Option.bind (helper_step b i s) (run as) else None)"

lemma run_steps: "run as s = Some s' \<Longrightarrow> \<forall>a\<in>set as. snd a \<longrightarrow> sp \<Longrightarrow> (cstep sp)\<^sup>*\<^sup>* s s'"
proof (induction as s rule: run.induct)
  case (2 b as s)
  then obtain t where t: "main_step b s = Some t" "run as t = Some s'" by (auto simp: bind_Some_iff)
  have "cstep sp s t" using 2 t(1) by (auto intro: cstep.main)
  then show ?case using 2 t by (simp add: converse_rtranclp_into_rtranclp)
next
  case (3 i b as s)
  then obtain t where t: "i < length (cHelpers s)" "helper_step b i s = Some t" "run as t = Some s'"
    by (auto simp: bind_Some_iff split: if_splits)
  have "cstep sp s t" using 3 t(1,2) by (auto intro: cstep.helper)
  then show ?case using 3 t by (simp add: converse_rtranclp_into_rtranclp)
qed simp

lemma run_creach: "run as s = Some s' \<Longrightarrow> creach sp n s \<Longrightarrow> \<forall>a\<in>set as. snd a \<longrightarrow> sp \<Longrightarrow> creach sp n s'"
proof -
  assume r: "creach sp n s" and "run as s = Some s'" and "\<forall>a\<in>set as. snd a \<longrightarrow> sp"
  then have "(cstep sp)\<^sup>*\<^sup>* s s'" by (intro run_steps)
  then show ?thesis by (induction rule: rtranclp_induct) (auto intro: r creach.step)
qed

definition sample_mtls :: mtls where
  "sample_mtls = mtls_zero\<lparr>mtPtrIn := 4096, mtPtrOut := 8192, mtEStrideIn := 4, mtEStrideOut := 4, mtYStrideIn := 16,
     mtYStrideOut := 16, mtDimX := 4, mtDimY := 3, mtSliceSize := 2, mtIsThreadable := True, mtXEnd := 4, mtYEnd := 3,
     mtZEnd := 1, mtArrayEnd := 1\<rparr>"

text \<open>One helper answers the signal of \<open>init\<close>; then a launch over three rows, where the helper takes the second slice.\<close>

definition sample_ready :: cpu where
  "sample_ready = the (run [(Some 0, False), (Some 0, False), (Some 0, False), (None, False)] (cpu_init 1))"

definition sample_schedule :: "(nat option \<times> bool) list" where
  "sample_schedule = map (\<lambda>t. (t, False)) ([Some 0, Some 0] @ replicate 3 None @ [Some 0, Some 0] @ replicate 4 None
     @ replicate 5 (Some 0) @ [None])"

definition sample_done :: cpu where
  "sample_done = the (run sample_schedule (launch_begin wc_xy sample_mtls sample_ready))"

lemma sample_ready_run:
  "run [(Some 0, False), (Some 0, False), (Some 0, False), (None, False)] (cpu_init 1) = Some sample_ready"
  "cMain sample_ready = MIdle"
  by code_simp+

lemma sample_ready_reach: "creach sp 1 sample_ready"
  using run_creach[OF sample_ready_run(1) creach.init[of sp 1]] by simp

lemma sample_fits: "slices_fit 1 wc_xy sample_mtls" "mtSliceNum sample_mtls = 0"
  by (simp_all add: slices_fit_def slice_max_def range_lo_def range_hi_def sample_mtls_def mtls_zero_def)

lemma sample_launch_reach: "creach sp 1 (launch_begin wc_xy sample_mtls sample_ready)"
  by (rule creach.launch[OF sample_ready_reach sample_ready_run(2) sample_fits])

lemma sample_done_run:
  "run sample_schedule (launch_begin wc_xy sample_mtls sample_ready) = Some sample_done"
  "cMain sample_done = MIdle" "cCallback sample_done = Some wc_xy" "mtArrayStart (cData sample_done) = 0"
  "mtArrayEnd (cData sample_done) = 1" "mtZStart (cData sample_done) = 0" "mtZEnd (cData sample_done) = 1"
  by code_simp+

theorem launch_xy_serial_witness:
  "creach False 1 sample_done
    \<and> mset (map (\<lambda>c. c\<lparr>kLid := 0\<rparr>) (cLog sample_done)) = mset (serial_calls (cData sample_done))
    \<and> length (cLog sample_done) = 3 \<and> map kLid (cLog sample_done) = [0, 0, 1]"
proof -
  have r: "creach False 1 sample_done"
    using run_creach[OF sample_done_run(1) sample_launch_reach] by (auto simp: sample_schedule_def)
  have "length (cLog sample_done) = 3 \<and> map kLid (cLog sample_done) = [0, 0, 1]" by code_simp
  then show ?thesis using r launch_xy_serial[OF r sample_done_run(2-7)] by simp
qed

definition sample_x :: mtls where
  "sample_x = sample_mtls\<lparr>mtDimY := 0, mtYEnd := 1, mtSliceSize := 3\<rparr>"

definition sample_x_schedule :: "(nat option \<times> bool) list" where
  "sample_x_schedule = map (\<lambda>t. (t, False)) (replicate 7 None @ replicate 5 (Some 0) @ [None])"

definition sample_x_done :: cpu where
  "sample_x_done = the (run sample_x_schedule (launch_begin wc_x sample_x sample_ready))"

lemma sample_x_done_run:
  "run sample_x_schedule (launch_begin wc_x sample_x sample_ready) = Some sample_x_done"
  "cMain sample_x_done = MIdle" "cCallback sample_x_done = Some wc_x"
  by code_simp+

lemma sample_x_fits: "slices_fit 1 wc_x sample_x" "mtSliceNum sample_x = 0"
  by (simp_all add: slices_fit_def slice_max_def range_lo_def range_hi_def sample_x_def sample_mtls_def mtls_zero_def)

theorem launch_x_covers_witness:
  "creach False 1 sample_x_done
    \<and> mset (concat (map (\<lambda>c. [unat (kX1 c)..<unat (kX2 c)]) (cLog sample_x_done)))
      = mset [unat (mtXStart (cData sample_x_done))..<unat (mtXEnd (cData sample_x_done))]
    \<and> map kX1 (cLog sample_x_done) = [0, 3]"
proof -
  have l: "creach False 1 (launch_begin wc_x sample_x sample_ready)"
    by (rule creach.launch[OF sample_ready_reach sample_ready_run(2) sample_x_fits])
  have r: "creach False 1 sample_x_done"
    using run_creach[OF sample_x_done_run(1) l] by (auto simp: sample_x_schedule_def)
  have "map kX1 (cLog sample_x_done) = [0, 3]" by code_simp
  then show ?thesis using r launch_x_covers[OF r sample_x_done_run(2,3)] by simp
qed

section \<open>Waits that return without the flag\<close>

text \<open>The helper wakes up before its signal is set, takes part in the launch and counts itself as done; its signal is still
  set when the launch returns, and it runs the callback of the finished launch.\<close>

definition sample_spurious :: "(nat option \<times> bool) list" where
  "sample_spurious = [(Some 0, False), (Some 0, False), (Some 0, True)] @ replicate 10 (None, False)
     @ replicate 2 (Some 0, False) @ [(None, False)] @ replicate 3 (Some 0, False)"

definition sample_stale :: cpu where
  "sample_stale = the (run sample_spurious (launch_begin wc_xy sample_mtls sample_ready))"

lemma sample_stale_run:
  "run sample_spurious (launch_begin wc_xy sample_mtls sample_ready) = Some sample_stale"
  "cMain sample_stale = MIdle \<and> list_all (\<lambda>h. hPc h = HWork WFetch) (cHelpers sample_stale) \<and> length (cHelpers sample_stale) = 1"
  by code_simp+

text \<open>C37: \<open>Signal::wait\<close> tests its flag once, so a wait that POSIX lets return without a signal breaks the launch
  protocol: \<open>launchThreads\<close> can return while a helper is still inside the callback, on launch data
  that no longer exist.\<close>

theorem spurious_wakeup_breaks_launch:
  "\<exists>s. creach True 1 s \<and> cMain s = MIdle \<and> (\<exists>h\<in>set (cHelpers s). hPc h = HWork WFetch)"
proof -
  have "creach True 1 sample_stale" using run_creach[OF sample_stale_run(1) sample_launch_reach] by simp
  moreover have "\<exists>h\<in>set (cHelpers sample_stale). hPc h = HWork WFetch"
    using sample_stale_run(2) by (cases "cHelpers sample_stale") auto
  ultimately show ?thesis using sample_stale_run(2) by blast
qed

text \<open>The destructor expects \<open>mRunningCount\<close> to be zero after the helpers have ended, but a helper that has not yet
  come back from its last launch sees \<open>mExit\<close> and ends without the decrement.\<close>

lemma destructor_count_not_zero:
  "\<exists>s s'. creach False 1 s \<and> cMain s = MIdle \<and> (cstep False)\<^sup>*\<^sup>* (exit_begin s) s' \<and> cMain s' = MGone \<and> cRunning s' \<noteq> 0"
proof -
  let ?as = "[(Some 0, False), (Some 0, False), (None, False), (None, False), (None, False)]"
  have "\<not> Option.is_none (run ?as (exit_begin sample_ready))
      \<and> cMain (the (run ?as (exit_begin sample_ready))) = MGone \<and> cRunning (the (run ?as (exit_begin sample_ready))) = 1"
    by code_simp
  then obtain s' where s': "run ?as (exit_begin sample_ready) = Some s'" "cMain s' = MGone" "cRunning s' = 1"
    by (auto simp: Option.is_none_def)
  moreover have "(cstep False)\<^sup>*\<^sup>* (exit_begin sample_ready) s'" using run_steps[OF s'(1)] by simp
  ultimately show ?thesis using sample_ready_reach[of False] sample_ready_run(2) by force
qed

section \<open>From a script call to a launch\<close>

text \<open>What \<open>forEachMtlsSetup\<close> establishes: a failed or an empty setup leaves no work, any other one ranges inside the
  allocation.\<close>

definition setup_ok :: "mtls \<Rightarrow> bool" where
  "setup_ok m \<longleftrightarrow>
     mtXStart m < mtXEnd m \<and> mtXEnd m \<le> max 1 (mtDimX m) \<and> mtYStart m < mtYEnd m \<and> mtYEnd m \<le> max 1 (mtDimY m) \<and>
     mtZStart m < mtZEnd m \<and> mtZEnd m \<le> max 1 (mtDimZ m) \<and> mtArrayStart m = 0 \<and> mtArrayEnd m = 1 \<and> mtSliceNum m = 0"

definition setup_empty :: "mtls \<Rightarrow> bool" where
  "setup_empty m \<longleftrightarrow> \<not> mtIsThreadable m \<and> mtArrayStart m = 0 \<and> mtArrayEnd m = 0"

lemma clip_range_ok: "clip_range dim nosc st en = Some (s, e) \<Longrightarrow> e \<le> dim \<and> s < max 1 e"
proof -
  assume "clip_range dim nosc st en = Some (s, e)"
  moreover have "0 < max 1 d" for d :: u32 by (simp add: less_max_iff_disj)
  ultimately show ?thesis by (auto simp: clip_range_def Let_def less_max_iff_disj not_le split: if_splits)
qed

lemma mtls_finish_ok:
  assumes "mtXStart m < max 1 (mtXEnd m)" "mtXEnd m \<le> mtDimX m" "mtYStart m < max 1 (mtYEnd m)" "mtYEnd m \<le> mtDimY m"
    "mtZStart m < max 1 (mtZEnd m)" "mtZEnd m \<le> mtDimZ m" "mtArrayStart m = 0" "mtArrayEnd m = 0"
  shows "setup_ok (mtls_finish th ain aout m)" and "mtIsThreadable (mtls_finish th ain aout m) = th"
    and "mtDimX (mtls_finish th ain aout m) = mtDimX m" and "mtDimY (mtls_finish th ain aout m) = mtDimY m"
    and "mtDimZ (mtls_finish th ain aout m) = mtDimZ m"
  using assms by (auto simp: mtls_finish_def Let_def setup_ok_def max.coboundedI2 split: option.split)
text \<open>The three ranges: one of them is empty and the setup stops, or it is finished with all three.\<close>

lemma mtls_ranges_cases:
  fixes m defines "r th ain aout sc \<equiv> mtls_ranges th ain aout sc m"
  assumes "\<not> mtIsThreadable m" "mtArrayStart m = 0" "mtArrayEnd m = 0"
  shows "(setup_empty (r th ain aout sc) \<or> setup_ok (r th ain aout sc) \<and> mtIsThreadable (r th ain aout sc) = th)
    \<and> mtDimX (r th ain aout sc) = mtDimX m \<and> mtDimY (r th ain aout sc) = mtDimY m \<and> mtDimZ (r th ain aout sc) = mtDimZ m"
proof -
  define c where "c = (case sc of None \<Rightarrow> \<lparr>scXStart = 0, scXEnd = 0, scYStart = 0, scYEnd = 0, scZStart = 0, scZEnd = 0\<rparr> | Some c \<Rightarrow> c)"
  consider (fail) "setup_empty (r th ain aout sc)" "mtDimX (r th ain aout sc) = mtDimX m"
      "mtDimY (r th ain aout sc) = mtDimY m" "mtDimZ (r th ain aout sc) = mtDimZ m"
    | (ok) xs xe ys ye zs ze where "clip_range (mtDimX m) (sc = None) (scXStart c) (scXEnd c) = Some (xs, xe)"
      "clip_range (mtDimY m) (sc = None) (scYStart c) (scYEnd c) = Some (ys, ye)"
      "clip_range (mtDimZ m) (sc = None) (scZStart c) (scZEnd c) = Some (zs, ze)"
      "r th ain aout sc = mtls_finish th ain aout (m\<lparr>mtXStart := xs, mtXEnd := xe, mtYStart := ys, mtYEnd := ye,
         mtZStart := zs, mtZEnd := ze\<rparr>)"
    using assms that
    by (cases "clip_range (mtDimX m) (sc = None) (scXStart c) (scXEnd c)";
        cases "clip_range (mtDimY m) (sc = None) (scYStart c) (scYEnd c)";
        cases "clip_range (mtDimZ m) (sc = None) (scZStart c) (scZEnd c)")
      (auto simp: mtls_ranges_def setup_empty_def Let_def c_def[symmetric])
  then show ?thesis
  proof cases
    case ok
    note bounds = clip_range_ok[OF ok(1)] clip_range_ok[OF ok(2)] clip_range_ok[OF ok(3)]
    show ?thesis unfolding ok(4) using bounds assms by (simp add: mtls_finish_ok)
  qed simp
qed

lemma setup_cases:
  assumes "forEachMtlsSetup th ain aout sc = (e, m)"
  shows "(setup_empty m \<or> e = None \<and> setup_ok m \<and> mtIsThreadable m = th) \<and> (e \<noteq> None \<longrightarrow> setup_empty m)
    \<and> (e = None \<longrightarrow> (\<exists>a. (if ain \<noteq> None then ain else aout) = Some a
        \<and> mtDimX m = faDimX a \<and> mtDimY m = faDimY a \<and> mtDimZ m = faDimZ a))"
proof -
  consider (err) "e \<noteq> None" "m = mtls_zero" | (ok) a where "e = None" "(if ain \<noteq> None then ain else aout) = Some a"
      "m = mtls_ranges th ain aout sc (mtls_zero\<lparr>mtDimX := faDimX a, mtDimY := faDimY a, mtDimZ := faDimZ a\<rparr>)"
    using assms by (auto simp: forEachMtlsSetup_def Let_def split: if_splits option.splits)
  then show ?thesis
  proof cases
    case err
    moreover have "setup_empty mtls_zero" by (simp add: setup_empty_def mtls_zero_def)
    ultimately show ?thesis by (cases e) simp_all
  next
    case ok
    then show ?thesis
      using mtls_ranges_cases[of "mtls_zero\<lparr>mtDimX := faDimX a, mtDimY := faDimY a, mtDimZ := faDimZ a\<rparr>" th ain aout sc]
      by (simp add: mtls_zero_def)
  qed
qed

lemma u32_range_mem: "v \<in> set (u32_range a b) \<longleftrightarrow> a \<le> v \<and> v < b"
proof -
  have "a \<le> v \<and> v < b \<Longrightarrow> v \<in> of_nat ` {unat a..<unat b}"
    by (rule image_eqI[of _ _ "unat v"]) (simp_all add: word_le_nat_alt word_less_nat_alt)
  moreover have "a \<le> of_nat k \<and> of_nat k < b" if "unat a \<le> k" "k < unat b" for k
  proof -
    have "k < 2 ^ 32" using that(2) unat_less_exp[of b] by simp
    then have "unat (of_nat k :: u32) = k" by (simp add: unat_of_nat)
    then show ?thesis using that by (simp add: word_le_nat_alt word_less_nat_alt)
  qed
  ultimately show ?thesis by (auto simp: u32_range_def)
qed

text \<open>C20: A kernel is never called outside the allocation. Whatever range a script call asks for, every call of the serial
  loop has a row, a plane and a range of columns inside the dimensions (a missing dimension counts as
  one); and after a failed setup there is no call at all.\<close>

theorem forEach_in_bounds:
  assumes "forEachMtlsSetup th ain aout sc = (e, m)"
  shows "(\<forall>c\<in>set (serial_calls m). kX1 c < kX2 c \<and> kX2 c \<le> max 1 (mtDimX m) \<and> kY c < max 1 (mtDimY m)
      \<and> kZ c < max 1 (mtDimZ m) \<and> kAr c = 0)
    \<and> (e \<noteq> None \<longrightarrow> serial_calls m = [] \<and> launch_plan mCount f m = Some Serial)
    \<and> (e = None \<longrightarrow> (\<exists>a. (if ain \<noteq> None then ain else aout) = Some a
        \<and> mtDimX m = faDimX a \<and> mtDimY m = faDimY a \<and> mtDimZ m = faDimZ a))"
proof -
  note cases = setup_cases[OF assms]
  have empty: "serial_calls m = [] \<and> launch_plan mCount f m = Some Serial" if "setup_empty m"
    using that by (simp add: setup_empty_def serial_calls_def launch_plan_def u32_range_def)
  have "kX1 c < kX2 c \<and> kX2 c \<le> max 1 (mtDimX m) \<and> kY c < max 1 (mtDimY m) \<and> kZ c < max 1 (mtDimZ m) \<and> kAr c = 0"
    if ok: "setup_ok m" and c: "c \<in> set (serial_calls m)" for c
  proof -
    from c obtain ar z y where "c = serial_call m ar z y" "ar \<in> set (u32_range (mtArrayStart m) (mtArrayEnd m))"
      "z \<in> set (u32_range (mtZStart m) (mtZEnd m))" "y \<in> set (u32_range (mtYStart m) (mtYEnd m))"
      by (auto simp: serial_calls_def)
    then show ?thesis using ok by (auto simp: setup_ok_def u32_range_mem serial_call_def Let_def intro: less_le_trans)
  qed
  then show ?thesis using cases empty by auto
qed
theorem forEach_in_bounds_witness:
  "\<exists>m. forEachMtlsSetup True (Some \<lparr>faMallocPtr = 4096, faDimX = 5, faDimY = 7, faDimZ = 0, faElementSizeBytes = 4, faStride = 20\<rparr>) None
      (Some \<lparr>scXStart = 1, scXEnd = 9, scYStart = 2, scYEnd = 4, scZStart = 0, scZEnd = 0\<rparr>) = (None, m)
    \<and> length (serial_calls m) = 2 \<and> (\<forall>c\<in>set (serial_calls m). kX1 c < kX2 c \<and> kX2 c \<le> max 1 (mtDimX m) \<and> kY c < max 1 (mtDimY m))"
proof -
  let ?s = "forEachMtlsSetup True (Some \<lparr>faMallocPtr = 4096, faDimX = 5, faDimY = 7, faDimZ = 0, faElementSizeBytes = 4, faStride = 20\<rparr>) None
      (Some \<lparr>scXStart = 1, scXEnd = 9, scYStart = 2, scYEnd = 4, scZStart = 0, scZEnd = 0\<rparr>)"
  have "fst ?s = None \<and> length (serial_calls (snd ?s)) = 2" by code_simp
  then have "?s = (None, snd ?s)" "length (serial_calls (snd ?s)) = 2" by (simp_all add: prod_eq_iff)
  then show ?thesis using forEach_in_bounds[of True _ None _ None "snd ?s"] by blast
qed

lemma slice_size_fits:
  assumes "slice_size (of_nat n) dim so si = Some sz" and "n < 2 ^ 28" and "unat dim < 2 ^ 31"
  shows "0 < sz" and "unat dim + (n + 2) * unat sz < 2 ^ 32 - 1"
proof -
  let ?parts = "(of_nat n + 1) * 4 :: u32"
  have n: "unat (of_nat n :: u32) = n" using assms(2) by (simp add: unat_of_nat)
  then have "unat (of_nat n + 1 :: u32) = n + 1" using assms(2) unat_add_u32[of "of_nat n" 1] by simp
  then have parts: "unat ?parts = (n + 1) * 4" using assms(2) unat_mult_u32[of "of_nat n + 1" 4] by simp
  define s where "s = min (dim div ?parts) (16384 div (if so \<noteq> 0 then so else si))"
  have sz: "sz = (if s < 1 then 1 else s)"
    using assms(1) unfolding slice_size_def Let_def rsMin_min s_def by (simp split: if_splits)
  then show "0 < sz" by (metis word_gt_0 word_less_1 zero_neq_one)
  have "unat s \<le> unat (dim div ?parts)" by (metis s_def min.cobounded1 word_le_nat_alt)
  also have "\<dots> = unat dim div ((n + 1) * 4)" by (simp only: unat_div parts)
  finally have "(n + 1) * 4 * unat s \<le> unat dim" by (metis div_times_less_eq_dividend le_trans mult.commute mult_le_mono2)
  then have "(n + 2) * unat s \<le> unat dim" by (simp add: algebra_simps)
  then show "unat dim + (n + 2) * unat sz < 2 ^ 32 - 1" using sz assms(2,3) by (cases "s < 1") simp_all
qed

text \<open>C19: The launches that scripts make are launches of the theorems above: with fewer than \<open>2^28\<close> helpers and
  dimensions below \<open>2^31\<close>, the slice size chosen by \<open>launchThreads\<close> is positive and no slice number overflows.\<close>

theorem script_launch_fits:
  assumes su: "forEachMtlsSetup th ain aout sc = (e, m)" and plan: "launch_plan (of_nat n) f m = Some (Threads cb m')"
    and n: "n < 2 ^ 28" and dims: "unat (mtDimX m) < 2 ^ 31" "unat (mtDimY m) < 2 ^ 31"
  shows "slices_fit n cb m' \<and> mtSliceNum m' = 0 \<and> mtArrayStart m' = 0 \<and> mtArrayEnd m' = 1
    \<and> (cb = wc_xy \<longleftrightarrow> 1 < mtDimY m)"
proof -
  have "mtIsThreadable m" using plan by (simp add: launch_plan_def split: if_splits)
  then have ok: "setup_ok m" using setup_cases[OF su] by (auto simp: setup_empty_def)
  define dim where "dim = (if 1 < mtDimY m then mtDimY m else mtDimX m)"
  define so where "so = (if 1 < mtDimY m then mtYStrideOut m else mtEStrideOut m)"
  define si where "si = (if 1 < mtDimY m then mtYStrideIn m else mtEStrideIn m)"
  from plan obtain sz where sz: "slice_size (of_nat n) dim so si = Some sz" and m': "m' = m\<lparr>mtSliceSize := sz\<rparr>"
    and cb: "cb = (if 1 < mtDimY m then wc_xy else wc_x)"
    by (auto simp: launch_plan_def bind_Some_iff dim_def so_def si_def split: if_splits)
  have "unat dim < 2 ^ 31" using dims by (simp add: dim_def)
  note fits = slice_size_fits[OF sz n this]
  have mx: "unat (max 1 d) \<le> unat d + 1" for d :: u32 by (simp add: max_def)
  have "range_hi cb m \<le> unat dim + 1" "range_lo cb m \<le> unat dim + 1"
    using ok mx[of dim] by (auto simp: setup_ok_def range_hi_def range_lo_def cb dim_def word_le_nat_alt word_less_nat_alt)
  then have "max (range_lo cb m) (range_hi cb m) + (n + 2) * unat sz < 2 ^ 32" using fits(2) by linarith
  then have "slices_fit n cb m'"
    using fits(1) by (auto simp: slices_fit_def slice_max_def m' range_lo_def range_hi_def split: wcb.split)
  then show ?thesis using ok by (simp add: m' setup_ok_def cb)
qed

theorem script_launch_fits_witness:
  "\<exists>m m'. forEachMtlsSetup True None (Some \<lparr>faMallocPtr = 4096, faDimX = 640, faDimY = 480, faDimZ = 0, faElementSizeBytes = 4, faStride = 2560\<rparr>) None
      = (None, m) \<and> launch_plan 3 False m = Some (Threads wc_xy m') \<and> mtSliceSize m' = 6 \<and> slices_fit 3 wc_xy m'"
proof -
  let ?s = "forEachMtlsSetup True None (Some \<lparr>faMallocPtr = 4096, faDimX = 640, faDimY = 480, faDimZ = 0, faElementSizeBytes = 4, faStride = 2560\<rparr>) None"
  let ?m = "(snd ?s)\<lparr>mtSliceSize := 6\<rparr>"
  have "fst ?s = None \<and> mtDimX (snd ?s) = 640 \<and> mtDimY (snd ?s) = 480" by code_simp
  then have s: "?s = (None, snd ?s)" "unat (mtDimX (snd ?s)) < 2 ^ 31" "unat (mtDimY (snd ?s)) < 2 ^ 31" by (simp_all add: prod_eq_iff)
  have p: "launch_plan (of_nat 3) False (snd ?s) = Some (Threads wc_xy ?m)" by code_simp
  from script_launch_fits[OF s(1) p _ s(2,3)] have "slices_fit 3 wc_xy ?m" by simp
  then show ?thesis using s(1) p by auto
qed

end
