(* ===== verification/Rs_Footprint.thy ===== *)
theory Rs_Footprint
  imports Rs_Prelude
begin

text \<open>
  Operations on a store together with the locations that they use. \<open>acts_in look X f\<close> says that \<open>f\<close> reads
  and writes only the locations \<open>X\<close>, \<open>safe_in\<close> that it has a result when these locations are there and an
  invariant holds, \<open>runs_in\<close> both. The rules follow the structure of a program: sequence, branch, a read on
  which the rest depends. The locale \<open>store\<close> asks that a store is known by its locations, and shows that
  operations with disjoint footprints commute. It is interpreted on the pixels of a frame and on the memory
  of the loop filter in \<open>Rs_LoopFilter\<close>.
\<close>

section \<open>Footprints\<close>

text \<open>An operation on a store that reads and writes the locations \<open>X\<close> only, and keeps the set of the
  locations that there are.\<close>

definition agree :: "('s \<Rightarrow> 'l \<Rightarrow> 'v option) \<Rightarrow> 'l set \<Rightarrow> 's \<Rightarrow> 's \<Rightarrow> bool" where
  "agree look X s t \<longleftrightarrow> (\<forall>l\<in>X. look s l = look t l)"

definition acts_in :: "('s \<Rightarrow> 'l \<Rightarrow> 'v option) \<Rightarrow> 'l set \<Rightarrow> ('s \<Rightarrow> 's option) \<Rightarrow> bool" where
  "acts_in look X f \<longleftrightarrow>
     (\<forall>s s'. f s = Some s' \<longrightarrow> (\<forall>l. l \<notin> X \<longrightarrow> look s' l = look s l))
     \<and> (\<forall>s t. agree look X s t \<longrightarrow>
          f s = None \<and> f t = None \<or> (\<exists>s' t'. f s = Some s' \<and> f t = Some t' \<and> agree look X s' t'))"

lemma acts_in_None: "acts_in look X (\<lambda>s. None)"
  by (simp add: acts_in_def)

lemma acts_in_Some: "acts_in look X Some"
  by (simp add: acts_in_def)

lemma acts_in_frame: "acts_in look X f \<Longrightarrow> f s = Some s' \<Longrightarrow> l \<notin> X \<Longrightarrow> look s' l = look s l"
  by (simp add: acts_in_def)

lemma acts_in_agree:
  "acts_in look X f \<Longrightarrow> agree look X s t \<Longrightarrow> f s = Some s' \<Longrightarrow> \<exists>t'. f t = Some t' \<and> agree look X s' t'"
  by (fastforce simp: acts_in_def)

lemma acts_in_fails: "acts_in look X f \<Longrightarrow> agree look X s t \<Longrightarrow> f s = None \<Longrightarrow> f t = None"
  by (fastforce simp: acts_in_def)

lemma agree_sym: "agree look X s t = agree look X t s"
  by (auto simp: agree_def)

lemma acts_in_mono:
  assumes f: "acts_in look X f" and XY: "X \<subseteq> Y" shows "acts_in look Y f"
  unfolding acts_in_def
proof (intro conjI allI impI)
  fix s s' l assume "f s = Some s'" "l \<notin> Y" then show "look s' l = look s l"
    using acts_in_frame[OF f] XY by blast
next
  fix s t assume Y: "agree look Y s t"
  then have X: "agree look X s t" using XY by (auto simp: agree_def)
  show "f s = None \<and> f t = None \<or> (\<exists>s' t'. f s = Some s' \<and> f t = Some t' \<and> agree look Y s' t')"
  proof (cases "f s")
    case None
    then show ?thesis using acts_in_fails[OF f X] by simp
  next
    case (Some s')
    then obtain t' where t': "f t = Some t'" "agree look X s' t'" using acts_in_agree[OF f X] by blast
    have "look s' l = look t' l" if "l \<in> Y" for l
      using that Y t' acts_in_frame[OF f Some] acts_in_frame[OF f t'(1)] by (cases "l \<in> X") (auto simp: agree_def)
    then show ?thesis using Some t'(1) by (simp add: agree_def)
  qed
qed

lemma acts_in_bind:
  assumes f: "acts_in look X f" and g: "acts_in look X g" shows "acts_in look X (\<lambda>s. f s \<bind> g)"
  unfolding acts_in_def
proof (intro conjI allI impI)
  fix s s' l assume "f s \<bind> g = Some s'" "l \<notin> X" then show "look s' l = look s l"
    using acts_in_frame[OF f] acts_in_frame[OF g] by (fastforce simp: bind_eq_Some_conv)
next
  fix s t assume X: "agree look X s t"
  show "f s \<bind> g = None \<and> f t \<bind> g = None \<or> (\<exists>s' t'. f s \<bind> g = Some s' \<and> f t \<bind> g = Some t' \<and> agree look X s' t')"
  proof (cases "f s")
    case None
    then show ?thesis using acts_in_fails[OF f X] by simp
  next
    case (Some s1)
    then obtain t1 where "f t = Some t1" "agree look X s1 t1" using acts_in_agree[OF f X] by blast
    then show ?thesis using Some g by (auto simp: acts_in_def)
  qed
qed

lemma acts_in_if: "acts_in look X f \<Longrightarrow> acts_in look X g \<Longrightarrow> acts_in look X (\<lambda>s. if c then f s else g s)"
  by (cases c) simp_all

text \<open>What an operation does may depend on the locations themselves.\<close>

lemma acts_in_read:
  assumes "\<And>s t. agree look X s t \<Longrightarrow> v s = v t" and "\<And>x. acts_in look X (g x)"
  shows "acts_in look X (\<lambda>s. g (v s) s)"
  unfolding acts_in_def
proof (intro conjI allI impI)
  fix s s' l assume "g (v s) s = Some s'" "l \<notin> X" then show "look s' l = look s l"
    using acts_in_frame[OF assms(2)] by blast
next
  fix s t assume X: "agree look X s t"
  then have "v s = v t" by (rule assms(1))
  then show "g (v s) s = None \<and> g (v t) t = None \<or> (\<exists>s' t'. g (v s) s = Some s' \<and> g (v t) t = Some t' \<and> agree look X s' t')"
    using assms(2)[of "v t"] X by (auto simp: acts_in_def)
qed

lemma acts_in_opt:
  assumes "\<And>x. o' = Some x \<Longrightarrow> acts_in look X (f x)" shows "acts_in look X (\<lambda>s. o' \<bind> (\<lambda>x. f x s))"
  using assms by (cases o') (auto simp: acts_in_None)

text \<open>An operation that has a result whenever the locations \<open>X\<close> are there and \<open>I\<close> holds.\<close>

definition safe_in :: "('s \<Rightarrow> 'l \<Rightarrow> 'v option) \<Rightarrow> ('s \<Rightarrow> bool) \<Rightarrow> 'l set \<Rightarrow> ('s \<Rightarrow> 's option) \<Rightarrow> bool" where
  "safe_in look I X f \<longleftrightarrow>
     (\<forall>s. I s \<longrightarrow> X \<subseteq> dom (look s) \<longrightarrow> (\<exists>s'. f s = Some s' \<and> I s' \<and> dom (look s') = dom (look s)))"

definition runs_in :: "('s \<Rightarrow> 'l \<Rightarrow> 'v option) \<Rightarrow> ('s \<Rightarrow> bool) \<Rightarrow> 'l set \<Rightarrow> ('s \<Rightarrow> 's option) \<Rightarrow> bool" where
  "runs_in look I X f \<longleftrightarrow> acts_in look X f \<and> safe_in look I X f"

lemma runs_in_Some: "runs_in look I X Some"
  by (simp add: runs_in_def safe_in_def acts_in_Some)

lemma runs_in_mono: "runs_in look I X f \<Longrightarrow> X \<subseteq> Y \<Longrightarrow> runs_in look I Y f"
  unfolding runs_in_def safe_in_def by (meson acts_in_mono subset_trans)

lemma runs_in_bind:
  assumes f: "runs_in look I X f" and g: "runs_in look I X g" shows "runs_in look I X (\<lambda>s. f s \<bind> g)"
  unfolding runs_in_def
proof
  show "acts_in look X (\<lambda>s. f s \<bind> g)" using f g by (intro acts_in_bind) (simp_all add: runs_in_def)
  show "safe_in look I X (\<lambda>s. f s \<bind> g)"
    unfolding safe_in_def
  proof (intro allI impI)
    fix s assume s: "I s" "X \<subseteq> dom (look s)"
    then obtain s1 where s1: "f s = Some s1" "I s1" "dom (look s1) = dom (look s)"
      using f unfolding runs_in_def safe_in_def by blast
    then obtain s2 where "g s1 = Some s2" "I s2" "dom (look s2) = dom (look s1)"
      using g s unfolding runs_in_def safe_in_def by metis
    then show "\<exists>s'. f s \<bind> g = Some s' \<and> I s' \<and> dom (look s') = dom (look s)" using s1 by simp
  qed
qed

lemma runs_in_if:
  "(c \<Longrightarrow> runs_in look I X f) \<Longrightarrow> (\<not> c \<Longrightarrow> runs_in look I X g) \<Longrightarrow> runs_in look I X (\<lambda>s. if c then f s else g s)"
  by (cases c) simp_all

lemma runs_in_opt:
  assumes "\<And>s. I s \<Longrightarrow> v \<noteq> None" and "\<And>x. v = Some x \<Longrightarrow> runs_in look I X (f x)"
  shows "runs_in look I X (\<lambda>s. v \<bind> (\<lambda>x. f x s))"
  using assms by (cases v) (auto simp: runs_in_def safe_in_def acts_in_None)

text \<open>A store is known by its locations. Then operations with disjoint footprints commute.\<close>

locale store =
  fixes look :: "'s \<Rightarrow> 'l \<Rightarrow> 'v option"
  assumes ext: "(\<And>l. look s l = look t l) \<Longrightarrow> s = t"
begin

lemma acts_in_commute:
  assumes f: "acts_in look X f" and g: "acts_in look Y g" and XY: "X \<inter> Y = {}"
  shows "f s \<bind> g = g s \<bind> f"
proof (cases "f s")
  case None
  have "f s1 = None" if "g s = Some s1" for s1
  proof -
    have "agree look X s s1" unfolding agree_def using acts_in_frame[OF g that, symmetric] XY by blast
    then show ?thesis using acts_in_fails[OF f _ None] by blast
  qed
  then show ?thesis using None by (cases "g s") auto
next
  case (Some s1)
  have gs: "agree look Y s s1" unfolding agree_def using acts_in_frame[OF f Some, symmetric] XY by blast
  show ?thesis
  proof (cases "g s")
    case None
    then show ?thesis using Some acts_in_fails[OF g gs] by simp
  next
    case g1: (Some s2)
    obtain s3 where s3: "g s1 = Some s3" "agree look Y s2 s3" using acts_in_agree[OF g gs g1] by blast
    have "agree look X s s2" unfolding agree_def using acts_in_frame[OF g g1, symmetric] XY by blast
    then obtain s4 where s4: "f s2 = Some s4" "agree look X s1 s4" using acts_in_agree[OF f _ Some] by blast
    have "s3 = s4"
    proof (rule ext)
      fix l
      note fr = acts_in_frame[OF g s3(1), of l] acts_in_frame[OF f s4(1), of l]
        acts_in_frame[OF f Some, of l] acts_in_frame[OF g g1, of l]
      consider "l \<in> X" "l \<notin> Y" | "l \<notin> X" "l \<in> Y" | "l \<notin> X" "l \<notin> Y" using XY by blast
      then show "look s3 l = look s4 l"
      proof cases
        case 1
        then show ?thesis using fr(1) s4(2) by (simp add: agree_def)
      next
        case 2
        then show ?thesis using fr(2) s3(2) by (simp add: agree_def)
      next
        case 3
        then show ?thesis using fr by simp
      qed
    qed
    then show ?thesis using Some g1 s3 s4 by simp
  qed
qed

end

end
