(* ===== verification/Rs_LoopFilter.thy ===== *)
theory Rs_LoopFilter
  imports Rs_Footprint
begin

text \<open>
  The VP9 loop filter of \<open>cpu_ref/rsCpuIntrinsicLoopFilter.cpp\<close>: the masks and filters of one edge, the loops
  along an edge, the selective filters that walk the bit masks of a row of blocks, and the filters of the
  planes of one superblock. These are the C functions that the file uses when it is compiled without the
  vector versions. The frame is a list of bytes, a pointer into it a position; an access outside of the
  frame, of a mask array or of the table of thresholds has no result.

  The lemmas on the pixels show what an edge filter does to them. The lemmas on footprints follow the
  functions up to the planes: which part of the frame and which mask a superblock uses, and that it needs
  nothing else to have a result.
\<close>

unbundle bit_operations_syntax

section \<open>Data\<close>

text \<open>The thresholds of one filter level. The arrays of the source repeat one value for vector
  registers; the C functions use the first entry only.\<close>

record LoopFilterThresh =
  mblim :: u8
  lim :: u8
  hev_thr :: u8

record LoopFilterInfoN =
  lfthr :: "LoopFilterThresh list"
  lvl :: "u8 list list list"
  mode_lf_lut :: "u8 list"

record LoopFilterMask =
  left_y :: "u64 list"
  above_y :: "u64 list"
  int_4x4_y :: u64
  left_uv :: "u16 list"
  above_uv :: "u16 list"
  int_4x4_uv :: u16
  lfl_y :: "u8 list"
  lfl_uv :: "u8 list"

definition TX_4X4 :: nat where "TX_4X4 = 0"
definition TX_8X8 :: nat where "TX_8X8 = 1"
definition TX_16X16 :: nat where "TX_16X16 = 2"

definition MI_BLOCK_SIZE :: nat where "MI_BLOCK_SIZE = 8"

text \<open>The frame as a list of bytes; a pointer into it is an \<open>int\<close>, and an access outside of the frame
  has no result.\<close>

definition bget :: "u8 list \<Rightarrow> int \<Rightarrow> u8 option" where
  "bget b i = (if 0 \<le> i \<and> i < int (length b) then Some (b ! nat i) else None)"

definition bput :: "int \<Rightarrow> u8 \<Rightarrow> u8 list \<Rightarrow> u8 list option" where
  "bput i v b = (if 0 \<le> i \<and> i < int (length b) then Some (b[nat i := v]) else None)"

fun bputs :: "(int \<times> u8) list \<Rightarrow> u8 list \<Rightarrow> u8 list option" where
  "bputs [] b = Some b"
| "bputs ((i, v) # ws) b = do { b1 \<leftarrow> bput i v b; bputs ws b1 }"

definition lnth :: "'a list \<Rightarrow> nat \<Rightarrow> 'a option" where
  "lnth xs i = (if i < length xs then Some (xs ! i) else None)"

section \<open>Masks\<close>

definition clamp_int :: "int \<Rightarrow> int \<Rightarrow> int \<Rightarrow> int" where
  "clamp_int amount low high = (if amount < low then low else if amount > high then high else amount)"

definition signed_char_clamp :: "int \<Rightarrow> u8" where
  "signed_char_clamp t = word_of_int (clamp_int t (- 128) 127)"

text \<open>\<open>abs(p - q)\<close> of two pixels, and \<open>cond * -1\<close> as a byte.\<close>

definition pdiff :: "u8 \<Rightarrow> u8 \<Rightarrow> int" where
  "pdiff p q = \<bar>uint p - uint q\<bar>"

definition cond_mask :: "bool \<Rightarrow> u8" where
  "cond_mask c = (if c then - 1 else 0)"

definition filter_mask :: "u8 \<Rightarrow> u8 \<Rightarrow> u8 \<Rightarrow> u8 \<Rightarrow> u8 \<Rightarrow> u8 \<Rightarrow> u8 \<Rightarrow> u8 \<Rightarrow> u8 \<Rightarrow> u8 \<Rightarrow> u8" where
  "filter_mask limit blimit p3 p2 p1 p0 q0 q1 q2 q3 =
     NOT (cond_mask (pdiff p3 p2 > uint limit) OR cond_mask (pdiff p2 p1 > uint limit)
       OR cond_mask (pdiff p1 p0 > uint limit) OR cond_mask (pdiff q1 q0 > uint limit)
       OR cond_mask (pdiff q2 q1 > uint limit) OR cond_mask (pdiff q3 q2 > uint limit)
       OR cond_mask (pdiff p0 q0 * 2 + pdiff p1 q1 div 2 > uint blimit))"

definition flat_mask4 :: "u8 \<Rightarrow> u8 \<Rightarrow> u8 \<Rightarrow> u8 \<Rightarrow> u8 \<Rightarrow> u8 \<Rightarrow> u8 \<Rightarrow> u8 \<Rightarrow> u8 \<Rightarrow> u8" where
  "flat_mask4 thresh p3 p2 p1 p0 q0 q1 q2 q3 =
     NOT (cond_mask (pdiff p1 p0 > uint thresh) OR cond_mask (pdiff q1 q0 > uint thresh)
       OR cond_mask (pdiff p2 p0 > uint thresh) OR cond_mask (pdiff q2 q0 > uint thresh)
       OR cond_mask (pdiff p3 p0 > uint thresh) OR cond_mask (pdiff q3 q0 > uint thresh))"

definition flat_mask5 :: "u8 \<Rightarrow> u8 \<Rightarrow> u8 \<Rightarrow> u8 \<Rightarrow> u8 \<Rightarrow> u8 \<Rightarrow> u8 \<Rightarrow> u8 \<Rightarrow> u8 \<Rightarrow> u8 \<Rightarrow> u8 \<Rightarrow> u8" where
  "flat_mask5 thresh p4 p3 p2 p1 p0 q0 q1 q2 q3 q4 =
     NOT (NOT (flat_mask4 thresh p3 p2 p1 p0 q0 q1 q2 q3)
       OR cond_mask (pdiff p4 p0 > uint thresh) OR cond_mask (pdiff q4 q0 > uint thresh))"

definition hev_mask :: "u8 \<Rightarrow> u8 \<Rightarrow> u8 \<Rightarrow> u8 \<Rightarrow> u8 \<Rightarrow> u8" where
  "hev_mask thresh p1 p0 q0 q1 =
     cond_mask (pdiff p1 p0 > uint thresh) OR cond_mask (pdiff q1 q0 > uint thresh)"

section \<open>Filters\<close>

text \<open>
  A filter works on the pixels on both sides of an edge. Pixel \<open>t k\<close> is \<open>qk\<close> for \<open>k \<ge> 0\<close> and \<open>p(-k-1)\<close>
  for \<open>k < 0\<close>; the result lists what is stored, in the order of the stores.
\<close>

definition filter4 :: "u8 \<Rightarrow> u8 \<Rightarrow> (int \<Rightarrow> u8) \<Rightarrow> (int \<times> u8) list" where
  "filter4 fm thresh t =
     (let ps1 = t (- 2) XOR 0x80; ps0 = t (- 1) XOR 0x80; qs0 = t 0 XOR 0x80; qs1 = t 1 XOR 0x80;
          hev = hev_mask thresh (t (- 2)) (t (- 1)) (t 0) (t 1);
          f0 = signed_char_clamp (sint ps1 - sint qs1) AND hev;
          f = signed_char_clamp (sint f0 + 3 * (sint qs0 - sint ps0)) AND fm;
          filter1 = signed_drop_bit 3 (signed_char_clamp (sint f + 4));
          filter2 = signed_drop_bit 3 (signed_char_clamp (sint f + 3));
          g = word_of_int ((sint filter1 + 1) div 2) AND NOT hev
      in [(0, signed_char_clamp (sint qs0 - sint filter1) XOR 0x80),
          (- 1, signed_char_clamp (sint ps0 + sint filter2) XOR 0x80),
          (1, signed_char_clamp (sint qs1 - sint g) XOR 0x80),
          (- 2, signed_char_clamp (sint ps1 + sint g) XOR 0x80)])"

text \<open>\<open>ROUND_POWER_OF_TWO(sum, n)\<close> stored as a byte; the sum is a sum of pixels.\<close>

definition rnd_px :: "nat \<Rightarrow> int \<Rightarrow> u8" where
  "rnd_px n v = word_of_int ((v + 2 ^ (n - 1)) div 2 ^ n)"

definition filter8 :: "u8 \<Rightarrow> u8 \<Rightarrow> u8 \<Rightarrow> (int \<Rightarrow> u8) \<Rightarrow> (int \<times> u8) list" where
  "filter8 fm thresh flat t =
     (if flat \<noteq> 0 \<and> fm \<noteq> 0
      then let p3 = uint (t (- 4)); p2 = uint (t (- 3)); p1 = uint (t (- 2)); p0 = uint (t (- 1));
               q0 = uint (t 0); q1 = uint (t 1); q2 = uint (t 2); q3 = uint (t 3)
           in [(- 3, rnd_px 3 (p3 + p3 + p3 + 2 * p2 + p1 + p0 + q0)),
               (- 2, rnd_px 3 (p3 + p3 + p2 + 2 * p1 + p0 + q0 + q1)),
               (- 1, rnd_px 3 (p3 + p2 + p1 + 2 * p0 + q0 + q1 + q2)),
               (0, rnd_px 3 (p2 + p1 + p0 + 2 * q0 + q1 + q2 + q3)),
               (1, rnd_px 3 (p1 + p0 + q0 + 2 * q1 + q2 + q3 + q3)),
               (2, rnd_px 3 (p0 + q0 + q1 + 2 * q2 + q3 + q3 + q3))]
      else filter4 fm thresh t)"

definition filter16 :: "u8 \<Rightarrow> u8 \<Rightarrow> u8 \<Rightarrow> u8 \<Rightarrow> (int \<Rightarrow> u8) \<Rightarrow> (int \<times> u8) list" where
  "filter16 fm thresh flat flat2 t =
     (if flat2 \<noteq> 0 \<and> flat \<noteq> 0 \<and> fm \<noteq> 0
      then let p7 = uint (t (- 8)); p6 = uint (t (- 7)); p5 = uint (t (- 6)); p4 = uint (t (- 5));
               p3 = uint (t (- 4)); p2 = uint (t (- 3)); p1 = uint (t (- 2)); p0 = uint (t (- 1));
               q0 = uint (t 0); q1 = uint (t 1); q2 = uint (t 2); q3 = uint (t 3);
               q4 = uint (t 4); q5 = uint (t 5); q6 = uint (t 6); q7 = uint (t 7)
           in [(- 7, rnd_px 4 (p7 * 7 + p6 * 2 + p5 + p4 + p3 + p2 + p1 + p0 + q0)),
               (- 6, rnd_px 4 (p7 * 6 + p6 + p5 * 2 + p4 + p3 + p2 + p1 + p0 + q0 + q1)),
               (- 5, rnd_px 4 (p7 * 5 + p6 + p5 + p4 * 2 + p3 + p2 + p1 + p0 + q0 + q1 + q2)),
               (- 4, rnd_px 4 (p7 * 4 + p6 + p5 + p4 + p3 * 2 + p2 + p1 + p0 + q0 + q1 + q2 + q3)),
               (- 3, rnd_px 4 (p7 * 3 + p6 + p5 + p4 + p3 + p2 * 2 + p1 + p0 + q0 + q1 + q2 + q3 + q4)),
               (- 2, rnd_px 4 (p7 * 2 + p6 + p5 + p4 + p3 + p2 + p1 * 2 + p0 + q0 + q1 + q2 + q3 + q4 + q5)),
               (- 1, rnd_px 4 (p7 + p6 + p5 + p4 + p3 + p2 + p1 + p0 * 2 + q0 + q1 + q2 + q3 + q4 + q5 + q6)),
               (0, rnd_px 4 (p6 + p5 + p4 + p3 + p2 + p1 + p0 + q0 * 2 + q1 + q2 + q3 + q4 + q5 + q6 + q7)),
               (1, rnd_px 4 (p5 + p4 + p3 + p2 + p1 + p0 + q0 + q1 * 2 + q2 + q3 + q4 + q5 + q6 + q7 * 2)),
               (2, rnd_px 4 (p4 + p3 + p2 + p1 + p0 + q0 + q1 + q2 * 2 + q3 + q4 + q5 + q6 + q7 * 3)),
               (3, rnd_px 4 (p3 + p2 + p1 + p0 + q0 + q1 + q2 + q3 * 2 + q4 + q5 + q6 + q7 * 4)),
               (4, rnd_px 4 (p2 + p1 + p0 + q0 + q1 + q2 + q3 + q4 * 2 + q5 + q6 + q7 * 5)),
               (5, rnd_px 4 (p1 + p0 + q0 + q1 + q2 + q3 + q4 + q5 * 2 + q6 + q7 * 6)),
               (6, rnd_px 4 (p0 + q0 + q1 + q2 + q3 + q4 + q5 + q6 * 2 + q7 * 7))]
      else filter8 fm thresh flat t)"

section \<open>Edges\<close>

text \<open>The pixels across an edge at \<open>s\<close>, \<open>st\<close> bytes apart, and the bodies of the loops along an edge.\<close>

definition across :: "u8 list \<Rightarrow> int \<Rightarrow> int \<Rightarrow> int \<Rightarrow> u8" where
  "across b s st k = b ! nat (s + k * st)"

definition taps_ok :: "u8 list \<Rightarrow> int \<Rightarrow> int \<Rightarrow> int \<Rightarrow> bool" where
  "taps_ok b s st n \<longleftrightarrow> (\<forall>k \<in> set [- n..n - 1]. bget b (s + k * st) \<noteq> None)"

definition store_taps :: "int \<Rightarrow> int \<Rightarrow> (int \<times> u8) list \<Rightarrow> u8 list \<Rightarrow> u8 list option" where
  "store_taps s st ws b = bputs (map (\<lambda>(k, v). (s + k * st, v)) ws) b"

definition edge_mask :: "LoopFilterThresh \<Rightarrow> (int \<Rightarrow> u8) \<Rightarrow> u8" where
  "edge_mask th t = filter_mask (lim th) (mblim th) (t (- 4)) (t (- 3)) (t (- 2)) (t (- 1)) (t 0) (t 1) (t 2) (t 3)"

definition edge_flat :: "(int \<Rightarrow> u8) \<Rightarrow> u8" where
  "edge_flat t = flat_mask4 1 (t (- 4)) (t (- 3)) (t (- 2)) (t (- 1)) (t 0) (t 1) (t 2) (t 3)"

definition edge_flat2 :: "(int \<Rightarrow> u8) \<Rightarrow> u8" where
  "edge_flat2 t = flat_mask5 1 (t (- 8)) (t (- 7)) (t (- 6)) (t (- 5)) (t (- 1)) (t 0) (t 4) (t 5) (t 6) (t 7)"

definition lpf4 :: "int \<Rightarrow> LoopFilterThresh \<Rightarrow> int \<Rightarrow> u8 list \<Rightarrow> u8 list option" where
  "lpf4 st th s b =
     (if taps_ok b s st 4
      then let t = across b s st in store_taps s st (filter4 (edge_mask th t) (hev_thr th) t) b
      else None)"

definition lpf8 :: "int \<Rightarrow> LoopFilterThresh \<Rightarrow> int \<Rightarrow> u8 list \<Rightarrow> u8 list option" where
  "lpf8 st th s b =
     (if taps_ok b s st 4
      then let t = across b s st in store_taps s st (filter8 (edge_mask th t) (hev_thr th) (edge_flat t) t) b
      else None)"

definition lpf16 :: "int \<Rightarrow> LoopFilterThresh \<Rightarrow> int \<Rightarrow> u8 list \<Rightarrow> u8 list option" where
  "lpf16 st th s b =
     (if taps_ok b s st 8
      then let t = across b s st
           in store_taps s st (filter16 (edge_mask th t) (hev_thr th) (edge_flat t) (edge_flat2 t) t) b
      else None)"

fun edge_loop :: "nat \<Rightarrow> int \<Rightarrow> (int \<Rightarrow> u8 list \<Rightarrow> u8 list option) \<Rightarrow> int \<Rightarrow> u8 list \<Rightarrow> u8 list option" where
  "edge_loop 0 step f s b = Some b"
| "edge_loop (Suc n) step f s b = do { b1 \<leftarrow> f s b; edge_loop n step f (s + step) b1 }"

definition vp9_lpf_horizontal_4_c :: "int \<Rightarrow> int \<Rightarrow> LoopFilterThresh \<Rightarrow> nat \<Rightarrow> u8 list \<Rightarrow> u8 list option" where
  "vp9_lpf_horizontal_4_c s p th cnt b = edge_loop (8 * cnt) 1 (lpf4 p th) s b"

definition vp9_lpf_horizontal_4_dual_c ::
    "int \<Rightarrow> int \<Rightarrow> LoopFilterThresh \<Rightarrow> LoopFilterThresh \<Rightarrow> u8 list \<Rightarrow> u8 list option" where
  "vp9_lpf_horizontal_4_dual_c s p th0 th1 b =
     do { b1 \<leftarrow> vp9_lpf_horizontal_4_c s p th0 1 b; vp9_lpf_horizontal_4_c (s + 8) p th1 1 b1 }"

definition vp9_lpf_vertical_4_c :: "int \<Rightarrow> int \<Rightarrow> LoopFilterThresh \<Rightarrow> nat \<Rightarrow> u8 list \<Rightarrow> u8 list option" where
  "vp9_lpf_vertical_4_c s pitch th cnt b = edge_loop (8 * cnt) pitch (lpf4 1 th) s b"

definition vp9_lpf_vertical_4_dual_c ::
    "int \<Rightarrow> int \<Rightarrow> LoopFilterThresh \<Rightarrow> LoopFilterThresh \<Rightarrow> u8 list \<Rightarrow> u8 list option" where
  "vp9_lpf_vertical_4_dual_c s pitch th0 th1 b =
     do { b1 \<leftarrow> vp9_lpf_vertical_4_c s pitch th0 1 b; vp9_lpf_vertical_4_c (s + 8 * pitch) pitch th1 1 b1 }"

definition vp9_lpf_horizontal_8_c :: "int \<Rightarrow> int \<Rightarrow> LoopFilterThresh \<Rightarrow> nat \<Rightarrow> u8 list \<Rightarrow> u8 list option" where
  "vp9_lpf_horizontal_8_c s p th cnt b = edge_loop (8 * cnt) 1 (lpf8 p th) s b"

definition vp9_lpf_horizontal_8_dual_c ::
    "int \<Rightarrow> int \<Rightarrow> LoopFilterThresh \<Rightarrow> LoopFilterThresh \<Rightarrow> u8 list \<Rightarrow> u8 list option" where
  "vp9_lpf_horizontal_8_dual_c s p th0 th1 b =
     do { b1 \<leftarrow> vp9_lpf_horizontal_8_c s p th0 1 b; vp9_lpf_horizontal_8_c (s + 8) p th1 1 b1 }"

definition vp9_lpf_vertical_8_c :: "int \<Rightarrow> int \<Rightarrow> LoopFilterThresh \<Rightarrow> nat \<Rightarrow> u8 list \<Rightarrow> u8 list option" where
  "vp9_lpf_vertical_8_c s pitch th cnt b = edge_loop (8 * cnt) pitch (lpf8 1 th) s b"

definition vp9_lpf_vertical_8_dual_c ::
    "int \<Rightarrow> int \<Rightarrow> LoopFilterThresh \<Rightarrow> LoopFilterThresh \<Rightarrow> u8 list \<Rightarrow> u8 list option" where
  "vp9_lpf_vertical_8_dual_c s pitch th0 th1 b =
     do { b1 \<leftarrow> vp9_lpf_vertical_8_c s pitch th0 1 b; vp9_lpf_vertical_8_c (s + 8 * pitch) pitch th1 1 b1 }"

definition vp9_lpf_horizontal_16_c :: "int \<Rightarrow> int \<Rightarrow> LoopFilterThresh \<Rightarrow> nat \<Rightarrow> u8 list \<Rightarrow> u8 list option" where
  "vp9_lpf_horizontal_16_c s p th cnt b = edge_loop (8 * cnt) 1 (lpf16 p th) s b"

definition mb_lpf_vertical_edge_w :: "int \<Rightarrow> int \<Rightarrow> LoopFilterThresh \<Rightarrow> nat \<Rightarrow> u8 list \<Rightarrow> u8 list option" where
  "mb_lpf_vertical_edge_w s p th cnt b = edge_loop cnt p (lpf16 1 th) s b"

definition vp9_lpf_vertical_16_c :: "int \<Rightarrow> int \<Rightarrow> LoopFilterThresh \<Rightarrow> u8 list \<Rightarrow> u8 list option" where
  "vp9_lpf_vertical_16_c s p th b = mb_lpf_vertical_edge_w s p th 8 b"

definition vp9_lpf_vertical_16_dual_c :: "int \<Rightarrow> int \<Rightarrow> LoopFilterThresh \<Rightarrow> u8 list \<Rightarrow> u8 list option" where
  "vp9_lpf_vertical_16_dual_c s p th b = mb_lpf_vertical_edge_w s p th 16 b"

section \<open>Selective filtering\<close>

definition thr_at :: "LoopFilterInfoN \<Rightarrow> u8 \<Rightarrow> LoopFilterThresh option" where
  "thr_at lfi l = lnth (lfthr lfi) (unat l)"

text \<open>The masks of the two rows of blocks that are filtered together.\<close>

record vmasks =
  v16_0 :: u32
  v8_0 :: u32
  v4_0 :: u32
  vi_0 :: u32
  v16_1 :: u32
  v8_1 :: u32
  v4_1 :: u32
  vi_1 :: u32

definition vmasks_shift :: "vmasks \<Rightarrow> vmasks" where
  "vmasks_shift m =
     \<lparr>v16_0 = drop_bit 1 (v16_0 m), v8_0 = drop_bit 1 (v8_0 m), v4_0 = drop_bit 1 (v4_0 m), vi_0 = drop_bit 1 (vi_0 m),
      v16_1 = drop_bit 1 (v16_1 m), v8_1 = drop_bit 1 (v8_1 m), v4_1 = drop_bit 1 (v4_1 m), vi_1 = drop_bit 1 (vi_1 m)\<rparr>"

text \<open>One kind of edge in the two rows: both, the first or the second.\<close>

definition vert_edge ::
    "u32 \<Rightarrow> u32 \<Rightarrow> (u8 list \<Rightarrow> u8 list option) \<Rightarrow> (u8 list \<Rightarrow> u8 list option) \<Rightarrow> (u8 list \<Rightarrow> u8 list option) \<Rightarrow>
     u8 list \<Rightarrow> u8 list option" where
  "vert_edge m0 m1 both first second b =
     (if (m0 OR m1) AND 1 \<noteq> 0
      then (if (m0 AND m1) AND 1 \<noteq> 0 then both b else if m0 AND 1 \<noteq> 0 then first b else second b)
      else Some b)"

definition vert_cell ::
    "LoopFilterInfoN \<Rightarrow> int \<Rightarrow> u8 \<Rightarrow> u8 \<Rightarrow> vmasks \<Rightarrow> int \<Rightarrow> u8 list \<Rightarrow> u8 list option" where
  "vert_cell lfi pitch l0 l1 m s b =
     do { b1 \<leftarrow> vert_edge (v16_0 m) (v16_1 m)
                 (\<lambda>b. thr_at lfi l0 \<bind> (\<lambda>t0. vp9_lpf_vertical_16_dual_c s pitch t0 b))
                 (\<lambda>b. thr_at lfi l0 \<bind> (\<lambda>t0. vp9_lpf_vertical_16_c s pitch t0 b))
                 (\<lambda>b. thr_at lfi l1 \<bind> (\<lambda>t1. vp9_lpf_vertical_16_c (s + 8 * pitch) pitch t1 b)) b;
          b2 \<leftarrow> vert_edge (v8_0 m) (v8_1 m)
                 (\<lambda>b. thr_at lfi l0 \<bind> (\<lambda>t0. thr_at lfi l1 \<bind> (\<lambda>t1. vp9_lpf_vertical_8_dual_c s pitch t0 t1 b)))
                 (\<lambda>b. thr_at lfi l0 \<bind> (\<lambda>t0. vp9_lpf_vertical_8_c s pitch t0 1 b))
                 (\<lambda>b. thr_at lfi l1 \<bind> (\<lambda>t1. vp9_lpf_vertical_8_c (s + 8 * pitch) pitch t1 1 b)) b1;
          b3 \<leftarrow> vert_edge (v4_0 m) (v4_1 m)
                 (\<lambda>b. thr_at lfi l0 \<bind> (\<lambda>t0. thr_at lfi l1 \<bind> (\<lambda>t1. vp9_lpf_vertical_4_dual_c s pitch t0 t1 b)))
                 (\<lambda>b. thr_at lfi l0 \<bind> (\<lambda>t0. vp9_lpf_vertical_4_c s pitch t0 1 b))
                 (\<lambda>b. thr_at lfi l1 \<bind> (\<lambda>t1. vp9_lpf_vertical_4_c (s + 8 * pitch) pitch t1 1 b)) b2;
          vert_edge (vi_0 m) (vi_1 m)
            (\<lambda>b. thr_at lfi l0 \<bind> (\<lambda>t0. thr_at lfi l1 \<bind> (\<lambda>t1. vp9_lpf_vertical_4_dual_c (s + 4) pitch t0 t1 b)))
            (\<lambda>b. thr_at lfi l0 \<bind> (\<lambda>t0. vp9_lpf_vertical_4_c (s + 4) pitch t0 1 b))
            (\<lambda>b. thr_at lfi l1 \<bind> (\<lambda>t1. vp9_lpf_vertical_4_c (s + 8 * pitch + 4) pitch t1 1 b)) b3 }"

lemma drop_bit_1_less: "(m :: u32) \<noteq> 0 \<Longrightarrow> 1 \<le> n \<Longrightarrow> unat (drop_bit n m) < unat m"
proof -
  assume m: "m \<noteq> 0" and n: "1 \<le> n"
  have "0 < unat m" using m by (simp add: unat_gt_0)
  moreover have "(2 :: nat) ^ 1 \<le> 2 ^ n" using n by (rule power_increasing) simp
  ultimately show ?thesis by (simp add: unat_drop_bit_div)
qed

text \<open>\<open>lfl\<close> is a list of filter levels, \<open>l\<close> the place of the pointer in it.\<close>

function vert_row2_loop ::
    "LoopFilterInfoN \<Rightarrow> int \<Rightarrow> nat \<Rightarrow> u8 list \<Rightarrow> nat \<Rightarrow> vmasks \<Rightarrow> u32 \<Rightarrow> int \<Rightarrow> u8 list \<Rightarrow> u8 list option" where
  "vert_row2_loop lfi pitch fwd lfl l m fm s b =
     (if fm = 0 then Some b
      else do { l0 \<leftarrow> lnth lfl l;
                l1 \<leftarrow> lnth lfl (l + fwd);
                b1 \<leftarrow> (if fm AND 1 \<noteq> 0 then vert_cell lfi pitch l0 l1 m s b else Some b);
                vert_row2_loop lfi pitch fwd lfl (l + 1) (vmasks_shift m) (drop_bit 1 fm) (s + 8) b1 })"
  by pat_completeness auto
termination
  by (relation "measure (\<lambda>(lfi, pitch, fwd, lfl, l, m, fm, s, b). unat fm)") (auto simp: drop_bit_1_less)

declare vert_row2_loop.simps [simp del]

definition filter_selectively_vert_row2 ::
    "bool \<Rightarrow> int \<Rightarrow> int \<Rightarrow> u32 \<Rightarrow> u32 \<Rightarrow> u32 \<Rightarrow> u32 \<Rightarrow> LoopFilterInfoN \<Rightarrow> u8 list \<Rightarrow> nat \<Rightarrow> u8 list \<Rightarrow> u8 list option" where
  "filter_selectively_vert_row2 uv s pitch m16 m8 m4 mi lfi lfl l b =
     (let sh = (if uv then 4 else 8); cut = (if uv then 0xf else 0xff); fwd = (if uv then 4 else 8);
          m = \<lparr>v16_0 = m16 AND cut, v8_0 = m8 AND cut, v4_0 = m4 AND cut, vi_0 = mi AND cut,
               v16_1 = drop_bit sh m16 AND cut, v8_1 = drop_bit sh m8 AND cut, v4_1 = drop_bit sh m4 AND cut,
               vi_1 = drop_bit sh mi AND cut\<rparr>
      in vert_row2_loop lfi pitch fwd lfl l m
           (v16_0 m OR v8_0 m OR v4_0 m OR vi_0 m OR v16_1 m OR v8_1 m OR v4_1 m OR vi_1 m) s b)"

text \<open>The inner edges next to two neighbouring blocks, and next to one.\<close>

definition horiz_int2 ::
    "int \<Rightarrow> u32 \<Rightarrow> LoopFilterThresh \<Rightarrow> LoopFilterThresh \<Rightarrow> int \<Rightarrow> u8 list \<Rightarrow> u8 list option" where
  "horiz_int2 pitch mi t tn s b =
     (if mi AND 3 = 3 then vp9_lpf_horizontal_4_dual_c (s + 4 * pitch) pitch t tn b
      else if mi AND 1 \<noteq> 0 then vp9_lpf_horizontal_4_c (s + 4 * pitch) pitch t 1 b
      else if mi AND 2 \<noteq> 0 then vp9_lpf_horizontal_4_c (s + 8 + 4 * pitch) pitch tn 1 b
      else Some b)"

definition horiz_int1 :: "int \<Rightarrow> u32 \<Rightarrow> LoopFilterThresh \<Rightarrow> int \<Rightarrow> u8 list \<Rightarrow> u8 list option" where
  "horiz_int1 pitch mi t s b =
     (if mi AND 1 \<noteq> 0 then vp9_lpf_horizontal_4_c (s + 4 * pitch) pitch t 1 b else Some b)"

definition horiz_cell ::
    "LoopFilterInfoN \<Rightarrow> int \<Rightarrow> u8 list \<Rightarrow> nat \<Rightarrow> u32 \<Rightarrow> u32 \<Rightarrow> u32 \<Rightarrow> u32 \<Rightarrow> int \<Rightarrow> u8 list \<Rightarrow> (nat \<times> u8 list) option" where
  "horiz_cell lfi pitch lfl l m16 m8 m4 mi s b =
     do { l0 \<leftarrow> lnth lfl l;
          if m16 AND 1 \<noteq> 0
          then do { t \<leftarrow> thr_at lfi l0;
                    let cnt = (if m16 AND 3 = 3 then 2 else 1);
                    b1 \<leftarrow> vp9_lpf_horizontal_16_c s pitch t cnt b;
                    Some (cnt, b1) }
          else if m8 AND 1 \<noteq> 0
          then do { t \<leftarrow> thr_at lfi l0;
                    if m8 AND 3 = 3
                    then do { l1 \<leftarrow> lnth lfl (l + 1);
                              tn \<leftarrow> thr_at lfi l1;
                              b1 \<leftarrow> vp9_lpf_horizontal_8_dual_c s pitch t tn b;
                              b2 \<leftarrow> horiz_int2 pitch mi t tn s b1;
                              Some (2, b2) }
                    else do { b1 \<leftarrow> vp9_lpf_horizontal_8_c s pitch t 1 b;
                              b2 \<leftarrow> horiz_int1 pitch mi t s b1;
                              Some (1, b2) } }
          else if m4 AND 1 \<noteq> 0
          then do { t \<leftarrow> thr_at lfi l0;
                    if m4 AND 3 = 3
                    then do { l1 \<leftarrow> lnth lfl (l + 1);
                              tn \<leftarrow> thr_at lfi l1;
                              b1 \<leftarrow> vp9_lpf_horizontal_4_dual_c s pitch t tn b;
                              b2 \<leftarrow> horiz_int2 pitch mi t tn s b1;
                              Some (2, b2) }
                    else do { b1 \<leftarrow> vp9_lpf_horizontal_4_c s pitch t 1 b;
                              b2 \<leftarrow> horiz_int1 pitch mi t s b1;
                              Some (1, b2) } }
          else if mi AND 1 \<noteq> 0
          then do { t \<leftarrow> thr_at lfi l0; b1 \<leftarrow> horiz_int1 pitch mi t s b; Some (1, b1) }
          else Some (1, b) }"

text \<open>The level of a block is read in any case; blocks without an edge are passed over one by one.\<close>

function horiz_loop ::
    "LoopFilterInfoN \<Rightarrow> int \<Rightarrow> u8 list \<Rightarrow> nat \<Rightarrow> u32 \<Rightarrow> u32 \<Rightarrow> u32 \<Rightarrow> u32 \<Rightarrow> u32 \<Rightarrow> int \<Rightarrow> u8 list \<Rightarrow> u8 list option" where
  "horiz_loop lfi pitch lfl l m16 m8 m4 mi fm s b =
     (if fm = 0 then Some b
      else do { (cnt, b1) \<leftarrow> (if fm AND 1 \<noteq> 0 then horiz_cell lfi pitch lfl l m16 m8 m4 mi s b
                             else lnth lfl l \<bind> (\<lambda>l0. Some (1, b)));
                if cnt = 0 then None
                else horiz_loop lfi pitch lfl (l + cnt) (drop_bit cnt m16) (drop_bit cnt m8) (drop_bit cnt m4)
                       (drop_bit cnt mi) (drop_bit cnt fm) (s + 8 * int cnt) b1 })"
  by pat_completeness auto
termination
  by (relation "measure (\<lambda>(lfi, pitch, lfl, l, m16, m8, m4, mi, fm, s, b). unat fm)") (auto simp: drop_bit_1_less)

declare horiz_loop.simps [simp del]

definition filter_selectively_horiz ::
    "int \<Rightarrow> int \<Rightarrow> u32 \<Rightarrow> u32 \<Rightarrow> u32 \<Rightarrow> u32 \<Rightarrow> LoopFilterInfoN \<Rightarrow> u8 list \<Rightarrow> nat \<Rightarrow> u8 list \<Rightarrow> u8 list option" where
  "filter_selectively_horiz s pitch m16 m8 m4 mi lfi lfl l b =
     horiz_loop lfi pitch lfl l m16 m8 m4 mi (m16 OR m8 OR m4 OR mi) s b"

section \<open>Planes of a superblock\<close>

text \<open>The frame and the masks of all superblocks; the filter levels of the chroma planes are kept in the
  masks.\<close>

record lfmem =
  lf_pix :: "u8 list"
  lf_masks :: "LoopFilterMask list"

definition lfm_at :: "lfmem \<Rightarrow> int \<Rightarrow> LoopFilterMask option" where
  "lfm_at m idx = (if 0 \<le> idx \<and> idx < int (length (lf_masks m)) then Some (lf_masks m ! nat idx) else None)"

definition lfm_put :: "int \<Rightarrow> LoopFilterMask \<Rightarrow> lfmem \<Rightarrow> lfmem option" where
  "lfm_put idx lfm m =
     (if 0 \<le> idx \<and> idx < int (length (lf_masks m)) then Some (m\<lparr>lf_masks := (lf_masks m)[nat idx := lfm]\<rparr>) else None)"

definition on_pix :: "(u8 list \<Rightarrow> u8 list option) \<Rightarrow> lfmem \<Rightarrow> lfmem option" where
  "on_pix f m = do { p \<leftarrow> f (lf_pix m); Some (m\<lparr>lf_pix := p\<rparr>) }"

text \<open>The rows of blocks of a superblock that are inside of the frame, \<open>step\<close> at a time.\<close>

definition sb_rows :: "nat \<Rightarrow> int \<Rightarrow> int \<Rightarrow> nat list" where
  "sb_rows step mi_rows mi_row =
     takeWhile (\<lambda>r. mi_row + int r < mi_rows) (filter (\<lambda>r. r mod step = 0) [0..<MI_BLOCK_SIZE])"

fun y_vert ::
    "LoopFilterInfoN \<Rightarrow> LoopFilterMask \<Rightarrow> int \<Rightarrow> nat list \<Rightarrow> u64 \<Rightarrow> u64 \<Rightarrow> u64 \<Rightarrow> u64 \<Rightarrow> int \<Rightarrow> u8 list \<Rightarrow> u8 list option" where
  "y_vert lfi lfm stride [] m16 m8 m4 mi buf b = Some b"
| "y_vert lfi lfm stride (r # rs) m16 m8 m4 mi buf b =
     do { b1 \<leftarrow> filter_selectively_vert_row2 False buf stride (ucast (m16 AND 0xffff)) (ucast (m8 AND 0xffff))
                 (ucast (m4 AND 0xffff)) (ucast (mi AND 0xffff)) lfi (lfl_y lfm) (r * 8) b;
          y_vert lfi lfm stride rs (drop_bit 16 m16) (drop_bit 16 m8) (drop_bit 16 m4) (drop_bit 16 mi)
            (buf + 16 * stride) b1 }"

fun y_horiz ::
    "LoopFilterInfoN \<Rightarrow> LoopFilterMask \<Rightarrow> int \<Rightarrow> int \<Rightarrow> nat list \<Rightarrow> u64 \<Rightarrow> u64 \<Rightarrow> u64 \<Rightarrow> u64 \<Rightarrow> int \<Rightarrow> u8 list \<Rightarrow>
     u8 list option" where
  "y_horiz lfi lfm stride mi_row [] m16 m8 m4 mi buf b = Some b"
| "y_horiz lfi lfm stride mi_row (r # rs) m16 m8 m4 mi buf b =
     do { let top = (mi_row + int r = 0);
          b1 \<leftarrow> filter_selectively_horiz buf stride (if top then 0 else ucast (m16 AND 0xff))
                 (if top then 0 else ucast (m8 AND 0xff)) (if top then 0 else ucast (m4 AND 0xff))
                 (ucast (mi AND 0xff)) lfi (lfl_y lfm) (r * 8) b;
          y_horiz lfi lfm stride mi_row rs (drop_bit 8 m16) (drop_bit 8 m8) (drop_bit 8 m4) (drop_bit 8 mi)
            (buf + 8 * stride) b1 }"

definition y_planes ::
    "LoopFilterInfoN \<Rightarrow> LoopFilterMask \<Rightarrow> int \<Rightarrow> int \<Rightarrow> int \<Rightarrow> int \<Rightarrow> u8 list \<Rightarrow> u8 list option" where
  "y_planes lfi lfm stride buf mi_rows mi_row b =
     do { l16 \<leftarrow> lnth (left_y lfm) TX_16X16;
          l8 \<leftarrow> lnth (left_y lfm) TX_8X8;
          l4 \<leftarrow> lnth (left_y lfm) TX_4X4;
          b1 \<leftarrow> y_vert lfi lfm stride (sb_rows 2 mi_rows mi_row) l16 l8 l4 (int_4x4_y lfm) buf b;
          a16 \<leftarrow> lnth (above_y lfm) TX_16X16;
          a8 \<leftarrow> lnth (above_y lfm) TX_8X8;
          a4 \<leftarrow> lnth (above_y lfm) TX_4X4;
          y_horiz lfi lfm stride mi_row (sb_rows 1 mi_rows mi_row) a16 a8 a4 (int_4x4_y lfm) buf b1 }"

definition filter_block_plane_y ::
    "LoopFilterInfoN \<Rightarrow> int \<Rightarrow> int \<Rightarrow> int \<Rightarrow> int \<Rightarrow> int \<Rightarrow> lfmem \<Rightarrow> lfmem option" where
  "filter_block_plane_y lfi idx stride buf mi_rows mi_row m =
     do { lfm \<leftarrow> lfm_at m idx; on_pix (y_planes lfi lfm stride buf mi_rows mi_row) m }"

text \<open>Every second level of every second row of blocks is the level of a block of chroma.\<close>

definition uv_level :: "nat \<Rightarrow> nat \<Rightarrow> LoopFilterMask \<Rightarrow> LoopFilterMask option" where
  "uv_level r c lfm =
     do { v \<leftarrow> lnth (lfl_y lfm) (r * 8 + c * 2);
          if r * 2 + c < length (lfl_uv lfm) then Some (lfm\<lparr>lfl_uv := (lfl_uv lfm)[r * 2 + c := v]\<rparr>) else None }"

fun uv_levels :: "nat \<Rightarrow> nat list \<Rightarrow> LoopFilterMask \<Rightarrow> LoopFilterMask option" where
  "uv_levels r [] lfm = Some lfm"
| "uv_levels r (c # cs) lfm = do { l1 \<leftarrow> uv_level r c lfm; l2 \<leftarrow> uv_level (r + 2) c l1; uv_levels r cs l2 }"

definition uv_fill :: "int \<Rightarrow> nat \<Rightarrow> lfmem \<Rightarrow> lfmem option" where
  "uv_fill idx r m = do { lfm \<leftarrow> lfm_at m idx; lfm1 \<leftarrow> uv_levels r [0..<MI_BLOCK_SIZE div 2] lfm; lfm_put idx lfm1 m }"

fun uv_vert ::
    "LoopFilterInfoN \<Rightarrow> int \<Rightarrow> int \<Rightarrow> nat list \<Rightarrow> u16 \<Rightarrow> u16 \<Rightarrow> u16 \<Rightarrow> u16 \<Rightarrow> int \<Rightarrow> lfmem \<Rightarrow> lfmem option" where
  "uv_vert lfi idx stride [] m16 m8 m4 mi buf m = Some m"
| "uv_vert lfi idx stride (r # rs) m16 m8 m4 mi buf m =
     do { m1 \<leftarrow> uv_fill idx r m;
          lfm \<leftarrow> lfm_at m1 idx;
          m2 \<leftarrow> on_pix (filter_selectively_vert_row2 True buf stride (ucast (m16 AND 0xff)) (ucast (m8 AND 0xff))
                 (ucast (m4 AND 0xff)) (ucast (mi AND 0xff)) lfi (lfl_uv lfm) (r * 2)) m1;
          uv_vert lfi idx stride rs (drop_bit 8 m16) (drop_bit 8 m8) (drop_bit 8 m4) (drop_bit 8 mi)
            (buf + 16 * stride) m2 }"

fun uv_horiz ::
    "LoopFilterInfoN \<Rightarrow> int \<Rightarrow> int \<Rightarrow> int \<Rightarrow> int \<Rightarrow> nat list \<Rightarrow> u16 \<Rightarrow> u16 \<Rightarrow> u16 \<Rightarrow> u16 \<Rightarrow> int \<Rightarrow> lfmem \<Rightarrow>
     lfmem option" where
  "uv_horiz lfi idx stride mi_rows mi_row [] m16 m8 m4 mi buf m = Some m"
| "uv_horiz lfi idx stride mi_rows mi_row (r # rs) m16 m8 m4 mi buf m =
     do { let top = (mi_row + int r = 0);
          let skip_border_4x4_r = (mi_row + int r = mi_rows - 1);
          lfm \<leftarrow> lfm_at m idx;
          m1 \<leftarrow> on_pix (filter_selectively_horiz buf stride (if top then 0 else ucast (m16 AND 0xf))
                 (if top then 0 else ucast (m8 AND 0xf)) (if top then 0 else ucast (m4 AND 0xf))
                 (if skip_border_4x4_r then 0 else ucast (mi AND 0xf)) lfi (lfl_uv lfm) (r * 2)) m;
          uv_horiz lfi idx stride mi_rows mi_row rs (drop_bit 4 m16) (drop_bit 4 m8) (drop_bit 4 m4) (drop_bit 4 mi)
            (buf + 8 * stride) m1 }"

definition filter_block_plane_uv ::
    "LoopFilterInfoN \<Rightarrow> int \<Rightarrow> int \<Rightarrow> int \<Rightarrow> int \<Rightarrow> int \<Rightarrow> lfmem \<Rightarrow> lfmem option" where
  "filter_block_plane_uv lfi idx stride buf mi_rows mi_row m =
     do { lfm \<leftarrow> lfm_at m idx;
          l16 \<leftarrow> lnth (left_uv lfm) TX_16X16;
          l8 \<leftarrow> lnth (left_uv lfm) TX_8X8;
          l4 \<leftarrow> lnth (left_uv lfm) TX_4X4;
          m1 \<leftarrow> uv_vert lfi idx stride (sb_rows 4 mi_rows mi_row) l16 l8 l4 (int_4x4_uv lfm) buf m;
          a16 \<leftarrow> lnth (above_uv lfm) TX_16X16;
          a8 \<leftarrow> lnth (above_uv lfm) TX_8X8;
          a4 \<leftarrow> lnth (above_uv lfm) TX_4X4;
          uv_horiz lfi idx stride mi_rows mi_row (sb_rows 2 mi_rows mi_row) a16 a8 a4 (int_4x4_uv lfm) buf m1 }"

section \<open>What the filters do to the pixels\<close>

lemma sint_u8: "sint (w :: u8) = (uint w + 128) mod 256 - 128"
  by (simp add: sint_uint signed_take_bit_eq_take_bit_shift take_bit_eq_mod)

lemma xor_80: "(x :: u8) XOR 0x80 = x + 0x80"
proof -
  have "x XOR 0x80 = flip_bit 7 x" by (simp add: flip_bit_eq_xor)
  also have "\<dots> = x + 0x80" by (simp add: flip_bit_eq_if unset_bit_eq set_bit_eq)
  finally show ?thesis .
qed

text \<open>The filters work on pixels moved to the range of a signed byte.\<close>

lemma sint_xor_80: "sint ((x :: u8) XOR 0x80) = uint x - 128"
proof -
  have "uint x < 256" "0 \<le> uint x" using uint_lt2p[of x] by simp_all
  then have "(uint x + 128 + 128) mod 256 = uint x" by simp
  then show ?thesis by (simp add: xor_80 sint_u8 uint_word_ariths mod_add_left_eq)
qed

lemma sint_clamp: "sint (signed_char_clamp v) = clamp_int v (- 128) 127"
  by (simp add: signed_char_clamp_def clamp_int_def sint_u8 uint_word_of_int mod_add_left_eq)

lemma uint_clamp_xor: "uint (signed_char_clamp v XOR 0x80) = clamp_int (v + 128) 0 255"
  by (simp add: xor_80 signed_char_clamp_def clamp_int_def uint_word_ariths uint_word_of_int mod_add_left_eq)

lemma u8_range: "0 \<le> uint (x :: u8)" "uint x \<le> 255" "- 128 \<le> sint x" "sint x \<le> 127"
  using uint_lt2p[of x] by (simp_all add: sint_u8)

lemma sint_shift3: "sint (signed_drop_bit 3 (x :: u8)) = sint x div 8"
  by (simp add: sint_signed_drop_bit_eq drop_bit_eq_div)

lemma cond_mask_or: "cond_mask a OR cond_mask b = cond_mask (a \<or> b)"
  by (simp add: cond_mask_def)

lemma cond_mask_not: "NOT (cond_mask a) = cond_mask (\<not> a)"
  by (simp add: cond_mask_def)

lemma cond_mask_0: "cond_mask a = 0 \<longleftrightarrow> \<not> a"
  by (simp add: cond_mask_def)

text \<open>An edge is filtered when no two pixels next to each other differ by more than the limit and the step at
  the edge is within its own limit.\<close>

definition edge_on :: "LoopFilterThresh \<Rightarrow> (int \<Rightarrow> u8) \<Rightarrow> bool" where
  "edge_on th t \<longleftrightarrow>
     pdiff (t (- 4)) (t (- 3)) \<le> uint (lim th) \<and> pdiff (t (- 3)) (t (- 2)) \<le> uint (lim th)
     \<and> pdiff (t (- 2)) (t (- 1)) \<le> uint (lim th) \<and> pdiff (t 1) (t 0) \<le> uint (lim th)
     \<and> pdiff (t 2) (t 1) \<le> uint (lim th) \<and> pdiff (t 3) (t 2) \<le> uint (lim th)
     \<and> pdiff (t (- 1)) (t 0) * 2 + pdiff (t (- 2)) (t 1) div 2 \<le> uint (mblim th)"

lemma edge_mask_on: "edge_mask th t = cond_mask (edge_on th t)"
  by (simp add: edge_mask_def filter_mask_def cond_mask_or cond_mask_not edge_on_def not_less del: bit.compl_eq_compl_iff)

section \<open>Footprints of the filters\<close>

lemma bget_bput: "bput i v b = Some b' \<Longrightarrow> bget b' j = (if j = i then Some v else bget b j)"
  by (auto simp: bget_def bput_def nth_list_update split: if_splits)

lemma bput_None: "bput i v b = None \<longleftrightarrow> bget b i = None"
  by (auto simp: bget_def bput_def)

interpretation px: store bget
proof
  fix b c :: "u8 list" assume e: "\<And>l. bget b l = bget c l"
  have len: "length b = length c"
  proof (rule ccontr)
    assume "length b \<noteq> length c"
    then have "bget b (int (min (length b) (length c))) \<noteq> bget c (int (min (length b) (length c)))"
      by (auto simp: bget_def min_def)
    then show False using e by blast
  qed
  moreover have "b ! i = c ! i" if "i < length b" for i using e[of "int i"] that len by (simp add: bget_def)
  ultimately show "b = c" by (rule nth_equalityI)
qed

lemma bput_runs:
  assumes "i \<in> X" shows "runs_in bget (\<lambda>_. c) X (bput i v)"
  unfolding runs_in_def acts_in_def safe_in_def
proof (intro conjI allI impI)
  fix b b' l assume "bput i v b = Some b'" "l \<notin> X" then show "bget b' l = bget b l" using assms by (auto simp: bget_bput)
next
  fix b c assume "agree bget X b c"
  then show "bput i v b = None \<and> bput i v c = None \<or> (\<exists>b' c'. bput i v b = Some b' \<and> bput i v c = Some c' \<and> agree bget X b' c')"
    using assms bput_None[of i v b] bput_None[of i v c] by (cases "bput i v b"; cases "bput i v c") (auto simp: agree_def bget_bput)
next
  fix b assume c and "X \<subseteq> dom (bget b)"
  then have i: "bget b i \<noteq> None" using assms by auto
  then obtain b' where b': "bput i v b = Some b'" using bput_None[of i v b] by (cases "bput i v b") auto
  then have "dom (bget b') = dom (bget b)" using i by (auto simp: bget_bput split: if_splits)
  then show "\<exists>b'. bput i v b = Some b' \<and> c \<and> dom (bget b') = dom (bget b)" using b' \<open>c\<close> by blast
qed

lemma bputs_runs: "fst ` set ws \<subseteq> X \<Longrightarrow> runs_in bget (\<lambda>_. c) X (bputs ws)"
proof (induction ws)
  case Nil
  then show ?case using runs_in_Some[of bget "\<lambda>_. c" X] by (simp add: bputs.simps(1)[abs_def])
next
  case (Cons w ws)
  obtain i v where w: "w = (i, v)" by (cases w)
  have "runs_in bget (\<lambda>_. c) X (\<lambda>b. bput i v b \<bind> bputs ws)" using Cons w by (intro runs_in_bind bput_runs) auto
  then show ?case by (simp add: w)
qed

text \<open>The pixels across an edge.\<close>

definition tap_set :: "int \<Rightarrow> int \<Rightarrow> int \<Rightarrow> int set" where
  "tap_set s st n = (\<lambda>k. s + k * st) ` {- n..<n}"

lemma taps_ok_iff: "taps_ok b s st n \<longleftrightarrow> tap_set s st n \<subseteq> dom (bget b)"
  by (fastforce simp: taps_ok_def tap_set_def)

lemma across_agree:
  assumes "agree bget (tap_set s st n) b c" "taps_ok b s st n" "- n \<le> k" "k < n"
  shows "across b s st k = across c s st k"
proof -
  have i: "s + k * st \<in> tap_set s st n" using assms(3,4) by (auto simp: tap_set_def)
  have "bget b (s + k * st) \<noteq> None" using assms(2) i by (auto simp: taps_ok_iff)
  then show ?thesis using assms(1) i by (fastforce simp: across_def bget_def agree_def split: if_splits)
qed

lemma agree_dom: "agree look X s t \<Longrightarrow> X \<subseteq> dom (look s) \<longleftrightarrow> X \<subseteq> dom (look t)"
  by (auto simp: agree_def)

lemma tap_filter_runs:
  assumes f: "\<And>b. f b = (if taps_ok b s st n then store_taps s st (ws (across b s st)) b else None)"
    and ws: "\<And>t t'. (\<And>k. - n \<le> k \<Longrightarrow> k < n \<Longrightarrow> t k = t' k) \<Longrightarrow> ws t = ws t'"
    and keys: "\<And>t. fst ` set (ws t) \<subseteq> {- n..<n}"
  shows "runs_in bget (\<lambda>_. c) (tap_set s st n) f"
proof -
  have st: "runs_in bget (\<lambda>_. c) (tap_set s st n) (store_taps s st (ws t))" for c t
  proof -
    have "fst ` set (map (\<lambda>(k, v). (s + k * st, v)) (ws t)) \<subseteq> tap_set s st n"
      using keys[of t] by (fastforce simp: tap_set_def)
    then show ?thesis unfolding store_taps_def[abs_def] by (rule bputs_runs)
  qed
  let ?v = "\<lambda>b. if taps_ok b s st n then Some (ws (across b s st)) else None"
  let ?g = "\<lambda>x b. case x of None \<Rightarrow> None | Some y \<Rightarrow> if y \<in> range ws then store_taps s st y b else None"
  have "acts_in bget (tap_set s st n) (\<lambda>b. ?g (?v b) b)"
  proof (rule acts_in_read[where v = ?v and g = ?g])
    fix b b' assume a: "agree bget (tap_set s st n) b b'"
    have "ws (across b s st) = ws (across b' s st)" if "taps_ok b s st n" using across_agree[OF a that] by (rule ws)
    then show "?v b = ?v b'" using agree_dom[OF a] by (simp add: taps_ok_iff)
  next
    fix x :: "(int \<times> u8) list option"
    show "acts_in bget (tap_set s st n) (?g x)"
    proof (cases x)
      case (Some y)
      then show ?thesis using st acts_in_None by (cases "y \<in> range ws") (auto simp: runs_in_def)
    qed (simp add: acts_in_None)
  qed
  moreover have "f = (\<lambda>b. ?g (?v b) b)" by (rule ext) (simp add: f)
  ultimately have "acts_in bget (tap_set s st n) f" by metis
  moreover have "safe_in bget (\<lambda>_. c) (tap_set s st n) f"
    using st[of c] by (auto simp: safe_in_def runs_in_def f taps_ok_iff)
  ultimately show ?thesis by (simp add: runs_in_def)
qed

lemma filter8_keys: "fst ` set (filter8 fm thr flat t) \<subseteq> {- 4..<4}"
  by (simp add: filter8_def filter4_def Let_def)

lemma filter16_keys: "fst ` set (filter16 fm thr flat flat2 t) \<subseteq> {- 8..<8}"
proof -
  have "fst ` set (filter8 fm thr flat t) \<subseteq> {- 8..<8}" using filter8_keys[of fm thr flat t] by force
  then show ?thesis by (simp add: filter16_def Let_def)
qed

text \<open>A filter depends on its taps only.\<close>

lemma filter4_cong:
  assumes t: "\<And>k. - 4 \<le> k \<Longrightarrow> k < 4 \<Longrightarrow> t k = t' k" shows "filter4 fm thr t = filter4 fm thr t'"
proof -
  have e: "t (- 2) = t' (- 2)" "t (- 1) = t' (- 1)" "t 0 = t' 0" "t 1 = t' 1" by (rule t; simp)+
  show ?thesis unfolding filter4_def e by (rule refl)
qed

lemma edge_cong:
  assumes t: "\<And>k. - 4 \<le> k \<Longrightarrow> k < 4 \<Longrightarrow> t k = t' k"
  shows "edge_mask th t = edge_mask th t'" and "edge_flat t = edge_flat t'"
proof -
  have e: "t (- 4) = t' (- 4)" "t (- 3) = t' (- 3)" "t (- 2) = t' (- 2)" "t (- 1) = t' (- 1)"
      "t 0 = t' 0" "t 1 = t' 1" "t 2 = t' 2" "t 3 = t' 3" by (rule t; simp)+
  show "edge_mask th t = edge_mask th t'" unfolding edge_mask_def e by (rule refl)
  show "edge_flat t = edge_flat t'" unfolding edge_flat_def e by (rule refl)
qed

lemma filter8_cong:
  assumes t: "\<And>k. - 4 \<le> k \<Longrightarrow> k < 4 \<Longrightarrow> t k = t' k" shows "filter8 fm thr flat t = filter8 fm thr flat t'"
proof -
  have e: "t (- 4) = t' (- 4)" "t (- 3) = t' (- 3)" "t (- 2) = t' (- 2)" "t (- 1) = t' (- 1)"
      "t 0 = t' 0" "t 1 = t' 1" "t 2 = t' 2" "t 3 = t' 3" by (rule t; simp)+
  have "filter4 fm thr t = filter4 fm thr t'" by (rule filter4_cong) (rule t)
  then show ?thesis unfolding filter8_def e by (rule arg_cong)
qed

lemma filter16_cong:
  assumes t: "\<And>k. - 8 \<le> k \<Longrightarrow> k < 8 \<Longrightarrow> t k = t' k"
  shows "filter16 fm thr flat flat2 t = filter16 fm thr flat flat2 t'" and "edge_flat2 t = edge_flat2 t'"
proof -
  have e: "t (- 8) = t' (- 8)" "t (- 7) = t' (- 7)" "t (- 6) = t' (- 6)" "t (- 5) = t' (- 5)"
      "t (- 4) = t' (- 4)" "t (- 3) = t' (- 3)" "t (- 2) = t' (- 2)" "t (- 1) = t' (- 1)"
      "t 0 = t' 0" "t 1 = t' 1" "t 2 = t' 2" "t 3 = t' 3" "t 4 = t' 4" "t 5 = t' 5" "t 6 = t' 6" "t 7 = t' 7"
    by (rule t; simp)+
  have "filter8 fm thr flat t = filter8 fm thr flat t'" by (rule filter8_cong) (rule t; simp)
  then show "filter16 fm thr flat flat2 t = filter16 fm thr flat flat2 t'" unfolding filter16_def e by (rule arg_cong)
  show "edge_flat2 t = edge_flat2 t'" unfolding edge_flat2_def e by (rule refl)
qed

lemma lpf4_runs: "runs_in bget (\<lambda>_. c) (tap_set s st 4) (lpf4 st th s)"
proof (rule tap_filter_runs)
  let ?ws = "\<lambda>t. filter4 (edge_mask th t) (hev_thr th) t"
  fix t t' :: "int \<Rightarrow> u8" assume t: "\<And>k. - 4 \<le> k \<Longrightarrow> k < 4 \<Longrightarrow> t k = t' k"
  show "?ws t = ?ws t'" using filter4_cong[OF t] edge_cong[OF t] by simp
qed (simp_all add: lpf4_def filter4_def Let_def)

lemma lpf8_runs: "runs_in bget (\<lambda>_. c) (tap_set s st 4) (lpf8 st th s)"
proof (rule tap_filter_runs)
  let ?ws = "\<lambda>t. filter8 (edge_mask th t) (hev_thr th) (edge_flat t) t"
  fix t t' :: "int \<Rightarrow> u8" assume t: "\<And>k. - 4 \<le> k \<Longrightarrow> k < 4 \<Longrightarrow> t k = t' k"
  show "?ws t = ?ws t'" using filter8_cong[OF t] edge_cong[OF t] by simp
qed (simp_all add: lpf8_def filter8_keys Let_def)

lemma lpf16_runs: "runs_in bget (\<lambda>_. c) (tap_set s st 8) (lpf16 st th s)"
proof (rule tap_filter_runs)
  let ?ws = "\<lambda>t. filter16 (edge_mask th t) (hev_thr th) (edge_flat t) (edge_flat2 t) t"
  fix t t' :: "int \<Rightarrow> u8" assume t: "\<And>k. - 8 \<le> k \<Longrightarrow> k < 8 \<Longrightarrow> t k = t' k"
  then show "?ws t = ?ws t'" using filter16_cong[OF t] edge_cong[of t t'] by simp
qed (simp_all add: lpf16_def filter16_keys Let_def)

text \<open>A part of a plane: columns \<open>x0..<x1\<close> and rows \<open>y0..<y1\<close> from \<open>s\<close>, the rows \<open>st\<close> bytes apart.\<close>

definition prect :: "int \<Rightarrow> int \<Rightarrow> int \<Rightarrow> int \<Rightarrow> int \<Rightarrow> int \<Rightarrow> int set" where
  "prect s st x0 x1 y0 y1 = {s + y * st + x | x y. x0 \<le> x \<and> x < x1 \<and> y0 \<le> y \<and> y < y1}"

lemma prectI: "l = s + y * st + x \<Longrightarrow> x0 \<le> x \<Longrightarrow> x < x1 \<Longrightarrow> y0 \<le> y \<Longrightarrow> y < y1 \<Longrightarrow> l \<in> prect s st x0 x1 y0 y1"
  by (auto simp: prect_def)

lemma prect_sub:
  assumes "s' = s + dy * st + dx" "x0 \<le> x0' + dx" "x1' + dx \<le> x1" "y0 \<le> y0' + dy" "y1' + dy \<le> y1"
  shows "prect s' st x0' x1' y0' y1' \<subseteq> prect s st x0 x1 y0 y1"
proof
  fix l assume "l \<in> prect s' st x0' x1' y0' y1'"
  then obtain x y where xy: "l = s' + y * st + x" "x0' \<le> x" "x < x1'" "y0' \<le> y" "y < y1'" by (auto simp: prect_def)
  then have "l = s + (y + dy) * st + (x + dx)" using assms(1) by (simp add: algebra_simps)
  then show "l \<in> prect s st x0 x1 y0 y1" by (rule prectI) (use xy assms in simp_all)
qed

lemmas prect_at = prect_sub[where dx = 0 and dy = 0]

lemma prect_right: "x0 \<le> x0' + d \<Longrightarrow> x1' + d \<le> x1 \<Longrightarrow> y0 \<le> y0' \<Longrightarrow> y1' \<le> y1 \<Longrightarrow> prect (s + d) st x0' x1' y0' y1' \<subseteq> prect s st x0 x1 y0 y1"
  by (rule prect_sub[where dx = d and dy = 0]) simp_all

lemma prect_down: "x0 \<le> x0' \<Longrightarrow> x1' \<le> x1 \<Longrightarrow> y0 \<le> y0' + k \<Longrightarrow> y1' + k \<le> y1 \<Longrightarrow> prect (s + k * st) st x0' x1' y0' y1' \<subseteq> prect s st x0 x1 y0 y1"
  by (rule prect_sub[where dx = 0 and dy = k]) simp_all

lemma prect_right_down:
  "x0 \<le> x0' + d \<Longrightarrow> x1' + d \<le> x1 \<Longrightarrow> y0 \<le> y0' + k \<Longrightarrow> y1' + k \<le> y1 \<Longrightarrow> prect (s + d + k * st) st x0' x1' y0' y1' \<subseteq> prect s st x0 x1 y0 y1"
  "x0 \<le> x0' + d \<Longrightarrow> x1' + d \<le> x1 \<Longrightarrow> y0 \<le> y0' + k \<Longrightarrow> y1' + k \<le> y1 \<Longrightarrow> prect (s + k * st + d) st x0' x1' y0' y1' \<subseteq> prect s st x0 x1 y0 y1"
  by (rule prect_sub[where dx = d and dy = k]; simp)+

lemma tap_rect: "tap_set s 1 n \<subseteq> prect s st (- n) n 0 1" "tap_set s st n \<subseteq> prect s st 0 1 (- n) n"
proof
  fix l assume "l \<in> tap_set s 1 n"
  then show "l \<in> prect s st (- n) n 0 1" by (auto simp: tap_set_def intro!: prectI[of _ s 0 st "l - s"])
next
  show "tap_set s st n \<subseteq> prect s st 0 1 (- n) n" by (auto simp: tap_set_def intro!: prectI[where x = 0])
qed

lemma vertical_edge_runs:
  assumes f: "\<And>s. runs_in bget (\<lambda>_. c) (tap_set s 1 n) (f s)"
  shows "runs_in bget (\<lambda>_. c) (prect s st (- n) n 0 (int cnt)) (edge_loop cnt st f s)"
proof (induction cnt arbitrary: s)
  case 0
  then show ?case using runs_in_Some by (simp add: edge_loop.simps(1)[abs_def])
next
  case (Suc cnt)
  have "runs_in bget (\<lambda>_. c) (prect s st (- n) n 0 (int (Suc cnt))) (\<lambda>b. f s b \<bind> edge_loop cnt st f (s + st))"
  proof (rule runs_in_bind)
    show "runs_in bget (\<lambda>_. c) (prect s st (- n) n 0 (int (Suc cnt))) (f s)"
      using f by (rule runs_in_mono) (rule subset_trans[OF tap_rect(1)[of s n st] prect_at]; simp)
    show "runs_in bget (\<lambda>_. c) (prect s st (- n) n 0 (int (Suc cnt))) (edge_loop cnt st f (s + st))"
      using Suc by (rule runs_in_mono) (rule prect_sub[where dx = 0 and dy = 1]; simp)
  qed
  then show ?case by (simp add: edge_loop.simps(2)[abs_def])
qed

lemma horizontal_edge_runs:
  assumes f: "\<And>s. runs_in bget (\<lambda>_. c) (tap_set s st n) (f s)"
  shows "runs_in bget (\<lambda>_. c) (prect s st 0 (int cnt) (- n) n) (edge_loop cnt 1 f s)"
proof (induction cnt arbitrary: s)
  case 0
  then show ?case using runs_in_Some by (simp add: edge_loop.simps(1)[abs_def])
next
  case (Suc cnt)
  have "runs_in bget (\<lambda>_. c) (prect s st 0 (int (Suc cnt)) (- n) n) (\<lambda>b. f s b \<bind> edge_loop cnt 1 f (s + 1))"
  proof (rule runs_in_bind)
    show "runs_in bget (\<lambda>_. c) (prect s st 0 (int (Suc cnt)) (- n) n) (f s)"
      using f by (rule runs_in_mono) (rule subset_trans[OF tap_rect(2)[of s st n] prect_at]; simp)
    show "runs_in bget (\<lambda>_. c) (prect s st 0 (int (Suc cnt)) (- n) n) (edge_loop cnt 1 f (s + 1))"
      using Suc by (rule runs_in_mono) (rule prect_right; simp)
  qed
  then show ?case by (simp add: edge_loop.simps(2)[abs_def])
qed

lemma vertical_runs:
  "runs_in bget (\<lambda>_. c) (prect s p (- 4) 4 0 (8 * int cnt)) (vp9_lpf_vertical_4_c s p th cnt)"
  "runs_in bget (\<lambda>_. c) (prect s p (- 4) 4 0 (8 * int cnt)) (vp9_lpf_vertical_8_c s p th cnt)"
  "runs_in bget (\<lambda>_. c) (prect s p (- 8) 8 0 8) (vp9_lpf_vertical_16_c s p th)"
  "runs_in bget (\<lambda>_. c) (prect s p (- 8) 8 0 16) (vp9_lpf_vertical_16_dual_c s p th)"
  using vertical_edge_runs[where n = 4 and cnt = "8 * cnt" and s = s and st = p, OF lpf4_runs]
    vertical_edge_runs[where n = 4 and cnt = "8 * cnt" and s = s and st = p, OF lpf8_runs]
    vertical_edge_runs[where n = 8 and cnt = 8 and s = s and st = p, OF lpf16_runs]
    vertical_edge_runs[where n = 8 and cnt = 16 and s = s and st = p, OF lpf16_runs]
  by (simp_all add: vp9_lpf_vertical_4_c_def[abs_def] vp9_lpf_vertical_8_c_def[abs_def] vp9_lpf_vertical_16_c_def[abs_def]
    vp9_lpf_vertical_16_dual_c_def[abs_def] mb_lpf_vertical_edge_w_def[abs_def])

lemma horizontal_runs:
  "runs_in bget (\<lambda>_. c) (prect s p 0 (8 * int cnt) (- 4) 4) (vp9_lpf_horizontal_4_c s p th cnt)"
  "runs_in bget (\<lambda>_. c) (prect s p 0 (8 * int cnt) (- 4) 4) (vp9_lpf_horizontal_8_c s p th cnt)"
  "runs_in bget (\<lambda>_. c) (prect s p 0 (8 * int cnt) (- 8) 8) (vp9_lpf_horizontal_16_c s p th cnt)"
  using horizontal_edge_runs[where n = 4 and cnt = "8 * cnt" and s = s and st = p, OF lpf4_runs]
    horizontal_edge_runs[where n = 4 and cnt = "8 * cnt" and s = s and st = p, OF lpf8_runs]
    horizontal_edge_runs[where n = 8 and cnt = "8 * cnt" and s = s and st = p, OF lpf16_runs]
  by (simp_all add: vp9_lpf_horizontal_4_c_def[abs_def] vp9_lpf_horizontal_8_c_def[abs_def] vp9_lpf_horizontal_16_c_def[abs_def])

lemma dual_runs:
  "runs_in bget (\<lambda>_. c) (prect s p (- 4) 4 0 16) (vp9_lpf_vertical_4_dual_c s p t0 t1)"
  "runs_in bget (\<lambda>_. c) (prect s p (- 4) 4 0 16) (vp9_lpf_vertical_8_dual_c s p t0 t1)"
  "runs_in bget (\<lambda>_. c) (prect s p 0 16 (- 4) 4) (vp9_lpf_horizontal_4_dual_c s p t0 t1)"
  "runs_in bget (\<lambda>_. c) (prect s p 0 16 (- 4) 4) (vp9_lpf_horizontal_8_dual_c s p t0 t1)"
  unfolding vp9_lpf_vertical_4_dual_c_def[abs_def] vp9_lpf_vertical_8_dual_c_def[abs_def]
    vp9_lpf_horizontal_4_dual_c_def[abs_def] vp9_lpf_horizontal_8_dual_c_def[abs_def]
  by (rule runs_in_bind; rule runs_in_mono; (rule vertical_runs horizontal_runs)?; rule prect_at prect_down prect_right; simp)+

text \<open>The selective filters. A filter level is a place in the table of thresholds.\<close>

definition levels_ok :: "LoopFilterInfoN \<Rightarrow> u8 list \<Rightarrow> bool" where
  "levels_ok lfi lfl \<longleftrightarrow> list_all (\<lambda>x. unat x < length (lfthr lfi)) lfl"

lemma lnth_None [simp]: "lnth xs i = None \<longleftrightarrow> length xs \<le> i"
  by (simp add: lnth_def)

lemma lnth_in: "lnth xs i = Some x \<Longrightarrow> x \<in> set xs"
  by (auto simp: lnth_def split: if_splits)

lemma levels_thr: "levels_ok lfi lfl \<Longrightarrow> lnth lfl i = Some x \<Longrightarrow> thr_at lfi x \<noteq> None"
  by (drule lnth_in) (auto simp: levels_ok_def thr_at_def list_all_iff lnth_def)

lemma vert_edge_runs:
  assumes "runs_in bget I X f" "runs_in bget I X g" "runs_in bget I X h"
  shows "runs_in bget I X (vert_edge m0 m1 f g h)"
  unfolding vert_edge_def[abs_def] by (intro runs_in_if runs_in_Some assms)

lemma vert_cell_runs:
  assumes "c \<Longrightarrow> thr_at lfi l0 \<noteq> None" "c \<Longrightarrow> thr_at lfi l1 \<noteq> None"
  shows "runs_in bget (\<lambda>_. c) (prect s pitch (- 8) 8 0 16) (vert_cell lfi pitch l0 l1 m s)"
proof -
  have sub:
    "runs_in bget (\<lambda>_. c) (prect s' pitch (- 4) 4 0 8) f \<Longrightarrow> prect s' pitch (- 4) 4 0 8 \<subseteq> prect s pitch (- 8) 8 0 16 \<Longrightarrow>
       runs_in bget (\<lambda>_. c) (prect s pitch (- 8) 8 0 16) f" for s' f by (rule runs_in_mono)
  have v: "runs_in bget (\<lambda>_. c) (prect s' pitch (- 4) 4 0 8) (vp9_lpf_vertical_4_c s' pitch th 1)"
      "runs_in bget (\<lambda>_. c) (prect s' pitch (- 4) 4 0 8) (vp9_lpf_vertical_8_c s' pitch th 1)" for s' th
    using vertical_runs(1,2)[where cnt = 1] by simp_all
  note r = v vertical_runs(3,4) dual_runs(1,2)
  show ?thesis
    unfolding vert_cell_def[abs_def]
    by (intro runs_in_bind vert_edge_runs runs_in_opt; (use assms in blast)?;
        rule runs_in_mono, rule r, (rule prect_at prect_right_down prect_down prect_right; simp; fail))
qed

lemma shift_lt:
  fixes m :: u32 assumes "unat m < 2 ^ k" "n \<le> k" shows "unat (drop_bit n m) < 2 ^ (k - n)"
proof -
  have "(2 :: nat) ^ k = 2 ^ (k - n) * 2 ^ n" using assms(2) by (simp flip: power_add)
  then show ?thesis using assms(1) by (simp add: unat_drop_bit_div less_mult_imp_div_less)
qed

lemma vert_row2_loop_runs:
  assumes "unat fm < 2 ^ k" "c \<Longrightarrow> l + fwd + k \<le> length lfl" "c \<Longrightarrow> levels_ok lfi lfl"
  shows "runs_in bget (\<lambda>_. c) (prect s pitch (- 8) (8 * int k) 0 16) (vert_row2_loop lfi pitch fwd lfl l m fm s)"
  using assms(1,2)
proof (induction k arbitrary: fm l m s)
  case 0
  then have "fm = 0" by (simp add: unat_eq_0)
  then show ?case by (subst vert_row2_loop.simps[abs_def]) (simp add: runs_in_Some)
next
  case (Suc k)
  have "unat (drop_bit 1 fm) < 2 ^ k" using shift_lt[OF Suc.prems(1), of 1] by simp
  then have IH: "runs_in bget (\<lambda>_. c) (prect s pitch (- 8) (8 * int (Suc k)) 0 16)
      (vert_row2_loop lfi pitch fwd lfl (l + 1) (vmasks_shift m) (drop_bit 1 fm) (s + 8))"
    using Suc.prems(2) by (intro runs_in_mono[OF Suc.IH] prect_right) simp_all
  have cell: "runs_in bget (\<lambda>_. c) (prect s pitch (- 8) (8 * int (Suc k)) 0 16) (vert_cell lfi pitch l0 l1 m s)"
    if "lnth lfl l = Some l0" "lnth lfl (l + fwd) = Some l1" for l0 l1
    using levels_thr[OF assms(3)] that by (intro runs_in_mono[OF vert_cell_runs] prect_at) simp_all
  show ?case
    by (subst vert_row2_loop.simps[abs_def])
      (intro runs_in_if runs_in_bind runs_in_opt runs_in_Some IH cell; use Suc.prems(2) in simp)
qed

definition hcnt :: "u32 \<Rightarrow> u32 \<Rightarrow> u32 \<Rightarrow> nat" where
  "hcnt m16 m8 m4 =
     (if m16 AND 1 \<noteq> 0 then (if m16 AND 3 = 3 then 2 else 1)
      else if m8 AND 1 \<noteq> 0 then (if m8 AND 3 = 3 then 2 else 1)
      else if m4 AND 1 \<noteq> 0 then (if m4 AND 3 = 3 then 2 else 1) else 1)"

definition horiz_body ::
    "LoopFilterInfoN \<Rightarrow> int \<Rightarrow> u8 list \<Rightarrow> nat \<Rightarrow> u32 \<Rightarrow> u32 \<Rightarrow> u32 \<Rightarrow> u32 \<Rightarrow> int \<Rightarrow> u8 list \<Rightarrow> u8 list option" where
  "horiz_body lfi pitch lfl l m16 m8 m4 mi s b = map_option snd (horiz_cell lfi pitch lfl l m16 m8 m4 mi s b)"

lemma map_bind: "map_option h (v \<bind> f) = v \<bind> (\<lambda>x. map_option h (f x))"
  by (cases v) auto

lemma map_option_if: "map_option h (if c then x else y) = (if c then map_option h x else map_option h y)"
  by simp

lemma pair_snd: "map_option (Pair n) (map_option snd v) = v" if "\<And>x. v = Some x \<Longrightarrow> fst x = n"
  using that by (cases v) auto

lemma horiz_cell_cnt: "horiz_cell lfi pitch lfl l m16 m8 m4 mi s b = Some x \<Longrightarrow> fst x = hcnt m16 m8 m4"
  unfolding horiz_cell_def hcnt_def Let_def bind_eq_Some_conv
  by (elim exE conjE) (simp only: split: if_splits; auto simp: bind_eq_Some_conv)

lemma horiz_cell_body:
  "horiz_cell lfi pitch lfl l m16 m8 m4 mi s b
     = map_option (Pair (hcnt m16 m8 m4)) (horiz_body lfi pitch lfl l m16 m8 m4 mi s b)"
  unfolding horiz_body_def using horiz_cell_cnt by (rule pair_snd[symmetric])

lemma horiz_int_runs:
  "runs_in bget (\<lambda>_. c) (prect s pitch 0 16 (- 8) 8) (horiz_int2 pitch mi t tn s)"
  "runs_in bget (\<lambda>_. c) (prect s pitch 0 8 (- 8) 8) (horiz_int1 pitch mi t s)"
proof -
  have h: "runs_in bget (\<lambda>_. c) (prect s' pitch 0 8 (- 4) 4) (vp9_lpf_horizontal_4_c s' pitch th 1)" for s' th
    using horizontal_runs(1)[where cnt = 1] by simp
  show "runs_in bget (\<lambda>_. c) (prect s pitch 0 16 (- 8) 8) (horiz_int2 pitch mi t tn s)"
    unfolding horiz_int2_def[abs_def]
    by (intro runs_in_if runs_in_Some; rule runs_in_mono, rule h dual_runs(3), (rule prect_right_down prect_down; simp; fail))
  show "runs_in bget (\<lambda>_. c) (prect s pitch 0 8 (- 8) 8) (horiz_int1 pitch mi t s)"
    unfolding horiz_int1_def[abs_def]
    by (intro runs_in_if runs_in_Some; rule runs_in_mono, rule h, (rule prect_down; simp; fail))
qed

lemma hcnt_pos: "0 < hcnt m16 m8 m4"
  by (simp add: hcnt_def)

lemma horiz_body_runs:
  assumes lv: "c \<Longrightarrow> levels_ok lfi lfl" and len: "c \<Longrightarrow> l + hcnt m16 m8 m4 \<le> length lfl"
  shows "runs_in bget (\<lambda>_. c) (prect s pitch 0 (8 * int (hcnt m16 m8 m4)) (- 8) 8) (horiz_body lfi pitch lfl l m16 m8 m4 mi s)"
proof -
  have h: "runs_in bget (\<lambda>_. c) (prect s pitch 0 8 (- 4) 4) (vp9_lpf_horizontal_4_c s pitch th 1)"
      "runs_in bget (\<lambda>_. c) (prect s pitch 0 8 (- 4) 4) (vp9_lpf_horizontal_8_c s pitch th 1)" for th
    using horizontal_runs[where cnt = 1 and s = s and p = pitch] by simp_all
  have h16: "runs_in bget (\<lambda>_. c) (prect s pitch 0 (8 * int (hcnt m16 m8 m4)) (- 8) 8)
      (vp9_lpf_horizontal_16_c s pitch th (if m16 AND 3 = 3 then 2 else 1))" if "m16 AND 1 \<noteq> 0" for th
    using horizontal_runs(3)[where cnt = "if m16 AND 3 = 3 then 2 else 1" and s = s and p = pitch] that
    by (simp add: hcnt_def)
  have l: "c \<Longrightarrow> l < length lfl" using len hcnt_pos[of m16 m8 m4] by linarith
  note leaf = h dual_runs(3,4) horiz_int_runs
  show ?thesis
    unfolding horiz_body_def[abs_def] horiz_cell_def map_bind map_option_if Let_def option.map snd_conv bind_runit
    by (intro runs_in_if runs_in_bind runs_in_opt runs_in_Some;
        (use l len levels_thr[OF lv] in \<open>simp add: hcnt_def; fail\<close>)?;
        (rule h16, assumption)?; (rule runs_in_mono, rule leaf, rule prect_at; simp add: hcnt_def; fail)?)
qed

lemma hcnt_le:
  assumes "unat m16 < 2 ^ k" "unat m8 < 2 ^ k" "unat m4 < 2 ^ k" "0 < k" shows "hcnt m16 m8 m4 \<le> k"
proof -
  have "2 \<le> k" if "unat m < 2 ^ k" "m AND 3 = 3" for m :: u32
  proof (rule ccontr)
    assume "\<not> 2 \<le> k"
    then have "k = 1" using assms(4) by simp
    moreover have "3 \<le> m" using word_and_le2[of m 3] that(2) by simp
    ultimately show False using that(1) by (simp add: word_le_nat_alt)
  qed
  then show ?thesis using assms by (auto simp: hcnt_def)
qed

lemma horiz_loop_runs:
  assumes "unat m16 < 2 ^ k" "unat m8 < 2 ^ k" "unat m4 < 2 ^ k" "unat fm < 2 ^ k"
    and "c \<Longrightarrow> l + k \<le> length lfl" "c \<Longrightarrow> levels_ok lfi lfl"
  shows "runs_in bget (\<lambda>_. c) (prect s pitch 0 (8 * int k) (- 8) 8) (horiz_loop lfi pitch lfl l m16 m8 m4 mi fm s)"
  using assms(1-5)
proof (induction k arbitrary: fm l m16 m8 m4 mi s rule: less_induct)
  case (less k)
  let ?X = "prect s pitch 0 (8 * int k) (- 8) 8"
  show ?case
  proof (cases "fm = 0")
    case True
    then show ?thesis by (subst horiz_loop.simps[abs_def]) (simp add: runs_in_Some)
  next
    case False
    then have k: "0 < k" using less.prems(4) by (cases k) (auto simp: unat_eq_0)
    have IH: "runs_in bget (\<lambda>_. c) ?X (horiz_loop lfi pitch lfl (l + n) (drop_bit n m16) (drop_bit n m8) (drop_bit n m4)
        (drop_bit n mi) (drop_bit n fm) (s + 8 * int n))" if "0 < n" "n \<le> k" for n
      using that less.prems k by (intro runs_in_mono[OF less.IH[of "k - n"]] prect_right) (simp_all add: shift_lt)
    let ?n = "hcnt m16 m8 m4"
    have n: "0 < ?n" "?n \<le> k" using hcnt_pos hcnt_le less.prems k by blast+
    have body: "runs_in bget (\<lambda>_. c) ?X (horiz_body lfi pitch lfl l m16 m8 m4 mi s)"
      using n less.prems(5) assms(6) by (intro runs_in_mono[OF horiz_body_runs] prect_at) simp_all
    show ?thesis
    proof (cases "fm AND 1 = 0")
      case True
      have "runs_in bget (\<lambda>_. c) ?X (\<lambda>b. lnth lfl l \<bind> (\<lambda>x. horiz_loop lfi pitch lfl (l + 1) (drop_bit 1 m16) (drop_bit 1 m8)
          (drop_bit 1 m4) (drop_bit 1 mi) (drop_bit 1 fm) (s + 8) b))"
        using IH[of 1] k less.prems(5) by (intro runs_in_opt) simp_all
      then show ?thesis by (subst horiz_loop.simps[abs_def]) (simp add: False True)
    next
      case b0: False
      have "runs_in bget (\<lambda>_. c) ?X (\<lambda>b. horiz_body lfi pitch lfl l m16 m8 m4 mi s b \<bind>
          horiz_loop lfi pitch lfl (l + ?n) (drop_bit ?n m16) (drop_bit ?n m8) (drop_bit ?n m4)
            (drop_bit ?n mi) (drop_bit ?n fm) (s + 8 * int ?n))"
        by (rule runs_in_bind[OF body IH[OF n]])
      then show ?thesis
        using n(1) by (subst horiz_loop.simps[abs_def]) (simp add: False b0 horiz_cell_body Option.bind_map_option comp_def)
    qed
  qed
qed

lemma or_lt: "unat (a :: u32) < 2 ^ k \<Longrightarrow> unat b < 2 ^ k \<Longrightarrow> unat (a OR b) < 2 ^ k"
  by (simp only: unsigned_or_eq take_bit_or flip: take_bit_nat_eq_self_iff)

lemma cut_lt: "unat ((m :: u32) AND 0xff) < 2 ^ 8" "unat (m AND 0xf) < 2 ^ 4"
  using word_and_le1[of m 255] word_and_le1[of m 15] by (simp_all add: word_le_nat_alt)

lemma filter_selectively_vert_row2_runs:
  assumes k: "k = (if uv then 4 else 8)" and "c \<Longrightarrow> l + k + k \<le> length lfl" "c \<Longrightarrow> levels_ok lfi lfl"
  shows "runs_in bget (\<lambda>_. c) (prect s pitch (- 8) (8 * int k) 0 16) (filter_selectively_vert_row2 uv s pitch m16 m8 m4 mi lfi lfl l)"
proof -
  have cut: "unat (m AND (if uv then 0xf else 0xff)) < 2 ^ k" for m :: u32 using cut_lt[of m] k by simp
  show ?thesis
    unfolding filter_selectively_vert_row2_def[abs_def] Let_def
    by (rule vert_row2_loop_runs) (unfold vmasks.select_convs, intro or_lt cut, use assms in simp_all)
qed

lemma filter_selectively_horiz_runs:
  assumes "unat m16 < 2 ^ k" "unat m8 < 2 ^ k" "unat m4 < 2 ^ k" "unat mi < 2 ^ k"
    and "c \<Longrightarrow> l + k \<le> length lfl" "c \<Longrightarrow> levels_ok lfi lfl"
  shows "runs_in bget (\<lambda>_. c) (prect s pitch 0 (8 * int k) (- 8) 8) (filter_selectively_horiz s pitch m16 m8 m4 mi lfi lfl l)"
  unfolding filter_selectively_horiz_def[abs_def] using assms by (intro horiz_loop_runs or_lt) simp_all

text \<open>The rows of blocks of a superblock.\<close>

lemma sb_rows_cases:
  "length (sb_rows 1 mr r0) \<le> 8" "length (sb_rows 2 mr r0) \<le> 4" "length (sb_rows 4 mr r0) \<le> 2"
  "r \<in> set (sb_rows 1 mr r0) \<Longrightarrow> r \<le> 7" "r \<in> set (sb_rows 2 mr r0) \<Longrightarrow> r \<le> 6" "r \<in> set (sb_rows 4 mr r0) \<Longrightarrow> r \<le> 4"
proof -
  have f: "filter (\<lambda>r. r mod 1 = 0) [0..<MI_BLOCK_SIZE] = [0, 1, 2, 3, 4, 5, 6, 7]"
    "filter (\<lambda>r. r mod 2 = 0) [0..<MI_BLOCK_SIZE] = [0, 2, 4, 6]" "filter (\<lambda>r. r mod 4 = 0) [0..<MI_BLOCK_SIZE] = [0, 4]"
    by (simp_all add: MI_BLOCK_SIZE_def upt_rec)
  have s: "length (sb_rows n mr r0) \<le> length (filter (\<lambda>r. r mod n = 0) [0..<MI_BLOCK_SIZE])"
    "r \<in> set (sb_rows n mr r0) \<Longrightarrow> r \<in> set (filter (\<lambda>r. r mod n = 0) [0..<MI_BLOCK_SIZE])" for n
    unfolding sb_rows_def by (rule length_takeWhile_le) (metis set_takeWhileD)
  show "length (sb_rows 1 mr r0) \<le> 8" "length (sb_rows 2 mr r0) \<le> 4" "length (sb_rows 4 mr r0) \<le> 2"
    using s(1)[of 1] s(1)[of 2] s(1)[of 4] unfolding f by simp_all
  show "r \<in> set (sb_rows 1 mr r0) \<Longrightarrow> r \<le> 7" "r \<in> set (sb_rows 2 mr r0) \<Longrightarrow> r \<le> 6" "r \<in> set (sb_rows 4 mr r0) \<Longrightarrow> r \<le> 4"
    using s(2)[of 1] s(2)[of 2] s(2)[of 4] unfolding f by auto
qed

text \<open>Masks as the client lays them out, with levels the table has.\<close>

definition lfm_ok :: "LoopFilterInfoN \<Rightarrow> LoopFilterMask \<Rightarrow> bool" where
  "lfm_ok lfi lfm \<longleftrightarrow>
     length (left_y lfm) = 4 \<and> length (above_y lfm) = 4 \<and> length (left_uv lfm) = 4 \<and> length (above_uv lfm) = 4
     \<and> length (lfl_y lfm) = 64 \<and> length (lfl_uv lfm) = 16 \<and> levels_ok lfi (lfl_y lfm) \<and> levels_ok lfi (lfl_uv lfm)"

lemma y_vert_runs:
  assumes "c \<Longrightarrow> lfm_ok lfi lfm" "\<And>r. r \<in> set rs \<Longrightarrow> r \<le> 6"
  shows "runs_in bget (\<lambda>_. c) (prect buf stride (- 8) 64 0 (16 * int (length rs))) (y_vert lfi lfm stride rs m16 m8 m4 mi buf)"
  using assms(2)
proof (induction rs arbitrary: m16 m8 m4 mi buf)
  case Nil
  then show ?case by (simp add: y_vert.simps(1)[abs_def] runs_in_Some)
next
  case (Cons r rs)
  have "r \<le> 6" using Cons.prems by simp
  then have row: "runs_in bget (\<lambda>_. c) (prect buf stride (- 8) 64 0 (16 * int (length (r # rs))))
      (filter_selectively_vert_row2 False buf stride a b d e lfi (lfl_y lfm) (r * 8))" for a b d e
    using assms(1) by (intro runs_in_mono[OF filter_selectively_vert_row2_runs[OF refl]] prect_at) (auto simp: lfm_ok_def)
  show ?case
    unfolding y_vert.simps(2)[abs_def]
    by (intro runs_in_bind row runs_in_mono[OF Cons.IH] prect_down) (use Cons.prems in auto)
qed

lemma y_horiz_runs:
  assumes "c \<Longrightarrow> lfm_ok lfi lfm" "\<And>r. r \<in> set rs \<Longrightarrow> r \<le> 7"
  shows "runs_in bget (\<lambda>_. c) (prect buf stride 0 64 (- 8) (8 * int (length rs))) (y_horiz lfi lfm stride mi_row rs m16 m8 m4 mi buf)"
  using assms(2)
proof (induction rs arbitrary: m16 m8 m4 mi buf)
  case Nil
  then show ?case by (simp add: y_horiz.simps(1)[abs_def] runs_in_Some)
next
  case (Cons r rs)
  have "r \<le> 7" using Cons.prems by simp
  moreover have "unat (ucast (m AND 0xff) :: u32) < 2 ^ 8" for m :: u64
    using cut_lt(1)[of "ucast m"] by (simp add: unsigned_and_eq)
  ultimately have row: "runs_in bget (\<lambda>_. c) (prect buf stride 0 64 (- 8) (8 * int (length (r # rs))))
      (filter_selectively_horiz buf stride (if t then 0 else ucast (m16 AND 0xff)) (if t then 0 else ucast (m8 AND 0xff))
        (if t then 0 else ucast (m4 AND 0xff)) (ucast (mi AND 0xff)) lfi (lfl_y lfm) (r * 8))" for t
    using assms(1)
    by (intro runs_in_mono[OF filter_selectively_horiz_runs[where k = 8]] prect_at) (auto simp: lfm_ok_def)
  show ?case
    unfolding y_horiz.simps(2)[abs_def] Let_def
    by (intro runs_in_bind row runs_in_mono[OF Cons.IH] prect_down) (use Cons.prems in auto)
qed

lemma y_planes_runs:
  assumes "c \<Longrightarrow> lfm_ok lfi lfm"
  shows "runs_in bget (\<lambda>_. c) (prect buf stride (- 8) 64 (- 8) 64) (y_planes lfi lfm stride buf mr r0)"
proof -
  have v: "runs_in bget (\<lambda>_. c) (prect buf stride (- 8) 64 (- 8) 64) (y_vert lfi lfm stride (sb_rows 2 mr r0) m16 m8 m4 mi buf)"
    for m16 m8 m4 mi using assms sb_rows_cases(2,5)[where mr = mr and ?r0.0 = r0] by (intro runs_in_mono[OF y_vert_runs] prect_at) simp_all
  have h: "runs_in bget (\<lambda>_. c) (prect buf stride (- 8) 64 (- 8) 64) (y_horiz lfi lfm stride r0 (sb_rows 1 mr r0) m16 m8 m4 mi buf)"
    for m16 m8 m4 mi using assms sb_rows_cases(1,4)[where mr = mr and ?r0.0 = r0] by (intro runs_in_mono[OF y_horiz_runs] prect_at) simp_all
  show ?thesis
    unfolding y_planes_def[abs_def]
    by (intro runs_in_opt runs_in_bind v h) (use assms in \<open>auto simp: lfm_ok_def TX_4X4_def TX_8X8_def TX_16X16_def\<close>)
qed

text \<open>The locations of the frame together with the masks.\<close>

datatype lfaddr = Px int | Mk int

fun lf_look :: "lfmem \<Rightarrow> lfaddr \<Rightarrow> (u8 + LoopFilterMask) option" where
  "lf_look m (Px i) = map_option Inl (bget (lf_pix m) i)"
| "lf_look m (Mk i) = map_option Inr (lfm_at m i)"

lemma inj_Inl_map: "map_option Inl a = map_option Inl b \<longleftrightarrow> a = b" "map_option Inr c = map_option Inr d \<longleftrightarrow> c = d"
  by (cases a; cases b; simp) (cases c; cases d; simp)

interpretation lfs: store lf_look
proof
  fix m n :: lfmem assume e: "\<And>l. lf_look m l = lf_look n l"
  have p: "lf_pix m = lf_pix n"
  proof (rule px.ext)
    fix l show "bget (lf_pix m) l = bget (lf_pix n) l" using e[of "Px l"] by (simp add: inj_Inl_map)
  qed
  have k: "lfm_at m i = lfm_at n i" for i using e[of "Mk i"] by (simp add: inj_Inl_map)
  have len: "length (lf_masks m) = length (lf_masks n)"
  proof (rule ccontr)
    assume "length (lf_masks m) \<noteq> length (lf_masks n)"
    then have "lfm_at m (int (min (length (lf_masks m)) (length (lf_masks n)))) \<noteq> lfm_at n (int (min (length (lf_masks m)) (length (lf_masks n))))"
      by (auto simp: lfm_at_def min_def)
    then show False using k by blast
  qed
  moreover have "lf_masks m ! i = lf_masks n ! i" if "i < length (lf_masks m)" for i
    using k[of "int i"] that len by (simp add: lfm_at_def)
  ultimately have "lf_masks m = lf_masks n" by (rule nth_equalityI)
  then show "m = n" using p by simp
qed

definition masks_ok :: "LoopFilterInfoN \<Rightarrow> lfmem \<Rightarrow> bool" where
  "masks_ok lfi m \<longleftrightarrow> list_all (lfm_ok lfi) (lf_masks m)"

lemma on_pix_runs:
  assumes f: "runs_in bget (\<lambda>_. c) R f" and X: "Px ` R \<subseteq> X"
  shows "runs_in lf_look (\<lambda>m. c \<and> masks_ok lfi m) X (on_pix f)"
proof -
  have a: "acts_in lf_look (Px ` R) (on_pix f)"
    unfolding acts_in_def
  proof (intro conjI allI impI)
    fix m m' l assume m': "on_pix f m = Some m'" "l \<notin> Px ` R"
    then obtain p where p: "f (lf_pix m) = Some p" "m' = m\<lparr>lf_pix := p\<rparr>" by (auto simp: on_pix_def bind_eq_Some_conv)
    have "acts_in bget R f" using f by (simp add: runs_in_def)
    then have "bget p i = bget (lf_pix m) i" if "i \<notin> R" for i using p(1) that by (rule acts_in_frame)
    then show "lf_look m' l = lf_look m l" using m'(2) p(2) by (cases l) (auto simp: lfm_at_def image_iff)
  next
    fix m n assume ag: "agree lf_look (Px ` R) m n"
    then have ag: "agree bget R (lf_pix m) (lf_pix n)" by (auto simp: agree_def inj_Inl_map)
    have af: "acts_in bget R f" using f by (simp add: runs_in_def)
    show "on_pix f m = None \<and> on_pix f n = None \<or>
        (\<exists>m' n'. on_pix f m = Some m' \<and> on_pix f n = Some n' \<and> agree lf_look (Px ` R) m' n')"
    proof (cases "f (lf_pix m)")
      case None
      then show ?thesis using acts_in_fails[OF af ag] by (simp add: on_pix_def)
    next
      case (Some p)
      then obtain q where "f (lf_pix n) = Some q" "agree bget R p q" using acts_in_agree[OF af ag] by blast
      then show ?thesis using Some by (auto simp: on_pix_def agree_def)
    qed
  qed
  have s: "safe_in lf_look (\<lambda>m. c \<and> masks_ok lfi m) (Px ` R) (on_pix f)"
    unfolding safe_in_def
  proof (intro allI impI)
    fix m assume I: "c \<and> masks_ok lfi m" and d: "Px ` R \<subseteq> dom (lf_look m)"
    have "Px i \<in> dom (lf_look m)" if "i \<in> R" for i using d that by blast
    then have "R \<subseteq> dom (bget (lf_pix m))" by (auto simp: domIff)
    then obtain p where p: "f (lf_pix m) = Some p" "dom (bget p) = dom (bget (lf_pix m))"
      using f I unfolding runs_in_def safe_in_def by blast
    have "dom (lf_look (m\<lparr>lf_pix := p\<rparr>)) = dom (lf_look m)"
    proof (rule set_eqI)
      have "bget p i = None \<longleftrightarrow> bget (lf_pix m) i = None" for i using p(2) by (metis domIff)
      then show "l \<in> dom (lf_look (m\<lparr>lf_pix := p\<rparr>)) \<longleftrightarrow> l \<in> dom (lf_look m)" for l
        by (cases l) (simp_all add: lfm_at_def domIff del: not_None_eq)
    qed
    then show "\<exists>m'. on_pix f m = Some m' \<and> (c \<and> masks_ok lfi m') \<and> dom (lf_look m') = dom (lf_look m)"
      using p(1) I by (auto simp: on_pix_def masks_ok_def)
  qed
  have "runs_in lf_look (\<lambda>m. c \<and> masks_ok lfi m) (Px ` R) (on_pix f)" using a s by (simp add: runs_in_def)
  then show ?thesis using X by (rule runs_in_mono)
qed

lemma runs_mask:
  assumes g: "\<And>lfm. runs_in lf_look (\<lambda>m. (c \<and> lfm_ok lfi lfm) \<and> masks_ok lfi m) X (g lfm)" and X: "Mk idx \<in> X"
  shows "runs_in lf_look (\<lambda>m. c \<and> masks_ok lfi m) X (\<lambda>m. lfm_at m idx \<bind> (\<lambda>lfm. g lfm m))"
proof -
  let ?g = "\<lambda>v m. v \<bind> (\<lambda>lfm. g lfm m)"
  have "acts_in lf_look X (\<lambda>m. ?g (lfm_at m idx) m)"
  proof (rule acts_in_read[where v = "\<lambda>m. lfm_at m idx" and g = ?g])
    fix m n assume "agree lf_look X m n" then have "lf_look m (Mk idx) = lf_look n (Mk idx)" using X unfolding agree_def by blast
    then show "lfm_at m idx = lfm_at n idx" by (simp add: inj_Inl_map)
  next
    fix v show "acts_in lf_look X (?g v)" using g by (cases v) (auto simp: runs_in_def acts_in_None)
  qed
  moreover have "safe_in lf_look (\<lambda>m. c \<and> masks_ok lfi m) X (\<lambda>m. ?g (lfm_at m idx) m)"
    unfolding safe_in_def
  proof (intro allI impI)
    fix m assume I: "c \<and> masks_ok lfi m" and d: "X \<subseteq> dom (lf_look m)"
    then have "lfm_at m idx \<noteq> None" using X by fastforce
    then obtain lfm where lfm: "lfm_at m idx = Some lfm" by blast
    then have "lfm_ok lfi lfm" using I by (auto simp: masks_ok_def list_all_length lfm_at_def split: if_splits)
    then show "\<exists>m'. ?g (lfm_at m idx) m = Some m' \<and> (c \<and> masks_ok lfi m') \<and> dom (lf_look m') = dom (lf_look m)"
      using g[of lfm] I d lfm unfolding runs_in_def safe_in_def by (metis Option.bind.bind_lunit)
  qed
  ultimately show ?thesis by (simp add: runs_in_def)
qed

lemma lfm_put_runs:
  assumes c: "c \<Longrightarrow> lfm_ok lfi lfm" and X: "Mk idx \<in> X"
  shows "runs_in lf_look (\<lambda>m. c \<and> masks_ok lfi m) X (lfm_put idx lfm)"
proof -
  have look: "lf_look m' l = (if l = Mk idx then Some (Inr lfm) else lf_look m l)" if "lfm_put idx lfm m = Some m'" for m m' l
    using that by (cases l) (auto simp: lfm_put_def lfm_at_def nth_list_update split: if_splits)
  have none: "lfm_put idx lfm m = None \<longleftrightarrow> lf_look m (Mk idx) = None" for m by (auto simp: lfm_put_def lfm_at_def)
  show ?thesis
    unfolding runs_in_def acts_in_def safe_in_def
  proof (intro conjI allI impI)
    fix m m' l assume "lfm_put idx lfm m = Some m'" "l \<notin> X" then show "lf_look m' l = lf_look m l" using X look by auto
  next
    fix m n assume "agree lf_look X m n"
    then show "lfm_put idx lfm m = None \<and> lfm_put idx lfm n = None \<or>
        (\<exists>m' n'. lfm_put idx lfm m = Some m' \<and> lfm_put idx lfm n = Some n' \<and> agree lf_look X m' n')"
      using X none[of m] none[of n] by (cases "lfm_put idx lfm m"; cases "lfm_put idx lfm n") (auto simp: agree_def look)
  next
    fix m assume I: "c \<and> masks_ok lfi m" and d: "X \<subseteq> dom (lf_look m)"
    then have k: "lf_look m (Mk idx) \<noteq> None" using X by blast
    then obtain m' where m': "lfm_put idx lfm m = Some m'" using none[of m] by (cases "lfm_put idx lfm m") auto
    then have "masks_ok lfi m'"
      using I c by (auto simp: lfm_put_def masks_ok_def list_all_length nth_list_update split: if_splits)
    moreover have "dom (lf_look m') = dom (lf_look m)" using look[OF m'] k by (auto split: if_splits)
    ultimately show "\<exists>m'. lfm_put idx lfm m = Some m' \<and> (c \<and> masks_ok lfi m') \<and> dom (lf_look m') = dom (lf_look m)"
      using m' I by blast
  qed
qed

lemma filter_block_plane_y_runs:
  assumes "Mk idx \<in> X" "Px ` prect buf stride (- 8) 64 (- 8) 64 \<subseteq> X"
  shows "runs_in lf_look (\<lambda>m. c \<and> masks_ok lfi m) X (filter_block_plane_y lfi idx stride buf mr r0)"
  unfolding filter_block_plane_y_def[abs_def]
  by (rule runs_mask[OF on_pix_runs[OF y_planes_runs]]) (use assms in auto)

text \<open>The planes of chroma.\<close>

lemma uv_level_ok:
  assumes "lfm_ok lfi lfm" "r * 8 + c * 2 < 64" "r * 2 + c < 16" shows "\<exists>l1. uv_level r c lfm = Some l1 \<and> lfm_ok lfi l1"
proof -
  obtain v where v: "lnth (lfl_y lfm) (r * 8 + c * 2) = Some v" using assms by (auto simp: lfm_ok_def lnth_def)
  then have "unat v < length (lfthr lfi)" using assms(1) lnth_in by (fastforce simp: lfm_ok_def levels_ok_def list_all_iff)
  then have "levels_ok lfi ((lfl_uv lfm)[r * 2 + c := v])"
    using assms(1) set_update_subset_insert[of "lfl_uv lfm" "r * 2 + c" v] by (auto simp: lfm_ok_def levels_ok_def list_all_iff)
  then show ?thesis using v assms by (auto simp: uv_level_def lfm_ok_def)
qed

lemma uv_levels_ok:
  "lfm_ok lfi lfm \<Longrightarrow> r \<le> 4 \<Longrightarrow> list_all (\<lambda>c. c < 4) cs \<Longrightarrow> \<exists>l1. uv_levels r cs lfm = Some l1 \<and> lfm_ok lfi l1"
proof (induction cs arbitrary: lfm)
  case (Cons c cs)
  then have c: "c < 4" by simp
  obtain l1 where l1: "uv_level r c lfm = Some l1" "lfm_ok lfi l1" using uv_level_ok[OF Cons.prems(1), of r c] Cons.prems c by auto
  obtain l2 where "uv_level (r + 2) c l1 = Some l2" "lfm_ok lfi l2" using uv_level_ok[OF l1(2), of "r + 2" c] Cons.prems c by auto
  then show ?case using l1 Cons by simp
qed simp

lemma uv_fill_runs:
  assumes "Mk idx \<in> X" "r \<le> 4" shows "runs_in lf_look (\<lambda>m. c \<and> masks_ok lfi m) X (uv_fill idx r)"
proof -
  have "list_all (\<lambda>c. c < 4) [0..<MI_BLOCK_SIZE div 2]" by (simp add: MI_BLOCK_SIZE_def list_all_iff)
  note uv = uv_levels_ok[OF _ assms(2) this]
  show ?thesis
    unfolding uv_fill_def[abs_def]
  proof (rule runs_mask[OF _ assms(1)], rule runs_in_opt)
    fix lfm m assume "(c \<and> lfm_ok lfi lfm) \<and> masks_ok lfi m"
    then show "uv_levels r [0..<MI_BLOCK_SIZE div 2] lfm \<noteq> None" using uv by fastforce
  next
    fix lfm lfm1 assume l: "uv_levels r [0..<MI_BLOCK_SIZE div 2] lfm = Some lfm1"
    show "runs_in lf_look (\<lambda>m. (c \<and> lfm_ok lfi lfm) \<and> masks_ok lfi m) X (lfm_put idx lfm1)"
      using uv[of lfi lfm] l by (intro lfm_put_runs assms(1)) auto
  qed
qed

lemma uv_vert_runs:
  assumes X: "Mk idx \<in> X" and "Px ` prect buf stride (- 8) 32 0 (16 * int (length rs)) \<subseteq> X" "\<And>r. r \<in> set rs \<Longrightarrow> r \<le> 4"
  shows "runs_in lf_look (\<lambda>m. c \<and> masks_ok lfi m) X (uv_vert lfi idx stride rs m16 m8 m4 mi buf)"
  using assms(2,3)
proof (induction rs arbitrary: m16 m8 m4 mi buf c)
  case Nil
  then show ?case by (simp add: uv_vert.simps(1)[abs_def] runs_in_Some)
next
  case (Cons r rs)
  have r: "r \<le> 4" using Cons.prems by simp
  have "prect buf stride (- 8) 32 0 16 \<subseteq> prect buf stride (- 8) 32 0 (16 * int (length (r # rs)))" by (rule prect_at) simp_all
  then have X1: "Px ` prect buf stride (- 8) (8 * int 4) 0 16 \<subseteq> X" using Cons.prems(1) by auto
  have "prect (buf + 16 * stride) stride (- 8) 32 0 (16 * int (length rs)) \<subseteq> prect buf stride (- 8) 32 0 (16 * int (length (r # rs)))"
    by (rule prect_down) simp_all
  then have X2: "Px ` prect (buf + 16 * stride) stride (- 8) 32 0 (16 * int (length rs)) \<subseteq> X" using Cons.prems(1) by blast
  have row: "runs_in lf_look (\<lambda>m. (c \<and> lfm_ok lfi lfm) \<and> masks_ok lfi m) X
      (on_pix (filter_selectively_vert_row2 True buf stride a b d e lfi (lfl_uv lfm) (r * 2)))" for lfm a b d e
    using r by (intro on_pix_runs[OF filter_selectively_vert_row2_runs[where k = 4] X1]) (auto simp: lfm_ok_def)
  show ?case
    unfolding uv_vert.simps(2)[abs_def]
    by (intro runs_in_bind uv_fill_runs runs_mask row Cons.IH X X2 r) (use Cons.prems in auto)
qed

lemma uv_horiz_runs:
  assumes X: "Mk idx \<in> X" and "Px ` prect buf stride 0 32 (- 8) (8 * int (length rs)) \<subseteq> X" "\<And>r. r \<in> set rs \<Longrightarrow> r \<le> 6"
  shows "runs_in lf_look (\<lambda>m. c \<and> masks_ok lfi m) X (uv_horiz lfi idx stride mr r0 rs m16 m8 m4 mi buf)"
  using assms(2,3)
proof (induction rs arbitrary: m16 m8 m4 mi buf c)
  case Nil
  then show ?case by (simp add: uv_horiz.simps(1)[abs_def] runs_in_Some)
next
  case (Cons r rs)
  have r: "r \<le> 6" using Cons.prems by simp
  have "prect buf stride 0 32 (- 8) 8 \<subseteq> prect buf stride 0 32 (- 8) (8 * int (length (r # rs)))" by (rule prect_at) simp_all
  then have X1: "Px ` prect buf stride 0 (8 * int 4) (- 8) 8 \<subseteq> X" using Cons.prems(1) by auto
  have "prect (buf + 8 * stride) stride 0 32 (- 8) (8 * int (length rs)) \<subseteq> prect buf stride 0 32 (- 8) (8 * int (length (r # rs)))"
    by (rule prect_down) simp_all
  then have X2: "Px ` prect (buf + 8 * stride) stride 0 32 (- 8) (8 * int (length rs)) \<subseteq> X" using Cons.prems(1) by blast
  have cut: "unat (ucast (m AND 0xf) :: u32) < 2 ^ 4" for m :: u16 using cut_lt(2)[of "ucast m"] by (simp add: unsigned_and_eq)
  then have row: "runs_in lf_look (\<lambda>m. (c \<and> lfm_ok lfi lfm) \<and> masks_ok lfi m) X
      (on_pix (filter_selectively_horiz buf stride (if t then 0 else ucast (m16 AND 0xf)) (if t then 0 else ucast (m8 AND 0xf))
        (if t then 0 else ucast (m4 AND 0xf)) (if u then 0 else ucast (mi AND 0xf)) lfi (lfl_uv lfm) (r * 2)))" for lfm t u
    using r by (intro on_pix_runs[OF filter_selectively_horiz_runs[where k = 4] X1]) (auto simp: lfm_ok_def)
  show ?case
    unfolding uv_horiz.simps(2)[abs_def] Let_def
    by (intro runs_in_bind runs_mask row Cons.IH X X2) (use Cons.prems in auto)
qed

lemma filter_block_plane_uv_runs:
  assumes X: "Mk idx \<in> X" and P: "Px ` prect buf stride (- 8) 32 (- 8) 32 \<subseteq> X"
  shows "runs_in lf_look (\<lambda>m. c \<and> masks_ok lfi m) X (filter_block_plane_uv lfi idx stride buf mr r0)"
proof -
  have "prect buf stride (- 8) 32 0 (16 * int (length (sb_rows 4 mr r0))) \<subseteq> prect buf stride (- 8) 32 (- 8) 32"
    using sb_rows_cases(3)[of mr r0] by (intro prect_at) simp_all
  then have P1: "Px ` prect buf stride (- 8) 32 0 (16 * int (length (sb_rows 4 mr r0))) \<subseteq> X" using P by blast
  have "prect buf stride 0 32 (- 8) (8 * int (length (sb_rows 2 mr r0))) \<subseteq> prect buf stride (- 8) 32 (- 8) 32"
    using sb_rows_cases(2)[of mr r0] by (intro prect_at) simp_all
  then have P2: "Px ` prect buf stride 0 32 (- 8) (8 * int (length (sb_rows 2 mr r0))) \<subseteq> X" using P by blast
  show ?thesis
    unfolding filter_block_plane_uv_def[abs_def]
    by (intro runs_mask[OF _ X] runs_in_opt runs_in_bind uv_vert_runs[OF X P1] uv_horiz_runs[OF X P2] sb_rows_cases(5,6))
      (auto simp: lfm_ok_def TX_4X4_def TX_8X8_def TX_16X16_def)
qed

definition px_clamp :: "int \<Rightarrow> u8" where
  "px_clamp v = word_of_int (clamp_int v 0 255)"

lemma uint_px_clamp: "uint (px_clamp v) = clamp_int v 0 255"
  by (simp add: px_clamp_def clamp_int_def uint_word_of_int)

lemma px_clamp_same: "px_clamp (uint x) = x"
  using u8_range[of x] by (simp add: px_clamp_def clamp_int_def)

lemma clamp_xor: "signed_char_clamp v XOR 0x80 = px_clamp (v + 128)"
  by (rule word_uint_eq_iff[THEN iffD2]) (simp add: uint_clamp_xor uint_px_clamp)

text \<open>Filter 4 as a step of the four inner pixels, clamped to the range of a pixel.\<close>

lemma filter4_step:
  "\<exists>f1 f2 g. filter4 fm thr t = [(0, px_clamp (uint (t 0) - f1)), (- 1, px_clamp (uint (t (- 1)) + f2)),
       (1, px_clamp (uint (t 1) - g)), (- 2, px_clamp (uint (t (- 2)) + g))]
     \<and> \<bar>f1\<bar> \<le> 16 \<and> \<bar>f2\<bar> \<le> 16 \<and> \<bar>g\<bar> \<le> 8 \<and> (fm = 0 \<longrightarrow> f1 = 0 \<and> f2 = 0 \<and> g = 0)"
proof -
  obtain c where hev: "hev_mask thr (t (- 2)) (t (- 1)) (t 0) (t 1) = cond_mask c" by (simp add: hev_mask_def cond_mask_or)
  define f where "f = signed_char_clamp (sint (signed_char_clamp (sint (t (- 2) XOR 0x80) - sint (t 1 XOR 0x80)) AND cond_mask c)
      + 3 * (sint (t 0 XOR 0x80) - sint (t (- 1) XOR 0x80))) AND fm"
  define F1 where "F1 = signed_drop_bit 3 (signed_char_clamp (sint f + 4))"
  define F2 where "F2 = signed_drop_bit 3 (signed_char_clamp (sint f + 3))"
  define G where "G = (word_of_int ((sint F1 + 1) div 2) AND NOT (cond_mask c) :: u8)"
  have fm0: "f = 0" if "fm = 0" using that by (simp add: f_def)
  have F: "sint F1 = clamp_int (sint f + 4) (- 128) 127 div 8" "sint F2 = clamp_int (sint f + 3) (- 128) 127 div 8"
    by (simp_all only: F1_def F2_def sint_shift3 sint_clamp)
  have b: "\<bar>sint F1\<bar> \<le> 16" "\<bar>sint F2\<bar> \<le> 16" "- 16 \<le> sint F1" "sint F1 \<le> 15" unfolding F clamp_int_def by auto
  have G: "sint G = (if c then 0 else (sint F1 + 1) div 2)"
  proof (cases c)
    case False
    have "(sint F1 + 1) div 2 \<in> {- 8..8}" using b by auto
    then have "sint (word_of_int ((sint F1 + 1) div 2) :: u8) = (sint F1 + 1) div 2"
      by (simp add: sint_u8 uint_word_of_int mod_add_left_eq)
    then show ?thesis using False by (simp add: G_def cond_mask_def)
  qed (simp add: G_def cond_mask_def)
  have "filter4 fm thr t = [(0, signed_char_clamp (sint (t 0 XOR 0x80) - sint F1) XOR 0x80),
      (- 1, signed_char_clamp (sint (t (- 1) XOR 0x80) + sint F2) XOR 0x80), (1, signed_char_clamp (sint (t 1 XOR 0x80) - sint G) XOR 0x80),
      (- 2, signed_char_clamp (sint (t (- 2) XOR 0x80) + sint G) XOR 0x80)]"
    unfolding filter4_def Let_def hev f_def[symmetric] F1_def[symmetric] F2_def[symmetric] G_def[symmetric] by (rule refl)
  then have "filter4 fm thr t = [(0, px_clamp (uint (t 0) - sint F1)), (- 1, px_clamp (uint (t (- 1)) + sint F2)),
      (1, px_clamp (uint (t 1) - sint G)), (- 2, px_clamp (uint (t (- 2)) + sint G))]"
    by (simp only: clamp_xor sint_xor_80) (simp add: algebra_simps)
  moreover have "\<bar>sint G\<bar> \<le> 8" using b unfolding G by auto
  moreover have "sint F1 = 0 \<and> sint F2 = 0 \<and> sint G = 0" if "fm = 0" using fm0[OF that] unfolding F G by (simp add: clamp_int_def)
  ultimately show ?thesis using b by blast
qed

lemma bput_same: "bget b i = Some v \<Longrightarrow> bput i v b = Some b"
  by (auto simp: bget_def bput_def split: if_splits)

lemma bputs_same: "(\<And>i v. (i, v) \<in> set ws \<Longrightarrow> bget b i = Some v) \<Longrightarrow> bputs ws b = Some b"
proof (induction ws)
  case (Cons w ws)
  then show ?case by (cases w) (simp add: bput_same)
qed simp

lemma store_same:
  assumes "taps_ok b s st n" "\<And>k v. (k, v) \<in> set ws \<Longrightarrow> - n \<le> k \<and> k < n \<and> v = across b s st k"
  shows "store_taps s st ws b = Some b"
  unfolding store_taps_def
proof (rule bputs_same)
  fix i v assume "(i, v) \<in> set (map (\<lambda>(k, v). (s + k * st, v)) ws)"
  then obtain k where k: "(k, v) \<in> set ws" "i = s + k * st" by auto
  then have "bget b i \<noteq> None" using assms by (auto simp: taps_ok_def)
  then show "bget b i = Some v" using assms(2)[OF k(1)] k(2) by (auto simp: across_def bget_def split: if_splits)
qed

lemma filter4_off: "(k, v) \<in> set (filter4 0 thr t) \<Longrightarrow> - 4 \<le> k \<and> k < 4 \<and> v = t k"
  using filter4_step[of 0 thr t] by (auto simp: px_clamp_same)

text \<open>C16: An edge across which the pixels differ by more than the limits of its filter level is a real edge of the
  picture: none of the three filters changes a pixel there, however wide it is.\<close>

theorem lpf_keeps_edges:
  assumes ok: "taps_ok b s st 8" and off: "\<not> edge_on th (across b s st)"
  shows "lpf4 st th s b = Some b \<and> lpf8 st th s b = Some b \<and> lpf16 st th s b = Some b"
proof -
  let ?t = "across b s st"
  have ok4: "taps_ok b s st 4" using ok by (auto simp: taps_ok_def)
  have m: "edge_mask th ?t = 0" using off by (simp add: edge_mask_on cond_mask_0)
  have "store_taps s st (filter4 0 (hev_thr th) ?t) b = Some b" by (rule store_same[OF ok4]) (rule filter4_off)
  then show ?thesis
    using ok ok4 by (simp only: lpf4_def lpf8_def lpf16_def Let_def m filter8_def filter16_def simp_thms if_True if_False)
qed

lemma rnd_px_between:
  fixes v :: int assumes "2 ^ n * lo \<le> v" "v \<le> 2 ^ n * hi" "0 \<le> lo" "hi \<le> 255" "n \<noteq> 0"
  shows "lo \<le> uint (rnd_px n v) \<and> uint (rnd_px n v) \<le> hi"
proof -
  let ?q = "(v + 2 ^ (n - 1)) div 2 ^ n"
  have p: "(2 :: int) ^ n = 2 * 2 ^ (n - 1)" using assms(5) by (cases n) simp_all
  have "(2 ^ n * lo) div 2 ^ n \<le> ?q" using assms(1) by (intro zdiv_mono1) (simp_all add: add_increasing2)
  then have "lo \<le> ?q" by simp
  moreover have "?q \<le> (2 ^ n * hi + 2 ^ (n - 1)) div 2 ^ n" using assms(2) by (intro zdiv_mono1) simp_all
  then have "?q \<le> hi" using p by simp
  ultimately show ?thesis using assms(3,4) by (simp add: rnd_px_def uint_word_of_int)
qed

lemma filter8_between:
  assumes on: "flat \<noteq> 0" "fm \<noteq> 0" and t: "\<And>i. - 4 \<le> i \<Longrightarrow> i < 4 \<Longrightarrow> lo \<le> uint (t i) \<and> uint (t i) \<le> hi" and kv: "(k, v) \<in> set (filter8 fm thr flat t)"
  shows "lo \<le> uint v \<and> uint v \<le> hi"
proof -
  define lo' where "lo' = max lo 0"
  define hi' where "hi' = min hi 255"
  have r: "lo' \<le> uint (t i) \<and> uint (t i) \<le> hi'" if "- 4 \<le> i" "i < 4" for i
    using t[OF that] u8_range[of "t i"] by (simp add: lo'_def hi'_def)
  have b: "lo' \<le> uint (t (- 4))" "lo' \<le> uint (t (- 3))" "lo' \<le> uint (t (- 2))" "lo' \<le> uint (t (- 1))"
      "lo' \<le> uint (t 0)" "lo' \<le> uint (t 1)" "lo' \<le> uint (t 2)" "lo' \<le> uint (t 3)"
      "uint (t (- 4)) \<le> hi'" "uint (t (- 3)) \<le> hi'" "uint (t (- 2)) \<le> hi'" "uint (t (- 1)) \<le> hi'"
      "uint (t 0) \<le> hi'" "uint (t 1) \<le> hi'" "uint (t 2) \<le> hi'" "uint (t 3) \<le> hi'"
    by (rule r[THEN conjunct1] r[THEN conjunct2]; simp)+
  have c: "0 \<le> lo'" "hi' \<le> 255" by (simp_all add: lo'_def hi'_def)
  have "lo' \<le> uint v \<and> uint v \<le> hi'"
    using kv on unfolding filter8_def Let_def
    by (simp only: simp_thms if_True set_simps insert_iff prod.inject empty_iff) (elim disjE; elim conjE; hypsubst; intro rnd_px_between c; use b in simp)
  then show ?thesis by (simp add: lo'_def hi'_def)
qed

lemma filter16_between:
  assumes on: "flat2 \<noteq> 0" "flat \<noteq> 0" "fm \<noteq> 0" and t: "\<And>i. - 8 \<le> i \<Longrightarrow> i < 8 \<Longrightarrow> lo \<le> uint (t i) \<and> uint (t i) \<le> hi"
    and kv: "(k, v) \<in> set (filter16 fm thr flat flat2 t)"
  shows "lo \<le> uint v \<and> uint v \<le> hi"
proof -
  define lo' where "lo' = max lo 0"
  define hi' where "hi' = min hi 255"
  have r: "lo' \<le> uint (t i) \<and> uint (t i) \<le> hi'" if "- 8 \<le> i" "i < 8" for i
    using t[OF that] u8_range[of "t i"] by (simp add: lo'_def hi'_def)
  have b: "lo' \<le> uint (t (- 8))" "lo' \<le> uint (t (- 7))" "lo' \<le> uint (t (- 6))" "lo' \<le> uint (t (- 5))"
      "lo' \<le> uint (t (- 4))" "lo' \<le> uint (t (- 3))" "lo' \<le> uint (t (- 2))" "lo' \<le> uint (t (- 1))"
      "lo' \<le> uint (t 0)" "lo' \<le> uint (t 1)" "lo' \<le> uint (t 2)" "lo' \<le> uint (t 3)"
      "lo' \<le> uint (t 4)" "lo' \<le> uint (t 5)" "lo' \<le> uint (t 6)" "lo' \<le> uint (t 7)"
      "uint (t (- 8)) \<le> hi'" "uint (t (- 7)) \<le> hi'" "uint (t (- 6)) \<le> hi'" "uint (t (- 5)) \<le> hi'"
      "uint (t (- 4)) \<le> hi'" "uint (t (- 3)) \<le> hi'" "uint (t (- 2)) \<le> hi'" "uint (t (- 1)) \<le> hi'"
      "uint (t 0) \<le> hi'" "uint (t 1) \<le> hi'" "uint (t 2) \<le> hi'" "uint (t 3) \<le> hi'"
      "uint (t 4) \<le> hi'" "uint (t 5) \<le> hi'" "uint (t 6) \<le> hi'" "uint (t 7) \<le> hi'"
    by (rule r[THEN conjunct1] r[THEN conjunct2]; simp)+
  have c: "0 \<le> lo'" "hi' \<le> 255" by (simp_all add: lo'_def hi'_def)
  have "lo' \<le> uint v \<and> uint v \<le> hi'"
    using kv on unfolding filter16_def Let_def
    by (simp only: simp_thms if_True set_simps insert_iff prod.inject empty_iff) (elim disjE; elim conjE; hypsubst; intro rnd_px_between c; use b in simp)
  then show ?thesis by (simp add: lo'_def hi'_def)
qed

lemma filter4_close: "(k, v) \<in> set (filter4 fm thr t) \<Longrightarrow> \<bar>uint v - uint (t k)\<bar> \<le> 16"
proof -
  assume kv: "(k, v) \<in> set (filter4 fm thr t)"
  have cl: "\<bar>clamp_int (uint x + d) 0 255 - uint x\<bar> \<le> \<bar>d\<bar>" for d and x :: u8 using u8_range[of x] by (auto simp: clamp_int_def)
  obtain f1 f2 g where f: "filter4 fm thr t = [(0, px_clamp (uint (t 0) - f1)), (- 1, px_clamp (uint (t (- 1)) + f2)),
       (1, px_clamp (uint (t 1) - g)), (- 2, px_clamp (uint (t (- 2)) + g))]" "\<bar>f1\<bar> \<le> 16" "\<bar>f2\<bar> \<le> 16" "\<bar>g\<bar> \<le> 8"
    using filter4_step[of fm thr t] by blast
  then show ?thesis
    using kv cl[of "t 0" "- f1"] cl[of "t (- 1)" f2] cl[of "t 1" "- g"] cl[of "t (- 2)" g] by (auto simp: uint_px_clamp)
qed

text \<open>C15: The filters do not wrap around. Where the picture is flat the stored pixels are rounded averages and lie
  between the smallest and the largest of the sixteen pixels across the edge; elsewhere a stored pixel
  moves by at most sixteen.\<close>

theorem lpf_stays_close:
  assumes "(k, v) \<in> set (filter16 fm thr flat flat2 t)"
  shows "if flat \<noteq> 0 \<and> fm \<noteq> 0 then Min (uint ` t ` {- 8..<8}) \<le> uint v \<and> uint v \<le> Max (uint ` t ` {- 8..<8})
    else \<bar>uint v - uint (t k)\<bar> \<le> 16"
proof -
  define lo hi where "lo = Min (uint ` t ` {- 8..<8})" and "hi = Max (uint ` t ` {- 8..<8})"
  have r: "lo \<le> uint (t i) \<and> uint (t i) \<le> hi" if "- 8 \<le> i" "i < 8" for i
  proof -
    have "uint (t i) \<in> uint ` t ` {- 8..<8}" using that by (intro imageI) simp
    then show ?thesis unfolding lo_def hi_def by (intro conjI Min_le Max_ge) simp_all
  qed
  have "if flat \<noteq> 0 \<and> fm \<noteq> 0 then lo \<le> uint v \<and> uint v \<le> hi else \<bar>uint v - uint (t k)\<bar> \<le> 16"
  proof (cases "flat \<noteq> 0 \<and> fm \<noteq> 0")
    case True
    have "lo \<le> uint v \<and> uint v \<le> hi"
    proof (cases "flat2 = 0")
      case f2: True
      then have "\<not> (flat2 \<noteq> 0 \<and> flat \<noteq> 0 \<and> fm \<noteq> 0)" by blast
      then have kv: "(k, v) \<in> set (filter8 fm thr flat t)" using assms by (simp only: filter16_def if_False)
      have r4: "lo \<le> uint (t i) \<and> uint (t i) \<le> hi" if "- 4 \<le> i" "i < 4" for i by (rule r) (use that in simp_all)
      show ?thesis using filter8_between[OF _ _ r4 kv] True by blast
    next
      case False
      show ?thesis using filter16_between[OF False _ _ r assms] True by blast
    qed
    then show ?thesis using True by (simp only: if_True simp_thms)
  next
    case False
    then have "\<not> (flat2 \<noteq> 0 \<and> flat \<noteq> 0 \<and> fm \<noteq> 0)" by blast
    then have "(k, v) \<in> set (filter4 fm thr t)" using assms by (simp only: filter16_def filter8_def if_False False)
    then have "\<bar>uint v - uint (t k)\<bar> \<le> 16" by (rule filter4_close)
    then show ?thesis using False by (simp only: if_False)
  qed
  then show ?thesis unfolding lo_def hi_def .
qed

theorem lpf_keeps_edges_witness:
  "lpf16 1 \<lparr>mblim = 20, lim = 5, hev_thr = 1\<rparr> 8 [10, 10, 10, 10, 10, 10, 10, 10, 200, 200, 200, 200, 200, 200, 200, 200]
     = Some [10, 10, 10, 10, 10, 10, 10, 10, 200, 200, 200, 200, 200, 200, 200, 200]"
proof -
  let ?b = "[10, 10, 10, 10, 10, 10, 10, 10, 200, 200, 200, 200, 200, 200, 200, 200] :: u8 list"
  let ?th = "\<lparr>mblim = 20, lim = 5, hev_thr = 1\<rparr>"
  have "taps_ok ?b 8 1 8" by code_simp
  moreover have "\<not> edge_on ?th (across ?b 8 1)" by code_simp
  ultimately show ?thesis by (rule lpf_keeps_edges[THEN conjunct2, THEN conjunct2])
qed

text \<open>Next to a flat step from 10 to 13, the first pixel after the edge becomes 12. In a steep step the filter for
  edges moves the same pixel from 40 to 36.\<close>

theorem lpf_stays_close_witness:
  "(0, 12) \<in> set (filter16 (- 1) 1 (- 1) (- 1) (\<lambda>k. if k < 0 then 10 else 13))
    \<and> Min (uint ` (\<lambda>k. if k < 0 then 10 else 13 :: u8) ` {- 8..<8 :: int}) \<le> uint (12 :: u8)
    \<and> uint (12 :: u8) \<le> Max (uint ` (\<lambda>k. if k < 0 then 10 else 13 :: u8) ` {- 8..<8 :: int})
    \<and> (0, 36) \<in> set (filter16 (- 1) 1 0 0 (\<lambda>k. if k < 0 then 30 else 40)) \<and> \<bar>uint (36 :: u8) - uint (40 :: u8)\<bar> \<le> 16"
proof -
  let ?t = "\<lambda>k :: int. if k < 0 then 10 else 13 :: u8" and ?u = "\<lambda>k :: int. if k < 0 then 30 else 40 :: u8"
  have m: "(0, 12) \<in> set (filter16 (- 1) 1 (- 1) (- 1) ?t)" by code_simp
  have n: "(0, 36) \<in> set (filter16 (- 1) 1 0 0 ?u)" by code_simp
  from lpf_stays_close[OF m] lpf_stays_close[OF n] m n show ?thesis by simp
qed

end
