(* ===== verification/Rs_LfWave.thy ===== *)
theory Rs_LfWave
  imports Rs_LoopFilter
begin

text \<open>
  The threads of the loop filter (\<open>kernel\<close> and \<open>vp9_loop_filter_rows_work_proc\<close> of
  \<open>cpu_ref/rsCpuIntrinsicLoopFilter.cpp\<close>). Workers take rows of superblocks from a counter and filter them
  two superblocks at a time; an entry of the chart says how far a row is, and a worker starts a pair only
  when the row above is two pairs ahead. The state holds the frame and the masks, the chart, the counters
  and the place of every thread; a step is one call of a plane filter or one access to the shared counters,
  and \<open>wave_step\<close> lets any thread go on. A call or an access out of bounds has no step.

  The invariant keeps for every row the calls that are still to be made. Calls of different rows that the
  chart lets overlap have disjoint footprints, so making the calls that are left, row by row, always gives the
  result of the serial filter.
\<close>

section \<open>One row of superblocks\<close>

record lfprm =
  start :: int
  stop :: int
  num_planes :: int
  mi_rows :: int
  mi_cols :: int
  y_offset :: int
  u_offset :: int
  v_offset :: int
  y_stride :: int
  uv_stride :: int
  lf_info :: LoopFilterInfoN

text \<open>A call of a plane filter: the index of the mask, the place in the frame and the first row of blocks.\<close>

datatype lf_call = CallY int int int | CallUV int int int

fun run_call :: "lfprm \<Rightarrow> lf_call \<Rightarrow> lfmem \<Rightarrow> lfmem option" where
  "run_call prm (CallY idx buf mi_row) = filter_block_plane_y (lf_info prm) idx (y_stride prm) buf (mi_rows prm) mi_row"
| "run_call prm (CallUV idx buf mi_row) = filter_block_plane_uv (lf_info prm) idx (uv_stride prm) buf (mi_rows prm) mi_row"

fun run_calls :: "lfprm \<Rightarrow> lf_call list \<Rightarrow> lfmem \<Rightarrow> lfmem option" where
  "run_calls prm [] m = Some m"
| "run_calls prm (c # cs) m = do { m1 \<leftarrow> run_call prm c m; run_calls prm cs m1 }"

text \<open>The variables of a worker inside of a row.\<close>

record lfloc =
  mi_col :: int
  lfm_idx :: int
  buf0 :: int
  buf1 :: int
  buf2 :: int

definition row_locals :: "lfprm \<Rightarrow> int \<Rightarrow> lfloc" where
  "row_locals prm sb_row =
     (let mi_row = sb_row * 8 + start prm
      in \<lparr>mi_col = 0, lfm_idx = sb_row * ((mi_cols prm + 7) div 8),
          buf0 = y_offset prm + mi_row * y_stride prm * 8,
          buf1 = u_offset prm + mi_row * uv_stride prm * 4,
          buf2 = v_offset prm + mi_row * uv_stride prm * 4\<rparr>)"

text \<open>The body of the loop along a row: two superblocks of luma, then their chroma. The result is the
  sequence of the calls and the variables after them.\<close>

definition pair_body :: "lfprm \<Rightarrow> int \<Rightarrow> lfloc \<Rightarrow> lf_call list \<times> lfloc" where
  "pair_body prm mi_row l =
     (let col = mi_col l + 8;
          two = col < mi_cols prm;
          idx1 = (if two then lfm_idx l + 1 else lfm_idx l);
          b0 = (if two then buf0 l + 64 else buf0 l);
          ys = CallY (lfm_idx l) (buf0 l) mi_row # (if two then [CallY idx1 b0 mi_row] else [])
      in if num_planes prm > 1
         then let idx2 = idx1 - 1;
                  idx3 = (if two then idx2 + 1 else idx2);
                  b1 = (if two then buf1 l + 32 else buf1 l);
                  b2 = (if two then buf2 l + 32 else buf2 l);
                  uvs = [CallUV idx2 (buf1 l) mi_row, CallUV idx2 (buf2 l) mi_row]
                    @ (if two then [CallUV idx3 b1 mi_row, CallUV idx3 b2 mi_row] else [])
              in (ys @ uvs, \<lparr>mi_col = col + 8, lfm_idx = idx3 + 1, buf0 = b0 + 64, buf1 = b1 + 32, buf2 = b2 + 32\<rparr>)
         else (ys, \<lparr>mi_col = col + 8, lfm_idx = idx1 + 1, buf0 = b0 + 64, buf1 = buf1 l, buf2 = buf2 l\<rparr>))"

lemma pair_body_col: "mi_col (snd (pair_body prm r l)) = mi_col l + 16"
  by (simp add: pair_body_def Let_def)

function calls_from :: "lfprm \<Rightarrow> int \<Rightarrow> lfloc \<Rightarrow> lf_call list" where
  "calls_from prm mi_row l =
     (if mi_col l < mi_cols prm
      then fst (pair_body prm mi_row l) @ calls_from prm mi_row (snd (pair_body prm mi_row l)) else [])"
  by pat_completeness auto
termination
  by (relation "measure (\<lambda>(prm, r, l). nat (mi_cols prm - mi_col l))") (auto simp: pair_body_col)

declare calls_from.simps [simp del]

definition mi_row_of :: "lfprm \<Rightarrow> nat \<Rightarrow> int" where
  "mi_row_of prm r = int r * 8 + start prm"

definition row_calls :: "lfprm \<Rightarrow> nat \<Rightarrow> lf_call list" where
  "row_calls prm r = calls_from prm (mi_row_of prm r) (row_locals prm (int r))"

text \<open>The filter by one thread: the rows from the top, each from the left.\<close>

definition nrows :: "lfprm \<Rightarrow> nat" where
  "nrows prm = nat ((stop prm - start prm + 7) div 8)"

definition lf_serial :: "lfprm \<Rightarrow> lfmem \<Rightarrow> lfmem option" where
  "lf_serial prm m = run_calls prm (concat (map (row_calls prm) [0..<nrows prm])) m"

section \<open>The threads\<close>

datatype kpc = KSignal nat | KCheck | KWait | KDone

datatype lf_pc = WStart | WWait | WFetch | WCol nat lfloc | WRun nat "lf_call list" lfloc | WFinish

record wave =
  lw_mem :: lfmem
  chart :: "int list"
  sb_row_pro :: nat
  doing :: int
  kern :: kpc
  workers :: "lf_pc list"

definition MAX_SB_ROW :: nat where "MAX_SB_ROW = 64"

definition lf_launch :: "lfmem \<Rightarrow> lf_pc list \<Rightarrow> wave" where
  "lf_launch m ws =
     \<lparr>lw_mem = m, chart = (replicate MAX_SB_ROW 0)[0 := 0x0fffffff], sb_row_pro = 0, doing = int (length ws),
      kern = KSignal 0, workers = ws\<rparr>"

text \<open>The constructor starts the threads and does not wait for them.\<close>

definition lf_threads :: "nat \<Rightarrow> lf_pc list" where
  "lf_threads n = replicate n WStart"

text \<open>The parameters as the client sets them. The data are \<open>int\<close>s; a read past their end is undefined.\<close>

definition setGlobalVar :: "nat \<Rightarrow> int list \<Rightarrow> lfprm \<Rightarrow> lfprm option" where
  "setGlobalVar slot dptr prm =
     (if slot = 0
      then do { a \<leftarrow> lnth dptr 0; b \<leftarrow> lnth dptr 1; c \<leftarrow> lnth dptr 2; d \<leftarrow> lnth dptr 3; e \<leftarrow> lnth dptr 4;
                Some (prm\<lparr>start := a, stop := b, num_planes := c, mi_rows := d, mi_cols := e\<rparr>) }
      else if slot = 1
      then do { a \<leftarrow> lnth dptr 0; b \<leftarrow> lnth dptr 1; c \<leftarrow> lnth dptr 2; d \<leftarrow> lnth dptr 3; e \<leftarrow> lnth dptr 4;
                Some (prm\<lparr>y_offset := a, u_offset := b, v_offset := c, y_stride := d, uv_stride := e\<rparr>) }
      else Some prm)"

text \<open>A signal wakes the thread that waits, and is lost otherwise.\<close>

fun wake :: "lf_pc \<Rightarrow> lf_pc" where
  "wake WWait = WFetch"
| "wake pc = pc"

definition kernel_step :: "wave \<Rightarrow> wave option" where
  "kernel_step st =
     (case kern st of
        KSignal i \<Rightarrow>
          Some (if i < length (workers st) then st\<lparr>kern := KSignal (i + 1), workers := (workers st)[i := wake (workers st ! i)]\<rparr>
                else st\<lparr>kern := KCheck\<rparr>)
      | KCheck \<Rightarrow> Some (st\<lparr>kern := (if doing st \<noteq> 0 then KWait else KDone)\<rparr>)
      | KWait \<Rightarrow> None
      | KDone \<Rightarrow> None)"

definition chart_inc :: "nat \<Rightarrow> wave \<Rightarrow> wave option" where
  "chart_inc i st = (if i < length (chart st) then Some (st\<lparr>chart := (chart st)[i := chart st ! i + 1]\<rparr>) else None)"

definition set_pc :: "nat \<Rightarrow> lf_pc \<Rightarrow> wave \<Rightarrow> wave" where
  "set_pc w pc st = st\<lparr>workers := (workers st)[w := pc]\<rparr>"

definition lf_worker_step :: "lfprm \<Rightarrow> nat \<Rightarrow> wave \<Rightarrow> wave option" where
  "lf_worker_step prm w st =
     (case workers st ! w of
        WStart \<Rightarrow> Some (set_pc w WWait st)
      | WWait \<Rightarrow> None
      | WFetch \<Rightarrow>
          (let sb_row = sb_row_pro st
           in Some (set_pc w (if mi_row_of prm sb_row < stop prm then WCol sb_row (row_locals prm (int sb_row)) else WFinish)
                (st\<lparr>sb_row_pro := sb_row + 1\<rparr>)))
      | WCol sb_row l \<Rightarrow>
          (if mi_col l < mi_cols prm
           then (if sb_row + 1 < length (chart st) \<and> chart st ! (sb_row + 1) + 2 \<le> chart st ! sb_row
                 then Some (set_pc w (case pair_body prm (mi_row_of prm sb_row) l of (cs, l1) \<Rightarrow> WRun sb_row cs l1) st)
                 else None)
           else map_option (set_pc w WFetch) (chart_inc (sb_row + 1) st))
      | WRun sb_row [] l \<Rightarrow> map_option (set_pc w (WCol sb_row l)) (chart_inc (sb_row + 1) st)
      | WRun sb_row (c # cs) l \<Rightarrow>
          do { m1 \<leftarrow> run_call prm c (lw_mem st); Some (set_pc w (WRun sb_row cs l) (st\<lparr>lw_mem := m1\<rparr>)) }
      | WFinish \<Rightarrow>
          (let d = doing st - 1
           in Some (set_pc w WStart (st\<lparr>doing := d, kern := (if d = 0 \<and> kern st = KWait then KDone else kern st)\<rparr>))))"

inductive wave_step :: "lfprm \<Rightarrow> wave \<Rightarrow> wave \<Rightarrow> bool" for prm where
  wave_kernel: "kernel_step st = Some st' \<Longrightarrow> wave_step prm st st'"
| wave_worker: "w < length (workers st) \<Longrightarrow> lf_worker_step prm w st = Some st' \<Longrightarrow> wave_step prm st st'"

section \<open>Regions\<close>

definition ncols :: "lfprm \<Rightarrow> int" where
  "ncols prm = (mi_cols prm + 7) div 8"

definition plane_lo :: "lfprm \<Rightarrow> int \<Rightarrow> int \<Rightarrow> int \<Rightarrow> int" where
  "plane_lo prm off st h = off + (h div 8 * start prm - 8) * st - 8"

definition plane_hi :: "lfprm \<Rightarrow> int \<Rightarrow> int \<Rightarrow> int \<Rightarrow> int" where
  "plane_hi prm off st h = off + (h div 8 * start prm + h * int (nrows prm)) * st"

text \<open>A frame whose planes have a border of eight pixels and lie apart, with no more rows of superblocks
  than the chart has places for. A frame with chroma is more than one superblock wide.\<close>

definition apart :: "int \<Rightarrow> int \<Rightarrow> int \<Rightarrow> int \<Rightarrow> bool" where
  "apart lo hi lo' hi' \<longleftrightarrow> hi \<le> lo' \<or> hi' \<le> lo"

definition frame_ok :: "lfprm \<Rightarrow> bool" where
  "frame_ok prm \<longleftrightarrow>
     0 \<le> mi_cols prm \<and> mi_cols prm < 2 ^ 31 \<and> nrows prm < MAX_SB_ROW
     \<and> 64 * ncols prm + 8 \<le> y_stride prm
     \<and> (num_planes prm > 1 \<longrightarrow>
          ncols prm \<noteq> 1 \<and> 32 * ncols prm + 8 \<le> uv_stride prm
          \<and> apart (plane_lo prm (y_offset prm) (y_stride prm) 64) (plane_hi prm (y_offset prm) (y_stride prm) 64)
                  (plane_lo prm (u_offset prm) (uv_stride prm) 32) (plane_hi prm (u_offset prm) (uv_stride prm) 32)
          \<and> apart (plane_lo prm (y_offset prm) (y_stride prm) 64) (plane_hi prm (y_offset prm) (y_stride prm) 64)
                  (plane_lo prm (v_offset prm) (uv_stride prm) 32) (plane_hi prm (v_offset prm) (uv_stride prm) 32)
          \<and> apart (plane_lo prm (u_offset prm) (uv_stride prm) 32) (plane_hi prm (u_offset prm) (uv_stride prm) 32)
                  (plane_lo prm (v_offset prm) (uv_stride prm) 32) (plane_hi prm (v_offset prm) (uv_stride prm) 32))"

text \<open>The part of a plane that a row of superblocks of height \<open>h\<close> uses, columns \<open>x0\<close> to \<open>x1\<close>.\<close>

definition plane_part :: "lfprm \<Rightarrow> int \<Rightarrow> int \<Rightarrow> int \<Rightarrow> nat \<Rightarrow> int \<Rightarrow> int \<Rightarrow> int set" where
  "plane_part prm off st h r x0 x1 = prect (off + (h div 8 * start prm + h * int r) * st) st (x0 - 8) x1 (- 8) h"

definition lf_region :: "lfprm \<Rightarrow> nat \<Rightarrow> int \<Rightarrow> int \<Rightarrow> lfaddr set" where
  "lf_region prm r x0 x1 =
     Mk ` {int r * ncols prm..<(int r + 1) * ncols prm}
     \<union> Px ` plane_part prm (y_offset prm) (y_stride prm) 64 r (64 * x0) (64 * x1)
     \<union> (if num_planes prm > 1
        then Px ` plane_part prm (u_offset prm) (uv_stride prm) 32 r (32 * x0) (32 * x1)
           \<union> Px ` plane_part prm (v_offset prm) (uv_stride prm) 32 r (32 * x0) (32 * x1)
        else {})"

fun call_fp :: "lfprm \<Rightarrow> lf_call \<Rightarrow> lfaddr set" where
  "call_fp prm (CallY idx buf mi_row) = insert (Mk idx) (Px ` prect buf (y_stride prm) (- 8) 64 (- 8) 64)"
| "call_fp prm (CallUV idx buf mi_row) = insert (Mk idx) (Px ` prect buf (uv_stride prm) (- 8) 32 (- 8) 32)"

lemma run_call_runs: "runs_in lf_look (masks_ok (lf_info prm)) (call_fp prm c) (run_call prm c)"
proof (cases c)
  case (CallY idx buf r0)
  then show ?thesis unfolding CallY call_fp.simps run_call.simps
    by (intro filter_block_plane_y_runs[where c = True, simplified]) auto
next
  case (CallUV idx buf r0)
  then show ?thesis unfolding CallUV call_fp.simps run_call.simps
    by (intro filter_block_plane_uv_runs[where c = True, simplified]) auto
qed

text \<open>Two places of a plane are the same only when row and column are.\<close>

lemma row_col_unique:
  fixes st :: int
  assumes "a * st + x = b * st + y" "- 8 \<le> x" "x < st - 8" "- 8 \<le> y" "y < st - 8" shows "a = b \<and> x = y"
proof -
  have "a = (a * st + (x + 8)) div st" using assms(2,3) by simp
  also have "\<dots> = (b * st + (y + 8)) div st" using assms(1) by (simp add: add.assoc[symmetric])
  also have "\<dots> = b" using assms(4,5) by simp
  finally show ?thesis using assms(1) by simp
qed

lemma part_in_plane:
  assumes "r < nrows prm" "0 \<le> x0" "x1 + 8 \<le> st" "h \<in> {32, 64}" "l \<in> plane_part prm off st h r x0 x1"
  shows "plane_lo prm off st h \<le> l" "l < plane_hi prm off st h"
proof -
  obtain x y where xy: "l = off + (h div 8 * start prm + h * int r) * st + y * st + x" "x0 - 8 \<le> x" "x < x1" "- 8 \<le> y" "y < h"
    using assms(5) by (auto simp: plane_part_def prect_def)
  let ?a = "h div 8 * start prm"
  have l: "l = off + (?a + h * int r + y) * st + x" using xy(1) by (simp add: algebra_simps)
  have st: "0 \<le> st" using assms(2,3) xy(2,3) by linarith
  have "(?a - 8) * st \<le> (?a + h * int r + y) * st"
    using xy(4) st assms(4) by (intro mult_right_mono) auto
  then show "plane_lo prm off st h \<le> l" using l xy(2) assms(2) by (simp add: plane_lo_def)
  have "h * int r + h \<le> h * int (nrows prm)"
    using assms(1,4) by (auto simp flip: distrib_left[of h _ 1, simplified] intro!: mult_left_mono)
  then have "(?a + h * int r + y + 1) * st \<le> (?a + h * int (nrows prm)) * st"
    using xy(5) st by (intro mult_right_mono) simp_all
  moreover have "(?a + h * int r + y + 1) * st = (?a + h * int r + y) * st + st" by (simp add: algebra_simps)
  ultimately show "l < plane_hi prm off st h" using l xy(3) assms(3) by (simp add: plane_hi_def)
qed

lemma parts_disjoint:
  assumes "r' < r" "r' + 1 < r \<or> x1 + 8 \<le> x0'" "0 \<le> x0" "0 \<le> x0'" "x1 + 8 \<le> st" "x1' + 8 \<le> st" "h \<in> {32, 64}"
  shows "plane_part prm off st h r' x0' x1' \<inter> plane_part prm off st h r x0 x1 = {}"
proof (rule ccontr)
  let ?a = "h div 8 * start prm"
  assume "\<not> ?thesis"
  then obtain x y x' y' where
      e: "off + (?a + h * int r') * st + y' * st + x' = off + (?a + h * int r) * st + y * st + x"
      and b: "x0 - 8 \<le> x" "x < x1" "- 8 \<le> y" "y < h" "x0' - 8 \<le> x'" "x' < x1'" "- 8 \<le> y'" "y' < h"
    by (auto simp: plane_part_def prect_def)
  have "(?a + h * int r' + y') * st + x' = (?a + h * int r + y) * st + x" using e by (simp add: algebra_simps)
  then have "?a + h * int r' + y' = ?a + h * int r + y \<and> x' = x" by (rule row_col_unique) (use b assms in linarith)+
  then have "h * int r' + y' = h * int r + y" "x' = x" by simp_all
  then show False using assms(1,2,7) b by auto
qed

text \<open>The variables at the start of pair \<open>j\<close> of a row.\<close>

definition loc_at :: "lfprm \<Rightarrow> nat \<Rightarrow> nat \<Rightarrow> lfloc" where
  "loc_at prm r j =
     \<lparr>mi_col = 16 * int j, lfm_idx = int r * ncols prm + 2 * int j,
      buf0 = y_offset prm + (8 * start prm + 64 * int r) * y_stride prm + 128 * int j,
      buf1 = u_offset prm + (4 * start prm + 32 * int r) * uv_stride prm + (if num_planes prm > 1 then 64 * int j else 0),
      buf2 = v_offset prm + (4 * start prm + 32 * int r) * uv_stride prm + (if num_planes prm > 1 then 64 * int j else 0)\<rparr>"

definition l_ok :: "lfprm \<Rightarrow> nat \<Rightarrow> nat \<Rightarrow> lfloc \<Rightarrow> bool" where
  "l_ok prm r j l \<longleftrightarrow> mi_col l = 16 * int j \<and> (mi_col l < mi_cols prm \<longrightarrow> l = loc_at prm r j)"

lemma l_ok_row: "l_ok prm r 0 (row_locals prm (int r))"
  by (simp add: l_ok_def loc_at_def row_locals_def ncols_def Let_def algebra_simps)

lemma l_ok_next:
  assumes "l_ok prm r j l" "mi_col l < mi_cols prm" shows "l_ok prm r (Suc j) (snd (pair_body prm mr l))"
  using assms by (auto simp: l_ok_def loc_at_def pair_body_def Let_def algebra_simps)

lemma region_mono:
  assumes "x0' \<le> x0" "x1 \<le> x1'" shows "lf_region prm r x0 x1 \<subseteq> lf_region prm r x0' x1'"
proof -
  have "plane_part prm off st h r (k * x0) (k * x1) \<subseteq> plane_part prm off st h r (k * x0') (k * x1')" if "0 \<le> k" for off st h k
    unfolding plane_part_def using assms that by (intro prect_at) (simp_all add: mult_left_mono)
  from this[of 64] this[of 32] show ?thesis unfolding lf_region_def by (auto simp: image_mono) blast+
qed

lemma call_fp_region:
  assumes "int r * ncols prm \<le> idx" "idx < (int r + 1) * ncols prm" "64 * x0 \<le> d" "d + 64 \<le> 64 * x1"
  shows "call_fp prm (CallY idx (y_offset prm + (8 * start prm + 64 * int r) * y_stride prm + d) mr) \<subseteq> lf_region prm r x0 x1"
proof -
  have "prect (y_offset prm + (8 * start prm + 64 * int r) * y_stride prm + d) (y_stride prm) (- 8) 64 (- 8) 64
      \<subseteq> plane_part prm (y_offset prm) (y_stride prm) 64 r (64 * x0) (64 * x1)"
    unfolding plane_part_def using assms(3,4) by (simp, intro prect_right) simp_all
  then show ?thesis unfolding lf_region_def using assms(1,2) by auto
qed

lemma call_fp_region_uv:
  assumes "num_planes prm > 1" "off \<in> {u_offset prm, v_offset prm}"
    "int r * ncols prm \<le> idx" "idx < (int r + 1) * ncols prm" "32 * x0 \<le> d" "d + 32 \<le> 32 * x1"
  shows "call_fp prm (CallUV idx (off + (4 * start prm + 32 * int r) * uv_stride prm + d) mr) \<subseteq> lf_region prm r x0 x1"
proof -
  have "prect (off + (4 * start prm + 32 * int r) * uv_stride prm + d) (uv_stride prm) (- 8) 32 (- 8) 32
      \<subseteq> plane_part prm off (uv_stride prm) 32 r (32 * x0) (32 * x1)"
    unfolding plane_part_def using assms(5,6) by (simp, intro prect_right) simp_all
  then show ?thesis unfolding lf_region_def using assms(1-4) by auto
qed

lemma pair_region:
  assumes ok: "frame_ok prm" and l: "l_ok prm r j l" "mi_col l < mi_cols prm" and c: "c \<in> set (fst (pair_body prm mr l))"
  shows "call_fp prm c \<subseteq> lf_region prm r (2 * int j) (min (2 * int j + 2) (ncols prm))"
proof -
  have l': "l = loc_at prm r j" "16 * int j < mi_cols prm" using l by (auto simp: l_ok_def)
  let ?i = "int r * ncols prm + 2 * int j" and ?x = "min (2 * int j + 2) (ncols prm)"
  let ?Y = "y_offset prm + (8 * start prm + 64 * int r) * y_stride prm"
  let ?C = "\<lambda>off. off + (4 * start prm + 32 * int r) * uv_stride prm"
  show ?thesis
  proof (cases "16 * int j + 8 < mi_cols prm")
    case True
    then have "2 * int j + 2 \<le> ncols prm" by (simp add: ncols_def)
    then have n: "?x = 2 * int j + 2" "?i + 2 \<le> (int r + 1) * ncols prm" by (simp_all add: algebra_simps)
    from c True consider "c = CallY ?i (?Y + 128 * int j) mr" | "c = CallY (?i + 1) (?Y + (128 * int j + 64)) mr"
      | off where "num_planes prm > 1" "off \<in> {u_offset prm, v_offset prm}" "c = CallUV ?i (?C off + 64 * int j) mr"
      | off where "num_planes prm > 1" "off \<in> {u_offset prm, v_offset prm}" "c = CallUV (?i + 1) (?C off + (64 * int j + 32)) mr"
      unfolding l'(1) by (auto simp: pair_body_def loc_at_def Let_def add.assoc split: if_splits)
    then show ?thesis
      by cases (use n in \<open>simp only:, intro call_fp_region call_fp_region_uv; simp\<close>)+
  next
    case False
    then have m: "ncols prm = 2 * int j + 1" using l'(2) by (simp add: ncols_def)
    then have n: "?x = 2 * int j + 1" "?i + 1 = (int r + 1) * ncols prm" by (simp_all add: algebra_simps)
    have j: "0 < j" if "num_planes prm > 1" using ok that m by (cases j) (auto simp: frame_ok_def)
    from c False consider "c = CallY ?i (?Y + 128 * int j) mr"
      | off where "num_planes prm > 1" "off \<in> {u_offset prm, v_offset prm}" "c = CallUV (?i - 1) (?C off + 64 * int j) mr"
      unfolding l'(1) by (auto simp: pair_body_def loc_at_def Let_def split: if_splits)
    then show ?thesis
      by cases (use n j in \<open>simp only:, intro call_fp_region call_fp_region_uv; simp\<close>)+
  qed
qed

lemma calls_from_region:
  "frame_ok prm \<Longrightarrow> l_ok prm r j l \<Longrightarrow> c \<in> set (calls_from prm mr l) \<Longrightarrow> call_fp prm c \<subseteq> lf_region prm r (2 * int j) (ncols prm)"
proof (induction prm mr l arbitrary: j rule: calls_from.induct)
  case (1 prm mr l)
  have l: "mi_col l < mi_cols prm" using 1(4) by (subst (asm) calls_from.simps) (auto split: if_splits)
  consider "c \<in> set (fst (pair_body prm mr l))" | "c \<in> set (calls_from prm mr (snd (pair_body prm mr l)))"
    using 1(4) l by (subst (asm) calls_from.simps) auto
  then show ?case
  proof cases
    case 1
    have "call_fp prm c \<subseteq> lf_region prm r (2 * int j) (min (2 * int j + 2) (ncols prm))"
      using \<open>frame_ok prm\<close> \<open>l_ok prm r j l\<close> l 1 by (rule pair_region)
    also have "\<dots> \<subseteq> lf_region prm r (2 * int j) (ncols prm)" by (rule region_mono) simp_all
    finally show ?thesis .
  next
    case 2
    have "call_fp prm c \<subseteq> lf_region prm r (2 * int (Suc j)) (ncols prm)"
      using "1.IH"[OF l "1.prems"(1) l_ok_next[OF "1.prems"(2) l] 2] .
    also have "\<dots> \<subseteq> lf_region prm r (2 * int j) (ncols prm)" by (rule region_mono) simp_all
    finally show ?thesis .
  qed
qed

lemma region_sets:
  assumes "M \<inter> M' = {}" "Y \<inter> Y' = {}" "U \<inter> U' = {}" "V \<inter> V' = {}"
    "Y \<inter> U' = {}" "Y \<inter> V' = {}" "U \<inter> Y' = {}" "U \<inter> V' = {}" "V \<inter> Y' = {}" "V \<inter> U' = {}"
  shows "(Mk ` M \<union> Px ` Y \<union> (Px ` U \<union> Px ` V)) \<inter> (Mk ` M' \<union> Px ` Y' \<union> (Px ` U' \<union> Px ` V')) = {}"
  using assms by blast

lemma regions_disjoint:
  assumes ok: "frame_ok prm" and r: "r' < r" "r < nrows prm" and x: "r' + 1 < r \<or> x1 < x0'"
    and b: "0 \<le> x0" "0 \<le> x0'" "x1 \<le> ncols prm" "x1' \<le> ncols prm"
  shows "lf_region prm r' x0' x1' \<inter> lf_region prm r x0 x1 = {}"
proof -
  let ?P = "\<lambda>off st h k r x0 x1. plane_part prm off st h r (k * x0) (k * x1)"
  have y: "?P (y_offset prm) (y_stride prm) 64 64 r' x0' x1' \<inter> ?P (y_offset prm) (y_stride prm) 64 64 r x0 x1 = {}"
    using ok r x b by (intro parts_disjoint) (auto simp: frame_ok_def)
  have uv: "?P off (uv_stride prm) 32 32 r' x0' x1' \<inter> ?P off (uv_stride prm) 32 32 r x0 x1 = {}" if "num_planes prm > 1" for off
    using ok r x b that by (intro parts_disjoint) (auto simp: frame_ok_def)
  have pl: "?P off st h k i a c \<inter> ?P off' st' h' k' i' a' c' = {}"
    if "apart (plane_lo prm off st h) (plane_hi prm off st h) (plane_lo prm off' st' h') (plane_hi prm off' st' h')"
      "i < nrows prm" "i' < nrows prm" "0 \<le> k * a" "0 \<le> k' * a'" "k * c + 8 \<le> st" "k' * c' + 8 \<le> st'" "h \<in> {32, 64}" "h' \<in> {32, 64}"
    for off st h k i a c off' st' h' k' i' a' c'
    using part_in_plane[OF that(2,4,6,8)] part_in_plane[OF that(3,5,7,9)] that(1) unfolding apart_def by fastforce
  have mk: "{int r' * ncols prm..<(int r' + 1) * ncols prm} \<inter> {int r * ncols prm..<(int r + 1) * ncols prm} = {}"
  proof -
    have "(int r' + 1) * ncols prm \<le> int r * ncols prm" using r ok by (intro mult_right_mono) (auto simp: frame_ok_def ncols_def)
    then show ?thesis by auto
  qed
  have Y: "0 \<le> 64 * x0" "0 \<le> 64 * x0'" "64 * x1 + 8 \<le> y_stride prm" "64 * x1' + 8 \<le> y_stride prm" using ok b by (auto simp: frame_ok_def)
  show ?thesis
  proof (cases "num_planes prm > 1")
    case True
    have U: "0 \<le> 32 * x0" "0 \<le> 32 * x0'" "32 * x1 + 8 \<le> uv_stride prm" "32 * x1' + 8 \<le> uv_stride prm"
      using ok b True by (auto simp: frame_ok_def)
    have ap: "apart (plane_lo prm (y_offset prm) (y_stride prm) 64) (plane_hi prm (y_offset prm) (y_stride prm) 64)
                (plane_lo prm (u_offset prm) (uv_stride prm) 32) (plane_hi prm (u_offset prm) (uv_stride prm) 32)"
        "apart (plane_lo prm (y_offset prm) (y_stride prm) 64) (plane_hi prm (y_offset prm) (y_stride prm) 64)
                (plane_lo prm (v_offset prm) (uv_stride prm) 32) (plane_hi prm (v_offset prm) (uv_stride prm) 32)"
        "apart (plane_lo prm (u_offset prm) (uv_stride prm) 32) (plane_hi prm (u_offset prm) (uv_stride prm) 32)
                (plane_lo prm (v_offset prm) (uv_stride prm) 32) (plane_hi prm (v_offset prm) (uv_stride prm) 32)"
      using ok True by (auto simp: frame_ok_def)
    have r': "r' < nrows prm" using r by simp
    note d = pl[OF ap(1) r' r(2) Y(2) U(1) Y(4) U(3)] pl[OF ap(1) r(2) r' Y(1) U(2) Y(3) U(4)]
      pl[OF ap(2) r' r(2) Y(2) U(1) Y(4) U(3)] pl[OF ap(2) r(2) r' Y(1) U(2) Y(3) U(4)]
      pl[OF ap(3) r' r(2) U(2) U(1) U(4) U(3)] pl[OF ap(3) r(2) r' U(1) U(2) U(3) U(4)]
    show ?thesis unfolding lf_region_def if_P[OF True]
      by (rule region_sets[OF mk y uv[OF True] uv[OF True]]) (use d in \<open>simp_all add: Int_commute\<close>)
  next
    case False
    then show ?thesis using mk y unfolding lf_region_def by auto
  qed
qed

section \<open>The order of the calls\<close>

lemma run_calls_append: "run_calls prm (xs @ ys) m = run_calls prm xs m \<bind> run_calls prm ys"
proof (induction xs arbitrary: m)
  case (Cons c xs)
  then show ?case by (cases "run_call prm c m") simp_all
qed simp

lemma call_commute: "call_fp prm c \<inter> call_fp prm d = {} \<Longrightarrow> run_call prm c m \<bind> run_call prm d = run_call prm d m \<bind> run_call prm c"
  by (rule lfs.acts_in_commute) (use run_call_runs in \<open>auto simp: runs_in_def\<close>)

lemma call_front:
  "(\<And>d. d \<in> set xs \<Longrightarrow> call_fp prm d \<inter> call_fp prm c = {}) \<Longrightarrow>
     run_calls prm (xs @ c # ys) m = run_call prm c m \<bind> run_calls prm (xs @ ys)"
proof (induction xs arbitrary: m)
  case (Cons d xs)
  have "run_calls prm ((d # xs) @ c # ys) m = (run_call prm d m \<bind> run_call prm c) \<bind> run_calls prm (xs @ ys)"
    using Cons by (cases "run_call prm d m") simp_all
  also have "\<dots> = (run_call prm c m \<bind> run_call prm d) \<bind> run_calls prm (xs @ ys)"
    using Cons.prems by (subst call_commute[of prm d c]) simp_all
  also have "\<dots> = run_call prm c m \<bind> run_calls prm ((d # xs) @ ys)" by (cases "run_call prm c m") simp_all
  finally show ?case .
qed simp

lemma run_calls_defined:
  assumes "masks_ok (lf_info prm) m" "\<And>c. c \<in> set cs \<Longrightarrow> call_fp prm c \<subseteq> dom (lf_look m)"
  shows "\<exists>m'. run_calls prm cs m = Some m'"
  using assms
proof (induction cs arbitrary: m)
  case (Cons c cs)
  obtain m1 where "run_call prm c m = Some m1" "masks_ok (lf_info prm) m1" "dom (lf_look m1) = dom (lf_look m)"
    using run_call_runs[of prm c] Cons.prems unfolding runs_in_def safe_in_def by (meson list.set_intros(1))
  then show ?case using Cons.IH[of m1] Cons.prems(2) by simp
qed simp

text \<open>The frame and the masks are as large as the parameters say.\<close>

definition frame_fits :: "lfprm \<Rightarrow> lfmem \<Rightarrow> bool" where
  "frame_fits prm m \<longleftrightarrow>
     masks_ok (lf_info prm) m \<and> int (nrows prm) * ncols prm \<le> int (length (lf_masks m))
     \<and> 0 \<le> plane_lo prm (y_offset prm) (y_stride prm) 64
     \<and> plane_hi prm (y_offset prm) (y_stride prm) 64 \<le> int (length (lf_pix m))
     \<and> (num_planes prm > 1 \<longrightarrow>
          0 \<le> plane_lo prm (u_offset prm) (uv_stride prm) 32
          \<and> plane_hi prm (u_offset prm) (uv_stride prm) 32 \<le> int (length (lf_pix m))
          \<and> 0 \<le> plane_lo prm (v_offset prm) (uv_stride prm) 32
          \<and> plane_hi prm (v_offset prm) (uv_stride prm) 32 \<le> int (length (lf_pix m)))"

text \<open>The offset of a row, which the code computes in \<open>int\<close>, stays below the size of the frame. For a frame of less
  than 2 GiB the computation of \<open>row_locals\<close> without wrap-around is the one of the code.\<close>

lemma row_offset_fits:
  assumes "plane_hi prm off st h \<le> n" and "0 \<le> off" and "0 \<le> start prm" and "0 \<le> st" and "r < nrows prm" and "h \<in> {32, 64}"
  shows "0 \<le> mi_row_of prm r * st * (h div 8) \<and> mi_row_of prm r * st * (h div 8) \<le> n"
proof -
  have "mi_row_of prm r \<le> start prm + 8 * int (nrows prm)" "0 \<le> mi_row_of prm r" using assms(3,5) by (simp_all add: mi_row_of_def)
  then have "mi_row_of prm r * st \<le> (start prm + 8 * int (nrows prm)) * st" "0 \<le> mi_row_of prm r * st"
    using assms(4) by (intro mult_right_mono mult_nonneg_nonneg; simp)+
  then show ?thesis using assms(1,2,6) by (auto simp: plane_hi_def algebra_simps)
qed

lemma row_locals_in_int:
  assumes ok: "frame_ok prm" and fits: "frame_fits prm m" and len: "int (length (lf_pix m)) < 2 ^ 31" and "0 \<le> start prm"
    and "0 \<le> y_offset prm" and "0 \<le> u_offset prm" and r: "r < nrows prm"
  shows "0 \<le> mi_row_of prm r * y_stride prm * 8 \<and> mi_row_of prm r * y_stride prm * 8 < 2 ^ 31
    \<and> (num_planes prm > 1 \<longrightarrow> 0 \<le> mi_row_of prm r * uv_stride prm * 4 \<and> mi_row_of prm r * uv_stride prm * 4 < 2 ^ 31)"
proof -
  have "0 \<le> ncols prm" using ok by (auto simp: frame_ok_def ncols_def)
  then have st: "0 \<le> y_stride prm" "num_planes prm > 1 \<longrightarrow> 0 \<le> uv_stride prm" using ok by (auto simp: frame_ok_def)
  have hi: "plane_hi prm (y_offset prm) (y_stride prm) 64 \<le> int (length (lf_pix m))"
    "num_planes prm > 1 \<Longrightarrow> plane_hi prm (u_offset prm) (uv_stride prm) 32 \<le> int (length (lf_pix m))"
    using fits by (simp_all add: frame_fits_def)
  have "0 \<le> mi_row_of prm r * uv_stride prm * 4 \<and> mi_row_of prm r * uv_stride prm * 4 \<le> int (length (lf_pix m))"
    if "num_planes prm > 1" using row_offset_fits[OF hi(2)[OF that] assms(6,4) _ r] st(2) that by simp
  moreover have "0 \<le> mi_row_of prm r * y_stride prm * 8 \<and> mi_row_of prm r * y_stride prm * 8 \<le> int (length (lf_pix m))"
    using row_offset_fits[OF hi(1) assms(5,4) st(1) r] by simp
  ultimately show ?thesis using len by (meson order.strict_trans1)
qed

lemma region_in_frame:
  assumes ok: "frame_ok prm" and fits: "frame_fits prm m" and r: "r < nrows prm"
  shows "lf_region prm r 0 (ncols prm) \<subseteq> dom (lf_look m)"
proof -
  have px: "Px ` plane_part prm off st h r (k * 0) (k * ncols prm) \<subseteq> dom (lf_look m)"
    if "0 \<le> plane_lo prm off st h" "plane_hi prm off st h \<le> int (length (lf_pix m))" "k * ncols prm + 8 \<le> st" "h \<in> {32, 64}" for off st h k
    using part_in_plane[OF r _ that(3,4), of 0 _ off] that(1,2) by (fastforce simp: bget_def dom_def)
  have "(int r + 1) * ncols prm \<le> int (nrows prm) * ncols prm" using r ok by (intro mult_right_mono) (auto simp: frame_ok_def ncols_def)
  moreover have "0 \<le> int r * ncols prm" using ok by (auto simp: frame_ok_def ncols_def)
  ultimately have mk: "Mk ` {int r * ncols prm..<(int r + 1) * ncols prm} \<subseteq> dom (lf_look m)"
    using fits by (auto simp: frame_fits_def lfm_at_def dom_def)
  show ?thesis
    using mk px[of "y_offset prm" "y_stride prm" 64 64] px[of "u_offset prm" "uv_stride prm" 32 32] px[of "v_offset prm" "uv_stride prm" 32 32] ok fits
    unfolding lf_region_def by (cases "num_planes prm > 1") (simp_all add: frame_ok_def frame_fits_def)
qed

lemma row_calls_region: "frame_ok prm \<Longrightarrow> c \<in> set (row_calls prm r) \<Longrightarrow> call_fp prm c \<subseteq> lf_region prm r 0 (ncols prm)"
  using calls_from_region[OF _ l_ok_row, of prm c _ r] by (simp add: row_calls_def)

lemma lf_serial_defined:
  assumes "frame_ok prm" "frame_fits prm m" shows "\<exists>m'. lf_serial prm m = Some m'"
  unfolding lf_serial_def
proof (rule run_calls_defined)
  show "masks_ok (lf_info prm) m" using assms(2) by (simp add: frame_fits_def)
  fix c assume "c \<in> set (concat (map (row_calls prm) [0..<nrows prm]))"
  then obtain r where "r < nrows prm" "c \<in> set (row_calls prm r)" by auto
  then show "call_fp prm c \<subseteq> dom (lf_look m)" using row_calls_region region_in_frame assms by blast
qed

section \<open>The invariant of the rows\<close>

definition npairs :: "lfprm \<Rightarrow> nat" where
  "npairs prm = nat ((mi_cols prm + 15) div 16)"

fun holds :: "lf_pc \<Rightarrow> nat option" where
  "holds (WCol r l) = Some r"
| "holds (WRun r cs l) = Some r"
| "holds pc = None"

text \<open>\<open>rest r\<close> are the calls of row \<open>r\<close> that are still to be made.\<close>

fun pc_ok :: "lfprm \<Rightarrow> int list \<Rightarrow> (nat \<Rightarrow> lf_call list) \<Rightarrow> lf_pc \<Rightarrow> bool" where
  "pc_ok prm ch rest (WCol r l) \<longleftrightarrow>
     (\<exists>j\<le>npairs prm. l_ok prm r j l \<and> ch ! (r + 1) = int j \<and> rest r = calls_from prm (mi_row_of prm r) l)"
| "pc_ok prm ch rest (WRun r cs l) \<longleftrightarrow>
     (\<exists>j<npairs prm. l_ok prm r (Suc j) l \<and> ch ! (r + 1) = int j \<and> int j + 2 \<le> ch ! r
        \<and> rest r = cs @ calls_from prm (mi_row_of prm r) l
        \<and> (\<forall>c\<in>set cs. call_fp prm c \<subseteq> lf_region prm r (2 * int j) (min (2 * int j + 2) (ncols prm))))"
| "pc_ok prm ch rest pc \<longleftrightarrow> True"

definition row_ok :: "lfprm \<Rightarrow> wave \<Rightarrow> (nat \<Rightarrow> lf_call list) \<Rightarrow> nat \<Rightarrow> bool" where
  "row_ok prm st rest r \<longleftrightarrow>
     (if r < sb_row_pro st
      then (\<forall>w<length (workers st). holds (workers st ! w) \<noteq> Some r) \<longrightarrow>
             rest r = [] \<and> chart st ! (r + 1) = int (npairs prm) + 1
      else rest r = row_calls prm r \<and> chart st ! (r + 1) = 0)"

definition worker_ok :: "lfprm \<Rightarrow> wave \<Rightarrow> (nat \<Rightarrow> lf_call list) \<Rightarrow> nat \<Rightarrow> bool" where
  "worker_ok prm st rest w \<longleftrightarrow>
     pc_ok prm (chart st) rest (workers st ! w)
     \<and> (\<forall>r. holds (workers st ! w) = Some r \<longrightarrow>
          r < nrows prm \<and> r < sb_row_pro st \<and> (\<forall>w'<length (workers st). holds (workers st ! w') = Some r \<longrightarrow> w' = w))"

definition rows_inv :: "lfprm \<Rightarrow> lfmem \<Rightarrow> wave \<Rightarrow> (nat \<Rightarrow> lf_call list) \<Rightarrow> bool" where
  "rows_inv prm m0 st rest \<longleftrightarrow>
     length (chart st) = MAX_SB_ROW \<and> chart st ! 0 = 0x0fffffff
     \<and> run_calls prm (concat (map rest [0..<nrows prm])) (lw_mem st) = lf_serial prm m0
     \<and> (\<forall>w<length (workers st). worker_ok prm st rest w)
     \<and> (\<forall>r<nrows prm. row_ok prm st rest r)"

lemma holds_no_pc: "holds pc = None \<Longrightarrow> pc_ok prm ch rest pc"
  by (cases pc) auto

text \<open>A worker without a row goes on.\<close>

lemma rows_inv_idle:
  assumes inv: "rows_inv prm m0 st rest" and w: "w < length (workers st)"
    and pc: "holds (workers st ! w) = None" "holds pc' = None"
    and st': "lw_mem st' = lw_mem st" "chart st' = chart st" "workers st' = (workers st)[w := pc']"
      "sb_row_pro st' = sb_row_pro st \<or> nrows prm \<le> sb_row_pro st \<and> nrows prm \<le> sb_row_pro st'"
  shows "rows_inv prm m0 st' rest"
proof -
  have h: "holds (workers st' ! v) = holds (workers st ! v)" if "v < length (workers st)" for v
    using that pc by (cases "v = w") (simp_all add: st'(3))
  have "worker_ok prm st' rest v" if v: "v < length (workers st)" for v
  proof -
    have old: "worker_ok prm st rest v" using inv v by (simp add: rows_inv_def)
    have "pc_ok prm (chart st') rest (workers st' ! v)"
      using old v pc(2) by (cases "v = w") (simp_all add: worker_ok_def st' holds_no_pc)
    moreover have "r < sb_row_pro st'" if "holds (workers st ! v) = Some r" for r
      using old that st'(4) by (auto simp: worker_ok_def)
    ultimately show ?thesis using old h v by (auto simp: worker_ok_def st'(3))
  qed
  moreover have "row_ok prm st' rest r" if "r < nrows prm" for r
  proof -
    have "row_ok prm st rest r" using inv that by (simp add: rows_inv_def)
    moreover have "r < sb_row_pro st' \<longleftrightarrow> r < sb_row_pro st" using that st'(4) by auto
    ultimately show ?thesis using h by (auto simp: row_ok_def st'(2,3))
  qed
  ultimately show ?thesis using inv by (simp add: rows_inv_def st')
qed

text \<open>A worker goes on in its row.\<close>

lemma pc_ok_other:
  assumes "pc_ok prm ch rest pc" "holds pc = Some q" "q \<noteq> r" "ch ! (r + 1) \<le> v" "r + 1 < length ch"
  shows "pc_ok prm (ch[r + 1 := v]) (rest(r := xs)) pc"
  using assms by (cases pc) (auto simp: nth_list_update)

lemma rows_inv_row:
  assumes inv: "rows_inv prm m0 st rest" and w: "w < length (workers st)" and r: "r < nrows prm" "nrows prm < MAX_SB_ROW"
    and old: "\<And>v. v < length (workers st) \<Longrightarrow> holds (workers st ! v) = Some r \<Longrightarrow> v = w"
      "holds (workers st ! w) \<in> {None, Some r}" "chart st ! (r + 1) \<le> v"
    and st': "chart st' = (chart st)[r + 1 := v]" "workers st' = (workers st)[w := pc']"
    and pro: "r < sb_row_pro st'" "sb_row_pro st' = sb_row_pro st \<or> sb_row_pro st = r \<and> sb_row_pro st' = r + 1"
    and pc': "holds pc' = Some r \<and> pc_ok prm (chart st') (rest(r := xs)) pc' \<or> holds pc' = None \<and> xs = [] \<and> v = int (npairs prm) + 1"
    and mem: "run_calls prm (concat (map (rest(r := xs)) [0..<nrows prm])) (lw_mem st') = lf_serial prm m0"
  shows "rows_inv prm m0 st' (rest(r := xs))"
proof -
  have len: "length (chart st) = MAX_SB_ROW" "r + 1 < length (chart st)" using inv r by (simp_all add: rows_inv_def)
  have h: "holds (workers st' ! u) = (if u = w then holds pc' else holds (workers st ! u))" if "u < length (workers st)" for u
    using that by (cases "u = w") (simp_all add: st'(2))
  have "worker_ok prm st' (rest(r := xs)) u" if u: "u < length (workers st)" for u
  proof (cases "u = w")
    case True
    have "pc_ok prm (chart st') (rest(r := xs)) pc'" using pc' holds_no_pc by blast
    moreover have "q = r" if "holds pc' = Some q" for q using pc' that by auto
    ultimately show ?thesis using True w r(1) pro(1) h old(1) by (auto simp: worker_ok_def st'(2) split: if_splits)
  next
    case False
    have o: "worker_ok prm st rest u" using inv u by (simp add: rows_inv_def)
    have nr: "holds (workers st ! u) \<noteq> Some r" using old(1) u False by blast
    have "pc_ok prm (chart st') (rest(r := xs)) (workers st ! u)"
    proof (cases "holds (workers st ! u)")
      case None
      then show ?thesis by (rule holds_no_pc)
    next
      case (Some q)
      then show ?thesis using o nr old(3) len(2) unfolding st'(1) by (intro pc_ok_other) (auto simp: worker_ok_def)
    qed
    moreover have "q < nrows prm \<and> q < sb_row_pro st' \<and> (\<forall>u'<length (workers st). holds (workers st' ! u') = Some q \<longrightarrow> u' = u)"
      if q: "holds (workers st ! u) = Some q" for q
    proof -
      have "q \<noteq> r" using q nr by blast
      then have "holds pc' \<noteq> Some q" using pc' by auto
      then show ?thesis using o q pro(2) h by (auto simp: worker_ok_def split: if_splits)
    qed
    ultimately show ?thesis using False u h by (simp add: worker_ok_def st'(2))
  qed
  moreover have "row_ok prm st' (rest(r := xs)) q" if q: "q < nrows prm" for q
  proof (cases "q = r")
    case True
    have "xs = [] \<and> v = int (npairs prm) + 1" if "\<forall>u<length (workers st). holds (workers st' ! u) \<noteq> Some r"
      using that h[OF w] w pc' by auto
    then show ?thesis using True pro(1) len(2) by (simp add: row_ok_def st')
  next
    case False
    have o: "row_ok prm st rest q" using inv q by (simp add: rows_inv_def)
    have "q < sb_row_pro st' \<longleftrightarrow> q < sb_row_pro st" using False pro(2) by auto
    moreover have "holds (workers st' ! u) = Some q \<longleftrightarrow> holds (workers st ! u) = Some q" if "u < length (workers st)" for u
      using h[OF that] pc' old(2) False by auto
    ultimately show ?thesis using o False by (auto simp: row_ok_def st' nth_list_update)
  qed
  ultimately show ?thesis using inv mem len by (simp add: rows_inv_def st')
qed

lemma rest_region:
  assumes ok: "frame_ok prm" and inv: "rows_inv prm m0 st rest" and r: "r < nrows prm" and c: "c \<in> set (rest r)"
  shows "\<exists>j. chart st ! (r + 1) = int j \<and> call_fp prm c \<subseteq> lf_region prm r (2 * int j) (ncols prm)"
proof -
  have row: "row_ok prm st rest r" using inv r by (simp add: rows_inv_def)
  show ?thesis
  proof (cases "r < sb_row_pro st")
    case False
    then show ?thesis using row c row_calls_region[OF ok, of c r] by (auto simp: row_ok_def intro!: exI[of _ 0])
  next
    case True
    then obtain w where w: "w < length (workers st)" "holds (workers st ! w) = Some r" using row c by (auto simp: row_ok_def)
    then have pc: "pc_ok prm (chart st) rest (workers st ! w)" using inv by (simp add: rows_inv_def worker_ok_def)
    show ?thesis
    proof (cases "workers st ! w")
      case (WCol q l)
      then show ?thesis using pc c w(2) calls_from_region[OF ok, of r _ l c "mi_row_of prm r"] by auto
    next
      case (WRun q cs l)
      then obtain j where j: "l_ok prm r (Suc j) l" "chart st ! (r + 1) = int j" "rest r = cs @ calls_from prm (mi_row_of prm r) l"
          "\<forall>c\<in>set cs. call_fp prm c \<subseteq> lf_region prm r (2 * int j) (min (2 * int j + 2) (ncols prm))"
        using pc w(2) by auto
      have m: "lf_region prm r (2 * int j) (min (2 * int j + 2) (ncols prm)) \<subseteq> lf_region prm r (2 * int j) (ncols prm)"
        "lf_region prm r (2 * int (Suc j)) (ncols prm) \<subseteq> lf_region prm r (2 * int j) (ncols prm)" by (rule region_mono; simp)+
      have "call_fp prm c \<subseteq> lf_region prm r (2 * int j) (ncols prm)"
        using c j(3,4) m calls_from_region[OF ok j(1), of c "mi_row_of prm r"] by (auto simp del: of_nat_Suc)
      then show ?thesis using j(2) by blast
    qed (use w in simp_all)
  qed
qed

text \<open>The next call of a worker could as well be the next call of the serial filter.\<close>

lemma run_front:
  assumes ok: "frame_ok prm" and inv: "rows_inv prm m0 st rest" and w: "w < length (workers st)" "workers st ! w = WRun r (c # cs) l"
  shows "run_calls prm (concat (map rest [0..<nrows prm])) (lw_mem st)
      = run_call prm c (lw_mem st) \<bind> run_calls prm (concat (map (rest(r := cs @ calls_from prm (mi_row_of prm r) l)) [0..<nrows prm]))"
proof -
  have wo: "worker_ok prm st rest w" using inv w(1) by (simp add: rows_inv_def)
  then have r: "r < nrows prm" using w(2) by (simp add: worker_ok_def)
  obtain j where j: "int j + 2 \<le> chart st ! r" "rest r = c # cs @ calls_from prm (mi_row_of prm r) l"
      "call_fp prm c \<subseteq> lf_region prm r (2 * int j) (min (2 * int j + 2) (ncols prm))"
    using wo w(2) by (auto simp: worker_ok_def)
  have up: "[0..<nrows prm] = [0..<r] @ r # [Suc r..<nrows prm]" using r upt_add_eq_append[of 0 r "nrows prm - r"] by (simp add: upt_conv_Cons)
  have "call_fp prm d \<inter> call_fp prm c = {}" if d: "d \<in> set (concat (map rest [0..<r]))" for d
  proof -
    obtain q where q: "q < r" "d \<in> set (rest q)" using d by auto
    then obtain i where i: "chart st ! (q + 1) = int i" "call_fp prm d \<subseteq> lf_region prm q (2 * int i) (ncols prm)"
      using rest_region[OF ok inv, of q d] r by auto
    have "lf_region prm q (2 * int i) (ncols prm) \<inter> lf_region prm r (2 * int j) (min (2 * int j + 2) (ncols prm)) = {}"
    proof (rule regions_disjoint[OF ok q(1) r])
      show "q + 1 < r \<or> min (2 * int j + 2) (ncols prm) < 2 * int i"
      proof (cases "q + 1 = r")
        case True
        then show ?thesis using i(1) j(1) by simp
      qed (use q(1) in simp)
    qed simp_all
    then show ?thesis using i(2) j(3) by blast
  qed
  then have "run_calls prm (concat (map rest [0..<r]) @ c # cs @ calls_from prm (mi_row_of prm r) l @ concat (map rest [Suc r..<nrows prm])) (lw_mem st)
      = run_call prm c (lw_mem st) \<bind>
          run_calls prm (concat (map rest [0..<r]) @ cs @ calls_from prm (mi_row_of prm r) l @ concat (map rest [Suc r..<nrows prm]))"
    by (rule call_front)
  moreover have "map (rest(r := X)) [0..<r] = map rest [0..<r]" "map (rest(r := X)) [Suc r..<nrows prm] = map rest [Suc r..<nrows prm]" for X
    by (rule map_cong; simp)+
  ultimately show ?thesis by (simp add: up j(2) del: fun_upd_apply) simp
qed

lemma mi_row_less: "mi_row_of prm r < stop prm \<longleftrightarrow> r < nrows prm"
  by (simp add: mi_row_of_def nrows_def) linarith

lemma pairs_less: "0 \<le> mi_cols prm \<Longrightarrow> 16 * int j < mi_cols prm \<longleftrightarrow> j < npairs prm"
  by (simp add: npairs_def) linarith

lemma set_pc_simps [simp]:
  "workers (set_pc w pc st) = (workers st)[w := pc]" "chart (set_pc w pc st) = chart st" "lw_mem (set_pc w pc st) = lw_mem st"
  "sb_row_pro (set_pc w pc st) = sb_row_pro st" "kern (set_pc w pc st) = kern st" "doing (set_pc w pc st) = doing st"
  by (simp_all add: set_pc_def)

lemma rows_step_fetch:
  assumes ok: "frame_ok prm" and inv: "rows_inv prm m0 st rest" and w: "w < length (workers st)" "workers st ! w = WFetch"
    and step: "lf_worker_step prm w st = Some st'"
  shows "rows_inv prm m0 st' rest"
proof (cases "sb_row_pro st < nrows prm")
  case True
  let ?r = "sb_row_pro st"
  have st': "st' = set_pc w (WCol ?r (row_locals prm (int ?r))) (st\<lparr>sb_row_pro := ?r + 1\<rparr>)"
    using step w(2) True by (simp add: lf_worker_step_def Let_def mi_row_less)
  have row: "rest ?r = row_calls prm ?r" "chart st ! (?r + 1) = 0" using inv True by (auto simp: rows_inv_def row_ok_def)
  have "rows_inv prm m0 st' (rest(?r := rest ?r))"
  proof (rule rows_inv_row[where v = "chart st ! (?r + 1)", OF inv w(1) True])
    show "nrows prm < MAX_SB_ROW" using ok by (simp add: frame_ok_def)
    show "v = w" if "v < length (workers st)" "holds (workers st ! v) = Some ?r" for v
      using inv that by (auto simp: rows_inv_def worker_ok_def)
    show "holds (WCol ?r (row_locals prm (int ?r))) = Some ?r \<and> pc_ok prm (chart st') (rest(?r := rest ?r)) (WCol ?r (row_locals prm (int ?r)))
        \<or> holds (WCol ?r (row_locals prm (int ?r))) = None \<and> rest ?r = [] \<and> chart st ! (?r + 1) = int (npairs prm) + 1"
      using row l_ok_row by (auto simp: st' row_calls_def intro!: exI[of _ 0])
    show "run_calls prm (concat (map (rest(?r := rest ?r)) [0..<nrows prm])) (lw_mem st') = lf_serial prm m0"
      using inv by (simp add: st' rows_inv_def)
  qed (use w st' in simp_all)
  then show ?thesis by simp
next
  case False
  then have st': "st' = set_pc w WFinish (st\<lparr>sb_row_pro := sb_row_pro st + 1\<rparr>)"
    using step w(2) by (simp add: lf_worker_step_def Let_def mi_row_less)
  show ?thesis by (rule rows_inv_idle[OF inv w(1)]) (use w False in \<open>simp_all add: st'\<close>)
qed

lemma row_owner:
  assumes "rows_inv prm m0 st rest" "w < length (workers st)" "holds (workers st ! w) = Some r"
  shows "r < nrows prm" "r < sb_row_pro st" "pc_ok prm (chart st) rest (workers st ! w)"
    "\<And>v. v < length (workers st) \<Longrightarrow> holds (workers st ! v) = Some r \<Longrightarrow> v = w"
proof -
  have "worker_ok prm st rest w" using assms(1,2) unfolding rows_inv_def by blast
  then show "r < nrows prm" "r < sb_row_pro st" "pc_ok prm (chart st) rest (workers st ! w)"
    "\<And>v. v < length (workers st) \<Longrightarrow> holds (workers st ! v) = Some r \<Longrightarrow> v = w"
    using assms(3) unfolding worker_ok_def by blast+
qed

text \<open>All steps inside of a row have one form.\<close>

lemma rows_step_own:
  assumes ok: "frame_ok prm" and inv: "rows_inv prm m0 st rest" and w: "w < length (workers st)" "holds (workers st ! w) = Some r"
    and st': "st' = set_pc w pc' (st\<lparr>chart := (chart st)[r + 1 := v], lw_mem := m'\<rparr>)" and v: "chart st ! (r + 1) \<le> v"
    and pc': "holds pc' = Some r \<and> pc_ok prm (chart st') (rest(r := xs)) pc' \<or> holds pc' = None \<and> xs = [] \<and> v = int (npairs prm) + 1"
    and mem: "run_calls prm (concat (map (rest(r := xs)) [0..<nrows prm])) m' = lf_serial prm m0"
  shows "\<exists>rest'. rows_inv prm m0 st' rest'"
proof (intro exI[of _ "rest(r := xs)"] rows_inv_row[OF inv w(1) row_owner(1)[OF inv w], where v = v and pc' = pc'])
  show "nrows prm < MAX_SB_ROW" using ok by (simp add: frame_ok_def)
  show "u = w" if "u < length (workers st)" "holds (workers st ! u) = Some r" for u using row_owner(4)[OF inv w that] .
  show "holds (workers st ! w) \<in> {None, Some r}" using w(2) by simp
  show "r < sb_row_pro st'" using row_owner(2)[OF inv w] by (simp add: st')
  show "run_calls prm (concat (map (rest(r := xs)) [0..<nrows prm])) (lw_mem st') = lf_serial prm m0"
    using mem by (simp add: st' del: fun_upd_apply)
qed (rule v pc' | simp add: st')+

lemma rows_step_worker:
  assumes ok: "frame_ok prm" and inv: "rows_inv prm m0 st rest" and w: "w < length (workers st)"
    and step: "lf_worker_step prm w st = Some st'"
  shows "\<exists>rest'. rows_inv prm m0 st' rest'"
proof -
  have mem: "run_calls prm (concat (map rest [0..<nrows prm])) (lw_mem st) = lf_serial prm m0"
    and len: "length (chart st) = MAX_SB_ROW" using inv by (simp_all add: rows_inv_def)
  have cols: "0 \<le> mi_cols prm" and rows: "nrows prm < MAX_SB_ROW" using ok by (simp_all add: frame_ok_def)
  show ?thesis
  proof (cases "workers st ! w")
    case WStart
    then have st': "st' = set_pc w WWait st" using step by (simp add: lf_worker_step_def)
    have "rows_inv prm m0 st' rest" by (rule rows_inv_idle[OF inv w]) (use WStart in \<open>simp_all add: st'\<close>)
    then show ?thesis by blast
  next
    case WWait
    then show ?thesis using step by (simp add: lf_worker_step_def)
  next
    case WFetch
    then show ?thesis using rows_step_fetch[OF ok inv w _ step] by blast
  next
    case (WCol r l)
    have own: "holds (workers st ! w) = Some r" using WCol by simp
    obtain j where j: "j \<le> npairs prm" "l_ok prm r j l" "chart st ! (r + 1) = int j" "rest r = calls_from prm (mi_row_of prm r) l"
      using row_owner(3)[OF inv w own] WCol by auto
    have lc: "mi_col l = 16 * int j" using j(2) by (simp add: l_ok_def)
    show ?thesis
    proof (cases "mi_col l < mi_cols prm")
      case True
      let ?p = "pair_body prm (mi_row_of prm r) l"
      have st': "chart st ! (r + 1) + 2 \<le> chart st ! r" "st' = set_pc w (WRun r (fst ?p) (snd ?p)) st"
        using step WCol True by (auto simp: lf_worker_step_def split: if_splits prod.splits)
      have jn: "j < npairs prm" using True lc pairs_less[OF cols] by simp
      have r: "rest r = fst ?p @ calls_from prm (mi_row_of prm r) (snd ?p)" using j(4) True by (subst (asm) calls_from.simps) simp
      show ?thesis
      proof (rule rows_step_own[OF ok inv w own, where v = "chart st ! (r + 1)" and xs = "rest r" and m' = "lw_mem st" and pc' = "WRun r (fst ?p) (snd ?p)"])
        show "holds (WRun r (fst ?p) (snd ?p)) = Some r \<and> pc_ok prm (chart st') (rest(r := rest r)) (WRun r (fst ?p) (snd ?p))
            \<or> holds (WRun r (fst ?p) (snd ?p)) = None \<and> rest r = [] \<and> chart st ! (r + 1) = int (npairs prm) + 1"
          using jn l_ok_next[OF j(2) True] j(3) st' r pair_region[OF ok j(2) True] by auto
      qed (use st' mem in simp_all)
    next
      case False
      then have jn: "j = npairs prm" using lc j(1) pairs_less[OF cols, of j] by simp
      have st': "st' = set_pc w WFetch (st\<lparr>chart := (chart st)[r + 1 := chart st ! (r + 1) + 1], lw_mem := lw_mem st\<rparr>)"
        using step WCol False by (auto simp: lf_worker_step_def chart_inc_def split: if_splits)
      have r: "rest r = []" using j(4) False by (subst (asm) calls_from.simps) simp
      have "rest(r := []) = rest" using r by auto
      then show ?thesis by (intro rows_step_own[OF ok inv w own st', where xs = "[]"]) (use j(3) jn mem in simp_all)
    qed
  next
    case (WRun r cs l)
    have own: "holds (workers st ! w) = Some r" using WRun by simp
    obtain j where j: "j < npairs prm" "l_ok prm r (Suc j) l" "chart st ! (r + 1) = int j" "int j + 2 \<le> chart st ! r"
        "rest r = cs @ calls_from prm (mi_row_of prm r) l"
        "\<forall>c\<in>set cs. call_fp prm c \<subseteq> lf_region prm r (2 * int j) (min (2 * int j + 2) (ncols prm))"
      using row_owner(3)[OF inv w own] WRun by auto
    show ?thesis
    proof (cases cs)
      case Nil
      then have st': "st' = set_pc w (WCol r l) (st\<lparr>chart := (chart st)[r + 1 := chart st ! (r + 1) + 1], lw_mem := lw_mem st\<rparr>)"
        using step WRun by (auto simp: lf_worker_step_def chart_inc_def split: if_splits)
      show ?thesis
      proof (rule rows_step_own[OF ok inv w own st', where xs = "rest r"])
        have "r + 1 < length (chart st)" using row_owner(1)[OF inv w own] rows len by simp
        then have "pc_ok prm (chart st') (rest(r := rest r)) (WCol r l)"
          using j Nil by (auto simp: st' intro!: exI[of _ "Suc j"])
        then show "holds (WCol r l) = Some r \<and> pc_ok prm (chart st') (rest(r := rest r)) (WCol r l)
            \<or> holds (WCol r l) = None \<and> rest r = [] \<and> chart st ! (r + 1) + 1 = int (npairs prm) + 1" by simp
      qed (use mem in simp_all)
    next
      case (Cons c cs')
      then obtain m1 where m1: "run_call prm c (lw_mem st) = Some m1"
          "st' = set_pc w (WRun r cs' l) (st\<lparr>chart := (chart st)[r + 1 := chart st ! (r + 1)], lw_mem := m1\<rparr>)"
        using step WRun by (auto simp: lf_worker_step_def bind_eq_Some_conv)
      let ?xs = "cs' @ calls_from prm (mi_row_of prm r) l"
      show ?thesis
      proof (rule rows_step_own[OF ok inv w own m1(2), where xs = ?xs])
        show "holds (WRun r cs' l) = Some r \<and> pc_ok prm (chart st') (rest(r := ?xs)) (WRun r cs' l)
            \<or> holds (WRun r cs' l) = None \<and> ?xs = [] \<and> chart st ! (r + 1) = int (npairs prm) + 1"
        proof -
          have "chart st' = chart st" by (simp add: m1(2))
          then show ?thesis using j Cons by auto
        qed
        show "run_calls prm (concat (map (rest(r := ?xs)) [0..<nrows prm])) m1 = lf_serial prm m0"
          using run_front[OF ok inv w, of r c cs' l] WRun Cons m1(1) mem by simp
      qed simp
    qed
  next
    case WFinish
    then have st': "workers st' = (workers st)[w := WStart]" "chart st' = chart st" "lw_mem st' = lw_mem st" "sb_row_pro st' = sb_row_pro st"
      using step by (auto simp: lf_worker_step_def Let_def)
    have "rows_inv prm m0 st' rest" by (rule rows_inv_idle[OF inv w]) (use WFinish in \<open>simp_all add: st'\<close>)
    then show ?thesis by blast
  qed
qed

lemma rows_inv_cong:
  assumes "workers st' = workers st" "chart st' = chart st" "lw_mem st' = lw_mem st" "sb_row_pro st' = sb_row_pro st"
  shows "rows_inv prm m0 st' rest = rows_inv prm m0 st rest"
  by (simp only: rows_inv_def worker_ok_def row_ok_def assms)

lemma rows_step_kernel:
  assumes inv: "rows_inv prm m0 st rest" and step: "kernel_step st = Some st'" shows "rows_inv prm m0 st' rest"
proof (cases "\<exists>i. kern st = KSignal i \<and> i < length (workers st)")
  case True
  then obtain i where i: "kern st = KSignal i" "i < length (workers st)" by blast
  then have st': "st' = st\<lparr>kern := KSignal (i + 1), workers := (workers st)[i := wake (workers st ! i)]\<rparr>"
    using step by (simp add: kernel_step_def)
  show ?thesis
  proof (cases "workers st ! i = WWait")
    case True
    show ?thesis by (rule rows_inv_idle[OF inv i(2), of WFetch]) (use True in \<open>simp_all add: st'\<close>)
  next
    case False
    then have "wake (workers st ! i) = workers st ! i" by (cases "workers st ! i") auto
    then show ?thesis using inv by (subst rows_inv_cong[of _ st]) (simp_all add: st')
  qed
next
  case False
  then have "workers st' = workers st" "chart st' = chart st" "lw_mem st' = lw_mem st" "sb_row_pro st' = sb_row_pro st"
    using step by (auto simp: kernel_step_def split: kpc.splits if_splits)
  then show ?thesis using inv rows_inv_cong[of st' st] by simp
qed

lemma rows_step:
  assumes "frame_ok prm" "wave_step prm st st'" "\<exists>rest. rows_inv prm m0 st rest" shows "\<exists>rest. rows_inv prm m0 st' rest"
  using assms(2) by cases (use assms(1,3) rows_step_worker rows_step_kernel in blast)+

section \<open>The invariant of the threads\<close>

fun active :: "lf_pc \<Rightarrow> bool" where
  "active WStart = False"
| "active WWait = False"
| "active pc = True"

definition signalled :: "wave \<Rightarrow> nat" where
  "signalled st = (case kern st of KSignal i \<Rightarrow> i | _ \<Rightarrow> length (workers st))"

definition threads_inv :: "lfprm \<Rightarrow> wave \<Rightarrow> bool" where
  "threads_inv prm st \<longleftrightarrow>
     workers st \<noteq> [] \<and> signalled st \<le> length (workers st)
     \<and> doing st = int (length (workers st) - signalled st) + int (length (filter active (workers st)))
     \<and> (\<forall>w<length (workers st). signalled st \<le> w \<longrightarrow> workers st ! w = WWait)
     \<and> (kern st = KDone \<longrightarrow> doing st = 0) \<and> (kern st = KWait \<longrightarrow> doing st \<noteq> 0)
     \<and> (sb_row_pro st < nrows prm \<longrightarrow> (\<forall>w < signalled st. active (workers st ! w) \<and> workers st ! w \<noteq> WFinish))"

lemma count_upd:
  "i < length xs \<Longrightarrow> int (length (filter P (xs[i := y]))) = int (length (filter P xs)) - of_bool (P (xs ! i)) + of_bool (P y)"
proof (induction xs arbitrary: i)
  case (Cons x xs)
  then show ?case by (cases i) auto
qed simp

lemma threads_step_kernel:
  assumes inv: "threads_inv prm st" and step: "kernel_step st = Some st'" shows "threads_inv prm st'"
proof (cases "kern st")
  case (KSignal i)
  have s: "signalled st = i" using KSignal by (simp add: signalled_def)
  show ?thesis
  proof (cases "i < length (workers st)")
    case True
    then have pc: "workers st ! i = WWait" using inv s by (simp add: threads_inv_def)
    have st': "st' = st\<lparr>kern := KSignal (i + 1), workers := (workers st)[i := WFetch]\<rparr>"
      using step KSignal True pc by (simp add: kernel_step_def)
    have s': "signalled st' = i + 1" by (simp add: signalled_def st')
    have "int (length (filter active ((workers st)[i := WFetch]))) = int (length (filter active (workers st))) + 1"
      using count_upd[OF True, of active WFetch] pc by simp
    then show ?thesis using inv True s s' unfolding threads_inv_def st' by (auto simp: nth_list_update[OF True] less_Suc_eq)
  next
    case False
    then have "st' = st\<lparr>kern := KCheck\<rparr>" "i = length (workers st)" using step KSignal inv s by (simp_all add: kernel_step_def threads_inv_def)
    then show ?thesis using inv s by (simp add: threads_inv_def signalled_def)
  qed
next
  case KCheck
  then show ?thesis using inv step by (cases "doing st = 0") (auto simp: kernel_step_def threads_inv_def signalled_def)
qed (use step in \<open>simp_all add: kernel_step_def\<close>)

text \<open>A worker that stays active, and one that ends.\<close>

lemma threads_active:
  assumes inv: "threads_inv prm st" and w: "w < length (workers st)" "active (workers st ! w)" "active pc'"
    and st': "workers st' = (workers st)[w := pc']" "kern st' = kern st" "doing st' = doing st" "sb_row_pro st \<le> sb_row_pro st'"
    and fin: "pc' = WFinish \<Longrightarrow> nrows prm \<le> sb_row_pro st'"
  shows "threads_inv prm st'"
proof -
  have s: "signalled st' = signalled st" using st' by (simp add: signalled_def split: kpc.split)
  have ws: "w < signalled st" using inv w by (cases "w < signalled st") (auto simp: threads_inv_def)
  have "int (length (filter active (workers st'))) = int (length (filter active (workers st)))"
    using count_upd[OF w(1), of active pc'] w st' by simp
  then show ?thesis using inv st' s ws fin unfolding threads_inv_def by (auto simp: nth_list_update[OF w(1)] w(3))
qed

lemma threads_step_worker:
  assumes inv: "threads_inv prm st" and w: "w < length (workers st)" and step: "lf_worker_step prm w st = Some st'"
  shows "threads_inv prm st'"
proof (cases "workers st ! w")
  case WStart
  then have st': "st' = set_pc w WWait st" using step by (simp add: lf_worker_step_def)
  have "w < signalled st" using inv w WStart by (cases "w < signalled st") (auto simp: threads_inv_def)
  then have pro: "nrows prm \<le> sb_row_pro st" using inv WStart by (cases "nrows prm \<le> sb_row_pro st") (auto simp: threads_inv_def)
  have "int (length (filter active ((workers st)[w := WWait]))) = int (length (filter active (workers st)))"
    using count_upd[OF w, of active WWait] WStart by simp
  moreover have "signalled st' = signalled st" by (simp add: signalled_def st' split: kpc.split)
  ultimately show ?thesis using inv pro unfolding threads_inv_def st' by (auto simp: nth_list_update[OF w])
next
  case WFetch
  then have "st' = set_pc w (if sb_row_pro st < nrows prm then WCol (sb_row_pro st) (row_locals prm (int (sb_row_pro st))) else WFinish)
      (st\<lparr>sb_row_pro := sb_row_pro st + 1\<rparr>)" using step by (simp add: lf_worker_step_def Let_def mi_row_less)
  then show ?thesis by (intro threads_active[OF inv w]) (use WFetch in \<open>auto split: if_splits\<close>)
next
  case (WCol r l)
  then show ?thesis using step
    by (intro threads_active[OF inv w, where pc' = "workers st' ! w"])
      (auto simp: lf_worker_step_def chart_inc_def w split: if_splits prod.splits)
next
  case (WRun r cs l)
  then show ?thesis using step
    by (intro threads_active[OF inv w, where pc' = "workers st' ! w"])
      (auto simp: lf_worker_step_def chart_inc_def w bind_eq_Some_conv split: if_splits list.splits)
next
  case WFinish
  then have st': "st' = set_pc w WStart (st\<lparr>doing := doing st - 1, kern := (if doing st - 1 = 0 \<and> kern st = KWait then KDone else kern st)\<rparr>)"
    using step by (simp add: lf_worker_step_def Let_def)
  have ws: "w < signalled st" using inv w WFinish by (cases "w < signalled st") (auto simp: threads_inv_def)
  then have pro: "nrows prm \<le> sb_row_pro st" using inv WFinish by (cases "nrows prm \<le> sb_row_pro st") (auto simp: threads_inv_def)
  have cnt: "int (length (filter active ((workers st)[w := WStart]))) = int (length (filter active (workers st))) - 1"
    using count_upd[OF w, of active WStart] WFinish by simp
  have s: "signalled st' = signalled st" by (simp add: signalled_def st' split: kpc.split)
  have "0 \<le> int (length (filter active ((workers st)[w := WStart])))" by simp
  then have "kern st \<noteq> KDone" using inv cnt by (auto simp: threads_inv_def)
  then show ?thesis using inv pro cnt s ws unfolding threads_inv_def st' by (auto simp: nth_list_update[OF w])
qed (use step in \<open>simp add: lf_worker_step_def\<close>)

definition wave_inv :: "lfprm \<Rightarrow> lfmem \<Rightarrow> wave \<Rightarrow> bool" where
  "wave_inv prm m0 st \<longleftrightarrow> threads_inv prm st \<and> (\<exists>rest. rows_inv prm m0 st rest)"

lemma wave_inv_launch:
  assumes ok: "frame_ok prm" and n: "0 < n" shows "wave_inv prm m (lf_launch m (replicate n WWait))"
proof -
  have "rows_inv prm m (lf_launch m (replicate n WWait)) (row_calls prm)"
    using ok by (auto simp: rows_inv_def lf_launch_def lf_serial_def worker_ok_def row_ok_def frame_ok_def MAX_SB_ROW_def)
  moreover have "threads_inv prm (lf_launch m (replicate n WWait))"
    using n by (auto simp: threads_inv_def lf_launch_def signalled_def)
  ultimately show ?thesis by (auto simp: wave_inv_def)
qed

lemma wave_inv_step: "frame_ok prm \<Longrightarrow> wave_step prm st st' \<Longrightarrow> wave_inv prm m0 st \<Longrightarrow> wave_inv prm m0 st'"
  unfolding wave_inv_def using rows_step threads_step_kernel threads_step_worker by (metis wave_step.cases)

lemma wave_inv_reachable:
  assumes "frame_ok prm" "(wave_step prm)\<^sup>*\<^sup>* st st'" "wave_inv prm m0 st" shows "wave_inv prm m0 st'"
  using assms(2,3) by (induction rule: rtranclp_induct) (auto intro: wave_inv_step[OF assms(1)])

lemma active_holds: "holds pc = Some r \<Longrightarrow> active pc"
  by (cases pc) auto

lemma wave_inv_done:
  assumes inv: "wave_inv prm m0 st" and k: "kern st = KDone" shows "lf_serial prm m0 = Some (lw_mem st)"
proof -
  obtain rest where rows: "rows_inv prm m0 st rest" using inv by (auto simp: wave_inv_def)
  have t: "threads_inv prm st" using inv by (simp add: wave_inv_def)
  have s: "signalled st = length (workers st)" using k by (simp add: signalled_def)
  have "filter active (workers st) = []" using t k s by (auto simp: threads_inv_def)
  then have none: "\<not> active (workers st ! w)" if "w < length (workers st)" for w using that by (simp add: filter_empty_conv)
  have "workers st \<noteq> []" using t by (simp add: threads_inv_def)
  then have pro: "nrows prm \<le> sb_row_pro st" using t s none[of 0] by (cases "nrows prm \<le> sb_row_pro st") (auto simp: threads_inv_def)
  have "rest r = []" if "r < nrows prm" for r
  proof -
    have "row_ok prm st rest r" using rows that by (simp add: rows_inv_def)
    moreover have "holds (workers st ! w) \<noteq> Some r" if "w < length (workers st)" for w using none[OF that] active_holds by blast
    ultimately show ?thesis using that pro by (simp add: row_ok_def)
  qed
  then have "concat (map rest [0..<nrows prm]) = []" by simp
  moreover have "run_calls prm (concat (map rest [0..<nrows prm])) (lw_mem st) = lf_serial prm m0" using rows by (simp add: rows_inv_def)
  ultimately show ?thesis by (metis run_calls.simps(1))
qed

text \<open>Among the workers that wait for the row above, the one in the topmost row can go on.\<close>

lemma worker_not_stuck:
  assumes ok: "frame_ok prm" and inv: "rows_inv prm m0 st rest" and m: "lf_serial prm m0 = Some m"
    and w: "w < length (workers st)" "active (workers st ! w)"
    and top: "\<And>v p q. v < length (workers st) \<Longrightarrow> holds (workers st ! v) = Some p \<Longrightarrow> holds (workers st ! w) = Some q \<Longrightarrow> q \<le> p"
  shows "\<exists>st'. lf_worker_step prm w st = Some st'"
proof -
  have len: "length (chart st) = MAX_SB_ROW" and rows: "nrows prm < MAX_SB_ROW" and cols: "0 \<le> mi_cols prm"
    using inv ok by (simp_all add: rows_inv_def frame_ok_def)
  show ?thesis
  proof (cases "workers st ! w")
    case (WRun q cs l)
    then have q: "holds (workers st ! w) = Some q" by simp
    show ?thesis
    proof (cases cs)
      case Nil
      then show ?thesis using WRun row_owner(1)[OF inv w(1) q] rows len by (simp add: lf_worker_step_def chart_inc_def)
    next
      case (Cons c cs')
      have "run_call prm c (lw_mem st) \<bind> run_calls prm (concat (map (rest(q := cs' @ calls_from prm (mi_row_of prm q) l)) [0..<nrows prm])) = Some m"
        using run_front[OF ok inv w(1), of q c cs' l] WRun Cons inv m by (simp add: rows_inv_def)
      then obtain m1 where "run_call prm c (lw_mem st) = Some m1" by (cases "run_call prm c (lw_mem st)") auto
      then show ?thesis using WRun Cons by (simp add: lf_worker_step_def)
    qed
  next
    case (WCol q l)
    then have q: "holds (workers st ! w) = Some q" by simp
    have qn: "q < nrows prm" "q < sb_row_pro st" using row_owner[OF inv w(1) q] by simp_all
    obtain j where j: "j \<le> npairs prm" "l_ok prm q j l" "chart st ! (q + 1) = int j"
      using row_owner(3)[OF inv w(1) q] WCol by auto
    have "int j + 2 \<le> chart st ! q" if "mi_col l < mi_cols prm"
    proof -
      have jn: "j < npairs prm" using that j(2) pairs_less[OF cols, of j] by (simp add: l_ok_def)
      show ?thesis
      proof (cases q)
        case 0
        have "npairs prm \<le> 2 ^ 27" using ok by (simp add: npairs_def frame_ok_def) linarith
        then show ?thesis using 0 jn inv by (simp add: rows_inv_def)
      next
        case (Suc p)
        have "holds (workers st ! v) \<noteq> Some p" if "v < length (workers st)" for v
          using top[OF that _ q] Suc by fastforce
        moreover have "row_ok prm st rest p" using inv qn Suc by (simp add: rows_inv_def)
        ultimately have "chart st ! (p + 1) = int (npairs prm) + 1" using qn Suc by (simp add: row_ok_def)
        then show ?thesis using Suc jn by simp
      qed
    qed
    then show ?thesis using WCol j(3) qn rows len by (auto simp: lf_worker_step_def chart_inc_def)
  qed (use w in \<open>simp_all add: lf_worker_step_def Let_def\<close>)
qed

lemma wave_not_stuck:
  assumes ok: "frame_ok prm" and inv: "wave_inv prm m0 st" and m: "lf_serial prm m0 = Some m" and k: "kern st \<noteq> KDone"
  shows "\<exists>st'. wave_step prm st st'"
proof (cases "kern st = KWait")
  case False
  then obtain st' where "kernel_step st = Some st'" using k by (cases "kern st") (simp_all add: kernel_step_def)
  then show ?thesis using wave_kernel by blast
next
  case True
  obtain rest where rows: "rows_inv prm m0 st rest" using inv by (auto simp: wave_inv_def)
  let ?A = "{w. w < length (workers st) \<and> active (workers st ! w)}"
  have "filter active (workers st) \<noteq> []" using inv True by (auto simp: wave_inv_def threads_inv_def signalled_def)
  then obtain w0 where w0: "w0 \<in> ?A" by (auto simp: filter_empty_conv in_set_conv_nth)
  let ?rank = "\<lambda>w. case holds (workers st ! w) of None \<Rightarrow> 0 | Some r \<Rightarrow> Suc r"
  obtain w where w: "w \<in> ?A" "\<And>v. v \<in> ?A \<Longrightarrow> ?rank w \<le> ?rank v"
    using w0 arg_min_nat_lemma[of "\<lambda>w. w \<in> ?A" w0 ?rank] by blast
  have "\<exists>st'. lf_worker_step prm w st = Some st'"
  proof (rule worker_not_stuck[OF ok rows m])
    fix v p q assume v: "v < length (workers st)" "holds (workers st ! v) = Some p" "holds (workers st ! w) = Some q"
    then have "v \<in> ?A" using active_holds by blast
    then show "q \<le> p" using w(2)[of v] v by simp
  qed (use w in simp_all)
  then show ?thesis using w(1) wave_worker by blast
qed

section \<open>Every run ends\<close>

definition steps_from :: "lfprm \<Rightarrow> int \<Rightarrow> lfloc \<Rightarrow> nat" where
  "steps_from prm mr l = length (calls_from prm mr l) + 2 * nat ((mi_cols prm - mi_col l + 15) div 16)"

fun wcost :: "lfprm \<Rightarrow> lf_pc \<Rightarrow> nat" where
  "wcost prm WStart = 1"
| "wcost prm WWait = 0"
| "wcost prm WFetch = 3"
| "wcost prm (WCol r l) = 4 + steps_from prm (mi_row_of prm r) l"
| "wcost prm (WRun r cs l) = 5 + length cs + steps_from prm (mi_row_of prm r) l"
| "wcost prm WFinish = 2"

fun kcost :: "nat \<Rightarrow> kpc \<Rightarrow> nat" where
  "kcost n (KSignal i) = 4 * (n - i) + 3"
| "kcost n KCheck = 2"
| "kcost n KWait = 1"
| "kcost n KDone = 0"

definition wave_cost :: "lfprm \<Rightarrow> wave \<Rightarrow> nat" where
  "wave_cost prm st =
     kcost (length (workers st)) (kern st) + sum_list (map (wcost prm) (workers st))
     + sum_list (map (\<lambda>r. 2 + steps_from prm (mi_row_of prm r) (row_locals prm (int r))) [sb_row_pro st..<nrows prm])"

lemma steps_from_pair:
  assumes "mi_col l < mi_cols prm"
  shows "steps_from prm mr l = 2 + length (fst (pair_body prm mr l)) + steps_from prm mr (snd (pair_body prm mr l))"
proof -
  have "nat ((mi_cols prm - mi_col l + 15) div 16) = Suc (nat ((mi_cols prm - (mi_col l + 16) + 15) div 16))"
    using assms by linarith
  then show ?thesis using assms unfolding steps_from_def by (subst calls_from.simps) (simp add: pair_body_col)
qed

lemma worker_cost:
  assumes w: "w < length (workers st)" and k: "kcost (length (workers st)) (kern st') \<le> kcost (length (workers st)) (kern st)"
    and st': "workers st' = (workers st)[w := pc']" "sb_row_pro st' = sb_row_pro st" and pc': "wcost prm pc' < wcost prm (workers st ! w)"
  shows "wave_cost prm st' < wave_cost prm st"
proof -
  have "wcost prm (workers st ! w) \<le> sum_list (map (wcost prm) (workers st))" using w by (intro member_le_sum_list) auto
  moreover have "sum_list (map (wcost prm) (workers st')) = sum_list (map (wcost prm) (workers st)) + wcost prm pc' - wcost prm (workers st ! w)"
    using w by (simp add: st' map_update sum_list_update)
  ultimately show ?thesis using pc' k by (simp add: wave_cost_def st')
qed

lemma wave_cost_worker:
  assumes w: "w < length (workers st)" and step: "lf_worker_step prm w st = Some st'" shows "wave_cost prm st' < wave_cost prm st"
proof (cases "workers st ! w")
  case WFetch
  have st': "st' = set_pc w (if sb_row_pro st < nrows prm then WCol (sb_row_pro st) (row_locals prm (int (sb_row_pro st))) else WFinish)
      (st\<lparr>sb_row_pro := sb_row_pro st + 1\<rparr>)" using step WFetch by (simp add: lf_worker_step_def Let_def mi_row_less)
  have le: "wcost prm (workers st ! w) \<le> sum_list (map (wcost prm) (workers st))" using w by (intro member_le_sum_list) auto
  have u: "sum_list (map (wcost prm) ((workers st)[w := pc])) = sum_list (map (wcost prm) (workers st)) + wcost prm pc - 3" for pc
    using w WFetch by (simp add: map_update sum_list_update)
  show ?thesis
    using le WFetch by (cases "sb_row_pro st < nrows prm") (simp_all add: st' wave_cost_def u upt_conv_Cons)
next
  case (WCol r l)
  show ?thesis
  proof (cases "mi_col l < mi_cols prm")
    case True
    then show ?thesis
      using step WCol steps_from_pair[OF True, of "mi_row_of prm r"]
      by (intro worker_cost[OF w, where pc' = "workers st' ! w"])
        (auto simp: lf_worker_step_def w split: if_splits prod.splits)
  next
    case False
    then show ?thesis
      using step WCol by (intro worker_cost[OF w, where pc' = WFetch]) (auto simp: lf_worker_step_def chart_inc_def split: if_splits)
  qed
next
  case (WRun r cs l)
  then show ?thesis
    using step by (intro worker_cost[OF w, where pc' = "workers st' ! w"])
      (auto simp: lf_worker_step_def chart_inc_def w bind_eq_Some_conv split: if_splits list.splits)
qed (use step in \<open>auto simp: lf_worker_step_def Let_def intro!: worker_cost[OF w]\<close>)

lemma wave_cost_kernel:
  assumes step: "kernel_step st = Some st'" shows "wave_cost prm st' < wave_cost prm st"
proof (cases "\<exists>i. kern st = KSignal i \<and> i < length (workers st)")
  case True
  then obtain i where i: "kern st = KSignal i" "i < length (workers st)" by blast
  then have st': "st' = st\<lparr>kern := KSignal (i + 1), workers := (workers st)[i := wake (workers st ! i)]\<rparr>"
    using step by (simp add: kernel_step_def)
  have "wcost prm (wake (workers st ! i)) \<le> wcost prm (workers st ! i) + 3" by (cases "workers st ! i") auto
  moreover have "sum_list (map (wcost prm) ((workers st)[i := wake (workers st ! i)]))
      = sum_list (map (wcost prm) (workers st)) + wcost prm (wake (workers st ! i)) - wcost prm (workers st ! i)"
    using i by (simp add: map_update sum_list_update)
  ultimately show ?thesis using i by (simp add: wave_cost_def st')
next
  case False
  then show ?thesis using step by (auto simp: kernel_step_def wave_cost_def split: kpc.splits if_splits)
qed

lemma wave_ends: "\<nexists>f. \<forall>i. wave_step prm (f i) (f (Suc i))"
proof
  assume "\<exists>f. \<forall>i. wave_step prm (f i) (f (Suc i))"
  then obtain f where f: "\<And>i. wave_step prm (f i) (f (Suc i))" by blast
  have "(f (Suc i), f i) \<in> measure (wave_cost prm)" for i
    using f[of i] by cases (simp_all add: wave_cost_worker wave_cost_kernel)
  then show False using wf_measure[of "wave_cost prm"] by (auto simp: wf_iff_no_infinite_down_chain)
qed

text \<open>C3: In every interleaving of the workers the frame is filtered exactly as by one thread that takes the
  superblocks row by row. The workers read and write the same frame without locks; only the progress
  chart keeps them apart. For a frame with a border of eight pixels, at most 63 rows of superblocks and
  valid masks, no access is out of bounds, and when the launch returns the frame and the masks are those
  of the serial filter.\<close>

theorem lf_wave_refines_serial:
  assumes "frame_ok prm" "frame_fits prm m0" "0 < n"
  shows "\<exists>m. lf_serial prm m0 = Some m \<and>
    (\<forall>st. (wave_step prm)\<^sup>*\<^sup>* (lf_launch m0 (replicate n WWait)) st \<longrightarrow> kern st = KDone \<longrightarrow> lw_mem st = m)"
proof -
  obtain m where m: "lf_serial prm m0 = Some m" using lf_serial_defined assms(1,2) by blast
  have "lw_mem st = m" if "(wave_step prm)\<^sup>*\<^sup>* (lf_launch m0 (replicate n WWait)) st" "kern st = KDone" for st
    using wave_inv_done[OF wave_inv_reachable[OF assms(1) that(1) wave_inv_launch[OF assms(1,3)]] that(2)] m by simp
  then show ?thesis using m by blast
qed

text \<open>C5: A launch returns when all workers wait for it: no interleaving runs for ever, and a state in which no
  thread can go on is one in which the launch has returned. The workers never wait for each other in a
  circle, since the one in the topmost row can always go on.\<close>

theorem lf_wave_returns:
  assumes "frame_ok prm" "frame_fits prm m0" "0 < n"
  shows "(\<nexists>f. f 0 = lf_launch m0 (replicate n WWait) \<and> (\<forall>i. wave_step prm (f i) (f (Suc i)))) \<and>
    (\<forall>st. (wave_step prm)\<^sup>*\<^sup>* (lf_launch m0 (replicate n WWait)) st \<longrightarrow> (\<nexists>st'. wave_step prm st st') \<longrightarrow> kern st = KDone)"
proof -
  obtain m where m: "lf_serial prm m0 = Some m" using lf_serial_defined assms(1,2) by blast
  have "kern st = KDone" if "(wave_step prm)\<^sup>*\<^sup>* (lf_launch m0 (replicate n WWait)) st" "\<nexists>st'. wave_step prm st st'" for st
    using wave_not_stuck[OF assms(1) wave_inv_reachable[OF assms(1) that(1) wave_inv_launch[OF assms(1,3)]] m] that(2) by blast
  then show ?thesis using wave_ends by blast
qed

text \<open>C26: A launch that comes before a worker waits for it is lost: the signal wakes nobody, the worker then
  waits, and launch and worker wait for each other for ever. Nothing in the code prevents it: the
  constructor starts the threads and returns at once, and a launch returns before its workers wait again.\<close>

theorem lf_wave_lost_signal:
  "\<exists>st. (wave_step prm)\<^sup>*\<^sup>* (lf_launch m0 (lf_threads 1)) st \<and> (\<nexists>st'. wave_step prm st st') \<and> kern st = KWait \<and> lw_mem st = m0"
proof -
  let ?s0 = "lf_launch m0 (lf_threads 1)"
  let ?s1 = "?s0\<lparr>kern := KSignal 1\<rparr>" and ?s2 = "?s0\<lparr>kern := KCheck\<rparr>" and ?s3 = "?s0\<lparr>kern := KWait\<rparr>"
  let ?s4 = "set_pc 0 WWait ?s3"
  have "wave_step prm ?s0 ?s1" by (rule wave_kernel) (simp add: kernel_step_def lf_launch_def lf_threads_def)
  moreover have "wave_step prm ?s1 ?s2" by (rule wave_kernel) (simp add: kernel_step_def lf_launch_def lf_threads_def)
  moreover have "wave_step prm ?s2 ?s3" by (rule wave_kernel) (simp add: kernel_step_def lf_launch_def lf_threads_def)
  moreover have "wave_step prm ?s3 ?s4" by (rule wave_worker[of 0]) (simp_all add: lf_worker_step_def lf_launch_def lf_threads_def)
  ultimately have "(wave_step prm)\<^sup>*\<^sup>* ?s0 ?s4" by (meson rtranclp.rtrancl_refl rtranclp.rtrancl_into_rtrancl)
  moreover have "\<not> wave_step prm ?s4 st'" for st'
    by (auto simp: wave_step.simps kernel_step_def lf_worker_step_def lf_launch_def lf_threads_def)
  moreover have "kern ?s4 = KWait" "lw_mem ?s4 = m0" by (simp_all add: lf_launch_def lf_threads_def)
  ultimately show ?thesis by blast
qed

lemma calls_from_last:
  assumes J: "16 * int J < mi_cols prm" "mi_cols prm \<le> 16 * int J + 16" and "l_ok prm r j l" "j \<le> J"
  shows "\<exists>cs. calls_from prm mr l = cs @ fst (pair_body prm mr (loc_at prm r J))"
  using assms(3,4)
proof (induction "J - j" arbitrary: j l)
  case 0
  then have l: "l = loc_at prm r J" "mi_col l < mi_cols prm" using J(1) by (auto simp: l_ok_def)
  have "\<not> mi_col (snd (pair_body prm mr l)) < mi_cols prm" using J(2) l by (simp add: pair_body_col loc_at_def)
  then have "calls_from prm mr (snd (pair_body prm mr l)) = []" by (subst calls_from.simps) simp
  then have "calls_from prm mr l = fst (pair_body prm mr l)" using l(2) by (subst calls_from.simps) simp
  then show ?case using l(1) by simp
next
  case (Suc d)
  then have "mi_col l < mi_cols prm" using J(1) by (simp add: l_ok_def)
  moreover obtain cs where "calls_from prm mr (snd (pair_body prm mr l)) = cs @ fst (pair_body prm mr (loc_at prm r J))"
    using Suc.hyps(1)[of "Suc j"] Suc.hyps(2) Suc.prems l_ok_next[OF Suc.prems(1) calculation] by force
  ultimately show ?case by (subst calls_from.simps) simp
qed

text \<open>C27: When a frame has an odd number of superblock columns, the chroma of the last column is filtered with the
  mask of the column before it, since the index is decremented after a step that never incremented it.
  Luma uses the right mask. A frame of a single column reads the mask before the first one, so filtering
  it with chroma is undefined.\<close>

theorem lf_odd_columns:
  assumes "num_planes prm > 1" "0 < mi_cols prm" "odd (ncols prm)" "start prm < stop prm"
  shows "(\<exists>cs b0 b1 b2 mr. row_calls prm r =
      cs @ [CallY (int r * ncols prm + (ncols prm - 1)) b0 mr,
            CallUV (int r * ncols prm + (ncols prm - 2)) b1 mr, CallUV (int r * ncols prm + (ncols prm - 2)) b2 mr])
    \<and> (ncols prm = 1 \<longrightarrow> lf_serial prm m = None)"
proof -
  obtain k where k: "ncols prm = 2 * k + 1" using assms(3) by (elim oddE)
  define J where "J = nat k"
  have J: "ncols prm = 2 * int J + 1" "16 * int J < mi_cols prm" "mi_cols prm \<le> 16 * int J + 8"
    using k assms(2) unfolding J_def ncols_def by linarith+
  let ?l = "\<lambda>r. loc_at prm r J"
  have i: "2 * int J = ncols prm - 1" using J(1) by simp
  have last: "fst (pair_body prm mr (?l r)) = [CallY (int r * ncols prm + (ncols prm - 1)) (buf0 (?l r)) mr,
      CallUV (int r * ncols prm + (ncols prm - 2)) (buf1 (?l r)) mr, CallUV (int r * ncols prm + (ncols prm - 2)) (buf2 (?l r)) mr]" for r mr
    using J(3) assms(1) by (simp add: pair_body_def Let_def loc_at_def i)
  have row: "\<exists>cs. row_calls prm r = cs @ fst (pair_body prm (mi_row_of prm r) (?l r))" for r
    unfolding row_calls_def using J by (intro calls_from_last[OF _ _ l_ok_row]) simp_all
  moreover have "lf_serial prm m = None" if n1: "ncols prm = 1"
  proof -
    have n: "0 < nrows prm" using assms(4) by (simp add: nrows_def)
    obtain cs b0 b1 b2 mr where "row_calls prm 0 = cs @ [CallY 0 b0 mr, CallUV (- 1) b1 mr, CallUV (- 1) b2 mr]"
      using row[of 0] n1 unfolding last by auto
    moreover have "run_call prm (CallUV (- 1) b mr) m1 = None" for b mr m1
      by (simp add: filter_block_plane_uv_def lfm_at_def)
    ultimately have "run_calls prm (row_calls prm 0 @ ys) m = None" for ys
      by (simp add: run_calls_append del: run_call.simps split: Option.bind_split)
    then show ?thesis using n by (simp add: lf_serial_def upt_conv_Cons)
  qed
  ultimately show ?thesis unfolding last by blast
qed

text \<open>A frame of two by two superblocks with chroma.\<close>

definition lf_sample_info :: LoopFilterInfoN where
  "lf_sample_info = \<lparr>lfthr = [\<lparr>mblim = 20, lim = 5, hev_thr = 1\<rparr>], lvl = [], mode_lf_lut = []\<rparr>"

definition lf_sample_mask :: LoopFilterMask where
  "lf_sample_mask = \<lparr>left_y = replicate 4 0x0101010101010101, above_y = replicate 4 0xff, int_4x4_y = 0x81,
     left_uv = replicate 4 0x1111, above_uv = replicate 4 0xf, int_4x4_uv = 1, lfl_y = replicate 64 0, lfl_uv = replicate 16 0\<rparr>"

definition lf_sample_prm :: lfprm where
  "lf_sample_prm = \<lparr>start = 0, stop = 16, num_planes = 3, mi_rows = 16, mi_cols = 16, y_offset = 1096, u_offset = 19088, v_offset = 24280,
     y_stride = 136, uv_stride = 72, lf_info = lf_sample_info\<rparr>"

definition lf_sample_mem :: lfmem where
  "lf_sample_mem = \<lparr>lf_pix = replicate 28888 128, lf_masks = replicate 4 lf_sample_mask\<rparr>"

lemma lf_sample_ok: "frame_ok lf_sample_prm"
  by (simp add: frame_ok_def lf_sample_prm_def ncols_def nrows_def plane_lo_def plane_hi_def apart_def MAX_SB_ROW_def)

lemma lf_sample_fits: "frame_fits lf_sample_prm lf_sample_mem"
proof -
  have "levels_ok lf_sample_info (replicate k 0)" for k by (simp add: levels_ok_def lf_sample_info_def list_all_iff)
  then have "lfm_ok lf_sample_info lf_sample_mask" unfolding lfm_ok_def lf_sample_mask_def LoopFilterMask.select_convs length_replicate by blast
  then have m: "masks_ok lf_sample_info lf_sample_mem" unfolding masks_ok_def lf_sample_mem_def lfmem.select_convs by (auto simp: list_all_iff)
  have l: "length (lf_pix lf_sample_mem) = 28888" "length (lf_masks lf_sample_mem) = 4"
    unfolding lf_sample_mem_def lfmem.select_convs length_replicate by simp_all
  show ?thesis unfolding frame_fits_def l using m
    by (simp add: lf_sample_prm_def ncols_def nrows_def plane_lo_def plane_hi_def)
qed

theorem lf_wave_refines_serial_witness:
  "\<exists>m. lf_serial lf_sample_prm lf_sample_mem = Some m
     \<and> lw_mem ` {st. (wave_step lf_sample_prm)\<^sup>*\<^sup>* (lf_launch lf_sample_mem (replicate 4 WWait)) st \<and> kern st = KDone} \<subseteq> {m}"
  using lf_wave_refines_serial[OF lf_sample_ok lf_sample_fits, of 4] by fastforce

theorem lf_wave_returns_witness:
  "(\<nexists>f. f 0 = lf_launch lf_sample_mem (replicate 4 WWait) \<and> (\<forall>i. wave_step lf_sample_prm (f i) (f (Suc i))))
   \<and> {st. (wave_step lf_sample_prm)\<^sup>*\<^sup>* (lf_launch lf_sample_mem (replicate 4 WWait)) st \<and> (\<nexists>st'. wave_step lf_sample_prm st st')}
       \<subseteq> {st. kern st = KDone}"
proof -
  have "0 < (4 :: nat)" by simp
  from lf_wave_returns[OF lf_sample_ok lf_sample_fits this] show ?thesis by blast
qed

theorem lf_odd_columns_witness:
  "lf_serial (lf_sample_prm\<lparr>mi_cols := 8\<rparr>) lf_sample_mem = None"
  using lf_odd_columns[of "lf_sample_prm\<lparr>mi_cols := 8\<rparr>" 0 lf_sample_mem] by (simp add: lf_sample_prm_def ncols_def)

end
