(* ===== verification/Spec2Isabelle.thy ===== *)
theory Spec2Isabelle
  imports Rs_Storage Rs_ElementStream Rs_Adst Rs_Walsh Rs_CpuCore Rs_LfWave
begin

text \<open>
  A verification library for the RenderScript runtime (the C++ and C sources under \<open>src/\<close>).

  \<^bold>\<open>The program.\<close> A client creates a context, and in it elements (the description of a cell), types (an
  element with dimensions and mipmap levels) and allocations (memory for the cells of a type). They are
  objects with reference counts, shared through caches, and can be written to streams. Scripts run kernels
  over the cells of allocations; the CPU driver cuts a launch into slices for its worker threads. The
  runtime library of the scripts accesses the cells through pointers and strides and holds the integer
  transforms of the VP9 decoder; the loop filter of the decoder is an intrinsic with worker threads of
  its own.

  \<^bold>\<open>How code is modelled.\<close> A class is a record, an enumeration a datatype, a fixed-width integer a word
  that wraps around. Functions are executable definitions under their names in the source, with the name
  of the class in front where it is needed. Code that changes an object takes the state and returns the
  new one. The undefined behaviour of the language (access outside a block, null or dangling pointers, reads
  of indeterminate bytes, shifts that are too wide) is \<open>None\<close>, so a theorem that a function returns
  \<open>Some\<close> includes that none of it happens; errors that the code reports are values. Threads are step
  relations, one thread at a time. The data model is LP64, little-endian, and the build is the one with
  \<open>RS_COMPATIBILITY_LIB\<close>, in which the driver makes no OpenGL calls and has no surfaces.

  \<^bold>\<open>Basis.\<close>

  \<^item> \<open>Rs_Prelude\<close>: words, byte blocks, option and list lemmas; the collections that the proofs use.
  \<^item> \<open>Rs_Memory\<close>: the heap of blocks with \<open>memcpy\<close>, \<open>memset\<close>, \<open>memalign\<close>, \<open>realloc\<close> and \<open>free\<close>, and what a read
    sees after a write. Whether \<open>memalign\<close> has memory is a parameter (\<open>avail\<close>); \<open>realloc\<close> is taken not to
    fail.
  \<^item> \<open>Rs_Utils\<close>: the helpers of \<open>rsCppUtils.h\<close> and \<open>rsCppUtils.cpp\<close>. \<open>rsHigherPow2\<close> is the least power of
    two above its argument; the box filter averages each channel.
  \<^item> \<open>Rs_Footprint\<close>: programs and the locations they use; the locale \<open>store\<close> shows that programs with
    disjoint footprints commute.

  \<^bold>\<open>Objects, elements and types.\<close>

  \<^item> \<open>Rs_Stream\<close>: \<open>rsStream.cpp\<close>. The contract of a store and load pair is the locale \<open>stream_codec\<close>,
    interpreted for every pair; its lemmas give the round trips also when more is written
    later. \<open>addString\<close> grows the block at most once, and the theorem about it shows the write out of bounds.
  \<^item> \<open>Rs_Component\<close>: \<open>rsComponent.cpp\<close>, sizes and padding of vectors, and the component as a codec.
  \<^item> \<open>Rs_Element\<close>: sizes, \<open>compute\<close>, reference walks and serialisation of \<open>rsElement.cpp\<close>. The fields of a
    structure lie back to back, padded and unpadded, and within the structure if they are
    plain; a nested structure counts as zero bits.
  \<^item> \<open>Rs_Type\<close>: \<open>rsType.cpp\<close>. Level tables and cell counts are right for types without YUV format and with less
    than \<open>2^32\<close> cells in level 0; for YUV types \<open>compute\<close> writes past its arrays.
  \<^item> \<open>Rs_Object\<close>: \<open>rsObjectBase.h\<close> and \<open>rsObjectBase.cpp\<close>. The locale \<open>object_class\<close> is what a class owes the object
    system (its \<open>preDestroy\<close> returns and touches neither the objects nor the head of their list); in it, the invariant \<open>rc_inv\<close>
    (the object list is well linked, and every system count is the number of references held) is
    kept by every operation, and deletion cascades end.
  \<^item> \<open>Rs_Context\<close>: the caches of a context, \<open>Element::createRef\<close>, \<open>Type::getTypeRef\<close>, their \<open>create\<close> forms and
    destructors, an interpretation of \<open>object_class\<close>. The invariant \<open>ctx_inv\<close> adds that the caches hold
    live objects and nothing is left without a reference. Creation shares equal requests, giving up a
    reference deletes what it should, and destroying a context deletes everything.
  \<^item> \<open>Rs_ElementStream\<close>: what \<open>Element::serialize\<close> writes, \<open>createFromStream\<close> reads back as the same element, for
    single elements and structures of any nesting. The cache must hold no duplicates
    (\<open>cache_canonical\<close>), which creation with arguments that \<open>Component::set\<close> keeps, creation of
    structures and deletion preserve.

  \<^bold>\<open>Allocations.\<close>

  \<^item> \<open>Rs_DrvAllocation\<close>: \<open>driver/rsdAllocation.cpp\<close>, the pointer table, reads, writes and copies of rectangles,
    mipmaps, creation, destruction and resizing.
  \<^item> \<open>Rs_DrvCopy\<close>: its effect on cells. A cell is a face, a level and three coordinates; the table places
    different cells apart, a write of a rectangle changes exactly its cells, and a read
    returns what was written. These are for allocations without object references and YUV planes.
  \<^item> \<open>Rs_Allocation\<close>: \<open>rsAllocation.cpp\<close>, the checks before a call of the driver, the packed form, streams, and the
    entry points \<open>rsi_\<close>. \<open>Allocation_decRefs\<close> is undefined for a pointer to no live block, also when the walk
    would read nothing there.
  \<^item> \<open>Rs_Storage\<close>: all allocations of a context. The entry points are the steps of \<open>rsi_step\<close>; all of them keep the
    cells of all allocations apart and in live memory. Creation is taken for memory of the driver (\<open>creatable\<close>:
    no user pointer, no IO usage, no YUV format without mipmaps, at most sixteen levels, and six times their
    size below 4 GiB), resizing for memory that is not shared and has no YUV format (\<open>resizable\<close>). The restriction on shared
    memory is needed: it keeps its size when the type grows, and a theorem shows the cells without
    memory. Two more theorems state what the driver does when memory runs out and which dimensions its mipmap
    levels have.

  \<^bold>\<open>Script runtime.\<close>

  \<^item> \<open>Rs_Runtime\<close>: \<open>driver/runtime/rs_structs.h\<close> and \<open>rs_allocation.c\<close>. The locale \<open>elem_store\<close> is the
    contract of typed element access, interpreted for \<open>uchar\<close> and \<open>short\<close>.
  \<^item> \<open>Rs_Idct\<close>, \<open>Rs_Dct\<close>, \<open>Rs_Adst\<close>, \<open>Rs_Walsh\<close>: \<open>rs_idct.c\<close>, \<open>rs_dct.c\<close>, \<open>rs_iadst.c\<close>, \<open>rs_fadst.c\<close>, \<open>rs_walsh.c\<close> of
    \<open>driver/runtime\<close>. The shorter versions of an inverse transform agree with the full one for every block
    they are used for; a flat residual goes through forward and inverse transform unchanged; forward
    and inverse sine transforms agree on lines of residuals. Signed overflow wraps in the model.

  \<^bold>\<open>CPU driver.\<close>

  \<^item> \<open>Rs_CpuCore\<close>: \<open>cpu_ref/rsCpuCore.cpp\<close>, the launch setup of \<open>cpu_ref/rsCpuScript.cpp\<close> and \<open>rsSignal.cpp\<close>. In every
    interleaving a launch returns, and it has then called the kernel for the rows of a plane, or for the
    columns of a line, exactly as the serial loop does. A wait returns only when its signal is set, except in
    the theorem that shows what a spurious wakeup does.
  \<^item> \<open>Rs_LoopFilter\<close>: the C functions of \<open>cpu_ref/rsCpuIntrinsicLoopFilter.cpp\<close> from the edge filters to the planes
    of a superblock, what they do to pixels, and their footprints (two interpretations of \<open>store\<close>).
  \<^item> \<open>Rs_LfWave\<close>: the worker threads of that file. In every interleaving the result is that of the serial
    filter, and a launch returns once all workers wait for it; a launch before that may hang. The frame
    must fit (\<open>frame_ok\<close>, \<open>frame_fits\<close>). Condition variables have no spurious wakeups here. Offsets are unbounded
    integers; the code computes the offset of a row in a 32-bit \<open>int\<close>, which is the same for frames of
    less than 2 GiB (\<open>row_locals_in_int\<close>).

  \<^bold>\<open>Bounds and fuel.\<close> A cascade of deletions gets the number of objects plus one as fuel, which is enough since an
  object is deleted at most once; the theorem on giving up a reference proves that it returns. The
  walks over a structure and the stream functions of elements and types take the depth of nesting as
  fuel. The round trip of elements needs no more for reading than for writing. The loops over
  the object list and the growth of a stream are partial functions, proved to return under the
  invariant. The thread systems have measures that bound the number of steps.

  \<^bold>\<open>Not modelled.\<close> Compiled scripts, their loading and script groups; floating point, so the matrices, most
  intrinsics and the single-precision parts of the runtime; vector assembly; OpenGL, surfaces and
  graphics state; the render thread, sockets and other calls of the operating system; the generators
  of the build, the client library in C++ and tests. Locks are not modelled: an operation under a lock is
  one step.
\<close>

end
